(* ===== verification/Prelude.thy ===== *)
theory Prelude
  imports
    Complex_Main
    "HOL-Library.AList"
    "HOL-Library.Char_ord"
    "HOL-Library.List_Lexorder"
    "HOL-Library.Multiset"
    "HOL-Library.Product_Lexorder"
    "HOL-Library.Sublist"
    "HOL-Library.Word"
begin

text \<open>
  What the components share: Rust strings as their UTF-8 bytes and the \<open>str\<close> methods the
  code calls, hash maps as association lists in iteration order, the first-match search of an
  iterator, and the interface \<open>keyed_store\<close> that every component with a lookup table
  implements.

  \<^item> A Rust \<open>String\<close> is a \<^typ>\<open>string\<close>: the list of its UTF-8 bytes. \<open>len()\<close> is then
    \<^const>\<open>length\<close>, comparison is the bytewise lexicographic order, and searching for an ASCII
    pattern is searching for its bytes.
  \<^item> An \<open>Instant\<close> and a \<open>Duration\<close> are \<^typ>\<open>nat\<close> counts of nanoseconds; \<open>elapsed()\<close> is
    truncated subtraction, as \<open>Instant::duration_since\<close> saturates at zero.
  \<^item> A \<open>HashMap\<close> or \<open>DashMap\<close> is a \<open>table\<close>, an association list with distinct keys, in
    the order an iteration would visit it. A theorem about every table holds for every order.
\<close>

section \<open>Hint collections\<close>

named_theorems table_simps \<open>reading a table after an update\<close>
named_theorems table_ok_intros \<open>operations keep the keys of a table distinct\<close>

section \<open>Results\<close>

text \<open>\<open>Result<T, E>\<close> is a sum: \<^const>\<open>Inl\<close> is \<open>Err\<close>, \<^const>\<open>Inr\<close> is \<open>Ok\<close>.\<close>

type_synonym ('e, 'a) res = "'e + 'a"

abbreviation Err :: "'e \<Rightarrow> ('e, 'a) res" where
  "Err \<equiv> Inl"

abbreviation Ok :: "'a \<Rightarrow> ('e, 'a) res" where
  "Ok \<equiv> Inr"

definition is_ok :: "('e, 'a) res \<Rightarrow> bool" where
  "is_ok r = (case r of Inl _ \<Rightarrow> False | Inr _ \<Rightarrow> True)"

lemma is_ok_simps [simp]: "is_ok (Err e) = False" "is_ok (Ok a) = True"
  by (simp_all add: is_ok_def)

definition map_err :: "('e \<Rightarrow> 'f) \<Rightarrow> ('e, 'a) res \<Rightarrow> ('f, 'a) res" where
  "map_err f r = (case r of Inl e \<Rightarrow> Inl (f e) | Inr a \<Rightarrow> Inr a)"

lemma map_err_simps [simp]: "map_err f (Err e) = Err (f e)" "map_err f (Ok a) = Ok a"
  by (simp_all add: map_err_def)

section \<open>Strings\<close>

definition byte_of :: "char \<Rightarrow> nat" where
  "byte_of c = of_char c"

text \<open>\<open>str::contains\<close> for a string pattern.\<close>

fun str_contains :: "string \<Rightarrow> string \<Rightarrow> bool" where
  "str_contains [] p = (p = [])"
| "str_contains (c # cs) p = (prefix p (c # cs) \<or> str_contains cs p)"

lemma str_contains_iff: "str_contains s p = sublist p s"
  by (induction s) (auto simp: sublist_Cons_right)

text \<open>\<open>str::starts_with\<close>.\<close>

definition starts_with :: "string \<Rightarrow> string \<Rightarrow> bool" where
  "starts_with s p = prefix p s"

text \<open>\<open>str::split_once\<close> for a one-byte separator: the text before and after its first occurrence.\<close>

fun split_once :: "char \<Rightarrow> string \<Rightarrow> (string \<times> string) option" where
  "split_once d [] = None"
| "split_once d (c # cs) =
     (if c = d then Some ([], cs)
      else map_option (\<lambda>(a, b). (c # a, b)) (split_once d cs))"

lemma split_once_None: "split_once d s = None \<longleftrightarrow> d \<notin> set s"
  by (induction s) auto

lemma split_once_Some:
  "split_once d s = Some (a, b) \<longleftrightarrow> s = a @ d # b \<and> d \<notin> set a"
proof (induction s arbitrary: a)
  case Nil
  then show ?case by simp
next
  case (Cons c cs)
  show ?case
  proof (cases "c = d")
    case True
    then show ?thesis by (cases a) auto
  next
    case False
    then show ?thesis using Cons by (cases a) auto
  qed
qed

text \<open>
  \<open>s.trim().is_empty()\<close>: the string holds nothing but Unicode white space. The code points
  with \<open>White_Space\<close> are U+0009 to U+000D, U+0020, U+0085, U+00A0, U+1680, U+2000 to U+200A,
  U+2028, U+2029, U+202F, U+205F and U+3000; the equations read their UTF-8 encodings.
\<close>

fun is_blank_bytes :: "nat list \<Rightarrow> bool" where
  "is_blank_bytes [] = True"
| "is_blank_bytes (a # as) =
     (if (9 \<le> a \<and> a \<le> 13) \<or> a = 32 then is_blank_bytes as
      else (case as of
        [] \<Rightarrow> False
      | b # bs \<Rightarrow>
          if a = 194 \<and> (b = 133 \<or> b = 160) then is_blank_bytes bs
          else (case bs of
            [] \<Rightarrow> False
          | c # cs \<Rightarrow>
              if (a = 225 \<and> b = 154 \<and> c = 128)
                 \<or> (a = 226 \<and> b = 128 \<and> ((128 \<le> c \<and> c \<le> 138) \<or> c = 168 \<or> c = 169 \<or> c = 175))
                 \<or> (a = 226 \<and> b = 129 \<and> c = 159)
                 \<or> (a = 227 \<and> b = 128 \<and> c = 128)
              then is_blank_bytes cs else False)))"

definition is_blank :: "string \<Rightarrow> bool" where
  "is_blank s = is_blank_bytes (map byte_of s)"

lemma is_blank_Nil [simp]: "is_blank []"
  by (simp add: is_blank_def)

text \<open>
  \<open>str::to_lowercase\<close> follows the Unicode tables, so the operations that use it take it as an
  argument \<open>lc\<close> and every theorem holds for any such function. Concrete instances use the
  ASCII part of it, written here.
\<close>

definition ascii_lower_char :: "char \<Rightarrow> char" where
  "ascii_lower_char c = (if 65 \<le> byte_of c \<and> byte_of c \<le> 90 then char_of (byte_of c + 32) else c)"

definition ascii_lower :: "string \<Rightarrow> string" where
  "ascii_lower s = map ascii_lower_char s"

text \<open>Decimal rendering of an unsigned integer, as \<open>format!("{}")\<close> writes it.\<close>

fun show_nat :: "nat \<Rightarrow> string" where
  "show_nat n = (if n < 10 then [char_of (48 + n)] else show_nat (n div 10) @ [char_of (48 + n mod 10)])"

declare show_nat.simps [simp del]

lemma show_nat_not_Nil [simp]: "show_nat n \<noteq> []"
  by (subst show_nat.simps) simp

text \<open>\<open>slice::join\<close>.\<close>

fun join :: "string \<Rightarrow> string list \<Rightarrow> string" where
  "join sep [] = []"
| "join sep [x] = x"
| "join sep (x # y # ys) = x @ sep @ join sep (y # ys)"

lemma length_join:
  "length (join sep xs) = sum_list (map length xs) + length sep * (length xs - 1)"
  by (induction sep xs rule: join.induct) auto

section \<open>Counters\<close>

lemma unat_succ64:
  fixes w :: "64 word"
  assumes "unat w + 1 < 2 ^ 64"
  shows "unat (w + 1) = unat w + 1"
  using assms by (simp add: unat_word_ariths)

section \<open>Iterators\<close>

lemma find_Some_append:
  "List.find P (xs @ ys) = (case List.find P xs of None \<Rightarrow> List.find P ys | Some x \<Rightarrow> Some x)"
  by (induction xs) auto

lemma find_SomeD: "List.find P xs = Some x \<Longrightarrow> x \<in> set xs \<and> P x"
  by (induction xs) (auto split: if_splits)

lemma find_None_iff_all: "List.find P xs = None \<longleftrightarrow> (\<forall>x\<in>set xs. \<not> P x)"
  by (induction xs) auto

lemma find_Some_ex: "(\<exists>x\<in>set xs. P x) \<Longrightarrow> \<exists>x. List.find P xs = Some x"
  using find_None_iff_all [of P xs] by auto

lemma mem_image_iff: "y \<in> f ` A \<longleftrightarrow> (\<exists>x\<in>A. f x = y)"
  by (auto intro: rev_image_eqI)

text \<open>Updating an element at an index keeps what the update does not change.\<close>

lemma nth_update_keep: "f y = f (xs ! r) \<Longrightarrow> f (xs[r := y] ! i) = f (xs ! i)"
  by (cases "r < length xs"; cases "r = i") (auto simp: list_update_beyond not_less)

text \<open>\<open>Iterator::find_map\<close>.\<close>

fun find_map :: "('a \<Rightarrow> 'b option) \<Rightarrow> 'a list \<Rightarrow> 'b option" where
  "find_map f [] = None"
| "find_map f (x # xs) = (case f x of None \<Rightarrow> find_map f xs | Some y \<Rightarrow> Some y)"

lemma find_map_SomeD: "find_map f xs = Some y \<Longrightarrow> \<exists>x\<in>set xs. f x = Some y"
  by (induction xs) (auto split: option.splits)

lemma find_map_None_iff: "find_map f xs = None \<longleftrightarrow> (\<forall>x\<in>set xs. f x = None)"
  by (induction xs) (auto split: option.splits)

section \<open>Tables\<close>

type_synonym ('k, 'v) table = "('k \<times> 'v) list"

definition table_ok :: "('k, 'v) table \<Rightarrow> bool" where
  "table_ok t = distinct (map fst t)"

abbreviation tget :: "('k, 'v) table \<Rightarrow> 'k \<Rightarrow> 'v option" where
  "tget \<equiv> map_of"

abbreviation tput :: "'k \<Rightarrow> 'v \<Rightarrow> ('k, 'v) table \<Rightarrow> ('k, 'v) table" where
  "tput \<equiv> AList.update"

abbreviation tdel :: "'k \<Rightarrow> ('k, 'v) table \<Rightarrow> ('k, 'v) table" where
  "tdel \<equiv> AList.delete"

abbreviation tkeys :: "('k, 'v) table \<Rightarrow> 'k list" where
  "tkeys \<equiv> map fst"

abbreviation tvalues :: "('k, 'v) table \<Rightarrow> 'v list" where
  "tvalues \<equiv> map snd"

text \<open>\<open>HashMap::retain\<close>, and an update of every value in place.\<close>

definition tretain :: "('k \<Rightarrow> 'v \<Rightarrow> bool) \<Rightarrow> ('k, 'v) table \<Rightarrow> ('k, 'v) table" where
  "tretain P t = filter (\<lambda>(k, v). P k v) t"

definition tmap_values :: "('k \<Rightarrow> 'v \<Rightarrow> 'v) \<Rightarrow> ('k, 'v) table \<Rightarrow> ('k, 'v) table" where
  "tmap_values f t = map (\<lambda>(k, v). (k, f k v)) t"

lemma tget_tput [table_simps]: "tget (tput k v t) k' = (if k' = k then Some v else tget t k')"
  by (simp add: update_conv')

lemma tget_tdel [table_simps]: "tget (tdel k t) k' = (if k' = k then None else tget t k')"
  by (simp add: delete_conv')

lemma table_ok_Nil [simp, table_ok_intros]: "table_ok []"
  by (simp add: table_ok_def)

lemma table_ok_tput [simp, table_ok_intros]: "table_ok t \<Longrightarrow> table_ok (tput k v t)"
  by (simp add: table_ok_def distinct_update)

lemma table_ok_tdel [simp, table_ok_intros]: "table_ok t \<Longrightarrow> table_ok (tdel k t)"
  by (simp add: table_ok_def distinct_delete)

lemma table_ok_tretain [simp, table_ok_intros]: "table_ok t \<Longrightarrow> table_ok (tretain P t)"
  by (induction t) (auto simp: table_ok_def tretain_def)

lemma tkeys_tmap_values [simp]: "tkeys (tmap_values f t) = tkeys t"
  by (induction t) (auto simp: tmap_values_def)

lemma table_ok_tmap_values [simp, table_ok_intros]: "table_ok (tmap_values f t) = table_ok t"
  by (simp add: table_ok_def)

lemma tget_tmap_values [table_simps]: "tget (tmap_values f t) k = map_option (f k) (tget t k)"
  by (induction t) (auto simp: tmap_values_def)

lemma tget_tretain [table_simps]:
  "table_ok t \<Longrightarrow>
   tget (tretain P t) k = (case tget t k of None \<Rightarrow> None | Some v \<Rightarrow> if P k v then Some v else None)"
proof (induction t)
  case Nil
  then show ?case by (simp add: tretain_def)
next
  case (Cons p t)
  obtain k0 v0 where p: "p = (k0, v0)" by (cases p)
  from Cons.prems p have nin: "k0 \<notin> set (tkeys t)" and ok: "table_ok t"
    by (auto simp: table_ok_def)
  have none: "tget t k0 = None" using nin by (simp add: map_of_eq_None_iff)
  show ?case using Cons.IH [OF ok] none p by (auto simp: tretain_def)
qed

lemma tget_in: "tget t k = Some v \<Longrightarrow> (k, v) \<in> set t"
  by (rule map_of_SomeD)

lemma in_tget: "table_ok t \<Longrightarrow> (k, v) \<in> set t \<Longrightarrow> tget t k = Some v"
  by (simp add: table_ok_def)

lemma in_tget_iff: "table_ok t \<Longrightarrow> (k, v) \<in> set t \<longleftrightarrow> tget t k = Some v"
  using tget_in in_tget by metis

lemma tkeys_iff: "k \<in> set (tkeys t) \<longleftrightarrow> tget t k \<noteq> None"
  by (simp add: map_of_eq_None_iff)

lemma length_tput:
  "length (tput k v t) = (if tget t k = None then Suc (length t) else length t)"
proof -
  have "length (tkeys (tput k v t)) =
    (if k \<in> set (tkeys t) then length (tkeys t) else Suc (length (tkeys t)))"
    by (simp add: update_keys)
  then show ?thesis by (simp add: tkeys_iff del: set_map)
qed

lemma length_tdel_le: "length (tdel k t) \<le> length t"
  by (simp add: length_delete_le)

section \<open>The lookup interface\<close>

text \<open>
  A component that files values under keys promises what a lookup returns after an insert and
  after a removal. \<open>get\<close>, \<open>put\<close> and \<open>del\<close> are its operations, \<open>ok\<close> its well-formedness
  invariant. What follows about any history of operations is proved here once.
\<close>

datatype ('k, 'v) store_op = Put 'k 'v | Del 'k

fun store_key :: "('k, 'v) store_op \<Rightarrow> 'k" where
  "store_key (Put k v) = k"
| "store_key (Del k) = k"

fun store_result :: "('k, 'v) store_op \<Rightarrow> 'v option" where
  "store_result (Put k v) = Some v"
| "store_result (Del k) = None"

text \<open>What a history of operations leaves under a key: its last operation on it, else what was there.\<close>

fun last_write :: "'v option \<Rightarrow> 'k \<Rightarrow> ('k, 'v) store_op list \<Rightarrow> 'v option" where
  "last_write old k [] = old"
| "last_write old k (x # xs) = last_write (if store_key x = k then store_result x else old) k xs"

lemma last_write_foreign:
  "\<forall>x\<in>set xs. store_key x \<noteq> k \<Longrightarrow> last_write old k xs = old"
  by (induction xs) auto

lemma last_write_append:
  "last_write old k (xs @ ys) = last_write (last_write old k xs) k ys"
  by (induction xs arbitrary: old) auto

locale keyed_store =
  fixes get :: "'s \<Rightarrow> 'k \<Rightarrow> 'v option"
    and put :: "'k \<Rightarrow> 'v \<Rightarrow> 's \<Rightarrow> 's"
    and del :: "'k \<Rightarrow> 's \<Rightarrow> 's"
    and ok :: "'s \<Rightarrow> bool"
  assumes get_put: "ok s \<Longrightarrow> get (put k v s) k' = (if k' = k then Some v else get s k')"
    and get_del: "ok s \<Longrightarrow> get (del k s) k' = (if k' = k then None else get s k')"
    and ok_put: "ok s \<Longrightarrow> ok (put k v s)"
    and ok_del: "ok s \<Longrightarrow> ok (del k s)"
begin

fun apply_op :: "'s \<Rightarrow> ('k, 'v) store_op \<Rightarrow> 's" where
  "apply_op s (Put k v) = put k v s"
| "apply_op s (Del k) = del k s"

fun run_ops :: "'s \<Rightarrow> ('k, 'v) store_op list \<Rightarrow> 's" where
  "run_ops s [] = s"
| "run_ops s (x # xs) = run_ops (apply_op s x) xs"

lemma ok_apply: "ok s \<Longrightarrow> ok (apply_op s x)"
  by (cases x) (auto simp: ok_put ok_del)

lemma ok_run: "ok s \<Longrightarrow> ok (run_ops s xs)"
  by (induction xs arbitrary: s) (auto simp: ok_apply)

lemma get_apply:
  "ok s \<Longrightarrow> get (apply_op s x) k = (if store_key x = k then store_result x else get s k)"
  by (cases x) (auto simp: get_put get_del)

lemma get_run: "ok s \<Longrightarrow> get (run_ops s xs) k = last_write (get s k) k xs"
  by (induction xs arbitrary: s) (auto simp: get_apply ok_apply)

lemma get_run_foreign:
  "ok s \<Longrightarrow> \<forall>x\<in>set xs. store_key x \<noteq> k \<Longrightarrow> get (run_ops s xs) k = get s k"
  by (simp add: get_run last_write_foreign)

lemma put_then_gone: "ok s \<Longrightarrow> get (del k (put k v s)) k = None"
  by (simp add: get_del ok_put)

end

text \<open>The tables themselves are the first provider.\<close>

interpretation tbl: keyed_store tget tput tdel table_ok
  by unfold_locales (auto simp: table_simps table_ok_intros)

end
