(* ===== verification/Breaker_Interface.thy ===== *)
theory Breaker_Interface
  imports Prelude
begin

text \<open>
  The contract of a circuit breaker. The program has two of them, the sandbox's breaker per
  agent and tool (\<open>crates/openalpaca_core/src/security/circuit_breaker/mod.rs\<close>) and the
  router's breaker for the whole provider API
  (\<open>crates/openalpaca_llm/src/routing/rate_limiter/mod.rs\<close>). They differ in what they count
  and in when a second probe may start, and both promise the laws below. What a caller may rely
  on over a whole sequence of calls is proved once, from the laws.
\<close>

text \<open>What reaches a breaker: a caller asking to proceed, and the two outcomes it reports.\<close>

datatype brk_event = EvCheck nat | EvFailure nat | EvSuccess nat

fun ev_time :: "brk_event \<Rightarrow> nat" where
  "ev_time (EvCheck t) = t"
| "ev_time (EvFailure t) = t"
| "ev_time (EvSuccess t) = t"

fun is_success :: "brk_event \<Rightarrow> bool" where
  "is_success (EvSuccess t) = True"
| "is_success _ = False"

text \<open>The events lie between two instants and their clock does not run backwards.\<close>

fun timed :: "nat \<Rightarrow> nat \<Rightarrow> brk_event list \<Rightarrow> bool" where
  "timed lo hi [] = True"
| "timed lo hi (e # es) = (lo \<le> ev_time e \<and> ev_time e \<le> hi \<and> timed (ev_time e) hi es)"

locale breaker =
  fixes check :: "nat \<Rightarrow> 's \<Rightarrow> bool \<times> 's"
    and success :: "nat \<Rightarrow> 's \<Rightarrow> 's"
    and failure :: "nat \<Rightarrow> 's \<Rightarrow> 's"
    and closed :: "'s \<Rightarrow> bool"
    and opened :: "'s \<Rightarrow> bool"
    and probing :: "'s \<Rightarrow> bool"
    and blocks :: "'s \<Rightarrow> nat \<Rightarrow> bool"
    and past :: "'s \<Rightarrow> nat \<Rightarrow> bool"
    and window :: nat
  assumes closed_admits: "closed s \<Longrightarrow> check now s = (True, s)"
    and open_not_probing: "opened s \<Longrightarrow> \<not> probing s"
    and blocked: "opened s \<or> probing s \<Longrightarrow> blocks s now \<Longrightarrow> check now s = (False, s)"
    and blocks_mono: "blocks s now \<Longrightarrow> t \<le> now \<Longrightarrow> blocks s t"
    and open_failure: "opened s \<Longrightarrow> past s now \<Longrightarrow> opened (failure now s)"
    and open_failure_blocks:
      "opened s \<Longrightarrow> past s now \<Longrightarrow> blocks s t \<Longrightarrow> now \<le> t \<Longrightarrow> blocks (failure now s) t"
    and probe_failure: "probing s \<Longrightarrow> opened (failure now s)"
    and probe_failure_blocks:
      "probing s \<Longrightarrow> now \<le> t \<Longrightarrow> t < now + window \<Longrightarrow> blocks (failure now s) t"
    and probe_admitted: "opened s \<Longrightarrow> \<not> blocks s now \<Longrightarrow> fst (check now s)"
    and probe_starts: "opened s \<Longrightarrow> \<not> blocks s now \<Longrightarrow> probing (snd (check now s))"
    and probe_blocks:
      "opened s \<Longrightarrow> \<not> blocks s now \<Longrightarrow> now \<le> t \<Longrightarrow> t < now + window \<Longrightarrow>
       blocks (snd (check now s)) t"
    and success_closes: "opened s \<or> probing s \<Longrightarrow> closed (success now s)"
    and past_check: "past s now \<Longrightarrow> past (snd (check now s)) now"
    and past_failure: "past s now \<Longrightarrow> past (failure now s) now"
    and past_mono: "past s now \<Longrightarrow> now \<le> t \<Longrightarrow> past s t"
begin

fun step :: "'s \<Rightarrow> brk_event \<Rightarrow> 's" where
  "step s (EvCheck t) = snd (check t s)"
| "step s (EvFailure t) = failure t s"
| "step s (EvSuccess t) = success t s"

text \<open>The answers of the checks in a run, in order.\<close>

fun answers :: "'s \<Rightarrow> brk_event list \<Rightarrow> bool list" where
  "answers s [] = []"
| "answers s (EvCheck t # es) = fst (check t s) # answers (snd (check t s)) es"
| "answers s (EvFailure t # es) = answers (failure t s) es"
| "answers s (EvSuccess t # es) = answers (success t s) es"

text \<open>
  While a breaker is open or probing and its block reaches to the instant \<open>T\<close>, no run of
  checks and failures up to \<open>T\<close> gets a single call through.
\<close>

lemma all_refused:
  assumes "opened s \<or> probing s" and "blocks s T" and "probing s \<Longrightarrow> T < t0 + window"
    and "past s t0" and "timed t0 T es" and "\<forall>e\<in>set es. \<not> is_success e"
  shows "\<forall>b\<in>set (answers s es). \<not> b"
  using assms
proof (induction es arbitrary: s t0)
  case Nil
  then show ?case by simp
next
  case (Cons e es)
  let ?t = "ev_time e"
  from Cons.prems(5) have lo: "t0 \<le> ?t" and hi: "?t \<le> T" and rest: "timed ?t T es" by auto
  from Cons.prems(6) have ns: "\<forall>e\<in>set es. \<not> is_success e" and e: "\<not> is_success e" by auto
  from Cons.prems(4) lo have past: "past s ?t" by (rule past_mono)
  have T: "probing s \<Longrightarrow> T < ?t + window" using Cons.prems(3) lo by auto
  show ?case
  proof (cases e)
    case (EvCheck t)
    then have "check t s = (False, s)"
      using blocked Cons.prems(1,2) blocks_mono hi by (metis ev_time.simps(1))
    moreover have "\<forall>b\<in>set (answers s es). \<not> b"
      using Cons.IH [OF Cons.prems(1,2) T past rest ns] by simp
    ultimately show ?thesis using EvCheck by simp
  next
    case (EvFailure t)
    have op: "opened (failure t s)"
      using Cons.prems(1) open_failure probe_failure past EvFailure by auto
    have bl: "blocks (failure t s) T"
      using Cons.prems(1,2) open_failure_blocks probe_failure_blocks past hi T EvFailure
      by (metis ev_time.simps(2))
    have T': "probing (failure t s) \<Longrightarrow> T < t + window"
      using op open_not_probing by blast
    show ?thesis
      using Cons.IH [of "failure t s" t] op bl T' past_failure past rest ns EvFailure by auto
  next
    case (EvSuccess t)
    with e show ?thesis by simp
  qed
qed

text \<open>An open breaker: nothing passes before its block runs out.\<close>

lemma open_window:
  assumes "opened s" and "past s t0" and "blocks s T" and "timed t0 T es"
    and "\<forall>e\<in>set es. \<not> is_success e"
  shows "\<forall>b\<in>set (answers s es). \<not> b"
  using all_refused [of s T t0 es] assms open_not_probing by blast

text \<open>A probe in flight: it is the only call let through for a whole window.\<close>

lemma single_probe:
  assumes "opened s" and "past s t0" and "\<not> blocks s t0" and "t0 \<le> T" and "T < t0 + window"
    and "timed t0 T es" and "\<forall>e\<in>set es. \<not> is_success e"
  shows "fst (check t0 s) \<and> (\<forall>b\<in>set (answers (snd (check t0 s)) es). \<not> b)"
proof
  show "fst (check t0 s)" using assms(1,3) by (rule probe_admitted)
  show "\<forall>b\<in>set (answers (snd (check t0 s)) es). \<not> b"
  proof (rule all_refused)
    show "opened (snd (check t0 s)) \<or> probing (snd (check t0 s))"
      using probe_starts assms(1,3) by blast
    show "blocks (snd (check t0 s)) T" using probe_blocks assms(1,3,4,5) by blast
    show "past (snd (check t0 s)) t0" using past_check assms(2) by blast
  qed (use assms in auto)
qed

text \<open>Recovery: once the block has run out, one call is let through, and its success closes.\<close>

lemma recovers:
  assumes "opened s" and "\<not> blocks s now"
  shows "fst (check now s)"
    and "check t (success now' (snd (check now s))) = (True, success now' (snd (check now s)))"
  using probe_admitted [OF assms] closed_admits success_closes probe_starts [OF assms] by blast+

text \<open>A closed breaker answers yes for as long as nothing fails.\<close>

lemma closed_run:
  "closed s \<Longrightarrow> \<forall>e\<in>set es. \<exists>t. e = EvCheck t \<Longrightarrow> \<forall>b\<in>set (answers s es). b"
proof (induction es arbitrary: s)
  case Nil
  then show ?case by simp
next
  case (Cons e es)
  then obtain t where "e = EvCheck t" by auto
  with Cons closed_admits [of s t] show ?case by simp
qed

end

end
