(* ===== verification/Circuit_Breaker.thy ===== *)
theory Circuit_Breaker
  imports Breaker_Interface
begin

text \<open>
  The sandbox's circuit breaker
  (\<open>crates/openalpaca_core/src/security/circuit_breaker/mod.rs\<close>): consecutive transient
  failures per agent and tool, the circuit of each pair, the pruning of idle pairs, and the
  classification of a tool's error text. The mutex serialises the operations, so each is one
  function of the state; each reads the clock once, as \<open>now\<close>.
\<close>

section \<open>State\<close>

datatype circuit = CircuitClosed | CircuitOpen nat | CircuitHalfOpen

record tool_state =
  consecutive_failures :: nat
  circuit_state :: circuit
  last_updated :: nat

definition tool_state_default :: "nat \<Rightarrow> tool_state" where
  "tool_state_default now =
     \<lparr>consecutive_failures = 0, circuit_state = CircuitClosed, last_updated = now\<rparr>"

record circuit_breaker_config =
  cbc_enabled :: bool
  cbc_failure_threshold :: nat
  cbc_reset_timeout_secs :: nat

definition circuit_breaker_config_default :: circuit_breaker_config where
  "circuit_breaker_config_default =
     \<lparr>cbc_enabled = True, cbc_failure_threshold = 5, cbc_reset_timeout_secs = 300\<rparr>"

type_synonym tool_key = "string \<times> string"

record tool_breaker =
  tb_state :: "(tool_key, tool_state) table"
  tb_failure_threshold :: nat
  tb_reset_timeout :: nat
  tb_enabled :: bool
  tb_reset_timeout_secs :: nat

definition nanos_per_sec :: nat where
  "nanos_per_sec = 1000000000"

lemma nanos_per_sec_pos [simp]: "0 < nanos_per_sec"
  by (simp add: nanos_per_sec_def)

definition tool_breaker_new :: "circuit_breaker_config \<Rightarrow> tool_breaker" where
  "tool_breaker_new cfg =
     \<lparr>tb_state = [], tb_failure_threshold = cbc_failure_threshold cfg,
      tb_reset_timeout = cbc_reset_timeout_secs cfg * nanos_per_sec,
      tb_enabled = cbc_enabled cfg,
      tb_reset_timeout_secs = cbc_reset_timeout_secs cfg\<rparr>"

text \<open>The two refusals of \<open>check\<close>, with what their texts name.\<close>

datatype breaker_refusal =
    BreakerOpen string nat nat  \<comment> \<open>the tool, its failures, the whole seconds left\<close>
  | BreakerHalfOpen string

text \<open>The event \<open>record_failure_for_task\<close> publishes when it trips a circuit.\<close>

record breaker_tripped =
  bt_agent_id :: string
  bt_tool_name :: string
  bt_consecutive_failures :: nat
  bt_reset_after_secs :: nat
  bt_task_id :: "string option"

section \<open>Operations\<close>

definition tool_check ::
  "nat \<Rightarrow> string \<Rightarrow> string \<Rightarrow> tool_breaker \<Rightarrow> (breaker_refusal, unit) res \<times> tool_breaker" where
  "tool_check now agent tool b =
     (if \<not> tb_enabled b then (Ok (), b)
      else (case tget (tb_state b) (agent, tool) of
        None \<Rightarrow> (Ok (), b)
      | Some e \<Rightarrow>
          (case circuit_state e of
            CircuitClosed \<Rightarrow> (Ok (), b)
          | CircuitOpen opened_at \<Rightarrow>
              if tb_reset_timeout b \<le> now - opened_at
              then (Ok (), b\<lparr>tb_state := tput (agent, tool) (e\<lparr>circuit_state := CircuitHalfOpen\<rparr>) (tb_state b)\<rparr>)
              else (Err (BreakerOpen tool (consecutive_failures e)
                           ((tb_reset_timeout b - (now - opened_at)) div nanos_per_sec)), b)
          | CircuitHalfOpen \<Rightarrow> (Err (BreakerHalfOpen tool), b))))"

definition tool_record_success :: "nat \<Rightarrow> string \<Rightarrow> string \<Rightarrow> tool_breaker \<Rightarrow> tool_breaker" where
  "tool_record_success now agent tool b =
     (if \<not> tb_enabled b then b
      else (case tget (tb_state b) (agent, tool) of
        None \<Rightarrow> b
      | Some e \<Rightarrow>
          b\<lparr>tb_state := tput (agent, tool)
              (e\<lparr>consecutive_failures := 0, circuit_state := CircuitClosed, last_updated := now\<rparr>)
              (tb_state b)\<rparr>))"

definition MAX_ENTRIES :: nat where
  "MAX_ENTRIES = 10000"

definition STALE_THRESHOLD :: nat where
  "STALE_THRESHOLD = 3600 * nanos_per_sec"

definition prune_stale :: "nat \<Rightarrow> (tool_key, tool_state) table \<Rightarrow> (tool_key, tool_state) table" where
  "prune_stale now t =
     (if MAX_ENTRIES < length t
      then tretain (\<lambda>_ v. now - last_updated v < STALE_THRESHOLD) t else t)"

text \<open>
  One failure of a pair that has an entry: the counter goes up, and the circuit opens at the
  threshold when it was closed or again when the probe failed. The flag says whether the
  failure tripped a closed circuit.
\<close>

definition fail_entry :: "nat \<Rightarrow> nat \<Rightarrow> tool_state \<Rightarrow> tool_state \<times> bool" where
  "fail_entry now threshold e =
     (let n = consecutive_failures e + 1;
          e' = e\<lparr>consecutive_failures := n, last_updated := now\<rparr>
      in case circuit_state e of
           CircuitClosed \<Rightarrow>
             if threshold \<le> n then (e'\<lparr>circuit_state := CircuitOpen now\<rparr>, True) else (e', False)
         | CircuitHalfOpen \<Rightarrow> (e'\<lparr>circuit_state := CircuitOpen now\<rparr>, False)
         | CircuitOpen opened_at \<Rightarrow> (e', False))"

definition tool_record_failure_for_task ::
  "nat \<Rightarrow> string \<Rightarrow> string \<Rightarrow> string option \<Rightarrow> tool_breaker \<Rightarrow>
   bool \<times> tool_breaker \<times> breaker_tripped list" where
  "tool_record_failure_for_task now agent tool task b =
     (if \<not> tb_enabled b then (False, b, [])
      else
        let t = prune_stale now (tb_state b);
            e = (case tget t (agent, tool) of None \<Rightarrow> tool_state_default now | Some e \<Rightarrow> e);
            (e', tripped) = fail_entry now (tb_failure_threshold b) e
        in (tripped, b\<lparr>tb_state := tput (agent, tool) e' t\<rparr>,
            if tripped
            then [\<lparr>bt_agent_id = agent, bt_tool_name = tool,
                   bt_consecutive_failures = consecutive_failures e',
                   bt_reset_after_secs = tb_reset_timeout_secs b, bt_task_id = task\<rparr>]
            else []))"

definition tool_record_failure ::
  "nat \<Rightarrow> string \<Rightarrow> string \<Rightarrow> tool_breaker \<Rightarrow> bool \<times> tool_breaker \<times> breaker_tripped list" where
  "tool_record_failure now agent tool b = tool_record_failure_for_task now agent tool None b"

text \<open>The words that make a tool's error a transient one; \<open>lc\<close> is \<open>str::to_lowercase\<close>.\<close>

definition is_transient_tool_error :: "(string \<Rightarrow> string) \<Rightarrow> string \<Rightarrow> bool" where
  "is_transient_tool_error lc err =
     (let lower = lc err in
        str_contains lower ''timed out''
      \<or> str_contains lower ''timeout''
      \<or> str_contains lower ''http 5''
      \<or> str_contains lower ''http request failed''
      \<or> str_contains lower ''connection refused''
      \<or> str_contains lower ''connection reset''
      \<or> str_contains lower ''network error''
      \<or> (str_contains lower ''command failed'' \<and> \<not> str_contains lower ''not found'')
      \<or> str_contains lower ''command timed out'')"

section \<open>Reading one pair's circuit\<close>

abbreviation entry_of :: "string \<Rightarrow> string \<Rightarrow> tool_breaker \<Rightarrow> tool_state option" where
  "entry_of agent tool b \<equiv> tget (tb_state b) (agent, tool)"

definition small :: "tool_breaker \<Rightarrow> bool" where
  "small b = (length (tb_state b) \<le> MAX_ENTRIES)"

lemma prune_small [simp]: "small b \<Longrightarrow> prune_stale now (tb_state b) = tb_state b"
  by (simp add: prune_stale_def small_def)

lemma table_ok_prune [simp]: "table_ok t \<Longrightarrow> table_ok (prune_stale now t)"
  by (simp add: prune_stale_def)

lemma small_tput: "small b \<Longrightarrow> tget (tb_state b) k \<noteq> None \<Longrightarrow> small (b\<lparr>tb_state := tput k e (tb_state b)\<rparr>)"
  by (auto simp: small_def length_tput)

definition fail_entry_of :: "nat \<Rightarrow> string \<Rightarrow> string \<Rightarrow> tool_breaker \<Rightarrow> tool_state \<times> bool" where
  "fail_entry_of now agent tool b =
     fail_entry now (tb_failure_threshold b)
       (case tget (prune_stale now (tb_state b)) (agent, tool) of
          None \<Rightarrow> tool_state_default now | Some e \<Rightarrow> e)"

lemma failure_result:
  assumes "tb_enabled b"
  shows "fst (tool_record_failure_for_task now agent tool task b) = snd (fail_entry_of now agent tool b)"
    and "fst (snd (tool_record_failure_for_task now agent tool task b)) =
      b\<lparr>tb_state := tput (agent, tool) (fst (fail_entry_of now agent tool b)) (prune_stale now (tb_state b))\<rparr>"
  using assms
  by (simp_all add: tool_record_failure_for_task_def fail_entry_of_def Let_def split_beta)

lemma failure_entry_small:
  assumes "tb_enabled b" and "small b" and "entry_of agent tool b = Some e"
  shows "fst (snd (tool_record_failure_for_task now agent tool task b)) =
      b\<lparr>tb_state := tput (agent, tool) (fst (fail_entry now (tb_failure_threshold b) e)) (tb_state b)\<rparr>"
    and "fst (tool_record_failure_for_task now agent tool task b) =
      snd (fail_entry now (tb_failure_threshold b) e)"
  using assms by (simp_all add: failure_result fail_entry_of_def)

lemma fail_entry_circuit [simp]:
  "circuit_state e = CircuitOpen t \<Longrightarrow> circuit_state (fst (fail_entry now n e)) = CircuitOpen t"
  "circuit_state e = CircuitHalfOpen \<Longrightarrow> circuit_state (fst (fail_entry now n e)) = CircuitOpen now"
  by (simp_all add: fail_entry_def Let_def)

lemma fail_entry_fields [simp]:
  "consecutive_failures (fst (fail_entry now n e)) = consecutive_failures e + 1"
  "last_updated (fst (fail_entry now n e)) = now"
  by (simp_all add: fail_entry_def Let_def split: circuit.splits)


section \<open>The breaker contract, for one pair\<close>

definition pair_check :: "string \<Rightarrow> string \<Rightarrow> nat \<Rightarrow> tool_breaker \<Rightarrow> bool \<times> tool_breaker" where
  "pair_check agent tool now b =
     (is_ok (fst (tool_check now agent tool b)), snd (tool_check now agent tool b))"

definition pair_failure :: "string \<Rightarrow> string \<Rightarrow> nat \<Rightarrow> tool_breaker \<Rightarrow> tool_breaker" where
  "pair_failure agent tool now b = fst (snd (tool_record_failure now agent tool b))"

definition pair_success :: "string \<Rightarrow> string \<Rightarrow> nat \<Rightarrow> tool_breaker \<Rightarrow> tool_breaker" where
  "pair_success agent tool now b = tool_record_success now agent tool b"

definition pair_circuit :: "string \<Rightarrow> string \<Rightarrow> tool_breaker \<Rightarrow> circuit" where
  "pair_circuit agent tool b =
     (case entry_of agent tool b of
        None \<Rightarrow> CircuitClosed
      | Some e \<Rightarrow> if tb_enabled b then circuit_state e else CircuitClosed)"

definition pair_closed :: "string \<Rightarrow> string \<Rightarrow> tool_breaker \<Rightarrow> bool" where
  "pair_closed agent tool b = (pair_circuit agent tool b = CircuitClosed)"

definition pair_opened :: "string \<Rightarrow> string \<Rightarrow> nat \<Rightarrow> tool_breaker \<Rightarrow> bool" where
  "pair_opened agent tool w b =
     (small b \<and> tb_reset_timeout b = w \<and>
      (case pair_circuit agent tool b of CircuitOpen _ \<Rightarrow> True | _ \<Rightarrow> False))"

definition pair_probing :: "string \<Rightarrow> string \<Rightarrow> nat \<Rightarrow> tool_breaker \<Rightarrow> bool" where
  "pair_probing agent tool w b =
     (small b \<and> tb_reset_timeout b = w \<and> pair_circuit agent tool b = CircuitHalfOpen)"

definition pair_blocks :: "string \<Rightarrow> string \<Rightarrow> tool_breaker \<Rightarrow> nat \<Rightarrow> bool" where
  "pair_blocks agent tool b now =
     (case pair_circuit agent tool b of
        CircuitClosed \<Rightarrow> False
      | CircuitOpen t0 \<Rightarrow> now - t0 < tb_reset_timeout b
      | CircuitHalfOpen \<Rightarrow> True)"

definition pair_past :: "string \<Rightarrow> string \<Rightarrow> tool_breaker \<Rightarrow> nat \<Rightarrow> bool" where
  "pair_past agent tool b now =
     (table_ok (tb_state b) \<and>
      (case pair_circuit agent tool b of CircuitOpen t0 \<Rightarrow> t0 \<le> now | _ \<Rightarrow> True))"

lemma pair_circuit_entry:
  "pair_circuit agent tool b \<noteq> CircuitClosed \<Longrightarrow>
   tb_enabled b \<and> (\<exists>e. entry_of agent tool b = Some e \<and> circuit_state e = pair_circuit agent tool b)"
  by (auto simp: pair_circuit_def split: option.splits if_splits)

lemma pair_circuit_cases:
  assumes "pair_circuit agent tool b = c" and "c \<noteq> CircuitClosed"
  obtains e where "tb_enabled b" and "entry_of agent tool b = Some e" and "circuit_state e = c"
  using pair_circuit_entry assms by metis

text \<open>What \<open>check\<close> does to a pair's circuit, by the circuit.\<close>

lemma pair_check_closed:
  "pair_circuit agent tool b = CircuitClosed \<Longrightarrow> pair_check agent tool now b = (True, b)"
  by (auto simp: pair_check_def tool_check_def pair_circuit_def split: option.splits if_splits)

lemma pair_check_refuses:
  assumes "pair_blocks agent tool b now"
  shows "pair_check agent tool now b = (False, b)"
proof (cases "pair_circuit agent tool b")
  case CircuitClosed
  then show ?thesis using assms by (simp add: pair_blocks_def)
next
  case (CircuitOpen t0)
  then obtain e where "tb_enabled b" "entry_of agent tool b = Some e" "circuit_state e = CircuitOpen t0"
    by (rule pair_circuit_cases) simp
  with CircuitOpen assms show ?thesis by (simp add: pair_check_def tool_check_def pair_blocks_def)
next
  case CircuitHalfOpen
  then obtain e where "tb_enabled b" "entry_of agent tool b = Some e" "circuit_state e = CircuitHalfOpen"
    by (rule pair_circuit_cases) simp
  then show ?thesis by (simp add: pair_check_def tool_check_def)
qed

lemma pair_check_probe:
  assumes "pair_circuit agent tool b = CircuitOpen t0" and "\<not> pair_blocks agent tool b now"
  obtains e where "tb_enabled b" and "entry_of agent tool b = Some e"
    and "pair_check agent tool now b =
      (True, b\<lparr>tb_state := tput (agent, tool) (e\<lparr>circuit_state := CircuitHalfOpen\<rparr>) (tb_state b)\<rparr>)"
proof -
  obtain e where e: "tb_enabled b" "entry_of agent tool b = Some e" "circuit_state e = CircuitOpen t0"
    using assms(1) by (rule pair_circuit_cases) simp
  with assms show ?thesis
    by (intro that) (simp_all add: pair_check_def tool_check_def pair_blocks_def)
qed

lemma pair_failure_circuit:
  assumes "small b" and "pair_circuit agent tool b = c" and "c \<noteq> CircuitClosed"
  shows "pair_circuit agent tool (pair_failure agent tool now b) =
      (case c of CircuitOpen t0 \<Rightarrow> CircuitOpen t0 | _ \<Rightarrow> CircuitOpen now)"
    and "small (pair_failure agent tool now b)"
    and "tb_reset_timeout (pair_failure agent tool now b) = tb_reset_timeout b"
proof -
  obtain e where e: "tb_enabled b" "entry_of agent tool b = Some e" "circuit_state e = c"
    using assms(2,3) by (rule pair_circuit_cases)
  have f: "pair_failure agent tool now b =
      b\<lparr>tb_state := tput (agent, tool) (fst (fail_entry now (tb_failure_threshold b) e)) (tb_state b)\<rparr>"
    using failure_entry_small(1) [OF e(1) assms(1) e(2)]
    by (simp add: pair_failure_def tool_record_failure_def)
  show "pair_circuit agent tool (pair_failure agent tool now b) =
      (case c of CircuitOpen t0 \<Rightarrow> CircuitOpen t0 | _ \<Rightarrow> CircuitOpen now)"
    using assms(3) e by (cases c) (auto simp: f pair_circuit_def table_simps)
  show "small (pair_failure agent tool now b)"
    using small_tput [OF assms(1)] e(2) by (simp add: f)
  show "tb_reset_timeout (pair_failure agent tool now b) = tb_reset_timeout b" by (simp add: f)
qed

lemma pair_success_circuit: "pair_circuit agent tool (pair_success agent tool now b) = CircuitClosed"
  by (auto simp: pair_circuit_def pair_success_def tool_record_success_def table_simps split: option.splits)

lemma fail_entry_opens_now:
  "circuit_state (fst (fail_entry now n e)) = CircuitOpen t \<Longrightarrow> t = now \<or> circuit_state e = CircuitOpen t"
  by (auto simp: fail_entry_def Let_def split: circuit.splits if_splits)

lemma tget_prune:
  "table_ok t \<Longrightarrow> tget (prune_stale now t) k = Some e \<Longrightarrow> tget t k = Some e"
  by (auto simp: prune_stale_def table_simps split: option.splits if_splits)

lemma pair_past_failure:
  assumes "pair_past agent tool b now"
  shows "pair_past agent tool (pair_failure agent tool now b) now"
proof (cases "tb_enabled b")
  case False
  then show ?thesis
    using assms by (simp add: pair_failure_def tool_record_failure_def tool_record_failure_for_task_def)
next
  case True
  define e where "e = (case tget (prune_stale now (tb_state b)) (agent, tool) of
      None \<Rightarrow> tool_state_default now | Some e \<Rightarrow> e)"
  have ok: "table_ok (tb_state b)" using assms by (simp add: pair_past_def)
  have f: "pair_failure agent tool now b =
      b\<lparr>tb_state := tput (agent, tool) (fst (fail_entry now (tb_failure_threshold b) e))
        (prune_stale now (tb_state b))\<rparr>"
    using failure_result(2) [OF True] by (simp add: pair_failure_def tool_record_failure_def fail_entry_of_def e_def)
  have "t \<le> now" if "circuit_state (fst (fail_entry now (tb_failure_threshold b) e)) = CircuitOpen t" for t
  proof (cases "t = now")
    case False
    then have "circuit_state e = CircuitOpen t" using fail_entry_opens_now that by blast
    then have "entry_of agent tool b = Some e"
      using tget_prune [OF ok] by (auto simp: e_def tool_state_default_def split: option.splits)
    with \<open>circuit_state e = CircuitOpen t\<close> assms True show ?thesis
      by (simp add: pair_past_def pair_circuit_def)
  qed simp
  with ok True show ?thesis
    by (auto simp: pair_past_def pair_circuit_def f table_simps split: circuit.splits)
qed

lemma pair_openedE:
  assumes "pair_opened agent tool w b"
  obtains t0 where "small b" and "tb_reset_timeout b = w" and "pair_circuit agent tool b = CircuitOpen t0"
  using assms by (auto simp: pair_opened_def split: circuit.splits)

lemma probe_state:
  assumes "pair_opened agent tool w b" and "\<not> pair_blocks agent tool b now"
  shows "fst (pair_check agent tool now b)"
    and "pair_probing agent tool w (snd (pair_check agent tool now b))"
proof -
  obtain t0 where b: "small b" "tb_reset_timeout b = w" "pair_circuit agent tool b = CircuitOpen t0"
    using assms(1) by (rule pair_openedE)
  obtain e where e: "tb_enabled b" "entry_of agent tool b = Some e"
    "pair_check agent tool now b =
      (True, b\<lparr>tb_state := tput (agent, tool) (e\<lparr>circuit_state := CircuitHalfOpen\<rparr>) (tb_state b)\<rparr>)"
    using b(3) assms(2) by (rule pair_check_probe)
  show "fst (pair_check agent tool now b)" by (simp add: e)
  have "small (snd (pair_check agent tool now b))" using small_tput b(1) e(2,3) by auto
  then show "pair_probing agent tool w (snd (pair_check agent tool now b))"
    using b e by (simp add: pair_probing_def pair_circuit_def table_simps)
qed

interpretation pair: breaker "pair_check agent tool" "pair_success agent tool" "pair_failure agent tool"
  "pair_closed agent tool" "pair_opened agent tool w" "pair_probing agent tool w"
  "pair_blocks agent tool" "pair_past agent tool" w
  for agent tool :: string and w :: nat
proof (unfold_locales, goal_cases)
  case (1 b now)
  then show ?case by (simp add: pair_closed_def pair_check_closed)
next
  case (2 b)
  then show ?case by (auto simp: pair_opened_def pair_probing_def split: circuit.splits)
next
  case (3 b now)
  then show ?case by (simp add: pair_check_refuses)
next
  case (4 b now t)
  then show ?case by (auto simp: pair_blocks_def split: circuit.splits)
next
  case (5 b now)
  then show ?case by (elim pair_openedE) (simp add: pair_opened_def pair_failure_circuit)
next
  case (6 b now t)
  then show ?case by (elim pair_openedE) (simp add: pair_blocks_def pair_failure_circuit)
next
  case (7 b now)
  then show ?case by (simp add: pair_probing_def pair_opened_def pair_failure_circuit)
next
  case (8 b now t)
  then show ?case by (auto simp: pair_probing_def pair_blocks_def pair_failure_circuit)
next
  case (9 b now)
  then show ?case by (simp add: probe_state)
next
  case (10 b now)
  then show ?case by (simp add: probe_state)
next
  case (11 b now t)
  then have "pair_probing agent tool w (snd (pair_check agent tool now b))" by (simp add: probe_state)
  then show ?case by (simp add: pair_probing_def pair_blocks_def)
next
  case (12 b now)
  then show ?case by (simp add: pair_closed_def pair_success_circuit)
next
  case (13 b now)
  show ?case
  proof (cases "pair_blocks agent tool b now \<or> pair_circuit agent tool b = CircuitClosed")
    case True
    with 13 show ?thesis using pair_check_refuses pair_check_closed by auto
  next
    case False
    then obtain t0 where "pair_circuit agent tool b = CircuitOpen t0"
      by (cases "pair_circuit agent tool b") (auto simp: pair_blocks_def)
    then obtain e where "tb_enabled b" "pair_check agent tool now b =
      (True, b\<lparr>tb_state := tput (agent, tool) (e\<lparr>circuit_state := CircuitHalfOpen\<rparr>) (tb_state b)\<rparr>)"
      using pair_check_probe False by metis
    then show ?thesis using 13 by (simp add: pair_past_def pair_circuit_def table_simps)
  qed
next
  case (14 b now)
  then show ?case by (rule pair_past_failure)
next
  case (15 b now t)
  then show ?case by (auto simp: pair_past_def split: circuit.splits)
qed


section \<open>Runs of the breaker\<close>

text \<open>The checks of one pair answered along a run of its events.\<close>

fun tool_answers :: "string \<Rightarrow> string \<Rightarrow> tool_breaker \<Rightarrow> brk_event list \<Rightarrow> bool list" where
  "tool_answers agent tool b [] = []"
| "tool_answers agent tool b (EvCheck t # es) =
     is_ok (fst (tool_check t agent tool b)) # tool_answers agent tool (snd (tool_check t agent tool b)) es"
| "tool_answers agent tool b (EvFailure t # es) =
     tool_answers agent tool (fst (snd (tool_record_failure t agent tool b))) es"
| "tool_answers agent tool b (EvSuccess t # es) =
     tool_answers agent tool (tool_record_success t agent tool b) es"

lemma pair_check_parts:
  "is_ok (fst (tool_check t agent tool b)) = fst (pair_check agent tool t b)"
  "snd (tool_check t agent tool b) = snd (pair_check agent tool t b)"
  by (simp_all add: pair_check_def)

lemma tool_answers_eq: "tool_answers agent tool b es = pair.answers agent tool b es"
  by (induction agent tool b es rule: tool_answers.induct)
    (simp_all add: pair_check_parts flip: pair_failure_def pair_success_def)

text \<open>A run of failures: what each returned, the events it published, and the state it leaves.\<close>

fun tool_failures ::
  "string \<Rightarrow> string \<Rightarrow> tool_breaker \<Rightarrow> nat list \<Rightarrow> bool list \<times> breaker_tripped list \<times> tool_breaker" where
  "tool_failures agent tool b [] = ([], [], b)"
| "tool_failures agent tool b (t # ts) =
     (let (tripped, b', ev) = tool_record_failure t agent tool b;
          (flags, evs, b'') = tool_failures agent tool b' ts
      in (tripped # flags, ev @ evs, b''))"

definition roomy :: "string \<Rightarrow> string \<Rightarrow> tool_breaker \<Rightarrow> bool" where
  "roomy agent tool b =
     (small b \<and> (entry_of agent tool b = None \<longrightarrow> length (tb_state b) < MAX_ENTRIES))"

definition pair_failures :: "string \<Rightarrow> string \<Rightarrow> tool_breaker \<Rightarrow> nat" where
  "pair_failures agent tool b =
     (case entry_of agent tool b of None \<Rightarrow> 0 | Some e \<Rightarrow> consecutive_failures e)"

text \<open>One failure of a closed pair: it counts, and trips exactly when the threshold is reached.\<close>

lemma closed_failure:
  fixes now :: nat
  assumes "tb_enabled b" and "roomy agent tool b" and "pair_circuit agent tool b = CircuitClosed"
  defines "r \<equiv> tool_record_failure now agent tool b" and "n \<equiv> Suc (pair_failures agent tool b)"
  shows "fst r = (tb_failure_threshold b \<le> n)"
    and "pair_failures agent tool (fst (snd r)) = n"
    and "pair_circuit agent tool (fst (snd r)) =
      (if tb_failure_threshold b \<le> n then CircuitOpen now else CircuitClosed)"
    and "roomy agent tool (fst (snd r))"
    and "tb_enabled (fst (snd r))"
    and "tb_failure_threshold (fst (snd r)) = tb_failure_threshold b"
    and "tb_reset_timeout_secs (fst (snd r)) = tb_reset_timeout_secs b"
    and "snd (snd r) = (if tb_failure_threshold b \<le> n
      then [\<lparr>bt_agent_id = agent, bt_tool_name = tool, bt_consecutive_failures = n,
             bt_reset_after_secs = tb_reset_timeout_secs b, bt_task_id = None\<rparr>] else [])"
proof -
  have sm: "small b" using assms(2) by (simp add: roomy_def)
  define e where "e = (case entry_of agent tool b of None \<Rightarrow> tool_state_default now | Some e \<Rightarrow> e)"
  have n: "n = Suc (consecutive_failures e)"
    by (simp add: n_def pair_failures_def e_def tool_state_default_def split: option.splits)
  have c: "circuit_state e = CircuitClosed"
    using assms(1,3) by (simp add: e_def pair_circuit_def tool_state_default_def split: option.splits)
  define e' where "e' = fst (fail_entry now (tb_failure_threshold b) e)"
  have e': "consecutive_failures e' = n" "circuit_state e' =
      (if tb_failure_threshold b \<le> n then CircuitOpen now else CircuitClosed)"
    and tr: "fail_entry now (tb_failure_threshold b) e = (e', tb_failure_threshold b \<le> n)"
    using c by (simp_all add: e'_def n fail_entry_def Let_def)
  have r: "r = (tb_failure_threshold b \<le> n, b\<lparr>tb_state := tput (agent, tool) e' (tb_state b)\<rparr>,
      if tb_failure_threshold b \<le> n
      then [\<lparr>bt_agent_id = agent, bt_tool_name = tool, bt_consecutive_failures = n,
             bt_reset_after_secs = tb_reset_timeout_secs b, bt_task_id = None\<rparr>] else [])"
    using assms(1) sm tr e'(1)
    by (simp add: r_def tool_record_failure_def tool_record_failure_for_task_def Let_def
        flip: e_def)
  show "fst r = (tb_failure_threshold b \<le> n)"
    and "pair_failures agent tool (fst (snd r)) = n"
    and "pair_circuit agent tool (fst (snd r)) =
      (if tb_failure_threshold b \<le> n then CircuitOpen now else CircuitClosed)"
    and "tb_enabled (fst (snd r))"
    and "tb_failure_threshold (fst (snd r)) = tb_failure_threshold b"
    and "tb_reset_timeout_secs (fst (snd r)) = tb_reset_timeout_secs b"
    and "snd (snd r) = (if tb_failure_threshold b \<le> n
      then [\<lparr>bt_agent_id = agent, bt_tool_name = tool, bt_consecutive_failures = n,
             bt_reset_after_secs = tb_reset_timeout_secs b, bt_task_id = None\<rparr>] else [])"
    using e' assms(1) by (simp_all add: r pair_failures_def pair_circuit_def table_simps)
  show "roomy agent tool (fst (snd r))"
    using assms(2) by (auto simp: r roomy_def small_def length_tput table_simps)
qed

lemma failures_to_threshold:
  assumes "tb_enabled b" and "roomy agent tool b" and "pair_circuit agent tool b = CircuitClosed"
    and "ts \<noteq> []" and "pair_failures agent tool b + length ts = tb_failure_threshold b"
  shows "case tool_failures agent tool b ts of (flags, evs, b') \<Rightarrow>
      flags = replicate (length ts - 1) False @ [True]
    \<and> evs = [\<lparr>bt_agent_id = agent, bt_tool_name = tool,
              bt_consecutive_failures = tb_failure_threshold b,
              bt_reset_after_secs = tb_reset_timeout_secs b, bt_task_id = None\<rparr>]
    \<and> pair_circuit agent tool b' = CircuitOpen (last ts)"
  using assms
proof (induction ts arbitrary: b)
  case Nil
  then show ?case by simp
next
  case (Cons t ts)
  obtain tr b' ev where r: "tool_record_failure t agent tool b = (tr, b', ev)" by (cases "tool_record_failure t agent tool b")
  note c = closed_failure [OF Cons.prems(1-3), of t, unfolded r fst_conv snd_conv]
  show ?case
  proof (cases ts)
    case Nil
    then show ?thesis using Cons.prems(5) c by (simp add: r)
  next
    case (Cons t2 ts2)
    have lt: "\<not> tb_failure_threshold b \<le> Suc (pair_failures agent tool b)"
      using Cons.prems(5) Cons by simp
    have IH: "case tool_failures agent tool b' ts of (flags, evs, b'') \<Rightarrow>
      flags = replicate (length ts - 1) False @ [True]
    \<and> evs = [\<lparr>bt_agent_id = agent, bt_tool_name = tool,
              bt_consecutive_failures = tb_failure_threshold b',
              bt_reset_after_secs = tb_reset_timeout_secs b', bt_task_id = None\<rparr>]
    \<and> pair_circuit agent tool b'' = CircuitOpen (last ts)"
      using c lt Cons Cons.prems(5) by (intro Cons.IH) auto
    have tr: "tr = False" and ev: "ev = []" using c lt by auto
    obtain n where n: "length ts = Suc n" using Cons by simp
    show ?thesis using IH c(6,7) n Cons
      by (cases "tool_failures agent tool b' ts") (simp add: r tr ev)
  qed
qed

section \<open>Properties\<close>

text \<open>From a fresh breaker, the n-th consecutive failure of an agent's tool, n the configured
  threshold, and no earlier one, reports that it tripped the circuit; it publishes the one
  CircuitBreakerTripped event, with n as its count, and leaves the circuit open since that
  failure.\<close>

theorem breaker_trips_exactly_at_threshold:
  assumes "cbc_enabled cfg" and "length ts = cbc_failure_threshold cfg" and "ts \<noteq> []"
  shows "case tool_failures agent tool (tool_breaker_new cfg) ts of (flags, evs, b) \<Rightarrow>
      flags = replicate (length ts - 1) False @ [True]
    \<and> evs = [\<lparr>bt_agent_id = agent, bt_tool_name = tool,
              bt_consecutive_failures = cbc_failure_threshold cfg,
              bt_reset_after_secs = cbc_reset_timeout_secs cfg, bt_task_id = None\<rparr>]
    \<and> pair_circuit agent tool b = CircuitOpen (last ts)"
proof -
  have "roomy agent tool (tool_breaker_new cfg)"
    by (simp add: roomy_def small_def tool_breaker_new_def MAX_ENTRIES_def)
  then show ?thesis
    using failures_to_threshold [of "tool_breaker_new cfg" agent tool ts] assms
    by (simp add: tool_breaker_new_def pair_circuit_def pair_failures_def)
qed

lemma breaker_trips_exactly_at_threshold_witness:
  "case tool_failures ''a'' ''web_fetch''
      (tool_breaker_new circuit_breaker_config_default) [10, 20, 30, 40, 50] of (flags, evs, b) \<Rightarrow>
      flags = [False, False, False, False, True] \<and> length evs = 1
    \<and> pair_circuit ''a'' ''web_fetch'' b = CircuitOpen 50"
  using breaker_trips_exactly_at_threshold
    [of circuit_breaker_config_default "[10, 20, 30, 40, 50]" "''a''" "''web_fetch''"]
  by (simp add: circuit_breaker_config_default_def split_beta eval_nat_numeral)

text \<open>While the circuit of a pair is open, no sequence of checks and failures up to the end of
  the reset window (counted from the opening) gets a call through; the failures among them do
  not move the window.\<close>

theorem breaker_open_window_refuses:
  assumes "pair_circuit agent tool b = CircuitOpen since" and "small b" and "table_ok (tb_state b)"
    and "T < since + tb_reset_timeout b" and "timed since T es" and "\<forall>e\<in>set es. \<not> is_success e"
  shows "True \<notin> set (tool_answers agent tool b es)"
proof (cases "es = []")
  case False
  with assms(5) have le: "since \<le> T" by (cases es) auto
  have "\<forall>b\<in>set (tool_answers agent tool b es). \<not> b" unfolding tool_answers_eq
  proof (rule pair.open_window)
    show "pair_opened agent tool (tb_reset_timeout b) b"
      using assms(1,2) by (simp add: pair_opened_def)
    show "pair_past agent tool b since" using assms(1,3) by (simp add: pair_past_def)
    show "pair_blocks agent tool b T" using assms(1,4) le by (simp add: pair_blocks_def less_diff_conv2)
  qed (use assms in auto)
  then show ?thesis by (metis (full_types))
qed simp

definition demo_open :: tool_breaker where
  "demo_open = \<lparr>tb_state = [((''a'', ''t''), \<lparr>consecutive_failures = 5,
       circuit_state = CircuitOpen 100, last_updated = 100\<rparr>)],
     tb_failure_threshold = 5, tb_reset_timeout = 60, tb_enabled = True, tb_reset_timeout_secs = 0\<rparr>"

lemma breaker_open_window_refuses_witness:
  "True \<notin> set (tool_answers ''a'' ''t'' demo_open [EvCheck 100, EvFailure 120, EvCheck 159])"
  by (rule breaker_open_window_refuses [where since = 100 and T = 159])
    (simp_all add: demo_open_def pair_circuit_def small_def MAX_ENTRIES_def table_ok_def)

text \<open>Once the reset window is over, the next check lets exactly one call through as a probe: it
  is admitted, and every check after it is refused for at least another window, whatever
  failures are reported in between.\<close>

theorem breaker_admits_single_probe:
  assumes "pair_circuit agent tool b = CircuitOpen since" and "small b" and "table_ok (tb_state b)"
    and "since + tb_reset_timeout b \<le> now" and "now \<le> T" and "T < now + tb_reset_timeout b"
    and "timed now T es" and "\<forall>e\<in>set es. \<not> is_success e"
  shows "\<exists>rest. tool_answers agent tool b (EvCheck now # es) = True # rest \<and> True \<notin> set rest"
proof -
  have b: "pair_opened agent tool (tb_reset_timeout b) b" "pair_past agent tool b now"
    "\<not> pair_blocks agent tool b now"
    using assms by (auto simp: pair_opened_def pair_past_def pair_blocks_def)
  show ?thesis
    using pair.single_probe [OF b assms(5-8)] unfolding tool_answers_eq by auto
qed

lemma breaker_admits_single_probe_witness:
  "\<exists>rest. tool_answers ''a'' ''t'' demo_open [EvCheck 160, EvCheck 170, EvFailure 180, EvCheck 200]
     = True # rest \<and> True \<notin> set rest"
  by (rule breaker_admits_single_probe [where since = 100 and T = 200])
    (simp_all add: demo_open_def pair_circuit_def small_def MAX_ENTRIES_def table_ok_def)

text \<open>What one pair reports never touches another: a check, a success or a failure of an agent's
  tool leaves the entry of every other pair as it was, as long as the table has not outgrown
  the pruning bound.\<close>

theorem breaker_isolates_pairs:
  assumes "(agent', tool') \<noteq> (agent, tool)" and "length (tb_state b) \<le> MAX_ENTRIES"
  shows "entry_of agent tool (snd (tool_check now agent' tool' b)) = entry_of agent tool b
    \<and> entry_of agent tool (tool_record_success now agent' tool' b) = entry_of agent tool b
    \<and> entry_of agent tool (fst (snd (tool_record_failure_for_task now agent' tool' task b)))
        = entry_of agent tool b"
proof -
  have ne: "(agent, tool) = (agent', tool') \<longleftrightarrow> False" using assms(1) by auto
  have p: "prune_stale now (tb_state b) = tb_state b" using assms(2) by (simp add: prune_stale_def)
  have "entry_of agent tool (snd (tool_check now agent' tool' b)) = entry_of agent tool b"
    by (auto simp: tool_check_def ne table_simps split: option.splits circuit.splits simp del: prod.inject)
  moreover have "entry_of agent tool (tool_record_success now agent' tool' b) = entry_of agent tool b"
    by (auto simp: tool_record_success_def ne table_simps split: option.splits simp del: prod.inject)
  moreover have "entry_of agent tool (fst (snd (tool_record_failure_for_task now agent' tool' task b)))
        = entry_of agent tool b"
    by (simp add: tool_record_failure_for_task_def Let_def p split_beta ne table_simps del: prod.inject)
  ultimately show ?thesis by blast
qed

lemma breaker_isolates_pairs_witness:
  "entry_of ''a'' ''t'' (fst (snd (tool_record_failure_for_task 500 ''b'' ''t'' None demo_open)))
     = entry_of ''a'' ''t'' demo_open"
  using breaker_isolates_pairs [of "''b''" "''t''" "''a''" "''t''" demo_open 500 None]
  by (simp add: demo_open_def MAX_ENTRIES_def)

text \<open>A half-open circuit refuses every check at every later instant until the probe's outcome is
  recorded: there is no timeout on the probe, so a probe whose outcome is never reported leaves
  the pair refused for good.\<close>

theorem breaker_half_open_refuses_forever:
  assumes "pair_circuit agent tool b = CircuitHalfOpen"
  shows "tool_answers agent tool b (map EvCheck ts) = replicate (length ts) False"
proof -
  have "pair_check agent tool t b = (False, b)" for t
    using assms by (intro pair_check_refuses) (simp add: pair_blocks_def)
  then show ?thesis unfolding tool_answers_eq by (induction ts) auto
qed

lemma breaker_half_open_refuses_forever_witness:
  "tool_answers ''a'' ''t'' (snd (tool_check 160 ''a'' ''t'' demo_open)) (map EvCheck [10 ^ 6, 10 ^ 12, 10 ^ 18])
     = [False, False, False]"
  using breaker_half_open_refuses_forever
    [of "''a''" "''t''" "snd (tool_check 160 ''a'' ''t'' demo_open)" "[10 ^ 6, 10 ^ 12, 10 ^ 18]"]
  by (simp add: demo_open_def tool_check_def pair_circuit_def)

end
