(* ===== verification/Rate_Limiter.thy ===== *)
theory Rate_Limiter
  imports Breaker_Interface
begin

text \<open>
  The router's rate limiting (\<open>crates/openalpaca_llm/src/routing/rate_limiter/mod.rs\<close>): the token
  bucket, the jittered backoff, the circuit breaker of the provider API, the limiter of one key
  with its concurrency permits, and the registry.

  Instants are nanoseconds. Token counts and rates are exact rationals where the code has
  \<open>f64\<close>; rounding of the floating-point sums is not modelled. An asynchronous wait is seen as the
  list of its polls: one poll is one pass of the loop, at the instant the caller woke up. The
  random number of the backoff is the argument \<open>pick\<close>.
\<close>

section \<open>Token bucket\<close>

record token_bucket =
  tk_tokens :: rat
  tk_capacity :: rat
  tk_refill_rate :: rat  \<comment> \<open>tokens per second\<close>
  tk_last_refill :: nat

definition token_bucket_new :: "nat \<Rightarrow> rat \<Rightarrow> rat \<Rightarrow> token_bucket" where
  "token_bucket_new now capacity refill_rate =
     \<lparr>tk_tokens = capacity, tk_capacity = capacity, tk_refill_rate = refill_rate, tk_last_refill = now\<rparr>"

definition secs :: "nat \<Rightarrow> rat" where
  "secs ns = of_nat ns / 1000000000"

definition refill :: "nat \<Rightarrow> token_bucket \<Rightarrow> token_bucket" where
  "refill now b =
     b\<lparr>tk_tokens := min (tk_tokens b + secs (now - tk_last_refill b) * tk_refill_rate b) (tk_capacity b),
       tk_last_refill := now\<rparr>"

text \<open>One pass of the waiting loop: the tokens are taken, or the wait it asks for is returned.\<close>

datatype poll = Granted | Wait rat

definition bucket_poll :: "nat \<Rightarrow> rat \<Rightarrow> token_bucket \<Rightarrow> poll \<times> token_bucket" where
  "bucket_poll now n b0 =
     (let b = refill now b0; want = min n (tk_capacity b) in
      if want \<le> tk_tokens b then (Granted, b\<lparr>tk_tokens := tk_tokens b - want\<rparr>)
      else (Wait (if 0 < tk_refill_rate b then (want - tk_tokens b) / tk_refill_rate b else 60), b))"

definition try_acquire :: "nat \<Rightarrow> rat \<Rightarrow> token_bucket \<Rightarrow> bool \<times> token_bucket" where
  "try_acquire now n b0 =
     (let b = refill now b0 in
      if n \<le> tk_tokens b then (True, b\<lparr>tk_tokens := tk_tokens b - n\<rparr>) else (False, b))"

definition bucket_available :: "nat \<Rightarrow> token_bucket \<Rightarrow> rat \<times> token_bucket" where
  "bucket_available now b = (tk_tokens (refill now b), refill now b)"

text \<open>The waiting loop of one caller that wakes up at the given instants; \<open>None\<close>: still waiting.\<close>

fun bucket_acquire :: "nat list \<Rightarrow> rat \<Rightarrow> token_bucket \<Rightarrow> nat option \<times> token_bucket" where
  "bucket_acquire [] n b = (None, b)"
| "bucket_acquire (t # ts) n b =
     (case bucket_poll t n b of
        (Granted, b') \<Rightarrow> (Some t, b')
      | (Wait w, b') \<Rightarrow> bucket_acquire ts n b')"

definition bucket_ok :: "token_bucket \<Rightarrow> bool" where
  "bucket_ok b = (0 \<le> tk_tokens b \<and> tk_tokens b \<le> tk_capacity b \<and> 0 \<le> tk_refill_rate b)"

lemma secs_nonneg [simp]: "0 \<le> secs n"
  by (simp add: secs_def)

lemma secs_add: "secs (m + n) = secs m + secs n"
  by (simp add: secs_def add_divide_distrib)

lemma secs_mono: "m \<le> n \<Longrightarrow> secs m \<le> secs n"
  by (simp add: secs_def divide_right_mono)

lemma refill_ok: "bucket_ok b \<Longrightarrow> bucket_ok (refill now b)"
  by (auto simp: bucket_ok_def refill_def)

lemma refill_fields [simp]:
  "tk_capacity (refill now b) = tk_capacity b" "tk_refill_rate (refill now b) = tk_refill_rate b"
  "tk_last_refill (refill now b) = now"
  by (simp_all add: refill_def)

lemma refill_bound: "tk_tokens (refill now b) \<le> tk_tokens b + secs (now - tk_last_refill b) * tk_refill_rate b"
  by (simp add: refill_def)

lemma bucket_poll_fields [simp]:
  "tk_capacity (snd (bucket_poll now n b)) = tk_capacity b"
  "tk_refill_rate (snd (bucket_poll now n b)) = tk_refill_rate b"
  "tk_last_refill (snd (bucket_poll now n b)) = now"
  by (simp_all add: bucket_poll_def Let_def)

lemma bucket_poll_ok: "bucket_ok b \<Longrightarrow> 0 \<le> n \<Longrightarrow> bucket_ok (snd (bucket_poll now n b))"
  using refill_ok [of b now] by (auto simp: bucket_poll_def bucket_ok_def Let_def)

text \<open>What a poll takes, and the balance it leaves.\<close>

definition taken :: "rat \<Rightarrow> token_bucket \<Rightarrow> poll \<Rightarrow> rat" where
  "taken n b r = (case r of Granted \<Rightarrow> min n (tk_capacity b) | Wait _ \<Rightarrow> 0)"

lemma bucket_poll_balance:
  "tk_tokens (snd (bucket_poll now n b)) + taken n b (fst (bucket_poll now n b))
     \<le> tk_tokens b + secs (now - tk_last_refill b) * tk_refill_rate b"
  using refill_bound [of now b] by (simp add: bucket_poll_def taken_def Let_def)

text \<open>Any callers polling a shared bucket: the tokens they take together.\<close>

fun total_taken :: "(nat \<times> rat) list \<Rightarrow> token_bucket \<Rightarrow> rat" where
  "total_taken [] b = 0"
| "total_taken ((t, n) # ps) b =
     taken n b (fst (bucket_poll t n b)) + total_taken ps (snd (bucket_poll t n b))"

fun clocked :: "nat \<Rightarrow> nat \<Rightarrow> (nat \<times> 'a) list \<Rightarrow> bool" where
  "clocked lo hi [] = True"
| "clocked lo hi ((t, _) # ps) = (lo \<le> t \<and> t \<le> hi \<and> clocked t hi ps)"

lemma total_taken_bound:
  assumes "bucket_ok b" and "clocked (tk_last_refill b) T ps" and "\<forall>(t, n)\<in>set ps. 0 \<le> n"
  shows "total_taken ps b \<le> tk_tokens b + secs (T - tk_last_refill b) * tk_refill_rate b"
  using assms
proof (induction ps arbitrary: b)
  case Nil
  then show ?case by (simp add: bucket_ok_def)
next
  case (Cons p ps)
  obtain t n where p: "p = (t, n)" by (cases p)
  let ?b = "snd (bucket_poll t n b)"
  have t: "tk_last_refill b \<le> t" "t \<le> T" "clocked t T ps" "0 \<le> n" using Cons.prems p by auto
  have "total_taken ps ?b \<le> tk_tokens ?b + secs (T - t) * tk_refill_rate b"
    using Cons.IH [of ?b] Cons.prems t bucket_poll_ok by simp
  moreover have "secs (T - tk_last_refill b) = secs (t - tk_last_refill b) + secs (T - t)"
    using t by (simp flip: secs_add)
  ultimately show ?case
    using bucket_poll_balance [of t n b] by (simp add: p distrib_right)
qed

section \<open>Backoff\<close>

definition u64_max :: nat where
  "u64_max = 2 ^ 64 - 1"

definition as_millis_u64 :: "nat \<Rightarrow> nat" where
  "as_millis_u64 d = d div 1000000 mod 2 ^ 64"

definition saturating_mul_u64 :: "nat \<Rightarrow> nat \<Rightarrow> nat" where
  "saturating_mul_u64 a b = min (a * b) u64_max"

definition backoff_with_jitter :: "(nat \<Rightarrow> nat) \<Rightarrow> nat \<Rightarrow> nat \<Rightarrow> nat \<Rightarrow> nat" where
  "backoff_with_jitter pick base attempt cap =
     (let base_ms = as_millis_u64 base;
          exp_ms = saturating_mul_u64 base_ms (2 ^ min attempt 10);
          capped_ms = min exp_ms (as_millis_u64 cap)
      in if capped_ms = 0 then 0 else pick capped_ms * 1000000)"

section \<open>The circuit breaker of the API\<close>

datatype api_circuit = ApiClosed | ApiOpen | ApiHalfOpen

record api_breaker =
  ab_state :: api_circuit
  ab_failure_count :: "32 word"
  ab_failure_threshold :: "32 word"
  ab_last_failure :: "nat option"
  ab_recovery_timeout :: nat
  ab_probe_in_flight :: bool
  ab_probe_started :: "nat option"

definition api_breaker_new :: "32 word \<Rightarrow> nat \<Rightarrow> api_breaker" where
  "api_breaker_new threshold recovery_timeout =
     \<lparr>ab_state = ApiClosed, ab_failure_count = 0, ab_failure_threshold = threshold, ab_last_failure = None,
      ab_recovery_timeout = recovery_timeout, ab_probe_in_flight = False, ab_probe_started = None\<rparr>"

definition api_check :: "nat \<Rightarrow> api_breaker \<Rightarrow> (api_circuit, unit) res \<times> api_breaker" where
  "api_check now b =
     (case ab_state b of
        ApiClosed \<Rightarrow> (Ok (), b)
      | ApiOpen \<Rightarrow>
          (case ab_last_failure b of
             Some failed_at \<Rightarrow>
               if ab_recovery_timeout b \<le> now - failed_at
               then (Ok (), b\<lparr>ab_state := ApiHalfOpen, ab_probe_in_flight := True, ab_probe_started := Some now\<rparr>)
               else (Err ApiOpen, b)
           | None \<Rightarrow> (Err ApiOpen, b))
      | ApiHalfOpen \<Rightarrow>
          let stale = (case ab_probe_started b of Some t \<Rightarrow> ab_recovery_timeout b \<le> now - t | None \<Rightarrow> True) in
          if ab_probe_in_flight b \<and> \<not> stale then (Err ApiHalfOpen, b)
          else (Ok (), b\<lparr>ab_probe_in_flight := True, ab_probe_started := Some now\<rparr>))"

definition api_report_success :: "api_breaker \<Rightarrow> api_breaker" where
  "api_report_success b =
     b\<lparr>ab_state := ApiClosed, ab_failure_count := 0, ab_probe_in_flight := False, ab_probe_started := None\<rparr>"

definition api_report_failure :: "nat \<Rightarrow> api_breaker \<Rightarrow> api_breaker" where
  "api_report_failure now b0 =
     (let b = b0\<lparr>ab_failure_count := ab_failure_count b0 + 1, ab_last_failure := Some now\<rparr> in
      case ab_state b of
        ApiClosed \<Rightarrow> if ab_failure_threshold b \<le> ab_failure_count b then b\<lparr>ab_state := ApiOpen\<rparr> else b
      | ApiHalfOpen \<Rightarrow> b\<lparr>ab_state := ApiOpen, ab_probe_in_flight := False, ab_probe_started := None\<rparr>
      | ApiOpen \<Rightarrow> b)"

text \<open>The contract of \<open>Breaker_Interface\<close>.\<close>

definition api_gate :: "nat \<Rightarrow> api_breaker \<Rightarrow> bool \<times> api_breaker" where
  "api_gate now b = (is_ok (fst (api_check now b)), snd (api_check now b))"

definition api_closed :: "api_breaker \<Rightarrow> bool" where
  "api_closed b = (ab_state b = ApiClosed)"

definition api_opened :: "nat \<Rightarrow> api_breaker \<Rightarrow> bool" where
  "api_opened w b = (ab_state b = ApiOpen \<and> ab_last_failure b \<noteq> None \<and> ab_recovery_timeout b = w)"

definition api_probing :: "nat \<Rightarrow> api_breaker \<Rightarrow> bool" where
  "api_probing w b =
     (ab_state b = ApiHalfOpen \<and> ab_probe_in_flight b \<and> ab_probe_started b \<noteq> None \<and> ab_recovery_timeout b = w)"

definition api_blocks :: "api_breaker \<Rightarrow> nat \<Rightarrow> bool" where
  "api_blocks b now =
     (case (if ab_state b = ApiOpen then ab_last_failure b else ab_probe_started b) of
        Some t \<Rightarrow> now - t < ab_recovery_timeout b
      | None \<Rightarrow> False)"

definition api_past :: "api_breaker \<Rightarrow> nat \<Rightarrow> bool" where
  "api_past b now = (case ab_last_failure b of Some t \<Rightarrow> t \<le> now | None \<Rightarrow> True)"

lemmas api_defs = api_gate_def api_check_def api_report_success_def api_report_failure_def api_closed_def
  api_opened_def api_probing_def api_blocks_def api_past_def

interpretation api: breaker api_gate "\<lambda>now. api_report_success" api_report_failure api_closed
  "api_opened w" "api_probing w" api_blocks api_past w
  for w :: nat
  by unfold_locales
    (auto simp: api_defs Let_def split: api_circuit.splits option.splits if_splits)

fun api_answers :: "api_breaker \<Rightarrow> brk_event list \<Rightarrow> bool list" where
  "api_answers b [] = []"
| "api_answers b (EvCheck t # es) = is_ok (fst (api_check t b)) # api_answers (snd (api_check t b)) es"
| "api_answers b (EvFailure t # es) = api_answers (api_report_failure t b) es"
| "api_answers b (EvSuccess t # es) = api_answers (api_report_success b) es"

lemma api_gate_parts:
  "is_ok (fst (api_check t b)) = fst (api_gate t b)" "snd (api_check t b) = snd (api_gate t b)"
  by (simp_all add: api_gate_def)

lemma api_answers_eq: "api_answers b es = api.answers b es"
  by (induction b es rule: api_answers.induct) (simp_all add: api_gate_parts)

section \<open>The limiter of one key\<close>

record key_limiter =
  kl_rpm_bucket :: token_bucket
  kl_tpm_bucket :: token_bucket
  kl_permits :: nat  \<comment> \<open>free permits of the concurrency semaphore\<close>

definition key_limiter_new :: "nat \<Rightarrow> nat \<Rightarrow> nat \<Rightarrow> nat \<Rightarrow> key_limiter" where
  "key_limiter_new now rpm tpm max_concurrent =
     \<lparr>kl_rpm_bucket = token_bucket_new now (of_nat rpm) (of_nat rpm / 60),
      kl_tpm_bucket = token_bucket_new now (of_nat tpm) (of_nat tpm / 60),
      kl_permits = max_concurrent\<rparr>"

text \<open>
  A caller of \<open>acquire\<close> goes through three waits in order and then holds the permit until its
  call completes. One step polls the wait it is at.
\<close>

datatype limiter_phase = WantPermit | WantRpm | WantTpm | InFlight | Finished

definition limiter_step :: "nat \<Rightarrow> nat \<Rightarrow> limiter_phase \<Rightarrow> key_limiter \<Rightarrow> limiter_phase \<times> key_limiter" where
  "limiter_step now estimated_tokens ph l =
     (case ph of
        WantPermit \<Rightarrow> if 0 < kl_permits l then (WantRpm, l\<lparr>kl_permits := kl_permits l - 1\<rparr>) else (WantPermit, l)
      | WantRpm \<Rightarrow>
          (case bucket_poll now 1 (kl_rpm_bucket l) of
             (Granted, b) \<Rightarrow> (WantTpm, l\<lparr>kl_rpm_bucket := b\<rparr>)
           | (Wait _, b) \<Rightarrow> (WantRpm, l\<lparr>kl_rpm_bucket := b\<rparr>))
      | WantTpm \<Rightarrow>
          (case bucket_poll now (of_nat estimated_tokens) (kl_tpm_bucket l) of
             (Granted, b) \<Rightarrow> (InFlight, l\<lparr>kl_tpm_bucket := b\<rparr>)
           | (Wait _, b) \<Rightarrow> (WantTpm, l\<lparr>kl_tpm_bucket := b\<rparr>))
      | InFlight \<Rightarrow> (InFlight, l)
      | Finished \<Rightarrow> (Finished, l))"

fun holds_permit :: "limiter_phase \<Rightarrow> bool" where
  "holds_permit WantPermit = False"
| "holds_permit Finished = False"
| "holds_permit _ = True"

text \<open>The permit is given back when the call completes or its future is dropped at any wait.\<close>

definition limiter_release :: "limiter_phase \<Rightarrow> key_limiter \<Rightarrow> limiter_phase \<times> key_limiter" where
  "limiter_release ph l =
     (Finished, if holds_permit ph then l\<lparr>kl_permits := kl_permits l + 1\<rparr> else l)"

text \<open>Callers sharing one limiter, interleaved in any order.\<close>

datatype limiter_event = LPoll nat nat nat | LRelease nat  \<comment> \<open>the caller, and for a poll the instant and tokens\<close>

type_synonym limiter_system = "limiter_phase list \<times> key_limiter"

inductive limiter_run :: "limiter_system \<Rightarrow> limiter_event list \<Rightarrow> limiter_system \<Rightarrow> bool" where
  run_nil: "limiter_run s [] s"
| run_poll: "limiter_run (phs, l) es (phs', l') \<Longrightarrow> i < length phs' \<Longrightarrow>
    limiter_step now est (phs' ! i) l' = (ph, l'') \<Longrightarrow>
    limiter_run (phs, l) (es @ [LPoll i now est]) (phs'[i := ph], l'')"
| run_release: "limiter_run (phs, l) es (phs', l') \<Longrightarrow> i < length phs' \<Longrightarrow>
    limiter_release (phs' ! i) l' = (ph, l'') \<Longrightarrow>
    limiter_run (phs, l) (es @ [LRelease i]) (phs'[i := ph], l'')"

definition held :: "limiter_phase list \<Rightarrow> nat" where
  "held phs = length (filter holds_permit phs)"

lemma held_update:
  "i < length phs \<Longrightarrow>
     held (phs[i := ph]) + (if holds_permit (phs ! i) then 1 else 0) = held phs + (if holds_permit ph then 1 else 0)"
proof (induction phs arbitrary: i)
  case Nil
  then show ?case by simp
next
  case (Cons x xs)
  then show ?case by (cases i) (auto simp: held_def)
qed

lemma limiter_step_balance:
  "limiter_step now est ph l = (ph', l') \<Longrightarrow>
     kl_permits l' + (if holds_permit ph' then 1 else 0) = kl_permits l + (if holds_permit ph then 1 else 0)"
  by (auto simp: limiter_step_def split: limiter_phase.splits poll.splits prod.splits if_splits)

lemma limiter_run_balance:
  "limiter_run s es s' \<Longrightarrow> kl_permits (snd s') + held (fst s') = kl_permits (snd s) + held (fst s)"
proof (induction rule: limiter_run.induct)
  case (run_nil s)
  then show ?case by simp
next
  case (run_poll phs l es phs' l' i now est ph l'')
  then show ?case using held_update [of i phs' ph] limiter_step_balance [of now est "phs' ! i" l' ph l''] by simp
next
  case (run_release phs l es phs' l' i ph l'')
  then show ?case using held_update [of i phs' ph] by (auto simp: limiter_release_def split: if_splits)
qed

section \<open>The registry\<close>

record rate_limit_config =
  rc_default_rpm :: nat
  rc_default_tpm :: nat
  rc_per_key_concurrency :: nat
  rc_global_concurrency :: nat
  rc_backoff_base_ms :: nat
  rc_backoff_cap_ms :: nat
  rc_circuit_breaker_threshold :: "32 word"
  rc_circuit_breaker_recovery_secs :: nat
  rc_max_transient_retries :: nat

definition rate_limit_config_default :: rate_limit_config where
  "rate_limit_config_default =
     \<lparr>rc_default_rpm = 50, rc_default_tpm = 40000, rc_per_key_concurrency = 5, rc_global_concurrency = 10,
      rc_backoff_base_ms = 500, rc_backoff_cap_ms = 30000, rc_circuit_breaker_threshold = 5,
      rc_circuit_breaker_recovery_secs = 30, rc_max_transient_retries = 3\<rparr>"

record limiter_registry =
  lr_limiters :: "(string, key_limiter) table"
  lr_circuit_breaker :: api_breaker
  lr_config :: rate_limit_config

definition limiter_registry_new :: "rate_limit_config \<Rightarrow> limiter_registry" where
  "limiter_registry_new cfg =
     \<lparr>lr_limiters = [],
      lr_circuit_breaker = api_breaker_new (rc_circuit_breaker_threshold cfg)
        (rc_circuit_breaker_recovery_secs cfg * 1000000000),
      lr_config = cfg\<rparr>"

definition limiter_get_or_create ::
  "nat \<Rightarrow> string \<Rightarrow> nat option \<Rightarrow> limiter_registry \<Rightarrow> key_limiter \<times> limiter_registry" where
  "limiter_get_or_create now kid key_rate_limit r =
     (case tget (lr_limiters r) kid of
        Some l \<Rightarrow> (l, r)
      | None \<Rightarrow>
          let l = key_limiter_new now (case key_rate_limit of None \<Rightarrow> rc_default_rpm (lr_config r) | Some n \<Rightarrow> n)
                    (rc_default_tpm (lr_config r)) (rc_per_key_concurrency (lr_config r))
          in (l, r\<lparr>lr_limiters := tput kid l (lr_limiters r)\<rparr>))"

definition limiter_get :: "string \<Rightarrow> limiter_registry \<Rightarrow> key_limiter option" where
  "limiter_get kid r = tget (lr_limiters r) kid"

definition check_circuit :: "nat \<Rightarrow> limiter_registry \<Rightarrow> (api_circuit, unit) res \<times> limiter_registry" where
  "check_circuit now r =
     (fst (api_check now (lr_circuit_breaker r)), r\<lparr>lr_circuit_breaker := snd (api_check now (lr_circuit_breaker r))\<rparr>)"

definition registry_report_success :: "limiter_registry \<Rightarrow> limiter_registry" where
  "registry_report_success r = r\<lparr>lr_circuit_breaker := api_report_success (lr_circuit_breaker r)\<rparr>"

definition registry_report_failure :: "nat \<Rightarrow> limiter_registry \<Rightarrow> limiter_registry" where
  "registry_report_failure now r = r\<lparr>lr_circuit_breaker := api_report_failure now (lr_circuit_breaker r)\<rparr>"

section \<open>Runs of the API breaker\<close>

definition api_sane :: "nat \<Rightarrow> api_breaker \<Rightarrow> bool" where
  "api_sane T b =
     ((ab_state b = ApiOpen \<longrightarrow> ab_last_failure b \<noteq> None)
      \<and> (\<forall>t. ab_last_failure b = Some t \<longrightarrow> t \<le> T) \<and> (\<forall>t. ab_probe_started b = Some t \<longrightarrow> t \<le> T))"

fun api_run :: "brk_event list \<Rightarrow> api_breaker \<Rightarrow> api_breaker" where
  "api_run [] b = b"
| "api_run (EvCheck t # es) b = api_run es (snd (api_check t b))"
| "api_run (EvFailure t # es) b = api_run es (api_report_failure t b)"
| "api_run (EvSuccess t # es) b = api_run es (api_report_success b)"

lemma api_sane_run:
  "api_sane T b \<Longrightarrow> \<forall>e\<in>set es. ev_time e \<le> T \<Longrightarrow> api_sane T (api_run es b)"
proof (induction es b rule: api_run.induct)
  case (1 b)
  then show ?case by simp
next
  case (2 t es b)
  have "api_sane T (snd (api_check t b))"
    using 2(2,3) by (auto simp: api_sane_def api_check_def Let_def split: api_circuit.splits option.splits)
  with 2 show ?case by simp
next
  case (3 t es b)
  have "api_sane T (api_report_failure t b)"
    using 3(2,3) by (auto simp: api_sane_def api_report_failure_def Let_def split: api_circuit.splits)
  with 3 show ?case by simp
next
  case (4 t es b)
  have "api_sane T (api_report_success b)" using 4(2) by (auto simp: api_sane_def api_report_success_def)
  with 4 show ?case by simp
qed

lemma api_timeout_run [simp]: "ab_recovery_timeout (api_run es b) = ab_recovery_timeout b"
  by (induction es b rule: api_run.induct)
    (simp_all add: api_check_def api_report_failure_def api_report_success_def Let_def
      split: api_circuit.splits option.splits)

text \<open>A check one timeout after everything recorded is let through.\<close>

lemma api_sane_admits:
  "api_sane T b \<Longrightarrow> T + ab_recovery_timeout b \<le> now \<Longrightarrow> is_ok (fst (api_check now b))"
  by (fastforce simp: api_sane_def api_check_def Let_def split: api_circuit.splits option.splits)

section \<open>Properties\<close>

text \<open>The rate is bounded: however many callers poll a bucket in whatever order, the tokens they
  take together up to an instant never exceed what the bucket held plus what its rate has added
  since, so at most its capacity plus rate times time.\<close>

theorem bucket_rate_bound:
  assumes "bucket_ok b" and "clocked (tk_last_refill b) T ps" and "\<forall>(t, n)\<in>set ps. 0 \<le> n"
  shows "total_taken ps b \<le> tk_capacity b + secs (T - tk_last_refill b) * tk_refill_rate b"
  using total_taken_bound [OF assms] assms(1) by (simp add: bucket_ok_def)

lemma bucket_rate_bound_witness:
  "total_taken [(0, 30), (1000000000, 30), (2000000000, 30)] (token_bucket_new 0 50 (5 / 6)) \<le> 50 + 2 * (5 / 6)"
  using bucket_rate_bound [of "token_bucket_new 0 50 (5 / 6)" 2000000000
      "[(0, 30), (1000000000, 30), (2000000000, 30)]"]
  by (simp add: token_bucket_new_def bucket_ok_def secs_def)

text \<open>No caller starves on a bucket that refills: a demand of any size, also one larger than the
  bucket, waits at most the time a full refill takes, and the next poll after that wait grants it
  when nobody took tokens in between.\<close>

theorem bucket_wait_suffices:
  assumes "bucket_ok b" and "0 < tk_refill_rate b" and "0 \<le> n"
    and "fst (bucket_poll t n b) = Wait w" and "t \<le> t'" and "w \<le> secs (t' - t)"
  shows "w \<le> tk_capacity b / tk_refill_rate b \<and> bucket_acquire [t, t'] n b
    = (Some t', snd (bucket_poll t' n (snd (bucket_poll t n b))))"
proof -
  let ?r = "refill t b"
  let ?want = "min n (tk_capacity b)"
  have ok: "bucket_ok ?r" using assms(1) by (rule refill_ok)
  from assms(2,4) have lt: "\<not> ?want \<le> tk_tokens ?r" and w: "w = (?want - tk_tokens ?r) / tk_refill_rate b"
    by (auto simp: bucket_poll_def Let_def split: if_splits)
  have b': "snd (bucket_poll t n b) = ?r" using lt by (simp add: bucket_poll_def Let_def)
  have "?want - tk_tokens ?r \<le> tk_capacity b" using ok by (simp add: bucket_ok_def) linarith
  then have bound: "w \<le> tk_capacity b / tk_refill_rate b" using w assms(2) by (simp add: divide_right_mono)
  have "?want - tk_tokens ?r \<le> secs (t' - t) * tk_refill_rate b"
    using assms(2,6) w by (simp add: divide_le_eq)
  then have "?want \<le> tk_tokens (refill t' ?r)" by (simp add: refill_def [of t' ?r]) 
  then have "fst (bucket_poll t' n ?r) = Granted" by (simp add: bucket_poll_def Let_def)
  then show ?thesis
    using bound b' assms(4) by (cases "bucket_poll t n b"; cases "bucket_poll t' n ?r") simp
qed

lemma bucket_wait_suffices_witness:
  "bucket_acquire [0, 60000000000] 100000 \<lparr>tk_tokens = 0, tk_capacity = 60, tk_refill_rate = 1, tk_last_refill = 0\<rparr>
     = (Some 60000000000, snd (bucket_poll 60000000000 100000 (snd (bucket_poll 0 100000
         \<lparr>tk_tokens = 0, tk_capacity = 60, tk_refill_rate = 1, tk_last_refill = 0\<rparr>))))"
  by (rule conjunct2 [OF bucket_wait_suffices [where w = 60]])
    (simp_all add: bucket_ok_def bucket_poll_def refill_def secs_def)

text \<open>The backoff stays within its bounds: for any random choice within the range the code draws
  from, the delay is at most the cap and at most base times two to the attempt (the exponent
  capped at ten), in whole milliseconds, and it is zero only if one of them is below a
  millisecond; the shift never overflows.\<close>

theorem backoff_bounds:
  assumes "\<And>c. 0 < c \<Longrightarrow> 1 \<le> pick c \<and> pick c \<le> c" and "base div 1000000 < 2 ^ 64" and "cap div 1000000 < 2 ^ 64"
  shows "backoff_with_jitter pick base attempt cap \<le> cap
    \<and> backoff_with_jitter pick base attempt cap \<le> base * 2 ^ min attempt 10
    \<and> (backoff_with_jitter pick base attempt cap = 0 \<longleftrightarrow> base < 1000000 \<or> cap < 1000000)"
proof -
  let ?m = "min (saturating_mul_u64 (base div 1000000) (2 ^ min attempt 10)) (cap div 1000000)"
  have m: "as_millis_u64 base = base div 1000000" "as_millis_u64 cap = cap div 1000000"
    using assms(2,3) by (simp_all add: as_millis_u64_def)
  have "?m * 1000000 \<le> cap div 1000000 * 1000000" by simp
  then have c: "?m * 1000000 \<le> cap" using div_times_less_eq_dividend [of cap 1000000] by linarith
  have "?m * 1000000 \<le> base div 1000000 * 1000000 * 2 ^ min attempt 10"
    by (simp add: saturating_mul_u64_def)
  also have "\<dots> \<le> base * 2 ^ min attempt 10" by simp
  finally have b: "?m * 1000000 \<le> base * 2 ^ min attempt 10" .
  have z: "?m = 0 \<longleftrightarrow> base < 1000000 \<or> cap < 1000000"
    by (auto simp: saturating_mul_u64_def u64_max_def min_def div_eq_0_iff)
  show ?thesis
  proof (cases "?m = 0")
    case True
    then show ?thesis using z by (simp add: backoff_with_jitter_def m Let_def)
  next
    case False
    then have r: "backoff_with_jitter pick base attempt cap = pick ?m * 1000000" and "1 \<le> pick ?m" "pick ?m \<le> ?m"
      using assms(1) [of ?m] False by (simp_all add: backoff_with_jitter_def m Let_def del: min_less_iff_conj)
    then have "pick ?m * 1000000 \<le> ?m * 1000000" "0 < pick ?m * 1000000" by simp_all
    then show ?thesis using b c z False r by linarith
  qed
qed

lemma backoff_bounds_witness:
  "backoff_with_jitter (\<lambda>c. c) 500000000 3 30000000000 \<le> 30000000000"
  by (rule conjunct1 [OF backoff_bounds]) simp_all

text \<open>The API breaker cannot wedge: whatever events it has seen since it was made, with their clock
  not running past an instant, a request one recovery timeout after that instant is let
  through; a lost probe delays it by one more timeout only.\<close>

theorem api_breaker_never_wedges:
  assumes "\<forall>e\<in>set es. ev_time e \<le> T" and "T + timeout \<le> now"
  shows "is_ok (fst (api_check now (api_run es (api_breaker_new threshold timeout))))"
proof (rule api_sane_admits)
  show "api_sane T (api_run es (api_breaker_new threshold timeout))"
    using assms(1) by (intro api_sane_run) (simp_all add: api_sane_def api_breaker_new_def)
qed (use assms(2) in \<open>simp add: api_breaker_new_def\<close>)

lemma api_breaker_never_wedges_witness:
  "is_ok (fst (api_check 200 (api_run [EvFailure 5, EvCheck 110] (api_breaker_new 1 90))))"
  by (rule api_breaker_never_wedges [where T = 110]) simp_all

text \<open>While the API breaker is open, no run of checks and failures within one recovery timeout of
  the last failure gets a request through; each further failure only extends it.\<close>

theorem api_open_window_refuses:
  assumes "ab_state b = ApiOpen" and "ab_last_failure b = Some since" and "T < since + ab_recovery_timeout b"
    and "timed since T es" and "\<forall>e\<in>set es. \<not> is_success e"
  shows "True \<notin> set (api_answers b es)"
proof (cases "es = []")
  case False
  with assms(4) have le: "since \<le> T" by (cases es) auto
  have "\<forall>b\<in>set (api_answers b es). \<not> b" unfolding api_answers_eq
  proof (rule api.open_window)
    show "api_opened (ab_recovery_timeout b) b" using assms(1,2) by (simp add: api_opened_def)
    show "api_past b since" using assms(2) by (simp add: api_past_def)
    show "api_blocks b T" using assms(1-3) le by (simp add: api_blocks_def less_diff_conv2)
  qed (use assms in auto)
  then show ?thesis by (metis (full_types))
qed simp

lemma api_open_window_refuses_witness:
  "True \<notin> set (api_answers (api_report_failure 100 (api_breaker_new 1 90)) [EvCheck 120, EvFailure 150, EvCheck 180])"
  by (rule api_open_window_refuses [where since = 100 and T = 180])
    (simp_all add: api_report_failure_def api_breaker_new_def Let_def)

text \<open>Concurrency is bounded and no permit is lost: in every interleaving of any number of callers of
  one key's limiter, including callers whose futures are dropped at any wait, the callers holding
  a permit plus the free permits are always the configured maximum.\<close>

theorem limiter_permits_conserved:
  assumes "limiter_run (replicate n WantPermit, key_limiter_new t rpm tpm max_concurrent) es (phs, l)"
  shows "held phs + kl_permits l = max_concurrent \<and> length (filter (\<lambda>ph. ph = InFlight) phs) \<le> max_concurrent"
proof -
  have "held (replicate n WantPermit) = 0" by (induction n) (simp_all add: held_def)
  then have h: "held phs + kl_permits l = max_concurrent"
    using limiter_run_balance [OF assms] by (simp add: key_limiter_new_def)
  have "length (filter (\<lambda>ph. ph = InFlight) phs) \<le> held phs" by (induction phs) (auto simp: held_def)
  with h show ?thesis by simp
qed

lemma limiter_permits_conserved_witness:
  "held [WantRpm, WantPermit] + kl_permits ((key_limiter_new 0 50 100 1)\<lparr>kl_permits := 0\<rparr>) = 1"
proof -
  have "limiter_run (replicate 2 WantPermit, key_limiter_new 0 50 100 1) ([] @ [LPoll 0 3 10])
      ([WantRpm, WantPermit], (key_limiter_new 0 50 100 1)\<lparr>kl_permits := 0\<rparr>)"
    using limiter_run.run_poll [OF limiter_run.run_nil, of 0 "[WantPermit, WantPermit]" 3 10 "key_limiter_new 0 50 100 1" WantRpm]
    by (simp add: limiter_step_def key_limiter_new_def eval_nat_numeral)
  from limiter_permits_conserved [OF this] show ?thesis by (rule conjunct1)
qed

end
