(* ===== verification/Key_Pool.thy ===== *)
theory Key_Pool
  imports Prelude
begin

text \<open>
  The pool of API keys of one provider
  (\<open>crates/openalpaca_llm/src/keys/key_pool/mod.rs\<close>): selection by round robin, least recent use
  or priority, cooldowns after rate limits, and the pool's own report. Each operation reads the
  clock once. \<open>round_robin_index\<close>, \<open>usage_seq\<close> and the stamps are 64-bit counters that wrap.
\<close>

section \<open>Keys\<close>

datatype provider_type = Anthropic | OpenAI | Ollama | ProviderPlugin string

definition provider_all :: "provider_type list" where
  "provider_all = [Anthropic, OpenAI, Ollama]"

fun provider_is_local :: "provider_type \<Rightarrow> bool" where
  "provider_is_local Ollama = True"
| "provider_is_local _ = False"

fun provider_to_string :: "provider_type \<Rightarrow> string" where
  "provider_to_string Anthropic = ''anthropic''"
| "provider_to_string OpenAI = ''openai''"
| "provider_to_string Ollama = ''ollama''"
| "provider_to_string (ProviderPlugin name) = ''plugin:'' @ name"

datatype key_priority = Primary | Fallback

datatype key_source = ApiConsole | ClaudeCode | ClaudeMaxPro | Codex | Environment | OtherSource

fun source_is_api_compatible :: "key_source \<Rightarrow> bool" where
  "source_is_api_compatible ApiConsole = True"
| "source_is_api_compatible Environment = True"
| "source_is_api_compatible OtherSource = True"
| "source_is_api_compatible _ = False"

datatype selection_strategy = RoundRobin | LeastRecentlyUsed | PrimaryFallback

datatype call_result = CallSuccess | CallRateLimited nat | CallError string

record rate_limit_state =
  cooldown_until :: "nat option"
  consecutive_rate_limits :: "32 word"

definition rate_limit_state_default :: rate_limit_state where
  "rate_limit_state_default = \<lparr>cooldown_until = None, consecutive_rate_limits = 0\<rparr>"

record api_key =
  ak_id :: string
  ak_provider :: provider_type
  ak_secret :: string
  ak_tier :: "string option"
  ak_rate_limit :: "32 word option"
  ak_priority :: key_priority
  ak_source :: key_source
  ak_notes :: "string option"
  ak_rate_state :: rate_limit_state

definition api_key_new :: "string \<Rightarrow> provider_type \<Rightarrow> string \<Rightarrow> api_key" where
  "api_key_new kid provider secret =
     \<lparr>ak_id = kid, ak_provider = provider, ak_secret = secret, ak_tier = None, ak_rate_limit = None,
      ak_priority = Primary, ak_source = OtherSource, ak_notes = None,
      ak_rate_state = rate_limit_state_default\<rparr>"

definition key_available :: "nat \<Rightarrow> api_key \<Rightarrow> bool" where
  "key_available now k =
     (case cooldown_until (ak_rate_state k) of Some until \<Rightarrow> until \<le> now | None \<Rightarrow> True)"

definition is_api_compatible_key :: "api_key \<Rightarrow> bool" where
  "is_api_compatible_key k =
     (if \<not> source_is_api_compatible (ak_source k) then False
      else if ak_provider k = Anthropic \<and> starts_with (ak_secret k) ''sk-ant-oat'' then False
      else True)"

record key_guard =
  kg_id :: string
  kg_secret :: string
  kg_rate_limit :: "32 word option"

definition guard_of :: "api_key \<Rightarrow> key_guard" where
  "guard_of k = \<lparr>kg_id = ak_id k, kg_secret = ak_secret k, kg_rate_limit = ak_rate_limit k\<rparr>"

datatype key_pool_error = NoKeys | AllKeysRateLimited | NoApiCompatibleKeys

record key_pool =
  kp_keys :: "api_key list"
  kp_strategy :: selection_strategy
  kp_round_robin_index :: "64 word"
  kp_last_used :: "64 word list"
  kp_usage_seq :: "64 word"

definition key_pool_new :: "api_key list \<Rightarrow> selection_strategy \<Rightarrow> key_pool" where
  "key_pool_new keys strategy =
     \<lparr>kp_keys = keys, kp_strategy = strategy, kp_round_robin_index = 0,
      kp_last_used = map (\<lambda>_. 0) keys, kp_usage_seq = 0\<rparr>"

section \<open>Selection\<close>

type_synonym acquired = "(key_pool_error, key_guard) res"

text \<open>The scan of the least-recently-used strategy: the candidate with the smallest stamp, the first on a tie.\<close>

fun lru_scan ::
  "nat \<Rightarrow> (api_key \<Rightarrow> bool) \<Rightarrow> (nat \<times> api_key \<times> 64 word) list \<Rightarrow> (nat \<times> 64 word) option \<Rightarrow> (nat \<times> 64 word) option" where
  "lru_scan now ok [] best = best"
| "lru_scan now ok ((idx, k, seq) # rest) best =
     lru_scan now ok rest
       (if ok k \<and> key_available now k
           \<and> (case best of None \<Rightarrow> True | Some (_, b) \<Rightarrow> seq < b)
        then Some (idx, seq) else best)"

definition lru_rows :: "key_pool \<Rightarrow> (nat \<times> api_key \<times> 64 word) list" where
  "lru_rows p = map (\<lambda>i. (i, kp_keys p ! i, kp_last_used p ! i)) [0..<length (kp_keys p)]"

definition acquire_lru :: "bool \<Rightarrow> nat \<Rightarrow> key_pool \<Rightarrow> acquired \<times> key_pool" where
  "acquire_lru api_only now p =
     (let ok = (\<lambda>k. api_only \<longrightarrow> is_api_compatible_key k) in
      case lru_scan now ok (lru_rows p) None of
        Some (idx, _) \<Rightarrow>
          let nxt = kp_usage_seq p + 1 in
          (Ok (guard_of (kp_keys p ! idx)),
           p\<lparr>kp_usage_seq := nxt, kp_last_used := (kp_last_used p)[idx := nxt]\<rparr>)
      | None \<Rightarrow>
          (Err (if api_only \<and> \<not> list_ex ok (kp_keys p) then NoApiCompatibleKeys else AllKeysRateLimited), p))"

text \<open>The indices of a scan of \<open>n\<close> places from a start that wraps around.\<close>

definition ring :: "nat \<Rightarrow> nat \<Rightarrow> nat list" where
  "ring start n = map (\<lambda>i. (start + i) mod n) [0..<n]"

definition bump :: "key_pool \<Rightarrow> key_pool" where
  "bump p = p\<lparr>kp_round_robin_index := kp_round_robin_index p + 1\<rparr>"

definition acquire_standard :: "nat \<Rightarrow> key_pool \<Rightarrow> acquired \<times> key_pool" where
  "acquire_standard now p =
     (if kp_strategy p = LeastRecentlyUsed then acquire_lru True now p
      else
        let n = length (kp_keys p);
            start = unat (kp_round_robin_index p) mod n
        in case List.find (\<lambda>i. key_available now (kp_keys p ! i) \<and> is_api_compatible_key (kp_keys p ! i)) (ring start n) of
             Some i \<Rightarrow> (Ok (guard_of (kp_keys p ! i)), bump p)
           | None \<Rightarrow>
               (Err (if list_ex is_api_compatible_key (kp_keys p) then AllKeysRateLimited else NoApiCompatibleKeys),
                bump p))"

definition acquire_standard_any :: "nat \<Rightarrow> key_pool \<Rightarrow> acquired \<times> key_pool" where
  "acquire_standard_any now p =
     (if kp_strategy p = LeastRecentlyUsed then acquire_lru False now p
      else
        let n = length (kp_keys p);
            start = unat (kp_round_robin_index p) mod n
        in case List.find (\<lambda>i. key_available now (kp_keys p ! i)) (ring start n) of
             Some i \<Rightarrow> (Ok (guard_of (kp_keys p ! i)), bump p)
           | None \<Rightarrow> (Err AllKeysRateLimited, bump p))"

definition indices_with :: "(api_key \<Rightarrow> bool) \<Rightarrow> key_pool \<Rightarrow> nat list" where
  "indices_with P p = filter (\<lambda>i. P (kp_keys p ! i)) [0..<length (kp_keys p)]"

text \<open>Primaries by round robin, then fallbacks in order, among the keys that qualify.\<close>

definition primary_then_fallback ::
  "(api_key \<Rightarrow> bool) \<Rightarrow> nat \<Rightarrow> key_pool \<Rightarrow> key_guard option \<times> key_pool" where
  "primary_then_fallback ok now p =
     (let primaries = indices_with (\<lambda>k. ok k \<and> ak_priority k = Primary) p;
          fallbacks = indices_with (\<lambda>k. ok k \<and> ak_priority k = Fallback) p;
          n = length primaries;
          start = unat (kp_round_robin_index p) mod n;
          p' = (if primaries \<noteq> [] then bump p else p);
          free = (\<lambda>i. key_available now (kp_keys p ! i))
      in case List.find free (map (\<lambda>j. primaries ! j) (ring start n)) of
           Some i \<Rightarrow> (Some (guard_of (kp_keys p ! i)), p')
         | None \<Rightarrow>
             (case List.find free fallbacks of
                Some i \<Rightarrow> (Some (guard_of (kp_keys p ! i)), p')
              | None \<Rightarrow> (None, p')))"

definition acquire_primary_fallback :: "nat \<Rightarrow> key_pool \<Rightarrow> acquired \<times> key_pool" where
  "acquire_primary_fallback now p =
     (case primary_then_fallback is_api_compatible_key now p of
        (Some g, p') \<Rightarrow> (Ok g, p')
      | (None, p') \<Rightarrow>
          (Err (if list_ex is_api_compatible_key (kp_keys p) then AllKeysRateLimited else NoApiCompatibleKeys), p'))"

definition acquire_primary_fallback_any :: "nat \<Rightarrow> key_pool \<Rightarrow> acquired \<times> key_pool" where
  "acquire_primary_fallback_any now p =
     (case primary_then_fallback (\<lambda>_. True) now p of
        (Some g, p') \<Rightarrow> (Ok g, p')
      | (None, p') \<Rightarrow> (Err AllKeysRateLimited, p'))"

definition acquire :: "nat \<Rightarrow> key_pool \<Rightarrow> acquired \<times> key_pool" where
  "acquire now p =
     (if kp_keys p = [] then (Err NoKeys, p)
      else case kp_strategy p of
        PrimaryFallback \<Rightarrow> acquire_primary_fallback now p
      | _ \<Rightarrow> acquire_standard now p)"

definition acquire_any :: "nat \<Rightarrow> key_pool \<Rightarrow> acquired \<times> key_pool" where
  "acquire_any now p =
     (if kp_keys p = [] then (Err NoKeys, p)
      else case kp_strategy p of
        PrimaryFallback \<Rightarrow> acquire_primary_fallback_any now p
      | _ \<Rightarrow> acquire_standard_any now p)"

definition acquire_api_compatible :: "nat \<Rightarrow> key_pool \<Rightarrow> acquired \<times> key_pool" where
  "acquire_api_compatible now p = acquire now p"

section \<open>Reports\<close>

definition nanos_per_milli :: nat where
  "nanos_per_milli = 1000000"

definition report_key :: "nat \<Rightarrow> call_result \<Rightarrow> api_key \<Rightarrow> api_key" where
  "report_key now result k =
     (case result of
        CallSuccess \<Rightarrow> k\<lparr>ak_rate_state := rate_limit_state_default\<rparr>
      | CallRateLimited retry_after_ms \<Rightarrow>
          k\<lparr>ak_rate_state := \<lparr>cooldown_until = Some (now + retry_after_ms * nanos_per_milli),
              consecutive_rate_limits = consecutive_rate_limits (ak_rate_state k) + 1\<rparr>\<rparr>
      | CallError _ \<Rightarrow> k)"

text \<open>The report goes to the first key of that id.\<close>

fun report_first :: "nat \<Rightarrow> string \<Rightarrow> call_result \<Rightarrow> api_key list \<Rightarrow> api_key list" where
  "report_first now kid result [] = []"
| "report_first now kid result (k # ks) =
     (if ak_id k = kid then report_key now result k # ks else k # report_first now kid result ks)"

definition report_result :: "nat \<Rightarrow> string \<Rightarrow> call_result \<Rightarrow> key_pool \<Rightarrow> key_pool" where
  "report_result now kid result p = p\<lparr>kp_keys := report_first now kid result (kp_keys p)\<rparr>"

definition reset_all :: "key_pool \<Rightarrow> key_pool" where
  "reset_all p = p\<lparr>kp_keys := map (\<lambda>k. k\<lparr>ak_rate_state := rate_limit_state_default\<rparr>) (kp_keys p)\<rparr>"

definition available_api_key_count :: "nat \<Rightarrow> key_pool \<Rightarrow> nat" where
  "available_api_key_count now p =
     length (filter (\<lambda>k. is_api_compatible_key k \<and> key_available now k) (kp_keys p))"

definition shortest_cooldown :: "nat \<Rightarrow> key_pool \<Rightarrow> nat option" where
  "shortest_cooldown now p =
     fold (\<lambda>k shortest.
         if \<not> is_api_compatible_key k then shortest
         else case cooldown_until (ak_rate_state k) of
             Some until \<Rightarrow>
               if now < until then
                 Some (case shortest of Some prev \<Rightarrow> min prev (until - now) | None \<Rightarrow> until - now)
               else shortest
           | None \<Rightarrow> shortest)
       (kp_keys p) None"

definition key_rate_limits :: "key_pool \<Rightarrow> (string \<times> 32 word option) list" where
  "key_rate_limits p = map (\<lambda>k. (ak_id k, ak_rate_limit k)) (kp_keys p)"

datatype key_health = Healthy | RateLimited | HealthError | Unknown

record key_status =
  ks_id :: string
  ks_health :: key_health
  ks_consecutive_rate_limits :: "32 word"
  ks_is_available :: bool

definition key_statuses :: "nat \<Rightarrow> key_pool \<Rightarrow> key_status list" where
  "key_statuses now p =
     map (\<lambda>k. \<lparr>ks_id = ak_id k,
               ks_health = (if 0 < consecutive_rate_limits (ak_rate_state k) then
                              if key_available now k then Healthy else RateLimited
                            else Healthy),
               ks_consecutive_rate_limits = consecutive_rate_limits (ak_rate_state k),
               ks_is_available = key_available now k\<rparr>)
       (kp_keys p)"

text \<open>\<open>str::chars\<close> over UTF-8: a character is a byte that is no continuation byte with those after it.\<close>

definition is_continuation :: "char \<Rightarrow> bool" where
  "is_continuation c = (byte_of c div 64 = 2)"

function utf8_chars :: "string \<Rightarrow> string list" where
  "utf8_chars [] = []"
| "utf8_chars (c # cs) =
     (c # takeWhile is_continuation cs) # utf8_chars (dropWhile is_continuation cs)"
  by pat_completeness auto
termination
  by (relation "measure length") (auto simp: le_imp_less_Suc length_dropWhile_le)

definition mask_secret :: "string \<Rightarrow> string" where
  "mask_secret secret =
     (let cs = utf8_chars secret; n = length cs in
      if n \<le> 12 then replicate n (CHR ''*'')
      else concat (take 8 cs) @ ''...'' @ concat (drop (n - 4) cs))"

section \<open>The selector contract\<close>

text \<open>
  What a caller may rely on, whatever the strategy: a key handed out is an eligible key of the
  pool that is not cooling down, a refusal means that no eligible key is free, and selection
  never changes the keys themselves.
\<close>

locale key_selector =
  fixes take :: "nat \<Rightarrow> 's \<Rightarrow> acquired \<times> 's"
    and pool_keys :: "'s \<Rightarrow> api_key list"
    and eligible :: "api_key \<Rightarrow> bool"
  assumes picks: "fst (take now s) = Ok g \<Longrightarrow>
      \<exists>k\<in>set (pool_keys s). eligible k \<and> key_available now k \<and> g = guard_of k"
    and finds: "fst (take now s) = Err e \<Longrightarrow> k \<in> set (pool_keys s) \<Longrightarrow> eligible k \<Longrightarrow> \<not> key_available now k"
    and keeps: "pool_keys (snd (take now s)) = pool_keys s"
begin

lemma serves_iff:
  "is_ok (fst (take now s)) \<longleftrightarrow> (\<exists>k\<in>set (pool_keys s). eligible k \<and> key_available now k)"
proof (cases "fst (take now s)")
  case (Inl e)
  then show ?thesis using finds [OF Inl] by auto
next
  case (Inr g)
  then show ?thesis using picks [OF Inr] by auto
qed

fun takes :: "nat list \<Rightarrow> 's \<Rightarrow> acquired list" where
  "takes [] s = []"
| "takes (t # ts) s = fst (take t s) # takes ts (snd (take t s))"

text \<open>In a run of selections, nothing that is cooling down over the whole run is handed out.\<close>

lemma never_cooling:
  assumes "\<forall>k\<in>set (pool_keys s). ak_id k = kid \<longrightarrow> (\<forall>t\<in>set ts. \<not> key_available t k)"
  shows "\<forall>g. Ok g \<in> set (takes ts s) \<longrightarrow> kg_id g \<noteq> kid"
  using assms
proof (induction ts arbitrary: s)
  case Nil
  then show ?case by simp
next
  case (Cons t ts)
  have "kg_id g \<noteq> kid" if "fst (take t s) = Ok g" for g
    using picks [OF that] Cons.prems by (auto simp: guard_of_def)
  moreover have "\<forall>g. Ok g \<in> set (takes ts (snd (take t s))) \<longrightarrow> kg_id g \<noteq> kid"
    using Cons.prems by (intro Cons.IH) (simp add: keeps)
  ultimately show ?case by (metis set_ConsD takes.simps(2))
qed

end

section \<open>The strategies keep the contract\<close>

lemma lru_scan_None:
  "lru_scan now ok rows best = None \<longleftrightarrow>
     best = None \<and> (\<forall>(i, k, seq)\<in>set rows. \<not> (ok k \<and> key_available now k))"
  by (induction now ok rows best rule: lru_scan.induct) (auto split: option.splits)

lemma lru_scan_Some:
  "lru_scan now ok rows best = Some (i, seq) \<Longrightarrow>
     (best = Some (i, seq) \<or> (\<exists>k. (i, k, seq) \<in> set rows \<and> ok k \<and> key_available now k))
   \<and> (\<forall>b. best = Some b \<longrightarrow> seq \<le> snd b)
   \<and> (\<forall>(j, k, t)\<in>set rows. ok k \<and> key_available now k \<longrightarrow> seq \<le> t)"
proof (induction now ok rows best rule: lru_scan.induct)
  case (1 now ok best)
  then show ?case by simp
next
  case (2 now ok idx k sq rest best)
  let ?c = "ok k \<and> key_available now k \<and> (case best of None \<Rightarrow> True | Some (_, b) \<Rightarrow> sq < b)"
  show ?case
  proof (cases ?c)
    case True
    then have "lru_scan now ok rest (Some (idx, sq)) = Some (i, seq)" using 2(2) by simp
    with 2(1) True show ?thesis by (auto split: option.splits)
  next
    case False
    then have "lru_scan now ok rest best = Some (i, seq)" using 2(2) by (simp only: lru_scan.simps if_False)
    with 2(1) False show ?thesis by (fastforce split: option.splits)
  qed
qed

lemma lru_rows_iff:
  "(i, k, seq) \<in> set (lru_rows p) \<longleftrightarrow> i < length (kp_keys p) \<and> k = kp_keys p ! i \<and> seq = kp_last_used p ! i"
  by (auto simp: lru_rows_def)

lemma set_ring: "0 < n \<Longrightarrow> set (ring start n) = {..<n}"
proof
  show "set (ring start n) \<subseteq> {..<n}" if "0 < n" using that by (auto simp: ring_def)
  show "{..<n} \<subseteq> set (ring start n)" if "0 < n"
  proof
    fix i assume i: "i \<in> {..<n}"
    define j where "j = (i + (n - start mod n)) mod n"
    have "(start + j) mod n = (start mod n + (i + (n - start mod n))) mod n"
      by (simp add: j_def mod_simps)
    also have "start mod n + (i + (n - start mod n)) = i + n"
      using mod_less_divisor [OF that, of start] by linarith
    finally have "(start + j) mod n = i" using i by simp
    moreover have "j < n" using that by (simp add: j_def)
    ultimately show "i \<in> set (ring start n)" by (force simp: ring_def)
  qed
qed

lemma index_ex: "(\<exists>i<length xs. P (xs ! i)) \<longleftrightarrow> (\<exists>x\<in>set xs. P x)"
  by (metis in_set_conv_nth)

lemma bump_keys [simp]: "kp_keys (bump p) = kp_keys p"
  by (simp add: bump_def)

lemma acquire_lru_spec:
  "fst (acquire_lru api now p) = Ok g \<Longrightarrow>
     \<exists>k\<in>set (kp_keys p). (api \<longrightarrow> is_api_compatible_key k) \<and> key_available now k \<and> g = guard_of k"
  "fst (acquire_lru api now p) = Err e \<Longrightarrow> k \<in> set (kp_keys p) \<Longrightarrow> (api \<longrightarrow> is_api_compatible_key k) \<Longrightarrow>
     \<not> key_available now k"
  "kp_keys (snd (acquire_lru api now p)) = kp_keys p"
proof -
  let ?ok = "\<lambda>k. api \<longrightarrow> is_api_compatible_key k"
  show "kp_keys (snd (acquire_lru api now p)) = kp_keys p"
    by (auto simp: acquire_lru_def Let_def split: option.splits prod.splits)
  show "\<exists>k\<in>set (kp_keys p). (api \<longrightarrow> is_api_compatible_key k) \<and> key_available now k \<and> g = guard_of k"
    if r: "fst (acquire_lru api now p) = Ok g"
  proof -
    obtain i seq where s: "lru_scan now ?ok (lru_rows p) None = Some (i, seq)" "g = guard_of (kp_keys p ! i)"
      using r by (auto simp: acquire_lru_def Let_def split: option.splits prod.splits)
    then show ?thesis using lru_scan_Some [OF s(1)] by (auto simp: lru_rows_iff)
  qed
  show "\<not> key_available now k"
    if r: "fst (acquire_lru api now p) = Err e" and k: "k \<in> set (kp_keys p)" "api \<longrightarrow> is_api_compatible_key k"
  proof -
    have "lru_scan now ?ok (lru_rows p) None = None"
      using r by (auto simp: acquire_lru_def Let_def split: option.splits prod.splits)
    moreover obtain i where "i < length (kp_keys p)" "k = kp_keys p ! i" using k(1) by (metis in_set_conv_nth)
    then have "(i, k, kp_last_used p ! i) \<in> set (lru_rows p)" by (simp add: lru_rows_iff)
    ultimately show ?thesis using k(2) unfolding lru_scan_None by fastforce
  qed
qed

lemma ring_find:
  assumes "0 < n" and "start < n \<or> True"
  shows "(List.find P (ring start n) = Some i \<longrightarrow> i < n \<and> P i)
    \<and> (List.find P (ring start n) = None \<longleftrightarrow> (\<forall>i<n. \<not> P i))"
  using set_ring [OF assms(1), of start] find_SomeD [of P "ring start n" i]
  by (auto simp: find_None_iff_all)

lemma indices_with_iff: "i \<in> set (indices_with P p) \<longleftrightarrow> i < length (kp_keys p) \<and> P (kp_keys p ! i)"
  by (auto simp: indices_with_def)

lemma indices_all:
  "(\<forall>i\<in>set (indices_with P p). \<not> Q (kp_keys p ! i)) \<longleftrightarrow> (\<forall>k\<in>set (kp_keys p). P k \<longrightarrow> \<not> Q k)"
  by (metis indices_with_iff in_set_conv_nth)

lemma primary_scan:
  "List.find P (map (\<lambda>j. xs ! j) (ring start (length xs))) = Some i \<Longrightarrow> i \<in> set xs \<and> P i"
  "List.find P (map (\<lambda>j. xs ! j) (ring start (length xs))) = None \<longleftrightarrow> (\<forall>i\<in>set xs. \<not> P i)"
proof -
  have s: "set (map (\<lambda>j. xs ! j) (ring start (length xs))) = set xs"
  proof (cases "xs = []")
    case True
    then show ?thesis by (simp add: ring_def)
  next
    case False
    then have "set (ring start (length xs)) = {..<length xs}" by (intro set_ring) simp
    then have "set (map (\<lambda>j. xs ! j) (ring start (length xs))) = (\<lambda>j. xs ! j) ` {..<length xs}" by simp
    also have "\<dots> = set xs" by (auto simp: set_conv_nth)
    finally show ?thesis .
  qed
  show "List.find P (map (\<lambda>j. xs ! j) (ring start (length xs))) = Some i \<Longrightarrow> i \<in> set xs \<and> P i"
    using find_SomeD s by metis
  show "List.find P (map (\<lambda>j. xs ! j) (ring start (length xs))) = None \<longleftrightarrow> (\<forall>i\<in>set xs. \<not> P i)"
    unfolding find_None_iff_all s ..
qed

lemma primary_then_fallback_spec:
  "fst (primary_then_fallback ok now p) = Some g \<Longrightarrow>
     \<exists>k\<in>set (kp_keys p). ok k \<and> key_available now k \<and> g = guard_of k
       \<and> (ak_priority k = Fallback \<longrightarrow>
           (\<forall>q\<in>set (kp_keys p). ok q \<and> ak_priority q = Primary \<longrightarrow> \<not> key_available now q))"
  "fst (primary_then_fallback ok now p) = None \<Longrightarrow> k \<in> set (kp_keys p) \<Longrightarrow> ok k \<Longrightarrow> \<not> key_available now k"
  "kp_keys (snd (primary_then_fallback ok now p)) = kp_keys p"
proof -
  let ?prims = "indices_with (\<lambda>k. ok k \<and> ak_priority k = Primary) p"
  let ?falls = "indices_with (\<lambda>k. ok k \<and> ak_priority k = Fallback) p"
  let ?free = "\<lambda>i. key_available now (kp_keys p ! i)"
  let ?start = "unat (kp_round_robin_index p) mod length ?prims"
  let ?scan = "List.find ?free (map (\<lambda>j. ?prims ! j) (ring ?start (length ?prims)))"
  show "kp_keys (snd (primary_then_fallback ok now p)) = kp_keys p"
    by (auto simp: primary_then_fallback_def Let_def split: option.splits)
  have all: "(\<forall>i\<in>set ?prims. \<not> ?free i) \<longleftrightarrow>
      (\<forall>q\<in>set (kp_keys p). ok q \<and> ak_priority q = Primary \<longrightarrow> \<not> key_available now q)"
    by (rule indices_all)
  show "\<exists>k\<in>set (kp_keys p). ok k \<and> key_available now k \<and> g = guard_of k
       \<and> (ak_priority k = Fallback \<longrightarrow>
           (\<forall>q\<in>set (kp_keys p). ok q \<and> ak_priority q = Primary \<longrightarrow> \<not> key_available now q))"
    if r: "fst (primary_then_fallback ok now p) = Some g"
  proof (cases ?scan)
    case (Some i)
    then have i: "i \<in> set ?prims" "?free i" using primary_scan(1) by fastforce+
    have "g = guard_of (kp_keys p ! i)" using r Some by (simp add: primary_then_fallback_def Let_def)
    moreover have "kp_keys p ! i \<in> set (kp_keys p)" "ok (kp_keys p ! i)" "ak_priority (kp_keys p ! i) = Primary"
      using i(1) by (auto simp: indices_with_iff)
    ultimately show ?thesis using i(2) by (metis key_priority.distinct(1))
  next
    case None
    then obtain i where i: "List.find ?free ?falls = Some i" "g = guard_of (kp_keys p ! i)"
      using r by (auto simp: primary_then_fallback_def Let_def split: option.splits)
    have "i \<in> set ?falls" "?free i" using find_SomeD [OF i(1)] by auto
    moreover have "\<forall>q\<in>set (kp_keys p). ok q \<and> ak_priority q = Primary \<longrightarrow> \<not> key_available now q"
      using None all unfolding primary_scan(2) by blast
    ultimately show ?thesis using i(2) by (auto simp: indices_with_iff intro!: bexI [of _ "kp_keys p ! i"])
  qed
  show "\<not> key_available now k"
    if r: "fst (primary_then_fallback ok now p) = None" and k: "k \<in> set (kp_keys p)" "ok k"
  proof -
    have scans: "?scan = None" "List.find ?free ?falls = None"
      using r by (auto simp: primary_then_fallback_def Let_def split: option.splits)
    note none = iffD1 [OF primary_scan(2) scans(1)] iffD1 [OF find_None_iff_all scans(2)]
    obtain i where i: "i < length (kp_keys p)" "kp_keys p ! i = k" using k(1) by (metis in_set_conv_nth)
    show ?thesis
      using none i k(2) by (cases "ak_priority k") (auto simp: indices_with_iff)
  qed
qed

text \<open>The two public ways to acquire, over every strategy.\<close>

lemma ring_scan:
  assumes "kp_keys p \<noteq> []"
  obtains (hit) i where "List.find (\<lambda>i. Q (kp_keys p ! i)) (ring start (length (kp_keys p))) = Some i"
      "kp_keys p ! i \<in> set (kp_keys p)" "Q (kp_keys p ! i)"
    | (miss) "List.find (\<lambda>i. Q (kp_keys p ! i)) (ring start (length (kp_keys p))) = None"
      "\<forall>k\<in>set (kp_keys p). \<not> Q k"
proof (cases "List.find (\<lambda>i. Q (kp_keys p ! i)) (ring start (length (kp_keys p)))")
  have r: "set (ring start (length (kp_keys p))) = {..<length (kp_keys p)}"
    using assms by (intro set_ring) simp
  case None
  then have "\<forall>k\<in>set (kp_keys p). \<not> Q k" using r by (auto simp: find_None_iff_all in_set_conv_nth)
  with None show ?thesis by (rule miss)
next
  have r: "set (ring start (length (kp_keys p))) = {..<length (kp_keys p)}"
    using assms by (intro set_ring) simp
  case (Some i)
  then have "i < length (kp_keys p)" "Q (kp_keys p ! i)" using find_SomeD [OF Some] r by auto
  with Some show ?thesis by (intro hit) simp_all
qed

lemma acquire_keeps: "kp_keys (snd (acquire now p)) = kp_keys p"
proof -
  have "kp_keys (snd (acquire_primary_fallback now p)) = kp_keys p"
  proof -
    obtain r p' where e: "primary_then_fallback is_api_compatible_key now p = (r, p')" by force
    have "kp_keys p' = kp_keys p" using primary_then_fallback_spec(3) [of "is_api_compatible_key" now p] e by simp
    then show ?thesis by (cases r) (simp_all add: acquire_primary_fallback_def e)
  qed
  moreover have "kp_keys (snd (acquire_standard now p)) = kp_keys p"
    by (simp add: acquire_standard_def acquire_lru_spec(3) Let_def split: option.split)
  ultimately show ?thesis by (simp add: acquire_def split: selection_strategy.split)
qed

lemma acquire_picks:
  assumes "fst (acquire now p) = Ok g"
  shows "\<exists>k\<in>set (kp_keys p). is_api_compatible_key k \<and> key_available now k \<and> g = guard_of k"
proof (cases "kp_strategy p")
  case RoundRobin
  from assms(1) have ne: "kp_keys p \<noteq> []" by (auto simp: acquire_def)
  show ?thesis using ne
  proof (cases rule: ring_scan [where Q = "\<lambda>k. key_available now k \<and> is_api_compatible_key k" and start = "unat (kp_round_robin_index p) mod length (kp_keys p)"])
    case (hit i)
    then show ?thesis using assms RoundRobin ne by (auto simp: acquire_def acquire_standard_def Let_def)
  next
    case miss
    then show ?thesis using assms RoundRobin ne by (auto simp: acquire_def acquire_standard_def Let_def)
  qed
next
  case LeastRecentlyUsed
  then show ?thesis
    using assms acquire_lru_spec(1) [of True now p g]
    by (auto simp: acquire_def acquire_standard_def split: if_splits)
next
  case PrimaryFallback
  then show ?thesis
    using assms primary_then_fallback_spec(1) [of is_api_compatible_key now p g]
    by (auto simp: acquire_def acquire_primary_fallback_def split: option.splits prod.splits if_splits)
qed

lemma acquire_finds:
  assumes "fst (acquire now p) = Err e" and "k \<in> set (kp_keys p)" and "is_api_compatible_key k"
  shows "\<not> key_available now k"
proof (cases "kp_strategy p")
  case RoundRobin
  have ne: "kp_keys p \<noteq> []" using assms(2) by auto
  show ?thesis using ne
  proof (cases rule: ring_scan [where Q = "\<lambda>k. key_available now k \<and> is_api_compatible_key k" and start = "unat (kp_round_robin_index p) mod length (kp_keys p)"])
    case (hit i)
    then show ?thesis using assms RoundRobin ne by (auto simp: acquire_def acquire_standard_def Let_def)
  next
    case miss
    then show ?thesis using assms RoundRobin ne by (auto simp: acquire_def acquire_standard_def Let_def)
  qed
next
  case LeastRecentlyUsed
  then show ?thesis
    using assms acquire_lru_spec(2) [of True now p e k]
    by (auto simp: acquire_def acquire_standard_def split: if_splits)
next
  case PrimaryFallback
  then show ?thesis
    using assms primary_then_fallback_spec(2) [of is_api_compatible_key now p k]
    by (auto simp: acquire_def acquire_primary_fallback_def split: option.splits prod.splits if_splits)
qed

interpretation api_keys: key_selector acquire kp_keys is_api_compatible_key
  by unfold_locales (auto dest: acquire_picks acquire_finds simp: acquire_keeps)

lemma acquire_any_keeps: "kp_keys (snd (acquire_any now p)) = kp_keys p"
proof -
  have "kp_keys (snd (acquire_primary_fallback_any now p)) = kp_keys p"
  proof -
    obtain r p' where e: "primary_then_fallback (\<lambda>_. True) now p = (r, p')" by force
    have "kp_keys p' = kp_keys p" using primary_then_fallback_spec(3) [of "(\<lambda>_. True)" now p] e by simp
    then show ?thesis by (cases r) (simp_all add: acquire_primary_fallback_any_def e)
  qed
  moreover have "kp_keys (snd (acquire_standard_any now p)) = kp_keys p"
    by (simp add: acquire_standard_any_def acquire_lru_spec(3) Let_def split: option.split)
  ultimately show ?thesis by (simp add: acquire_any_def split: selection_strategy.split)
qed

lemma acquire_any_picks:
  assumes "fst (acquire_any now p) = Ok g"
  shows "\<exists>k\<in>set (kp_keys p). key_available now k \<and> g = guard_of k"
proof (cases "kp_strategy p")
  case RoundRobin
  from assms(1) have ne: "kp_keys p \<noteq> []" by (auto simp: acquire_any_def)
  show ?thesis using ne
  proof (cases rule: ring_scan [where Q = "key_available now" and start = "unat (kp_round_robin_index p) mod length (kp_keys p)"])
    case (hit i)
    then show ?thesis using assms RoundRobin ne by (auto simp: acquire_any_def acquire_standard_any_def Let_def)
  next
    case miss
    then show ?thesis using assms RoundRobin ne by (auto simp: acquire_any_def acquire_standard_any_def Let_def)
  qed
next
  case LeastRecentlyUsed
  then show ?thesis
    using assms acquire_lru_spec(1) [of False now p g]
    by (auto simp: acquire_any_def acquire_standard_any_def split: if_splits)
next
  case PrimaryFallback
  then show ?thesis
    using assms primary_then_fallback_spec(1) [of "\<lambda>_. True" now p g]
    by (auto simp: acquire_any_def acquire_primary_fallback_any_def split: option.splits prod.splits if_splits)
qed

lemma acquire_any_finds:
  assumes "fst (acquire_any now p) = Err e" and "k \<in> set (kp_keys p)"
  shows "\<not> key_available now k"
proof (cases "kp_strategy p")
  case RoundRobin
  have ne: "kp_keys p \<noteq> []" using assms(2) by auto
  show ?thesis using ne
  proof (cases rule: ring_scan [where Q = "key_available now" and start = "unat (kp_round_robin_index p) mod length (kp_keys p)"])
    case (hit i)
    then show ?thesis using assms RoundRobin ne by (auto simp: acquire_any_def acquire_standard_any_def Let_def)
  next
    case miss
    then show ?thesis using assms RoundRobin ne by (auto simp: acquire_any_def acquire_standard_any_def Let_def)
  qed
next
  case LeastRecentlyUsed
  then show ?thesis
    using assms acquire_lru_spec(2) [of False now p e k]
    by (auto simp: acquire_any_def acquire_standard_any_def split: if_splits)
next
  case PrimaryFallback
  then show ?thesis
    using assms primary_then_fallback_spec(2) [of "\<lambda>_. True" now p k]
    by (auto simp: acquire_any_def acquire_primary_fallback_any_def split: option.splits prod.splits if_splits)
qed

interpretation any_keys: key_selector acquire_any kp_keys "\<lambda>_. True"
  by unfold_locales (auto dest: acquire_any_picks acquire_any_finds simp: acquire_any_keeps)

section \<open>Which error\<close>

lemma acquire_error:
  assumes "fst (acquire now p) = Err e"
  shows "e = (if kp_keys p = [] then NoKeys
    else if list_ex is_api_compatible_key (kp_keys p) then AllKeysRateLimited else NoApiCompatibleKeys)"
proof (cases "kp_strategy p")
  case RoundRobin
  then show ?thesis
    using assms by (auto simp: acquire_def acquire_standard_def Let_def split: option.splits if_splits)
next
  case LeastRecentlyUsed
  then show ?thesis
    using assms
    by (auto simp: acquire_def acquire_standard_def acquire_lru_def Let_def split: option.splits prod.splits if_splits)
next
  case PrimaryFallback
  then show ?thesis
    using assms by (auto simp: acquire_def acquire_primary_fallback_def split: option.splits prod.splits if_splits)
qed

section \<open>Turns\<close>

text \<open>The state of a run of acquisitions.\<close>

fun after_takes :: "nat list \<Rightarrow> key_pool \<Rightarrow> key_pool" where
  "after_takes [] p = p"
| "after_takes (t # ts) p = after_takes ts (snd (acquire t p))"

fun key_takes :: "nat list \<Rightarrow> key_pool \<Rightarrow> acquired list" where
  "key_takes [] p = []"
| "key_takes (t # ts) p = fst (acquire t p) # key_takes ts (snd (acquire t p))"

lemma key_takes_eq: "key_takes ts p = api_keys.takes ts p"
  by (induction ts p rule: key_takes.induct) simp_all

definition all_free :: "nat list \<Rightarrow> key_pool \<Rightarrow> bool" where
  "all_free ts p = (\<forall>k\<in>set (kp_keys p). is_api_compatible_key k \<and> (\<forall>t\<in>set ts. key_available t k))"

lemma all_free_step: "all_free (t # ts) p \<Longrightarrow> all_free ts (snd (acquire t p))"
  by (auto simp: all_free_def acquire_keeps)

lemma ring_first: "0 < n \<Longrightarrow> \<exists>xs. ring start n = (start mod n) # xs"
  by (auto simp: ring_def upt_conv_Cons)

lemma rr_step:
  assumes "kp_strategy p = RoundRobin" and "kp_keys p \<noteq> []" and "all_free (t # ts) p"
  shows "acquire t p = (Ok (guard_of (kp_keys p ! (unat (kp_round_robin_index p) mod length (kp_keys p)))), bump p)"
proof -
  let ?n = "length (kp_keys p)"
  let ?i = "unat (kp_round_robin_index p) mod ?n"
  have n: "0 < ?n" using assms(2) by simp
  then obtain xs where "ring ?i ?n = ?i # xs" using ring_first [of ?n ?i] by auto
  moreover have "kp_keys p ! ?i \<in> set (kp_keys p)" using n by simp
  ultimately have "List.find (\<lambda>i. key_available t (kp_keys p ! i) \<and> is_api_compatible_key (kp_keys p ! i))
      (ring ?i ?n) = Some ?i"
    using assms(3) by (simp add: all_free_def)
  then show ?thesis using assms(1,2) by (simp add: acquire_def acquire_standard_def Let_def)
qed

lemma rr_run:
  assumes "kp_strategy p = RoundRobin" and "kp_keys p \<noteq> []" and "all_free ts p"
    and "unat (kp_round_robin_index p) + length ts \<le> 2 ^ 64"
  shows "key_takes ts p = map (\<lambda>j. Ok (guard_of (kp_keys p ! ((unat (kp_round_robin_index p) + j) mod length (kp_keys p)))))
      [0..<length ts]"
  using assms
proof (induction ts arbitrary: p)
  case Nil
  then show ?case by simp
next
  case (Cons t ts)
  let ?q = "bump p"
  have a: "acquire t p = (Ok (guard_of (kp_keys p ! (unat (kp_round_robin_index p) mod length (kp_keys p)))), ?q)"
    using rr_step Cons.prems(1-3) by blast
  show ?case
  proof (cases "ts = []")
    case True
    then show ?thesis by (simp add: a)
  next
    case False
    then have idx: "unat (kp_round_robin_index ?q) = Suc (unat (kp_round_robin_index p))"
      using Cons.prems(4) by (cases ts) (auto simp: bump_def unat_succ64)
    have "key_takes ts ?q = map (\<lambda>j. Ok (guard_of (kp_keys p ! ((Suc (unat (kp_round_robin_index p)) + j) mod length (kp_keys p)))))
      [0..<length ts]"
      using Cons.IH [of ?q] Cons.prems a idx all_free_step [OF Cons.prems(3)]
      by (simp add: bump_def)
    moreover have "[0..<length (t # ts)] = 0 # map Suc [0..<length ts]"
      by (simp add: upt_conv_Cons map_Suc_upt del: upt_Suc)
    ultimately show ?thesis by (simp add: a del: upt_Suc)
  qed
qed

lemma lru_step:
  assumes "kp_strategy p = LeastRecentlyUsed" and "kp_keys p \<noteq> []" and "all_free (t # ts) p"
  obtains i where "i < length (kp_keys p)"
    and "acquire t p = (Ok (guard_of (kp_keys p ! i)),
      p\<lparr>kp_usage_seq := kp_usage_seq p + 1, kp_last_used := (kp_last_used p)[i := kp_usage_seq p + 1]\<rparr>)"
    and "\<forall>j<length (kp_keys p). kp_last_used p ! i \<le> kp_last_used p ! j"
proof -
  let ?ok = "\<lambda>k. True \<longrightarrow> is_api_compatible_key k"
  have free: "?ok (kp_keys p ! j) \<and> key_available t (kp_keys p ! j)" if "j < length (kp_keys p)" for j
    using assms(3) that by (simp add: all_free_def)
  have "(0, kp_keys p ! 0, kp_last_used p ! 0) \<in> set (lru_rows p)" using assms(2) by (simp add: lru_rows_iff)
  then have "lru_scan t ?ok (lru_rows p) None \<noteq> None"
    unfolding lru_scan_None using free [of 0] assms(2) by fastforce
  then obtain i seq where s: "lru_scan t ?ok (lru_rows p) None = Some (i, seq)" by auto
  note sp = lru_scan_Some [OF s]
  then have i: "i < length (kp_keys p)" "seq = kp_last_used p ! i" by (auto simp: lru_rows_iff)
  have "kp_last_used p ! i \<le> kp_last_used p ! j" if "j < length (kp_keys p)" for j
  proof -
    have "(j, kp_keys p ! j, kp_last_used p ! j) \<in> set (lru_rows p)" using that by (simp add: lru_rows_iff)
    with sp free [OF that] i(2) show ?thesis by fastforce
  qed
  moreover have "acquire t p = (Ok (guard_of (kp_keys p ! i)),
      p\<lparr>kp_usage_seq := kp_usage_seq p + 1, kp_last_used := (kp_last_used p)[i := kp_usage_seq p + 1]\<rparr>)"
    using assms(1,2) s by (simp add: acquire_def acquire_standard_def acquire_lru_def Let_def)
  ultimately show thesis using that i(1) by blast
qed

lemma lru_run:
  assumes "kp_strategy p = LeastRecentlyUsed" and "kp_keys p \<noteq> []" and "all_free ts p"
    and "length (kp_last_used p) = length (kp_keys p)"
    and "S \<subseteq> {..<length (kp_keys p)}" and "card S + length ts \<le> length (kp_keys p)"
    and "unat (kp_usage_seq p) + length ts < 2 ^ 64" and "base \<le> kp_usage_seq p"
    and "\<forall>j<length (kp_keys p). if j \<in> S then base < kp_last_used p ! j else kp_last_used p ! j \<le> base"
  shows "\<exists>is. distinct is \<and> set is \<subseteq> {..<length (kp_keys p)} - S
    \<and> key_takes ts p = map (\<lambda>i. Ok (guard_of (kp_keys p ! i))) is"
  using assms
proof (induction ts arbitrary: p S)
  case Nil
  then show ?case by simp
next
  case (Cons t ts)
  let ?n = "length (kp_keys p)"
  let ?next = "kp_usage_seq p + 1"
  obtain i where i: "i < ?n" "acquire t p = (Ok (guard_of (kp_keys p ! i)),
      p\<lparr>kp_usage_seq := ?next, kp_last_used := (kp_last_used p)[i := ?next]\<rparr>)"
    and least: "\<forall>j<?n. kp_last_used p ! i \<le> kp_last_used p ! j"
    using lru_step Cons.prems(1-3) by blast
  let ?q = "p\<lparr>kp_usage_seq := ?next, kp_last_used := (kp_last_used p)[i := ?next]\<rparr>"
  have fin: "finite S" using Cons.prems(5) finite_subset by blast
  have "card S < card {..<?n}" using Cons.prems(6) by simp
  then obtain j where j: "j < ?n" "j \<notin> S" using fin by (metis card_mono finite_lessThan lessThan_iff not_less subsetI)
  then have "kp_last_used p ! j \<le> base" using Cons.prems(9) by auto
  then have notin: "i \<notin> S" using least i(1) j(1) Cons.prems(9) by (metis leD order_trans)
  have seq: "unat ?next = unat (kp_usage_seq p) + 1" using Cons.prems(7) by (intro unat_succ64) simp
  then have lt: "kp_usage_seq p < ?next" by (simp add: word_less_nat_alt)
  have "\<exists>is. distinct is \<and> set is \<subseteq> {..<length (kp_keys ?q)} - insert i S
      \<and> key_takes ts ?q = map (\<lambda>i. Ok (guard_of (kp_keys ?q ! i))) is"
  proof (rule Cons.IH)
    show "all_free ts ?q" using all_free_step [OF Cons.prems(3)] i(2) by simp
    show "card (insert i S) + length ts \<le> length (kp_keys ?q)" using Cons.prems(6) notin fin by simp
    show "unat (kp_usage_seq ?q) + length ts < 2 ^ 64" using Cons.prems(7) seq by simp
    show "base \<le> kp_usage_seq ?q" using Cons.prems(8) lt by simp
    show "\<forall>j<length (kp_keys ?q). if j \<in> insert i S then base < kp_last_used ?q ! j else kp_last_used ?q ! j \<le> base"
      using Cons.prems(4,8,9) lt i(1) by (auto simp: nth_list_update)
  qed (use Cons.prems i in auto)
  then obtain js where js: "distinct js" "set js \<subseteq> {..<?n} - insert i S"
    "key_takes ts ?q = map (\<lambda>i. Ok (guard_of (kp_keys p ! i))) js" by auto
  then have "distinct (i # js) \<and> set (i # js) \<subseteq> {..<?n} - S
    \<and> key_takes (t # ts) p = map (\<lambda>i. Ok (guard_of (kp_keys p ! i))) (i # js)"
    using i notin by auto
  then show ?case by blast
qed

lemma rr_indices_distinct:
  assumes "m \<le> n" and "0 < n"
  shows "distinct (map (\<lambda>j. (s + j) mod n) [0..<m])"
proof -
  have ne: "(s + i) mod n \<noteq> (s + j) mod n" if "i < j" "j < n" for i j
  proof
    assume "(s + i) mod n = (s + j) mod n"
    then have "n dvd j - i" using mod_eq_dvd_iff_nat [of "s + i" "s + j" n] that by simp
    then show False using that nat_dvd_not_less [of "j - i" n] by simp
  qed
  have "i = j" if "i < m" "j < m" "(s + i) mod n = (s + j) mod n" for i j
    using ne [of i j] ne [of j i] that assms(1) by (cases i j rule: linorder_cases) auto
  then show ?thesis by (auto simp: distinct_map inj_on_def)
qed

section \<open>Properties\<close>

text \<open>Acquiring, under every strategy and in every state: a key that is handed out is an
  API-compatible key of the pool that is not cooling down; and the three errors tell exactly why
  there is none, an empty pool, no API-compatible key, or all of those cooling down.\<close>

theorem acquire_exact:
  "case fst (acquire now p) of
     Inr g \<Rightarrow> (\<exists>k\<in>set (kp_keys p). is_api_compatible_key k \<and> key_available now k \<and> g = guard_of k)
   | Inl e \<Rightarrow> (case e of
       NoKeys \<Rightarrow> kp_keys p = []
     | NoApiCompatibleKeys \<Rightarrow> kp_keys p \<noteq> [] \<and> filter is_api_compatible_key (kp_keys p) = []
     | AllKeysRateLimited \<Rightarrow> filter is_api_compatible_key (kp_keys p) \<noteq> []
         \<and> filter (key_available now) (filter is_api_compatible_key (kp_keys p)) = [])"
proof (cases "fst (acquire now p)")
  case (Inl e)
  have "\<not> key_available now k" if "k \<in> set (kp_keys p)" "is_api_compatible_key k" for k
    using api_keys.finds [OF Inl that] .
  moreover note acquire_error [OF Inl]
  ultimately show ?thesis
    using Inl by (auto simp: filter_empty_conv list_ex_iff split: key_pool_error.splits)
next
  case (Inr g)
  then show ?thesis using api_keys.picks by simp
qed

text \<open>Fair turns: under round robin and under least recent use, as long as every key is usable, no key
  is handed out again before every other key had its turn: any run of at most as many
  acquisitions as the pool has keys hands out pairwise different keys.\<close>

theorem acquire_fair_turns:
  assumes "kp_strategy p = RoundRobin \<or> kp_strategy p = LeastRecentlyUsed" and "kp_keys p \<noteq> []"
    and "all_free ts p" and "distinct (map ak_id (kp_keys p))" and "length ts \<le> length (kp_keys p)"
    and "length (kp_last_used p) = length (kp_keys p)" and "\<forall>u\<in>set (kp_last_used p). u \<le> kp_usage_seq p"
    and "unat (kp_round_robin_index p) + length ts \<le> 2 ^ 64" and "unat (kp_usage_seq p) + length ts < 2 ^ 64"
  shows "\<exists>gs. key_takes ts p = map Ok gs \<and> length gs = length ts \<and> distinct (map kg_id gs)"
proof -
  have "\<exists>is. distinct is \<and> set is \<subseteq> {..<length (kp_keys p)}
    \<and> key_takes ts p = map (\<lambda>i. Ok (guard_of (kp_keys p ! i))) is"
  proof (cases "kp_strategy p = RoundRobin")
    case True
    let ?is = "map (\<lambda>j. (unat (kp_round_robin_index p) + j) mod length (kp_keys p)) [0..<length ts]"
    have "key_takes ts p = map (\<lambda>i. Ok (guard_of (kp_keys p ! i))) ?is"
      using rr_run [OF True assms(2,3,8)] by simp
    moreover have "distinct ?is" using rr_indices_distinct assms(2,5) by simp
    moreover have "set ?is \<subseteq> {..<length (kp_keys p)}" using assms(2) by auto
    ultimately show ?thesis by blast
  next
    case False
    with assms(1) have "kp_strategy p = LeastRecentlyUsed" by simp
    then show ?thesis
      using lru_run [of p ts "{}" "kp_usage_seq p"] assms by (fastforce simp: all_set_conv_all_nth)
  qed
  then obtain js where js: "distinct js" "set js \<subseteq> {..<length (kp_keys p)}"
    "key_takes ts p = map (\<lambda>i. Ok (guard_of (kp_keys p ! i))) js" by blast
  have len: "length (key_takes ts p) = length ts" for ts p by (induction ts p rule: key_takes.induct) simp_all
  let ?gs = "map (\<lambda>i. guard_of (kp_keys p ! i)) js"
  have "inj_on (\<lambda>i. ak_id (kp_keys p ! i)) {..<length (kp_keys p)}"
    using assms(4) by (auto simp: distinct_conv_nth inj_on_def)
  then have "distinct (map kg_id ?gs)"
    using js(1,2) by (simp add: guard_of_def comp_def distinct_map inj_on_subset)
  moreover have "key_takes ts p = map Ok ?gs" using js(3) by simp
  ultimately show ?thesis using js(3) len [of ts p] by (intro exI [of _ ?gs]) simp
qed

definition demo_pool :: "selection_strategy \<Rightarrow> key_pool" where
  "demo_pool st = key_pool_new [api_key_new ''k1'' OpenAI ''s1'', api_key_new ''k2'' OpenAI ''s2''] st"

lemma acquire_fair_turns_witness:
  "\<exists>gs. key_takes [5, 6] (demo_pool LeastRecentlyUsed) = map Ok gs \<and> length gs = length [5 :: nat, 6]
     \<and> distinct (map kg_id gs)"
  by (rule acquire_fair_turns)
    (simp_all add: demo_pool_def key_pool_new_def api_key_new_def all_free_def is_api_compatible_key_def
      key_available_def rate_limit_state_default_def)

text \<open>A rate limit reported for a key keeps it out of use for as long as it asked: no acquisition,
  under any strategy, hands it out before the cooldown is over, however many are made.\<close>

theorem cooldown_respected:
  assumes "distinct (map ak_id (kp_keys p))" and "\<forall>t\<in>set ts. t < now + retry_after_ms * nanos_per_milli"
    and "Ok g \<in> set (key_takes ts (report_result now kid (CallRateLimited retry_after_ms) p))"
  shows "kg_id g \<noteq> kid"
proof -
  let ?p = "report_result now kid (CallRateLimited retry_after_ms) p"
  have "\<forall>k\<in>set (report_first now kid (CallRateLimited retry_after_ms) ks). ak_id k = kid \<longrightarrow>
      cooldown_until (ak_rate_state k) = Some (now + retry_after_ms * nanos_per_milli)"
    if "distinct (map ak_id ks)" for ks
    using that by (induction ks) (auto simp: report_key_def image_iff)
  then have "\<forall>k\<in>set (kp_keys ?p). ak_id k = kid \<longrightarrow> (\<forall>t\<in>set ts. \<not> key_available t k)"
    using assms(1,2) by (fastforce simp: report_result_def key_available_def)
  then show ?thesis
    using api_keys.never_cooling [of ?p kid ts] assms(3) by (simp add: key_takes_eq)
qed

lemma cooldown_respected_witness:
  "key_takes [8, 9] (report_result 7 ''k1'' (CallRateLimited 1) (demo_pool RoundRobin))
     = [Ok (guard_of (api_key_new ''k2'' OpenAI ''s2'')), Ok (guard_of (api_key_new ''k2'' OpenAI ''s2''))]
   \<and> kg_id (guard_of (api_key_new ''k2'' OpenAI ''s2'')) \<noteq> ''k1''"
proof -
  have run: "key_takes [8, 9] (report_result 7 ''k1'' (CallRateLimited 1) (demo_pool RoundRobin))
     = [Ok (guard_of (api_key_new ''k2'' OpenAI ''s2'')), Ok (guard_of (api_key_new ''k2'' OpenAI ''s2''))]"
    by (simp add: demo_pool_def key_pool_new_def api_key_new_def report_result_def report_key_def
        rate_limit_state_default_def acquire_def acquire_standard_def ring_def bump_def key_available_def
        is_api_compatible_key_def nanos_per_milli_def upt_conv_Cons Let_def)
  have "kg_id (guard_of (api_key_new ''k2'' OpenAI ''s2'')) \<noteq> ''k1''"
  proof (rule cooldown_respected [of "demo_pool RoundRobin" "[8, 9]" 7 1])
    show "distinct (map ak_id (kp_keys (demo_pool RoundRobin)))"
      by (simp add: demo_pool_def key_pool_new_def api_key_new_def)
    show "\<forall>t\<in>set [8, 9]. t < 7 + 1 * nanos_per_milli" by (simp add: nanos_per_milli_def)
    show "Ok (guard_of (api_key_new ''k2'' OpenAI ''s2''))
      \<in> set (key_takes [8, 9] (report_result 7 ''k1'' (CallRateLimited 1) (demo_pool RoundRobin)))"
      unfolding run by simp
  qed
  with run show ?thesis by blast
qed

text \<open>Primary before fallback: under that strategy a fallback key is handed out only while no
  API-compatible primary key is free.\<close>

theorem fallback_only_when_primaries_busy:
  assumes "kp_strategy p = PrimaryFallback" and "fst (acquire now p) = Ok g"
  shows "\<exists>k\<in>set (kp_keys p). g = guard_of k \<and> is_api_compatible_key k \<and> key_available now k
    \<and> (ak_priority k = Fallback \<longrightarrow>
        (\<forall>q\<in>set (kp_keys p). is_api_compatible_key q \<and> ak_priority q = Primary \<longrightarrow> \<not> key_available now q))"
proof -
  have "fst (primary_then_fallback is_api_compatible_key now p) = Some g"
    using assms
    by (auto simp: acquire_def acquire_primary_fallback_def split: option.splits prod.splits if_splits)
  from primary_then_fallback_spec(1) [OF this] show ?thesis by blast
qed

lemma fallback_only_when_primaries_busy_witness:
  "\<exists>k\<in>set (kp_keys (demo_pool PrimaryFallback)). guard_of (api_key_new ''k1'' OpenAI ''s1'') = guard_of k"
proof -
  have "fst (acquire 5 (demo_pool PrimaryFallback)) = Ok (guard_of (api_key_new ''k1'' OpenAI ''s1''))"
    by (simp add: demo_pool_def key_pool_new_def api_key_new_def rate_limit_state_default_def acquire_def
        acquire_primary_fallback_def primary_then_fallback_def indices_with_def ring_def key_available_def
        is_api_compatible_key_def upt_conv_Cons Let_def)
  from fallback_only_when_primaries_busy [OF _ this] show ?thesis
    by (auto simp: demo_pool_def key_pool_new_def)
qed

end
