(* ===== verification/Model_Registry.thy ===== *)
theory Model_Registry
  imports Key_Pool
begin

text \<open>
  The catalogue of models (\<open>crates/openalpaca_llm/src/routing/model_registry/mod.rs\<close>): which
  provider serves a model id, at what price and with what abilities, filled from the compiled
  defaults, the \<open>[models]\<close> rows of \<open>llm.toml\<close> and the providers' own discovery. Names of
  providers are parsed as in \<open>config/llm_config/mod.rs\<close>.

  The map is a \<open>table\<close> in whatever order its iteration visits it. Prices are rationals where the
  code has \<open>f64\<close>. The lock around the map makes each operation one function of the state.
\<close>

section \<open>State\<close>

record model_info =
  mi_provider :: provider_type
  mi_input_price :: rat
  mi_output_price :: rat
  mi_context_window :: "32 word"
  mi_discovered :: bool
  mi_supports_image :: bool
  mi_supports_audio :: bool
  mi_supports_document :: bool
  mi_supports_reasoning :: bool
  mi_supports_tools :: bool
  mi_declared :: bool

record model_registry =
  mr_models :: "(string, model_info) table"

definition model_registry_new :: "(string, model_info) table \<Rightarrow> model_registry" where
  "model_registry_new ms = \<lparr>mr_models = ms\<rparr>"

definition mr_ok :: "model_registry \<Rightarrow> bool" where
  "mr_ok r = table_ok (mr_models r)"

record pricing_info =
  pr_input :: rat
  pr_output :: rat

record model_entry =
  me_id :: string
  me_provider :: string
  me_context_window :: "32 word"
  me_input_price :: rat
  me_output_price :: rat
  me_supports_tools :: bool

record model_config_entry =
  mc_provider :: string
  mc_input_price :: "rat option"
  mc_output_price :: "rat option"
  mc_context :: "32 word option"
  mc_supports_image :: "bool option"
  mc_supports_audio :: "bool option"
  mc_supports_document :: "bool option"
  mc_supports_reasoning :: "bool option"
  mc_supports_tools :: "bool option"

definition unwrap_or :: "'a option \<Rightarrow> 'a \<Rightarrow> 'a" where
  "unwrap_or m d = (case m of None \<Rightarrow> d | Some a \<Rightarrow> a)"

lemma unwrap_or_simps [simp]: "unwrap_or None d = d" "unwrap_or (Some a) d = a"
  by (simp_all add: unwrap_or_def)

section \<open>Provider names\<close>

definition parse_provider_type :: "string \<Rightarrow> provider_type option" where
  "parse_provider_type name =
     (if name = ''anthropic'' then Some Anthropic
      else if name = ''openai'' then Some OpenAI
      else if name = ''ollama'' then Some Ollama
      else if starts_with name ''plugin:'' then Some (ProviderPlugin (drop 7 name))
      else None)"

text \<open>The providers of \<open>llm.toml\<close> whose \<open>enabled\<close> bit is written and false.\<close>

definition disabled_providers :: "(string, bool option) table option \<Rightarrow> provider_type set" where
  "disabled_providers providers =
     set (List.map_filter (\<lambda>(name, enabled). if enabled = Some False then parse_provider_type name else None)
       (unwrap_or providers []))"

section \<open>The compiled catalogue\<close>

definition anthropic_row :: "rat \<Rightarrow> rat \<Rightarrow> model_info" where
  "anthropic_row i p =
     \<lparr>mi_provider = Anthropic, mi_input_price = i, mi_output_price = p, mi_context_window = 200000,
      mi_discovered = False, mi_supports_image = True, mi_supports_audio = False,
      mi_supports_document = True, mi_supports_reasoning = False, mi_supports_tools = True,
      mi_declared = True\<rparr>"

definition gpt_row :: "rat \<Rightarrow> rat \<Rightarrow> model_info" where
  "gpt_row i p =
     \<lparr>mi_provider = OpenAI, mi_input_price = i, mi_output_price = p, mi_context_window = 128000,
      mi_discovered = False, mi_supports_image = True, mi_supports_audio = True,
      mi_supports_document = False, mi_supports_reasoning = False, mi_supports_tools = True,
      mi_declared = True\<rparr>"

definition reasoning_row :: "bool \<Rightarrow> rat \<Rightarrow> rat \<Rightarrow> model_info" where
  "reasoning_row img i p =
     \<lparr>mi_provider = OpenAI, mi_input_price = i, mi_output_price = p, mi_context_window = 200000,
      mi_discovered = False, mi_supports_image = img, mi_supports_audio = False,
      mi_supports_document = False, mi_supports_reasoning = True, mi_supports_tools = True,
      mi_declared = True\<rparr>"

definition default_models :: "(string, model_info) table" where
  "default_models =
     map (\<lambda>i. (i, anthropic_row 15 75)) [''claude-opus-4-20250514'', ''claude-opus-4-6'']
   @ map (\<lambda>i. (i, anthropic_row 3 15))
       [''claude-sonnet-4-6'', ''claude-sonnet-4-5-20250929'', ''claude-sonnet-4-20250514'']
   @ [(''claude-haiku-4-5-20251001'', anthropic_row 1 5),
      (''gpt-5.2'', gpt_row (175 / 100) 14), (''gpt-5-mini'', gpt_row (25 / 100) 2),
      (''gpt-5-nano'', gpt_row (5 / 100) (40 / 100)),
      (''o3'', reasoning_row True 10 40), (''o3-mini'', reasoning_row False (110 / 100) (440 / 100)),
      (''o1'', reasoning_row True 15 60), (''o1-mini'', reasoning_row False (110 / 100) (440 / 100))]"

definition with_defaults :: model_registry where
  "with_defaults = model_registry_new default_models"

section \<open>Lookups\<close>

definition get_model_info :: "model_registry \<Rightarrow> string \<Rightarrow> model_info option" where
  "get_model_info r i = tget (mr_models r) i"

definition resolve_provider :: "model_registry \<Rightarrow> string \<Rightarrow> provider_type option" where
  "resolve_provider r i = map_option mi_provider (tget (mr_models r) i)"

definition resolve_provider_name :: "model_registry \<Rightarrow> string \<Rightarrow> string option" where
  "resolve_provider_name r i = map_option provider_to_string (resolve_provider r i)"

definition get_pricing :: "model_registry \<Rightarrow> string \<Rightarrow> pricing_info option" where
  "get_pricing r i =
     map_option (\<lambda>info. \<lparr>pr_input = mi_input_price info, pr_output = mi_output_price info\<rparr>) (tget (mr_models r) i)"

definition supports_image :: "model_registry \<Rightarrow> string \<Rightarrow> bool" where
  "supports_image r i = unwrap_or (map_option mi_supports_image (tget (mr_models r) i)) False"

definition supports_audio :: "model_registry \<Rightarrow> string \<Rightarrow> bool" where
  "supports_audio r i = unwrap_or (map_option mi_supports_audio (tget (mr_models r) i)) False"

definition supports_document :: "model_registry \<Rightarrow> string \<Rightarrow> bool" where
  "supports_document r i = unwrap_or (map_option mi_supports_document (tget (mr_models r) i)) False"

definition supports_reasoning :: "model_registry \<Rightarrow> string \<Rightarrow> bool" where
  "supports_reasoning r i = unwrap_or (map_option mi_supports_reasoning (tget (mr_models r) i)) False"

definition supports_tools :: "model_registry \<Rightarrow> string \<Rightarrow> bool" where
  "supports_tools r i = unwrap_or (map_option mi_supports_tools (tget (mr_models r) i)) True"

text \<open>Discovered before declared, tool-capable before not, then the id: \<^const>\<open>False\<close> sorts first.\<close>

definition preference :: "string \<times> model_info \<Rightarrow> bool \<times> bool \<times> string" where
  "preference row = (\<not> mi_discovered (snd row), \<not> mi_supports_tools (snd row), fst row)"

definition first_model_for_provider :: "provider_type \<Rightarrow> model_registry \<Rightarrow> string option" where
  "first_model_for_provider p r =
     (case sort_key preference (filter (\<lambda>(_, info). mi_provider info = p) (mr_models r)) of
        [] \<Rightarrow> None
      | row # _ \<Rightarrow> Some (fst row))"

definition is_local_only :: "model_registry \<Rightarrow> bool" where
  "is_local_only r =
     (mr_models r \<noteq> [] \<and> list_all (\<lambda>info. provider_is_local (mi_provider info)) (tvalues (mr_models r)))"

definition model_ids :: "model_registry \<Rightarrow> string list" where
  "model_ids r = tkeys (mr_models r)"

definition entry_of :: "string \<times> model_info \<Rightarrow> model_entry" where
  "entry_of row =
     \<lparr>me_id = fst row, me_provider = provider_to_string (mi_provider (snd row)),
      me_context_window = mi_context_window (snd row), me_input_price = mi_input_price (snd row),
      me_output_price = mi_output_price (snd row), me_supports_tools = mi_supports_tools (snd row)\<rparr>"

definition list_models :: "model_registry \<Rightarrow> model_entry list" where
  "list_models r = sort_key (\<lambda>e. (me_provider e, me_id e)) (map entry_of (mr_models r))"

definition list_discovered_models :: "model_registry \<Rightarrow> model_entry list" where
  "list_discovered_models r =
     sort_key (\<lambda>e. (me_provider e, me_id e))
       (map entry_of (filter (\<lambda>(_, info). mi_discovered info) (mr_models r)))"

section \<open>Updates\<close>

definition model_register :: "string \<Rightarrow> model_info \<Rightarrow> model_registry \<Rightarrow> model_registry" where
  "model_register i info r = r\<lparr>mr_models := tput i info (mr_models r)\<rparr>"

definition model_remove :: "string \<Rightarrow> model_registry \<Rightarrow> bool \<times> model_registry" where
  "model_remove i r = (tget (mr_models r) i \<noteq> None, r\<lparr>mr_models := tdel i (mr_models r)\<rparr>)"

definition config_info :: "provider_type \<Rightarrow> model_config_entry \<Rightarrow> model_info" where
  "config_info p e =
     \<lparr>mi_provider = p, mi_input_price = unwrap_or (mc_input_price e) 0,
      mi_output_price = unwrap_or (mc_output_price e) 0,
      mi_context_window = unwrap_or (mc_context e) 200000, mi_discovered = False,
      mi_supports_image = unwrap_or (mc_supports_image e) False,
      mi_supports_audio = unwrap_or (mc_supports_audio e) False,
      mi_supports_document = unwrap_or (mc_supports_document e) False,
      mi_supports_reasoning = unwrap_or (mc_supports_reasoning e) False,
      mi_supports_tools = unwrap_or (mc_supports_tools e) True, mi_declared = True\<rparr>"

fun reload_from_config ::
  "(string, model_config_entry) table \<Rightarrow> provider_type set \<Rightarrow> model_registry \<Rightarrow> model_registry" where
  "reload_from_config [] disabled r = r"
| "reload_from_config ((i, e) # rest) disabled r =
     reload_from_config rest disabled
       (case parse_provider_type (mc_provider e) of
          None \<Rightarrow> r
        | Some p \<Rightarrow> if p \<in> disabled then r else model_register i (config_info p e) r)"

definition with_defaults_and_config ::
  "(string, model_config_entry) table \<Rightarrow> provider_type set \<Rightarrow> model_registry" where
  "with_defaults_and_config cfg disabled =
     reload_from_config cfg disabled
       (model_registry_new (tretain (\<lambda>_ info. mi_provider info \<notin> disabled) default_models))"

definition withdraw_absent_for_provider ::
  "provider_type \<Rightarrow> string set \<Rightarrow> model_registry \<Rightarrow> string list \<times> model_registry" where
  "withdraw_absent_for_provider p present r =
     (let absent = (\<lambda>i info. mi_provider info = p \<and> i \<notin> present);
          hide = (\<lambda>i info. absent i info \<and> mi_declared info \<and> mi_discovered info);
          withdrawn = tkeys (tretain hide (mr_models r));
          gone = tkeys (tretain (\<lambda>i info. absent i info \<and> \<not> mi_declared info) (mr_models r));
          kept = tmap_values (\<lambda>i info. if hide i info then info\<lparr>mi_discovered := False\<rparr> else info) (mr_models r)
      in (sort (withdrawn @ gone), r\<lparr>mr_models := fold tdel gone kept\<rparr>))"

definition remove_by_provider :: "provider_type \<Rightarrow> model_registry \<Rightarrow> string list \<times> model_registry" where
  "remove_by_provider p r =
     (let gone = tkeys (tretain (\<lambda>_ info. mi_provider info = p) (mr_models r))
      in (gone, r\<lparr>mr_models := fold tdel gone (mr_models r)\<rparr>))"

fun restore_rows ::
  "(string, model_info) table \<Rightarrow> provider_type \<Rightarrow> (string, model_info) table \<Rightarrow> nat \<Rightarrow> nat \<times> (string, model_info) table" where
  "restore_rows [] p ms n = (n, ms)"
| "restore_rows ((i, info) # rest) p ms n =
     (if mi_provider info = p \<and> tget ms i = None then restore_rows rest p (tput i info ms) (Suc n)
      else restore_rows rest p ms n)"

definition restore_defaults_for_provider :: "provider_type \<Rightarrow> model_registry \<Rightarrow> nat \<times> model_registry" where
  "restore_defaults_for_provider p r =
     (let (n, ms) = restore_rows default_models p (mr_models r) 0 in (n, r\<lparr>mr_models := ms\<rparr>))"

definition register_if_absent :: "string \<Rightarrow> model_info \<Rightarrow> model_registry \<Rightarrow> model_registry" where
  "register_if_absent i info r =
     (case tget (mr_models r) i of None \<Rightarrow> model_register i info r | Some _ \<Rightarrow> r)"

definition register_discovered :: "string \<Rightarrow> model_info \<Rightarrow> model_registry \<Rightarrow> model_registry" where
  "register_discovered i info r =
     (case tget (mr_models r) i of
        Some old \<Rightarrow>
          let old' = old\<lparr>mi_discovered := True\<rparr> in
          model_register i
            (if mi_context_window old' = 0 \<and> 0 < mi_context_window info
             then old'\<lparr>mi_context_window := mi_context_window info\<rparr> else old') r
      | None \<Rightarrow> model_register i (info\<lparr>mi_discovered := True\<rparr>) r)"

definition mark_defaults_discovered_for_provider :: "provider_type \<Rightarrow> model_registry \<Rightarrow> nat \<times> model_registry" where
  "mark_defaults_discovered_for_provider p r =
     (let hit = (\<lambda>info. mi_provider info = p \<and> \<not> mi_discovered info) in
      (length (filter hit (tvalues (mr_models r))),
       r\<lparr>mr_models := tmap_values (\<lambda>_ info. if hit info then info\<lparr>mi_discovered := True\<rparr> else info) (mr_models r)\<rparr>))"

section \<open>Tables\<close>

lemma tget_fold_tdel [table_simps]:
  "tget (fold tdel ks t) k = (if k \<in> set ks then None else tget t k)"
  by (induction ks arbitrary: t) (auto simp: table_simps)

lemma table_ok_fold_tdel [simp, table_ok_intros]: "table_ok t \<Longrightarrow> table_ok (fold tdel ks t)"
  by (induction ks arbitrary: t) auto

lemma tkeys_tretain_iff:
  "table_ok t \<Longrightarrow> k \<in> set (tkeys (tretain P t)) \<longleftrightarrow> (\<exists>v. tget t k = Some v \<and> P k v)"
  by (auto simp: tkeys_iff table_simps split: option.splits simp del: set_map)

lemma distinct_tkeys_tretain: "table_ok t \<Longrightarrow> distinct (tkeys (tretain P t))"
  using table_ok_tretain [of t P] by (simp add: table_ok_def)

section \<open>The catalogue as a store\<close>

interpretation models: keyed_store get_model_info model_register "\<lambda>i r. snd (model_remove i r)" mr_ok
  by unfold_locales
    (auto simp: get_model_info_def model_register_def model_remove_def mr_ok_def table_simps)

text \<open>A reload is a history of insertions: the rows whose provider is known and enabled.\<close>

definition config_ops ::
  "(string, model_config_entry) table \<Rightarrow> provider_type set \<Rightarrow> (string, model_info) store_op list" where
  "config_ops cfg disabled =
     List.map_filter (\<lambda>(i, e). case parse_provider_type (mc_provider e) of
         None \<Rightarrow> None
       | Some p \<Rightarrow> if p \<in> disabled then None else Some (Put i (config_info p e))) cfg"

lemma reload_run: "reload_from_config cfg disabled r = models.run_ops r (config_ops cfg disabled)"
  by (induction cfg disabled r rule: reload_from_config.induct)
    (auto simp: config_ops_def map_filter_simps split: option.splits)

text \<open>What a configuration says of one id.\<close>

definition config_row ::
  "(string, model_config_entry) table \<Rightarrow> provider_type set \<Rightarrow> string \<Rightarrow> model_info option" where
  "config_row cfg disabled i =
     (case tget cfg i of
        None \<Rightarrow> None
      | Some e \<Rightarrow>
          (case parse_provider_type (mc_provider e) of
             None \<Rightarrow> None
           | Some p \<Rightarrow> if p \<in> disabled then None else Some (config_info p e)))"

lemma config_ops_keys: "x \<in> set (config_ops cfg disabled) \<Longrightarrow> store_key x \<in> set (tkeys cfg)"
  by (induction cfg) (auto simp: config_ops_def map_filter_simps split: option.splits if_splits)

lemma last_write_config:
  "table_ok cfg \<Longrightarrow>
   last_write old i (config_ops cfg disabled)
     = (case config_row cfg disabled i of None \<Rightarrow> old | Some info \<Rightarrow> Some info)"
proof (induction cfg arbitrary: old)
  case Nil
  then show ?case by (simp add: config_ops_def config_row_def map_filter_simps)
next
  case (Cons row cfg)
  obtain j e where row: "row = (j, e)" by (cases row)
  from Cons.prems row have ok: "table_ok cfg" and fresh: "j \<notin> set (tkeys cfg)"
    by (auto simp: table_ok_def)
  have gone: "last_write x j (config_ops cfg disabled) = x" for x
    using fresh config_ops_keys last_write_foreign by metis
  show ?case
    using Cons.IH [OF ok] gone row
    by (auto simp: config_ops_def config_row_def map_filter_simps split: option.splits)
qed

lemma get_reload:
  "mr_ok r \<Longrightarrow> table_ok cfg \<Longrightarrow>
   get_model_info (reload_from_config cfg disabled r) i
     = (case config_row cfg disabled i of None \<Rightarrow> get_model_info r i | Some info \<Rightarrow> Some info)"
  by (simp add: reload_run models.get_run last_write_config)

lemma mr_ok_reload: "mr_ok r \<Longrightarrow> mr_ok (reload_from_config cfg disabled r)"
  by (simp add: reload_run models.ok_run)

lemma table_ok_default_models [simp, table_ok_intros]: "table_ok default_models"
  by (simp add: table_ok_def default_models_def)

lemma mr_ok_operations:
  assumes "mr_ok r"
  shows "mr_ok (model_register i info r)" and "mr_ok (snd (model_remove i r))"
    and "mr_ok (snd (withdraw_absent_for_provider p present r))"
    and "mr_ok (snd (remove_by_provider p r))" and "mr_ok (register_if_absent i info r)"
    and "mr_ok (register_discovered i info r)"
    and "mr_ok (snd (mark_defaults_discovered_for_provider p r))"
  using assms
  by (auto simp: mr_ok_def model_register_def model_remove_def withdraw_absent_for_provider_def
    remove_by_provider_def register_if_absent_def register_discovered_def Let_def
    mark_defaults_discovered_for_provider_def split: option.splits)

section \<open>Restoring defaults\<close>

lemma tget_restore_rows:
  "table_ok ds \<Longrightarrow>
   tget (snd (restore_rows ds p ms n)) i =
     (case tget ms i of
        Some v \<Rightarrow> Some v
      | None \<Rightarrow> (case tget ds i of Some info \<Rightarrow> if mi_provider info = p then Some info else None | None \<Rightarrow> None))"
proof (induction ds arbitrary: ms n)
  case Nil
  then show ?case by (simp split: option.splits)
next
  case (Cons row ds)
  obtain j info where row: "row = (j, info)" by (cases row)
  from Cons.prems row have ok: "table_ok ds" and fresh: "tget ds j = None"
    by (auto simp: table_ok_def map_of_eq_None_iff)
  show ?case
    using Cons.IH [OF ok] fresh row by (auto simp: table_simps split: option.splits)
qed

lemma table_ok_restore_rows: "table_ok ms \<Longrightarrow> table_ok (snd (restore_rows ds p ms n))"
  by (induction ds p ms n rule: restore_rows.induct) auto

lemma parse_to_string [simp]: "parse_provider_type (provider_to_string p) = Some p"
  by (cases p) (auto simp: parse_provider_type_def starts_with_def)

lemma resolve_by_info: "resolve_provider r i = map_option mi_provider (get_model_info r i)"
  by (simp add: resolve_provider_def get_model_info_def)

text \<open>What a withdrawal leaves of an id.\<close>

lemma withdraw_get:
  assumes "mr_ok r" and "withdraw_absent_for_provider p present r = (ids, r')"
  shows "get_model_info r' i =
      (case get_model_info r i of
         None \<Rightarrow> None
       | Some info \<Rightarrow>
           if mi_provider info = p \<and> i \<notin> present
           then if mi_declared info then Some (info\<lparr>mi_discovered := False\<rparr>) else None
           else Some info)"
proof -
  have ok: "table_ok (mr_models r)" using assms(1) by (simp add: mr_ok_def)
  define hide :: "string \<Rightarrow> model_info \<Rightarrow> bool" where "hide = (\<lambda>i info. (mi_provider info = p \<and> i \<notin> present) \<and> mi_declared info \<and> mi_discovered info)"
  define lost :: "string \<Rightarrow> model_info \<Rightarrow> bool" where "lost = (\<lambda>i info. (mi_provider info = p \<and> i \<notin> present) \<and> \<not> mi_declared info)"
  have ids: "ids = sort (tkeys (tretain hide (mr_models r)) @ tkeys (tretain lost (mr_models r)))"
    and r': "r' = r\<lparr>mr_models := fold tdel (tkeys (tretain lost (mr_models r)))
      (tmap_values (\<lambda>i info. if hide i info then info\<lparr>mi_discovered := False\<rparr> else info) (mr_models r))\<rparr>"
    using assms(2) by (simp_all add: withdraw_absent_for_provider_def Let_def hide_def lost_def)
  have same: "mi_discovered info \<or> info\<lparr>mi_discovered := False\<rparr> = info" for info :: model_info
    by (cases info) simp
  show "get_model_info r' i =
      (case get_model_info r i of
         None \<Rightarrow> None
       | Some info \<Rightarrow>
           if mi_provider info = p \<and> i \<notin> present
           then if mi_declared info then Some (info\<lparr>mi_discovered := False\<rparr>) else None
           else Some info)"
    using same
    by (auto simp: r' get_model_info_def table_simps tkeys_tretain_iff [OF ok] hide_def lost_def
      split: option.splits simp del: set_map)
qed

section \<open>Properties\<close>

text \<open>The catalogue built from the compiled defaults and the configuration holds, for every id,
  the owner's row when its provider is known and enabled, else the compiled default when that one's
  provider is enabled, else nothing; so no id resolves to a disabled provider, and a row of a
  disabled provider does not hide the default it names.\<close>

theorem catalogue_exact:
  assumes "table_ok cfg"
  shows "get_model_info (with_defaults_and_config cfg disabled) i =
      (case config_row cfg disabled i of
         Some info \<Rightarrow> Some info
       | None \<Rightarrow>
           (case tget default_models i of
              Some info \<Rightarrow> if mi_provider info \<in> disabled then None else Some info
            | None \<Rightarrow> None))
    \<and> (\<forall>p. resolve_provider (with_defaults_and_config cfg disabled) i = Some p \<longrightarrow> p \<notin> disabled)"
proof -
  let ?d = "model_registry_new (tretain (\<lambda>_ info. mi_provider info \<notin> disabled) default_models)"
  have ok: "mr_ok ?d" by (simp add: mr_ok_def model_registry_new_def)
  have exact: "get_model_info (with_defaults_and_config cfg disabled) i =
    (case config_row cfg disabled i of
       Some info \<Rightarrow> Some info
     | None \<Rightarrow>
         (case tget default_models i of
            Some info \<Rightarrow> if mi_provider info \<in> disabled then None else Some info
          | None \<Rightarrow> None))"
    using get_reload [OF ok assms]
    by (simp add: with_defaults_and_config_def get_model_info_def model_registry_new_def table_simps
      split: option.splits)
  moreover have "p \<notin> disabled"
    if "resolve_provider (with_defaults_and_config cfg disabled) i = Some p" for p
    using that exact unfolding resolve_by_info
    by (auto simp: config_row_def config_info_def split: option.splits if_splits)
  ultimately show ?thesis by blast
qed

definition demo_config :: "(string, model_config_entry) table" where
  "demo_config =
     [(''llama'', \<lparr>mc_provider = ''ollama'', mc_input_price = None, mc_output_price = None,
         mc_context = Some 0, mc_supports_image = None, mc_supports_audio = None,
         mc_supports_document = None, mc_supports_reasoning = None, mc_supports_tools = None\<rparr>),
      (''o3'', \<lparr>mc_provider = ''plugin:acme'', mc_input_price = Some 1, mc_output_price = None,
         mc_context = None, mc_supports_image = None, mc_supports_audio = None,
         mc_supports_document = None, mc_supports_reasoning = None, mc_supports_tools = Some False\<rparr>)]"

lemma catalogue_exact_witness:
  "resolve_provider (with_defaults_and_config demo_config {OpenAI}) ''o3'' = Some (ProviderPlugin ''acme'')
   \<and> resolve_provider (with_defaults_and_config demo_config {OpenAI}) ''o1'' = None"
proof -
  have ok: "table_ok demo_config" by (simp add: table_ok_def demo_config_def)
  have "resolve_provider (with_defaults_and_config demo_config {OpenAI}) ''o3'' = Some (ProviderPlugin ''acme'')"
    using catalogue_exact [OF ok, of "{OpenAI}" "''o3''"] unfolding resolve_by_info
    by (simp add: config_row_def demo_config_def parse_provider_type_def starts_with_def config_info_def)
  moreover have "resolve_provider (with_defaults_and_config demo_config {OpenAI}) ''o1'' = None"
    using catalogue_exact [OF ok, of "{OpenAI}" "''o1''"] unfolding resolve_by_info
    by (simp add: config_row_def demo_config_def default_models_def reasoning_row_def)
  ultimately show ?thesis by blast
qed

text \<open>Withdrawing what a provider no longer reports: a row of that provider the report lacks is
  deleted when only discovery ever made it and un-discovered when the owner or the build declared
  it, and every other row is untouched; the ids returned are, sorted and each once, exactly the rows
  deleted and the declared rows that were discovered until now.\<close>

theorem withdraw_exact:
  assumes "mr_ok r" and "withdraw_absent_for_provider p present r = (ids, r')"
  shows "get_model_info r' i =
      (case get_model_info r i of
         None \<Rightarrow> None
       | Some info \<Rightarrow>
           if mi_provider info = p \<and> i \<notin> present
           then if mi_declared info then Some (info\<lparr>mi_discovered := False\<rparr>) else None
           else Some info)
    \<and> sorted ids \<and> distinct ids
    \<and> (i \<in> set ids \<longleftrightarrow>
      (\<exists>info. get_model_info r i = Some info \<and> mi_provider info = p \<and> i \<notin> present
        \<and> (mi_discovered info \<or> \<not> mi_declared info)))"
proof (intro conjI)
  have ok: "table_ok (mr_models r)" using assms(1) by (simp add: mr_ok_def)
  define hide :: "string \<Rightarrow> model_info \<Rightarrow> bool" where "hide = (\<lambda>i info. (mi_provider info = p \<and> i \<notin> present) \<and> mi_declared info \<and> mi_discovered info)"
  define lost :: "string \<Rightarrow> model_info \<Rightarrow> bool" where "lost = (\<lambda>i info. (mi_provider info = p \<and> i \<notin> present) \<and> \<not> mi_declared info)"
  have ids: "ids = sort (tkeys (tretain hide (mr_models r)) @ tkeys (tretain lost (mr_models r)))"
    using assms(2) by (simp add: withdraw_absent_for_provider_def Let_def hide_def lost_def)
  show "get_model_info r' i =
      (case get_model_info r i of
         None \<Rightarrow> None
       | Some info \<Rightarrow>
           if mi_provider info = p \<and> i \<notin> present
           then if mi_declared info then Some (info\<lparr>mi_discovered := False\<rparr>) else None
           else Some info)"
    by (rule withdraw_get [OF assms])
  show "sorted ids" by (simp add: ids)
  show "distinct ids"
    using distinct_tkeys_tretain [OF ok, of hide] distinct_tkeys_tretain [OF ok, of lost]
    by (auto simp: ids tkeys_tretain_iff [OF ok] hide_def lost_def simp del: set_map)
  show "i \<in> set ids \<longleftrightarrow>
      (\<exists>info. get_model_info r i = Some info \<and> mi_provider info = p \<and> i \<notin> present
        \<and> (mi_discovered info \<or> \<not> mi_declared info))"
    by (auto simp: ids tkeys_tretain_iff [OF ok] hide_def lost_def get_model_info_def simp del: set_map)
qed


definition demo_registry :: model_registry where
  "demo_registry =
     register_discovered ''qwen'' ((gpt_row 0 0)\<lparr>mi_provider := Ollama, mi_declared := False\<rparr>) with_defaults"

lemma demo_registry_ok: "mr_ok demo_registry"
proof -
  have "mr_ok with_defaults" by (simp add: with_defaults_def model_registry_new_def mr_ok_def)
  then show ?thesis unfolding demo_registry_def by (rule mr_ok_operations(6))
qed

lemma withdraw_exact_witness:
  "''qwen'' \<in> set (fst (withdraw_absent_for_provider Ollama {''mistral''} demo_registry))
   \<and> get_model_info (snd (withdraw_absent_for_provider Ollama {''mistral''} demo_registry)) ''qwen'' = None"
proof -
  let ?w = "withdraw_absent_for_provider Ollama {''mistral''} demo_registry"
  have eq: "?w = (fst ?w, snd ?w)" by simp
  have "get_model_info with_defaults ''qwen'' = None"
    by (simp add: with_defaults_def model_registry_new_def get_model_info_def default_models_def)
  then have row: "get_model_info demo_registry ''qwen''
    = Some ((gpt_row 0 0)\<lparr>mi_provider := Ollama, mi_declared := False, mi_discovered := True\<rparr>)"
    by (simp add: demo_registry_def register_discovered_def get_model_info_def model_register_def
      table_simps gpt_row_def)
  show ?thesis
    using withdraw_exact [OF demo_registry_ok eq, of "''qwen''"] row by (simp add: gpt_row_def)
qed

text \<open>Disabling a provider and enabling it again: its rows go, all of them and no other, and what
  comes back is its compiled defaults, an id another provider holds by then excepted.\<close>

theorem disable_enable_cycle:
  assumes "mr_ok r" and "remove_by_provider p r = (ids, r')"
  shows "i \<in> set ids \<longleftrightarrow> resolve_provider r i = Some p"
    and "get_model_info r' i = (if resolve_provider r i = Some p then None else get_model_info r i)"
    and "get_model_info (snd (restore_defaults_for_provider p r')) i =
      (if resolve_provider r i \<noteq> None \<and> resolve_provider r i \<noteq> Some p then get_model_info r i
       else (case tget default_models i of
               Some info \<Rightarrow> if mi_provider info = p then Some info else None
             | None \<Rightarrow> None))"
proof -
  have ok: "table_ok (mr_models r)" using assms(1) by (simp add: mr_ok_def)
  have ids: "ids = tkeys (tretain (\<lambda>_ info. mi_provider info = p) (mr_models r))"
    and r': "r' = r\<lparr>mr_models := fold tdel ids (mr_models r)\<rparr>"
    using assms(2) by (simp_all add: remove_by_provider_def Let_def, blast)
  show mem: "i \<in> set ids \<longleftrightarrow> resolve_provider r i = Some p" for i
    by (auto simp: ids tkeys_tretain_iff [OF ok] resolve_provider_def simp del: set_map)
  then show gone: "get_model_info r' i = (if resolve_provider r i = Some p then None else get_model_info r i)"
    by (simp add: r' get_model_info_def table_simps)
  then show "get_model_info (snd (restore_defaults_for_provider p r')) i =
      (if resolve_provider r i \<noteq> None \<and> resolve_provider r i \<noteq> Some p then get_model_info r i
       else (case tget default_models i of
               Some info \<Rightarrow> if mi_provider info = p then Some info else None
             | None \<Rightarrow> None))"
    using tget_restore_rows [OF table_ok_default_models, of p "mr_models r'" 0 i]
    by (auto simp: restore_defaults_for_provider_def get_model_info_def resolve_provider_def
      split: prod.splits option.splits)
qed

text \<open>Discovery never touches what the owner declared of a known model: price and abilities stay, a
  window of zero apart; and the model is discovered afterwards.\<close>

theorem discovery_keeps_declaration:
  assumes "get_model_info r i = Some old"
  shows "get_model_info (register_discovered i info r) i =
    Some (old\<lparr>mi_discovered := True,
      mi_context_window := (if mi_context_window old = 0 then mi_context_window info else mi_context_window old)\<rparr>)"
  using assms
  by (cases old) (auto simp: register_discovered_def get_model_info_def model_register_def table_simps
    Let_def word_gt_0)

text \<open>The model the ladder ends on: it belongs to the provider and no other model of it is
  preferred, so the answer does not depend on the order the map is visited in; there is none exactly
  when the provider has no model.\<close>

theorem first_model_exact:
  assumes "mr_ok r"
  shows "first_model_for_provider p r = Some i \<longleftrightarrow>
      (\<exists>info. get_model_info r i = Some info \<and> mi_provider info = p \<and>
        (\<forall>j info'. get_model_info r j = Some info' \<and> mi_provider info' = p \<longrightarrow>
           preference (i, info) \<le> preference (j, info')))"
    and "first_model_for_provider p r = None \<longleftrightarrow> (\<forall>j. resolve_provider r j \<noteq> Some p)"
proof -
  have ok: "table_ok (mr_models r)" using assms by (simp add: mr_ok_def)
  define rows where "rows = sort_key preference (filter (\<lambda>(_, info). mi_provider info = p) (mr_models r))"
  have mem: "(j, info) \<in> set rows \<longleftrightarrow> get_model_info r j = Some info \<and> mi_provider info = p" for j info
    by (auto simp: rows_def get_model_info_def in_tget_iff [OF ok])
  have first: "first_model_for_provider p r = (case rows of [] \<Rightarrow> None | row # _ \<Rightarrow> Some (fst row))"
    by (simp add: first_model_for_provider_def rows_def)
  have le: "preference (hd rows) \<le> preference row" if "row \<in> set rows" for row
  proof -
    have "sorted (map preference rows)" by (simp add: rows_def)
    with that show ?thesis by (cases rows) auto
  qed
  show "first_model_for_provider p r = None \<longleftrightarrow> (\<forall>j. resolve_provider r j \<noteq> Some p)"
  proof (cases rows)
    case Nil
    then have "\<nexists>j info. get_model_info r j = Some info \<and> mi_provider info = p"
      using mem by (metis empty_iff list.set(1))
    with Nil show ?thesis by (auto simp: first resolve_provider_def get_model_info_def)
  next
    case (Cons row rest)
    then have "get_model_info r (fst row) = Some (snd row) \<and> mi_provider (snd row) = p"
      using mem [of "fst row" "snd row"] by simp
    then have "resolve_provider r (fst row) = Some p" by (simp add: resolve_provider_def get_model_info_def)
    with Cons show ?thesis by (auto simp: first)
  qed
  show "first_model_for_provider p r = Some i \<longleftrightarrow>
      (\<exists>info. get_model_info r i = Some info \<and> mi_provider info = p \<and>
        (\<forall>j info'. get_model_info r j = Some info' \<and> mi_provider info' = p \<longrightarrow>
           preference (i, info) \<le> preference (j, info')))" (is "_ \<longleftrightarrow> ?best")
  proof
    assume "first_model_for_provider p r = Some i"
    then obtain info rest where rows: "rows = (i, info) # rest" by (cases rows) (auto simp: first)
    then show ?best using le mem by (intro exI [of _ info]) (metis list.sel(1) list.set_intros(1))
  next
    assume ?best
    then obtain info where row: "(i, info) \<in> set rows"
      and least: "\<And>j info'. (j, info') \<in> set rows \<Longrightarrow> preference (i, info) \<le> preference (j, info')"
      using mem by metis
    obtain j info' rest where rows: "rows = (j, info') # rest" using row by (cases rows) auto
    have "preference (i, info) = preference (j, info')"
      using le [OF row] least [of j info'] rows by simp
    then show "first_model_for_provider p r = Some i" by (simp add: first rows preference_def)
  qed
qed

end
