(* ===== verification/Json.thy ===== *)
theory Json
  imports Prelude
begin

text \<open>
  JSON values as \<open>serde_json\<close> holds them, and the canonical form the approval cache hashes
  (\<open>canonicalize_json\<close> in \<open>crates/openalpaca_core/src/security/confirmation.rs\<close>). An object is
  the list of its members in iteration order. A number is kept as its text; a component that
  computes with numbers reads them through an argument of its own.
\<close>

datatype json =
    JNull
  | JBool bool
  | JNumber string
  | JString string
  | JArray "json list"
  | JObject "(string \<times> json) list"

text \<open>Every string value of a JSON value, at any depth; member names are not values.\<close>

fun json_strings :: "json \<Rightarrow> string list" where
  "json_strings (JString s) = [s]"
| "json_strings (JArray vs) = concat (map json_strings vs)"
| "json_strings (JObject ms) = concat (map (\<lambda>m. json_strings (snd m)) ms)"
| "json_strings _ = []"

text \<open>
  Collecting members into a \<open>BTreeMap\<close>: kept in the order of the keys, and a later member with
  the same key replaces an earlier one.
\<close>

fun member_insert :: "string \<Rightarrow> 'v \<Rightarrow> (string \<times> 'v) list \<Rightarrow> (string \<times> 'v) list" where
  "member_insert k v [] = [(k, v)]"
| "member_insert k v ((k', v') # ms) =
     (if k = k' then (k, v) # ms
      else if k < k' then (k, v) # (k', v') # ms
      else (k', v') # member_insert k v ms)"

definition btree_of :: "(string \<times> 'v) list \<Rightarrow> (string \<times> 'v) list" where
  "btree_of ms = fold (\<lambda>m acc. member_insert (fst m) (snd m) acc) ms []"

fun canonicalize_json :: "json \<Rightarrow> json" where
  "canonicalize_json (JObject ms) =
     JObject (btree_of (map (\<lambda>m. (fst m, canonicalize_json (snd m))) ms))"
| "canonicalize_json (JArray vs) = JArray (map canonicalize_json vs)"
| "canonicalize_json other = other"

section \<open>Sorted members\<close>

definition members_sorted :: "(string \<times> 'v) list \<Rightarrow> bool" where
  "members_sorted ms = sorted_wrt (<) (map fst ms)"

lemma map_of_member_insert:
  "map_of (member_insert k v ms) k' = (if k' = k then Some v else map_of ms k')"
  by (induction ms) auto

lemma keys_member_insert: "fst ` set (member_insert k v ms) = insert k (fst ` set ms)"
  by (auto simp: dom_def map_of_member_insert split: if_splits simp flip: dom_map_of_conv_image_fst)

lemma sorted_member_insert: "members_sorted ms \<Longrightarrow> members_sorted (member_insert k v ms)"
proof (induction ms)
  case Nil
  then show ?case by (simp add: members_sorted_def)
next
  case (Cons m ms)
  obtain k' v' where m: "m = (k', v')" by (cases m)
  from Cons.prems have lt: "\<forall>x\<in>fst ` set ms. k' < x" and s: "members_sorted ms"
    by (auto simp: members_sorted_def m)
  have ins: "members_sorted (member_insert k v ms)" using Cons.IH s .
  show ?case
  proof (cases "k = k' \<or> k < k'")
    case True
    with lt s show ?thesis by (auto simp: m members_sorted_def dest: less_trans)
  next
    case False
    then have "k' < k" by auto
    with lt have "\<forall>x\<in>fst ` set (member_insert k v ms). k' < x" by (simp add: keys_member_insert)
    with False ins show ?thesis by (auto simp: m members_sorted_def)
  qed
qed

lemma fold_insert:
  "members_sorted acc \<Longrightarrow>
     members_sorted (fold (\<lambda>m acc. member_insert (fst m) (snd m) acc) ms acc)
   \<and> map_of (fold (\<lambda>m acc. member_insert (fst m) (snd m) acc) ms acc) = map_of acc ++ map_of (rev ms)"
proof (induction ms arbitrary: acc)
  case Nil
  then show ?case by simp
next
  case (Cons m ms)
  have "map_of (member_insert (fst m) (snd m) acc) = (map_of acc)(fst m \<mapsto> snd m)"
    by (auto simp: map_of_member_insert fun_eq_iff)
  with Cons.IH [OF sorted_member_insert [OF Cons.prems]] show ?case
    by (simp add: map_add_def fun_eq_iff map_of_append split: option.splits)
qed

lemma sorted_btree_of: "members_sorted (btree_of ms)"
  using fold_insert [of "[]" ms] by (simp add: btree_of_def members_sorted_def)

lemma map_of_btree_of: "map_of (btree_of ms) = map_of (rev ms)"
  using fold_insert [of "[]" ms] by (simp add: btree_of_def members_sorted_def)

text \<open>A sorted member list is determined by the map it stands for.\<close>

lemma members_sorted_unique:
  "members_sorted xs \<Longrightarrow> members_sorted ys \<Longrightarrow> map_of xs = map_of ys \<Longrightarrow> xs = ys"
proof -
  assume s: "members_sorted xs" "members_sorted ys" and eq: "map_of xs = map_of ys"
  have d: "distinct (map fst zs)" if "members_sorted zs" for zs :: "(string \<times> 'a) list"
    using that by (simp add: members_sorted_def strict_sorted_iff)
  have "fst ` set xs = fst ` set ys" using eq by (metis dom_map_of_conv_image_fst)
  then have keys: "map fst xs = map fst ys"
    using s d strict_sorted_equal [of "map fst xs" "map fst ys"] by (simp add: members_sorted_def)
  have pair: "zs = map (\<lambda>k. (k, the (map_of zs k))) (map fst zs)" if "distinct (map fst zs)"
    for zs :: "(string \<times> 'a) list"
  proof (rule nth_equalityI)
    fix i assume i: "i < length zs"
    then have "tget zs (fst (zs ! i)) = Some (snd (zs ! i))"
      using that by (intro in_tget) (auto simp: table_ok_def)
    with i show "zs ! i = map (\<lambda>k. (k, the (map_of zs k))) (map fst zs) ! i" by simp
  qed simp
  show "xs = ys" using pair [OF d [OF s(1)]] pair [OF d [OF s(2)]] keys eq by metis
qed

lemma map_of_rev_distinct: "distinct (map fst ms) \<Longrightarrow> map_of (rev ms) = map_of ms"
  by (metis distinct_rev map_of_eqI map_of_inject_set rev_map set_rev map_of_inject_set)

text \<open>Members with distinct names and the same map have the same canonical order.\<close>

lemma btree_of_cong:
  "distinct (map fst xs) \<Longrightarrow> distinct (map fst ys) \<Longrightarrow> set xs = set ys \<Longrightarrow> btree_of xs = btree_of ys"
proof (rule members_sorted_unique)
  assume d: "distinct (map fst xs)" "distinct (map fst ys)" and eq: "set xs = set ys"
  have "map_of xs = map_of ys" using d eq by (metis map_of_inject_set)
  then show "map_of (btree_of xs) = map_of (btree_of ys)"
    using d by (simp add: map_of_btree_of map_of_rev_distinct)
qed (rule sorted_btree_of)+

end
