(* ===== verification/Tool_Arguments.thy ===== *)
theory Tool_Arguments
  imports Json
begin

text \<open>
  How the arguments of a tool call are read from what a provider sent
  (\<open>crates/openalpaca_llm/src/tool_arguments.rs\<close>) and checked before the tool's backend runs
  (\<open>check_arguments\<close> and what it calls in
  \<open>crates/openalpaca_core/src/tools/registry/mod.rs\<close>). Arguments that cannot be read travel as a
  stand-in object, which the check recognises and refuses.

  \<open>parse\<close> is \<open>serde_json::from_str\<close>, with the parser's message on failure; \<open>render\<close> is the
  compact text \<open>Display\<close> writes of a JSON value. Both are arguments of the model. A number is its
  text, so two numbers are equal when their texts are.
\<close>

section \<open>Numbers\<close>

definition is_digit :: "char \<Rightarrow> bool" where
  "is_digit c = (48 \<le> byte_of c \<and> byte_of c \<le> 57)"

definition read_nat :: "string \<Rightarrow> nat" where
  "read_nat s = foldl (\<lambda>n c. 10 * n + (byte_of c - 48)) 0 s"

definition is_nat_text :: "string \<Rightarrow> bool" where
  "is_nat_text s = (s \<noteq> [] \<and> list_all is_digit s)"

text \<open>\<open>Value::as_u64\<close> and \<open>is_i64\<close>; a literal with a fraction or an exponent is a float.\<close>

fun as_u64 :: "json \<Rightarrow> nat option" where
  "as_u64 (JNumber s) = (if is_nat_text s \<and> read_nat s < 2 ^ 64 then Some (read_nat s) else None)"
| "as_u64 _ = None"

fun is_i64 :: "json \<Rightarrow> bool" where
  "is_i64 (JNumber s) =
     (if is_nat_text s then read_nat s < 2 ^ 63
      else case s of
        [] \<Rightarrow> False
      | c # cs \<Rightarrow> c = CHR ''-'' \<and> is_nat_text cs \<and> 0 < read_nat cs \<and> read_nat cs \<le> 2 ^ 63)"
| "is_i64 _ = False"

lemma byte_of_digit: "n < 10 \<Longrightarrow> byte_of (char_of (48 + n)) = 48 + n"
  by (simp add: byte_of_def)

lemma read_nat_snoc: "read_nat (s @ [c]) = 10 * read_nat s + (byte_of c - 48)"
  by (simp add: read_nat_def)

lemma read_show_nat: "is_nat_text (show_nat n) \<and> read_nat (show_nat n) = n"
proof (induction n rule: show_nat.induct)
  case (1 n)
  show ?case
  proof (cases "n < 10")
    case True
    then show ?thesis
      by (subst (1 2) show_nat.simps) (simp add: is_nat_text_def is_digit_def read_nat_def byte_of_digit)
  next
    case False
    from 1 [OF False] False show ?thesis
      by (subst (1 2) show_nat.simps)
        (simp add: is_nat_text_def is_digit_def read_nat_snoc byte_of_digit)
  qed
qed

lemma as_u64_show [simp]: "n < 2 ^ 64 \<Longrightarrow> as_u64 (JNumber (show_nat n)) = Some n"
  using read_show_nat [of n] by simp

section \<open>Unreadable arguments\<close>

record unreadable =
  un_bytes :: nat
  un_problem :: string

definition UNREADABLE_KEY :: string where
  "UNREADABLE_KEY = ''__openalpaca_unreadable_arguments''"

definition to_arguments :: "unreadable \<Rightarrow> json" where
  "to_arguments u =
     JObject [(UNREADABLE_KEY,
       JObject [(''bytes'', JNumber (show_nat (un_bytes u))), (''problem'', JString (un_problem u))])]"

fun json_get :: "json \<Rightarrow> string \<Rightarrow> json option" where
  "json_get (JObject ms) k = map_of ms k"
| "json_get _ k = None"

fun as_str :: "json \<Rightarrow> string option" where
  "as_str (JString s) = Some s"
| "as_str _ = None"

fun as_array :: "json \<Rightarrow> json list option" where
  "as_array (JArray vs) = Some vs"
| "as_array _ = None"

fun as_object :: "json \<Rightarrow> (string \<times> json) list option" where
  "as_object (JObject ms) = Some ms"
| "as_object _ = None"

definition unreadable_of :: "json \<Rightarrow> unreadable option" where
  "unreadable_of a =
     (case as_object a of
        None \<Rightarrow> None
      | Some ms \<Rightarrow>
          if length ms \<noteq> 1 then None
          else (case map_of ms UNREADABLE_KEY of
              None \<Rightarrow> None
            | Some body \<Rightarrow>
                (case Option.bind (json_get body ''bytes'') as_u64 of
                   None \<Rightarrow> None
                 | Some n \<Rightarrow> map_option (\<lambda>p. \<lparr>un_bytes = n, un_problem = p\<rparr>)
                     (Option.bind (json_get body ''problem'') as_str))))"

section \<open>Reading\<close>

text \<open>
  The parser's message without backticks and control characters (U+0000 to U+001F, U+007F and
  U+0080 to U+009F, the last as two bytes of UTF-8).
\<close>

fun plain :: "string \<Rightarrow> string" where
  "plain [] = []"
| "plain (c # cs) =
     (if c = CHR 0x60 then CHR 0x27 # plain cs
      else if byte_of c < 32 \<or> byte_of c = 127 then CHR '' '' # plain cs
      else case cs of
          d # ds \<Rightarrow>
            if byte_of c = 194 \<and> 128 \<le> byte_of d \<and> byte_of d \<le> 159 then CHR '' '' # plain ds
            else c # plain cs
        | [] \<Rightarrow> [c])"

type_synonym json_parser = "string \<Rightarrow> (string, json) res"

fun as_arguments :: "json_parser \<Rightarrow> json \<Rightarrow> (string, json) res" where
  "as_arguments parse JNull = Ok (JObject [])"
| "as_arguments parse (JObject ms) = Ok (JObject ms)"
| "as_arguments parse (JString t) =
     (case parse t of
        Inr (JObject ms) \<Rightarrow> Ok (JObject ms)
      | _ \<Rightarrow> Err ''a JSON string that does not hold a JSON object'')"
| "as_arguments parse (JArray vs) = Err ''a JSON array, not an object''"
| "as_arguments parse (JNumber n) = Err ''a JSON number, not an object''"
| "as_arguments parse (JBool b) = Err ''a JSON boolean, not an object''"

definition settle :: "nat \<Rightarrow> (string, json) res \<Rightarrow> json" where
  "settle bytes r =
     (case r of Inr a \<Rightarrow> a | Inl problem \<Rightarrow> to_arguments \<lparr>un_bytes = bytes, un_problem = problem\<rparr>)"

text \<open>The byte-order mark U+FEFF.\<close>

definition BOM :: string where
  "BOM = [CHR 0xEF, CHR 0xBB, CHR 0xBF]"

definition strip_bom :: "string \<Rightarrow> string" where
  "strip_bom t = (if starts_with t BOM then drop 3 t else t)"

definition read_tool_arguments :: "json_parser \<Rightarrow> string \<Rightarrow> json" where
  "read_tool_arguments parse text =
     (let t = strip_bom text in
      if is_blank t then JObject []
      else settle (length t)
        (case parse t of
           Inr v \<Rightarrow> as_arguments parse v
         | Inl e \<Rightarrow> Err (''not valid JSON ('' @ plain e @ '')'')))"

fun read_tool_arguments_field :: "json_parser \<Rightarrow> (json \<Rightarrow> string) \<Rightarrow> json \<Rightarrow> json" where
  "read_tool_arguments_field parse render (JString t) = read_tool_arguments parse t"
| "read_tool_arguments_field parse render other = settle (length (render other)) (as_arguments parse other)"

section \<open>Checking\<close>

record tool_definition =
  td_name :: string
  td_description :: string
  td_parameters :: json
  td_strict :: "bool option"
  td_input_examples :: "json list option"

fun json_type_name :: "json \<Rightarrow> string" where
  "json_type_name JNull = ''null''"
| "json_type_name (JBool b) = ''boolean''"
| "json_type_name (JNumber s) =
     (if is_i64 (JNumber s) \<or> as_u64 (JNumber s) \<noteq> None then ''integer'' else ''number'')"
| "json_type_name (JString s) = ''string''"
| "json_type_name (JArray vs) = ''array''"
| "json_type_name (JObject ms) = ''object''"

definition json_value_matches_type :: "json \<Rightarrow> string \<Rightarrow> bool" where
  "json_value_matches_type v expected =
     (if expected = ''string'' then as_str v \<noteq> None
      else if expected = ''number'' then (case v of JNumber _ \<Rightarrow> True | _ \<Rightarrow> False)
      else if expected = ''integer'' then is_i64 v \<or> as_u64 v \<noteq> None
      else if expected = ''boolean'' then (case v of JBool _ \<Rightarrow> True | _ \<Rightarrow> False)
      else if expected = ''array'' then as_array v \<noteq> None
      else if expected = ''object'' then as_object v \<noteq> None
      else if expected = ''null'' then v = JNull
      else False)"

definition quoted :: "string \<Rightarrow> string" where
  "quoted s = CHR 0x27 # s @ [CHR 0x27]"

definition missing_problems :: "json \<Rightarrow> (string \<times> json) list \<Rightarrow> string list" where
  "missing_problems schema obj =
     (case Option.bind (json_get schema ''required'') as_array of
        None \<Rightarrow> []
      | Some required \<Rightarrow>
          map (\<lambda>f. ''missing required parameter '' @ quoted f)
            (filter (\<lambda>f. map_of obj f = None) (List.map_filter as_str required)))"

definition wrong_type :: "json \<Rightarrow> json \<Rightarrow> string option" where
  "wrong_type prop v =
     (case Option.bind (json_get prop ''type'') as_str of
        Some expected \<Rightarrow> if json_value_matches_type v expected then None else Some expected
      | None \<Rightarrow> None)"

definition outside_enum :: "json \<Rightarrow> json \<Rightarrow> bool" where
  "outside_enum prop v =
     (case Option.bind (json_get prop ''enum'') as_array of
        Some vs \<Rightarrow> v \<notin> set vs
      | None \<Rightarrow> False)"

definition value_problem :: "(json \<Rightarrow> string) \<Rightarrow> json \<Rightarrow> string \<Rightarrow> json \<Rightarrow> string option" where
  "value_problem render prop k v =
     (case wrong_type prop v of
        Some expected \<Rightarrow>
          Some (''parameter '' @ quoted k @ '' should be '' @ expected @ '', got '' @ json_type_name v)
      | None \<Rightarrow>
          if outside_enum prop v
          then Some (''parameter '' @ quoted k @ '' value '' @ render v @ '' not in allowed values'')
          else None)"

definition value_problems :: "(json \<Rightarrow> string) \<Rightarrow> json \<Rightarrow> (string \<times> json) list \<Rightarrow> string list" where
  "value_problems render schema obj =
     (case Option.bind (json_get schema ''properties'') as_object of
        None \<Rightarrow> []
      | Some props \<Rightarrow>
          List.map_filter (\<lambda>(k, v). case map_of props k of
              None \<Rightarrow> None
            | Some prop \<Rightarrow> value_problem render prop k v) obj)"

definition argument_problems :: "(json \<Rightarrow> string) \<Rightarrow> json \<Rightarrow> json \<Rightarrow> string list" where
  "argument_problems render schema a =
     (if Option.bind (json_get schema ''type'') as_str = Some ''object'' \<and> as_object a = None
      then [''arguments must be a JSON object, got '' @ json_type_name a]
      else case as_object a of
          None \<Rightarrow> []
        | Some obj \<Rightarrow> missing_problems schema obj @ value_problems render schema obj)"

definition validate_tool_arguments ::
  "(json \<Rightarrow> string) \<Rightarrow> tool_definition \<Rightarrow> json \<Rightarrow> (string, unit) res" where
  "validate_tool_arguments render d a =
     (case argument_problems render (td_parameters d) a of
        [] \<Rightarrow> Ok ()
      | [one] \<Rightarrow> Err (''Tool '' @ quoted (td_name d) @ '': '' @ one)
      | several \<Rightarrow>
          Err (''Tool '' @ quoted (td_name d) @ '': the arguments have '' @ show_nat (length several)
            @ '' problems: '' @ join ''; '' several))"

definition unreadable_refusal :: "tool_definition \<Rightarrow> unreadable \<Rightarrow> string" where
  "unreadable_refusal d u =
     ''Tool '' @ quoted (td_name d) @ '': the arguments sent with this call could not be read: ''
     @ show_nat (un_bytes u) @ '' bytes that were '' @ un_problem u
     @ ''. The tool did not run. Call it again with its arguments as one JSON object.''"

definition check_arguments ::
  "(json \<Rightarrow> string) \<Rightarrow> tool_definition \<Rightarrow> json \<Rightarrow> (string, unit) res" where
  "check_arguments render d a =
     (case unreadable_of a of
        Some u \<Rightarrow> Err (unreadable_refusal d u)
      | None \<Rightarrow> validate_tool_arguments render d a)"

section \<open>What the check promises\<close>

text \<open>The part of JSON Schema the check covers, as a predicate on the schema and the arguments.\<close>

definition conforms :: "json \<Rightarrow> json \<Rightarrow> bool" where
  "conforms schema a \<longleftrightarrow>
     (json_get schema ''type'' = Some (JString ''object'') \<longrightarrow> (\<exists>ms. a = JObject ms)) \<and>
     (\<forall>ms. a = JObject ms \<longrightarrow>
        (\<forall>required f. json_get schema ''required'' = Some (JArray required) \<longrightarrow> JString f \<in> set required \<longrightarrow>
           map_of ms f \<noteq> None) \<and>
        (\<forall>props k v prop. json_get schema ''properties'' = Some (JObject props) \<longrightarrow> (k, v) \<in> set ms \<longrightarrow>
           map_of props k = Some prop \<longrightarrow>
           (\<forall>t. json_get prop ''type'' = Some (JString t) \<longrightarrow> json_value_matches_type v t) \<and>
           (\<forall>vs. json_get prop ''enum'' = Some (JArray vs) \<longrightarrow> v \<in> set vs)))"

lemma as_str_iff: "as_str v = Some s \<longleftrightarrow> v = JString s"
  by (cases v) auto

lemma as_array_iff: "as_array v = Some s \<longleftrightarrow> v = JArray s"
  by (cases v) auto

lemma as_object_iff: "as_object v = Some s \<longleftrightarrow> v = JObject s"
  by (cases v) auto

lemmas json_views = as_str_iff as_array_iff as_object_iff bind_eq_Some_conv

lemma map_filter_Nil_iff: "List.map_filter f xs = [] \<longleftrightarrow> (\<forall>x\<in>set xs. f x = None)"
  by (induction xs) (auto simp: map_filter_simps split: option.splits)

lemma in_map_filter: "y \<in> set (List.map_filter f xs) \<longleftrightarrow> (\<exists>x\<in>set xs. f x = Some y)"
  by (induction xs) (auto simp: map_filter_simps split: option.splits)

lemma missing_problems_Nil:
  "missing_problems schema ms = [] \<longleftrightarrow>
     (\<forall>required f. json_get schema ''required'' = Some (JArray required) \<longrightarrow> JString f \<in> set required \<longrightarrow>
        map_of ms f \<noteq> None)"
proof (cases "Option.bind (json_get schema ''required'') as_array")
  case None
  then have "json_get schema ''required'' \<noteq> Some (JArray required)" for required by auto
  with None show ?thesis by (simp add: missing_problems_def)
next
  case (Some required)
  then have "json_get schema ''required'' = Some (JArray required)" by (simp add: json_views)
  with Some show ?thesis
    by (auto simp: missing_problems_def filter_empty_conv in_map_filter as_str_iff)
qed

lemma value_problem_None:
  "value_problem render prop k v = None \<longleftrightarrow>
     (\<forall>t. json_get prop ''type'' = Some (JString t) \<longrightarrow> json_value_matches_type v t) \<and>
     (\<forall>vs. json_get prop ''enum'' = Some (JArray vs) \<longrightarrow> v \<in> set vs)"
proof -
  have "wrong_type prop v = None \<longleftrightarrow> (\<forall>t. json_get prop ''type'' = Some (JString t) \<longrightarrow> json_value_matches_type v t)"
    by (cases "Option.bind (json_get prop ''type'') as_str") (auto simp: wrong_type_def json_views)
  moreover have "\<not> outside_enum prop v \<longleftrightarrow> (\<forall>vs. json_get prop ''enum'' = Some (JArray vs) \<longrightarrow> v \<in> set vs)"
    by (cases "Option.bind (json_get prop ''enum'') as_array") (auto simp: outside_enum_def json_views)
  ultimately show ?thesis
    by (cases "wrong_type prop v") (auto simp: value_problem_def)
qed

lemma value_problems_Nil:
  "value_problems render schema ms = [] \<longleftrightarrow>
     (\<forall>props k v prop. json_get schema ''properties'' = Some (JObject props) \<longrightarrow> (k, v) \<in> set ms \<longrightarrow>
        map_of props k = Some prop \<longrightarrow> value_problem render prop k v = None)"
proof (cases "Option.bind (json_get schema ''properties'') as_object")
  case None
  then have "json_get schema ''properties'' \<noteq> Some (JObject props)" for props by auto
  with None show ?thesis by (simp add: value_problems_def)
next
  case (Some props)
  then have "json_get schema ''properties'' = Some (JObject props)" by (simp add: json_views)
  with Some show ?thesis
    by (fastforce simp: value_problems_def map_filter_Nil_iff split: option.splits)
qed

lemma argument_problems_Nil: "argument_problems render schema a = [] \<longleftrightarrow> conforms schema a"
proof (cases a)
  case (JObject ms)
  then show ?thesis
    by (simp add: argument_problems_def conforms_def missing_problems_Nil value_problems_Nil value_problem_None)
qed (auto simp: argument_problems_def conforms_def json_views)

lemma unreadable_round: "un_bytes u < 2 ^ 64 \<Longrightarrow> unreadable_of (to_arguments u) = Some u"
  using read_show_nat [of "un_bytes u"] by (cases u) (simp add: unreadable_of_def to_arguments_def)

lemma validate_ok: "validate_tool_arguments render d a = Ok () \<longleftrightarrow> conforms (td_parameters d) a"
  unfolding argument_problems_Nil [of render, symmetric]
  by (auto simp: validate_tool_arguments_def split: list.splits)

text \<open>The object a text of arguments denotes: the one it spells, or the one inside the string it spells.\<close>

definition denotes :: "json_parser \<Rightarrow> string \<Rightarrow> (string \<times> json) list \<Rightarrow> bool" where
  "denotes parse t ms \<longleftrightarrow>
     (is_blank t \<or> parse t = Ok JNull) \<and> ms = []
     \<or> parse t = Ok (JObject ms)
     \<or> (\<exists>inner. parse t = Ok (JString inner) \<and> parse inner = Ok (JObject ms))"

lemma as_arguments_ok:
  "as_arguments parse v = Ok a \<longleftrightarrow>
     (v = JNull \<and> a = JObject []) \<or> (\<exists>ms. v = JObject ms \<and> a = v)
     \<or> (\<exists>t ms. v = JString t \<and> parse t = Ok (JObject ms) \<and> a = JObject ms)"
  by (cases v) (auto split: sum.splits json.splits)

text \<open>A call's backend gets its arguments exactly when they are not the stand-in for unreadable
  ones and they conform to the tool's schema: an object where one is asked for, every required
  member there, every declared member of its declared type and in its list of values.\<close>

theorem check_arguments_exact:
  "check_arguments render d a = Ok () \<longleftrightarrow> unreadable_of a = None \<and> conforms (td_parameters d) a"
  by (simp add: check_arguments_def validate_ok split: option.splits)

text \<open>C15: Garbled arguments never run as empty ones: what is read of a text shorter than 2^64 bytes is
  the object the text denotes, or else every tool refuses the call, naming the length and the
  problem.\<close>

theorem garbled_arguments_refused:
  assumes "length text < 2 ^ 64"
  shows "(\<exists>ms. read_tool_arguments parse text = JObject ms \<and> denotes parse (strip_bom text) ms)
    \<or> (\<exists>u. un_bytes u = length (strip_bom text)
          \<and> (\<forall>render d. check_arguments render d (read_tool_arguments parse text) = Err (unreadable_refusal d u)))"
proof -
  let ?t = "strip_bom text"
  have "length ?t \<le> length text" by (simp add: strip_bom_def)
  then have len: "length ?t < 2 ^ 64" using assms by (rule le_less_trans)
  have refused: "\<forall>render d. check_arguments render d (to_arguments \<lparr>un_bytes = length ?t, un_problem = p\<rparr>)
      = Err (unreadable_refusal d \<lparr>un_bytes = length ?t, un_problem = p\<rparr>)" for p
    using len by (simp add: check_arguments_def unreadable_round)
  show ?thesis
  proof (cases "is_blank ?t")
    case True
    then show ?thesis by (auto simp: read_tool_arguments_def denotes_def Let_def)
  next
    case False
    define r where "r = (case parse ?t of Inr v \<Rightarrow> as_arguments parse v
      | Inl e \<Rightarrow> Err (''not valid JSON ('' @ plain e @ '')''))"
    have read: "read_tool_arguments parse text = settle (length ?t) r"
      using False by (simp add: read_tool_arguments_def r_def Let_def)
    show ?thesis
    proof (cases r)
      case (Inl p)
      then show ?thesis
        using refused [of p] read
        by (intro disjI2 exI [of _ "\<lparr>un_bytes = length ?t, un_problem = p\<rparr>"]) (simp add: settle_def)
    next
      case (Inr a)
      then show ?thesis
        using read by (auto simp: settle_def r_def denotes_def as_arguments_ok split: sum.splits)
    qed
  qed
qed


lemma garbled_arguments_refused_witness:
  "\<exists>u. un_bytes u = 1
     \<and> check_arguments (\<lambda>_. [])
         \<lparr>td_name = ''ls'', td_description = [], td_parameters = JObject [], td_strict = None, td_input_examples = None\<rparr>
         (read_tool_arguments (\<lambda>_. Err ''EOF'') ''{'')
       = Err (unreadable_refusal \<lparr>td_name = ''ls'', td_description = [], td_parameters = JObject [],
           td_strict = None, td_input_examples = None\<rparr> u)"
proof -
  have t: "strip_bom ''{'' = ''{''" by (simp add: strip_bom_def starts_with_def BOM_def)
  have "\<not> is_blank ''{''" by (simp add: is_blank_def byte_of_def)
  then have "\<not> denotes (\<lambda>_. Err ''EOF'') ''{'' ms" for ms by (simp add: denotes_def)
  then show ?thesis
    using garbled_arguments_refused [of "''{''" "\<lambda>_. Err ''EOF''"] unfolding t by auto
qed

end
