(* ===== verification/Llm_Types.thy ===== *)
theory Llm_Types
  imports Tool_Arguments
begin

text \<open>
  The messages, requests and answers of the LLM crate (\<open>crates/openalpaca_llm/src/types.rs\<close>,
  \<open>context_management.rs\<close>) and its errors (\<open>error.rs\<close>): which are transient, which are refusals
  of a key, and when an answer is no answer. An \<open>f32\<close> is a rational, a token count a 32-bit word.
\<close>

section \<open>Messages\<close>

datatype role = RSystem | RUser | RAssistant | RTool

datatype image_source =
    Base64 string string  \<comment> \<open>media type, data\<close>
  | Url string
  | FileAsset string string  \<comment> \<open>file id, media type\<close>

datatype content_part =
    PText string
  | PImage image_source "string option"
  | PAudio string string  \<comment> \<open>data, format\<close>
  | PDocument string string string "string option"  \<comment> \<open>file id, file name, MIME type, text\<close>
  | PFileRef string string string

record tool_call =
  tc_id :: string
  tc_name :: string
  tc_arguments :: json

record chat_message =
  cm_role :: role
  cm_content :: string
  cm_parts :: "content_part list option"
  cm_tool_calls :: "tool_call list option"
  cm_tool_call_id :: "string option"
  cm_is_error :: bool

datatype finish_reason = FinStop | FinToolUse | FinMaxTokens | FinError

record usage =
  ug_input_tokens :: "32 word"
  ug_output_tokens :: "32 word"
  ug_cache_creation :: "32 word"
  ug_cache_read :: "32 word"

definition usage_default :: usage where
  "usage_default = \<lparr>ug_input_tokens = 0, ug_output_tokens = 0, ug_cache_creation = 0, ug_cache_read = 0\<rparr>"

record chat_response =
  rs_content :: string
  rs_tool_calls :: "tool_call list"
  rs_model :: string
  rs_usage :: usage
  rs_finish_reason :: finish_reason
  rs_thinking :: "string option"
  rs_parts :: "content_part list option"

definition msg_of :: "role \<Rightarrow> string \<Rightarrow> chat_message" where
  "msg_of r content =
     \<lparr>cm_role = r, cm_content = content, cm_parts = None, cm_tool_calls = None, cm_tool_call_id = None,
      cm_is_error = False\<rparr>"

definition msg_system :: "string \<Rightarrow> chat_message" where
  "msg_system = msg_of RSystem"

definition msg_user :: "string \<Rightarrow> chat_message" where
  "msg_user = msg_of RUser"

definition msg_assistant :: "string \<Rightarrow> chat_message" where
  "msg_assistant = msg_of RAssistant"

fun text_part :: "content_part \<Rightarrow> string option" where
  "text_part (PText t) = Some t"
| "text_part _ = None"

definition user_with_parts :: "content_part list \<Rightarrow> chat_message" where
  "user_with_parts ps =
     (msg_of RUser (join [CHR 0x0A] (List.map_filter text_part ps)))\<lparr>cm_parts := Some ps\<rparr>"

definition assistant_with_tools :: "chat_response \<Rightarrow> chat_message" where
  "assistant_with_tools r =
     (msg_of RAssistant (rs_content r))
       \<lparr>cm_parts := rs_parts r,
        cm_tool_calls := (if rs_tool_calls r = [] then None else Some (rs_tool_calls r))\<rparr>"

definition tool_result :: "string \<Rightarrow> string \<Rightarrow> chat_message" where
  "tool_result cid content = (msg_of RTool content)\<lparr>cm_tool_call_id := Some cid\<rparr>"

definition tool_error :: "string \<Rightarrow> string \<Rightarrow> chat_message" where
  "tool_error cid content = (tool_result cid content)\<lparr>cm_is_error := True\<rparr>"

definition tool_result_with_parts :: "string \<Rightarrow> string \<Rightarrow> content_part list \<Rightarrow> chat_message" where
  "tool_result_with_parts cid content ps = (tool_result cid content)\<lparr>cm_parts := Some ps\<rparr>"

definition effective_parts :: "chat_message \<Rightarrow> content_part list" where
  "effective_parts m =
     (case cm_parts m of
        Some ps \<Rightarrow> if ps \<noteq> [] then ps else [PText (cm_content m)]
      | None \<Rightarrow> [PText (cm_content m)])"

section \<open>Requests\<close>

datatype tool_choice = ChoiceAuto | ChoiceAny | ChoiceTool string

datatype thinking_config = ThinkEnabled "32 word" | ThinkAdaptive | ThinkDisabled

definition thinking_enabled :: "32 word \<Rightarrow> thinking_config" where
  "thinking_enabled budget = ThinkEnabled (max budget 1024)"

datatype context_edit =
    ClearToolUses nat nat  \<comment> \<open>trigger tokens, tool uses kept\<close>
  | ClearThinking nat

record context_management =
  ctx_edits :: "context_edit list"

definition cm_from_budget :: "nat \<Rightarrow> nat \<Rightarrow> nat \<Rightarrow> context_management" where
  "cm_from_budget trigger keep_uses keep_turns =
     \<lparr>ctx_edits = [ClearThinking keep_turns, ClearToolUses trigger keep_uses]\<rparr>"

fun context_edit_to_json :: "context_edit \<Rightarrow> json" where
  "context_edit_to_json (ClearToolUses trigger keep) =
     JObject
       [(''type'', JString ''clear_tool_uses_20250919''),
        (''trigger'', JObject [(''type'', JString ''input_tokens''), (''value'', JNumber (show_nat trigger))]),
        (''keep'', JObject [(''type'', JString ''tool_uses''), (''value'', JNumber (show_nat keep))])]"
| "context_edit_to_json (ClearThinking keep) =
     JObject
       [(''type'', JString ''clear_thinking_20251015''),
        (''keep'', JObject [(''type'', JString ''thinking_turns''), (''value'', JNumber (show_nat keep))])]"

definition context_management_to_json :: "context_management \<Rightarrow> json" where
  "context_management_to_json c = JObject [(''edits'', JArray (map context_edit_to_json (ctx_edits c)))]"

record chat_request =
  cr_messages :: "chat_message list"
  cr_tools :: "tool_definition list"
  cr_model :: "string option"
  cr_temperature :: "rat option"
  cr_max_tokens :: "32 word option"
  cr_tool_choice :: "tool_choice option"
  cr_enable_caching :: bool
  cr_thinking :: "thinking_config option"
  cr_context_management :: "context_management option"
  cr_ephemeral_system_notice :: "string option"

section \<open>Errors\<close>

datatype llm_error =
    EHttp string
  | EApi nat string
  | ESerialization string
  | ERateLimited nat
  | EOverloaded nat "nat option"
  | ENotConfigured
  | EConfig string
  | EUnknownProvider string
  | ECredentialDiscovery string
  | ETokenRefresh string
  | ECliBackend string
  | EAuthenticationFailed string
  | EStream string
  | EEmptyCompletion string "32 word"

definition show_nat_option :: "nat option \<Rightarrow> string" where
  "show_nat_option m = (case m of None \<Rightarrow> ''None'' | Some n \<Rightarrow> ''Some('' @ show_nat n @ '')'')"

text \<open>\<open>Display\<close>; the dash of the last message is U+2014 in UTF-8.\<close>

fun llm_error_to_string :: "llm_error \<Rightarrow> string" where
  "llm_error_to_string (EHttp m) = ''HTTP error: '' @ m"
| "llm_error_to_string (EApi status m) = ''API error ('' @ show_nat status @ ''): '' @ m"
| "llm_error_to_string (ESerialization m) = ''Serialization error: '' @ m"
| "llm_error_to_string (ERateLimited ms) = ''Rate limited, retry after '' @ show_nat ms @ ''ms''"
| "llm_error_to_string (EOverloaded status after) =
     ''Provider overloaded (status '' @ show_nat status @ ''), retry_after_ms='' @ show_nat_option after"
| "llm_error_to_string ENotConfigured = ''Provider not configured''"
| "llm_error_to_string (EConfig m) = ''Configuration error: '' @ m"
| "llm_error_to_string (EUnknownProvider m) = ''Unknown provider: '' @ m"
| "llm_error_to_string (ECredentialDiscovery m) = ''Credential discovery error: '' @ m"
| "llm_error_to_string (ETokenRefresh m) = ''Token refresh error: '' @ m"
| "llm_error_to_string (ECliBackend m) = ''CLI backend error: '' @ m"
| "llm_error_to_string (EAuthenticationFailed m) = ''Authentication failed: '' @ m"
| "llm_error_to_string (EStream m) = ''Stream error: '' @ m"
| "llm_error_to_string (EEmptyCompletion model n) =
     model @ '' returned an empty completion '' @ [CHR 0xE2, CHR 0x80, CHR 0x94]
     @ '' no content and no tool call, after '' @ show_nat (unat n)
     @ '' output tokens. A thinking model spends its output budget on reasoning before it answers: ''
     @ ''raise max_tokens for this call, or ask for no reasoning (ThinkingConfig::Disabled).''"

definition is_transient_http_error :: "(string \<Rightarrow> string) \<Rightarrow> string \<Rightarrow> bool" where
  "is_transient_http_error lc msg =
     (let lower = lc msg in
        str_contains lower ''timed out''
      \<or> str_contains lower ''timeout''
      \<or> str_contains lower ''reset by peer''
      \<or> str_contains lower ''connection reset''
      \<or> str_contains lower ''broken pipe''
      \<or> str_contains lower ''connection closed''
      \<or> str_contains lower ''incomplete message'')"

fun is_transient :: "(string \<Rightarrow> string) \<Rightarrow> llm_error \<Rightarrow> bool" where
  "is_transient lc (EHttp msg) = is_transient_http_error lc msg"
| "is_transient lc (ERateLimited _) = True"
| "is_transient lc (EOverloaded _ _) = True"
| "is_transient lc (EStream _) = True"
| "is_transient lc (EApi status _) = (500 \<le> status)"
| "is_transient lc _ = False"

fun is_auth_error :: "llm_error \<Rightarrow> bool" where
  "is_auth_error (EApi status _) = (status = 401 \<or> status = 403)"
| "is_auth_error (EAuthenticationFailed _) = True"
| "is_auth_error _ = False"

lemma transient_not_auth: "is_transient lc e \<Longrightarrow> \<not> is_auth_error e"
  by (cases e) auto

definition empty_completion_error :: "chat_response \<Rightarrow> llm_error option" where
  "empty_completion_error r =
     (let nothing_to_use = is_blank (rs_content r) \<and> rs_tool_calls r = []
            \<and> (case rs_parts r of None \<Rightarrow> True | Some ps \<Rightarrow> ps = []);
          attributable = rs_finish_reason r = FinMaxTokens
            \<or> (case rs_thinking r of None \<Rightarrow> False | Some t \<Rightarrow> \<not> is_blank t)
      in if nothing_to_use \<and> attributable
         then Some (EEmptyCompletion (rs_model r) (ug_output_tokens (rs_usage r)))
         else None)"

lemma empty_completion_kind:
  "empty_completion_error r = Some e \<Longrightarrow> \<not> is_transient lc e \<and> \<not> is_auth_error e"
  by (auto simp: empty_completion_error_def Let_def split: if_splits)

end
