(* ===== verification/Cost_Tracker.thy ===== *)
theory Cost_Tracker
  imports Model_Registry Llm_Types
begin

text \<open>
  What calls cost (\<open>crates/openalpaca_llm/src/routing/cost_tracker/mod.rs\<close>): prices from the
  router's catalogue, usage per agent, task and provider with a breakdown per model, the budget of
  a task. Token totals are 64-bit counters; money is rational where the code has \<open>f64\<close>.

  The catalogue is the tracker's \<open>ArcSwap\<close>: the tracker and the router share one. Here it is a
  field of the tracker, replaced by \<open>use_registry\<close>.
\<close>

section \<open>State\<close>

record call_record =
  rec_agent :: string
  rec_task :: "string option"
  rec_model :: string
  rec_input :: "32 word"
  rec_output :: "32 word"
  rec_cost :: rat
  rec_cache_creation :: "32 word"
  rec_cache_read :: "32 word"

record model_usage_stats =
  mu_requests :: "64 word"
  mu_input :: "64 word"
  mu_output :: "64 word"
  mu_cost :: rat
  mu_cache_creation :: "64 word"
  mu_cache_read :: "64 word"

record usage_stats =
  us_requests :: "64 word"
  us_input :: "64 word"
  us_output :: "64 word"
  us_cost :: rat
  us_by_model :: "(string, model_usage_stats) table"
  us_cache_creation :: "64 word"
  us_cache_read :: "64 word"

definition model_usage_default :: model_usage_stats where
  "model_usage_default =
     \<lparr>mu_requests = 0, mu_input = 0, mu_output = 0, mu_cost = 0, mu_cache_creation = 0, mu_cache_read = 0\<rparr>"

definition usage_stats_default :: usage_stats where
  "usage_stats_default =
     \<lparr>us_requests = 0, us_input = 0, us_output = 0, us_cost = 0, us_by_model = [], us_cache_creation = 0,
      us_cache_read = 0\<rparr>"

record cost_tracker =
  ct_registry :: model_registry
  ct_agents :: "(string, usage_stats) table"
  ct_tasks :: "(string, usage_stats) table"
  ct_providers :: "(string, usage_stats) table"

definition cost_tracker_new :: "model_registry \<Rightarrow> cost_tracker" where
  "cost_tracker_new r = \<lparr>ct_registry = r, ct_agents = [], ct_tasks = [], ct_providers = []\<rparr>"

definition use_registry :: "model_registry \<Rightarrow> cost_tracker \<Rightarrow> cost_tracker" where
  "use_registry r c = c\<lparr>ct_registry := r\<rparr>"

section \<open>Prices\<close>

definition pricing_for :: "cost_tracker \<Rightarrow> string \<Rightarrow> rat \<times> rat" where
  "pricing_for c model =
     (case get_pricing (ct_registry c) model of
        Some p \<Rightarrow> (pr_input p, pr_output p)
      | None \<Rightarrow> if is_local_only (ct_registry c) then (0, 0) else (3, 15))"

definition calculate_cost :: "cost_tracker \<Rightarrow> string \<Rightarrow> 32 word \<Rightarrow> 32 word \<Rightarrow> rat" where
  "calculate_cost c model input output =
     (let (i, p) = pricing_for c model in
      of_nat (unat input) * i / 1000000 + of_nat (unat output) * p / 1000000)"

definition calculate_cost_with_cache ::
  "cost_tracker \<Rightarrow> string \<Rightarrow> 32 word \<Rightarrow> 32 word \<Rightarrow> 32 word \<Rightarrow> 32 word \<Rightarrow> rat" where
  "calculate_cost_with_cache c model input output creation read =
     (let (i, p) = pricing_for c model;
          cached = unat creation + unat read;
          non_cached = unat input - cached
      in of_nat non_cached * i / 1000000
         + of_nat (unat creation) * i * (125 / 100) / 1000000
         + of_nat (unat read) * i * (10 / 100) / 1000000
         + of_nat (unat output) * p / 1000000)"

section \<open>Recording\<close>

definition add_model_usage :: "call_record \<Rightarrow> model_usage_stats \<Rightarrow> model_usage_stats" where
  "add_model_usage r s =
     \<lparr>mu_requests = mu_requests s + 1, mu_input = mu_input s + ucast (rec_input r),
      mu_output = mu_output s + ucast (rec_output r), mu_cost = mu_cost s + rec_cost r,
      mu_cache_creation = mu_cache_creation s + ucast (rec_cache_creation r),
      mu_cache_read = mu_cache_read s + ucast (rec_cache_read r)\<rparr>"

definition add_usage :: "call_record \<Rightarrow> usage_stats \<Rightarrow> usage_stats" where
  "add_usage r s =
     \<lparr>us_requests = us_requests s + 1, us_input = us_input s + ucast (rec_input r),
      us_output = us_output s + ucast (rec_output r), us_cost = us_cost s + rec_cost r,
      us_by_model =
        tput (rec_model r)
          (add_model_usage r (unwrap_or (tget (us_by_model s) (rec_model r)) model_usage_default)) (us_by_model s),
      us_cache_creation = us_cache_creation s + ucast (rec_cache_creation r),
      us_cache_read = us_cache_read s + ucast (rec_cache_read r)\<rparr>"

text \<open>\<open>entry(k).or_default()\<close> and the update in place.\<close>

definition add_entry :: "string \<Rightarrow> call_record \<Rightarrow> (string, usage_stats) table \<Rightarrow> (string, usage_stats) table" where
  "add_entry k r t = tput k (add_usage r (unwrap_or (tget t k) usage_stats_default)) t"

definition provider_label :: "model_registry \<Rightarrow> string \<Rightarrow> string" where
  "provider_label reg model = unwrap_or (resolve_provider_name reg model) ''unknown''"

definition cost_record :: "call_record \<Rightarrow> cost_tracker \<Rightarrow> cost_tracker" where
  "cost_record r c =
     c\<lparr>ct_agents := add_entry (rec_agent r) r (ct_agents c),
       ct_tasks := (case rec_task r of None \<Rightarrow> ct_tasks c | Some t \<Rightarrow> add_entry t r (ct_tasks c)),
       ct_providers := add_entry (provider_label (ct_registry c) (rec_model r)) r (ct_providers c)\<rparr>"

definition record_usage :: "string \<Rightarrow> string option \<Rightarrow> string \<Rightarrow> usage \<Rightarrow> cost_tracker \<Rightarrow> cost_tracker" where
  "record_usage agent task model u c =
     cost_record
       \<lparr>rec_agent = agent, rec_task = task, rec_model = model, rec_input = ug_input_tokens u,
        rec_output = ug_output_tokens u,
        rec_cost = calculate_cost_with_cache c model (ug_input_tokens u) (ug_output_tokens u)
          (ug_cache_creation u) (ug_cache_read u),
        rec_cache_creation = ug_cache_creation u, rec_cache_read = ug_cache_read u\<rparr> c"

section \<open>Reading\<close>

definition check_task_budget :: "string \<Rightarrow> rat \<Rightarrow> cost_tracker \<Rightarrow> bool" where
  "check_task_budget t max_cost c =
     (case tget (ct_tasks c) t of Some s \<Rightarrow> us_cost s < max_cost | None \<Rightarrow> True)"

definition get_agent_usage :: "string \<Rightarrow> cost_tracker \<Rightarrow> usage_stats option" where
  "get_agent_usage k c = tget (ct_agents c) k"

definition get_task_usage :: "string \<Rightarrow> cost_tracker \<Rightarrow> usage_stats option" where
  "get_task_usage k c = tget (ct_tasks c) k"

definition get_provider_usage :: "string \<Rightarrow> cost_tracker \<Rightarrow> usage_stats option" where
  "get_provider_usage k c = tget (ct_providers c) k"

definition total_cost :: "cost_tracker \<Rightarrow> rat" where
  "total_cost c = sum_list (map us_cost (tvalues (ct_agents c)))"

record cost_snapshot =
  sn_agents :: "(string, usage_stats) table"
  sn_tasks :: "(string, usage_stats) table"
  sn_providers :: "(string, usage_stats) table"

definition snapshot_for_flush :: "cost_tracker \<Rightarrow> cost_snapshot" where
  "snapshot_for_flush c = \<lparr>sn_agents = ct_agents c, sn_tasks = ct_tasks c, sn_providers = ct_providers c\<rparr>"

definition load_snapshot :: "cost_snapshot \<Rightarrow> cost_tracker \<Rightarrow> cost_tracker" where
  "load_snapshot s c = c\<lparr>ct_agents := sn_agents s, ct_tasks := sn_tasks s, ct_providers := sn_providers s\<rparr>"

definition cache_hit_ratio :: "cost_tracker \<Rightarrow> rat" where
  "cache_hit_ratio c =
     (let total_input = sum_list (map us_input (tvalues (ct_agents c)));
          total_read = sum_list (map us_cache_read (tvalues (ct_agents c)))
      in if total_input = 0 then 0 else of_nat (unat total_read) / of_nat (unat total_input))"

record cache_stats_row =
  cs_read :: "64 word"
  cs_creation :: "64 word"
  cs_input :: "64 word"
  cs_hit_ratio :: rat

definition cache_stats :: "cost_tracker \<Rightarrow> cache_stats_row" where
  "cache_stats c =
     (let total_input = sum_list (map us_input (tvalues (ct_agents c)));
          total_read = sum_list (map us_cache_read (tvalues (ct_agents c)));
          total_creation = sum_list (map us_cache_creation (tvalues (ct_agents c)))
      in \<lparr>cs_read = total_read, cs_creation = total_creation, cs_input = total_input,
          cs_hit_ratio = (if total_input = 0 then 0 else of_nat (unat total_read) / of_nat (unat total_input))\<rparr>)"

section \<open>The ledger\<close>

text \<open>
  The abstract ledger is the list of the calls recorded. \<open>model_totals\<close> is what it says of one
  model, and \<open>books\<close> that a statistics row agrees with it.
\<close>

definition model_totals :: "call_record list \<Rightarrow> model_usage_stats" where
  "model_totals rs =
     \<lparr>mu_requests = of_nat (length rs), mu_input = (\<Sum>r\<leftarrow>rs. ucast (rec_input r)),
      mu_output = (\<Sum>r\<leftarrow>rs. ucast (rec_output r)), mu_cost = (\<Sum>r\<leftarrow>rs. rec_cost r),
      mu_cache_creation = (\<Sum>r\<leftarrow>rs. ucast (rec_cache_creation r)),
      mu_cache_read = (\<Sum>r\<leftarrow>rs. ucast (rec_cache_read r))\<rparr>"

definition totals_of :: "usage_stats \<Rightarrow> model_usage_stats" where
  "totals_of s =
     \<lparr>mu_requests = us_requests s, mu_input = us_input s, mu_output = us_output s, mu_cost = us_cost s,
      mu_cache_creation = us_cache_creation s, mu_cache_read = us_cache_read s\<rparr>"

definition books :: "call_record list \<Rightarrow> usage_stats option \<Rightarrow> bool" where
  "books rs row =
     (case row of
        None \<Rightarrow> rs = []
      | Some s \<Rightarrow> rs \<noteq> [] \<and>
          totals_of s = model_totals rs \<and>
          (\<forall>m. tget (us_by_model s) m =
             (if filter (\<lambda>r. rec_model r = m) rs = [] then None
              else Some (model_totals (filter (\<lambda>r. rec_model r = m) rs)))))"

lemma model_totals_Nil [simp]: "model_totals [] = model_usage_default"
  by (simp add: model_totals_def model_usage_default_def)

lemma model_totals_snoc: "model_totals (rs @ [r]) = add_model_usage r (model_totals rs)"
  by (simp add: model_totals_def add_model_usage_def)

lemma totals_of_add: "totals_of (add_usage r s) = add_model_usage r (totals_of s)"
  by (simp add: totals_of_def add_usage_def add_model_usage_def)

lemma totals_of_default: "totals_of usage_stats_default = model_usage_default"
  by (simp add: totals_of_def usage_stats_default_def model_usage_default_def)

lemma by_model_add:
  "tget (us_by_model (add_usage r s)) m =
     (if m = rec_model r then Some (add_model_usage r (unwrap_or (tget (us_by_model s) m) model_usage_default))
      else tget (us_by_model s) m)"
  by (simp add: add_usage_def table_simps)

lemma books_add:
  assumes "books rs row"
  shows "books (rs @ [r]) (Some (add_usage r (unwrap_or row usage_stats_default)))"
proof (cases row)
  case None
  with assms have rs: "rs = []" by (simp add: books_def)
  have "tget (us_by_model usage_stats_default) m = None" for m by (simp add: usage_stats_default_def)
  then show ?thesis
    using model_totals_snoc [of "[]" r]
    by (simp add: None rs books_def totals_of_add totals_of_default by_model_add)
next
  case (Some s)
  with assms show ?thesis
    by (auto simp: books_def totals_of_add by_model_add model_totals_snoc)
qed

lemma books_entry:
  "books rs (tget t k) \<Longrightarrow> books (if k = k' then rs @ [r] else rs) (tget (add_entry k' r t) k)"
  using books_add by (auto simp: add_entry_def table_simps)

fun record_all :: "call_record list \<Rightarrow> cost_tracker \<Rightarrow> cost_tracker" where
  "record_all [] c = c"
| "record_all (r # rs) c = record_all rs (cost_record r c)"

lemma record_all_append: "record_all (xs @ ys) c = record_all ys (record_all xs c)"
  by (induction xs arbitrary: c) auto

lemma registry_new [simp]: "ct_registry (cost_tracker_new reg) = reg"
  by (simp add: cost_tracker_new_def)

lemma registry_record_all [simp]: "ct_registry (record_all rs c) = ct_registry c"
  by (induction rs arbitrary: c) (auto simp: cost_record_def)

definition of_agent :: "string \<Rightarrow> call_record list \<Rightarrow> call_record list" where
  "of_agent k rs = filter (\<lambda>r. rec_agent r = k) rs"

definition of_task :: "string \<Rightarrow> call_record list \<Rightarrow> call_record list" where
  "of_task k rs = filter (\<lambda>r. rec_task r = Some k) rs"

definition of_provider :: "model_registry \<Rightarrow> string \<Rightarrow> call_record list \<Rightarrow> call_record list" where
  "of_provider reg k rs = filter (\<lambda>r. provider_label reg (rec_model r) = k) rs"

lemmas of_defs = of_agent_def of_task_def of_provider_def

lemma books_all:
  "books (of_agent k rs) (get_agent_usage k (record_all rs (cost_tracker_new reg)))
   \<and> books (of_task k rs) (get_task_usage k (record_all rs (cost_tracker_new reg)))
   \<and> books (of_provider reg k rs) (get_provider_usage k (record_all rs (cost_tracker_new reg)))"
proof (induction rs rule: rev_induct)
  case Nil
  show ?case
    by (simp add: cost_tracker_new_def books_def of_defs get_agent_usage_def get_task_usage_def
      get_provider_usage_def)
next
  case (snoc r rs)
  let ?c = "record_all rs (cost_tracker_new reg)"
  have a: "books (of_agent k (rs @ [r])) (get_agent_usage k (cost_record r ?c))"
    using snoc books_entry [of "of_agent k rs" "ct_agents ?c" k "rec_agent r" r]
    by (auto simp: of_defs get_agent_usage_def cost_record_def split: if_splits)
  have t: "books (of_task k (rs @ [r])) (get_task_usage k (cost_record r ?c))"
    using snoc books_entry [of "of_task k rs" "ct_tasks ?c" k "the (rec_task r)" r]
    by (auto simp: of_defs get_task_usage_def cost_record_def split: if_splits option.splits)
  have p: "books (of_provider reg k (rs @ [r])) (get_provider_usage k (cost_record r ?c))"
    using snoc books_entry [of "of_provider reg k rs" "ct_providers ?c" k "provider_label reg (rec_model r)" r]
    by (auto simp: of_defs get_provider_usage_def cost_record_def split: if_splits)
  from a t p show ?case by (simp add: record_all_append)
qed

section \<open>Sums over a table\<close>

lemma sum_tput:
  fixes f :: "'v \<Rightarrow> rat"
  assumes "table_ok t"
  shows "sum_list (map f (tvalues (tput k v t)))
    = sum_list (map f (tvalues t)) - (case tget t k of None \<Rightarrow> 0 | Some old \<Rightarrow> f old) + f v"
  using assms by (induction t) (auto simp: table_ok_def map_of_eq_None_iff split: option.splits)

lemma sum_add_entry:
  assumes "table_ok t"
  shows "sum_list (map us_cost (tvalues (add_entry k r t))) = sum_list (map us_cost (tvalues t)) + rec_cost r"
  using sum_tput [OF assms, of us_cost k "add_usage r (unwrap_or (tget t k) usage_stats_default)"]
  by (simp add: add_entry_def add_usage_def usage_stats_default_def split: option.splits)

definition ct_ok :: "cost_tracker \<Rightarrow> bool" where
  "ct_ok c = (table_ok (ct_agents c) \<and> table_ok (ct_tasks c) \<and> table_ok (ct_providers c))"

lemma ct_ok_record: "ct_ok c \<Longrightarrow> ct_ok (cost_record r c)"
  by (auto simp: ct_ok_def cost_record_def add_entry_def split: option.splits)

definition provider_cost :: "cost_tracker \<Rightarrow> rat" where
  "provider_cost c = sum_list (map us_cost (tvalues (ct_providers c)))"

lemma sums_record:
  "ct_ok c \<Longrightarrow> total_cost (cost_record r c) = total_cost c + rec_cost r
     \<and> provider_cost (cost_record r c) = provider_cost c + rec_cost r"
  by (simp add: total_cost_def provider_cost_def cost_record_def sum_add_entry ct_ok_def del: map_map)

lemma sums_record_all:
  "ct_ok c \<Longrightarrow>
   total_cost (record_all rs c) = total_cost c + (\<Sum>r\<leftarrow>rs. rec_cost r) \<and>
   provider_cost (record_all rs c) = provider_cost c + (\<Sum>r\<leftarrow>rs. rec_cost r)"
proof (induction rs arbitrary: c)
  case Nil
  then show ?case by simp
next
  case (Cons r rs)
  then show ?case
    using Cons.IH [OF ct_ok_record [OF Cons.prems]] sums_record [OF Cons.prems, of r] by simp
qed

lemma rat_of_nat_split:
  "b + d \<le> a \<Longrightarrow> (of_nat a :: rat) = of_nat (a - (b + d)) + of_nat b + of_nat d"
  by (simp flip: of_nat_add)

lemma rat_scale: "0 \<le> i \<Longrightarrow> 0 \<le> (of_nat n :: rat) * i"
  by simp

lemma cache_surcharge:
  fixes a b d e :: rat
  assumes "0 \<le> d"
  shows "a / 1000000 + b * (125 / 100) / 1000000 + d * (10 / 100) / 1000000 + e / 1000000
    \<le> (a + b + d) / 1000000 + e / 1000000 + b / 4 / 1000000"
  using assms by (simp add: field_simps)

lemma cost_nonneg:
  fixes a b d e :: rat
  assumes "0 \<le> a" and "0 \<le> b" and "0 \<le> d" and "0 \<le> e"
  shows "0 \<le> a / 1000000 + b * (125 / 100) / 1000000 + d * (10 / 100) / 1000000 + e / 1000000"
  using assms by simp

lemma task_budget_ledger:
  "check_task_budget k m (record_all rs (cost_tracker_new reg))
   \<longleftrightarrow> of_task k rs = [] \<or> (\<Sum>r\<leftarrow>of_task k rs. rec_cost r) < m"
  using books_all [of k rs reg]
  by (auto simp: check_task_budget_def get_task_usage_def books_def model_totals_def totals_of_def split: option.splits)

section \<open>Properties\<close>

text \<open>C17: The tracker keeps the books of the calls recorded: for every agent, task and provider the
  row exists exactly when a call was booked on it, its totals are the sums over those calls, and its
  breakdown has one row per model called with the sums over that model's calls; and no money is lost
  or counted twice, the total over the agents and over the providers being the sum of the costs of
  all calls.\<close>

theorem cost_ledger_exact:
  "books (of_agent k rs) (get_agent_usage k (record_all rs (cost_tracker_new reg)))
   \<and> books (of_task k rs) (get_task_usage k (record_all rs (cost_tracker_new reg)))
   \<and> books (of_provider reg k rs) (get_provider_usage k (record_all rs (cost_tracker_new reg)))
   \<and> total_cost (record_all rs (cost_tracker_new reg)) = (\<Sum>r\<leftarrow>rs. rec_cost r)
   \<and> provider_cost (record_all rs (cost_tracker_new reg)) = (\<Sum>r\<leftarrow>rs. rec_cost r)"
proof -
  have "ct_ok (cost_tracker_new reg)" by (simp add: ct_ok_def cost_tracker_new_def)
  from sums_record_all [OF this, of rs] books_all [of k rs reg] show ?thesis
    by (simp add: total_cost_def provider_cost_def cost_tracker_new_def)
qed

text \<open>The budget of a task: it refuses exactly when calls were booked on the task and their costs
  reach the limit, so a call that runs may exceed it but the next one is refused; and once refused, no
  further call of whatever task, none with a negative price, reopens it.\<close>

theorem task_budget_exact:
  assumes "\<forall>r\<in>set later. 0 \<le> rec_cost r"
  shows "(check_task_budget k m (record_all rs (cost_tracker_new reg))
      \<longleftrightarrow> of_task k rs = [] \<or> (\<Sum>r\<leftarrow>of_task k rs. rec_cost r) < m)
    \<and> (\<not> check_task_budget k m (record_all rs (cost_tracker_new reg))
        \<longrightarrow> \<not> check_task_budget k m (record_all (rs @ later) (cost_tracker_new reg)))"
proof -
  have "0 \<le> (\<Sum>r\<leftarrow>of_task k later. rec_cost r)"
    using assms by (intro sum_list_nonneg) (auto simp: of_task_def)
  then have "(\<Sum>r\<leftarrow>of_task k rs. rec_cost r) \<le> (\<Sum>r\<leftarrow>of_task k (rs @ later). rec_cost r)"
    by (simp add: of_task_def)
  moreover have "of_task k rs \<noteq> [] \<Longrightarrow> of_task k (rs @ later) \<noteq> []" by (simp add: of_task_def)
  ultimately show ?thesis unfolding task_budget_ledger by auto
qed

definition demo_call :: call_record where
  "demo_call = \<lparr>rec_agent = ''a'', rec_task = Some ''t'', rec_model = ''o3'', rec_input = 1, rec_output = 1,
     rec_cost = 5, rec_cache_creation = 0, rec_cache_read = 0\<rparr>"

lemma task_budget_exact_witness:
  "\<not> check_task_budget ''t'' 5 (record_all [demo_call] (cost_tracker_new with_defaults))
   \<and> \<not> check_task_budget ''t'' 5 (record_all ([demo_call] @ [demo_call]) (cost_tracker_new with_defaults))"
  using task_budget_exact [of "[demo_call]" "''t''" 5 "[demo_call]" with_defaults]
  by (simp add: demo_call_def of_task_def)

text \<open>What prompt caching makes of a price: with prices not negative the cost is not negative and
  never above a quarter of the cache writes' price over the uncached cost; without cached tokens it is
  the uncached cost, and with cache reads alone it is at most that, as long as the cached tokens are a
  subset of the input as the provider reports them; and a model of a catalogue that is local only and
  does not know it costs nothing.\<close>

theorem cache_pricing_bounds:
  assumes "pricing_for c model = (i, p)" and "0 \<le> i" and "0 \<le> p"
    and "unat cw + unat cr \<le> unat input"
  shows "0 \<le> calculate_cost_with_cache c model input output cw cr
    \<and> calculate_cost_with_cache c model input output cw cr
        \<le> calculate_cost c model input output + of_nat (unat cw) * i / 4 / 1000000
    \<and> calculate_cost_with_cache c model input output 0 0 = calculate_cost c model input output
    \<and> (is_local_only (ct_registry c) \<and> get_pricing (ct_registry c) model = None
        \<longrightarrow> calculate_cost_with_cache c model input output cw cr = 0)"
proof (intro conjI impI)
  let ?n = "of_nat (unat input - (unat cw + unat cr)) :: rat"
  have n: "(of_nat (unat input) :: rat) = ?n + of_nat (unat cw) + of_nat (unat cr)"
    by (rule rat_of_nat_split [OF assms(4)])
  have eq: "calculate_cost_with_cache c model input output cw cr
    = ?n * i / 1000000 + of_nat (unat cw) * i * (125 / 100) / 1000000
      + of_nat (unat cr) * i * (10 / 100) / 1000000 + of_nat (unat output) * p / 1000000"
    by (simp add: calculate_cost_with_cache_def assms(1) Let_def)
  have nn: "0 \<le> ?n * i" "0 \<le> of_nat (unat cw) * i" "0 \<le> of_nat (unat cr) * i" "0 \<le> of_nat (unat output) * p"
    by (rule rat_scale [OF assms(2)] rat_scale [OF assms(3)])+
  show "0 \<le> calculate_cost_with_cache c model input output cw cr"
    unfolding eq by (rule cost_nonneg [OF nn])
  have base: "calculate_cost c model input output
    = of_nat (unat input) * i / 1000000 + of_nat (unat output) * p / 1000000"
    by (simp add: calculate_cost_def assms(1))
  have plain: "calculate_cost c model input output
    = (?n * i + of_nat (unat cw) * i + of_nat (unat cr) * i) / 1000000 + of_nat (unat output) * p / 1000000"
    unfolding base n by (simp only: distrib_right)
  show "calculate_cost_with_cache c model input output cw cr
    \<le> calculate_cost c model input output + of_nat (unat cw) * i / 4 / 1000000"
    unfolding eq plain by (rule cache_surcharge [OF nn(3)])
  show "calculate_cost_with_cache c model input output 0 0 = calculate_cost c model input output"
    by (simp add: calculate_cost_with_cache_def calculate_cost_def assms(1))
  assume "is_local_only (ct_registry c) \<and> get_pricing (ct_registry c) model = None"
  then show "calculate_cost_with_cache c model input output cw cr = 0"
    by (simp add: calculate_cost_with_cache_def pricing_for_def)
qed


lemma cache_pricing_bounds_witness:
  "calculate_cost_with_cache (cost_tracker_new with_defaults) ''o3'' 100 10 20 30
     \<le> calculate_cost (cost_tracker_new with_defaults) ''o3'' 100 10 + 20 * 10 / 4 / 1000000"
proof -
  have "pricing_for (cost_tracker_new with_defaults) ''o3'' = (10, 40)"
    by (simp add: pricing_for_def get_pricing_def cost_tracker_new_def with_defaults_def
      model_registry_new_def default_models_def reasoning_row_def)
  from cache_pricing_bounds [OF this, of 20 30 100 10] show ?thesis by simp
qed

end
