(* ===== verification/Router_Ladder.thy ===== *)
theory Router_Ladder
  imports Rate_Limiter Cost_Tracker
begin

text \<open>
  The LLM router's state and the choice of the model a request is sent as
  (\<open>crates/openalpaca_llm/src/routing/router/mod.rs\<close>, \<open>types.rs\<close>, \<open>capacity.rs\<close>): providers
  loaded and unloaded, the substitution ladder, the effective default, capacity and headroom, and
  a discovery pass.

  A key pool is shared by reference: a request keeps the pool it loaded when \<open>reload_keys\<close> puts
  another in its place. So pools live in a store of the router state, \<open>ro_pools\<close>, and a provider
  entry holds an address. The router and the cost tracker read one catalogue, the tracker's
  \<open>ct_registry\<close>. Of a provider the model keeps its name and whether it needs a key; what its API
  answers is an argument of the operations that call it.
\<close>

section \<open>State\<close>

record provider_entry =
  pe_name :: string
  pe_requires_key :: bool
  pe_pool :: nat

record provider_discovery =
  dv_models :: nat
  dv_error :: "string option"

record discovered_model =
  dm_id :: string
  dm_context_window :: "32 word option"
  dm_supports_image :: bool
  dm_supports_tools :: bool

definition discovered_bare :: "string \<Rightarrow> discovered_model" where
  "discovered_bare i =
     \<lparr>dm_id = i, dm_context_window = None, dm_supports_image = False, dm_supports_tools = True\<rparr>"

record llm_router =
  ro_providers :: "(provider_type, provider_entry) table"
  ro_pools :: "nat \<Rightarrow> key_pool"
  ro_next_pool :: nat
  ro_fallback_chains :: "(string, string list) table"
  ro_costs :: cost_tracker
  ro_default_model :: string
  ro_cli_backends :: "provider_type list"
  ro_provider_defaults :: "(string, string) table"
  ro_permits :: nat
  ro_limits :: limiter_registry
  ro_discovery :: "(provider_type, provider_discovery) table"
  ro_substitutions :: "(string \<times> string) list"

definition ro_registry :: "llm_router \<Rightarrow> model_registry" where
  "ro_registry r = ct_registry (ro_costs r)"

definition set_registry :: "model_registry \<Rightarrow> llm_router \<Rightarrow> llm_router" where
  "set_registry m r = r\<lparr>ro_costs := use_registry m (ro_costs r)\<rparr>"

datatype router_error =
    UnknownModel string
  | ProviderNotConfigured string
  | RAllKeysRateLimited
  | RNoApiCompatibleKeys
  | MaxRetriesExceeded
  | AllKeysRefused
  | AllFallbacksFailed
  | NoRoutableModel
  | NoFallbackAvailable string
  | LlmFail llm_error

definition keyless_slot :: "string \<Rightarrow> key_guard" where
  "keyless_slot provider_name =
     \<lparr>kg_id = provider_name @ '':keyless'', kg_secret = [], kg_rate_limit = None\<rparr>"

text \<open>A router as the constructors build it: each provider with its pool, in the order given.\<close>

fun place_pools ::
  "(provider_type \<times> string \<times> bool \<times> key_pool) list \<Rightarrow> nat \<Rightarrow> (provider_type, provider_entry) table \<times> (nat \<Rightarrow> key_pool)" where
  "place_pools [] a = ([], \<lambda>_. key_pool_new [] RoundRobin)"
| "place_pools ((p, name, needs, pool) # rest) a =
     (let (t, h) = place_pools rest (Suc a)
      in (tput p \<lparr>pe_name = name, pe_requires_key = needs, pe_pool = a\<rparr> t, h(a := pool)))"

definition new_with_runtime ::
  "(provider_type \<times> string \<times> bool \<times> key_pool) list \<Rightarrow> model_registry \<Rightarrow> (string, string list) table
    \<Rightarrow> cost_tracker \<Rightarrow> string \<Rightarrow> (string, string) table \<Rightarrow> rate_limit_config \<Rightarrow> llm_router" where
  "new_with_runtime ps reg fallbacks costs def_model provider_defaults cfg =
     \<lparr>ro_providers = fst (place_pools ps 0), ro_pools = snd (place_pools ps 0), ro_next_pool = length ps,
      ro_fallback_chains = fallbacks, ro_costs = use_registry reg costs, ro_default_model = def_model,
      ro_cli_backends = [], ro_provider_defaults = provider_defaults,
      ro_permits = rc_global_concurrency cfg, ro_limits = limiter_registry_new cfg,
      ro_discovery = [], ro_substitutions = []\<rparr>"

section \<open>Providers\<close>

definition provider_entry_of :: "llm_router \<Rightarrow> provider_type \<Rightarrow> provider_entry option" where
  "provider_entry_of r p = tget (ro_providers r) p"

definition has_provider :: "llm_router \<Rightarrow> provider_type \<Rightarrow> bool" where
  "has_provider r p = (tget (ro_providers r) p \<noteq> None)"

definition provider_requires_key :: "llm_router \<Rightarrow> provider_type \<Rightarrow> bool option" where
  "provider_requires_key r p = map_option pe_requires_key (tget (ro_providers r) p)"

definition configured_providers :: "llm_router \<Rightarrow> provider_type list" where
  "configured_providers r = tkeys (ro_providers r)"

definition reload_keys :: "provider_type \<Rightarrow> key_pool \<Rightarrow> llm_router \<Rightarrow> bool \<times> llm_router" where
  "reload_keys p pool r =
     (case tget (ro_providers r) p of
        None \<Rightarrow> (False, r)
      | Some e \<Rightarrow>
          (True, r\<lparr>ro_pools := (ro_pools r)(ro_next_pool r := pool), ro_next_pool := Suc (ro_next_pool r),
                   ro_providers := tput p (e\<lparr>pe_pool := ro_next_pool r\<rparr>) (ro_providers r)\<rparr>))"

definition register_provider ::
  "provider_type \<Rightarrow> string \<Rightarrow> bool \<Rightarrow> key_pool \<Rightarrow> llm_router \<Rightarrow> bool \<times> llm_router" where
  "register_provider p name needs pool r =
     (True, r\<lparr>ro_pools := (ro_pools r)(ro_next_pool r := pool), ro_next_pool := Suc (ro_next_pool r),
              ro_providers := tput p \<lparr>pe_name = name, pe_requires_key = needs, pe_pool = ro_next_pool r\<rparr>
                (ro_providers r)\<rparr>)"

definition deregister_provider :: "provider_type \<Rightarrow> llm_router \<Rightarrow> string list \<times> llm_router" where
  "deregister_provider p r =
     (let (ids, reg) = remove_by_provider p (ro_registry r)
      in (ids, set_registry reg (r\<lparr>ro_providers := tdel p (ro_providers r)\<rparr>)))"

definition register_cli_backend :: "provider_type \<Rightarrow> llm_router \<Rightarrow> llm_router" where
  "register_cli_backend p r =
     (if p \<in> set (ro_cli_backends r) then r else r\<lparr>ro_cli_backends := p # ro_cli_backends r\<rparr>)"

definition has_cli_backend :: "llm_router \<Rightarrow> provider_type \<Rightarrow> bool" where
  "has_cli_backend r p = (p \<in> set (ro_cli_backends r))"

definition set_default_model :: "string \<Rightarrow> llm_router \<Rightarrow> llm_router" where
  "set_default_model m r = r\<lparr>ro_default_model := m\<rparr>"

fun reload_model_registry :: "(string, model_info) table \<Rightarrow> llm_router \<Rightarrow> llm_router" where
  "reload_model_registry [] r = r"
| "reload_model_registry ((i, info) # rest) r =
     reload_model_registry rest (set_registry (model_register i info (ro_registry r)) r)"

definition router_key_statuses :: "nat \<Rightarrow> llm_router \<Rightarrow> provider_type \<Rightarrow> key_status list option" where
  "router_key_statuses now r p =
     map_option (\<lambda>e. key_statuses now (ro_pools r (pe_pool e))) (tget (ro_providers r) p)"

section \<open>The model a request is sent as\<close>

definition is_routable :: "llm_router \<Rightarrow> string \<Rightarrow> bool" where
  "is_routable r m =
     (case resolve_provider (ro_registry r) m of None \<Rightarrow> False | Some p \<Rightarrow> has_provider r p)"

definition provider_preference_order :: "llm_router \<Rightarrow> provider_type list" where
  "provider_preference_order r =
     (let ordered = filter (has_provider r) provider_all;
          rest = filter (\<lambda>p. p \<notin> set ordered) (tkeys (ro_providers r))
      in ordered @ sort_key provider_to_string rest)"

definition provider_default_model :: "llm_router \<Rightarrow> provider_type \<Rightarrow> string option" where
  "provider_default_model r p =
     (case (case tget (ro_provider_defaults r) (provider_to_string p) of
              Some m \<Rightarrow> if is_routable r m then Some m else None
            | None \<Rightarrow> None) of
        Some m \<Rightarrow> Some m
      | None \<Rightarrow>
          (case first_model_for_provider p (ro_registry r) of
             Some m \<Rightarrow> if is_routable r m then Some m else None
           | None \<Rightarrow> None))"

definition configured_default_model :: "llm_router \<Rightarrow> string option" where
  "configured_default_model r = (if is_blank (ro_default_model r) then None else Some (ro_default_model r))"

definition effective_default_model :: "llm_router \<Rightarrow> string option" where
  "effective_default_model r =
     (if is_routable r (ro_default_model r) then Some (ro_default_model r)
      else find_map (provider_default_model r) (provider_preference_order r))"

definition push_unique :: "string \<Rightarrow> string list \<Rightarrow> string \<Rightarrow> string list" where
  "push_unique requested chain candidate =
     (if candidate \<noteq> requested \<and> candidate \<notin> set chain then chain @ [candidate] else chain)"

definition substitution_ladder :: "llm_router \<Rightarrow> string \<Rightarrow> string list \<Rightarrow> string list" where
  "substitution_ladder r requested request_chain =
     (let push = (\<lambda>ms chain. foldl (push_unique requested) chain ms);
          chain_of = (\<lambda>m. unwrap_or (tget (ro_fallback_chains r) m) [])
      in push (case effective_default_model r of None \<Rightarrow> [] | Some m \<Rightarrow> [m])
           (push (chain_of (ro_default_model r)) (push (chain_of requested) (push request_chain []))))"

definition note_substitution :: "string \<Rightarrow> string \<Rightarrow> llm_router \<Rightarrow> llm_router" where
  "note_substitution requested effective r =
     (if requested = effective \<or> (requested, effective) \<in> set (ro_substitutions r) then r
      else r\<lparr>ro_substitutions := (requested, effective) # ro_substitutions r\<rparr>)"

definition resolve_routable :: "string \<Rightarrow> string list \<Rightarrow> llm_router \<Rightarrow> string option \<times> llm_router" where
  "resolve_routable requested request_chain r =
     (if is_routable r requested then (Some requested, r)
      else case List.find (is_routable r) (substitution_ladder r requested request_chain) of
          None \<Rightarrow> (None, r)
        | Some m \<Rightarrow> (Some m, note_substitution requested m r))"

section \<open>Capacity and headroom\<close>

record llm_capacity_info =
  ci_available_api_keys :: nat
  ci_per_key_concurrency :: nat
  ci_key_capacity :: nat
  ci_has_cli_fallback :: bool
  ci_effective_capacity :: nat

definition zero_capacity :: llm_capacity_info where
  "zero_capacity = \<lparr>ci_available_api_keys = 0, ci_per_key_concurrency = 0, ci_key_capacity = 0,
     ci_has_cli_fallback = False, ci_effective_capacity = 0\<rparr>"

definition estimated_llm_capacity :: "nat \<Rightarrow> string option \<Rightarrow> llm_router \<Rightarrow> llm_capacity_info" where
  "estimated_llm_capacity now model r =
     (case resolve_provider (ro_registry r) (unwrap_or model (ro_default_model r)) of
        None \<Rightarrow> zero_capacity
      | Some p \<Rightarrow>
          (case tget (ro_providers r) p of
             None \<Rightarrow> zero_capacity
           | Some e \<Rightarrow>
               let keys = available_api_key_count now (ro_pools r (pe_pool e));
                   per_key = rc_per_key_concurrency (lr_config (ro_limits r));
                   capacity = keys * per_key;
                   cli = has_cli_backend r p
               in \<lparr>ci_available_api_keys = keys, ci_per_key_concurrency = per_key, ci_key_capacity = capacity,
                   ci_has_cli_fallback = cli,
                   ci_effective_capacity =
                     (if 0 < capacity then min capacity (ro_permits r) else if cli then 1 else 0)\<rparr>))"

record rate_headroom =
  rh_rpm_available :: rat
  rh_rpm_capacity :: rat
  rh_tpm_available :: rat
  rh_tpm_capacity :: rat

text \<open>\<open>available()\<close> refills the bucket in place up to the present, the one change a reading makes.\<close>

definition limiter_headroom :: "nat \<Rightarrow> string \<Rightarrow> key_limiter \<Rightarrow> llm_router \<Rightarrow> rate_headroom \<times> llm_router" where
  "limiter_headroom now kid l r =
     (let (rpm, b1) = bucket_available now (kl_rpm_bucket l);
          (tpm, b2) = bucket_available now (kl_tpm_bucket l);
          l' = l\<lparr>kl_rpm_bucket := b1, kl_tpm_bucket := b2\<rparr>
      in (\<lparr>rh_rpm_available = rpm, rh_rpm_capacity = tk_capacity b1, rh_tpm_available = tpm,
           rh_tpm_capacity = tk_capacity b2\<rparr>,
          r\<lparr>ro_limits := (ro_limits r)\<lparr>lr_limiters := tput kid l' (lr_limiters (ro_limits r))\<rparr>\<rparr>))"

definition key_headroom :: "nat \<Rightarrow> string \<times> nat option \<Rightarrow> llm_router \<Rightarrow> rate_headroom \<times> llm_router" where
  "key_headroom now key r =
     (case limiter_get (fst key) (ro_limits r) of
        Some l \<Rightarrow> limiter_headroom now (fst key) l r
      | None \<Rightarrow>
          let rpm = of_nat (unwrap_or (snd key) (rc_default_rpm (lr_config (ro_limits r))));
              tpm = of_nat (rc_default_tpm (lr_config (ro_limits r)))
          in (\<lparr>rh_rpm_available = rpm, rh_rpm_capacity = rpm, rh_tpm_available = tpm, rh_tpm_capacity = tpm\<rparr>, r))"

definition tighter :: "rate_headroom \<Rightarrow> rate_headroom option \<Rightarrow> rate_headroom" where
  "tighter h t =
     (case t of
        None \<Rightarrow> h
      | Some t \<Rightarrow>
          \<lparr>rh_rpm_available = min (rh_rpm_available t) (rh_rpm_available h),
           rh_rpm_capacity = min (rh_rpm_capacity t) (rh_rpm_capacity h),
           rh_tpm_available = min (rh_tpm_available t) (rh_tpm_available h),
           rh_tpm_capacity = min (rh_tpm_capacity t) (rh_tpm_capacity h)\<rparr>)"

fun tightest_of ::
  "nat \<Rightarrow> (string \<times> nat option) list \<Rightarrow> rate_headroom option \<Rightarrow> llm_router \<Rightarrow> rate_headroom option \<times> llm_router" where
  "tightest_of now [] best r = (best, r)"
| "tightest_of now (k # ks) best r =
     (let (h, r') = key_headroom now k r in tightest_of now ks (Some (tighter h best)) r')"

definition router_rate_headroom :: "nat \<Rightarrow> string \<Rightarrow> llm_router \<Rightarrow> rate_headroom option \<times> llm_router" where
  "router_rate_headroom now model r =
     (case resolve_provider (ro_registry r) model of
        None \<Rightarrow> (None, r)
      | Some p \<Rightarrow>
          (case tget (ro_providers r) p of
             None \<Rightarrow> (None, r)
           | Some e \<Rightarrow>
               let keys = map (\<lambda>(i, l). (i, map_option unat l)) (key_rate_limits (ro_pools r (pe_pool e)));
                   keys' = (if keys = [] \<and> \<not> pe_requires_key e
                            then [(kg_id (keyless_slot (pe_name e)), None)] else keys)
               in tightest_of now keys' None r))"

section \<open>Discovery\<close>

definition DEFAULT_LOCAL_CONTEXT_WINDOW :: "32 word" where
  "DEFAULT_LOCAL_CONTEXT_WINDOW = 8192"

definition discovered_info :: "provider_type \<Rightarrow> discovered_model \<Rightarrow> model_info" where
  "discovered_info p m =
     \<lparr>mi_provider = p, mi_input_price = 0, mi_output_price = 0,
      mi_context_window = unwrap_or (dm_context_window m)
        (if provider_is_local p then DEFAULT_LOCAL_CONTEXT_WINDOW else 0),
      mi_discovered = True, mi_supports_image = dm_supports_image m, mi_supports_audio = False,
      mi_supports_document = False, mi_supports_reasoning = False,
      mi_supports_tools = dm_supports_tools m, mi_declared = False\<rparr>"

definition record_discovery ::
  "provider_type \<Rightarrow> provider_discovery \<Rightarrow> llm_router \<Rightarrow> provider_discovery \<times> llm_router" where
  "record_discovery p st r = (st, r\<lparr>ro_discovery := tput p st (ro_discovery r)\<rparr>)"

definition discovery_status :: "llm_router \<Rightarrow> provider_type \<Rightarrow> provider_discovery option" where
  "discovery_status r p = tget (ro_discovery r) p"

definition mark_defaults :: "provider_type \<Rightarrow> llm_router \<Rightarrow> llm_router" where
  "mark_defaults p r = set_registry (snd (mark_defaults_discovered_for_provider p (ro_registry r))) r"

definition absorb_models :: "provider_type \<Rightarrow> discovered_model list \<Rightarrow> model_registry \<Rightarrow> model_registry" where
  "absorb_models p ms reg = fold (\<lambda>m. register_discovered (dm_id m) (discovered_info p m)) ms reg"

text \<open>
  \<open>answer\<close> is what the provider's API lists, given the secret it is called with, and \<open>meanwhile\<close>
  what other tasks do to the router while it is asked.
\<close>

definition refresh_models_for ::
  "nat \<Rightarrow> (string \<Rightarrow> (llm_error, discovered_model list) res) \<Rightarrow> (llm_router \<Rightarrow> llm_router)
    \<Rightarrow> provider_type \<Rightarrow> llm_router \<Rightarrow> provider_discovery \<times> llm_router" where
  "refresh_models_for now answer meanwhile p r =
     (case tget (ro_providers r) p of
        None \<Rightarrow> (\<lparr>dv_models = 0, dv_error = Some ''provider is not loaded''\<rparr>, r)
      | Some e \<Rightarrow>
          let (got, pool) = acquire_api_compatible now (ro_pools r (pe_pool e));
              r1 = r\<lparr>ro_pools := (ro_pools r)(pe_pool e := pool)\<rparr>
          in case (case got of
                     Inr g \<Rightarrow> Some (kg_secret g)
                   | Inl _ \<Rightarrow> if pe_requires_key e then None else Some []) of
               None \<Rightarrow>
                 record_discovery p \<lparr>dv_models = 0, dv_error = Some ''no API-compatible key configured''\<rparr>
                   (mark_defaults p r1)
             | Some secret \<Rightarrow>
                 let r2 = meanwhile r1 in
                 (case answer secret of
                    Inl err \<Rightarrow>
                      record_discovery p \<lparr>dv_models = 0, dv_error = Some (llm_error_to_string err)\<rparr>
                        (mark_defaults p r2)
                  | Inr ms \<Rightarrow>
                      let r3 = (if ms = [] then mark_defaults p r2 else r2);
                          reg = absorb_models p ms (ro_registry r3);
                          reg' = (if provider_is_local p
                                  then snd (withdraw_absent_for_provider p (set (map dm_id ms)) reg) else reg)
                      in record_discovery p \<lparr>dv_models = length ms, dv_error = None\<rparr> (set_registry reg' r3)))"

end
