(* ===== verification/Router_Call.thy ===== *)
theory Router_Call
  imports Router_Ladder
begin

text \<open>
  One completion of the LLM router, from the request to the answer or the error
  (\<open>crates/openalpaca_llm/src/routing/router/retry.rs\<close>, \<open>completion.rs\<close>, \<open>fallback.rs\<close>): key
  rotation and retries on one model, the walk down the fallback ladder, the command-line backend at
  its end.

  The code awaits: a key, the limiter of the key, the provider, the end of a backoff. What an await
  brings back, and what other tasks do to the router meanwhile, is the world: a list of \<open>tick\<close>s,
  one per attempt, and of the instants the code reads outside attempts. The list is an arbitrary
  argument of every operation, and so are the functions in it that stand for other tasks. A call
  that finds its list at an end, or whose wait for a limiter or for a permit has not ended, is
  \<open>Suspended\<close>. The operations also write a trace of what they did, in order, which the theorems
  speak of. \<open>lc\<close> is \<open>str::to_lowercase\<close>, \<open>render\<close> the text of a JSON value.
\<close>

section \<open>Requests\<close>

record router_request =
  rq_model :: "string option"
  rq_messages :: "chat_message list"
  rq_tools :: "tool_definition list"
  rq_temperature :: "rat option"
  rq_max_tokens :: "32 word option"
  rq_agent_id :: "string option"
  rq_task_id :: "string option"
  rq_tool_choice :: "tool_choice option"
  rq_tools_token_estimate :: "32 word option"
  rq_enable_caching :: bool
  rq_thinking :: "thinking_config option"
  rq_context_management :: "context_management option"
  rq_fallback_models :: "string list"
  rq_ephemeral_system_notice :: "string option"

definition chat_request_of :: "string \<Rightarrow> router_request \<Rightarrow> chat_request" where
  "chat_request_of model rq =
     \<lparr>cr_messages = rq_messages rq, cr_tools = rq_tools rq, cr_model = Some model,
      cr_temperature = rq_temperature rq, cr_max_tokens = rq_max_tokens rq,
      cr_tool_choice = rq_tool_choice rq, cr_enable_caching = rq_enable_caching rq,
      cr_thinking = rq_thinking rq, cr_context_management = rq_context_management rq,
      cr_ephemeral_system_notice = rq_ephemeral_system_notice rq\<rparr>"

text \<open>The estimate for the limiter, in \<open>u32\<close>; \<open>as u32\<close> of an \<open>f64\<close> saturates.\<close>

fun estimate_content_part_tokens :: "content_part \<Rightarrow> 32 word" where
  "estimate_content_part_tokens (PText t) = of_nat (length t div 4)"
| "estimate_content_part_tokens (PImage src detail) = (if detail = Some ''low'' then 85 else 1590)"
| "estimate_content_part_tokens (PAudio d f) =
     of_nat (min (max ((25 * length d + 4095) div 4096) 25) (2 ^ 32 - 1))"
| "estimate_content_part_tokens (PDocument i n mime txt) =
     (case txt of None \<Rightarrow> 500 | Some t \<Rightarrow> of_nat (length t div 4))"
| "estimate_content_part_tokens (PFileRef i n mime) = 50"

definition tool_bytes :: "(json \<Rightarrow> string) \<Rightarrow> tool_definition \<Rightarrow> nat" where
  "tool_bytes render d =
     length (td_description d) + length (render (td_parameters d))
     + (case td_input_examples d of None \<Rightarrow> 0 | Some es \<Rightarrow> (\<Sum>e\<leftarrow>es. length (render e)))"

definition estimate_request_tokens :: "(json \<Rightarrow> string) \<Rightarrow> router_request \<Rightarrow> 32 word" where
  "estimate_request_tokens render rq =
     (let msg_tokens = (\<Sum>m\<leftarrow>rq_messages rq. case cm_parts m of
              Some ps \<Rightarrow> (\<Sum>p\<leftarrow>ps. estimate_content_part_tokens p)
            | None \<Rightarrow> of_nat (length (cm_content m) div 4));
          tool_tokens = (case rq_tools_token_estimate rq of
              Some n \<Rightarrow> n
            | None \<Rightarrow> of_nat ((\<Sum>d\<leftarrow>rq_tools rq. tool_bytes render d) div 4))
      in max (msg_tokens + tool_tokens) 100)"

section \<open>The world and the trace\<close>

text \<open>
  One attempt: what others did before it, the instant the key is chosen, the polls of the limiter
  (each with what others did before it), what others do while the provider answers, the answer, the
  instant it is reported, the jitter drawn, and what others do during a sleep after it.
\<close>

record tick =
  tk_before :: "llm_router \<Rightarrow> llm_router"
  tk_now :: nat
  tk_polls :: "(nat \<times> (llm_router \<Rightarrow> llm_router)) list"
  tk_flight :: "llm_router \<Rightarrow> llm_router"
  tk_answer :: "(llm_error, chat_response) res"
  tk_done :: nat
  tk_jitter :: "nat \<Rightarrow> nat"
  tk_jitter2 :: "nat \<Rightarrow> nat"
  tk_asleep :: "llm_router \<Rightarrow> llm_router"

datatype call_event =
    EvModel string  \<comment> \<open>attempts on this model begin\<close>
  | EvCall nat key_pool provider_entry key_guard chat_request
  | EvAnswer "(llm_error, chat_response) res"
  | EvCharge call_record
  | EvSleep nat
  | EvCli provider_type chat_request

datatype why = NoTick | NoInstant | LimiterBusy | NoPermit

datatype 'a flow = Return 'a | Continue | Break | Suspended why

record run =
  ru_router :: llm_router
  ru_ticks :: "tick list"
  ru_clock :: "nat list"
  ru_trace :: "call_event list"
  ru_refusals :: nat
  ru_others :: nat

definition emit :: "call_event \<Rightarrow> run \<Rightarrow> run" where
  "emit e ru = ru\<lparr>ru_trace := ru_trace ru @ [e]\<rparr>"

definition on_router :: "(llm_router \<Rightarrow> llm_router) \<Rightarrow> run \<Rightarrow> run" where
  "on_router f ru = ru\<lparr>ru_router := f (ru_router ru)\<rparr>"

definition refused :: "run \<Rightarrow> run" where
  "refused ru = ru\<lparr>ru_refusals := Suc (ru_refusals ru)\<rparr>"

definition otherwise :: "run \<Rightarrow> run" where
  "otherwise ru = ru\<lparr>ru_others := Suc (ru_others ru)\<rparr>"

type_synonym answer = "(router_error, chat_response) res"

section \<open>Shared objects\<close>

definition pool_report :: "nat \<Rightarrow> nat \<Rightarrow> string \<Rightarrow> call_result \<Rightarrow> llm_router \<Rightarrow> llm_router" where
  "pool_report a now kid result r =
     r\<lparr>ro_pools := (ro_pools r)(a := report_result now kid result (ro_pools r a))\<rparr>"

definition breaker_success :: "llm_router \<Rightarrow> llm_router" where
  "breaker_success r = r\<lparr>ro_limits := registry_report_success (ro_limits r)\<rparr>"

definition breaker_failure :: "nat \<Rightarrow> llm_router \<Rightarrow> llm_router" where
  "breaker_failure now r = r\<lparr>ro_limits := registry_report_failure now (ro_limits r)\<rparr>"

definition put_limiter :: "string \<Rightarrow> key_limiter \<Rightarrow> llm_router \<Rightarrow> llm_router" where
  "put_limiter kid l r = r\<lparr>ro_limits := (ro_limits r)\<lparr>lr_limiters := tput kid l (lr_limiters (ro_limits r))\<rparr>\<rparr>"

definition charge :: "call_record \<Rightarrow> llm_router \<Rightarrow> llm_router" where
  "charge rec r = r\<lparr>ro_costs := cost_record rec (ro_costs r)\<rparr>"

text \<open>Waiting for the limiter of a key: the polls there are, until the call may fly.\<close>

fun limiter_wait ::
  "(nat \<times> (llm_router \<Rightarrow> llm_router)) list \<Rightarrow> nat \<Rightarrow> string \<Rightarrow> limiter_phase \<Rightarrow> llm_router \<Rightarrow> limiter_phase \<times> llm_router" where
  "limiter_wait [] tokens kid ph r = (ph, r)"
| "limiter_wait ((now, others) # polls) tokens kid ph r =
     (if ph = InFlight then (ph, r)
      else let r1 = others r in
        case limiter_get kid (ro_limits r1) of
          None \<Rightarrow> (ph, r1)
        | Some l \<Rightarrow>
            let (ph', l') = limiter_step now tokens ph l
            in limiter_wait polls tokens kid ph' (put_limiter kid l' r1))"

definition release_limiter :: "string \<Rightarrow> llm_router \<Rightarrow> llm_router" where
  "release_limiter kid r =
     (case limiter_get kid (ro_limits r) of
        None \<Rightarrow> r
      | Some l \<Rightarrow> put_limiter kid (snd (limiter_release InFlight l)) r)"

section \<open>One attempt\<close>

record retry_params =
  rp_model :: string
  rp_request :: router_request
  rp_entry :: provider_entry
  rp_keyless :: "key_guard option"
  rp_max_retries :: nat
  rp_tokens :: nat
  rp_backoff_base :: nat
  rp_backoff_cap :: nat

definition nanos_per_sec :: nat where
  "nanos_per_sec = 1000000000"

definition OVERLOAD_BACKOFF_CAP :: nat where
  "OVERLOAD_BACKOFF_CAP = 10 * nanos_per_sec"

definition MAX_RATE_LIMIT_WAITS :: nat where
  "MAX_RATE_LIMIT_WAITS = 2"

definition MAX_RATE_LIMIT_WAIT :: nat where
  "MAX_RATE_LIMIT_WAIT = 30 * nanos_per_sec"

definition response_record :: "router_request \<Rightarrow> cost_tracker \<Rightarrow> chat_response \<Rightarrow> call_record" where
  "response_record rq c resp =
     (let u = rs_usage resp in
      \<lparr>rec_agent = unwrap_or (rq_agent_id rq) ''unknown'', rec_task = rq_task_id rq, rec_model = rs_model resp,
       rec_input = ug_input_tokens u, rec_output = ug_output_tokens u,
       rec_cost = calculate_cost_with_cache c (rs_model resp) (ug_input_tokens u) (ug_output_tokens u)
         (ug_cache_creation u) (ug_cache_read u),
       rec_cache_creation = ug_cache_creation u, rec_cache_read = ug_cache_read u\<rparr>)"

definition overload_wait :: "retry_params \<Rightarrow> nat \<Rightarrow> tick \<Rightarrow> nat option \<Rightarrow> nat" where
  "overload_wait p attempt t retry_after_ms =
     (let recommended = (case retry_after_ms of
            Some ms \<Rightarrow> min (ms * nanos_per_milli) (rp_backoff_cap p)
          | None \<Rightarrow> backoff_with_jitter (tk_jitter t) (rp_backoff_base p) attempt
              (min (rp_backoff_cap p) OVERLOAD_BACKOFF_CAP));
          jitter = backoff_with_jitter (tk_jitter2 t) (50 * nanos_per_milli) attempt (750 * nanos_per_milli)
      in min (recommended + jitter) (rp_backoff_cap p))"

definition sleep_after :: "tick \<Rightarrow> nat \<Rightarrow> run \<Rightarrow> run" where
  "sleep_after t d ru = on_router (tk_asleep t) (emit (EvSleep d) ru)"

definition on_success :: "retry_params \<Rightarrow> tick \<Rightarrow> key_guard \<Rightarrow> chat_response \<Rightarrow> run \<Rightarrow> answer flow \<times> run" where
  "on_success p t g resp ru =
     (let ru1 = on_router (breaker_success \<circ> pool_report (pe_pool (rp_entry p)) (tk_done t) (kg_id g) CallSuccess) ru;
          rec = response_record (rp_request p) (ro_costs (ru_router ru1)) resp;
          ru2 = emit (EvCharge rec) (on_router (charge rec) ru1)
      in (Return (case empty_completion_error resp of
             Some e \<Rightarrow> Err (LlmFail e)
           | None \<Rightarrow> Ok resp), ru2))"

definition overloaded_text :: "nat \<Rightarrow> nat option \<Rightarrow> string" where
  "overloaded_text status after =
     ''provider_overloaded(status='' @ show_nat status @ '', retry_after_ms='' @ show_nat_option after @ '')''"

definition on_failure ::
  "(string \<Rightarrow> string) \<Rightarrow> retry_params \<Rightarrow> nat \<Rightarrow> tick \<Rightarrow> key_guard \<Rightarrow> llm_error \<Rightarrow> run \<Rightarrow> answer flow \<times> run" where
  "on_failure lc p attempt t g e ru =
     (let report = pool_report (pe_pool (rp_entry p)) (tk_done t) (kg_id g);
          failure = breaker_failure (tk_done t)
      in case e of
        ERateLimited ms \<Rightarrow>
          (Continue, on_router (failure \<circ> report (CallRateLimited ms)) (otherwise ru))
      | EOverloaded status after \<Rightarrow>
          (Continue, sleep_after t (overload_wait p attempt t after)
             (on_router (failure \<circ> report (CallError (overloaded_text status after))) (otherwise ru)))
      | _ \<Rightarrow>
          if is_auth_error e then (Continue, on_router (report (CallError (llm_error_to_string e))) (refused ru))
          else if is_transient lc e then
            (Continue, sleep_after t (backoff_with_jitter (tk_jitter t) (rp_backoff_base p) attempt (rp_backoff_cap p))
               (on_router (failure \<circ> report (CallError (llm_error_to_string e))) (otherwise ru)))
          else
            (Return (Err (LlmFail e)),
             on_router (failure \<circ> report (CallError (llm_error_to_string e))) ru))"

definition with_key ::
  "(string \<Rightarrow> string) \<Rightarrow> retry_params \<Rightarrow> nat \<Rightarrow> tick \<Rightarrow> key_pool \<Rightarrow> key_guard \<Rightarrow> run \<Rightarrow> answer flow \<times> run" where
  "with_key lc p attempt t pool g ru =
     (let (_, limits) = limiter_get_or_create (tk_now t) (kg_id g) (map_option unat (kg_rate_limit g))
            (ro_limits (ru_router ru));
          (ph, r1) = limiter_wait (tk_polls t) (rp_tokens p) (kg_id g) WantPermit
            ((ru_router ru)\<lparr>ro_limits := limits\<rparr>);
          ru1 = ru\<lparr>ru_router := r1\<rparr>
      in if ph \<noteq> InFlight then (Suspended LimiterBusy, ru1)
         else
           let ru2 = on_router (tk_flight t)
                 (emit (EvCall (tk_now t) pool (rp_entry p) g (chat_request_of (rp_model p) (rp_request p))) ru1);
               ru3 = emit (EvAnswer (tk_answer t)) ru2;
               (fl, ru4) = (case tk_answer t of
                   Inr resp \<Rightarrow> on_success p t g resp ru3
                 | Inl e \<Rightarrow> on_failure lc p attempt t g e ru3)
           in (fl, on_router (release_limiter (kg_id g)) ru4))"

definition attempt_once :: "(string \<Rightarrow> string) \<Rightarrow> retry_params \<Rightarrow> nat \<Rightarrow> run \<Rightarrow> answer flow \<times> run" where
  "attempt_once lc p attempt ru =
     (case ru_ticks ru of
        [] \<Rightarrow> (Suspended NoTick, ru)
      | t # ts \<Rightarrow>
          let a = pe_pool (rp_entry p);
              r0 = tk_before t (ru_router ru);
              (got, pool') = acquire (tk_now t) (ro_pools r0 a);
              ru1 = ru\<lparr>ru_ticks := ts, ru_router := r0\<lparr>ro_pools := (ro_pools r0)(a := pool')\<rparr>\<rparr>
          in case got of
               Inr g \<Rightarrow> with_key lc p attempt t (ro_pools r0 a) g ru1
             | Inl e \<Rightarrow>
                 (case rp_keyless p of
                    Some slot \<Rightarrow> with_key lc p attempt t (ro_pools r0 a) slot ru1
                  | None \<Rightarrow>
                      if e = NoApiCompatibleKeys then (Return (Err RNoApiCompatibleKeys), ru1)
                      else (Break, otherwise ru1)))"

section \<open>Retrying one model\<close>

fun attempts :: "(string \<Rightarrow> string) \<Rightarrow> retry_params \<Rightarrow> nat list \<Rightarrow> run \<Rightarrow> answer flow \<times> run" where
  "attempts lc p [] ru = (Break, ru)"
| "attempts lc p (a # as) ru =
     (case attempt_once lc p a ru of
        (Continue, ru') \<Rightarrow> attempts lc p as ru'
      | (fl, ru') \<Rightarrow> (fl, ru'))"

text \<open>The rounds with a cooldown wait between them; the number is how many waits are left.\<close>

fun rounds :: "(string \<Rightarrow> string) \<Rightarrow> retry_params \<Rightarrow> nat \<Rightarrow> run \<Rightarrow> answer flow \<times> run" where
  "rounds lc p left ru =
     (case attempts lc p [0..<rp_max_retries p] ru of
        (Break, ru1) \<Rightarrow>
          if 0 < ru_refusals ru1 \<and> ru_others ru1 = 0 then (Return (Err AllKeysRefused), ru1)
          else (case left of
              0 \<Rightarrow> (Return (Err MaxRetriesExceeded), ru1)
            | Suc left' \<Rightarrow>
                (case ru_clock ru1 of
                   [] \<Rightarrow> (Suspended NoInstant, ru1)
                 | now # later \<Rightarrow>
                     let ru2 = ru1\<lparr>ru_clock := later\<rparr> in
                     (case shortest_cooldown now (ro_pools (ru_router ru2) (pe_pool (rp_entry p))) of
                        None \<Rightarrow> (Return (Err MaxRetriesExceeded), ru2)
                      | Some d \<Rightarrow> rounds lc p left' (emit (EvSleep (min d MAX_RATE_LIMIT_WAIT)) ru2))))
      | (fl, ru1) \<Rightarrow> (fl, ru1))"

declare rounds.simps [simp del]

definition params_for ::
  "(json \<Rightarrow> string) \<Rightarrow> provider_entry \<Rightarrow> string \<Rightarrow> router_request \<Rightarrow> llm_router \<Rightarrow> retry_params" where
  "params_for render e model rq r =
     (let pool = ro_pools r (pe_pool e);
          cfg = lr_config (ro_limits r)
      in \<lparr>rp_model = model, rp_request = rq, rp_entry = e,
          rp_keyless = (if kp_keys pool = [] \<and> \<not> pe_requires_key e then Some (keyless_slot (pe_name e)) else None),
          rp_max_retries = max (length (kp_keys pool)) (rc_max_transient_retries cfg),
          rp_tokens = unat (estimate_request_tokens render rq),
          rp_backoff_base = rc_backoff_base_ms cfg * nanos_per_milli,
          rp_backoff_cap = rc_backoff_cap_ms cfg * nanos_per_milli\<rparr>)"

definition execute_with_retry ::
  "(string \<Rightarrow> string) \<Rightarrow> (json \<Rightarrow> string) \<Rightarrow> provider_entry \<Rightarrow> string \<Rightarrow> router_request \<Rightarrow> run \<Rightarrow> answer flow \<times> run" where
  "execute_with_retry lc render e model rq ru =
     (case ru_clock ru of
        [] \<Rightarrow> (Suspended NoInstant, ru)
      | now # later \<Rightarrow>
          let (verdict, limits) = check_circuit now (ro_limits (ru_router ru));
              ru1 = ru\<lparr>ru_clock := later, ru_router := (ru_router ru)\<lparr>ro_limits := limits\<rparr>,
                       ru_refusals := 0, ru_others := 0\<rparr>
          in if verdict = Err ApiOpen then (Return (Err MaxRetriesExceeded), ru1)
             else rounds lc (params_for render e model rq (ru_router ru1)) MAX_RATE_LIMIT_WAITS ru1)"

definition try_model ::
  "(string \<Rightarrow> string) \<Rightarrow> (json \<Rightarrow> string) \<Rightarrow> string \<Rightarrow> router_request \<Rightarrow> run \<Rightarrow> answer flow \<times> run" where
  "try_model lc render model rq ru =
     (case resolve_provider (ro_registry (ru_router ru)) model of
        None \<Rightarrow> (Return (Err (UnknownModel model)), ru)
      | Some pt \<Rightarrow>
          (case provider_entry_of (ru_router ru) pt of
             None \<Rightarrow> (Return (Err (ProviderNotConfigured (provider_to_string pt))), ru)
           | Some e \<Rightarrow> execute_with_retry lc render e model rq (emit (EvModel model) ru)))"

section \<open>The fallback ladder\<close>

fun try_ladder ::
  "(string \<Rightarrow> string) \<Rightarrow> (json \<Rightarrow> string) \<Rightarrow> string \<Rightarrow> router_request \<Rightarrow> string list \<Rightarrow> run \<Rightarrow> answer flow \<times> run" where
  "try_ladder lc render original rq [] ru = (Continue, ru)"
| "try_ladder lc render original rq (m # ms) ru =
     (if \<not> is_routable (ru_router ru) m then try_ladder lc render original rq ms ru
      else case try_model lc render m rq ru of
          (Return (Inr resp), ru') \<Rightarrow> (Return (Ok resp), on_router (note_substitution original m) ru')
        | (Return (Inl _), ru') \<Rightarrow> try_ladder lc render original rq ms ru'
        | (fl, ru') \<Rightarrow> (fl, ru'))"

definition CLI_MAX_PROMPT_BYTES :: nat where
  "CLI_MAX_PROMPT_BYTES = 16 * 1024"

definition truncate_messages_for_cli :: "chat_message list \<Rightarrow> chat_message list" where
  "truncate_messages_for_cli ms =
     (if ms = [] then []
      else
        let total = (\<Sum>m\<leftarrow>ms. length (cm_content m) + 20) in
        if total \<le> CLI_MAX_PROMPT_BYTES then ms
        else
          let kept = min 2 (length ms - 1);
              dropped = length ms - (1 + kept)
          in hd ms
             # (if 0 < dropped
                then [msg_user (''[... '' @ show_nat dropped
                  @ '' earlier messages omitted for CLI fallback (total history was ''
                  @ show_nat (total div 1024) @ ''KB) ...]'')]
                else [])
             @ drop (length ms - kept) ms)"

definition flatten_message :: "chat_message \<Rightarrow> string" where
  "flatten_message m =
     (case cm_role m of
        RSystem \<Rightarrow> ''[System] '' @ cm_content m
      | RUser \<Rightarrow> cm_content m
      | RAssistant \<Rightarrow> ''[Assistant] '' @ cm_content m
      | RTool \<Rightarrow> ''[Tool] '' @ cm_content m)"

definition flatten_messages :: "chat_message list \<Rightarrow> string" where
  "flatten_messages ms = join [CHR 0x0A] (map flatten_message ms)"

definition cli_request :: "string \<Rightarrow> router_request \<Rightarrow> chat_request" where
  "cli_request original rq =
     \<lparr>cr_messages = [msg_user (flatten_messages (truncate_messages_for_cli (rq_messages rq)))], cr_tools = [],
      cr_model = Some original, cr_temperature = rq_temperature rq, cr_max_tokens = rq_max_tokens rq,
      cr_tool_choice = None, cr_enable_caching = False, cr_thinking = None, cr_context_management = None,
      cr_ephemeral_system_notice = None\<rparr>"

definition cli_record :: "string \<Rightarrow> router_request \<Rightarrow> call_record" where
  "cli_record original rq =
     \<lparr>rec_agent = unwrap_or (rq_agent_id rq) ''unknown'', rec_task = rq_task_id rq,
      rec_model = original @ ''_cli'', rec_input = 0, rec_output = 0, rec_cost = 0, rec_cache_creation = 0,
      rec_cache_read = 0\<rparr>"

definition no_answer :: "run \<Rightarrow> router_error" where
  "no_answer ru =
     (if effective_default_model (ru_router ru) = None then NoRoutableModel else AllFallbacksFailed)"

definition try_cli :: "string \<Rightarrow> router_request \<Rightarrow> run \<Rightarrow> answer flow \<times> run" where
  "try_cli original rq ru =
     (case resolve_provider (ro_registry (ru_router ru)) original of
        None \<Rightarrow> (Return (Err (no_answer ru)), ru)
      | Some pt \<Rightarrow>
          if \<not> has_provider (ru_router ru) pt \<or> \<not> has_cli_backend (ru_router ru) pt
          then (Return (Err (no_answer ru)), ru)
          else (case ru_ticks ru of
              [] \<Rightarrow> (Suspended NoTick, ru)
            | t # ts \<Rightarrow>
                let ru1 = on_router (tk_flight t) (emit (EvCli pt (cli_request original rq)) (ru\<lparr>ru_ticks := ts\<rparr>));
                    ru2 = emit (EvAnswer (tk_answer t)) ru1
                in case tk_answer t of
                     Inr resp \<Rightarrow>
                       (Return (Ok resp),
                        emit (EvCharge (cli_record original rq)) (on_router (charge (cli_record original rq)) ru2))
                   | Inl _ \<Rightarrow> (Return (Err (no_answer ru2)), ru2)))"

definition try_fallback ::
  "(string \<Rightarrow> string) \<Rightarrow> (json \<Rightarrow> string) \<Rightarrow> string \<Rightarrow> router_request \<Rightarrow> run \<Rightarrow> answer flow \<times> run" where
  "try_fallback lc render original rq ru =
     (case try_ladder lc render original rq
             (substitution_ladder (ru_router ru) original (rq_fallback_models rq)) ru of
        (Continue, ru') \<Rightarrow> try_cli original rq ru'
      | (fl, ru') \<Rightarrow> (fl, ru'))"

section \<open>A completion\<close>

definition take_permit :: "run \<Rightarrow> run" where
  "take_permit = on_router (\<lambda>r. r\<lparr>ro_permits := ro_permits r - 1\<rparr>)"

definition give_permit :: "run \<Rightarrow> run" where
  "give_permit = on_router (\<lambda>r. r\<lparr>ro_permits := ro_permits r + 1\<rparr>)"

text \<open>The error of the first model that outlives a ladder on which nothing answered.\<close>

definition keep_error :: "router_error \<Rightarrow> answer flow \<times> run \<Rightarrow> answer flow \<times> run" where
  "keep_error e out =
     (case out of
        (Return (Inl AllFallbacksFailed), ru) \<Rightarrow> (Return (Err e), ru)
      | _ \<Rightarrow> out)"

definition after_first ::
  "(string \<Rightarrow> string) \<Rightarrow> (json \<Rightarrow> string) \<Rightarrow> string \<Rightarrow> router_request \<Rightarrow> router_error \<Rightarrow> run \<Rightarrow> answer flow \<times> run" where
  "after_first lc render model rq e ru =
     (case e of
        RNoApiCompatibleKeys \<Rightarrow> keep_error e (try_fallback lc render model rq ru)
      | AllKeysRefused \<Rightarrow> keep_error e (try_fallback lc render model rq ru)
      | RAllKeysRateLimited \<Rightarrow> try_fallback lc render model rq ru
      | MaxRetriesExceeded \<Rightarrow> try_fallback lc render model rq ru
      | UnknownModel _ \<Rightarrow> try_fallback lc render model rq ru
      | ProviderNotConfigured _ \<Rightarrow> try_fallback lc render model rq ru
      | LlmFail x \<Rightarrow> if is_transient lc x then try_fallback lc render model rq ru else (Return (Err e), ru)
      | _ \<Rightarrow> (Return (Err e), ru))"

text \<open>\<open>waited\<close> is what others do while the permit is waited for; without it the wait has not ended.\<close>

definition complete ::
  "(string \<Rightarrow> string) \<Rightarrow> (json \<Rightarrow> string) \<Rightarrow> (llm_router \<Rightarrow> llm_router) option \<Rightarrow> router_request \<Rightarrow> run \<Rightarrow> answer flow \<times> run" where
  "complete lc render waited rq ru =
     (let requested = unwrap_or (rq_model rq) (ro_default_model (ru_router ru)) in
      case resolve_routable requested (rq_fallback_models rq) (ru_router ru) of
        (None, r) \<Rightarrow> (Return (Err NoRoutableModel), ru\<lparr>ru_router := r\<rparr>)
      | (Some model, r) \<Rightarrow>
          (case waited of
             None \<Rightarrow> (Suspended NoPermit, ru\<lparr>ru_router := r\<rparr>)
           | Some others \<Rightarrow>
               let ru1 = ru\<lparr>ru_router := others r\<rparr> in
               if ro_permits (ru_router ru1) = 0 then (Suspended NoPermit, ru1)
               else
                 let (fl, ru2) = try_model lc render model rq (take_permit ru1);
                     (fl', ru3) = (case fl of
                         Return (Inl e) \<Rightarrow> after_first lc render model rq e ru2
                       | _ \<Rightarrow> (fl, ru2))
                 in (fl', case fl' of Suspended _ \<Rightarrow> ru3 | _ \<Rightarrow> give_permit ru3)))"


section \<open>Starting a stream\<close>

text \<open>
  A stream is started with the keys in rotation, without the limiter and the breaker; an \<open>Ok\<close>
  answer stands for the stream, of which the caller gets the model that serves it. The permit goes
  into the stream and is given back when that ends.
\<close>

type_synonym routed = "(router_error, string) res"

fun stream_attempts ::
  "retry_params \<Rightarrow> nat \<Rightarrow> run \<Rightarrow> routed flow \<times> run" where
  "stream_attempts p 0 ru = (Break, ru)"
| "stream_attempts p (Suc n) ru =
     (case ru_ticks ru of
        [] \<Rightarrow> (Suspended NoTick, ru)
      | t # ts \<Rightarrow>
          let a = pe_pool (rp_entry p);
              r0 = tk_before t (ru_router ru);
              (got, pool') = acquire (tk_now t) (ro_pools r0 a);
              ru1 = ru\<lparr>ru_ticks := ts, ru_router := r0\<lparr>ro_pools := (ro_pools r0)(a := pool')\<rparr>\<rparr>
          in case (case got of Inr g \<Rightarrow> Ok g | Inl e \<Rightarrow> (case rp_keyless p of Some g \<Rightarrow> Ok g | None \<Rightarrow> Err e)) of
               Inl e \<Rightarrow>
                 (Return (Err (if e = NoApiCompatibleKeys then RNoApiCompatibleKeys else RAllKeysRateLimited)), ru1)
             | Inr g \<Rightarrow>
                 let ru2 = emit (EvAnswer (tk_answer t)) (on_router (tk_flight t)
                       (emit (EvCall (tk_now t) (ro_pools r0 a) (rp_entry p) g
                         (chat_request_of (rp_model p) (rp_request p))) ru1))
                 in (case tk_answer t of
                       Inr _ \<Rightarrow> (Return (Ok (rp_model p)), ru2)
                     | Inl e \<Rightarrow>
                         (case e of
                            ERateLimited ms \<Rightarrow>
                              stream_attempts p n
                                (on_router (pool_report a (tk_done t) (kg_id g) (CallRateLimited ms)) ru2)
                          | _ \<Rightarrow>
                              if is_auth_error e then
                                stream_attempts p n
                                  (on_router (pool_report a (tk_done t) (kg_id g) (CallError (llm_error_to_string e)))
                                    (refused ru2))
                              else (Return (Err (LlmFail e)), ru2))))"

definition complete_streaming ::
  "(json \<Rightarrow> string) \<Rightarrow> (llm_router \<Rightarrow> llm_router) option \<Rightarrow> router_request \<Rightarrow> run \<Rightarrow> routed flow \<times> run" where
  "complete_streaming render waited rq ru =
     (case waited of
        None \<Rightarrow> (Suspended NoPermit, ru)
      | Some others \<Rightarrow>
          let ru1 = on_router others ru in
          if ro_permits (ru_router ru1) = 0 then (Suspended NoPermit, ru1)
          else
            let ru2 = (take_permit ru1)\<lparr>ru_refusals := 0, ru_others := 0\<rparr>;
                requested = unwrap_or (rq_model rq) (ro_default_model (ru_router ru2));
                (m, r) = resolve_routable requested (rq_fallback_models rq) (ru_router ru2);
                ru3 = ru2\<lparr>ru_router := r\<rparr>
            in case m of
                 None \<Rightarrow> (Return (Err NoRoutableModel), give_permit ru3)
               | Some model \<Rightarrow>
                   (case resolve_provider (ro_registry r) model of
                      None \<Rightarrow> (Return (Err (UnknownModel model)), give_permit ru3)
                    | Some pt \<Rightarrow>
                        (case provider_entry_of r pt of
                           None \<Rightarrow> (Return (Err (ProviderNotConfigured (provider_to_string pt))), give_permit ru3)
                         | Some e \<Rightarrow>
                             let p = params_for render e model rq r;
                                 keys = length (kp_keys (ro_pools r (pe_pool e)));
                                 max_attempts = (if rp_keyless p \<noteq> None then 1 else min keys 3)
                             in (case stream_attempts p max_attempts ru3 of
                                   (Break, ru4) \<Rightarrow>
                                     (Return (Err (if ru_refusals ru4 = max_attempts \<and> max keys 1 \<le> max_attempts
                                        then AllKeysRefused else RAllKeysRateLimited)), give_permit ru4)
                                 | (Return (Inl err), ru4) \<Rightarrow> (Return (Err err), give_permit ru4)
                                 | out \<Rightarrow> out))))"

end
