(* ===== verification/Router_Laws.thy ===== *)
theory Router_Laws
  imports Router_Call
begin

text \<open>
  What the router promises. The steps of a call are summarised as relations, \<open>attempted\<close> for one
  attempt and \<open>retrying\<close> for the rounds on one model, that forget what the theorems do not speak
  of; the properties are then rule inductions over them. Everything holds for every world: whatever
  the providers answer, whenever, and whatever other tasks do to the router between two steps.
\<close>

section \<open>Which model\<close>

definition router_ok :: "llm_router \<Rightarrow> bool" where
  "router_ok r = mr_ok (ro_registry r)"

lemma find_map_None: "find_map f xs = None \<longleftrightarrow> (\<forall>x\<in>set xs. f x = None)"
  by (induction xs) (auto split: option.splits)

lemma find_map_Some: "find_map f xs = Some y \<Longrightarrow> \<exists>x\<in>set xs. f x = Some y"
  by (induction xs) (auto split: option.splits)

lemma in_preference_order: "p \<in> set (provider_preference_order r) \<longleftrightarrow> has_provider r p"
proof -
  have "p \<in> set (tkeys (ro_providers r)) \<longleftrightarrow> has_provider r p"
    by (simp add: has_provider_def tkeys_iff del: set_map)
  then show ?thesis
    by (cases "p \<in> set provider_all") (auto simp: provider_preference_order_def Let_def simp del: set_map)
qed

lemma provider_default_routable: "provider_default_model r p = Some m \<Longrightarrow> is_routable r m"
  by (auto simp: provider_default_model_def split: option.splits if_splits)

lemma provider_default_exists:
  assumes "router_ok r" and "has_provider r p" and "resolve_provider (ro_registry r) i = Some p"
  shows "provider_default_model r p \<noteq> None"
proof -
  have ok: "mr_ok (ro_registry r)" using assms(1) by (simp add: router_ok_def)
  obtain m where m: "first_model_for_provider p (ro_registry r) = Some m"
    using first_model_exact(2) [OF ok, of p] assms(3) by (metis not_None_eq)
  then have "resolve_provider (ro_registry r) m = Some p"
    using first_model_exact(1) [OF ok, of p m] by (auto simp: resolve_by_info)
  then have "is_routable r m" using assms(2) by (simp add: is_routable_def)
  with m show ?thesis by (simp add: provider_default_model_def split: option.splits)
qed

lemma effective_default_routable: "effective_default_model r = Some m \<Longrightarrow> is_routable r m"
  using find_map_Some [of "provider_default_model r"] provider_default_routable
  by (fastforce simp: effective_default_model_def split: if_splits)

lemma effective_default_None:
  assumes "router_ok r"
  shows "effective_default_model r = None \<longleftrightarrow> (\<forall>m. \<not> is_routable r m)"
proof
  assume none: "effective_default_model r = None"
  show "\<forall>m. \<not> is_routable r m"
  proof (intro allI notI)
    fix m
    assume "is_routable r m"
    then obtain p where p: "resolve_provider (ro_registry r) m = Some p" "has_provider r p"
      by (auto simp: is_routable_def split: option.splits)
    then have "provider_default_model r p \<noteq> None" using provider_default_exists assms by blast
    moreover have "p \<in> set (provider_preference_order r)" using p by (simp add: in_preference_order)
    ultimately show False
      using none by (auto simp: effective_default_model_def find_map_None split: if_splits)
  qed
next
  assume "\<forall>m. \<not> is_routable r m"
  then show "effective_default_model r = None"
    using effective_default_routable by (metis not_None_eq)
qed

lemma push_all:
  "distinct ch \<Longrightarrow> requested \<notin> set ch \<Longrightarrow>
   distinct (foldl (push_unique requested) ch ms)
   \<and> set (foldl (push_unique requested) ch ms) = set ch \<union> (set ms - {requested})"
  by (induction ms arbitrary: ch) (auto simp: push_unique_def)

lemma ladder_exact:
  "distinct (substitution_ladder r requested rc)"
  "set (substitution_ladder r requested rc) =
     (set rc \<union> set (unwrap_or (tget (ro_fallback_chains r) requested) [])
        \<union> set (unwrap_or (tget (ro_fallback_chains r) (ro_default_model r)) [])
        \<union> set_option (effective_default_model r)) - {requested}"
proof -
  let ?p = "\<lambda>ms ch. foldl (push_unique requested) ch ms"
  let ?a = "?p rc []"
  let ?b = "?p (unwrap_or (tget (ro_fallback_chains r) requested) []) ?a"
  let ?c = "?p (unwrap_or (tget (ro_fallback_chains r) (ro_default_model r)) []) ?b"
  have a: "distinct ?a" "set ?a = set rc - {requested}" using push_all [of "[]" requested rc] by auto
  have b: "distinct ?b" "requested \<notin> set ?b"
      "set ?b = set ?a \<union> (set (unwrap_or (tget (ro_fallback_chains r) requested) []) - {requested})"
    using push_all [OF a(1), of requested "unwrap_or (tget (ro_fallback_chains r) requested) []"] a(2) by auto
  have c: "distinct ?c" "requested \<notin> set ?c"
      "set ?c = set ?b \<union> (set (unwrap_or (tget (ro_fallback_chains r) (ro_default_model r)) []) - {requested})"
    using push_all [OF b(1,2), of "unwrap_or (tget (ro_fallback_chains r) (ro_default_model r)) []"] b(2) by auto
  have d: "set (case effective_default_model r of None \<Rightarrow> [] | Some m \<Rightarrow> [m]) = set_option (effective_default_model r)"
    by (cases "effective_default_model r") simp_all
  show "distinct (substitution_ladder r requested rc)"
    using push_all [OF c(1,2)] by (simp add: substitution_ladder_def Let_def)
  show "set (substitution_ladder r requested rc) =
     (set rc \<union> set (unwrap_or (tget (ro_fallback_chains r) requested) [])
        \<union> set (unwrap_or (tget (ro_fallback_chains r) (ro_default_model r)) [])
        \<union> set_option (effective_default_model r)) - {requested}"
    using push_all [OF c(1,2), of "case effective_default_model r of None \<Rightarrow> [] | Some m \<Rightarrow> [m]"]
    unfolding d b c a by (auto simp: substitution_ladder_def Let_def)
qed

text \<open>Routing fails only when nothing can be served: a request is turned away as not routable
  exactly when no model of the catalogue belongs to a loaded provider, whatever it named; otherwise it
  is sent as the model it named, when that can be called, and else as the first callable rung of the
  ladder, which holds each substitute once and never the model it stands in for.\<close>

theorem routing_total:
  assumes "router_ok r"
  shows "(fst (resolve_routable requested rc r) = None \<longleftrightarrow> (\<forall>m. \<not> is_routable r m))
    \<and> (\<forall>m. fst (resolve_routable requested rc r) = Some m \<longrightarrow>
         is_routable r m
         \<and> m = (if is_routable r requested then requested
                else the (List.find (is_routable r) (substitution_ladder r requested rc))))
    \<and> distinct (requested # substitution_ladder r requested rc)"
proof (intro conjI)
  let ?l = "substitution_ladder r requested rc"
  have none: "List.find (is_routable r) ?l = None \<longleftrightarrow> (\<forall>m. \<not> is_routable r m)"
    if "\<not> is_routable r requested"
  proof
    assume nf: "List.find (is_routable r) ?l = None"
    have "effective_default_model r = None"
    proof (rule ccontr)
      assume "effective_default_model r \<noteq> None"
      then obtain m where m: "effective_default_model r = Some m" by auto
      then have rt: "is_routable r m" by (rule effective_default_routable)
      then have "m \<in> set ?l" using m that by (auto simp: ladder_exact(2))
      with nf rt show False by (auto simp: find_None_iff_all)
    qed
    then show "\<forall>m. \<not> is_routable r m" using effective_default_None [OF assms] by blast
  qed (auto simp: find_None_iff_all)
  show "fst (resolve_routable requested rc r) = None \<longleftrightarrow> (\<forall>m. \<not> is_routable r m)"
    using none by (auto simp: resolve_routable_def dest: find_SomeD split: option.splits)
  show "\<forall>m. fst (resolve_routable requested rc r) = Some m \<longrightarrow>
         is_routable r m
         \<and> m = (if is_routable r requested then requested else the (List.find (is_routable r) ?l))"
    by (auto simp: resolve_routable_def dest: find_SomeD split: option.splits if_splits)
  show "distinct (requested # ?l)" using ladder_exact by simp
qed


section \<open>One attempt\<close>

definition router_of_two :: llm_router where
  "router_of_two =
     new_with_runtime [(Ollama, ''ollama'', False, key_pool_new [] RoundRobin)]
       (model_registry_new [(''qwen'', (gpt_row 0 0)\<lparr>mi_provider := Ollama\<rparr>), (''o3'', reasoning_row True 10 40)])
       [] (cost_tracker_new with_defaults) ''o3'' [] rate_limit_config_default"

lemma routing_total_witness:
  "fst (resolve_routable ''o3'' [] router_of_two) = Some ''qwen''"
proof -
  have reg: "ro_registry router_of_two =
    model_registry_new [(''qwen'', (gpt_row 0 0)\<lparr>mi_provider := Ollama\<rparr>), (''o3'', reasoning_row True 10 40)]"
    by (simp add: router_of_two_def new_with_runtime_def ro_registry_def use_registry_def)
  have ok: "router_ok router_of_two"
    by (simp add: router_ok_def reg mr_ok_def table_ok_def model_registry_new_def)
  have has: "has_provider router_of_two p \<longleftrightarrow> p = Ollama" for p
    by (simp add: has_provider_def router_of_two_def new_with_runtime_def)
  have rt: "is_routable router_of_two m \<longleftrightarrow> m = ''qwen''" for m
    by (simp add: is_routable_def reg resolve_provider_def model_registry_new_def has gpt_row_def reasoning_row_def)
  from routing_total [OF ok, of "''o3''" "[]"] show ?thesis
    using rt by (cases "fst (resolve_routable ''o3'' [] router_of_two)") auto
qed

text \<open>A key may be used when the pool offers it, and a keyless slot when the pool offers none.\<close>

definition offered :: "retry_params \<Rightarrow> nat \<Rightarrow> key_pool \<Rightarrow> key_guard \<Rightarrow> bool" where
  "offered p now pool g =
     (if \<exists>k\<in>set (kp_keys pool). is_api_compatible_key k \<and> key_available now k
      then \<exists>k\<in>set (kp_keys pool). is_api_compatible_key k \<and> key_available now k \<and> g = guard_of k
      else rp_keyless p = Some g)"

abbreviation call_of :: "retry_params \<Rightarrow> nat \<Rightarrow> key_pool \<Rightarrow> key_guard \<Rightarrow> call_event" where
  "call_of p now pool g \<equiv> EvCall now pool (rp_entry p) g (chat_request_of (rp_model p) (rp_request p))"

definition same_tally :: "run \<Rightarrow> run \<Rightarrow> bool" where
  "same_tally ru ru' = (ru_refusals ru' = ru_refusals ru \<and> ru_others ru' = ru_others ru)"

inductive attempted ::
  "(string \<Rightarrow> string) \<Rightarrow> retry_params \<Rightarrow> run \<Rightarrow> answer flow \<Rightarrow> run \<Rightarrow> bool" for lc p where
  at_suspended:
    "ru_trace ru' = ru_trace ru \<Longrightarrow> same_tally ru ru' \<Longrightarrow> w = NoTick \<longleftrightarrow> ru_ticks ru = [] \<Longrightarrow>
     w = NoTick \<or> w = LimiterBusy \<Longrightarrow> attempted lc p ru (Suspended w) ru'"
| at_no_key:
    "ru_trace ru' = ru_trace ru \<Longrightarrow> ru_others ru' = Suc (ru_others ru) \<Longrightarrow> ru_refusals ru' = ru_refusals ru \<Longrightarrow>
     rp_keyless p = None \<Longrightarrow> attempted lc p ru Break ru'"
| at_incompatible:
    "ru_trace ru' = ru_trace ru \<Longrightarrow> same_tally ru ru' \<Longrightarrow> rp_keyless p = None \<Longrightarrow>
     attempted lc p ru (Return (Err RNoApiCompatibleKeys)) ru'"
| at_answered:
    "offered p now pool g \<Longrightarrow> ru_trace ru' = ru_trace ru @ [call_of p now pool g, EvAnswer (Ok resp), EvCharge rec] \<Longrightarrow>
     same_tally ru ru' \<Longrightarrow> empty_completion_error resp = None \<Longrightarrow> attempted lc p ru (Return (Ok resp)) ru'"
| at_empty:
    "offered p now pool g \<Longrightarrow> ru_trace ru' = ru_trace ru @ [call_of p now pool g, EvAnswer (Ok resp), EvCharge rec] \<Longrightarrow>
     same_tally ru ru' \<Longrightarrow> empty_completion_error resp = Some e \<Longrightarrow> attempted lc p ru (Return (Err (LlmFail e))) ru'"
| at_refused:
    "offered p now pool g \<Longrightarrow> is_auth_error e \<Longrightarrow> ru_trace ru' = ru_trace ru @ [call_of p now pool g, EvAnswer (Err e)] \<Longrightarrow>
     ru_refusals ru' = Suc (ru_refusals ru) \<Longrightarrow> ru_others ru' = ru_others ru \<Longrightarrow> attempted lc p ru Continue ru'"
| at_transient:
    "offered p now pool g \<Longrightarrow> is_transient lc e \<Longrightarrow>
     ru_trace ru' = ru_trace ru @ [call_of p now pool g, EvAnswer (Err e)] @ map EvSleep ds \<Longrightarrow>
     ru_refusals ru' = ru_refusals ru \<Longrightarrow> ru_others ru' = Suc (ru_others ru) \<Longrightarrow> attempted lc p ru Continue ru'"
| at_failed:
    "offered p now pool g \<Longrightarrow> \<not> is_transient lc e \<Longrightarrow> \<not> is_auth_error e \<Longrightarrow>
     ru_trace ru' = ru_trace ru @ [call_of p now pool g, EvAnswer (Err e)] \<Longrightarrow> same_tally ru ru' \<Longrightarrow>
     attempted lc p ru (Return (Err (LlmFail e))) ru'"

lemmas run_defs = emit_def on_router_def refused_def otherwise_def sleep_after_def same_tally_def

lemma with_key_kept:
  assumes "with_key lc p a t pool g ru = (fl, ru')"
  shows "ru_ticks ru' = ru_ticks ru" and "ru_clock ru' = ru_clock ru"
proof -
  obtain b limits where gl: "limiter_get_or_create (tk_now t) (kg_id g) (map_option unat (kg_rate_limit g))
      (ro_limits (ru_router ru)) = (b, limits)" by force
  obtain ph r1 where wt: "limiter_wait (tk_polls t) (rp_tokens p) (kg_id g) WantPermit
      ((ru_router ru)\<lparr>ro_limits := limits\<rparr>) = (ph, r1)" by force
  show "ru_ticks ru' = ru_ticks ru" and "ru_clock ru' = ru_clock ru"
    using assms gl wt
    by (auto simp: with_key_def Let_def on_success_def on_failure_def run_defs split: if_splits sum.splits llm_error.splits)
qed

lemma with_key_attempted:
  assumes "with_key lc p a t pool g ru = (fl, ru')" and "offered p (tk_now t) pool g" and "ru_ticks ru0 \<noteq> []"
    and "ru_trace ru = ru_trace ru0" and "same_tally ru0 ru"
  shows "attempted lc p ru0 fl ru'"
proof -
  obtain b limits where gl: "limiter_get_or_create (tk_now t) (kg_id g) (map_option unat (kg_rate_limit g))
      (ro_limits (ru_router ru)) = (b, limits)" by force
  obtain ph r1 where wt: "limiter_wait (tk_polls t) (rp_tokens p) (kg_id g) WantPermit
      ((ru_router ru)\<lparr>ro_limits := limits\<rparr>) = (ph, r1)" by force
  show ?thesis
  proof (cases "ph = InFlight")
    case False
    then have "fl = Suspended LimiterBusy \<and> ru_trace ru' = ru_trace ru0 \<and> same_tally ru0 ru'"
      using assms(1,4,5) gl wt by (auto simp: with_key_def Let_def same_tally_def)
    then show ?thesis using assms(3) by (auto intro: at_suspended)
  next
    case True
    note step = assms(1) [unfolded with_key_def Let_def gl wt prod.case if_not_P]
    show ?thesis
    proof (cases "tk_answer t")
      case (Inr resp)
      show ?thesis
      proof (cases "empty_completion_error resp")
        case None
        then show ?thesis
          using step True Inr assms(2,4,5)
          by (auto simp: on_success_def Let_def run_defs intro!: at_answered)
      next
        case (Some e)
        then show ?thesis
          using step True Inr assms(2,4,5)
          by (auto simp: on_success_def Let_def run_defs intro!: at_empty)
      qed
    next
      case (Inl e)
      show ?thesis
      proof (cases "is_transient lc e")
        case tr: True
        then have na: "\<not> is_auth_error e" by (rule transient_not_auth)
        obtain ds where "fl = Continue \<and> ru_trace ru' = ru_trace ru0 @ [call_of p (tk_now t) pool g, EvAnswer (Err e)] @ map EvSleep ds
            \<and> ru_refusals ru' = ru_refusals ru0 \<and> ru_others ru' = Suc (ru_others ru0)"
        proof (cases "\<exists>ms. e = ERateLimited ms")
          case True
          then show ?thesis
            using step \<open>ph = InFlight\<close> Inl assms(4,5) by (intro that [of "[]"]) (auto simp: on_failure_def Let_def run_defs)
        next
          case False
          show ?thesis
          proof (cases e)
            case (EOverloaded s af)
            then show ?thesis
              using step \<open>ph = InFlight\<close> Inl assms(4,5)
              by (intro that [of "[overload_wait p a t af]"]) (auto simp: on_failure_def Let_def run_defs)
          qed (use step \<open>ph = InFlight\<close> Inl assms(4,5) False tr na
              in \<open>auto simp: on_failure_def Let_def run_defs
                intro!: that [of "[backoff_with_jitter (tk_jitter t) (rp_backoff_base p) a (rp_backoff_cap p)]"]\<close>)
        qed
        then show ?thesis using assms(2) tr by (auto intro: at_transient)
      next
        case nt: False
        then have kinds: "\<nexists>ms. e = ERateLimited ms" "\<nexists>s af. e = EOverloaded s af" by auto
        show ?thesis
        proof (cases "is_auth_error e")
          case au: True
          then have "fl = Continue \<and> ru_trace ru' = ru_trace ru0 @ [call_of p (tk_now t) pool g, EvAnswer (Err e)]
            \<and> ru_refusals ru' = Suc (ru_refusals ru0) \<and> ru_others ru' = ru_others ru0"
            using step \<open>ph = InFlight\<close> Inl assms(4,5) kinds
            by (auto simp: on_failure_def Let_def run_defs split: llm_error.splits)
          then show ?thesis using assms(2) au by (auto intro: at_refused)
        next
          case na: False
          then have "fl = Return (Err (LlmFail e))
            \<and> ru_trace ru' = ru_trace ru0 @ [call_of p (tk_now t) pool g, EvAnswer (Err e)] \<and> same_tally ru0 ru'"
            using step \<open>ph = InFlight\<close> Inl assms(4,5) kinds nt
            by (auto simp: on_failure_def Let_def run_defs split: llm_error.splits)
          then show ?thesis using assms(2) na nt by (auto intro: at_failed)
        qed
      qed
    qed
  qed
qed


lemma attempt_once_attempted:
  assumes "attempt_once lc p a ru = (fl, ru')"
  shows "attempted lc p ru fl ru'" and "ru_ticks ru' = tl (ru_ticks ru)" and "ru_clock ru' = ru_clock ru"
proof -
  have "attempted lc p ru fl ru' \<and> ru_ticks ru' = tl (ru_ticks ru) \<and> ru_clock ru' = ru_clock ru"
  proof (cases "ru_ticks ru")
    case Nil
    then show ?thesis using assms by (auto simp: attempt_once_def same_tally_def intro: at_suspended)
  next
    case (Cons t ts)
    define pool where "pool = ro_pools (tk_before t (ru_router ru)) (pe_pool (rp_entry p))"
    obtain got pool' where aq: "acquire (tk_now t) pool = (got, pool')" by force
    define ru1 where "ru1 = ru\<lparr>ru_ticks := ts, ru_router := (tk_before t (ru_router ru))
      \<lparr>ro_pools := (ro_pools (tk_before t (ru_router ru)))(pe_pool (rp_entry p) := pool')\<rparr>\<rparr>"
    have step: "attempt_once lc p a ru =
      (case got of
         Inr g \<Rightarrow> with_key lc p a t pool g ru1
       | Inl e \<Rightarrow>
           (case rp_keyless p of
              Some slot \<Rightarrow> with_key lc p a t pool slot ru1
            | None \<Rightarrow> if e = NoApiCompatibleKeys then (Return (Err RNoApiCompatibleKeys), ru1)
                else (Break, otherwise ru1)))"
      using Cons aq [unfolded pool_def] unfolding attempt_once_def Let_def pool_def ru1_def by simp
    have same: "ru_trace ru1 = ru_trace ru" "same_tally ru ru1" "ru_ticks ru1 = ts" "ru_clock ru1 = ru_clock ru"
      by (simp_all add: ru1_def same_tally_def)
    show ?thesis
    proof (cases got)
      case (Inr g)
      then have pick: "\<exists>k\<in>set (kp_keys pool). is_api_compatible_key k \<and> key_available (tk_now t) k \<and> g = guard_of k"
        using acquire_picks [of "tk_now t" pool g] aq by simp
      then have off: "offered p (tk_now t) pool g" by (auto simp: offered_def)
      have wk: "with_key lc p a t pool g ru1 = (fl, ru')" using assms step Inr by simp
      have "attempted lc p ru fl ru'" by (rule with_key_attempted [OF wk off _ same(1,2)]) (simp add: Cons)
      then show ?thesis using with_key_kept [OF wk] same Cons by simp
    next
      case (Inl e)
      then have none: "\<not> (\<exists>k\<in>set (kp_keys pool). is_api_compatible_key k \<and> key_available (tk_now t) k)"
        using acquire_finds [of "tk_now t" pool e] aq by auto
      show ?thesis
      proof (cases "rp_keyless p")
        case None
        then show ?thesis
          using assms step Inl same Cons
          by (auto simp: otherwise_def same_tally_def split: if_splits intro: at_no_key at_incompatible)
      next
        case (Some slot)
        have off: "offered p (tk_now t) pool slot" unfolding offered_def using none Some by auto
        have wk: "with_key lc p a t pool slot ru1 = (fl, ru')" using assms step Inl Some by simp
        have "attempted lc p ru fl ru'" by (rule with_key_attempted [OF wk off _ same(1,2)]) (simp add: Cons)
        then show ?thesis using with_key_kept [OF wk] same Cons by simp
      qed
    qed
  qed
  then show "attempted lc p ru fl ru'" "ru_ticks ru' = tl (ru_ticks ru)" "ru_clock ru' = ru_clock ru" by auto
qed

section \<open>The rounds on one model\<close>

text \<open>The numbers are the attempts made and the cooldowns waited for.\<close>

inductive retrying ::
  "(string \<Rightarrow> string) \<Rightarrow> retry_params \<Rightarrow> nat \<Rightarrow> nat \<Rightarrow> run \<Rightarrow> answer flow \<Rightarrow> run \<Rightarrow> bool" for lc p where
  re_refused:
    "0 < ru_refusals ru \<Longrightarrow> ru_others ru = 0 \<Longrightarrow> retrying lc p 0 0 ru (Return (Err AllKeysRefused)) ru"
| re_exhausted: "retrying lc p 0 0 ru (Return (Err MaxRetriesExceeded)) ru"
| re_no_instant: "ru_clock ru = [] \<Longrightarrow> retrying lc p 0 0 ru (Suspended NoInstant) ru"
| re_clock: "retrying lc p n w (ru\<lparr>ru_clock := c\<rparr>) fl ru' \<Longrightarrow> retrying lc p n w ru fl ru'"
| re_last: "attempted lc p ru fl ru' \<Longrightarrow> fl \<noteq> Continue \<Longrightarrow> fl \<noteq> Break \<Longrightarrow> retrying lc p 1 0 ru fl ru'"
| re_next: "attempted lc p ru fl0 ru1 \<Longrightarrow> fl0 = Continue \<or> fl0 = Break \<Longrightarrow> retrying lc p n w ru1 fl ru' \<Longrightarrow>
    retrying lc p (Suc n) w ru fl ru'"
| re_cooldown: "d \<le> MAX_RATE_LIMIT_WAIT \<Longrightarrow> retrying lc p n w (emit (EvSleep d) ru) fl ru' \<Longrightarrow>
    retrying lc p n (Suc w) ru fl ru'"

lemma attempts_retrying:
  assumes "attempts lc p as ru = (fl, ru1)"
  shows "(fl = Break \<longrightarrow> (\<forall>n w fl' ru'. retrying lc p n w ru1 fl' ru' \<longrightarrow>
            (\<exists>m\<le>length as. retrying lc p (m + n) w ru fl' ru')))
    \<and> (fl \<noteq> Break \<longrightarrow> fl \<noteq> Continue \<and> (\<exists>m\<le>length as. retrying lc p m 0 ru fl ru1))"
  using assms
proof (induction as arbitrary: ru)
  case Nil
  then show ?case by auto
next
  case (Cons a as)
  obtain fl0 ru0 where once: "attempt_once lc p a ru = (fl0, ru0)" by force
  note at = attempt_once_attempted(1) [OF once]
  consider (cont) "fl0 = Continue" | (brk) "fl0 = Break" | (other) "fl0 \<noteq> Continue" "fl0 \<noteq> Break" by blast
  then show ?case
  proof cases
    case cont
    then have rest: "attempts lc p as ru0 = (fl, ru1)" using Cons.prems once by simp
    from Cons.IH [OF rest] show ?thesis
      using re_next [OF at] cont by (metis Suc_le_mono add_Suc length_Cons)
  next
    case brk
    then have "fl = Break \<and> ru1 = ru0" using Cons.prems once by simp
    then show ?thesis using re_next [OF at] brk by (metis One_nat_def Suc_le_mono add_Suc le0 length_Cons plus_nat.add_0)
  next
    case other
    then have "fl = fl0 \<and> ru1 = ru0" using Cons.prems once by (cases fl0) auto
    then show ?thesis
      using re_last [OF at] other by (metis One_nat_def Suc_le_mono le0 length_Cons)
  qed
qed

lemma rounds_retrying:
  "rounds lc p left ru = (fl, ru') \<Longrightarrow>
   \<exists>n w. n \<le> Suc left * rp_max_retries p \<and> w \<le> left \<and> retrying lc p n w ru fl ru'"
proof (induction left arbitrary: ru)
  case 0
  obtain fl1 ru1 where at: "attempts lc p [0..<rp_max_retries p] ru = (fl1, ru1)" by force
  note s = attempts_retrying [OF at]
  show ?case
  proof (cases "fl1 = Break")
    case True
    then have "retrying lc p 0 0 ru1 fl ru'"
      using 0 at by (subst (asm) rounds.simps) (auto split: if_splits intro: re_refused re_exhausted)
    then show ?thesis using s True by (metis add.right_neutral diff_zero le0 length_upt mult.left_neutral One_nat_def)
  next
    case False
    then have "fl = fl1 \<and> ru' = ru1" using 0 at by (subst (asm) rounds.simps) (auto split: flow.splits)
    then show ?thesis using s False by (metis diff_zero le0 length_upt mult.left_neutral One_nat_def)
  qed
next
  case (Suc left)
  obtain fl1 ru1 where at: "attempts lc p [0..<rp_max_retries p] ru = (fl1, ru1)" by force
  note s = attempts_retrying [OF at]
  show ?case
  proof (cases "fl1 = Break")
    case True
    have "\<exists>n w. n \<le> Suc left * rp_max_retries p \<and> w \<le> Suc left \<and> retrying lc p n w ru1 fl ru'"
    proof (cases "0 < ru_refusals ru1 \<and> ru_others ru1 = 0")
      case ref: True
      then have "retrying lc p 0 0 ru1 fl ru'"
        using Suc.prems at True by (subst (asm) rounds.simps) (auto intro: re_refused)
      then show ?thesis by (intro exI [of _ 0]) simp
    next
      case nref: False
      show ?thesis
      proof (cases "ru_clock ru1")
        case Nil
        then have "retrying lc p 0 0 ru1 fl ru'"
          using Suc.prems at True nref by (subst (asm) rounds.simps) (auto intro: re_no_instant)
        then show ?thesis by (intro exI [of _ 0]) simp
      next
        case (Cons now later)
        let ?ru2 = "ru1\<lparr>ru_clock := later\<rparr>"
        show ?thesis
        proof (cases "shortest_cooldown now (ro_pools (ru_router ru1) (pe_pool (rp_entry p)))")
          case None
          then have "fl = Return (Err MaxRetriesExceeded) \<and> ru' = ?ru2"
            using Suc.prems at True nref Cons by (subst (asm) rounds.simps) (auto simp: Let_def)
          then have "retrying lc p 0 0 ?ru2 fl ru'" using re_exhausted by simp
          then have "retrying lc p 0 0 ru1 fl ru'" by (rule re_clock)
          then show ?thesis by (intro exI [of _ 0]) simp
        next
          case (Some d)
          then have "rounds lc p left (emit (EvSleep (min d MAX_RATE_LIMIT_WAIT)) ?ru2) = (fl, ru')"
            using Suc.prems at True nref Cons by (subst (asm) rounds.simps) (auto simp: Let_def)
          from Suc.IH [OF this] obtain n w where nw: "n \<le> Suc left * rp_max_retries p" "w \<le> left"
            "retrying lc p n w (emit (EvSleep (min d MAX_RATE_LIMIT_WAIT)) ?ru2) fl ru'" by blast
          have "retrying lc p n (Suc w) ru1 fl ru'"
            by (rule re_clock [where c = later], rule re_cooldown [OF _ nw(3)]) simp
          then show ?thesis using nw by (intro exI [of _ n] exI [of _ "Suc w"]) simp
        qed
      qed
    qed
    then obtain n w where nw: "n \<le> Suc left * rp_max_retries p" "w \<le> Suc left" "retrying lc p n w ru1 fl ru'"
      by blast
    from s True nw(3) obtain m where "m \<le> rp_max_retries p" "retrying lc p (m + n) w ru fl ru'"
      by (metis diff_zero length_upt)
    then show ?thesis using nw by (intro exI [of _ "m + n"] exI [of _ w]) simp
  next
    case False
    then have "fl = fl1 \<and> ru' = ru1" using Suc.prems at by (subst (asm) rounds.simps) (auto split: flow.splits)
    moreover from s False obtain m where "m \<le> rp_max_retries p" "retrying lc p m 0 ru fl1 ru1"
      by (metis diff_zero length_upt)
    ultimately show ?thesis by (intro exI [of _ m] exI [of _ 0]) simp
  qed
qed


section \<open>Reading a trace\<close>

fun is_call :: "call_event \<Rightarrow> bool" where
  "is_call (EvCall _ _ _ _ _) = True"
| "is_call _ = False"

fun answer_of :: "call_event \<Rightarrow> (llm_error, chat_response) res option" where
  "answer_of (EvAnswer a) = Some a"
| "answer_of _ = None"

fun is_charge :: "call_event \<Rightarrow> bool" where
  "is_charge (EvCharge _) = True"
| "is_charge _ = False"

fun model_of :: "call_event \<Rightarrow> string option" where
  "model_of (EvModel m) = Some m"
| "model_of _ = None"

definition calls :: "call_event list \<Rightarrow> nat" where
  "calls es = length (filter is_call es)"

definition answers :: "call_event list \<Rightarrow> (llm_error, chat_response) res list" where
  "answers es = List.map_filter answer_of es"

definition charges :: "call_event list \<Rightarrow> nat" where
  "charges es = length (filter is_charge es)"

definition models_of :: "call_event list \<Rightarrow> string list" where
  "models_of es = List.map_filter model_of es"

lemma map_filter_append: "List.map_filter f (xs @ ys) = List.map_filter f xs @ List.map_filter f ys"
  by (induction xs) (auto simp: map_filter_simps split: option.splits)

lemma map_filter_none: "\<forall>x\<in>set xs. f x = None \<Longrightarrow> List.map_filter f xs = []"
  by (simp add: map_filter_Nil_iff)

lemma trace_append [simp]:
  "calls (xs @ ys) = calls xs + calls ys" "answers (xs @ ys) = answers xs @ answers ys"
  "charges (xs @ ys) = charges xs + charges ys" "models_of (xs @ ys) = models_of xs @ models_of ys"
  by (simp_all add: calls_def answers_def charges_def models_of_def map_filter_append)

lemma trace_Nil [simp]: "calls [] = 0" "answers [] = []" "charges [] = 0" "models_of [] = []"
  by (simp_all add: calls_def answers_def charges_def models_of_def map_filter_simps)

lemma trace_Cons [simp]:
  "calls (e # es) = (if is_call e then 1 else 0) + calls es"
  "answers (e # es) = (case answer_of e of None \<Rightarrow> answers es | Some a \<Rightarrow> a # answers es)"
  "charges (e # es) = (if is_charge e then 1 else 0) + charges es"
  "models_of (e # es) = (case model_of e of None \<Rightarrow> models_of es | Some m \<Rightarrow> m # models_of es)"
  by (simp_all add: calls_def answers_def charges_def models_of_def map_filter_simps split: option.splits)

lemma trace_sleeps [simp]:
  "calls (map EvSleep ds) = 0" "answers (map EvSleep ds) = []" "charges (map EvSleep ds) = 0"
  "models_of (map EvSleep ds) = []"
  by (induction ds) auto

fun event_ok :: "retry_params \<Rightarrow> call_event \<Rightarrow> bool" where
  "event_ok p (EvCall now pool entry g rq) =
     (entry = rp_entry p \<and> offered p now pool g \<and> rq = chat_request_of (rp_model p) (rp_request p))"
| "event_ok p (EvModel m) = False"
| "event_ok p (EvCli pt rq) = False"
| "event_ok p _ = True"

text \<open>The part of a trace one model's rounds write, and how it fits their outcome.\<close>

definition ends_well :: "call_event list \<Rightarrow> chat_response \<Rightarrow> bool" where
  "ends_well es resp = (\<exists>pre rec. es = pre @ [EvAnswer (Ok resp), EvCharge rec])"

definition outcome_fits :: "(string \<Rightarrow> string) \<Rightarrow> call_event list \<Rightarrow> answer flow \<Rightarrow> bool" where
  "outcome_fits lc es fl =
     (case fl of
        Return (Inr resp) \<Rightarrow> ends_well es resp
      | Return (Inl err) \<Rightarrow>
          err = MaxRetriesExceeded \<or> err = RNoApiCompatibleKeys
          \<or> (err = AllKeysRefused \<and> (\<forall>a\<in>set (answers es). \<exists>e. a = Err e \<and> is_auth_error e))
          \<or> (\<exists>e. err = LlmFail e \<and> \<not> is_transient lc e \<and> \<not> is_auth_error e)
      | Suspended _ \<Rightarrow> True
      | _ \<Rightarrow> False)"

definition segment :: "(string \<Rightarrow> string) \<Rightarrow> retry_params \<Rightarrow> nat \<Rightarrow> run \<Rightarrow> answer flow \<Rightarrow> run \<Rightarrow> call_event list \<Rightarrow> bool" where
  "segment lc p n ru fl ru' es \<longleftrightarrow>
     ru_trace ru' = ru_trace ru @ es \<and> calls es \<le> n \<and> list_all (event_ok p) es
     \<and> charges es = length (filter is_ok (answers es)) \<and> outcome_fits lc es fl
     \<and> ru_others ru \<le> ru_others ru' \<and> ru_refusals ru' \<le> ru_refusals ru + length (answers es)
     \<and> (fl = Return (Err AllKeysRefused) \<longrightarrow> 0 < ru_refusals ru' \<and> ru_others ru' = 0)"

lemma event_ok_sleeps [simp]: "list_all (event_ok p) (map EvSleep ds)"
  by (induction ds) auto

text \<open>What an attempt after which the rounds go on writes.\<close>

lemma attempted_goes_on:
  assumes "attempted lc p ru fl ru'" and "fl = Continue \<or> fl = Break"
  shows "\<exists>es. ru_trace ru' = ru_trace ru @ es \<and> calls es \<le> 1 \<and> list_all (event_ok p) es
    \<and> charges es = 0 \<and> filter is_ok (answers es) = []
    \<and> ru_refusals ru' \<le> ru_refusals ru + length (answers es) \<and> ru_others ru \<le> ru_others ru'
    \<and> (ru_others ru' = ru_others ru \<longrightarrow> (\<forall>a\<in>set (answers es). \<exists>e. a = Err e \<and> is_auth_error e))"
  using assms(1)
proof cases
  case at_no_key
  then show ?thesis by (intro exI [of _ "[]"]) simp
next
  case (at_refused now pool g e)
  then show ?thesis
    by (intro exI [of _ "[call_of p now pool g, EvAnswer (Err e)]"]) simp
next
  case (at_transient now pool g e ds)
  then show ?thesis
    by (intro exI [of _ "[call_of p now pool g, EvAnswer (Err e)] @ map EvSleep ds"]) simp
qed (use assms(2) in auto)

lemma attempted_ends:
  assumes "attempted lc p ru fl ru'" and "fl \<noteq> Continue" and "fl \<noteq> Break"
  shows "\<exists>es. segment lc p 1 ru fl ru' es"
  using assms(1)
proof cases
  case (at_suspended w)
  then show ?thesis
    by (intro exI [of _ "[]"]) (simp add: segment_def outcome_fits_def same_tally_def)
next
  case at_incompatible
  then show ?thesis
    by (intro exI [of _ "[]"]) (simp add: segment_def outcome_fits_def same_tally_def)
next
  case (at_answered now pool g resp rec)
  then show ?thesis
    by (intro exI [of _ "[call_of p now pool g, EvAnswer (Ok resp), EvCharge rec]"])
      (auto simp: segment_def outcome_fits_def ends_well_def same_tally_def)
next
  case (at_empty now pool g resp rec e)
  then show ?thesis
    using empty_completion_kind [of resp e lc]
    by (intro exI [of _ "[call_of p now pool g, EvAnswer (Ok resp), EvCharge rec]"])
      (auto simp: segment_def outcome_fits_def same_tally_def)
next
  case (at_failed now pool g e)
  then show ?thesis
    by (intro exI [of _ "[call_of p now pool g, EvAnswer (Err e)]"])
      (auto simp: segment_def outcome_fits_def same_tally_def)
qed (use assms(2,3) in auto)

lemma segment_after:
  assumes "segment lc p n ru1 fl ru' es" and "ru_trace ru1 = ru_trace ru @ pre" and "calls pre \<le> k"
    and "list_all (event_ok p) pre" and "charges pre = 0" and "filter is_ok (answers pre) = []"
    and "ru_refusals ru1 \<le> ru_refusals ru + length (answers pre)" and "ru_others ru \<le> ru_others ru1"
    and "ru_others ru1 = ru_others ru \<longrightarrow> (\<forall>a\<in>set (answers pre). \<exists>e. a = Err e \<and> is_auth_error e)"
  shows "segment lc p (k + n) ru fl ru' (pre @ es)"
proof -
  have fits: "outcome_fits lc (pre @ es) fl"
  proof (cases "fl = Return (Err AllKeysRefused)")
    case True
    then have "ru_others ru' = 0" using assms(1) by (simp add: segment_def)
    then have "ru_others ru1 = ru_others ru" using assms(1,8) by (simp add: segment_def)
    then show ?thesis using assms(1,9) True by (auto simp: segment_def outcome_fits_def)
  next
    case False
    then show ?thesis
      using assms(1) by (auto simp: segment_def outcome_fits_def ends_well_def split: flow.splits sum.splits)
  qed
  then show ?thesis using assms by (auto simp: segment_def)
qed

lemma retrying_segment: "retrying lc p n w ru fl ru' \<Longrightarrow> \<exists>es. segment lc p n ru fl ru' es"
proof (induction rule: retrying.induct)
  case (re_next ru fl0 ru1 n w fl ru')
  then obtain es where es: "segment lc p n ru1 fl ru' es" by blast
  from attempted_goes_on [OF re_next(1,2)] obtain pre where
    "ru_trace ru1 = ru_trace ru @ pre" "calls pre \<le> 1" "list_all (event_ok p) pre" "charges pre = 0"
    "filter is_ok (answers pre) = []" "ru_refusals ru1 \<le> ru_refusals ru + length (answers pre)"
    "ru_others ru \<le> ru_others ru1"
    "ru_others ru1 = ru_others ru \<longrightarrow> (\<forall>a\<in>set (answers pre). \<exists>e. a = Err e \<and> is_auth_error e)" by blast
  from segment_after [OF es this] show ?case by auto
next
  case (re_cooldown d n w ru fl ru')
  then obtain es where es: "segment lc p n (emit (EvSleep d) ru) fl ru' es" by blast
  have "segment lc p (0 + n) ru fl ru' ([EvSleep d] @ es)"
    by (rule segment_after [OF es]) (simp_all add: emit_def)
  then show ?case by auto
next
  case (re_last ru fl ru')
  then show ?case by (rule attempted_ends)
qed (auto simp: segment_def outcome_fits_def intro: exI [of _ "[]"])

section \<open>Enough ticks\<close>

lemma attempts_progress:
  "attempts lc p as ru = (fl, ru1) \<Longrightarrow> length as \<le> length (ru_ticks ru) \<Longrightarrow>
   fl \<noteq> Continue \<and> (\<forall>w. fl = Suspended w \<longrightarrow> w = LimiterBusy) \<and> ru_clock ru1 = ru_clock ru
   \<and> length (ru_ticks ru) \<le> length as + length (ru_ticks ru1)"
proof (induction as arbitrary: ru)
  case Nil
  then show ?case by simp
next
  case (Cons a as)
  obtain fl0 ru0 where once: "attempt_once lc p a ru = (fl0, ru0)" by force
  note at = attempt_once_attempted [OF once]
  have some: "ru_ticks ru \<noteq> []" using Cons.prems(2) by auto
  have susp: "w = LimiterBusy" if "fl0 = Suspended w" for w
    using at(1) some that by (auto elim: attempted.cases)
  show ?case
  proof (cases "fl0 = Continue")
    case True
    then have "attempts lc p as ru0 = (fl, ru1)" using Cons.prems(1) once by simp
    moreover have "length as \<le> length (ru_ticks ru0)" using at(2) Cons.prems(2) by simp
    ultimately show ?thesis using Cons.IH [of ru0] at(2,3) by (simp add: le_diff_conv)
  next
    case False
    then have "fl = fl0 \<and> ru1 = ru0" using Cons.prems(1) once by (cases fl0) auto
    then show ?thesis using False susp at(2,3) by simp
  qed
qed

lemma rounds_progress:
  "rounds lc p left ru = (fl, ru') \<Longrightarrow> Suc left * rp_max_retries p \<le> length (ru_ticks ru) \<Longrightarrow>
   left \<le> length (ru_clock ru) \<Longrightarrow> fl \<noteq> Continue \<and> fl \<noteq> Break \<and> (\<forall>w. fl = Suspended w \<longrightarrow> w = LimiterBusy)"
proof (induction left arbitrary: ru)
  case 0
  obtain fl1 ru1 where at: "attempts lc p [0..<rp_max_retries p] ru = (fl1, ru1)" by force
  show ?case
    using attempts_progress [OF at] 0 at by (subst (asm) rounds.simps) (auto split: flow.splits if_splits)
next
  case (Suc left)
  obtain fl1 ru1 where at: "attempts lc p [0..<rp_max_retries p] ru = (fl1, ru1)" by force
  have enough: "length [0..<rp_max_retries p] \<le> length (ru_ticks ru)" using Suc.prems(2) by simp
  note pr = attempts_progress [OF at enough]
  have ticks: "Suc left * rp_max_retries p \<le> length (ru_ticks ru1)" using pr Suc.prems(2) by simp
  show ?case
  proof (cases "fl1 = Break")
    case False
    then have "fl = fl1" using Suc.prems(1) at by (subst (asm) rounds.simps) (auto split: flow.splits)
    then show ?thesis using pr False by simp
  next
    case True
    have instants: "Suc left \<le> length (ru_clock ru1)" using pr Suc.prems(3) by simp
    then obtain now later where clock: "ru_clock ru1 = now # later" by (metis Suc_le_length_iff)
    show ?thesis
    proof (cases "(0 < ru_refusals ru1 \<and> ru_others ru1 = 0)
        \<or> shortest_cooldown now (ro_pools (ru_router ru1) (pe_pool (rp_entry p))) = None")
      case stop: True
      then have "\<exists>x. fl = Return x"
        using Suc.prems(1) at True clock by (subst (asm) rounds.simps) (auto simp: Let_def split: if_splits)
      then show ?thesis by auto
    next
      case False
      then obtain d where "shortest_cooldown now (ro_pools (ru_router ru1) (pe_pool (rp_entry p))) = Some d" by auto
      then have rest: "rounds lc p left (emit (EvSleep (min d MAX_RATE_LIMIT_WAIT)) (ru1\<lparr>ru_clock := later\<rparr>)) = (fl, ru')"
        using Suc.prems(1) at True clock False by (subst (asm) rounds.simps) (auto simp: Let_def)
      show ?thesis
      proof (rule Suc.IH [OF rest])
        show "Suc left * rp_max_retries p \<le> length (ru_ticks (emit (EvSleep (min d MAX_RATE_LIMIT_WAIT)) (ru1\<lparr>ru_clock := later\<rparr>)))"
          using ticks by (simp add: emit_def)
        show "left \<le> length (ru_clock (emit (EvSleep (min d MAX_RATE_LIMIT_WAIT)) (ru1\<lparr>ru_clock := later\<rparr>)))"
          using instants clock by (simp add: emit_def)
      qed
    qed
  qed
qed


section \<open>Properties of the retries\<close>

definition attempt_limit :: "provider_entry \<Rightarrow> llm_router \<Rightarrow> nat" where
  "attempt_limit e r =
     3 * max (length (kp_keys (ro_pools r (pe_pool e)))) (rc_max_transient_retries (lr_config (ro_limits r)))"

lemma execute_cases:
  assumes "execute_with_retry lc render e model rq ru = (fl, ru')" and "ru_clock ru = now # later"
  obtains (circuit_open) "fl = Return (Err MaxRetriesExceeded)" "ru_trace ru' = ru_trace ru"
  | (runs) ru1 where "rounds lc (params_for render e model rq (ru_router ru)) 2 ru1 = (fl, ru')"
      "ru_trace ru1 = ru_trace ru" "ru_refusals ru1 = 0" "ru_others ru1 = 0" "ru_ticks ru1 = ru_ticks ru"
      "ru_clock ru1 = later"
proof -
  obtain v limits where cc: "check_circuit now (ro_limits (ru_router ru)) = (v, limits)" by force
  then have cfg: "lr_config limits = lr_config (ro_limits (ru_router ru))"
    by (auto simp: check_circuit_def split: prod.splits)
  define ru1 where "ru1 = ru\<lparr>ru_clock := later, ru_router := (ru_router ru)\<lparr>ro_limits := limits\<rparr>,
      ru_refusals := 0, ru_others := 0\<rparr>"
  have ps: "params_for render e model rq (ru_router ru1) = params_for render e model rq (ru_router ru)"
    by (simp add: params_for_def Let_def ru1_def cfg)
  have run: "(if v = Err ApiOpen then (Return (Err MaxRetriesExceeded), ru1)
      else rounds lc (params_for render e model rq (ru_router ru)) 2 ru1) = (fl, ru')"
    using assms(1)
    unfolding ps [symmetric] execute_with_retry_def assms(2) list.case cc prod.case Let_def ru1_def
      MAX_RATE_LIMIT_WAITS_def .
  show thesis
  proof (cases "v = Err ApiOpen")
    case True
    show thesis by (rule circuit_open) (use run True in \<open>auto simp: ru1_def\<close>)
  next
    case False
    show thesis by (rule runs [of ru1]) (use run False in \<open>auto simp: ru1_def\<close>)
  qed
qed

text \<open>The trace and the outcome of the retries on one model.\<close>

definition retried ::
  "(string \<Rightarrow> string) \<Rightarrow> retry_params \<Rightarrow> nat \<Rightarrow> call_event list \<Rightarrow> answer flow \<Rightarrow> bool" where
  "retried lc p limit es fl \<longleftrightarrow>
     calls es \<le> limit \<and> list_all (event_ok p) es \<and> charges es = length (filter is_ok (answers es))
     \<and> outcome_fits lc es fl \<and> (fl = Return (Err AllKeysRefused) \<longrightarrow> answers es \<noteq> [])"

lemma execute_retried:
  assumes "execute_with_retry lc render e model rq ru = (fl, ru')"
  shows "\<exists>es. ru_trace ru' = ru_trace ru @ es
    \<and> retried lc (params_for render e model rq (ru_router ru)) (attempt_limit e (ru_router ru)) es fl"
proof (cases "ru_clock ru")
  case Nil
  then show ?thesis
    using assms by (intro exI [of _ "[]"]) (auto simp: execute_with_retry_def retried_def outcome_fits_def)
next
  case (Cons now later)
  show ?thesis
  proof (rule execute_cases [OF assms Cons])
    assume "fl = Return (Err MaxRetriesExceeded)" and "ru_trace ru' = ru_trace ru"
    then show ?thesis by (intro exI [of _ "[]"]) (simp add: retried_def outcome_fits_def)
  next
    fix ru1
    let ?p = "params_for render e model rq (ru_router ru)"
    assume rounds: "rounds lc ?p 2 ru1 = (fl, ru')" and start: "ru_trace ru1 = ru_trace ru" "ru_refusals ru1 = 0"
    have "rp_max_retries ?p = max (length (kp_keys (ro_pools (ru_router ru) (pe_pool e))))
        (rc_max_transient_retries (lr_config (ro_limits (ru_router ru))))"
      by (simp add: params_for_def Let_def)
    then have limit: "Suc 2 * rp_max_retries ?p = attempt_limit e (ru_router ru)" by (simp add: attempt_limit_def)
    from rounds_retrying [OF rounds] obtain n w where n: "n \<le> Suc 2 * rp_max_retries ?p"
      and re: "retrying lc ?p n w ru1 fl ru'" by blast
    from retrying_segment [OF re] obtain es where es: "segment lc ?p n ru1 fl ru' es" by blast
    have "retried lc ?p (attempt_limit e (ru_router ru)) es fl"
      using es n start unfolding limit by (auto simp: segment_def retried_def)
    then show ?thesis using es start by (auto simp: segment_def)
  qed
qed

text \<open>C12: Retrying one model: at most three times the larger of the number of keys and of the transient
  retries calls are made; each with a key the pool offers at that instant, compatible and not cooling
  down, or with the keyless slot when the pool offers none, and with the caller's request unchanged;
  every answer received is booked once and nothing else is; an answer is returned only as the
  provider's last word; and the errors are four: refused keys only when every call made, one at
  least, was refused for its key, a provider's error only when it is neither transient nor a refusal,
  no compatible keys, and exhausted retries.\<close>

theorem retry_exact:
  assumes "execute_with_retry lc render e model rq ru = (fl, ru')"
  shows "\<exists>es. ru_trace ru' = ru_trace ru @ es
    \<and> retried lc (params_for render e model rq (ru_router ru)) (attempt_limit e (ru_router ru)) es fl"
  using assms by (rule execute_retried)

text \<open>A call ends: with as many attempts answered as the limit allows and three readings of the
  clock, the retries return an answer or an error, unless the wait for the rate limiter of a key has
  not ended.\<close>

theorem retry_terminates:
  assumes "execute_with_retry lc render e model rq ru = (fl, ru')"
    and "attempt_limit e (ru_router ru) \<le> length (ru_ticks ru)" and "3 \<le> length (ru_clock ru)"
  shows "(\<exists>x. fl = Return x) \<or> fl = Suspended LimiterBusy"
proof -
  from assms(3) obtain now later where clock: "ru_clock ru = now # later" by (cases "ru_clock ru") auto
  show ?thesis
  proof (rule execute_cases [OF assms(1) clock])
    fix ru1
    let ?p = "params_for render e model rq (ru_router ru)"
    assume rounds: "rounds lc ?p 2 ru1 = (fl, ru')" and "ru_ticks ru1 = ru_ticks ru" and "ru_clock ru1 = later"
    then have "Suc 2 * rp_max_retries ?p \<le> length (ru_ticks ru1)" "2 \<le> length (ru_clock ru1)"
      using assms(2,3) clock by (simp_all add: attempt_limit_def params_for_def Let_def)
    from rounds_progress [OF rounds this] show ?thesis by (cases fl) auto
  qed simp
qed

section \<open>A whole completion\<close>

lemma subseq_distinct:
  assumes "subseq xs ys" and "distinct ys"
  shows "distinct xs"
proof -
  obtain N where "xs = nths ys N" using assms(1) by (auto simp: subseq_conv_nths)
  then show ?thesis using assms(2) by simp
qed

lemma event_ok_models: "list_all (event_ok p) es \<Longrightarrow> models_of es = []"
proof (induction es)
  case (Cons e es)
  then show ?case by (cases e) auto
qed simp

definition model_errors :: "(string \<Rightarrow> string) \<Rightarrow> router_error \<Rightarrow> bool" where
  "model_errors lc err \<longleftrightarrow>
     err = MaxRetriesExceeded \<or> err = RNoApiCompatibleKeys \<or> err = AllKeysRefused
     \<or> (\<exists>e. err = LlmFail e \<and> \<not> is_transient lc e \<and> \<not> is_auth_error e)
     \<or> (\<exists>m. err = UnknownModel m) \<or> (\<exists>m. err = ProviderNotConfigured m)"

lemma try_model_trace:
  assumes "try_model lc render m rq ru = (fl, ru')"
  shows "\<exists>es. ru_trace ru' = ru_trace ru @ es \<and> subseq (models_of es) [m]
    \<and> charges es = length (filter is_ok (answers es))
    \<and> (case fl of Return (Inr resp) \<Rightarrow> ends_well es resp | Return (Inl err) \<Rightarrow> model_errors lc err
         | Suspended _ \<Rightarrow> True | _ \<Rightarrow> False)"
proof (cases "\<exists>err. fl = Return (Inl err) \<and> ru' = ru \<and> model_errors lc err")
  case True
  then show ?thesis by (intro exI [of _ "[]"]) auto
next
  case False
  then obtain e where run: "execute_with_retry lc render e m rq (emit (EvModel m) ru) = (fl, ru')"
    using assms by (auto simp: try_model_def model_errors_def split: option.splits)
  from execute_retried [OF run] obtain p limit es where
    es: "ru_trace ru' = ru_trace (emit (EvModel m) ru) @ es" "retried lc p limit es fl" by blast
  have fits: "case fl of Return (Inr resp) \<Rightarrow> ends_well (EvModel m # es) resp
      | Return (Inl err) \<Rightarrow> model_errors lc err | Suspended _ \<Rightarrow> True | _ \<Rightarrow> False"
    using es(2)
    by (auto simp: retried_def outcome_fits_def model_errors_def ends_well_def Cons_eq_append_conv
      split: flow.splits sum.splits)
  then show ?thesis
    using es event_ok_models [of p es]
    by (intro exI [of _ "EvModel m # es"]) (auto simp: emit_def retried_def)
qed

lemma try_ladder_trace:
  "try_ladder lc render original rq ms ru = (fl, ru') \<Longrightarrow>
   \<exists>es. ru_trace ru' = ru_trace ru @ es \<and> subseq (models_of es) ms
    \<and> charges es = length (filter is_ok (answers es))
    \<and> (case fl of Return (Inr resp) \<Rightarrow> ends_well es resp | Continue \<Rightarrow> True | Suspended _ \<Rightarrow> True | _ \<Rightarrow> False)"
proof (induction ms arbitrary: ru)
  case Nil
  then show ?case by (intro exI [of _ "[]"]) auto
next
  case (Cons m ms)
  show ?case
  proof (cases "is_routable (ru_router ru) m")
    case False
    then have "try_ladder lc render original rq ms ru = (fl, ru')" using Cons.prems by simp
    from Cons.IH [OF this] show ?thesis by (blast intro: subseq_Cons')
  next
    case True
    obtain fl0 ru0 where tm: "try_model lc render m rq ru = (fl0, ru0)" by force
    from try_model_trace [OF tm] obtain es0 where es0: "ru_trace ru0 = ru_trace ru @ es0"
      "subseq (models_of es0) [m]" "charges es0 = length (filter is_ok (answers es0))"
      "case fl0 of Return (Inr resp) \<Rightarrow> ends_well es0 resp | Return (Inl err) \<Rightarrow> model_errors lc err
         | Suspended _ \<Rightarrow> True | _ \<Rightarrow> False" by blast
    show ?thesis
    proof (cases "\<exists>err. fl0 = Return (Inl err)")
      case err: True
      then have "try_ladder lc render original rq ms ru0 = (fl, ru')" using Cons.prems True tm by auto
      from Cons.IH [OF this] obtain es where es: "ru_trace ru' = ru_trace ru0 @ es" "subseq (models_of es) ms"
        "charges es = length (filter is_ok (answers es))"
        "case fl of Return (Inr resp) \<Rightarrow> ends_well es resp | Continue \<Rightarrow> True | Suspended _ \<Rightarrow> True | _ \<Rightarrow> False" by blast
      have "subseq (models_of (es0 @ es)) (m # ms)"
        using list_emb_append_mono [OF es0(2) es(2)] by simp
      moreover have "case fl of Return (Inr resp) \<Rightarrow> ends_well (es0 @ es) resp | Continue \<Rightarrow> True
          | Suspended _ \<Rightarrow> True | _ \<Rightarrow> False"
        using es(4) by (auto simp: ends_well_def split: flow.splits sum.splits)
      ultimately show ?thesis using es0 es by (intro exI [of _ "es0 @ es"]) simp
    next
      case False
      then have "(case fl of Return (Inr resp) \<Rightarrow> ends_well es0 resp | Continue \<Rightarrow> True | Suspended _ \<Rightarrow> True | _ \<Rightarrow> False)
          \<and> ru_trace ru' = ru_trace ru0"
        using Cons.prems True tm es0(4)
        by (auto simp: on_router_def split: flow.splits sum.splits)
      moreover have "subseq (models_of es0) (m # ms)"
        using list_emb_append_mono [OF es0(2), of "[]" ms] by simp
      ultimately show ?thesis using es0 by (intro exI [of _ es0]) simp
    qed
  qed
qed


definition ladder_errors :: "router_error \<Rightarrow> bool" where
  "ladder_errors err = (err = NoRoutableModel \<or> err = AllFallbacksFailed)"

lemma try_cli_trace:
  assumes "try_cli original rq ru = (fl, ru')"
  shows "\<exists>es. ru_trace ru' = ru_trace ru @ es \<and> models_of es = []
    \<and> charges es = length (filter is_ok (answers es))
    \<and> (case fl of Return (Inr resp) \<Rightarrow> ends_well es resp | Return (Inl err) \<Rightarrow> ladder_errors err
         | Suspended _ \<Rightarrow> True | _ \<Rightarrow> False)"
proof -
  have errs: "ladder_errors (no_answer x)" for x by (simp add: no_answer_def ladder_errors_def)
  show ?thesis
  proof (cases "\<exists>pt t ts. resolve_provider (ro_registry (ru_router ru)) original = Some pt
      \<and> has_provider (ru_router ru) pt \<and> has_cli_backend (ru_router ru) pt \<and> ru_ticks ru = t # ts")
    case False
    then have "ru' = ru \<and> ((\<exists>x. fl = Return (Err (no_answer x))) \<or> (\<exists>w. fl = Suspended w))"
      using assms by (auto simp: try_cli_def split: option.splits list.splits if_splits)
    then show ?thesis using errs by (intro exI [of _ "[]"]) auto
  next
    case True
    then obtain pt t ts where c: "resolve_provider (ro_registry (ru_router ru)) original = Some pt"
      "has_provider (ru_router ru) pt" "has_cli_backend (ru_router ru) pt" "ru_ticks ru = t # ts" by blast
    show ?thesis
    proof (cases "tk_answer t")
      case (Inr resp)
      then show ?thesis
        using assms c
        by (intro exI [of _ "[EvCli pt (cli_request original rq), EvAnswer (Ok resp), EvCharge (cli_record original rq)]"])
          (auto simp: try_cli_def Let_def run_defs ends_well_def)
    next
      case (Inl e)
      then show ?thesis
        using assms c errs
        by (intro exI [of _ "[EvCli pt (cli_request original rq), EvAnswer (Err e)]"])
          (auto simp: try_cli_def Let_def run_defs)
    qed
  qed
qed

lemma try_fallback_trace:
  assumes "try_fallback lc render original rq ru = (fl, ru')"
  shows "\<exists>es. ru_trace ru' = ru_trace ru @ es
    \<and> subseq (models_of es) (substitution_ladder (ru_router ru) original (rq_fallback_models rq))
    \<and> charges es = length (filter is_ok (answers es))
    \<and> (case fl of Return (Inr resp) \<Rightarrow> ends_well es resp | Return (Inl err) \<Rightarrow> ladder_errors err
         | Suspended _ \<Rightarrow> True | _ \<Rightarrow> False)"
proof -
  let ?ms = "substitution_ladder (ru_router ru) original (rq_fallback_models rq)"
  obtain fl0 ru0 where tl: "try_ladder lc render original rq ?ms ru = (fl0, ru0)" by force
  from try_ladder_trace [OF tl] obtain es0 where es0: "ru_trace ru0 = ru_trace ru @ es0"
    "subseq (models_of es0) ?ms" "charges es0 = length (filter is_ok (answers es0))"
    "case fl0 of Return (Inr resp) \<Rightarrow> ends_well es0 resp | Continue \<Rightarrow> True | Suspended _ \<Rightarrow> True | _ \<Rightarrow> False" by blast
  show ?thesis
  proof (cases "fl0 = Continue")
    case True
    then have "try_cli original rq ru0 = (fl, ru')" using assms tl by (simp add: try_fallback_def)
    from try_cli_trace [OF this] obtain es where es: "ru_trace ru' = ru_trace ru0 @ es" "models_of es = []"
      "charges es = length (filter is_ok (answers es))"
      "case fl of Return (Inr resp) \<Rightarrow> ends_well es resp | Return (Inl err) \<Rightarrow> ladder_errors err
         | Suspended _ \<Rightarrow> True | _ \<Rightarrow> False" by blast
    have "case fl of Return (Inr resp) \<Rightarrow> ends_well (es0 @ es) resp | Return (Inl err) \<Rightarrow> ladder_errors err
         | Suspended _ \<Rightarrow> True | _ \<Rightarrow> False"
      using es(4) by (auto simp: ends_well_def split: flow.splits sum.splits)
    then show ?thesis using es0 es by (intro exI [of _ "es0 @ es"]) simp
  next
    case False
    then have "fl = fl0 \<and> ru' = ru0" using assms tl by (auto simp: try_fallback_def split: flow.splits)
    then show ?thesis using es0 False by (intro exI [of _ es0]) (auto split: flow.splits sum.splits)
  qed
qed

text \<open>The errors a caller of \<open>complete\<close> can see.\<close>

definition final_errors :: "(string \<Rightarrow> string) \<Rightarrow> router_error \<Rightarrow> bool" where
  "final_errors lc err \<longleftrightarrow>
     err = NoRoutableModel \<or> err = AllFallbacksFailed \<or> err = RNoApiCompatibleKeys \<or> err = AllKeysRefused
     \<or> (\<exists>e. err = LlmFail e \<and> \<not> is_transient lc e \<and> \<not> is_auth_error e)"

definition completed :: "(string \<Rightarrow> string) \<Rightarrow> call_event list \<Rightarrow> answer flow \<Rightarrow> bool" where
  "completed lc es fl \<longleftrightarrow>
     distinct (models_of es) \<and> charges es = length (filter is_ok (answers es))
     \<and> (case fl of
          Return (Inr resp) \<Rightarrow> ends_well es resp
        | Return (Inl err) \<Rightarrow> final_errors lc err
        | Suspended _ \<Rightarrow> True
        | _ \<Rightarrow> False)"

lemma after_first_trace:
  assumes "after_first lc render model rq e ru = (fl, ru')" and "model_errors lc e"
  shows "\<exists>es. ru_trace ru' = ru_trace ru @ es
    \<and> subseq (models_of es) (substitution_ladder (ru_router ru) model (rq_fallback_models rq))
    \<and> charges es = length (filter is_ok (answers es))
    \<and> (case fl of Return (Inr resp) \<Rightarrow> ends_well es resp | Return (Inl err) \<Rightarrow> final_errors lc err
         | Suspended _ \<Rightarrow> True | _ \<Rightarrow> False)"
proof (cases "\<exists>x. e = LlmFail x")
  case True
  then have "fl = Return (Err e) \<and> ru' = ru \<and> final_errors lc e"
    using assms by (auto simp: after_first_def model_errors_def final_errors_def)
  then show ?thesis by (intro exI [of _ "[]"]) simp
next
  case False
  obtain fl0 ru0 where tf: "try_fallback lc render model rq ru = (fl0, ru0)" by force
  have out: "ru' = ru0 \<and> (fl = fl0 \<or> (fl0 = Return (Err AllFallbacksFailed) \<and> fl = Return (Err e) \<and> final_errors lc e))"
    using assms False tf
    by (auto simp: after_first_def model_errors_def final_errors_def keep_error_def
      split: flow.splits sum.splits router_error.splits)
  from try_fallback_trace [OF tf] out show ?thesis
    by (auto simp: final_errors_def ladder_errors_def split: flow.splits sum.splits)
qed


section \<open>A run\<close>

text \<open>One keyless local provider that answers at once.\<close>

definition demo_reply :: chat_response where
  "demo_reply = \<lparr>rs_content = ''hi'', rs_tool_calls = [], rs_model = ''qwen'', rs_usage = usage_default,
     rs_finish_reason = FinStop, rs_thinking = None, rs_parts = None\<rparr>"

definition demo_tick :: tick where
  "demo_tick = \<lparr>tk_before = id, tk_now = 0, tk_polls = [(0, id), (0, id), (0, id)], tk_flight = id,
     tk_answer = Ok demo_reply, tk_done = 0, tk_jitter = id, tk_jitter2 = id, tk_asleep = id\<rparr>"

definition demo_request :: router_request where
  "demo_request = \<lparr>rq_model = Some ''qwen'', rq_messages = [msg_user ''hello''], rq_tools = [],
     rq_temperature = None, rq_max_tokens = None, rq_agent_id = None, rq_task_id = None,
     rq_tool_choice = None, rq_tools_token_estimate = Some 0, rq_enable_caching = False,
     rq_thinking = None, rq_context_management = None, rq_fallback_models = [],
     rq_ephemeral_system_notice = None\<rparr>"

definition demo_run :: run where
  "demo_run = \<lparr>ru_router = router_of_two, ru_ticks = replicate 9 demo_tick, ru_clock = [0, 0, 0], ru_trace = [],
     ru_refusals = 0, ru_others = 0\<rparr>"

definition demo_entry :: provider_entry where
  "demo_entry = \<lparr>pe_name = ''ollama'', pe_requires_key = False, pe_pool = 0\<rparr>"

lemma demo_router_parts:
  "ro_pools router_of_two 0 = key_pool_new [] RoundRobin"
  "ro_limits router_of_two = limiter_registry_new rate_limit_config_default"
  by (simp_all add: router_of_two_def new_with_runtime_def)

lemma demo_not_empty: "empty_completion_error demo_reply = None"
  by (simp add: empty_completion_error_def demo_reply_def is_blank_def byte_of_def)

lemma demo_limiter:
  assumes "ro_limits r = limiter_registry_new rate_limit_config_default"
  shows "\<exists>l lim r1. limiter_get_or_create 0 ''ollama:keyless'' None (ro_limits r) = (l, lim)
    \<and> limiter_wait [(0, id), (0, id), (0, id)] 100 ''ollama:keyless'' WantPermit (r\<lparr>ro_limits := lim\<rparr>) = (InFlight, r1)"
  using assms
  by (simp add: limiter_get_or_create_def limiter_registry_new_def key_limiter_new_def limiter_get_def
    put_limiter_def limiter_step_def bucket_poll_def refill_def token_bucket_new_def secs_def
    rate_limit_config_default_def Let_def)

lemma demo_with_key:
  assumes "ro_limits (ru_router ru) = limiter_registry_new rate_limit_config_default" and "rp_tokens p = 100"
  shows "\<exists>ru'. with_key lc p a demo_tick pool (keyless_slot ''ollama'') ru = (Return (Ok demo_reply), ru')"
proof -
  obtain l lim r1 where "limiter_get_or_create 0 ''ollama:keyless'' None (ro_limits (ru_router ru)) = (l, lim)"
    and "limiter_wait [(0, id), (0, id), (0, id)] 100 ''ollama:keyless'' WantPermit ((ru_router ru)\<lparr>ro_limits := lim\<rparr>)
      = (InFlight, r1)"
    using demo_limiter [OF assms(1)] by blast
  then show ?thesis
    by (simp add: with_key_def demo_tick_def keyless_slot_def assms(2) on_success_def Let_def demo_not_empty)
qed

lemma demo_execute:
  "fst (execute_with_retry ascii_lower (\<lambda>_. []) demo_entry ''qwen'' demo_request demo_run) = Return (Ok demo_reply)"
proof -
  let ?p = "params_for (\<lambda>_. []) demo_entry ''qwen'' demo_request router_of_two"
  have tokens: "rp_tokens ?p = 100"
    by (simp add: params_for_def Let_def estimate_request_tokens_def demo_request_def msg_user_def msg_of_def)
  have slot: "rp_keyless ?p = Some (keyless_slot ''ollama'')"
    by (simp add: params_for_def Let_def demo_entry_def demo_router_parts key_pool_new_def)
  have addr: "pe_pool (rp_entry ?p) = 0" by (simp add: params_for_def Let_def demo_entry_def)
  have tries: "[0..<rp_max_retries ?p] = [0, 1, 2]"
    by (simp add: params_for_def Let_def demo_entry_def demo_router_parts key_pool_new_def limiter_registry_new_def
      rate_limit_config_default_def upt_conv_Cons)
  define ru1 where "ru1 = demo_run\<lparr>ru_clock := [0, 0]\<rparr>"
  have limits: "check_circuit 0 (ro_limits router_of_two) = (Ok (), ro_limits router_of_two)"
    by (simp add: demo_router_parts check_circuit_def limiter_registry_new_def rate_limit_config_default_def
      api_breaker_new_def api_check_def)
  have "execute_with_retry ascii_lower (\<lambda>_. []) demo_entry ''qwen'' demo_request demo_run = rounds ascii_lower ?p 2 ru1"
    by (simp add: execute_with_retry_def demo_run_def limits ru1_def MAX_RATE_LIMIT_WAITS_def)
  moreover have "\<exists>ru'. attempt_once ascii_lower ?p 0 ru1 = (Return (Ok demo_reply), ru')"
  proof -
    let ?ru2 = "ru1\<lparr>ru_ticks := replicate 8 demo_tick, ru_router := router_of_two\<lparr>ro_pools := (ro_pools router_of_two)(0 := key_pool_new [] RoundRobin)\<rparr>\<rparr>"
    have acq: "acquire 0 (ro_pools router_of_two 0) = (Err NoKeys, key_pool_new [] RoundRobin)"
      by (simp add: demo_router_parts acquire_def key_pool_new_def)
    have ticks: "ru_ticks ru1 = demo_tick # replicate 8 demo_tick"
      by (simp add: ru1_def demo_run_def eval_nat_numeral)
    have "attempt_once ascii_lower ?p 0 ru1
      = with_key ascii_lower ?p 0 demo_tick (ro_pools router_of_two 0) (keyless_slot ''ollama'') ?ru2"
      unfolding attempt_once_def ticks list.case Let_def addr slot
      by (simp add: demo_tick_def acq ru1_def demo_run_def)
    moreover have "ro_limits (ru_router ?ru2) = limiter_registry_new rate_limit_config_default"
      by (simp add: demo_router_parts)
    ultimately show ?thesis using demo_with_key [of ?ru2 ?p] tokens by simp
  qed
  ultimately show ?thesis by (subst (asm) rounds.simps) (auto simp: tries)
qed

lemma retry_exact_witness:
  "\<exists>es resp. ru_trace (snd (execute_with_retry ascii_lower (\<lambda>_. []) demo_entry ''qwen'' demo_request demo_run)) = es
    \<and> calls es \<le> 9 \<and> ends_well es resp"
proof -
  obtain fl ru' where run: "execute_with_retry ascii_lower (\<lambda>_. []) demo_entry ''qwen'' demo_request demo_run = (fl, ru')"
    by force
  then have fl: "fl = Return (Ok demo_reply)" using demo_execute by simp
  have "attempt_limit demo_entry (ru_router demo_run) = 9"
    by (simp add: attempt_limit_def demo_run_def demo_entry_def demo_router_parts key_pool_new_def
      limiter_registry_new_def rate_limit_config_default_def)
  then show ?thesis
    using retry_exact [OF run] run fl by (auto simp: retried_def outcome_fits_def demo_run_def)
qed

lemma retry_terminates_witness:
  "\<exists>x. fst (execute_with_retry ascii_lower (\<lambda>_. []) demo_entry ''qwen'' demo_request demo_run) = Return x
     \<or> fst (execute_with_retry ascii_lower (\<lambda>_. []) demo_entry ''qwen'' demo_request demo_run) = Suspended LimiterBusy"
proof -
  obtain fl ru' where run: "execute_with_retry ascii_lower (\<lambda>_. []) demo_entry ''qwen'' demo_request demo_run = (fl, ru')"
    by force
  have "attempt_limit demo_entry (ru_router demo_run) \<le> length (ru_ticks demo_run)" "3 \<le> length (ru_clock demo_run)"
    by (simp_all add: attempt_limit_def demo_run_def demo_entry_def demo_router_parts key_pool_new_def
      limiter_registry_new_def rate_limit_config_default_def)
  from retry_terminates [OF run this] run show ?thesis by auto
qed



section \<open>The probe of the breaker\<close>

text \<open>A call that finds the circuit half open with a probe in flight is not refused: it goes on.\<close>

lemma half_open_call_goes_on:
  assumes "ru_clock ru = now # later"
    and "check_circuit now (ro_limits (ru_router ru)) = (Err ApiHalfOpen, limits)"
  shows "execute_with_retry lc render e model rq ru =
    rounds lc (params_for render e model rq ((ru_router ru)\<lparr>ro_limits := limits\<rparr>)) 2
      (ru\<lparr>ru_clock := later, ru_router := (ru_router ru)\<lparr>ro_limits := limits\<rparr>, ru_refusals := 0, ru_others := 0\<rparr>)"
  using assms by (simp add: execute_with_retry_def MAX_RATE_LIMIT_WAITS_def)

section \<open>Streams\<close>

lemma stream_attempts_trace:
  "stream_attempts p n ru = (fl, ru') \<Longrightarrow>
   \<exists>es. ru_trace ru' = ru_trace ru @ es \<and> calls es \<le> n \<and> charges es = 0 \<and> models_of es = []
     \<and> ru_refusals ru' \<le> ru_refusals ru + length (filter (\<lambda>a. \<exists>e. a = Err e \<and> is_auth_error e) (answers es))
     \<and> calls es = length (answers es)
     \<and> (\<forall>m. fl = Return (Ok m) \<longrightarrow> m = rp_model p \<and> (\<exists>resp. answers es \<noteq> [] \<and> List.last (answers es) = Ok resp))
     \<and> fl \<noteq> Return (Err AllKeysRefused) \<and> fl \<noteq> Continue"
proof (induction n arbitrary: ru)
  case 0
  then show ?case by (intro exI [of _ "[]"]) simp
next
  case (Suc n)
  show ?case
  proof (cases "ru_ticks ru")
    case Nil
    then show ?thesis using Suc.prems by (intro exI [of _ "[]"]) auto
  next
    case (Cons t ts)
    define a where "a = pe_pool (rp_entry p)"
    define pool where "pool = ro_pools (tk_before t (ru_router ru)) a"
    obtain got pool' where aq: "acquire (tk_now t) pool = (got, pool')" by force
    define ru1 where "ru1 = ru\<lparr>ru_ticks := ts, ru_router := (tk_before t (ru_router ru))
      \<lparr>ro_pools := (ro_pools (tk_before t (ru_router ru)))(a := pool')\<rparr>\<rparr>"
    define slot where "slot = (case got of Inr g \<Rightarrow> Ok g | Inl e \<Rightarrow> (case rp_keyless p of Some g \<Rightarrow> Ok g | None \<Rightarrow> Err e))"
    define ru2 where "ru2 g = emit (EvAnswer (tk_answer t)) (on_router (tk_flight t) (emit (call_of p (tk_now t) pool g) ru1))"
      for g
    have step: "stream_attempts p (Suc n) ru =
      (case slot of
         Inl e \<Rightarrow> (Return (Err (if e = NoApiCompatibleKeys then RNoApiCompatibleKeys else RAllKeysRateLimited)), ru1)
       | Inr g \<Rightarrow>
           (case tk_answer t of
              Inr _ \<Rightarrow> (Return (Ok (rp_model p)), ru2 g)
            | Inl e \<Rightarrow>
                (case e of
                   ERateLimited ms \<Rightarrow>
                     stream_attempts p n (on_router (pool_report a (tk_done t) (kg_id g) (CallRateLimited ms)) (ru2 g))
                 | _ \<Rightarrow>
                     if is_auth_error e then
                       stream_attempts p n
                         (on_router (pool_report a (tk_done t) (kg_id g) (CallError (llm_error_to_string e))) (refused (ru2 g)))
                     else (Return (Err (LlmFail e)), ru2 g))))"
      unfolding slot_def ru2_def ru1_def pool_def a_def stream_attempts.simps(2) Cons list.case Let_def
        aq [unfolded pool_def a_def] prod.case by (rule refl)
    have tr: "ru_trace (ru2 g) = ru_trace ru @ [call_of p (tk_now t) pool g, EvAnswer (tk_answer t)]"
      and rf: "ru_refusals (ru2 g) = ru_refusals ru" for g
      by (simp_all add: ru2_def ru1_def run_defs)
    show ?thesis
    proof (cases slot)
      case (Inl e)
      then have "fl = Return (Err (if e = NoApiCompatibleKeys then RNoApiCompatibleKeys else RAllKeysRateLimited)) \<and> ru' = ru1"
        using Suc.prems step by simp
      then show ?thesis by (intro exI [of _ "[]"]) (auto simp: ru1_def)
    next
      case (Inr g)
      let ?new = "[call_of p (tk_now t) pool g, EvAnswer (tk_answer t)]"
      note eq = Suc.prems [unfolded step Inr sum.case]
      have goes_on: ?thesis
        if ru3: "stream_attempts p n ru3 = (fl, ru')" "ru_trace ru3 = ru_trace (ru2 g)"
          "ru_refusals ru3 = ru_refusals ru
             \<or> ru_refusals ru3 = Suc (ru_refusals ru) \<and> (\<exists>e. tk_answer t = Err e \<and> is_auth_error e)" for ru3
      proof -
        from Suc.IH [OF ru3(1)] obtain es where es: "ru_trace ru' = ru_trace ru3 @ es" "calls es \<le> n" "charges es = 0"
          "models_of es = []"
          "ru_refusals ru' \<le> ru_refusals ru3 + length (filter (\<lambda>a. \<exists>e. a = Err e \<and> is_auth_error e) (answers es))"
          "calls es = length (answers es)"
          "\<forall>m. fl = Return (Ok m) \<longrightarrow> m = rp_model p \<and> (\<exists>resp. answers es \<noteq> [] \<and> List.last (answers es) = Ok resp)"
          "fl \<noteq> Return (Err AllKeysRefused)" "fl \<noteq> Continue" by blast
        show ?thesis
          using es ru3(2,3) tr [of g] by (intro exI [of _ "?new @ es"]) auto
      qed
      have stops: ?thesis
        if "ru' = ru2 g" "(\<exists>resp. tk_answer t = Ok resp \<and> fl = Return (Ok (rp_model p))) \<or> (\<exists>e. fl = Return (Err (LlmFail e)))"
        using that tr [of g] rf [of g] by (intro exI [of _ ?new]) auto
      show ?thesis
      proof (cases "tk_answer t")
        case (Inr resp)
        then show ?thesis using eq by (intro stops) auto
      next
        case (Inl e)
        show ?thesis
        proof (cases "\<exists>ms. e = ERateLimited ms")
          case True
          then obtain ms where "e = ERateLimited ms" by blast
          then have "stream_attempts p n (on_router (pool_report a (tk_done t) (kg_id g) (CallRateLimited ms)) (ru2 g)) = (fl, ru')"
            using eq Inl by simp
          then show ?thesis by (rule goes_on) (simp_all add: on_router_def rf)
        next
          case nr: False
          show ?thesis
          proof (cases "is_auth_error e")
            case True
            then have "stream_attempts p n (on_router (pool_report a (tk_done t) (kg_id g) (CallError (llm_error_to_string e)))
                (refused (ru2 g))) = (fl, ru')"
              using eq Inl nr by (cases e) simp_all
            then show ?thesis by (rule goes_on) (simp_all add: run_defs rf Inl True)
          next
            case False
            then have "(Return (Err (LlmFail e)), ru2 g) = (fl, ru')" using eq Inl nr by (cases e) simp_all
            then show ?thesis by (intro stops) auto
          qed
        qed
      qed
    qed
  qed
qed

lemma streaming_cases:
  assumes "complete_streaming render waited rq ru = (fl, ru')"
  shows "(ru_trace ru' = ru_trace ru \<and> (\<forall>m. fl \<noteq> Return (Ok m)) \<and> fl \<noteq> Return (Err AllKeysRefused))
    \<or> (\<exists>p n ru3 fl0 ru4. stream_attempts p n ru3 = (fl0, ru4) \<and> n \<le> 3 \<and> ru_trace ru3 = ru_trace ru
      \<and> ru_refusals ru3 = 0 \<and> ru_trace ru' = ru_trace ru4
      \<and> (fl = Return (Err AllKeysRefused) \<longrightarrow> fl0 = Return (Err AllKeysRefused) \<or> (1 \<le> n \<and> ru_refusals ru4 = n))
      \<and> (\<forall>m. fl = Return (Ok m) \<longrightarrow> fl0 = Return (Ok m)))"
proof (cases "\<exists>others. waited = Some others \<and> ro_permits (ru_router (on_router others ru)) \<noteq> 0")
  case False
  then show ?thesis
    using assms by (auto simp: complete_streaming_def Let_def on_router_def split: option.splits)
next
  case True
  then obtain others where w: "waited = Some others" "ro_permits (ru_router (on_router others ru)) \<noteq> 0" by blast
  define ru2 where "ru2 = (take_permit (on_router others ru))\<lparr>ru_refusals := 0, ru_others := 0\<rparr>"
  obtain m r where rr: "resolve_routable (unwrap_or (rq_model rq) (ro_default_model (ru_router ru2)))
      (rq_fallback_models rq) (ru_router ru2) = (m, r)" by force
  define ru3 where "ru3 = ru2\<lparr>ru_router := r\<rparr>"
  have start: "ru_trace ru3 = ru_trace ru" "ru_refusals ru3 = 0"
    by (simp_all add: ru3_def ru2_def take_permit_def on_router_def)
  have step: "complete_streaming render waited rq ru =
      (case m of
         None \<Rightarrow> (Return (Err NoRoutableModel), give_permit ru3)
       | Some model \<Rightarrow>
           (case resolve_provider (ro_registry r) model of
              None \<Rightarrow> (Return (Err (UnknownModel model)), give_permit ru3)
            | Some pt \<Rightarrow>
                (case provider_entry_of r pt of
                   None \<Rightarrow> (Return (Err (ProviderNotConfigured (provider_to_string pt))), give_permit ru3)
                 | Some e \<Rightarrow>
                     let p = params_for render e model rq r;
                         keys = length (kp_keys (ro_pools r (pe_pool e)));
                         max_attempts = (if rp_keyless p \<noteq> None then 1 else min keys 3)
                     in (case stream_attempts p max_attempts ru3 of
                           (Break, ru4) \<Rightarrow>
                             (Return (Err (if ru_refusals ru4 = max_attempts \<and> max keys 1 \<le> max_attempts
                                then AllKeysRefused else RAllKeysRateLimited)), give_permit ru4)
                         | (Return (Inl err), ru4) \<Rightarrow> (Return (Err err), give_permit ru4)
                         | out \<Rightarrow> out))))"
    using w(2) rr unfolding complete_streaming_def w(1) ru3_def ru2_def by (simp add: Let_def)
  show ?thesis
  proof (cases "\<exists>model pt e. m = Some model \<and> resolve_provider (ro_registry r) model = Some pt
      \<and> provider_entry_of r pt = Some e")
    case False
    then consider "m = None" | (unknown) model where "m = Some model" "resolve_provider (ro_registry r) model = None"
      | (unloaded) model pt where "m = Some model" "resolve_provider (ro_registry r) model = Some pt"
          "provider_entry_of r pt = None" by (metis not_None_eq)
    then have "\<exists>err. fl = Return (Err err) \<and> err \<noteq> AllKeysRefused \<and> ru' = give_permit ru3"
      using assms unfolding step by cases auto
    then show ?thesis using start by (auto simp: give_permit_def on_router_def)
  next
    case True
    then obtain model pt e where c: "m = Some model" "resolve_provider (ro_registry r) model = Some pt"
      "provider_entry_of r pt = Some e" by blast
    define p where "p = params_for render e model rq r"
    define keys where "keys = length (kp_keys (ro_pools r (pe_pool e)))"
    define n where "n = (if rp_keyless p \<noteq> None then 1 else min keys 3)"
    obtain fl0 ru4 where sa: "stream_attempts p n ru3 = (fl0, ru4)" by force
    have out: "(case (fl0, ru4) of
          (Break, ru4) \<Rightarrow>
            (Return (Err (if ru_refusals ru4 = n \<and> max keys 1 \<le> n then AllKeysRefused else RAllKeysRateLimited)),
             give_permit ru4)
        | (Return (Inl err), ru4) \<Rightarrow> (Return (Err err), give_permit ru4)
        | out \<Rightarrow> out) = (fl, ru')"
      using assms unfolding step c option.case Let_def p_def [symmetric] keys_def [symmetric] n_def [symmetric] sa .
    have "n \<le> 3" by (simp add: n_def)
    moreover have "ru_trace ru' = ru_trace ru4"
      and "fl = Return (Err AllKeysRefused) \<longrightarrow> fl0 = Return (Err AllKeysRefused) \<or> (1 \<le> n \<and> ru_refusals ru4 = n)"
      and "\<forall>m. fl = Return (Ok m) \<longrightarrow> fl0 = Return (Ok m)"
      using out by (auto simp: give_permit_def on_router_def split: flow.splits sum.splits if_splits)
    ultimately show ?thesis using sa start by blast
  qed
qed

text \<open>A stream is served by the model it says, after at most three calls, and a stream that ends in refused
  keys has tried every key there is, each refused.\<close>

theorem streaming_exact:
  assumes "complete_streaming render waited rq ru = (fl, ru')"
  shows "\<exists>es. ru_trace ru' = ru_trace ru @ es \<and> calls es \<le> 3 \<and> charges es = 0
    \<and> (\<forall>m. fl = Return (Ok m) \<longrightarrow> (\<exists>resp. answers es \<noteq> [] \<and> List.last (answers es) = Ok resp))
    \<and> (fl = Return (Err AllKeysRefused) \<longrightarrow> answers es \<noteq> [] \<and> (\<forall>a\<in>set (answers es). \<exists>e. a = Err e \<and> is_auth_error e))"
proof (cases "\<exists>p n ru3 fl0 ru4. stream_attempts p n ru3 = (fl0, ru4) \<and> n \<le> 3 \<and> ru_trace ru3 = ru_trace ru
    \<and> ru_refusals ru3 = 0 \<and> ru_trace ru' = ru_trace ru4
    \<and> (fl = Return (Err AllKeysRefused) \<longrightarrow> fl0 = Return (Err AllKeysRefused) \<or> (1 \<le> n \<and> ru_refusals ru4 = n))
    \<and> (\<forall>m. fl = Return (Ok m) \<longrightarrow> fl0 = Return (Ok m))")
  case True
  then obtain p n ru3 fl0 ru4 where c: "stream_attempts p n ru3 = (fl0, ru4)" "n \<le> 3" "ru_trace ru3 = ru_trace ru"
    "ru_refusals ru3 = 0" "ru_trace ru' = ru_trace ru4"
    "fl = Return (Err AllKeysRefused) \<longrightarrow> fl0 = Return (Err AllKeysRefused) \<or> (1 \<le> n \<and> ru_refusals ru4 = n)"
    "\<forall>m. fl = Return (Ok m) \<longrightarrow> fl0 = Return (Ok m)" by blast
  from stream_attempts_trace [OF c(1)] obtain es where es: "ru_trace ru4 = ru_trace ru3 @ es" "calls es \<le> n"
    "charges es = 0"
    "ru_refusals ru4 \<le> ru_refusals ru3 + length (filter (\<lambda>a. \<exists>e. a = Err e \<and> is_auth_error e) (answers es))"
    "calls es = length (answers es)" "fl0 \<noteq> Return (Err AllKeysRefused)"
    "\<forall>m. fl0 = Return (Ok m) \<longrightarrow> m = rp_model p \<and> (\<exists>resp. answers es \<noteq> [] \<and> List.last (answers es) = Ok resp)"
    by blast
  have "answers es \<noteq> [] \<and> (\<forall>a\<in>set (answers es). \<exists>e. a = Err e \<and> is_auth_error e)"
    if "fl = Return (Err AllKeysRefused)"
  proof -
    let ?auth = "\<lambda>a. \<exists>e. a = (Err e :: (llm_error, chat_response) res) \<and> is_auth_error e"
    have n: "1 \<le> n" "n \<le> length (filter ?auth (answers es))" using that c(4,6) es(4,6) by auto
    have full: "length (filter ?auth (answers es)) = length (answers es)"
      using n es(2,5) length_filter_le [of ?auth "answers es"] by linarith
    have "?auth a" if "a \<in> set (answers es)" for a
      using length_filter_less [of a "answers es" ?auth] full that by force
    moreover have "answers es \<noteq> []" using n full by (cases "answers es") auto
    ultimately show ?thesis by blast
  qed
  then show ?thesis using c es by (intro exI [of _ es]) auto
next
  case False
  have "ru_trace ru' = ru_trace ru \<and> (\<forall>m. fl \<noteq> Return (Ok m)) \<and> fl \<noteq> Return (Err AllKeysRefused)"
    using streaming_cases [OF assms] False by blast
  then show ?thesis by (intro exI [of _ "[]"]) auto
qed

section \<open>Discovery\<close>

lemma absorb_ok: "mr_ok reg \<Longrightarrow> mr_ok (absorb_models p ms reg)"
  by (induction ms arbitrary: reg) (auto simp: absorb_models_def mr_ok_operations)

lemma register_discovered_get:
  "get_model_info (register_discovered i info reg) j =
     (if j = i then get_model_info (register_discovered i info reg) i else get_model_info reg j)"
  by (auto simp: register_discovered_def get_model_info_def model_register_def table_simps Let_def split: option.splits)

lemma register_discovered_discovered:
  "\<exists>x. get_model_info (register_discovered i info reg) i = Some x \<and> mi_discovered x"
  by (auto simp: register_discovered_def get_model_info_def model_register_def table_simps Let_def split: option.splits)

lemma absorb_discovered:
  "i \<in> dm_id ` set ms \<or> (\<exists>x. get_model_info reg i = Some x \<and> mi_discovered x) \<Longrightarrow>
   \<exists>x. get_model_info (absorb_models p ms reg) i = Some x \<and> mi_discovered x"
proof (induction ms arbitrary: reg)
  case Nil
  then show ?case by (simp add: absorb_models_def)
next
  case (Cons m ms)
  let ?reg = "register_discovered (dm_id m) (discovered_info p m) reg"
  have "i \<in> dm_id ` set ms \<or> (\<exists>x. get_model_info ?reg i = Some x \<and> mi_discovered x)"
    using Cons.prems register_discovered_get [of "dm_id m" "discovered_info p m" reg i]
      register_discovered_discovered [of "dm_id m" "discovered_info p m" reg]
    by (cases "i = dm_id m") auto
  from Cons.IH [OF this] show ?case by (simp add: absorb_models_def)
qed

lemma registry_set [simp]: "ro_registry (set_registry m r) = m"
  by (simp add: ro_registry_def set_registry_def use_registry_def)

lemma mark_defaults_ok: "router_ok r \<Longrightarrow> router_ok (mark_defaults p r)"
  by (simp add: router_ok_def mark_defaults_def mr_ok_operations)

text \<open>A discovery pass over a local provider that answers leaves the catalogue telling the truth:
  its models shown as discovered are among those the provider listed, every id it listed is there and
  discovered, whatever the catalogue held before and other tasks did to it meanwhile.\<close>

theorem local_discovery_truthful:
  assumes "tget (ro_providers r) p = Some e" and "provider_is_local p" and "\<not> pe_requires_key e"
    and "\<forall>secret. answer secret = Ok ms" and "\<forall>x. router_ok (meanwhile x)"
    and "refresh_models_for now answer meanwhile p r = (st, r')"
  shows "(\<forall>i info. get_model_info (ro_registry r') i = Some info \<and> mi_provider info = p \<and> mi_discovered info
        \<longrightarrow> i \<in> dm_id ` set ms)
    \<and> (\<forall>i\<in>dm_id ` set ms. \<exists>info. get_model_info (ro_registry r') i = Some info \<and> mi_discovered info)
    \<and> discovery_status r' p = Some \<lparr>dv_models = length ms, dv_error = None\<rparr>"
proof -
  obtain got pool where aq: "acquire_api_compatible now (ro_pools r (pe_pool e)) = (got, pool)" by force
  define r1 where "r1 = r\<lparr>ro_pools := (ro_pools r)(pe_pool e := pool)\<rparr>"
  define r2 where "r2 = meanwhile r1"
  define r3 where "r3 = (if ms = [] then mark_defaults p r2 else r2)"
  define reg where "reg = absorb_models p ms (ro_registry r3)"
  obtain ids reg' where w: "withdraw_absent_for_provider p (set (map dm_id ms)) reg = (ids, reg')" by force
  have "refresh_models_for now answer meanwhile p r = record_discovery p \<lparr>dv_models = length ms, dv_error = None\<rparr>
      (set_registry (snd (withdraw_absent_for_provider p (set (map dm_id ms)) reg)) r3)"
    unfolding r3_def reg_def r2_def r1_def refresh_models_for_def
    using assms(1,2,3,4) aq by (cases got) (simp_all add: Let_def)
  then have out: "(st, r') = record_discovery p \<lparr>dv_models = length ms, dv_error = None\<rparr> (set_registry reg' r3)"
    using assms(6) w by simp
  then have r': "ro_registry r' = reg'"
    by (simp add: record_discovery_def ro_registry_def set_registry_def use_registry_def)
  have "router_ok r3" using assms(5) by (simp add: r3_def r2_def mark_defaults_ok)
  then have ok: "mr_ok reg" by (simp add: router_ok_def reg_def absorb_ok)
  note gone = withdraw_get [OF ok w]
  have "i \<in> dm_id ` set ms"
    if "get_model_info (ro_registry r') i = Some info" "mi_provider info = p" "mi_discovered info" for i info
    using that gone [of i] unfolding r' by (auto split: option.splits if_splits)
  moreover have "\<exists>info. get_model_info (ro_registry r') i = Some info \<and> mi_discovered info" if "i \<in> dm_id ` set ms" for i
    using that gone [of i] absorb_discovered [of i ms "ro_registry r3" p] unfolding r' reg_def
    by (auto split: option.splits)
  moreover have "discovery_status r' p = Some \<lparr>dv_models = length ms, dv_error = None\<rparr>"
    using out by (simp add: record_discovery_def discovery_status_def table_simps)
  ultimately show ?thesis by blast
qed

lemma local_discovery_truthful_witness:
  "get_model_info (ro_registry (snd (refresh_models_for 0 (\<lambda>_. Ok [discovered_bare ''llama'']) (\<lambda>_. router_of_two)
      Ollama router_of_two))) ''llama'' \<noteq> None"
proof -
  have reg: "ro_registry router_of_two =
    model_registry_new [(''qwen'', (gpt_row 0 0)\<lparr>mi_provider := Ollama\<rparr>), (''o3'', reasoning_row True 10 40)]"
    by (simp add: router_of_two_def new_with_runtime_def ro_registry_def use_registry_def)
  have ok: "router_ok router_of_two"
    by (simp add: router_ok_def reg mr_ok_def table_ok_def model_registry_new_def)
  have e: "tget (ro_providers router_of_two) Ollama = Some demo_entry"
    by (simp add: router_of_two_def new_with_runtime_def demo_entry_def)
  obtain st r' where run: "refresh_models_for 0 (\<lambda>_. Ok [discovered_bare ''llama'']) (\<lambda>_. router_of_two)
      Ollama router_of_two = (st, r')" by force
  have "\<not> pe_requires_key demo_entry" by (simp add: demo_entry_def)
  from local_discovery_truthful [OF e _ this _ _ run, of "[discovered_bare ''llama'']"] ok run
  show ?thesis by (auto simp: discovered_bare_def)
qed

end
