(* ===== verification/Lane.thy ===== *)
theory Lane
  imports Prelude
begin

text \<open>
  Conversation and task lanes (\<open>crates/openalpaca_core/src/lane/types/mod.rs\<close> and
  \<open>lane/manager.rs\<close>): the lane key and its text form, the lanes, the fingerprint of a lane's
  tip, and the manager that hands out shared lanes.

  A lane is shared by reference (\<open>Arc\<close>): the manager's maps hold references, and whoever got one
  keeps it after the map forgets it. The lanes live in two lists, an index is a reference, and
  nothing is ever freed. Times of day are \<^typ>\<open>nat\<close>, read once per operation as \<open>now\<close>.
\<close>

section \<open>Keys\<close>

record lane_key =
  user_id :: string
  source :: string

definition lane_key_from_str :: "string \<Rightarrow> lane_key option" where
  "lane_key_from_str s =
     (case split_once (CHR '':'') s of
        None \<Rightarrow> None
      | Some (u, src) \<Rightarrow>
          if u = [] \<or> src = [] then None else Some \<lparr>user_id = u, source = src\<rparr>)"

definition lane_key_to_string :: "lane_key \<Rightarrow> string" where
  "lane_key_to_string k = user_id k @ '':'' @ source k"

definition canonical_key :: "lane_key \<Rightarrow> bool" where
  "canonical_key k = (user_id k \<noteq> [] \<and> source k \<noteq> [] \<and> CHR '':'' \<notin> set (user_id k))"

lemma lane_key_from_str_Some:
  "lane_key_from_str s = Some k \<longleftrightarrow> canonical_key k \<and> lane_key_to_string k = s"
proof (cases "split_once (CHR '':'') s")
  case None
  then have "CHR '':'' \<notin> set s" by (simp add: split_once_None)
  with None show ?thesis by (auto simp: lane_key_from_str_def lane_key_to_string_def)
next
  case (Some p)
  obtain u src where p: "p = (u, src)" by (cases p)
  have s: "s = u @ CHR '':'' # src" "CHR '':'' \<notin> set u"
    using Some p split_once_Some by metis+
  have uniq: "u' = u \<and> src' = src" if "s = u' @ CHR '':'' # src'" "CHR '':'' \<notin> set u'" for u' src'
    using that Some p split_once_Some by (metis Pair_inject option.inject)
  show ?thesis
  proof
    assume "lane_key_from_str s = Some k"
    then show "canonical_key k \<and> lane_key_to_string k = s"
      using Some p s
      by (auto simp: lane_key_from_str_def canonical_key_def lane_key_to_string_def split: if_splits)
  next
    assume k: "canonical_key k \<and> lane_key_to_string k = s"
    then have "user_id k = u \<and> source k = src"
      by (intro uniq) (auto simp: canonical_key_def lane_key_to_string_def)
    with k show "lane_key_from_str s = Some k"
      using Some p by (cases k) (auto simp: lane_key_from_str_def canonical_key_def)
  qed
qed

section \<open>Lanes\<close>

datatype task_lane_status = Queued | Running | Completed | Failed | Cancelled | Paused | Interrupted

fun task_lane_status_as_str :: "task_lane_status \<Rightarrow> string" where
  "task_lane_status_as_str Queued = ''queued''"
| "task_lane_status_as_str Running = ''running''"
| "task_lane_status_as_str Completed = ''completed''"
| "task_lane_status_as_str Failed = ''failed''"
| "task_lane_status_as_str Cancelled = ''cancelled''"
| "task_lane_status_as_str Paused = ''paused''"
| "task_lane_status_as_str Interrupted = ''interrupted''"

record conversation_lane =
  cl_key :: lane_key
  cl_created_at :: nat
  cl_message_count :: "64 word"
  cl_last_active_at :: nat

definition conversation_lane_new :: "nat \<Rightarrow> lane_key \<Rightarrow> conversation_lane" where
  "conversation_lane_new now k =
     \<lparr>cl_key = k, cl_created_at = now, cl_message_count = 0, cl_last_active_at = now\<rparr>"

definition cl_record_message :: "nat \<Rightarrow> conversation_lane \<Rightarrow> conversation_lane" where
  "cl_record_message now l = l\<lparr>cl_message_count := cl_message_count l + 1, cl_last_active_at := now\<rparr>"

record task_lane =
  tl_task_id :: string
  tl_created_at :: nat
  tl_status :: task_lane_status

definition task_lane_new :: "nat \<Rightarrow> string \<Rightarrow> task_lane" where
  "task_lane_new now task_id = \<lparr>tl_task_id = task_id, tl_created_at = now, tl_status = Queued\<rparr>"

text \<open>\<open>u64::to_le_bytes\<close>, and the bytes the tip fingerprint hashes; the hash itself is a library's.\<close>

definition le_bytes64 :: "64 word \<Rightarrow> string" where
  "le_bytes64 w = map (\<lambda>i. char_of (unat w div 256 ^ i mod 256)) [0..<8]"

definition tip_preimage :: "conversation_lane \<Rightarrow> string" where
  "tip_preimage l =
     (let key_str = lane_key_to_string (cl_key l) in
        le_bytes64 (of_nat (length key_str)) @ key_str @ le_bytes64 (cl_message_count l))"

lemma length_le_bytes64 [simp]: "length (le_bytes64 w) = 8"
  by (simp add: le_bytes64_def)

lemma base_256_inj:
  fixes x y :: nat
  assumes "\<forall>i<n. x div 256 ^ i mod 256 = y div 256 ^ i mod 256" and "x < 256 ^ n" and "y < 256 ^ n"
  shows "x = y"
  using assms
proof (induction n arbitrary: x y)
  case 0
  then show ?case by simp
next
  case (Suc n)
  have "x mod 256 = y mod 256" using Suc.prems(1) by (metis div_by_1 power_0 zero_less_Suc)
  moreover have "x div 256 = y div 256"
  proof (rule Suc.IH)
    show "\<forall>i<n. x div 256 div 256 ^ i mod 256 = y div 256 div 256 ^ i mod 256"
      using Suc.prems(1) by (metis Suc_less_eq div_mult2_eq power_Suc)
    show "x div 256 < 256 ^ n" "y div 256 < 256 ^ n"
      using Suc.prems(2,3) by (simp_all add: less_mult_imp_div_less mult.commute)
  qed
  ultimately show ?case by (metis div_mult_mod_eq)
qed

lemma char_of_byte_inj: "x < 256 \<Longrightarrow> y < 256 \<Longrightarrow> char_of (x::nat) = char_of y \<Longrightarrow> x = y"
  by (metis char_of_eq_iff mod_less of_char_of)

lemma le_bytes64_inj: "le_bytes64 v = le_bytes64 w \<longleftrightarrow> v = w"
proof
  assume eq: "le_bytes64 v = le_bytes64 w"
  have "unat v div 256 ^ i mod 256 = unat w div 256 ^ i mod 256" if "i < 8" for i
  proof (rule char_of_byte_inj)
    have "le_bytes64 v ! i = le_bytes64 w ! i" by (simp add: eq)
    with that show "char_of (unat v div 256 ^ i mod 256) = char_of (unat w div 256 ^ i mod 256)"
      by (simp add: le_bytes64_def)
  qed simp_all
  moreover have "unat v < 256 ^ 8" "unat w < 256 ^ 8"
    using unsigned_less [of v] unsigned_less [of w] by (simp_all del: unsigned_less)
  ultimately have "unat v = unat w" using base_256_inj [of 8 "unat v" "unat w"] by blast
  then show "v = w" by (simp add: word_unat_eq_iff)
qed simp

section \<open>The manager\<close>

record lane_manager =
  lm_conversations :: "(lane_key, nat) table"
  lm_tasks :: "(string, nat) table"
  lm_conversation_heap :: "conversation_lane list"
  lm_task_heap :: "task_lane list"

definition lane_manager_new :: lane_manager where
  "lane_manager_new =
     \<lparr>lm_conversations = [], lm_tasks = [], lm_conversation_heap = [], lm_task_heap = []\<rparr>"

definition get_or_create_conversation :: "nat \<Rightarrow> lane_key \<Rightarrow> lane_manager \<Rightarrow> nat \<times> lane_manager" where
  "get_or_create_conversation now k m =
     (case tget (lm_conversations m) k of
        Some r \<Rightarrow> (r, m)
      | None \<Rightarrow>
          let r = length (lm_conversation_heap m) in
          (r, m\<lparr>lm_conversations := tput k r (lm_conversations m),
                lm_conversation_heap := lm_conversation_heap m @ [conversation_lane_new now k]\<rparr>))"

definition create_task_lane :: "nat \<Rightarrow> string \<Rightarrow> lane_manager \<Rightarrow> nat \<times> lane_manager" where
  "create_task_lane now task_id m =
     (let r = length (lm_task_heap m) in
      (r, m\<lparr>lm_tasks := tput task_id r (lm_tasks m),
            lm_task_heap := lm_task_heap m @ [task_lane_new now task_id]\<rparr>))"

definition get_task_lane :: "string \<Rightarrow> lane_manager \<Rightarrow> nat option" where
  "get_task_lane task_id m = tget (lm_tasks m) task_id"

definition remove_task_lane :: "string \<Rightarrow> lane_manager \<Rightarrow> nat option \<times> lane_manager" where
  "remove_task_lane task_id m =
     (tget (lm_tasks m) task_id, m\<lparr>lm_tasks := tdel task_id (lm_tasks m)\<rparr>)"

definition conversation_count :: "lane_manager \<Rightarrow> nat" where
  "conversation_count m = length (lm_conversations m)"

definition task_count :: "lane_manager \<Rightarrow> nat" where
  "task_count m = length (lm_tasks m)"

text \<open>What a holder of a reference does to the lane behind it.\<close>

definition record_message_at :: "nat \<Rightarrow> nat \<Rightarrow> lane_manager \<Rightarrow> lane_manager" where
  "record_message_at now r m =
     m\<lparr>lm_conversation_heap :=
         (lm_conversation_heap m)[r := cl_record_message now (lm_conversation_heap m ! r)]\<rparr>"

definition set_status_at :: "nat \<Rightarrow> task_lane_status \<Rightarrow> lane_manager \<Rightarrow> lane_manager" where
  "set_status_at r st m =
     m\<lparr>lm_task_heap := (lm_task_heap m)[r := (lm_task_heap m ! r)\<lparr>tl_status := st\<rparr>]\<rparr>"

datatype lane_op =
    OpConversation nat lane_key
  | OpCreateTask nat string
  | OpRemoveTask string
  | OpMessage nat nat
  | OpStatus nat task_lane_status

fun lane_step :: "lane_manager \<Rightarrow> lane_op \<Rightarrow> lane_manager" where
  "lane_step m (OpConversation now k) = snd (get_or_create_conversation now k m)"
| "lane_step m (OpCreateTask now t) = snd (create_task_lane now t m)"
| "lane_step m (OpRemoveTask t) = snd (remove_task_lane t m)"
| "lane_step m (OpMessage now r) = record_message_at now r m"
| "lane_step m (OpStatus r st) = set_status_at r st m"

definition lane_run :: "lane_op list \<Rightarrow> lane_manager \<Rightarrow> lane_manager" where
  "lane_run ops m = fold (\<lambda>op m. lane_step m op) ops m"

text \<open>
  The invariant: the maps have distinct keys, their references are live, a lane is filed under
  its own key, and no two task ids share a lane.
\<close>

definition lane_manager_ok :: "lane_manager \<Rightarrow> bool" where
  "lane_manager_ok m =
     (table_ok (lm_conversations m) \<and> table_ok (lm_tasks m)
    \<and> (\<forall>k r. tget (lm_conversations m) k = Some r \<longrightarrow>
         r < length (lm_conversation_heap m) \<and> cl_key (lm_conversation_heap m ! r) = k)
    \<and> (\<forall>t r. tget (lm_tasks m) t = Some r \<longrightarrow>
         r < length (lm_task_heap m) \<and> tl_task_id (lm_task_heap m ! r) = t))"

lemma lane_manager_ok_new: "lane_manager_ok lane_manager_new"
  by (simp add: lane_manager_ok_def lane_manager_new_def)

lemma lane_step_ok: "lane_manager_ok m \<Longrightarrow> lane_manager_ok (lane_step m op)"
proof (cases op)
  case (OpConversation now k)
  assume "lane_manager_ok m"
  then show ?thesis
    by (auto simp: OpConversation lane_manager_ok_def get_or_create_conversation_def Let_def
        table_simps nth_append conversation_lane_new_def less_Suc_eq split: option.splits)
next
  case (OpCreateTask now t)
  assume "lane_manager_ok m"
  then show ?thesis
    by (auto simp: OpCreateTask lane_manager_ok_def create_task_lane_def Let_def table_simps
        nth_append task_lane_new_def less_Suc_eq)
next
  case (OpRemoveTask t)
  assume "lane_manager_ok m"
  then show ?thesis
    by (auto simp: OpRemoveTask lane_manager_ok_def remove_task_lane_def table_simps)
next
  case (OpMessage now r)
  assume "lane_manager_ok m"
  then show ?thesis
    by (auto simp: OpMessage lane_manager_ok_def record_message_at_def cl_record_message_def
        nth_update_keep [where f = cl_key])
next
  case (OpStatus r st)
  assume "lane_manager_ok m"
  then show ?thesis
    by (auto simp: OpStatus lane_manager_ok_def set_status_at_def
        nth_update_keep [where f = tl_task_id])
qed

lemma lane_run_ok: "lane_manager_ok m \<Longrightarrow> lane_manager_ok (lane_run ops m)"
  by (induction ops arbitrary: m) (auto simp: lane_run_def lane_step_ok)

lemma lane_step_keeps_conversation:
  "tget (lm_conversations m) k = Some r \<Longrightarrow> tget (lm_conversations (lane_step m op)) k = Some r"
  by (cases op) (auto simp: get_or_create_conversation_def create_task_lane_def remove_task_lane_def
      record_message_at_def set_status_at_def Let_def table_simps split: option.splits)

lemma lane_run_keeps_conversation:
  "tget (lm_conversations m) k = Some r \<Longrightarrow> tget (lm_conversations (lane_run ops m)) k = Some r"
  by (induction ops arbitrary: m) (auto simp: lane_run_def lane_step_keeps_conversation)

lemma lane_run_append: "lane_run (xs @ ys) m = lane_run ys (lane_run xs m)"
  by (simp add: lane_run_def)

section \<open>Properties\<close>

text \<open>Parsing and printing lane keys: printing a key and parsing the text gives the key back
  exactly when its user id and source are non-empty and the user id holds no colon, and whatever
  parses prints back to the very text it was parsed from.\<close>

theorem lane_key_round_trip:
  "(lane_key_from_str (lane_key_to_string k) = Some k \<longleftrightarrow>
      user_id k \<noteq> [] \<and> source k \<noteq> [] \<and> CHR '':'' \<notin> set (user_id k))
   \<and> map_option lane_key_to_string (lane_key_from_str s) \<in> {None, Some s}"
proof -
  have "map_option lane_key_to_string (lane_key_from_str s) \<in> {None, Some s}"
    using lane_key_from_str_Some [of s] by (cases "lane_key_from_str s") auto
  then show ?thesis by (simp add: lane_key_from_str_Some canonical_key_def)
qed

text \<open>Asking for a conversation lane is idempotent for the life of the manager: after any further
  operations, a request for the same key returns the same shared lane, so a message recorded
  through one holder is counted for every other one.\<close>

theorem conversation_lane_shared:
  assumes "lane_manager_ok m"
  shows "case get_or_create_conversation now k m of (r, m') \<Rightarrow>
      fst (get_or_create_conversation now' k (lane_run ops m')) = r
    \<and> cl_message_count (lm_conversation_heap (record_message_at now'' r (lane_run ops m')) ! r)
        = cl_message_count (lm_conversation_heap (lane_run ops m') ! r) + 1"
proof -
  obtain r m' where r: "get_or_create_conversation now k m = (r, m')" by force
  have step: "m' = lane_step m (OpConversation now k)" by (simp add: r)
  have got: "tget (lm_conversations m') k = Some r"
    using r by (auto simp: get_or_create_conversation_def Let_def table_simps split: option.splits)
  then have kept: "tget (lm_conversations (lane_run ops m')) k = Some r"
    by (rule lane_run_keeps_conversation)
  have "lane_manager_ok (lane_run ops m')"
    unfolding step by (intro lane_run_ok lane_step_ok assms)
  with kept have "r < length (lm_conversation_heap (lane_run ops m'))"
    by (simp add: lane_manager_ok_def)
  with kept show ?thesis
    unfolding r
    by (simp add: get_or_create_conversation_def record_message_at_def cl_record_message_def)
qed

lemma conversation_lane_shared_witness:
  "fst (get_or_create_conversation 9 \<lparr>user_id = ''u'', source = ''gui''\<rparr>
      (lane_run [OpCreateTask 3 ''t1'', OpMessage 4 0, OpRemoveTask ''t1'']
        (snd (get_or_create_conversation 1 \<lparr>user_id = ''u'', source = ''gui''\<rparr> lane_manager_new)))) = 0"
  using conversation_lane_shared [OF lane_manager_ok_new, where now = 1 and now' = 9 and now'' = 10
      and k = "\<lparr>user_id = ''u'', source = ''gui''\<rparr>"
      and ops = "[OpCreateTask 3 ''t1'', OpMessage 4 0, OpRemoveTask ''t1'']"]
  by (simp add: get_or_create_conversation_def lane_manager_new_def Let_def)

text \<open>Every reachable manager is well formed: whatever the operations, each map holds live
  references only, and every lane is found under its own key or task id and no other.\<close>

theorem lane_manager_invariant:
  "lane_manager_ok (lane_run ops lane_manager_new)"
  by (rule lane_run_ok) (rule lane_manager_ok_new)

text \<open>Two lanes hash the same bytes for their tip exactly if their printed keys and their message
  counts agree, so within a lane every recorded message changes what is hashed.\<close>

theorem tip_preimage_injective:
  "(tip_preimage a = tip_preimage b \<longleftrightarrow>
      lane_key_to_string (cl_key a) = lane_key_to_string (cl_key b)
      \<and> cl_message_count a = cl_message_count b)
   \<and> tip_preimage (cl_record_message now a) \<noteq> tip_preimage a"
proof -
  have eq: "tip_preimage a = tip_preimage b \<longleftrightarrow>
      lane_key_to_string (cl_key a) = lane_key_to_string (cl_key b)
      \<and> cl_message_count a = cl_message_count b" for a b
    by (auto simp: tip_preimage_def Let_def le_bytes64_inj)
  show ?thesis by (simp add: eq cl_record_message_def)
qed

end
