(* ===== verification/Capabilities.thy ===== *)
theory Capabilities
  imports Prelude
begin

text \<open>
  Layer 1 of the security gate: who may do what. The trust gate of principals
  (\<open>crates/openalpaca_core/src/security/policy.rs\<close>), the allow and deny lists of agents and
  models (\<open>security/capabilities/mod.rs\<close>), the constraints they come from
  (\<open>agent/subagent/mod.rs\<close>), and the sandbox policy built from those
  (\<open>security/sandbox/mod.rs\<close>). \<open>str::to_lowercase\<close> is the argument \<open>lc\<close>.
\<close>

section \<open>Violations\<close>

datatype security_violation =
    AccessDenied string
  | CapabilityDenied string string
  | CapabilityNotAllowed string string
  | InputBlocked string
  | UnauthorizedModelAccess string string string

fun violation_to_string :: "security_violation \<Rightarrow> string" where
  "violation_to_string (AccessDenied reason) = ''Access denied: '' @ reason"
| "violation_to_string (CapabilityDenied agent cap) =
     ''Capability '' @ [CHR 0x27] @ cap @ [CHR 0x27] @ '' denied for agent '' @ [CHR 0x27] @ agent @ [CHR 0x27]"
| "violation_to_string (CapabilityNotAllowed agent cap) =
     ''Capability '' @ [CHR 0x27] @ cap @ [CHR 0x27] @ '' not in allow list for agent '' @ [CHR 0x27] @ agent
     @ [CHR 0x27]"
| "violation_to_string (InputBlocked reason) = ''Input blocked: '' @ reason"
| "violation_to_string (UnauthorizedModelAccess agent model reason) =
     ''Model access denied: agent='' @ [CHR 0x27] @ agent @ [CHR 0x27] @ '', model='' @ [CHR 0x27] @ model
     @ [CHR 0x27] @ '', reason='' @ [CHR 0x27] @ reason @ [CHR 0x27]"

section \<open>Principals\<close>

datatype principal = System | User string | External string string

datatype scope = Global | Workspace string | Conversation string

definition is_high_risk :: "string \<Rightarrow> bool" where
  "is_high_risk action =
     (starts_with action ''system.'' \<or> starts_with action ''fs.write'' \<or> starts_with action ''net.connect'')"

definition trust_check :: "principal \<Rightarrow> string \<Rightarrow> scope \<Rightarrow> (string, unit) res" where
  "trust_check p action sc =
     (case p of
        System \<Rightarrow> Ok ()
      | User _ \<Rightarrow> Ok ()
      | External provider _ \<Rightarrow>
          if is_high_risk action then
            Err (''Permission Denied: Unlinked '' @ provider @ '' user cannot perform high-risk action ''
                 @ [CHR 0x27] @ action @ [CHR 0x27] @ ''. Please link your account.'')
          else if action = ''chat.respond'' then
            Err (''Permission Denied: Unlinked '' @ provider
                 @ '' user cannot chat. Please link your account.'')
          else Ok ())"

definition check_principal :: "principal \<Rightarrow> string \<Rightarrow> scope \<Rightarrow> (security_violation, unit) res" where
  "check_principal p action sc = map_err AccessDenied (trust_check p action sc)"

definition check_access :: "principal \<Rightarrow> string \<Rightarrow> scope \<Rightarrow> (string, unit) res" where
  "check_access p action sc = map_err violation_to_string (check_principal p action sc)"

section \<open>Agents\<close>

record agent_constraints =
  ac_max_tool_calls :: "32 word option"
  ac_timeout_seconds :: "64 word option"
  ac_max_cost_per_task :: "rat option"
  ac_max_rounds :: "nat option"
  ac_require_confirmation_for :: "string list"
  ac_allowed_capabilities :: "string list"
  ac_denied_capabilities :: "string list"
  ac_allowed_models :: "string list"
  ac_denied_models :: "string list"
  ac_auto_approve :: bool
  ac_denied_sections :: "string list"
  ac_max_context_tokens :: "nat option"

definition constraints_default :: agent_constraints where
  "constraints_default =
     \<lparr>ac_max_tool_calls = None, ac_timeout_seconds = None, ac_max_cost_per_task = None,
      ac_max_rounds = None, ac_require_confirmation_for = [], ac_allowed_capabilities = [],
      ac_denied_capabilities = [], ac_allowed_models = [], ac_denied_models = [],
      ac_auto_approve = False, ac_denied_sections = [], ac_max_context_tokens = None\<rparr>"

definition normalize :: "(string \<Rightarrow> string) \<Rightarrow> agent_constraints \<Rightarrow> agent_constraints" where
  "normalize lc c = c
     \<lparr>ac_allowed_capabilities := map lc (ac_allowed_capabilities c),
      ac_denied_capabilities := map lc (ac_denied_capabilities c),
      ac_allowed_models := map lc (ac_allowed_models c),
      ac_denied_models := map lc (ac_denied_models c),
      ac_denied_sections := map lc (ac_denied_sections c)\<rparr>"

datatype allowlist = Unrestricted | Only "string list"

definition allow_only :: "(string \<Rightarrow> string) \<Rightarrow> string list \<Rightarrow> allowlist" where
  "allow_only lc names = Only (map lc names)"

definition from_agent_constraints :: "(string \<Rightarrow> string) \<Rightarrow> agent_constraints \<Rightarrow> allowlist" where
  "from_agent_constraints lc c = allow_only lc (ac_allowed_capabilities c)"

fun admits :: "allowlist \<Rightarrow> string \<Rightarrow> bool" where
  "admits Unrestricted _ = True"
| "admits (Only names) cap = (cap \<in> set names)"

definition check_agent_capability ::
  "(string \<Rightarrow> string) \<Rightarrow> string \<Rightarrow> string \<Rightarrow> allowlist \<Rightarrow> string list \<Rightarrow> (security_violation, unit) res" where
  "check_agent_capability lc agent tool allowed denied =
     (let tool_lower = lc tool in
      if tool_lower \<in> set denied then Err (CapabilityDenied agent tool)
      else if \<not> admits allowed tool_lower then Err (CapabilityNotAllowed agent tool)
      else Ok ())"

definition quoted_model :: "string \<Rightarrow> string \<Rightarrow> string" where
  "quoted_model model rest = ''Model '' @ [CHR 0x27] @ model @ [CHR 0x27] @ rest"

definition check_model_access ::
  "(string \<Rightarrow> string) \<Rightarrow> string \<Rightarrow> string \<Rightarrow> agent_constraints \<Rightarrow> (security_violation, unit) res" where
  "check_model_access lc agent model c =
     (let model_lower = lc model in
      if model_lower \<in> set (ac_denied_models c) then
        Err (UnauthorizedModelAccess agent model (quoted_model model '' is on the deny list''))
      else if ac_allowed_models c \<noteq> [] \<and> model_lower \<notin> set (ac_allowed_models c) then
        Err (UnauthorizedModelAccess agent model (quoted_model model '' is not in the allow list''))
      else Ok ())"

section \<open>The sandbox policy\<close>

record sandbox_policy =
  sp_agent_id :: string
  sp_allowed_capabilities :: allowlist
  sp_denied_capabilities :: "string list"
  sp_require_confirmation_for :: "string list"
  sp_max_tool_calls :: "32 word option"
  sp_max_tool_runtime_secs :: "64 word"
  sp_stream_id :: "string option"
  sp_lane_key :: "string option"
  sp_confirmation_timeout_secs :: "64 word option"
  sp_auto_approve :: bool
  sp_unattended :: bool

definition from_constraints :: "(string \<Rightarrow> string) \<Rightarrow> string \<Rightarrow> agent_constraints \<Rightarrow> sandbox_policy" where
  "from_constraints lc agent c =
     \<lparr>sp_agent_id = agent,
      sp_allowed_capabilities = from_agent_constraints lc c,
      sp_denied_capabilities = ac_denied_capabilities c,
      sp_require_confirmation_for = ac_require_confirmation_for c,
      sp_max_tool_calls = ac_max_tool_calls c,
      sp_max_tool_runtime_secs = (case ac_timeout_seconds c of None \<Rightarrow> 60 | Some s \<Rightarrow> s),
      sp_stream_id = None,
      sp_lane_key = None,
      sp_confirmation_timeout_secs = None,
      sp_auto_approve = ac_auto_approve c,
      sp_unattended = False\<rparr>"

definition push_new :: "string \<Rightarrow> string list \<Rightarrow> string list" where
  "push_new name names = (if name \<in> set names then names else names @ [name])"

text \<open>The definitions handed to the loop are read for their names only.\<close>

definition admit_tool_surface ::
  "(string \<Rightarrow> string) \<Rightarrow> string list \<Rightarrow> sandbox_policy \<Rightarrow> sandbox_policy" where
  "admit_tool_surface lc defs p =
     (case sp_allowed_capabilities p of
        Unrestricted \<Rightarrow> p
      | Only allowed \<Rightarrow>
          if allowed = [] then p
          else p\<lparr>sp_allowed_capabilities := Only (fold (\<lambda>d acc. push_new (lc d) acc) defs allowed)\<rparr>)"

section \<open>Lemmas\<close>

lemma set_fold_push_new: "set (fold (\<lambda>d acc. push_new (lc d) acc) defs acc) = set acc \<union> lc ` set defs"
  by (induction defs arbitrary: acc) (auto simp: push_new_def)

lemma distinct_fold_push_new:
  "distinct acc \<Longrightarrow> distinct (fold (\<lambda>d acc. push_new (lc d) acc) defs acc)"
  by (induction defs arbitrary: acc) (auto simp: push_new_def)

lemma is_ok_check_agent_capability:
  "is_ok (check_agent_capability lc agent tool allowed denied) \<longleftrightarrow>
     lc tool \<notin> set denied \<and> admits allowed (lc tool)"
  by (simp add: check_agent_capability_def Let_def)

section \<open>Properties\<close>

text \<open>The trust gate refuses exactly one kind of request: that of an unlinked external identity for
  a high-risk action or for chatting. The system and every linked user pass, whatever the
  scope, and the facade reports the same verdict under an Access denied text.\<close>

theorem trust_gate_exact:
  "(is_ok (check_access p action sc) \<longleftrightarrow>
      \<not> ((\<exists>provider id. p = External provider id) \<and> (is_high_risk action \<or> action = ''chat.respond'')))
   \<and> (\<forall>e. check_access p action sc = Err e \<longleftrightarrow>
        (\<exists>r. trust_check p action sc = Err r \<and> e = ''Access denied: '' @ r))"
  by (cases p) (auto simp: check_access_def check_principal_def trust_check_def)

text \<open>What an agent may call under constraints as its template writes them, whatever the case of
  their entries: once the constraints are normalized and turned into a policy, the check admits
  a tool exactly if no denied entry spells it up to case and some allowed entry does; deny wins
  over allow, and an empty list admits nothing. Lowercasing twice is assumed to change
  nothing.\<close>

theorem normalized_policy_admits:
  assumes "\<And>s. lc (lc s) = lc s"
  shows "(let p = from_constraints lc agent (normalize lc c) in
      check_agent_capability lc agent tool (sp_allowed_capabilities p) (sp_denied_capabilities p))
    = (if \<exists>d\<in>set (ac_denied_capabilities c). lc d = lc tool then Err (CapabilityDenied agent tool)
       else if \<exists>a\<in>set (ac_allowed_capabilities c). lc a = lc tool then Ok ()
       else Err (CapabilityNotAllowed agent tool))"
  using assms(1)
  by (simp add: check_agent_capability_def from_constraints_def normalize_def
      from_agent_constraints_def allow_only_def Let_def mem_image_iff)

lemma ascii_lower_char_idem: "ascii_lower_char (ascii_lower_char c) = ascii_lower_char c"
proof -
  have "byte_of c < 256" by (simp add: byte_of_def)
  then show ?thesis
    by (auto simp: ascii_lower_char_def byte_of_def of_char_of)
qed

lemma ascii_lower_idem [simp]: "ascii_lower (ascii_lower s) = ascii_lower s"
  by (simp add: ascii_lower_def ascii_lower_char_idem)

definition demo_constraints :: agent_constraints where
  "demo_constraints = constraints_default
     \<lparr>ac_allowed_capabilities := [''Acme__Search'', ''file_read''],
      ac_denied_capabilities := [''File_Read'']\<rparr>"

lemma normalized_policy_admits_witness:
  "(let p = from_constraints ascii_lower ''a'' (normalize ascii_lower demo_constraints) in
      check_agent_capability ascii_lower ''a'' ''acme__SEARCH'' (sp_allowed_capabilities p)
        (sp_denied_capabilities p)) = Ok ()"
proof -
  have "\<not> (\<exists>d\<in>set (ac_denied_capabilities demo_constraints). ascii_lower d = ascii_lower ''acme__SEARCH'')"
    and "\<exists>a\<in>set (ac_allowed_capabilities demo_constraints). ascii_lower a = ascii_lower ''acme__SEARCH''"
    by code_simp+
  then show ?thesis
    using normalized_policy_admits [where lc = ascii_lower, OF ascii_lower_idem] by simp
qed

text \<open>Admitting a tool surface widens the policy by the names of the surface and by nothing else,
  never past the deny list, and not at all when the allow list is empty or unrestricted; names
  are not duplicated.\<close>

theorem admit_tool_surface_exact:
  "(is_ok (let q = admit_tool_surface lc defs p in
        check_agent_capability lc agent tool (sp_allowed_capabilities q) (sp_denied_capabilities q))
      \<longleftrightarrow> lc tool \<notin> set (sp_denied_capabilities p)
        \<and> (admits (sp_allowed_capabilities p) (lc tool)
           \<or> (sp_allowed_capabilities p \<noteq> Only [] \<and> lc tool \<in> lc ` set defs)))
    \<and> (\<forall>names. sp_allowed_capabilities p = Only names \<and> distinct names \<longrightarrow>
         (\<exists>names'. sp_allowed_capabilities (admit_tool_surface lc defs p) = Only names' \<and> distinct names'))"
  by (cases "sp_allowed_capabilities p")
    (auto simp: Let_def is_ok_check_agent_capability admit_tool_surface_def set_fold_push_new
      distinct_fold_push_new)

definition demo_policy :: sandbox_policy where
  "demo_policy = from_constraints ascii_lower ''a''
     (constraints_default\<lparr>ac_allowed_capabilities := [''web_access'']\<rparr>)"

lemma admit_tool_surface_exact_witness:
  "is_ok (let q = admit_tool_surface ascii_lower [''web_fetch''] demo_policy in
     check_agent_capability ascii_lower ''a'' ''Web_Fetch'' (sp_allowed_capabilities q) (sp_denied_capabilities q))
   \<and> (\<exists>names'. sp_allowed_capabilities (admit_tool_surface ascii_lower [''web_fetch''] demo_policy) = Only names'
        \<and> distinct names')"
proof -
  have "sp_allowed_capabilities demo_policy = Only [''web_access'']"
    and "ascii_lower ''Web_Fetch'' \<notin> set (sp_denied_capabilities demo_policy)"
    and "ascii_lower ''Web_Fetch'' \<in> ascii_lower ` set [''web_fetch'']"
    by code_simp+
  then show ?thesis
    using admit_tool_surface_exact [of ascii_lower "[''web_fetch'']" demo_policy "''a''" "''Web_Fetch''"] by simp
qed

text \<open>Model access: after normalizing, a model is refused exactly if a denied entry spells it up
  to case, or the allow list is non-empty and no entry of it does; here, unlike for
  capabilities, an empty allow list restricts nothing.\<close>

theorem model_access_exact:
  "is_ok (check_model_access lc agent model (normalize lc c)) \<longleftrightarrow>
     \<not> (\<exists>d\<in>set (ac_denied_models c). lc d = lc model)
     \<and> (ac_allowed_models c = [] \<or> (\<exists>a\<in>set (ac_allowed_models c). lc a = lc model))"
  by (simp add: check_model_access_def normalize_def Let_def mem_image_iff)

end
