(* ===== verification/Sanitizer.thy ===== *)
theory Sanitizer
  imports Capabilities Json
begin

text \<open>
  Layer 2 of the security gate (\<open>crates/openalpaca_core/src/security/sanitizer/mod.rs\<close>): user
  input, tool arguments, and file uploads with their archive-bomb estimate and image dimensions.
  Uploaded bytes are a list of \<open>8 word\<close>; the magic-byte detection of the \<open>infer\<close> crate is the
  argument \<open>infer\<close>. The compression ratio is kept as the two sums it is the quotient of, and
  compared exactly; the sums of 32-bit sizes are exact as \<open>f64\<close>.
\<close>

section \<open>Text\<close>

definition MAX_INPUT_LENGTH :: nat where
  "MAX_INPUT_LENGTH = 32 * 1024"

definition nul :: char where
  "nul = CHR 0x00"

definition sanitize_user_input :: "string \<Rightarrow> nat option \<Rightarrow> (security_violation, string) res" where
  "sanitize_user_input input max_input_length =
     (let max_len = (case max_input_length of None \<Rightarrow> MAX_INPUT_LENGTH | Some n \<Rightarrow> n) in
      if max_len < length input then
        Err (InputBlocked (''Input exceeds maximum length ('' @ show_nat (length input) @ '' > ''
               @ show_nat max_len @ '' bytes)''))
      else if nul \<in> set input then Err (InputBlocked ''Input contains null bytes'')
      else Ok input)"

definition sanitize_input :: "string \<Rightarrow> nat option \<Rightarrow> (string, string) res" where
  "sanitize_input input max_input_length =
     map_err violation_to_string (sanitize_user_input input max_input_length)"

section \<open>Tool arguments\<close>

datatype traversal_rule = Refuse | Allow

definition SHELL_TOOLS :: "string list" where
  "SHELL_TOOLS = [''shell_execute'']"

definition dot_dot_slash :: string where
  "dot_dot_slash = [CHR ''.'', CHR ''.'', CHR ''/'']"

definition dot_dot_backslash :: string where
  "dot_dot_backslash = [CHR ''.'', CHR ''.'', CHR 0x5C]"

definition injection_patterns :: "(string \<times> string) list" where
  "injection_patterns =
     [([CHR 0x60], ''backtick command substitution''),
      (''$('', ''command substitution ($()''),
      ([CHR 0x0A], ''newline (command separator)''),
      ([CHR 0x0D], ''carriage return'')]"

definition check_string_safety :: "string \<Rightarrow> bool \<Rightarrow> traversal_rule \<Rightarrow> (security_violation, unit) res" where
  "check_string_safety s check_injection traversal =
     (if traversal = Refuse \<and> (str_contains s dot_dot_slash \<or> str_contains s dot_dot_backslash)
      then Err (InputBlocked ''Path traversal pattern detected'')
      else if nul \<in> set s then Err (InputBlocked ''Argument contains null bytes'')
      else if check_injection then
        (case List.find (\<lambda>(pattern, desc). str_contains s pattern) injection_patterns of
           Some (pattern, desc) \<Rightarrow> Err (InputBlocked (''Potential command injection: '' @ desc))
         | None \<Rightarrow> Ok ())
      else Ok ())"

text \<open>The walk stops at the first value that is refused.\<close>

fun check_value_safety :: "json \<Rightarrow> bool \<Rightarrow> traversal_rule \<Rightarrow> (security_violation, unit) res"
  and check_array_safety :: "json list \<Rightarrow> bool \<Rightarrow> traversal_rule \<Rightarrow> (security_violation, unit) res"
  and check_object_safety :: "(string \<times> json) list \<Rightarrow> bool \<Rightarrow> traversal_rule \<Rightarrow> (security_violation, unit) res"
where
  "check_value_safety (JString s) cj tr = check_string_safety s cj tr"
| "check_value_safety (JArray vs) cj tr = check_array_safety vs cj tr"
| "check_value_safety (JObject ms) cj tr = check_object_safety ms cj tr"
| "check_value_safety JNull cj tr = Ok ()"
| "check_value_safety (JBool b) cj tr = Ok ()"
| "check_value_safety (JNumber n) cj tr = Ok ()"
| "check_array_safety [] cj tr = Ok ()"
| "check_array_safety (v # vs) cj tr =
     (case check_value_safety v cj tr of Inl e \<Rightarrow> Err e | Inr _ \<Rightarrow> check_array_safety vs cj tr)"
| "check_object_safety [] cj tr = Ok ()"
| "check_object_safety ((k, v) # ms) cj tr =
     (case check_value_safety v cj tr of Inl e \<Rightarrow> Err e | Inr _ \<Rightarrow> check_object_safety ms cj tr)"

definition sanitize_tool_args_with ::
  "string \<Rightarrow> json \<Rightarrow> string list \<Rightarrow> string list \<Rightarrow> traversal_rule \<Rightarrow> (security_violation, unit) res" where
  "sanitize_tool_args_with tool_name arguments allowed_tools extra_shell_tools traversal =
     (if allowed_tools \<noteq> [] \<and> tool_name \<notin> set allowed_tools then
        Err (InputBlocked (''Tool '' @ [CHR 0x27] @ tool_name @ [CHR 0x27] @ '' is not in the allowed tools list''))
      else
        let is_shell_tool = tool_name \<in> set SHELL_TOOLS \<or> tool_name \<in> set extra_shell_tools in
        check_value_safety arguments is_shell_tool traversal)"

definition sanitize_tool_args ::
  "string \<Rightarrow> json \<Rightarrow> string list \<Rightarrow> string list \<Rightarrow> (security_violation, unit) res" where
  "sanitize_tool_args tool_name arguments allowed_tools extra_shell_tools =
     sanitize_tool_args_with tool_name arguments allowed_tools extra_shell_tools Refuse"

section \<open>Uploads\<close>

type_synonym bytes = "8 word list"

definition le16 :: "bytes \<Rightarrow> nat \<Rightarrow> nat" where
  "le16 d i = unat (d ! i) + 256 * unat (d ! (i + 1))"

definition be16 :: "bytes \<Rightarrow> nat \<Rightarrow> nat" where
  "be16 d i = 256 * unat (d ! i) + unat (d ! (i + 1))"

definition le32 :: "bytes \<Rightarrow> nat \<Rightarrow> nat" where
  "le32 d i = le16 d i + 65536 * le16 d (i + 2)"

definition be32 :: "bytes \<Rightarrow> nat \<Rightarrow> nat" where
  "be32 d i = 65536 * be16 d i + be16 d (i + 2)"

definition to_bytes :: "string \<Rightarrow> bytes" where
  "to_bytes s = map (\<lambda>c. word_of_nat (byte_of c)) s"

definition has_at :: "bytes \<Rightarrow> nat \<Rightarrow> bytes \<Rightarrow> bool" where
  "has_at d i p = (take (length p) (drop i d) = p)"

definition zip_signature :: bytes where
  "zip_signature = [0x50, 0x4B, 3, 4]"

datatype zip_ratio = RatioInfinite | Ratio nat nat  \<comment> \<open>uncompressed over compressed bytes\<close>

fun exceeds :: "zip_ratio \<Rightarrow> nat \<Rightarrow> bool" where
  "exceeds RatioInfinite limit = True"
| "exceeds (Ratio u c) limit = (limit * c < u)"

text \<open>The walk over the local file headers from an offset, with the sums so far.\<close>

function zip_walk :: "bytes \<Rightarrow> nat \<Rightarrow> nat \<Rightarrow> nat \<Rightarrow> bool \<Rightarrow> zip_ratio option" where
  "zip_walk d offset total_c total_u found_any =
     (if length d < offset + 30 \<or> \<not> has_at d offset zip_signature then
        (if \<not> found_any then None
         else if total_c = 0 then Some (if 0 < total_u then RatioInfinite else Ratio 1 1)
         else Some (Ratio total_u total_c))
      else
        let c = le32 d (offset + 18); u = le32 d (offset + 22) in
        if c = 0 \<and> 0 < u then Some RatioInfinite
        else zip_walk d (offset + 30 + le16 d (offset + 26) + le16 d (offset + 28) + c)
               (total_c + c) (total_u + u) True)"
  by pat_completeness auto
termination
  by (relation "measure (\<lambda>(d, offset, _). length d - offset)") auto

declare zip_walk.simps [simp del]

definition estimate_zip_ratio :: "bytes \<Rightarrow> zip_ratio option" where
  "estimate_zip_ratio d = zip_walk d 0 0 0 False"

text \<open>The JPEG scan for a start-of-frame marker.\<close>

definition sof_marker :: "8 word \<Rightarrow> bool" where
  "sof_marker m = (0xC0 \<le> m \<and> m \<le> 0xCF \<and> m \<noteq> 0xC4 \<and> m \<noteq> 0xC8 \<and> m \<noteq> 0xCC)"

function jpeg_scan :: "bytes \<Rightarrow> nat \<Rightarrow> (nat \<times> nat) option" where
  "jpeg_scan d pos =
     (if \<not> pos + 4 < length d then None
      else if d ! pos \<noteq> 0xFF then jpeg_scan d (pos + 1)
      else if sof_marker (d ! (pos + 1)) \<and> pos + 9 < length d
        then Some (be16 d (pos + 7), be16 d (pos + 5))
      else if pos + 3 < length d then jpeg_scan d (pos + (2 + be16 d (pos + 2)))
      else None)"
  by pat_completeness auto
termination
  by (relation "measure (\<lambda>(d, pos). length d - pos)") auto

declare jpeg_scan.simps [simp del]

definition png_magic :: bytes where
  "png_magic = [0x89, 0x50, 0x4E, 0x47, 0x0D, 0x0A, 0x1A, 0x0A]"

definition read_image_dimensions :: "bytes \<Rightarrow> (nat \<times> nat) option" where
  "read_image_dimensions d =
     (if 24 \<le> length d \<and> has_at d 0 png_magic then Some (be32 d 16, be32 d 20)
      else if 10 \<le> length d \<and> (has_at d 0 (to_bytes ''GIF87a'') \<or> has_at d 0 (to_bytes ''GIF89a''))
        then Some (le16 d 6, le16 d 8)
      else if 30 \<le> length d \<and> has_at d 0 (to_bytes ''RIFF'') \<and> has_at d 8 (to_bytes ''WEBP'')
          \<and> has_at d 12 (to_bytes ''VP8 '')
        then Some (le16 d 26, le16 d 28)
      else if 30 \<le> length d \<and> has_at d 0 (to_bytes ''RIFF'') \<and> has_at d 8 (to_bytes ''WEBP'')
          \<and> has_at d 12 (to_bytes ''VP8L'')
        then Some (take_bit 14 (le32 d 21) + 1, take_bit 14 (drop_bit 14 (le32 d 21)) + 1)
      else if 2 \<le> length d \<and> d ! 0 = 0xFF \<and> d ! 1 = 0xD8 then jpeg_scan d 2
      else None)"

definition mime_group :: "string list \<Rightarrow> string \<Rightarrow> string \<Rightarrow> bool" where
  "mime_group g a b = (a \<in> set g \<and> b \<in> set g)"

definition is_audio_mime_compatible :: "string \<Rightarrow> string \<Rightarrow> bool" where
  "is_audio_mime_compatible declared detected =
     (mime_group [''audio/m4a'', ''audio/mp4'', ''audio/x-m4a''] declared detected
    \<or> mime_group [''audio/mpeg'', ''audio/mp3''] declared detected
    \<or> mime_group [''audio/wav'', ''audio/x-wav'', ''audio/wave''] declared detected
    \<or> mime_group [''audio/flac'', ''audio/x-flac''] declared detected)"

definition is_text_mime_compatible :: "string \<Rightarrow> string \<Rightarrow> bytes \<Rightarrow> bool" where
  "is_text_mime_compatible declared detected d =
     (starts_with declared ''text/''
      \<and> (if detected = ''application/pdf'' then \<not> prefix (to_bytes ''%PDF'') d
         else detected = ''image/vnd.dwg''))"

definition is_container_compatible_mime :: "string \<Rightarrow> string \<Rightarrow> bool" where
  "is_container_compatible_mime declared detected =
     (if detected = ''application/zip'' then
        declared \<in> {''application/vnd.openxmlformats-officedocument.wordprocessingml.document'',
                    ''application/vnd.openxmlformats-officedocument.spreadsheetml.sheet'',
                    ''application/vnd.openxmlformats-officedocument.presentationml.presentation'',
                    ''application/vnd.apple.pages'',
                    ''application/vnd.apple.numbers'',
                    ''application/vnd.apple.keynote''}
      else if detected = ''application/x-cfb'' \<or> detected = ''application/x-ole-storage'' then
        declared \<in> {''application/msword'', ''application/vnd.ms-excel'', ''application/vnd.ms-powerpoint''}
      else False)"

definition is_zip_based :: "string \<Rightarrow> bool" where
  "is_zip_based declared =
     (declared = ''application/zip'' \<or> declared = ''application/x-zip-compressed''
      \<or> is_container_compatible_mime declared ''application/zip'')"

datatype upload_refusal =
    PathTraversal
  | NullBytes
  | NotRelative
  | TooLarge nat nat
  | MimeMismatch string string
  | ArchiveBomb zip_ratio
  | ImageTooLarge nat nat nat

text \<open>Each refusal is an \<open>InputBlocked\<close> whose text names these values.\<close>

definition filename_refusal :: "string \<Rightarrow> upload_refusal option" where
  "filename_refusal filename =
     (if str_contains filename dot_dot_slash \<or> str_contains filename dot_dot_backslash then Some PathTraversal
      else if nul \<in> set filename then Some NullBytes
      else if starts_with filename ''/'' \<or> starts_with filename [CHR 0x5C] \<or> starts_with filename ''~''
        then Some NotRelative
      else None)"

definition mime_refusal :: "string \<Rightarrow> string option \<Rightarrow> bytes \<Rightarrow> upload_refusal option" where
  "mime_refusal declared inferred d =
     (case inferred of
        None \<Rightarrow> None
      | Some m \<Rightarrow>
          if declared \<noteq> m \<and> \<not> is_container_compatible_mime declared m
             \<and> \<not> is_audio_mime_compatible declared m \<and> \<not> is_text_mime_compatible declared m d
          then Some (MimeMismatch declared m) else None)"

definition bomb_refusal :: "string \<Rightarrow> bytes \<Rightarrow> upload_refusal option" where
  "bomb_refusal declared d =
     (if is_zip_based declared then
        (case estimate_zip_ratio d of
           Some ratio \<Rightarrow> if exceeds ratio 100 then Some (ArchiveBomb ratio) else None
         | None \<Rightarrow> None)
      else None)"

definition image_refusal :: "string \<Rightarrow> bytes \<Rightarrow> nat \<Rightarrow> upload_refusal option" where
  "image_refusal declared d max_image_dimension =
     (if starts_with declared ''image/'' then
        (case read_image_dimensions d of
           Some (w, h) \<Rightarrow>
             if max_image_dimension < w \<or> max_image_dimension < h
             then Some (ImageTooLarge w h max_image_dimension) else None
         | None \<Rightarrow> None)
      else None)"

definition validate_upload_with_image_limit ::
  "(bytes \<Rightarrow> string option) \<Rightarrow> string \<Rightarrow> bytes \<Rightarrow> string \<Rightarrow> nat \<Rightarrow> nat \<Rightarrow> (upload_refusal, unit) res" where
  "validate_upload_with_image_limit infer filename d declared max_size max_image_dimension =
     (case filename_refusal filename of Some r \<Rightarrow> Err r | None \<Rightarrow>
      if max_size < length d then Err (TooLarge (length d) max_size) else
      case mime_refusal declared (infer d) d of Some r \<Rightarrow> Err r | None \<Rightarrow>
      case bomb_refusal declared d of Some r \<Rightarrow> Err r | None \<Rightarrow>
      case image_refusal declared d max_image_dimension of Some r \<Rightarrow> Err r | None \<Rightarrow> Ok ())"

definition validate_upload ::
  "(bytes \<Rightarrow> string option) \<Rightarrow> string \<Rightarrow> bytes \<Rightarrow> string \<Rightarrow> nat \<Rightarrow> (upload_refusal, unit) res" where
  "validate_upload infer filename d declared max_size =
     validate_upload_with_image_limit infer filename d declared max_size 8192"


section \<open>Tool arguments, as a set of strings\<close>

definition string_safe :: "string \<Rightarrow> bool \<Rightarrow> traversal_rule \<Rightarrow> bool" where
  "string_safe s shell tr =
     (nul \<notin> set s
      \<and> \<not> (tr = Refuse \<and> (sublist dot_dot_slash s \<or> sublist dot_dot_backslash s))
      \<and> \<not> (shell \<and> (CHR 0x60 \<in> set s \<or> sublist ''$('' s \<or> CHR 0x0A \<in> set s \<or> CHR 0x0D \<in> set s)))"

lemma sublist_single: "sublist [c] s \<longleftrightarrow> c \<in> set s"
  by (metis append.left_neutral append_Cons in_set_conv_decomp sublist_def)

lemma check_string_safety_ok: "is_ok (check_string_safety s shell tr) \<longleftrightarrow> string_safe s shell tr"
  by (auto simp: check_string_safety_def string_safe_def str_contains_iff injection_patterns_def sublist_single)

lemma check_safety_ok:
  "is_ok (check_value_safety v shell tr) \<longleftrightarrow> (\<forall>s\<in>set (json_strings v). string_safe s shell tr)"
  "is_ok (check_array_safety vs shell tr) \<longleftrightarrow>
     (\<forall>v\<in>set vs. \<forall>s\<in>set (json_strings v). string_safe s shell tr)"
  "is_ok (check_object_safety ms shell tr) \<longleftrightarrow>
     (\<forall>m\<in>set ms. \<forall>s\<in>set (json_strings (snd m)). string_safe s shell tr)"
proof (induction v shell tr and vs shell tr and ms shell tr
    rule: check_value_safety_check_array_safety_check_object_safety.induct)
  case (1 s cj tr)
  then show ?case by (simp add: check_string_safety_ok)
next
  case (8 v vs cj tr)
  then show ?case by (cases "check_value_safety v cj tr") auto
next
  case (10 k v ms cj tr)
  then show ?case by (cases "check_value_safety v cj tr") auto
qed auto

section \<open>Archives\<close>

text \<open>
  A local file entry: the header fields the walk reads, and the bytes that follow it. The rest of
  the 30-byte header is free.
\<close>

record zip_entry =
  ze_head :: bytes  \<comment> \<open>bytes 4 to 17: version, flags, method, time, checksum\<close>
  ze_name :: bytes
  ze_extra :: bytes
  ze_content :: bytes
  ze_uncompressed :: nat

definition put_le16 :: "nat \<Rightarrow> bytes" where
  "put_le16 n = [word_of_nat n, word_of_nat (n div 256)]"

definition put_le32 :: "nat \<Rightarrow> bytes" where
  "put_le32 n = put_le16 n @ put_le16 (n div 65536)"

definition zip_bytes :: "zip_entry \<Rightarrow> bytes" where
  "zip_bytes e = zip_signature @ ze_head e @ put_le32 (length (ze_content e)) @ put_le32 (ze_uncompressed e)
     @ put_le16 (length (ze_name e)) @ put_le16 (length (ze_extra e)) @ ze_name e @ ze_extra e @ ze_content e"

definition zip_entry_ok :: "zip_entry \<Rightarrow> bool" where
  "zip_entry_ok e =
     (length (ze_head e) = 14 \<and> length (ze_content e) < 2 ^ 32 \<and> ze_uncompressed e < 2 ^ 32
      \<and> length (ze_name e) < 2 ^ 16 \<and> length (ze_extra e) < 2 ^ 16
      \<and> ze_content e \<noteq> [])"

definition archive :: "zip_entry list \<Rightarrow> bytes" where
  "archive es = concat (map zip_bytes es)"

lemma unat_byte: "unat (word_of_nat n :: 8 word) = n mod 256"
  by (simp add: unat_of_nat)

lemma le16_put: "le16 (pre @ put_le16 n @ post) (length pre) = n mod 65536"
  using mod_mult2_eq [of n 256 256] by (simp add: le16_def put_le16_def nth_append unat_byte)

lemma le32_put: "le32 (pre @ put_le32 n @ post) (length pre) = n mod 2 ^ 32"
proof -
  have "le16 (pre @ put_le32 n @ post) (length pre + 2) = n div 65536 mod 65536"
    using le16_put [of "pre @ put_le16 n" "n div 65536" post] by (simp add: put_le32_def put_le16_def)
  moreover have "le16 (pre @ put_le32 n @ post) (length pre) = n mod 65536"
    using le16_put [of pre n "put_le16 (n div 65536) @ post"] by (simp add: put_le32_def)
  ultimately show ?thesis using mod_mult2_eq [of n 65536 65536] by (simp add: le32_def)
qed

lemma length_put [simp]: "length (put_le16 n) = 2" "length (put_le32 n) = 4"
  by (simp_all add: put_le16_def put_le32_def)

lemma zip_fields:
  fixes pre rest :: bytes
  assumes "zip_entry_ok e"
  defines "d \<equiv> pre @ zip_bytes e @ rest"
  shows "has_at d (length pre) zip_signature"
    and "le32 d (length pre + 18) = length (ze_content e)"
    and "le32 d (length pre + 22) = ze_uncompressed e"
    and "le16 d (length pre + 26) = length (ze_name e)"
    and "le16 d (length pre + 28) = length (ze_extra e)"
    and "length (zip_bytes e) = 30 + length (ze_name e) + length (ze_extra e) + length (ze_content e)"
proof -
  note ok = assms(1) [unfolded zip_entry_ok_def]
  show "has_at d (length pre) zip_signature"
    by (simp add: has_at_def d_def zip_bytes_def)
  have h: "length zip_signature = 4" by (simp add: zip_signature_def)
  let ?q = "put_le16 (length (ze_extra e)) @ ze_name e @ ze_extra e @ ze_content e @ rest"
  show "le32 d (length pre + 18) = length (ze_content e)"
    using le32_put [of "pre @ zip_signature @ ze_head e" "length (ze_content e)"
        "put_le32 (ze_uncompressed e) @ put_le16 (length (ze_name e)) @ ?q"] ok h
    by (simp add: d_def zip_bytes_def)
  show "le32 d (length pre + 22) = ze_uncompressed e"
    using le32_put [of "pre @ zip_signature @ ze_head e @ put_le32 (length (ze_content e))" "ze_uncompressed e"
        "put_le16 (length (ze_name e)) @ ?q"] ok h
    by (simp add: d_def zip_bytes_def)
  show "le16 d (length pre + 26) = length (ze_name e)"
    using le16_put [of "pre @ zip_signature @ ze_head e @ put_le32 (length (ze_content e))
        @ put_le32 (ze_uncompressed e)" "length (ze_name e)" ?q] ok h
    by (simp add: d_def zip_bytes_def)
  show "le16 d (length pre + 28) = length (ze_extra e)"
    using le16_put [of "pre @ zip_signature @ ze_head e @ put_le32 (length (ze_content e))
        @ put_le32 (ze_uncompressed e) @ put_le16 (length (ze_name e))" "length (ze_extra e)"
        "ze_name e @ ze_extra e @ ze_content e @ rest"] ok h
    by (simp add: d_def zip_bytes_def)
  show "length (zip_bytes e) = 30 + length (ze_name e) + length (ze_extra e) + length (ze_content e)"
    using ok h by (simp add: zip_bytes_def)
qed

definition no_entry :: "bytes \<Rightarrow> bool" where
  "no_entry tail = (length tail < 30 \<or> \<not> has_at tail 0 zip_signature)"

lemma zip_walk_archive:
  assumes "\<forall>e\<in>set es. zip_entry_ok e" and "no_entry tail" and "found \<or> es \<noteq> []" and "found \<Longrightarrow> 0 < tc"
  shows "zip_walk (pre @ archive es @ tail) (length pre) tc tu found =
    Some (Ratio (tu + sum_list (map ze_uncompressed es)) (tc + sum_list (map (length \<circ> ze_content) es)))"
  using assms
proof (induction es arbitrary: pre tc tu found)
  case Nil
  then show ?case
    by (subst zip_walk.simps) (auto simp: archive_def no_entry_def has_at_def)
next
  case (Cons e es)
  let ?d = "pre @ zip_bytes e @ archive es @ tail"
  have ok: "zip_entry_ok e" using Cons.prems(1) by simp
  note f = zip_fields(1-5) [OF ok, where pre = pre and rest = "archive es @ tail"] zip_fields(6) [OF ok]
  have d: "pre @ archive (e # es) @ tail = ?d" by (simp add: archive_def)
  have pos: "0 < length (ze_content e)" using ok by (simp add: zip_entry_ok_def)
  have "zip_walk ?d (length pre) tc tu found =
    zip_walk ?d (length pre + length (zip_bytes e)) (tc + length (ze_content e)) (tu + ze_uncompressed e) True"
    using f pos by (subst zip_walk.simps) (simp add: Let_def add.assoc)
  also have "\<dots> = Some (Ratio (tu + ze_uncompressed e + sum_list (map ze_uncompressed es))
      (tc + length (ze_content e) + sum_list (map (length \<circ> ze_content) es)))"
    using Cons.IH [of True "tc + length (ze_content e)" "pre @ zip_bytes e" "tu + ze_uncompressed e"]
      Cons.prems(1,2) pos by (simp add: comp_def)
  finally show ?case by (simp add: d add.assoc comp_def)
qed

section \<open>Properties\<close>

text \<open>C16: Tool arguments pass exactly when the tool is registered (or no tool is) and every string
  inside them, at any depth of arrays and objects, is safe: no null byte; no dot-dot-slash or
  dot-dot-backslash when the tool's traversal rule refuses them; and for a shell tool no
  backtick, command substitution, newline or carriage return.\<close>

theorem sanitize_tool_args_exact:
  "is_ok (sanitize_tool_args_with tool args allowed extra_shell tr) \<longleftrightarrow>
     (allowed = [] \<or> tool \<in> set allowed) \<and>
     list_all (\<lambda>s. string_safe s (tool = ''shell_execute'' \<or> tool \<in> set extra_shell) tr) (json_strings args)"
  by (simp add: sanitize_tool_args_with_def check_safety_ok SHELL_TOOLS_def Let_def list_all_iff)

text \<open>The archive-bomb estimate sees through many small entries: for every archive of well-formed
  local entries with content, whatever their names, extra fields, header details and the bytes
  after them, it is the quotient of the sum of the declared sizes by the sum of the compressed
  ones, so an upload declared as a zip-based type is refused as a bomb as soon as that quotient
  exceeds 100.\<close>

theorem archive_bomb_detected:
  assumes "es \<noteq> []" and "\<forall>e\<in>set es. zip_entry_ok e" and "no_entry tail"
  shows "estimate_zip_ratio (archive es @ tail) =
      Some (Ratio (sum_list (map ze_uncompressed es)) (sum_list (map (length \<circ> ze_content) es)))
    \<and> (is_zip_based declared \<longrightarrow>
        (bomb_refusal declared (archive es @ tail) \<noteq> None \<longleftrightarrow>
           100 * sum_list (map (length \<circ> ze_content) es) < sum_list (map ze_uncompressed es)))"
proof -
  have "estimate_zip_ratio (archive es @ tail) =
      Some (Ratio (sum_list (map ze_uncompressed es)) (sum_list (map (length \<circ> ze_content) es)))"
    using zip_walk_archive [of es tail False 0 "[]" 0] assms by (simp add: estimate_zip_ratio_def)
  then show ?thesis by (simp add: bomb_refusal_def)
qed

definition demo_entry :: "nat \<Rightarrow> zip_entry" where
  "demo_entry n = \<lparr>ze_head = replicate 14 0, ze_name = [97], ze_extra = [], ze_content = [0], ze_uncompressed = n\<rparr>"

lemma archive_bomb_detected_witness:
  "bomb_refusal ''application/zip'' (archive [demo_entry 90, demo_entry 120] @ [0x50, 0x4B, 1, 2]) \<noteq> None"
  using archive_bomb_detected [of "[demo_entry 90, demo_entry 120]" "[0x50, 0x4B, 1, 2]" "''application/zip''"]
  by (simp add: demo_entry_def zip_entry_ok_def no_entry_def is_zip_based_def)

text \<open>An upload is accepted exactly when all five checks pass: a relative file name without
  traversal or null bytes, a size within the limit, a declared type that agrees with the type
  the magic bytes show (or that is one of the known containers, aliases and text exceptions),
  no archive bomb, and image dimensions within the limit.\<close>

theorem validate_upload_exact:
  "is_ok (validate_upload_with_image_limit infer filename d declared max_size max_dim) \<longleftrightarrow>
     filename_refusal filename = None \<and> length d \<le> max_size
   \<and> (case infer d of None \<Rightarrow> True
      | Some m \<Rightarrow> declared = m \<or> is_container_compatible_mime declared m
          \<or> is_audio_mime_compatible declared m \<or> is_text_mime_compatible declared m d)
   \<and> bomb_refusal declared d = None
   \<and> (case read_image_dimensions d of None \<Rightarrow> True
      | Some (w, h) \<Rightarrow> prefix ''image/'' declared \<longrightarrow> w \<le> max_dim \<and> h \<le> max_dim)"
  by (auto simp: validate_upload_with_image_limit_def mime_refusal_def image_refusal_def starts_with_def
      split: option.splits)

lemma validate_upload_exact_witness:
  "is_ok (validate_upload_with_image_limit (\<lambda>_. None) ''notes.txt'' [65, 66] ''text/plain'' 10 8192)"
proof -
  have "filename_refusal ''notes.txt'' = None" and "bomb_refusal ''text/plain'' [65, 66] = None"
    and "read_image_dimensions [65, 66] = None"
    by code_simp+
  then show ?thesis
    using validate_upload_exact [of "\<lambda>_. None" "''notes.txt''" "[65, 66]" "''text/plain''" 10 8192] by simp
qed

end
