(* ===== verification/Url_Validation.thy ===== *)
theory Url_Validation
  imports Prelude
begin

unbundle bit_operations_syntax

text \<open>
  The SSRF check of outgoing requests (\<open>crates/openalpaca_core/src/tools/url_validation.rs\<close>). The
  URL parser is a library's: \<open>parse\<close> gives a URL's scheme and host, and \<open>parse_ip\<close> reads a host
  name as an address. The address classes of \<open>std::net\<close> are written out over the octets.
\<close>

section \<open>Addresses\<close>

datatype ipv4 = IPv4 "8 word" "8 word" "8 word" "8 word"

datatype ipv6 = IPv6 "16 word list"  \<comment> \<open>its eight segments\<close>

datatype ip_addr = V4 ipv4 | V6 ipv6

fun v4_octets :: "ipv4 \<Rightarrow> 8 word list" where
  "v4_octets (IPv4 a b c d) = [a, b, c, d]"

fun v4_is_loopback :: "ipv4 \<Rightarrow> bool" where
  "v4_is_loopback (IPv4 a b c d) = (a = 127)"

fun v4_is_private :: "ipv4 \<Rightarrow> bool" where
  "v4_is_private (IPv4 a b c d) =
     (a = 10 \<or> (a = 172 \<and> 16 \<le> b \<and> b \<le> 31) \<or> (a = 192 \<and> b = 168))"

fun v4_is_link_local :: "ipv4 \<Rightarrow> bool" where
  "v4_is_link_local (IPv4 a b c d) = (a = 169 \<and> b = 254)"

fun v4_is_unspecified :: "ipv4 \<Rightarrow> bool" where
  "v4_is_unspecified (IPv4 a b c d) = (a = 0 \<and> b = 0 \<and> c = 0 \<and> d = 0)"

fun v4_is_cgn :: "ipv4 \<Rightarrow> bool" where
  "v4_is_cgn (IPv4 a b c d) = (a = 100 \<and> b AND 0xC0 = 64)"

definition v6_segment :: "ipv6 \<Rightarrow> nat \<Rightarrow> 16 word" where
  "v6_segment ip i = (case ip of IPv6 segs \<Rightarrow> segs ! i)"

definition is_ipv6_unique_local :: "ipv6 \<Rightarrow> bool" where
  "is_ipv6_unique_local ip = (v6_segment ip 0 AND 0xFE00 = 0xFC00)"

definition is_ipv6_link_local :: "ipv6 \<Rightarrow> bool" where
  "is_ipv6_link_local ip = (v6_segment ip 0 AND 0xFFC0 = 0xFE80)"

definition high_byte :: "16 word \<Rightarrow> 8 word" where
  "high_byte w = ucast (drop_bit 8 w)"

definition low_byte :: "16 word \<Rightarrow> 8 word" where
  "low_byte w = ucast w"

definition to_ipv4_mapped :: "ipv6 \<Rightarrow> ipv4 option" where
  "to_ipv4_mapped ip =
     (if (\<forall>i\<in>set [0..<5]. v6_segment ip i = 0) \<and> v6_segment ip 5 = 0xFFFF
      then Some (IPv4 (high_byte (v6_segment ip 6)) (low_byte (v6_segment ip 6))
                      (high_byte (v6_segment ip 7)) (low_byte (v6_segment ip 7)))
      else None)"

definition is_ipv4_mapped_private :: "ipv6 \<Rightarrow> bool" where
  "is_ipv4_mapped_private ip =
     (case to_ipv4_mapped ip of
        Some v4 \<Rightarrow> v4_is_loopback v4 \<or> v4_is_private v4 \<or> v4_is_link_local v4 \<or> v4_is_unspecified v4
                \<or> v4_is_cgn v4 \<or> v4_octets v4 = [169, 254, 169, 254]
      | None \<Rightarrow> False)"

definition v6_is_loopback :: "ipv6 \<Rightarrow> bool" where
  "v6_is_loopback ip = (\<forall>i\<in>set [0..<8]. v6_segment ip i = (if i = 7 then 1 else 0))"

definition v6_is_unspecified :: "ipv6 \<Rightarrow> bool" where
  "v6_is_unspecified ip = (\<forall>i\<in>set [0..<8]. v6_segment ip i = 0)"

definition v4_blocked :: "ipv4 \<Rightarrow> bool" where
  "v4_blocked ip = (v4_is_loopback ip \<or> v4_is_private ip \<or> v4_is_link_local ip \<or> v4_is_unspecified ip
     \<or> v4_is_cgn ip)"

definition v6_blocked :: "ipv6 \<Rightarrow> bool" where
  "v6_blocked ip = (v6_is_loopback ip \<or> v6_is_unspecified ip \<or> is_ipv6_unique_local ip
     \<or> is_ipv6_link_local ip \<or> is_ipv4_mapped_private ip)"

fun ip_blocked :: "ip_addr \<Rightarrow> bool" where
  "ip_blocked (V4 ip) = v4_blocked ip"
| "ip_blocked (V6 ip) = v6_blocked ip"

section \<open>The check\<close>

datatype host = HostV4 ipv4 | HostV6 ipv6 | Domain string

record parsed_url =
  url_scheme :: string
  url_host_str :: "string option"
  url_host :: "host option"

datatype url_refusal =
    InvalidUrl string
  | SchemeNotAllowed string
  | NoHost
  | MetadataEndpoint string
  | Localhost string
  | PrivateAddress ip_addr

definition blocked_hosts :: "string list" where
  "blocked_hosts = [''169.254.169.254'', ''metadata.google.internal'', ''metadata.internal'']"

definition localhost_patterns :: "string list" where
  "localhost_patterns = [''localhost'', ''127.0.0.1'', ''[::1]'', ''0.0.0.0'']"

definition host_ip :: "(string \<Rightarrow> ip_addr option) \<Rightarrow> parsed_url \<Rightarrow> string \<Rightarrow> ip_addr option" where
  "host_ip parse_ip u h =
     (case url_host u of
        Some (HostV4 ip) \<Rightarrow> Some (V4 ip)
      | Some (HostV6 ip) \<Rightarrow> Some (V6 ip)
      | _ \<Rightarrow> parse_ip h)"

definition validate_url ::
  "(string \<Rightarrow> (string, parsed_url) res) \<Rightarrow> (string \<Rightarrow> ip_addr option) \<Rightarrow> (string \<Rightarrow> string) \<Rightarrow>
   string \<Rightarrow> (url_refusal, unit) res" where
  "validate_url parse parse_ip lc url =
     (case parse url of
        Inl e \<Rightarrow> Err (InvalidUrl e)
      | Inr u \<Rightarrow>
          if url_scheme u \<noteq> ''http'' \<and> url_scheme u \<noteq> ''https'' then Err (SchemeNotAllowed (url_scheme u))
          else (case url_host_str u of
            None \<Rightarrow> Err NoHost
          | Some h \<Rightarrow>
              let host_lower = lc h in
              if host_lower \<in> set blocked_hosts then Err (MetadataEndpoint h)
              else if host_lower \<in> set localhost_patterns then Err (Localhost h)
              else (case host_ip parse_ip u h of
                Some ip \<Rightarrow> if ip_blocked ip then Err (PrivateAddress ip) else Ok ()
              | None \<Rightarrow> Ok ())))"

section \<open>The refused blocks, in CIDR notation\<close>

definition v4_value :: "ipv4 \<Rightarrow> nat" where
  "v4_value ip = foldl (\<lambda>n o8. 256 * n + unat o8) 0 (v4_octets ip)"

definition in_cidr :: "ipv4 \<Rightarrow> ipv4 \<Rightarrow> nat \<Rightarrow> bool" where
  "in_cidr ip net len = (v4_value ip div 2 ^ (32 - len) = v4_value net div 2 ^ (32 - len))"

definition refused_blocks :: "(ipv4 \<times> nat) list" where
  "refused_blocks =
     [(IPv4 127 0 0 0, 8), (IPv4 10 0 0 0, 8), (IPv4 172 16 0 0, 12), (IPv4 192 168 0 0, 16),
      (IPv4 169 254 0 0, 16), (IPv4 0 0 0 0, 32), (IPv4 100 64 0 0, 10)]"

lemma unat_byte_less: "unat (w :: 8 word) < 256"
  using unsigned_less [of w] by simp

lemma cgn_mask: "(b :: 8 word) AND 0xC0 = 64 \<longleftrightarrow> unat b div 64 = 1"
proof -
  have m: "(0xC0 :: 8 word) = NOT (mask 6)" by (simp add: mask_eq_exp_minus_1)
  have "b AND 0xC0 = push_bit 6 (drop_bit 6 b)"
    unfolding m by (rule bit_word_eqI) (auto simp: bit_simps)
  moreover have "unat (push_bit 6 (drop_bit 6 b)) = take_bit 8 (push_bit 6 (drop_bit 6 (unat b)))"
    using unat_byte_less [of b]
    by (simp only: unsigned_push_bit_eq unsigned_drop_bit_eq) (simp add: take_bit_nat_eq_self)
  ultimately have "unat (b AND 0xC0) = take_bit 8 (64 * (unat b div 64))"
    by (simp add: push_bit_eq_mult drop_bit_eq_div mult.commute)
  also have "\<dots> = 64 * (unat b div 64)"
    using unat_byte_less [of b] by (simp add: take_bit_nat_eq_self_iff)
  finally show ?thesis by (simp add: word_unat_eq_iff)
qed

lemma v4_value_split:
  fixes a b c d :: nat
  assumes "a < 256" "b < 256" "c < 256" "d < 256"
  defines "v \<equiv> 256 * (256 * (256 * a + b) + c) + d"
  shows "v div 2 ^ 24 = a" and "v div 2 ^ 16 = 256 * a + b"
    and "v div 2 ^ 20 = (256 * a + b) div 16" and "v div 2 ^ 22 = (256 * a + b) div 64"
proof -
  have split: "n div 2 ^ 20 = n div 2 ^ 16 div 16" "n div 2 ^ 22 = n div 2 ^ 16 div 64" for n :: nat
    by (simp_all flip: div_mult2_eq)
  show "v div 2 ^ 24 = a" and 16: "v div 2 ^ 16 = 256 * a + b" using assms by (simp_all add: v_def)
  show "v div 2 ^ 20 = (256 * a + b) div 16" and "v div 2 ^ 22 = (256 * a + b) div 64"
    unfolding split 16 by simp_all
qed

lemma mixed_radix: "r < m \<Longrightarrow> s < m \<Longrightarrow> m * a + r = m * x + s \<longleftrightarrow> a = x \<and> r = (s :: nat)"
proof
  assume lt: "r < m" "s < m" and eq: "m * a + r = m * x + s"
  then have "(m * a + r) div m = (m * x + s) div m" "(m * a + r) mod m = (m * x + s) mod m" by simp_all
  with lt show "a = x \<and> r = s" by simp
qed simp

lemma v4_blocked_cidr: "v4_blocked ip \<longleftrightarrow> list_ex (\<lambda>(net, len). in_cidr ip net len) refused_blocks"
proof (cases ip)
  case (IPv4 a b c d)
  have lt: "unat a < 256" "unat b < 256" "unat c < 256" "unat d < 256" by (rule unat_byte_less)+
  have v: "v4_value ip = 256 * (256 * (256 * unat a + unat b) + unat c) + unat d"
    by (simp add: IPv4 v4_value_def)
  note sp = v4_value_split [OF lt, folded v]
  have nets: "v4_value (IPv4 127 0 0 0) div 2 ^ 24 = 127" "v4_value (IPv4 10 0 0 0) div 2 ^ 24 = 10"
    "v4_value (IPv4 172 16 0 0) div 2 ^ 20 = 2753" "v4_value (IPv4 192 168 0 0) div 2 ^ 16 = 49320"
    "v4_value (IPv4 169 254 0 0) div 2 ^ 16 = 43518" "v4_value (IPv4 0 0 0 0) = 0"
    "v4_value (IPv4 100 64 0 0) div 2 ^ 22 = 401"
    by (simp_all add: v4_value_def)
  have w: "a = 127 \<longleftrightarrow> unat a = 127" "a = 10 \<longleftrightarrow> unat a = 10" "a = 172 \<longleftrightarrow> unat a = 172"
    "a = 192 \<longleftrightarrow> unat a = 192" "b = 168 \<longleftrightarrow> unat b = 168" "a = 169 \<longleftrightarrow> unat a = 169"
    "b = 254 \<longleftrightarrow> unat b = 254" "a = 100 \<longleftrightarrow> unat a = 100" "16 \<le> b \<longleftrightarrow> 16 \<le> unat b" "b \<le> 31 \<longleftrightarrow> unat b \<le> 31"
    by (simp_all add: word_unat_eq_iff word_le_nat_alt)
  have zero: "v4_value ip = 0 \<longleftrightarrow> a = 0 \<and> b = 0 \<and> c = 0 \<and> d = 0"
    by (simp add: v word_unat_eq_iff)
  have "unat b div 16 = 1 \<longleftrightarrow> 16 \<le> unat b \<and> unat b \<le> 31" by linarith
  moreover have "(256 * unat a + unat b) div 16 = 2753 \<longleftrightarrow> unat a = 172 \<and> unat b div 16 = 1"
    using mixed_radix [of "unat b div 16" 16 1 "unat a" 172] lt(2) by (simp add: div_add1_eq [of "256 * unat a"])
  moreover have cgn: "(256 * unat a + unat b) div 64 = 401 \<longleftrightarrow> unat a = 100 \<and> unat b div 64 = 1"
    using mixed_radix [of "unat b div 64" 4 1 "unat a" 100] lt(2) by (simp add: div_add1_eq [of "256 * unat a"])
  moreover have c: "256 * unat a + unat b = 49320 \<longleftrightarrow> unat a = 192 \<and> unat b = 168"
    and l: "256 * unat a + unat b = 43518 \<longleftrightarrow> unat a = 169 \<and> unat b = 254"
    using mixed_radix [of "unat b" 256 168 "unat a" 192] mixed_radix [of "unat b" 256 254 "unat a" 169] lt(2)
    by simp_all
  ultimately have p: "(256 * unat a + unat b) div 16 = 2753 \<longleftrightarrow> unat a = 172 \<and> 16 \<le> unat b \<and> unat b \<le> 31"
    by simp
  have "in_cidr ip (IPv4 127 0 0 0) 8 \<longleftrightarrow> a = 127" "in_cidr ip (IPv4 10 0 0 0) 8 \<longleftrightarrow> a = 10"
    unfolding w using sp(1) nets(1,2) by (simp_all add: in_cidr_def)
  moreover have "in_cidr ip (IPv4 172 16 0 0) 12 \<longleftrightarrow> a = 172 \<and> 16 \<le> b \<and> b \<le> 31"
    unfolding w using sp(3) nets(3) p by (simp add: in_cidr_def)
  moreover have "in_cidr ip (IPv4 192 168 0 0) 16 \<longleftrightarrow> a = 192 \<and> b = 168"
    unfolding w using sp(2) nets(4) c by (simp add: in_cidr_def)
  moreover have "in_cidr ip (IPv4 169 254 0 0) 16 \<longleftrightarrow> a = 169 \<and> b = 254"
    unfolding w using sp(2) nets(5) l by (simp add: in_cidr_def)
  moreover have "in_cidr ip (IPv4 0 0 0 0) 32 \<longleftrightarrow> a = 0 \<and> b = 0 \<and> c = 0 \<and> d = 0"
    using zero nets(6) by (simp add: in_cidr_def)
  moreover have "in_cidr ip (IPv4 100 64 0 0) 10 \<longleftrightarrow> a = 100 \<and> b AND 0xC0 = 64"
    unfolding w cgn_mask using sp(4) nets(7) cgn by (simp add: in_cidr_def)
  ultimately show ?thesis by (simp add: IPv4 v4_blocked_def refused_blocks_def)
qed

text \<open>An IPv4 address in its IPv6-mapped form.\<close>

definition join_bytes :: "8 word \<Rightarrow> 8 word \<Rightarrow> 16 word" where
  "join_bytes a b = push_bit 8 (ucast a) OR ucast b"

definition mapped :: "ipv4 \<Rightarrow> ipv6" where
  "mapped ip = (case ip of IPv4 a b c d \<Rightarrow>
     IPv6 [0, 0, 0, 0, 0, 0xFFFF, join_bytes a b, join_bytes c d])"

lemma byte_join: "high_byte (join_bytes a b) = a" "low_byte (join_bytes a b) = b"
proof -
  show "high_byte (join_bytes a b) = a"
    unfolding high_byte_def join_bytes_def
    by (rule bit_word_eqI) (auto simp: bit_simps dest: bit_imp_le_length)
  show "low_byte (join_bytes a b) = b"
    unfolding low_byte_def join_bytes_def by (rule bit_word_eqI) (auto simp: bit_simps)
qed

lemma to_ipv4_mapped_mapped: "to_ipv4_mapped (mapped ip) = Some ip"
  by (cases ip) (simp add: to_ipv4_mapped_def mapped_def v6_segment_def byte_join eval_nat_numeral)

lemma v6_blocked_mapped: "v6_blocked (mapped ip) = v4_blocked ip"
proof -
  have segs: "v6_segment (mapped ip) 0 = 0" "v6_segment (mapped ip) 5 = 0xFFFF"
    by (cases ip; simp add: mapped_def v6_segment_def)+
  have "\<not> v6_is_loopback (mapped ip)" "\<not> v6_is_unspecified (mapped ip)"
    using segs(2) by (auto simp: v6_is_loopback_def v6_is_unspecified_def intro!: bexI [of _ "5 :: nat"])
  moreover have "v4_octets ip = [169, 254, 169, 254] \<Longrightarrow> v4_is_link_local ip" by (cases ip) simp
  ultimately show ?thesis
    using segs(1)
    by (auto simp: v6_blocked_def v4_blocked_def is_ipv6_unique_local_def is_ipv6_link_local_def
        is_ipv4_mapped_private_def to_ipv4_mapped_mapped)
qed

section \<open>Properties\<close>

text \<open>C19: A URL whose host is an IPv4 address, written as such or in IPv6-mapped form, passes exactly
  when the scheme is http or https, the host text is not one of the named endpoints, and the
  address lies outside the CIDR blocks 127/8, 10/8, 172.16/12, 192.168/16, 169.254/16,
  0.0.0.0/32 and 100.64/10.\<close>

theorem validate_url_ipv4_exact:
  assumes "parse url = Ok u" and "url_host_str u = Some h"
    and "url_host u = Some (HostV4 ip) \<or> url_host u = Some (HostV6 (mapped ip))"
  shows "is_ok (validate_url parse parse_ip lc url) \<longleftrightarrow>
     url_scheme u \<in> {''http'', ''https''} \<and> lc h \<notin> set (blocked_hosts @ localhost_patterns)
   \<and> \<not> list_ex (\<lambda>(net, len). in_cidr ip net len) refused_blocks"
  using assms by (auto simp: validate_url_def Let_def host_ip_def v6_blocked_mapped simp flip: v4_blocked_cidr)

lemma validate_url_ipv4_exact_witness:
  "\<not> is_ok (validate_url (\<lambda>_. Ok \<lparr>url_scheme = ''https'', url_host_str = Some ''[::ffff:10.1.2.3]'',
       url_host = Some (HostV6 (mapped (IPv4 10 1 2 3)))\<rparr>) (\<lambda>_. None) ascii_lower ''https://[::ffff:10.1.2.3]/'')"
proof -
  have "list_ex (\<lambda>(net, len). in_cidr (IPv4 10 1 2 3) net len) refused_blocks"
    by (simp add: refused_blocks_def in_cidr_def v4_value_def)
  then show ?thesis
    by (subst validate_url_ipv4_exact [OF refl, where ip = "IPv4 10 1 2 3"]) simp_all
qed

text \<open>The check compares host names as written: a trailing dot, which names the same host in DNS,
  gets localhost and the metadata endpoints past it.\<close>

theorem validate_url_trailing_dot_passes:
  assumes "parse url = Ok u" and "url_scheme u = ''http''" and "url_host_str u = Some (name @ ''.'')"
    and "url_host u = Some (Domain (name @ ''.''))" and "parse_ip (name @ ''.'') = None"
    and "lc (name @ ''.'') = name @ ''.''"
  shows "is_ok (validate_url parse parse_ip lc url)"
proof -
  have "last h \<noteq> CHR ''.''" if "h \<in> set (blocked_hosts @ localhost_patterns)" for h
    using that by (auto simp: blocked_hosts_def localhost_patterns_def)
  then have "name @ ''.'' \<notin> set (blocked_hosts @ localhost_patterns)" by (metis last_snoc)
  then show ?thesis using assms by (simp add: validate_url_def Let_def host_ip_def)
qed

lemma validate_url_trailing_dot_passes_witness:
  "is_ok (validate_url (\<lambda>_. Ok \<lparr>url_scheme = ''http'', url_host_str = Some ''metadata.google.internal.'',
       url_host = Some (Domain ''metadata.google.internal.'')\<rparr>) (\<lambda>_. None) ascii_lower
     ''http://metadata.google.internal./'')"
proof -
  have "ascii_lower ''metadata.google.internal.'' = ''metadata.google.internal.''" by code_simp
  then show ?thesis
    by (intro validate_url_trailing_dot_passes [where name = "''metadata.google.internal''", OF refl]) simp_all
qed

end
