(* ===== verification/Confirmation.thy ===== *)
theory Confirmation
  imports Json
begin

text \<open>
  Interactive tool confirmation (\<open>crates/openalpaca_core/src/security/confirmation.rs\<close>): the
  broker of pending prompts, how a wait on one ends, and the cache of approvals.

  A prompt is a oneshot channel. The broker's state keeps the pending requests, the receivers
  still alive, and the responses delivered to a receiver and not yet read. A wait is seen from
  its end: what happened to the broker meanwhile is an arbitrary list of operations, and the
  resolution is what the receiver finds then. The 64-bit hash of the arguments is the argument
  \<open>hash\<close>, of the canonical JSON.
\<close>

section \<open>The broker\<close>

record confirmation_request =
  cr_request_id :: string
  cr_agent_id :: string
  cr_tool_name :: string
  cr_tool_arguments :: json
  cr_stream_id :: "string option"
  cr_lane_key :: "string option"
  cr_task_id :: "string option"
  cr_agent_instance_id :: "string option"
  cr_preview :: "string option"
  cr_per_call :: bool
  cr_timestamp :: nat

datatype approval_scope = TheseArgs | EntireTool

record confirmation_response =
  rs_approved :: bool
  rs_scope :: "approval_scope option"

record broker =
  br_pending :: "(string, confirmation_request) table"
  br_live :: "string list"
  br_inbox :: "(string, confirmation_response) table"

definition broker_new :: broker where
  "broker_new = \<lparr>br_pending = [], br_live = [], br_inbox = []\<rparr>"

definition broker_request :: "confirmation_request \<Rightarrow> broker \<Rightarrow> broker" where
  "broker_request req b =
     b\<lparr>br_pending := tput (cr_request_id req) req (br_pending b),
       br_live := cr_request_id req # br_live b,
       br_inbox := tdel (cr_request_id req) (br_inbox b)\<rparr>"

definition broker_respond ::
  "string \<Rightarrow> confirmation_response \<Rightarrow> broker \<Rightarrow> (string, unit) res \<times> broker" where
  "broker_respond rid resp b =
     (case tget (br_pending b) rid of
        Some _ \<Rightarrow>
          let b' = b\<lparr>br_pending := tdel rid (br_pending b)\<rparr> in
          if rid \<in> set (br_live b) then (Ok (), b'\<lparr>br_inbox := tput rid resp (br_inbox b)\<rparr>)
          else (Err ''receiver dropped'', b')
      | None \<Rightarrow> (Err (''No pending confirmation: '' @ rid), b))"

definition broker_cancel :: "string \<Rightarrow> broker \<Rightarrow> broker" where
  "broker_cancel rid b = b\<lparr>br_pending := tdel rid (br_pending b)\<rparr>"

definition drop_receiver :: "string \<Rightarrow> broker \<Rightarrow> broker" where
  "drop_receiver rid b = b\<lparr>br_live := removeAll rid (br_live b), br_inbox := tdel rid (br_inbox b)\<rparr>"

datatype confirmation_resolution = Answered confirmation_response | ResTimedOut | ResCancelled

datatype confirmation_outcome = OutApproved | OutDenied | OutTimedOut | OutCancelled

fun resolution_outcome :: "confirmation_resolution \<Rightarrow> confirmation_outcome" where
  "resolution_outcome (Answered r) = (if rs_approved r then OutApproved else OutDenied)"
| "resolution_outcome ResTimedOut = OutTimedOut"
| "resolution_outcome ResCancelled = OutCancelled"

text \<open>
  The end of \<open>wait\<close>: a delivered response is an answer; a request no longer pending without one
  was withdrawn; one still pending has outlasted its timeout, and is cancelled.
\<close>

definition broker_wait :: "string \<Rightarrow> broker \<Rightarrow> confirmation_resolution \<times> broker" where
  "broker_wait rid b =
     (case tget (br_inbox b) rid of
        Some r \<Rightarrow> (Answered r, drop_receiver rid b)
      | None \<Rightarrow>
          if tget (br_pending b) rid = None then (ResCancelled, drop_receiver rid b)
          else (ResTimedOut, drop_receiver rid (broker_cancel rid b)))"

definition pending_count :: "broker \<Rightarrow> nat" where
  "pending_count b = length (br_pending b)"

definition pending_keys :: "broker \<Rightarrow> string list" where
  "pending_keys b = tkeys (br_pending b)"

definition pending_requests :: "broker \<Rightarrow> confirmation_request list" where
  "pending_requests b = tvalues (br_pending b)"

text \<open>What others do to the broker while a prompt waits.\<close>

datatype broker_op =
    BRequest confirmation_request
  | BRespond string confirmation_response
  | BCancel string
  | BWaitEnds string

fun broker_step :: "broker \<Rightarrow> broker_op \<Rightarrow> broker" where
  "broker_step b (BRequest req) = broker_request req b"
| "broker_step b (BRespond rid resp) = snd (broker_respond rid resp b)"
| "broker_step b (BCancel rid) = broker_cancel rid b"
| "broker_step b (BWaitEnds rid) = snd (broker_wait rid b)"

definition broker_run :: "broker_op list \<Rightarrow> broker \<Rightarrow> broker" where
  "broker_run ops b = fold (\<lambda>x b. broker_step b x) ops b"

lemma broker_run_simps [simp]:
  "broker_run [] b = b" "broker_run (x # xs) b = broker_run xs (broker_step b x)"
  by (simp_all add: broker_run_def)

definition broker_ok :: "broker \<Rightarrow> bool" where
  "broker_ok b =
     (table_ok (br_pending b) \<and> table_ok (br_inbox b)
      \<and> (\<forall>rid. tget (br_pending b) rid \<noteq> None \<longrightarrow> tget (br_inbox b) rid = None)
      \<and> (\<forall>rid req. tget (br_pending b) rid = Some req \<longrightarrow> cr_request_id req = rid))"

lemma broker_ok_new: "broker_ok broker_new"
  by (simp add: broker_ok_def broker_new_def)

lemma broker_ok_step: "broker_ok b \<Longrightarrow> broker_ok (broker_step b x)"
  by (cases x)
    (auto simp: broker_ok_def broker_request_def broker_respond_def broker_cancel_def broker_wait_def
      drop_receiver_def Let_def table_simps split: option.splits)

lemma broker_ok_run: "broker_ok b \<Longrightarrow> broker_ok (broker_run ops b)"
  by (induction ops arbitrary: b) (auto simp: broker_ok_step)

text \<open>The first operation that settles a prompt: an answer to it or its withdrawal.\<close>

fun settles :: "string \<Rightarrow> broker_op \<Rightarrow> bool" where
  "settles rid (BRespond rid' resp) = (rid' = rid)"
| "settles rid (BCancel rid') = (rid' = rid)"
| "settles rid _ = False"

fun owner_op :: "string \<Rightarrow> broker_op \<Rightarrow> bool" where
  "owner_op rid (BRequest req) = (cr_request_id req = rid)"
| "owner_op rid (BWaitEnds rid') = (rid' = rid)"
| "owner_op rid _ = False"

definition settled_as :: "string \<Rightarrow> broker_op list \<Rightarrow> confirmation_resolution" where
  "settled_as rid ops =
     (case List.find (settles rid) ops of
        Some (BRespond _ resp) \<Rightarrow> Answered resp
      | Some _ \<Rightarrow> ResCancelled
      | None \<Rightarrow> ResTimedOut)"

definition slot :: "string \<Rightarrow> broker \<Rightarrow> confirmation_request option \<times> confirmation_response option \<times> bool" where
  "slot rid b = (tget (br_pending b) rid, tget (br_inbox b) rid, rid \<in> set (br_live b))"

lemma slot_foreign:
  "\<not> settles rid x \<Longrightarrow> \<not> owner_op rid x \<Longrightarrow> slot rid (broker_step b x) = slot rid b"
  by (cases x)
    (auto simp: slot_def broker_request_def broker_respond_def broker_cancel_def broker_wait_def
      drop_receiver_def Let_def table_simps split: option.splits)

lemma slot_settled:
  "\<not> owner_op rid x \<Longrightarrow> slot rid b = (None, r, l) \<Longrightarrow> slot rid (broker_step b x) = (None, r, l)"
  by (cases x)
    (auto simp: slot_def broker_request_def broker_respond_def broker_cancel_def broker_wait_def
      drop_receiver_def Let_def table_simps split: option.splits)

lemma slot_settled_run:
  "\<forall>x\<in>set ops. \<not> owner_op rid x \<Longrightarrow> slot rid b = (None, r, l) \<Longrightarrow> slot rid (broker_run ops b) = (None, r, l)"
proof (induction ops arbitrary: b)
  case Nil
  then show ?case by simp
next
  case (Cons x xs)
  then show ?case using slot_settled [of rid x b r l] by auto
qed

lemma slot_answered:
  "slot rid b = (Some req, None, True) \<Longrightarrow>
     slot rid (broker_step b (BRespond rid resp)) = (None, Some resp, True)
   \<and> slot rid (broker_step b (BCancel rid)) = (None, None, True)"
  by (auto simp: slot_def broker_respond_def broker_cancel_def Let_def table_simps)

lemma slot_run:
  assumes "\<forall>x\<in>set ops. \<not> owner_op rid x" and "slot rid b = (Some req, None, True)"
  shows "slot rid (broker_run ops b) =
    (case settled_as rid ops of
       Answered resp \<Rightarrow> (None, Some resp, True)
     | ResCancelled \<Rightarrow> (None, None, True)
     | ResTimedOut \<Rightarrow> (Some req, None, True))"
  using assms
proof (induction ops arbitrary: b)
  case Nil
  then show ?case by (simp add: settled_as_def)
next
  case (Cons x xs)
  show ?case
  proof (cases "settles rid x")
    case False
    then have "slot rid (broker_step b x) = (Some req, None, True)"
      using slot_foreign [of rid x b] Cons.prems by simp
    with False Cons show ?thesis by (simp add: settled_as_def)
  next
    case True
    note rest = slot_settled_run [of xs rid "broker_step b x"]
    from True show ?thesis
      using slot_answered [OF Cons.prems(2)] rest Cons.prems(1)
      by (cases x) (auto simp: settled_as_def)
  qed
qed

lemma wait_from_slot:
  "fst (broker_wait rid b) =
     (case slot rid b of (p, Some r, l) \<Rightarrow> Answered r | (None, None, l) \<Rightarrow> ResCancelled | (Some req, None, l) \<Rightarrow> ResTimedOut)"
  by (auto simp: slot_def broker_wait_def split: option.splits)

lemma wait_clears:
  "tget (br_pending b) rid = None \<or> tget (br_inbox b) rid = None \<Longrightarrow>
   slot rid (snd (broker_wait rid b)) = (None, None, False)"
  by (auto simp: slot_def broker_wait_def drop_receiver_def broker_cancel_def table_simps split: option.splits)

lemma slot_requested: "slot (cr_request_id req) (broker_request req b) = (Some req, None, True)"
  by (simp add: slot_def broker_request_def table_simps)

lemmas broker_slots = slot_requested slot_run wait_from_slot

section \<open>The approval cache\<close>

record approval_cache =
  tool_approvals :: "string list"
  args_approvals :: "(string \<times> 64 word) list"

definition approval_cache_new :: approval_cache where
  "approval_cache_new = \<lparr>tool_approvals = [], args_approvals = []\<rparr>"

definition cache_record :: "string \<Rightarrow> 64 word \<Rightarrow> approval_scope \<Rightarrow> approval_cache \<Rightarrow> approval_cache" where
  "cache_record tool args_hash sc c =
     (case sc of
        TheseArgs \<Rightarrow> c\<lparr>args_approvals := List.insert (tool, args_hash) (args_approvals c)\<rparr>
      | EntireTool \<Rightarrow> c\<lparr>tool_approvals := List.insert tool (tool_approvals c)\<rparr>)"

definition is_approved :: "string \<Rightarrow> 64 word \<Rightarrow> approval_cache \<Rightarrow> bool" where
  "is_approved tool args_hash c = (tool \<in> set (tool_approvals c) \<or> (tool, args_hash) \<in> set (args_approvals c))"

definition cache_clear :: "approval_cache \<Rightarrow> approval_cache" where
  "cache_clear c = c\<lparr>tool_approvals := [], args_approvals := []\<rparr>"

definition hash_canonical_args :: "(json \<Rightarrow> 64 word) \<Rightarrow> json \<Rightarrow> 64 word" where
  "hash_canonical_args hash args = hash (canonicalize_json args)"

definition cache_records :: "(string \<times> 64 word \<times> approval_scope) list \<Rightarrow> approval_cache" where
  "cache_records rs = fold (\<lambda>(t, h, sc) c. cache_record t h sc c) rs approval_cache_new"

lemma is_approved_record:
  "is_approved tool h (cache_record t h' sc c) \<longleftrightarrow>
     is_approved tool h c \<or> (t = tool \<and> (sc = EntireTool \<or> h' = h))"
  by (auto simp: is_approved_def cache_record_def split: approval_scope.splits)

lemma is_approved_fold:
  "is_approved tool h (fold (\<lambda>(t, h, sc) c. cache_record t h sc c) rs c) \<longleftrightarrow>
     is_approved tool h c \<or> (\<exists>(t, h', sc)\<in>set rs. t = tool \<and> (sc = EntireTool \<or> h' = h))"
  by (induction rs arbitrary: c) (auto simp: is_approved_record split: prod.splits)

text \<open>
  JSON values equal up to the order of members, at any depth: what two callers may send for the
  same arguments. Member names are distinct, as in any parsed object.
\<close>

inductive reordered :: "json \<Rightarrow> json \<Rightarrow> bool" where
  same: "reordered v v"
| array: "list_all2 reordered vs ws \<Longrightarrow> reordered (JArray vs) (JArray ws)"
| object: "list_all2 (\<lambda>m n. fst m = fst n \<and> reordered (snd m) (snd n)) ms ns \<Longrightarrow>
    distinct (map fst ms) \<Longrightarrow> mset ns = mset ns' \<Longrightarrow> reordered (JObject ms) (JObject ns')"

lemma canonicalize_reordered: "reordered v w \<Longrightarrow> canonicalize_json v = canonicalize_json w"
proof (induction rule: reordered.induct)
  case (same v)
  then show ?case by simp
next
  case (array vs ws)
  then show ?case by (auto simp: list_all2_conv_all_nth intro: nth_equalityI)
next
  case (object ms ns ns')
  let ?c = "map (\<lambda>m. (fst m, canonicalize_json (snd m)))"
  have eq: "?c ms = ?c ns" using object(1) by (auto simp: list_all2_conv_all_nth intro!: nth_equalityI)
  have "map fst ms = map fst ns" using object(1) by (auto simp: list_all2_conv_all_nth intro!: nth_equalityI)
  then have d: "distinct (map fst ns)" using object(2) by simp
  moreover have "mset (map fst ns) = mset (map fst ns')" using object(3) by simp
  ultimately have "distinct (map fst ns')" by (metis mset_eq_imp_distinct_iff)
  then have "btree_of (?c ns) = btree_of (?c ns')"
    using d mset_eq_setD [OF object(3)] by (intro btree_of_cong) (simp_all add: comp_def)
  then show ?case by (simp add: eq)
qed

section \<open>Properties\<close>

text \<open>The first settlement wins. Between registering a prompt and the end of its wait, whatever
  other clients do to the broker in between, the wait reports the first answer or withdrawal of
  this prompt and no later one, and a timeout exactly when there was none; afterwards the prompt
  is not pending, and a late answer is refused.\<close>

theorem prompt_settles_once:
  assumes "\<forall>x\<in>set ops. \<not> owner_op (cr_request_id req) x"
  shows "case broker_wait (cr_request_id req) (broker_run ops (broker_request req b)) of (r, b') \<Rightarrow>
      r = settled_as (cr_request_id req) ops
    \<and> tget (br_pending b') (cr_request_id req) = None
    \<and> broker_respond (cr_request_id req) resp b' = (Err (''No pending confirmation: '' @ cr_request_id req), b')"
proof -
  let ?rid = "cr_request_id req"
  let ?b = "broker_run ops (broker_request req b)"
  have s: "slot ?rid ?b = (case settled_as ?rid ops of
       Answered resp \<Rightarrow> (None, Some resp, True) | ResCancelled \<Rightarrow> (None, None, True)
     | ResTimedOut \<Rightarrow> (Some req, None, True))"
    using assms slot_requested by (intro slot_run) auto
  then have "fst (broker_wait ?rid ?b) = settled_as ?rid ops"
    by (simp add: wait_from_slot split: confirmation_resolution.splits)
  moreover have "slot ?rid (snd (broker_wait ?rid ?b)) = (None, None, False)"
    using s by (intro wait_clears) (auto simp: slot_def split: confirmation_resolution.splits)
  ultimately show ?thesis by (cases "broker_wait ?rid ?b") (auto simp: slot_def broker_respond_def)
qed

definition demo_request :: confirmation_request where
  "demo_request = \<lparr>cr_request_id = ''r1'', cr_agent_id = ''a'', cr_tool_name = ''file_write'',
     cr_tool_arguments = JNull, cr_stream_id = None, cr_lane_key = None, cr_task_id = None,
     cr_agent_instance_id = None, cr_preview = None, cr_per_call = False, cr_timestamp = 0\<rparr>"

lemma prompt_settles_once_witness:
  "fst (broker_wait ''r1'' (broker_run
      [BCancel ''r2'', BRespond ''r1'' \<lparr>rs_approved = True, rs_scope = None\<rparr>, BCancel ''r1'']
      (broker_request demo_request broker_new)))
   = Answered \<lparr>rs_approved = True, rs_scope = None\<rparr>"
  using prompt_settles_once [of "[BCancel ''r2'', BRespond ''r1'' \<lparr>rs_approved = True, rs_scope = None\<rparr>, BCancel ''r1'']"
      demo_request _ broker_new]
  by (simp add: demo_request_def settled_as_def split_beta)

text \<open>What the approval cache lets through is exactly what a person approved in this session: a
  call is pre-approved after a history of recorded approvals if and only if one of them was for
  the whole tool, or for this tool with the same argument hash; a clear forgets all of it.\<close>

theorem approval_cache_exact:
  "(is_approved tool h (cache_records rs) \<longleftrightarrow>
      (\<exists>(t, h', sc)\<in>set rs. t = tool \<and> (sc = EntireTool \<or> h' = h)))
   \<and> \<not> is_approved tool h (cache_clear (cache_records rs))"
  by (simp add: cache_records_def is_approved_fold) (simp add: is_approved_def approval_cache_new_def cache_clear_def)

text \<open>The argument hash does not depend on the order in which an object's members are written, at
  any depth, so an approval of some arguments covers every reordering of them, whatever the
  hash function.\<close>

theorem args_hash_order_insensitive:
  assumes "reordered args args'"
  shows "hash_canonical_args hash args = hash_canonical_args hash args'"
  using canonicalize_reordered [OF assms] by (simp add: hash_canonical_args_def)

lemma args_hash_order_insensitive_witness:
  "hash_canonical_args (\<lambda>v. of_nat (length (json_strings v))) (JArray [JObject [(''b'', JNull), (''a'', JBool True)]])
   = hash_canonical_args (\<lambda>v. of_nat (length (json_strings v))) (JArray [JObject [(''a'', JBool True), (''b'', JNull)]])"
  by (rule args_hash_order_insensitive)
    (auto intro!: reordered.array reordered.object [where ns = "[(''b'', JNull), (''a'', JBool True)]"] reordered.same)

end
