(* ===== verification/Sandbox.thy ===== *)
theory Sandbox
  imports Circuit_Breaker Sanitizer Confirmation Llm_Types
begin

text \<open>
  Layer 3 of the security gate: \<open>SandboxManager::execute_tool\<close>
  (\<open>crates/openalpaca_core/src/security/sandbox/mod.rs\<close>), the one path by which an agent's tool
  call reaches a tool. Its steps are one definition each and are composed with the early returns
  of the code.

  The call is asynchronous. What its awaits bring back (the registry's precheck, the card's
  preview, what others do to the broker during the wait, the tool's own answer, the clock) is a
  record \<open>world\<close>, an argument of the model; every theorem holds for any world. A call whose
  future is dropped at one of its two long awaits, the wait for a person and the tool's run,
  ends there: that is the result \<open>None\<close>, and the drop of the open prompt still runs.
\<close>

section \<open>The registry, as far as the sandbox reads it\<close>

datatype tool_backend = BuiltIn bool | Http | Command | Plugin | Mcp
  \<comment> \<open>\<open>BuiltIn b\<close>: \<open>b\<close> says the arguments reach a program\<close>

record reg_tool =
  rt_backend :: tool_backend
  rt_destructive_hint :: "bool option"
  rt_exempt_from_timeout :: bool

type_synonym registry = "(string, reg_tool) table"

definition registered_tool_names :: "registry \<Rightarrow> string list" where
  "registered_tool_names reg = tkeys reg"

definition command_backend_tool_names :: "registry \<Rightarrow> string list" where
  "command_backend_tool_names reg = map fst (filter (\<lambda>(n, t). rt_backend t = Command) reg)"

definition tool_traversal_rule :: "registry \<Rightarrow> string \<Rightarrow> traversal_rule" where
  "tool_traversal_rule reg tool =
     (case tget reg tool of
        None \<Rightarrow> Refuse
      | Some t \<Rightarrow> (case rt_backend t of BuiltIn reaches \<Rightarrow> if \<not> reaches then Allow else Refuse | _ \<Rightarrow> Refuse))"

definition is_exempt_from_timeout :: "registry \<Rightarrow> string \<Rightarrow> bool" where
  "is_exempt_from_timeout reg tool =
     (case tget reg tool of None \<Rightarrow> False | Some t \<Rightarrow> rt_exempt_from_timeout t)"

definition is_command_tool :: "registry \<Rightarrow> string \<Rightarrow> bool" where
  "is_command_tool reg tool =
     (tool \<in> set SHELL_TOOLS
      \<or> (case tget reg tool of None \<Rightarrow> False | Some t \<Rightarrow> rt_backend t = Command))"

definition approval_is_per_call :: "string \<Rightarrow> bool" where
  "approval_is_per_call name = (name = ''memory_confirm'')"

definition effective_confirmation_set :: "sandbox_policy \<Rightarrow> registry \<Rightarrow> string list" where
  "effective_confirmation_set p reg =
     (if sp_require_confirmation_for p \<noteq> [] then
        let s = sp_require_confirmation_for p in
        if ''file_write'' \<in> set s \<and> ''file_edit'' \<notin> set s then s @ [''file_edit''] else s
      else map fst (filter (\<lambda>(n, t). rt_destructive_hint t = Some True) reg))"

definition is_withheld_refusal :: "string \<Rightarrow> bool" where
  "is_withheld_refusal err =
     (starts_with err (''tool '' @ [CHR 0x27]) \<and> str_contains err ([CHR 0x27] @ '' is unavailable: ''))"

section \<open>Calls, contexts and events\<close>

text \<open>The fields of a context the sandbox reads or writes; the rest passes through it unchanged.\<close>

record tool_context =
  cx_agent_id :: "string option"
  cx_agent_instance_id :: "string option"
  cx_task_id :: "string option"
  cx_session_id :: "string option"
  cx_has_event_bus :: bool
  cx_human_approval :: "string option"
  cx_human_denial :: "string option"

definition disciplined :: "tool_context \<Rightarrow> tool_context" where
  "disciplined cx = cx\<lparr>cx_human_approval := None, cx_human_denial := None\<rparr>"

datatype system_event =
    SecurityViolation string string string "string option"
  | ToolExecuted string string bool nat "string option" "string option" "string option"
  | ToolConfirmationRequested string string string json "string option" "string option" "string option"
      "string option" bool
  | ToolConfirmationResolved string string string confirmation_outcome "string option" "string option"
      "string option"
  | CircuitBreakerTripped breaker_tripped

text \<open>A row of the audit log: its type, the agent, the tool, the reason and the task.\<close>

type_synonym audit_row = "string \<times> string \<times> string \<times> string \<times> string option"

definition UNAPPROVABLE_EVENT_TYPE :: string where
  "UNAPPROVABLE_EVENT_TYPE = ''tool_approval_unavailable''"

record sandbox =
  sb_registry :: registry
  sb_breaker :: tool_breaker
  sb_has_db :: bool
  sb_broker :: "broker option"
  sb_cache :: approval_cache
  sb_events :: "system_event list"
  sb_audit :: "audit_row list"
  sb_dispatched :: "(tool_call \<times> tool_context) list"  \<comment> \<open>what reached a tool\<close>

datatype tool_answer = ToolOk string | ToolErr string

record world =
  w_precheck :: "(string, unit) res"
  w_preview :: "(string, string option) res"
  w_request_id :: string
  w_during_wait :: "broker_op list"
  w_wait_dropped :: bool
  w_denied_note :: "string option"
  w_check_at :: nat
  w_answer :: "tool_answer option"  \<comment> \<open>\<open>None\<close>: the call's future was dropped while the tool ran\<close>
  w_outlasts :: bool  \<comment> \<open>the tool is still running when the policy's limit is over\<close>
  w_record_at :: nat
  w_duration_ms :: nat

datatype 'a flow = Return "(string, string) res" | Dropped | Continue 'a

definition publish :: "system_event \<Rightarrow> sandbox \<Rightarrow> sandbox" where
  "publish e s = s\<lparr>sb_events := sb_events s @ [e]\<rparr>"

definition audit :: "audit_row \<Rightarrow> sandbox \<Rightarrow> sandbox" where
  "audit r s = (if sb_has_db s then s\<lparr>sb_audit := sb_audit s @ [r]\<rparr> else s)"

definition emit_violation_as ::
  "string \<Rightarrow> string \<Rightarrow> string \<Rightarrow> string \<Rightarrow> string option \<Rightarrow> sandbox \<Rightarrow> sandbox" where
  "emit_violation_as event_type agent tool reason task s =
     audit (event_type, agent, tool, reason, task) (publish (SecurityViolation agent tool reason task) s)"

definition emit_security_violation ::
  "string \<Rightarrow> string \<Rightarrow> string \<Rightarrow> string option \<Rightarrow> sandbox \<Rightarrow> sandbox" where
  "emit_security_violation agent tool reason task s =
     emit_violation_as ''security_violation'' agent tool reason task s"

definition emit_tool_executed ::
  "string \<Rightarrow> tool_call \<Rightarrow> bool \<Rightarrow> nat \<Rightarrow> string option \<Rightarrow> string option \<Rightarrow> sandbox \<Rightarrow> sandbox" where
  "emit_tool_executed agent call success duration task session s =
     publish (ToolExecuted agent (tc_name call) success duration task session
                (if tc_id call = [] then None else Some (tc_id call))) s"

definition ctx_agent :: "tool_context \<Rightarrow> string" where
  "ctx_agent cx = (case cx_agent_id cx of None \<Rightarrow> ''unknown'' | Some a \<Rightarrow> a)"

definition quote_tool :: "string \<Rightarrow> string \<Rightarrow> string" where
  "quote_tool tool rest = ''Tool '' @ [CHR 0x27] @ tool @ [CHR 0x27] @ rest"

section \<open>The steps\<close>

definition step_capability ::
  "(string \<Rightarrow> string) \<Rightarrow> tool_call \<Rightarrow> sandbox_policy \<Rightarrow> tool_context \<Rightarrow> sandbox \<Rightarrow> unit flow \<times> sandbox" where
  "step_capability lc call p cx s =
     (case check_agent_capability lc (ctx_agent cx) (tc_name call)
             (sp_allowed_capabilities p) (sp_denied_capabilities p) of
        Inl v \<Rightarrow> (Return (Err (violation_to_string v)),
                  emit_security_violation (ctx_agent cx) (tc_name call) (violation_to_string v) (cx_task_id cx) s)
      | Inr _ \<Rightarrow> (Continue (), s))"

definition step_sanitize ::
  "tool_call \<Rightarrow> tool_context \<Rightarrow> sandbox \<Rightarrow> unit flow \<times> sandbox" where
  "step_sanitize call cx s =
     (case sanitize_tool_args_with (tc_name call) (tc_arguments call)
             (registered_tool_names (sb_registry s)) (command_backend_tool_names (sb_registry s))
             (tool_traversal_rule (sb_registry s) (tc_name call)) of
        Inl v \<Rightarrow> (Return (Err (violation_to_string v)),
                  emit_security_violation (ctx_agent cx) (tc_name call) (violation_to_string v) (cx_task_id cx) s)
      | Inr _ \<Rightarrow> (Continue (), s))"

text \<open>
  The guard of a raised prompt: \<open>close\<close> announces how the wait ended; dropped while still open,
  the prompt is withdrawn and announced cancelled.
\<close>

definition announce ::
  "string \<Rightarrow> tool_call \<Rightarrow> sandbox_policy \<Rightarrow> tool_context \<Rightarrow> confirmation_outcome \<Rightarrow> sandbox \<Rightarrow> sandbox" where
  "announce rid call p cx outcome s =
     publish (ToolConfirmationResolved rid (ctx_agent cx) (tc_name call) outcome
                (sp_stream_id p) (sp_lane_key p) (cx_task_id cx)) s"

definition drop_open_prompt ::
  "string \<Rightarrow> tool_call \<Rightarrow> sandbox_policy \<Rightarrow> tool_context \<Rightarrow> broker \<Rightarrow> sandbox \<Rightarrow> sandbox" where
  "drop_open_prompt rid call p cx b s =
     announce rid call p cx OutCancelled (s\<lparr>sb_broker := Some (drop_receiver rid (broker_cancel rid b))\<rparr>)"

text \<open>A person is asked: the prompt is registered, announced, awaited and announced resolved.\<close>

definition raise_prompt ::
  "tool_call \<Rightarrow> sandbox_policy \<Rightarrow> tool_context \<Rightarrow> bool \<Rightarrow> string option \<Rightarrow> broker \<Rightarrow> world \<Rightarrow> sandbox \<Rightarrow>
   confirmation_resolution flow \<times> sandbox" where
  "raise_prompt call p cx per_call preview b w s =
     (let rid = w_request_id w;
          req = \<lparr>cr_request_id = rid, cr_agent_id = ctx_agent cx, cr_tool_name = tc_name call,
                 cr_tool_arguments = tc_arguments call, cr_stream_id = sp_stream_id p,
                 cr_lane_key = sp_lane_key p, cr_task_id = cx_task_id cx,
                 cr_agent_instance_id = cx_agent_instance_id cx, cr_preview = preview,
                 cr_per_call = per_call, cr_timestamp = w_check_at w\<rparr>;
          s1 = publish (ToolConfirmationRequested rid (ctx_agent cx) (tc_name call) (tc_arguments call)
                          (sp_stream_id p) (sp_lane_key p) (cx_task_id cx) preview per_call) s;
          b1 = broker_run (w_during_wait w) (broker_request req b)
      in if w_wait_dropped w then (Dropped, drop_open_prompt rid call p cx b1 s1)
         else
           let (resolution, b2) = broker_wait rid b1 in
           (Continue resolution,
            announce rid call p cx (resolution_outcome resolution) (s1\<lparr>sb_broker := Some b2\<rparr>)))"

definition after_prompt ::
  "(json \<Rightarrow> 64 word) \<Rightarrow> tool_call \<Rightarrow> sandbox_policy \<Rightarrow> bool \<Rightarrow> world \<Rightarrow> confirmation_resolution \<Rightarrow> sandbox \<Rightarrow>
   string option flow \<times> sandbox" where
  "after_prompt hash call p per_call w resolution s =
     (case resolution of
        Answered resp \<Rightarrow>
          if rs_approved resp then
            (Continue (Some (w_request_id w)),
             if per_call then s
             else s\<lparr>sb_cache := cache_record (tc_name call) (hash_canonical_args hash (tc_arguments call))
                       (case rs_scope resp of None \<Rightarrow> TheseArgs | Some sc \<Rightarrow> sc) (sb_cache s)\<rparr>)
          else
            (Return (Err (quote_tool (tc_name call) '' denied by user''
               @ (case w_denied_note w of None \<Rightarrow> [] | Some note \<Rightarrow> ''. '' @ note))), s)
      | ResCancelled \<Rightarrow> (Return (Err ''Confirmation request cancelled''), s)
      | ResTimedOut \<Rightarrow>
          (Return (Err (quote_tool (tc_name call) '' confirmation timed out after ''
             @ show_nat (case sp_confirmation_timeout_secs p of None \<Rightarrow> 300 | Some t \<Rightarrow> unat t) @ ''s'')), s))"

definition unattended_reason :: "string \<Rightarrow> string" where
  "unattended_reason tool = quote_tool tool
     ('' needs your approval, and this run cannot ask for it: the client that started it said it cannot answer '' @
      ''approval prompts (a one-shot or piped `openalpaca chat`, or a scheduled skill). Nothing was executed. '' @
      ''Run this from the GUI, or from an interactive `openalpaca chat`, and approve it there.'')"

definition fail_closed_reason :: "string \<Rightarrow> string" where
  "fail_closed_reason tool = quote_tool tool
     ('' requires human confirmation but no interactive confirmation mechanism is available. '' @
      ''Fail-closed safety default.'')"

definition needs_confirmation :: "tool_call \<Rightarrow> sandbox_policy \<Rightarrow> sandbox \<Rightarrow> bool" where
  "needs_confirmation call p s =
     (approval_is_per_call (tc_name call)
      \<or> tc_name call \<in> set (effective_confirmation_set p (sb_registry s)))"

text \<open>The confirmation step; it hands on the fact that a person approved this very call.\<close>

definition step_confirm ::
  "(json \<Rightarrow> 64 word) \<Rightarrow> tool_call \<Rightarrow> sandbox_policy \<Rightarrow> tool_context \<Rightarrow> world \<Rightarrow> sandbox \<Rightarrow>
   string option flow \<times> sandbox" where
  "step_confirm hash call p cx w s =
     (let args_hash = hash_canonical_args hash (tc_arguments call);
          per_call = approval_is_per_call (tc_name call)
      in
      if \<not> needs_confirmation call p s then (Continue None, s)
      else
        case w_precheck w of
          Inl reason \<Rightarrow>
            (Return (Err reason),
             emit_tool_executed (ctx_agent cx) call False 0 (cx_task_id cx) (cx_session_id cx) s)
        | Inr _ \<Rightarrow>
          if \<not> per_call \<and> is_approved (tc_name call) args_hash (sb_cache s) then (Continue None, s)
          else if \<not> per_call \<and> sp_auto_approve p then
            (Continue None,
             audit (''tool_auto_approved'', ctx_agent cx, tc_name call, ''auto_approve policy bypass'', cx_task_id cx) s)
          else if sp_unattended p then
            (Return (Err (unattended_reason (tc_name call))),
             emit_violation_as UNAPPROVABLE_EVENT_TYPE (ctx_agent cx) (tc_name call)
               (unattended_reason (tc_name call)) (cx_task_id cx) s)
          else
            case sb_broker s of
              Some b \<Rightarrow>
                (case w_preview w of
                   Inl reason \<Rightarrow> (Return (Err reason), s)
                 | Inr preview \<Rightarrow>
                     (case raise_prompt call p cx per_call preview b w s of
                        (Continue resolution, s') \<Rightarrow> after_prompt hash call p per_call w resolution s'
                      | (Return r, s') \<Rightarrow> (Return r, s')
                      | (Dropped, s') \<Rightarrow> (Dropped, s')))
            | None \<Rightarrow>
                (Return (Err (fail_closed_reason (tc_name call))),
                 emit_security_violation (ctx_agent cx) (tc_name call) (fail_closed_reason (tc_name call))
                   (cx_task_id cx) s))"

text \<open>What \<open>check\<close> says to the agent.\<close>

fun refusal_text :: "breaker_refusal \<Rightarrow> string" where
  "refusal_text (BreakerOpen tool failures remaining) =
     ''Circuit breaker open for tool '' @ [CHR 0x27] @ tool @ [CHR 0x27] @ '': '' @ show_nat failures
     @ '' consecutive failures. Retry after '' @ show_nat remaining @ ''s.''"
| "refusal_text (BreakerHalfOpen tool) =
     ''Circuit breaker half-open for tool '' @ [CHR 0x27] @ tool @ [CHR 0x27] @ '': probe call in progress''"

definition step_breaker ::
  "tool_call \<Rightarrow> tool_context \<Rightarrow> world \<Rightarrow> sandbox \<Rightarrow> unit flow \<times> sandbox" where
  "step_breaker call cx w s =
     (case tool_check (w_check_at w) (ctx_agent cx) (tc_name call) (sb_breaker s) of
        (Inl r, b) \<Rightarrow> (Return (Err (refusal_text r)),
                       emit_tool_executed (ctx_agent cx) call False 0 (cx_task_id cx) (cx_session_id cx)
                         (s\<lparr>sb_breaker := b\<rparr>))
      | (Inr _, b) \<Rightarrow> (Continue (), s\<lparr>sb_breaker := b\<rparr>))"

definition dispatch_context :: "tool_context \<Rightarrow> string option \<Rightarrow> tool_context" where
  "dispatch_context cx human_approval =
     (disciplined cx)\<lparr>cx_has_event_bus := True, cx_human_approval := human_approval\<rparr>"

definition record_failure_at :: "world \<Rightarrow> tool_call \<Rightarrow> tool_context \<Rightarrow> sandbox \<Rightarrow> sandbox" where
  "record_failure_at w call cx s =
     (case tool_record_failure_for_task (w_record_at w) (ctx_agent cx) (tc_name call) (cx_task_id cx) (sb_breaker s) of
        (tripped, b, evs) \<Rightarrow>
          s\<lparr>sb_breaker := b, sb_events := sb_events s @ map CircuitBreakerTripped evs\<rparr>)"

definition COMMAND_TIMED_OUT_HINT :: string where
  "COMMAND_TIMED_OUT_HINT =
     ''Hint: that is the most a command may run here; split the work into smaller commands that each finish sooner.''"

definition timeout_reason :: "tool_call \<Rightarrow> sandbox_policy \<Rightarrow> string" where
  "timeout_reason call p =
     quote_tool (tc_name call) ('' timed out after '' @ show_nat (unat (sp_max_tool_runtime_secs p)) @ ''s'')"

text \<open>The run of the tool, cut at the policy's limit unless the tool is exempt from it.\<close>

definition step_execute ::
  "(string \<Rightarrow> string) \<Rightarrow> tool_call \<Rightarrow> sandbox_policy \<Rightarrow> tool_context \<Rightarrow> world \<Rightarrow> string option \<Rightarrow> sandbox \<Rightarrow>
   (string, string) res option \<times> sandbox" where
  "step_execute lc call p cx w human_approval s0 =
     (let s = s0\<lparr>sb_dispatched := sb_dispatched s0 @ [(call, dispatch_context cx human_approval)]\<rparr>;
          executed = (\<lambda>ok. emit_tool_executed (ctx_agent cx) call ok (w_duration_ms w) (cx_task_id cx) (cx_session_id cx))
      in
      if w_outlasts w \<and> \<not> is_exempt_from_timeout (sb_registry s) (tc_name call) then
          let reason = timeout_reason call p;
              s1 = record_failure_at w call cx
                     (emit_security_violation (ctx_agent cx) (tc_name call) reason (cx_task_id cx) s)
          in (Some (Err (if is_command_tool (sb_registry s) (tc_name call)
                         then reason @ [CHR 0x0A] @ COMMAND_TIMED_OUT_HINT else reason)), s1)
      else case w_answer w of
        None \<Rightarrow> (None, s)
      | Some (ToolOk output) \<Rightarrow>
          let s1 = executed True s in
          (Some (Ok output),
           s1\<lparr>sb_breaker := tool_record_success (w_record_at w) (ctx_agent cx) (tc_name call) (sb_breaker s1)\<rparr>)
      | Some (ToolErr err) \<Rightarrow>
          let s1 = executed False s in
          (Some (Err err),
           if is_transient_tool_error lc err \<and> \<not> is_withheld_refusal err then record_failure_at w call cx s1 else s1))"

definition execute_tool ::
  "(string \<Rightarrow> string) \<Rightarrow> (json \<Rightarrow> 64 word) \<Rightarrow> tool_call \<Rightarrow> sandbox_policy \<Rightarrow> tool_context \<Rightarrow> world \<Rightarrow> sandbox \<Rightarrow>
   (string, string) res option \<times> sandbox" where
  "execute_tool lc hash call p cx w s =
     (case step_capability lc call p cx s of
        (Return r, s1) \<Rightarrow> (Some r, s1) | (Dropped, s1) \<Rightarrow> (None, s1)
      | (Continue _, s1) \<Rightarrow>
     (case step_sanitize call cx s1 of
        (Return r, s2) \<Rightarrow> (Some r, s2) | (Dropped, s2) \<Rightarrow> (None, s2)
      | (Continue _, s2) \<Rightarrow>
     (case step_confirm hash call p cx w s2 of
        (Return r, s3) \<Rightarrow> (Some r, s3) | (Dropped, s3) \<Rightarrow> (None, s3)
      | (Continue approval, s3) \<Rightarrow>
     (case step_breaker call cx w s3 of
        (Return r, s4) \<Rightarrow> (Some r, s4) | (Dropped, s4) \<Rightarrow> (None, s4)
      | (Continue _, s4) \<Rightarrow> step_execute lc call p cx w approval s4))))"

section \<open>What each step leaves alone\<close>

named_theorems frame_simps \<open>fields a helper does not touch\<close>

definition same_core :: "sandbox \<Rightarrow> sandbox \<Rightarrow> bool" where
  "same_core s s' =
     (sb_dispatched s' = sb_dispatched s \<and> sb_registry s' = sb_registry s \<and> sb_breaker s' = sb_breaker s)"

lemma same_core_refl [simp]: "same_core s s"
  by (simp add: same_core_def)

lemma same_core_trans: "same_core s t \<Longrightarrow> same_core t u \<Longrightarrow> same_core s u"
  by (simp add: same_core_def)

lemma publish_frame [frame_simps]:
  "sb_dispatched (publish e s) = sb_dispatched s" "sb_registry (publish e s) = sb_registry s"
  "sb_breaker (publish e s) = sb_breaker s" "sb_cache (publish e s) = sb_cache s"
  "sb_broker (publish e s) = sb_broker s" "sb_events (publish e s) = sb_events s @ [e]"
  by (simp_all add: publish_def)

lemma audit_frame [frame_simps]:
  "sb_dispatched (audit r s) = sb_dispatched s" "sb_registry (audit r s) = sb_registry s"
  "sb_breaker (audit r s) = sb_breaker s" "sb_cache (audit r s) = sb_cache s"
  "sb_broker (audit r s) = sb_broker s" "sb_events (audit r s) = sb_events s"
  by (simp_all add: audit_def)

lemmas emit_defs =
  emit_violation_as_def emit_security_violation_def emit_tool_executed_def announce_def

lemma step_capability_cases:
  obtains "step_capability lc call p cx s = (Continue (), s)"
    and "is_ok (check_agent_capability lc (ctx_agent cx) (tc_name call)
            (sp_allowed_capabilities p) (sp_denied_capabilities p))"
  | v where "step_capability lc call p cx s =
      (Return (Err (violation_to_string v)),
       emit_security_violation (ctx_agent cx) (tc_name call) (violation_to_string v) (cx_task_id cx) s)"
  by (cases "check_agent_capability lc (ctx_agent cx) (tc_name call)
            (sp_allowed_capabilities p) (sp_denied_capabilities p)")
    (auto simp: step_capability_def)

definition args_safe :: "tool_call \<Rightarrow> registry \<Rightarrow> bool" where
  "args_safe call reg = is_ok (sanitize_tool_args_with (tc_name call) (tc_arguments call)
     (registered_tool_names reg) (command_backend_tool_names reg) (tool_traversal_rule reg (tc_name call)))"

lemma step_sanitize_cases:
  obtains "step_sanitize call cx s = (Continue (), s)" and "args_safe call (sb_registry s)"
  | v where "step_sanitize call cx s =
      (Return (Err (violation_to_string v)),
       emit_security_violation (ctx_agent cx) (tc_name call) (violation_to_string v) (cx_task_id cx) s)"
  by (cases "sanitize_tool_args_with (tc_name call) (tc_arguments call)
     (registered_tool_names (sb_registry s)) (command_backend_tool_names (sb_registry s))
     (tool_traversal_rule (sb_registry s) (tc_name call))")
    (auto simp: step_sanitize_def args_safe_def)

section \<open>The confirmation step\<close>

text \<open>A person approved this call: the prompt raised for it was answered yes.\<close>

definition prompt_request :: "tool_call \<Rightarrow> sandbox_policy \<Rightarrow> tool_context \<Rightarrow> world \<Rightarrow> string option \<Rightarrow> confirmation_request" where
  "prompt_request call p cx w preview =
     \<lparr>cr_request_id = w_request_id w, cr_agent_id = ctx_agent cx, cr_tool_name = tc_name call,
      cr_tool_arguments = tc_arguments call, cr_stream_id = sp_stream_id p,
      cr_lane_key = sp_lane_key p, cr_task_id = cx_task_id cx,
      cr_agent_instance_id = cx_agent_instance_id cx, cr_preview = preview,
      cr_per_call = approval_is_per_call (tc_name call), cr_timestamp = w_check_at w\<rparr>"

definition person_approved :: "tool_call \<Rightarrow> sandbox_policy \<Rightarrow> tool_context \<Rightarrow> world \<Rightarrow> sandbox \<Rightarrow> bool" where
  "person_approved call p cx w s =
     (\<not> sp_unattended p \<and> \<not> w_wait_dropped w \<and>
      (case (sb_broker s, w_preview w) of
         (Some b, Inr preview) \<Rightarrow>
           (case fst (broker_wait (w_request_id w)
                   (broker_run (w_during_wait w) (broker_request (prompt_request call p cx w preview) b))) of
              Answered resp \<Rightarrow> rs_approved resp
            | _ \<Rightarrow> False)
       | _ \<Rightarrow> False))"

definition may_run :: "(json \<Rightarrow> 64 word) \<Rightarrow> tool_call \<Rightarrow> sandbox_policy \<Rightarrow> tool_context \<Rightarrow> world \<Rightarrow> sandbox \<Rightarrow> string option \<Rightarrow> bool" where
  "may_run hash call p cx w s approval =
     (case approval of
        Some rid \<Rightarrow> needs_confirmation call p s \<and> rid = w_request_id w \<and> person_approved call p cx w s
      | None \<Rightarrow>
          \<not> needs_confirmation call p s
          \<or> (\<not> approval_is_per_call (tc_name call)
              \<and> (is_approved (tc_name call) (hash_canonical_args hash (tc_arguments call)) (sb_cache s)
                 \<or> sp_auto_approve p)))"

text \<open>The events of prompts among those published: each with its outcome once it is resolved.\<close>

fun prompt_tag :: "system_event \<Rightarrow> (string \<times> confirmation_outcome option) option" where
  "prompt_tag (ToolConfirmationRequested rid _ _ _ _ _ _ _ _) = Some (rid, None)"
| "prompt_tag (ToolConfirmationResolved rid _ _ oc _ _ _) = Some (rid, Some oc)"
| "prompt_tag _ = None"

definition prompts :: "system_event list \<Rightarrow> (string \<times> confirmation_outcome option) list" where
  "prompts es = List.map_filter prompt_tag es"

lemma prompts_append [simp]: "prompts (xs @ ys) = prompts xs @ prompts ys"
  by (simp add: prompts_def List.map_filter_def)

lemma prompts_simps [simp]:
  "prompts [] = []"
  "prompts (e # es) = (case prompt_tag e of None \<Rightarrow> prompts es | Some t \<Rightarrow> t # prompts es)"
  by (simp_all add: prompts_def List.map_filter_def split: option.splits)

text \<open>A prompt raised, and how it leaves the state.\<close>

lemma raise_prompt_result:
  fixes call p cx w preview b s per_call
  defines "rid \<equiv> w_request_id w"
    and "b1 \<equiv> broker_run (w_during_wait w) (broker_request (prompt_request call p cx w preview) b)"
    and "r \<equiv> raise_prompt call p cx (approval_is_per_call (tc_name call)) preview b w s"
  shows "fst r = (if w_wait_dropped w then Dropped else Continue (fst (broker_wait rid b1)))"
    and "same_core s (snd r)" and "sb_cache (snd r) = sb_cache s"
    and "prompts (sb_events (snd r)) = prompts (sb_events s) @
      [(rid, None), (rid, Some (if w_wait_dropped w then OutCancelled else resolution_outcome (fst (broker_wait rid b1))))]"
    and "sb_broker (snd r) =
      Some (if w_wait_dropped w then drop_receiver rid (broker_cancel rid b1) else snd (broker_wait rid b1))"
  by (auto simp: r_def rid_def b1_def raise_prompt_def prompt_request_def Let_def split_beta same_core_def
      drop_open_prompt_def announce_def frame_simps)

lemma after_prompt_result:
  fixes hash call p per_call w resolution s
  defines "r \<equiv> after_prompt hash call p per_call w resolution s"
  shows "fst r \<noteq> Dropped" and "same_core s (snd r)"
    and "sb_events (snd r) = sb_events s" and "sb_broker (snd r) = sb_broker s"
    and "per_call \<Longrightarrow> sb_cache (snd r) = sb_cache s"
    and "fst r = Continue a \<Longrightarrow> a = Some (w_request_id w) \<and> (\<exists>resp. resolution = Answered resp \<and> rs_approved resp)"
  by (auto simp: r_def after_prompt_def same_core_def split: confirmation_resolution.splits if_splits)

definition ask_person ::
  "(json \<Rightarrow> 64 word) \<Rightarrow> tool_call \<Rightarrow> sandbox_policy \<Rightarrow> tool_context \<Rightarrow> world \<Rightarrow> broker \<Rightarrow> string option \<Rightarrow> sandbox \<Rightarrow>
   string option flow \<times> sandbox" where
  "ask_person hash call p cx w b preview s =
     (case raise_prompt call p cx (approval_is_per_call (tc_name call)) preview b w s of
        (Continue resolution, s') \<Rightarrow> after_prompt hash call p (approval_is_per_call (tc_name call)) w resolution s'
      | (Return r, s') \<Rightarrow> (Return r, s')
      | (Dropped, s') \<Rightarrow> (Dropped, s'))"

text \<open>The confirmation step either asks nobody or asks exactly one person once.\<close>

lemma step_confirm_cases:
  assumes "step_confirm hash call p cx w s = (f, s')"
  obtains (plain) "same_core s s'" "sb_cache s' = sb_cache s" "sb_broker s' = sb_broker s"
      "prompts (sb_events s') = prompts (sb_events s)"
      "\<And>a. f = Continue a \<Longrightarrow> a = None \<and> may_run hash call p cx w s a"
    | (asked) b preview where "sb_broker s = Some b" "w_preview w = Inr preview" "needs_confirmation call p s"
      "\<not> sp_unattended p" "ask_person hash call p cx w b preview s = (f, s')"
proof -
  define ask where "ask = ask_person hash call p cx w"
  have c: "step_confirm hash call p cx w s =
     (if \<not> needs_confirmation call p s then (Continue None, s)
      else case w_precheck w of
          Inl reason \<Rightarrow> (Return (Err reason),
             emit_tool_executed (ctx_agent cx) call False 0 (cx_task_id cx) (cx_session_id cx) s)
        | Inr _ \<Rightarrow>
          if \<not> approval_is_per_call (tc_name call)
             \<and> is_approved (tc_name call) (hash_canonical_args hash (tc_arguments call)) (sb_cache s)
          then (Continue None, s)
          else if \<not> approval_is_per_call (tc_name call) \<and> sp_auto_approve p then
            (Continue None,
             audit (''tool_auto_approved'', ctx_agent cx, tc_name call, ''auto_approve policy bypass'', cx_task_id cx) s)
          else if sp_unattended p then
            (Return (Err (unattended_reason (tc_name call))),
             emit_violation_as UNAPPROVABLE_EVENT_TYPE (ctx_agent cx) (tc_name call)
               (unattended_reason (tc_name call)) (cx_task_id cx) s)
          else case sb_broker s of
              Some b \<Rightarrow> (case w_preview w of Inl reason \<Rightarrow> (Return (Err reason), s) | Inr preview \<Rightarrow> ask b preview s)
            | None \<Rightarrow> (Return (Err (fail_closed_reason (tc_name call))),
                 emit_security_violation (ctx_agent cx) (tc_name call) (fail_closed_reason (tc_name call))
                   (cx_task_id cx) s))"
    unfolding step_confirm_def ask_def ask_person_def by (simp add: Let_def)
  show thesis
    using assms unfolding c
    by (auto simp: may_run_def same_core_def emit_defs frame_simps ask_def [symmetric]
        intro: plain asked [unfolded ask_def [symmetric]] split: if_splits sum.splits option.splits)
qed

lemma ask_person_result:
  fixes hash call p cx w b preview s
  defines "rid \<equiv> w_request_id w"
    and "b1 \<equiv> broker_run (w_during_wait w) (broker_request (prompt_request call p cx w preview) b)"
    and "r \<equiv> ask_person hash call p cx w b preview s"
  shows "same_core s (snd r)"
    and "approval_is_per_call (tc_name call) \<Longrightarrow> sb_cache (snd r) = sb_cache s"
    and "prompts (sb_events (snd r)) = prompts (sb_events s) @
      [(rid, None), (rid, Some (if w_wait_dropped w then OutCancelled else resolution_outcome (fst (broker_wait rid b1))))]"
    and "sb_broker (snd r) =
      Some (if w_wait_dropped w then drop_receiver rid (broker_cancel rid b1) else snd (broker_wait rid b1))"
    and "fst r = Continue a \<Longrightarrow> \<not> w_wait_dropped w \<and> a = Some rid
      \<and> (\<exists>resp. fst (broker_wait rid b1) = Answered resp \<and> rs_approved resp)"
proof -
  let ?pc = "approval_is_per_call (tc_name call)"
  let ?q = "raise_prompt call p cx ?pc preview b w s"
  note R = raise_prompt_result [where call = call and p = p and cx = cx and w = w and preview = preview
      and b = b and s = s, folded rid_def, folded b1_def]
  have r: "r = (if w_wait_dropped w then (Dropped, snd ?q)
      else after_prompt hash call p ?pc w (fst (broker_wait rid b1)) (snd ?q))"
    using R(1) by (cases ?q) (auto simp: r_def ask_person_def)
  note A = after_prompt_result [where hash = hash and call = call and p = p and w = w and s = "snd ?q"
          and per_call = ?pc and resolution = "fst (broker_wait rid b1)"]
  show "same_core s (snd r)" using A(2) R(2) same_core_trans by (auto simp: r)
  show "?pc \<Longrightarrow> sb_cache (snd r) = sb_cache s" using A(5) R(3) by (simp add: r)
  show "prompts (sb_events (snd r)) = prompts (sb_events s) @
      [(rid, None), (rid, Some (if w_wait_dropped w then OutCancelled else resolution_outcome (fst (broker_wait rid b1))))]"
    using A(3) R(4) by (simp add: r)
  show "sb_broker (snd r) =
      Some (if w_wait_dropped w then drop_receiver rid (broker_cancel rid b1) else snd (broker_wait rid b1))"
    using A(4) R(5) by (simp add: r)
  show "fst r = Continue a \<Longrightarrow> \<not> w_wait_dropped w \<and> a = Some rid
      \<and> (\<exists>resp. fst (broker_wait rid b1) = Answered resp \<and> rs_approved resp)"
    using A(6) by (auto simp: r rid_def split: if_splits)
qed

lemma step_confirm_core:
  assumes "step_confirm hash call p cx w s = (f, s')"
  shows "same_core s s' \<and> (approval_is_per_call (tc_name call) \<longrightarrow> sb_cache s' = sb_cache s)
    \<and> (f = Continue approval \<longrightarrow> may_run hash call p cx w s approval)"
  using assms
proof (cases rule: step_confirm_cases)
  case plain
  then show ?thesis by blast
next
  case (asked b preview)
  note A = ask_person_result [where hash = hash and call = call and p = p and cx = cx and w = w
      and preview = preview and b = b and s = s, unfolded asked(5) fst_conv snd_conv]
  have "f = Continue approval \<longrightarrow> may_run hash call p cx w s approval"
    using A(5) asked(1-4) by (auto simp: may_run_def person_approved_def)
  with A(1,2) show ?thesis by blast
qed

lemma wait_leaves_nothing_pending:
  assumes "\<forall>x\<in>set ops. \<not> owner_op (cr_request_id req) x"
  shows "tget (br_pending (snd (broker_wait (cr_request_id req) (broker_run ops (broker_request req b))))) (cr_request_id req) = None"
proof -
  let ?b = "broker_run ops (broker_request req b)"
  have s: "slot (cr_request_id req) ?b = (case settled_as (cr_request_id req) ops of
       Answered resp \<Rightarrow> (None, Some resp, True) | ResCancelled \<Rightarrow> (None, None, True)
     | ResTimedOut \<Rightarrow> (Some req, None, True))"
    using assms slot_requested by (intro slot_run) auto
  then have "slot (cr_request_id req) (snd (broker_wait (cr_request_id req) ?b)) = (None, None, False)"
    by (intro wait_clears) (auto simp: slot_def split: confirmation_resolution.splits)
  then show ?thesis by (simp add: slot_def)
qed

definition prompt_closed :: "string \<Rightarrow> sandbox \<Rightarrow> sandbox \<Rightarrow> bool" where
  "prompt_closed rid s s' =
     ((\<exists>t. prompts (sb_events s') = prompts (sb_events s) @ t
         \<and> (t = [] \<or> (\<exists>oc. t = [(rid, None), (rid, Some oc)])))
      \<and> (case sb_broker s' of None \<Rightarrow> True | Some b \<Rightarrow> tget (br_pending b) rid = None))"

definition prompt_fresh :: "string \<Rightarrow> sandbox \<Rightarrow> bool" where
  "prompt_fresh rid s = (case sb_broker s of None \<Rightarrow> True | Some b \<Rightarrow> tget (br_pending b) rid = None)"

lemma prompt_closed_quiet:
  "prompt_closed rid s s' \<Longrightarrow> prompts (sb_events t) = prompts (sb_events s') \<Longrightarrow> sb_broker t = sb_broker s' \<Longrightarrow>
   prompt_closed rid s t"
  by (simp add: prompt_closed_def)

lemma prompt_closed_refl: "prompt_fresh rid s \<Longrightarrow> prompt_closed rid s s"
  by (simp add: prompt_closed_def prompt_fresh_def)

lemma step_confirm_prompts:
  assumes "step_confirm hash call p cx w s = (f, s')" and "prompt_fresh (w_request_id w) s"
    and others: "\<forall>x\<in>set (w_during_wait w). \<not> owner_op (w_request_id w) x"
  shows "prompt_closed (w_request_id w) s s'"
  using assms(1)
proof (cases rule: step_confirm_cases)
  case plain
  then show ?thesis using prompt_closed_quiet prompt_closed_refl assms(2) by metis
next
  case (asked b preview)
  note A = ask_person_result [where hash = hash and call = call and p = p and cx = cx and w = w
      and preview = preview and b = b and s = s, unfolded asked(5) fst_conv snd_conv]
  have "cr_request_id (prompt_request call p cx w preview) = w_request_id w" by (simp add: prompt_request_def)
  then show ?thesis
    using A(3,4) wait_leaves_nothing_pending [of "w_during_wait w" "prompt_request call p cx w preview" b] others
    by (auto simp: prompt_closed_def drop_receiver_def broker_cancel_def table_simps)
qed

section \<open>The breaker and the run\<close>

lemma step_breaker_cases:
  obtains "step_breaker call cx w s = (Continue (), s\<lparr>sb_breaker := snd (tool_check (w_check_at w) (ctx_agent cx) (tc_name call) (sb_breaker s))\<rparr>)"
      and "is_ok (fst (tool_check (w_check_at w) (ctx_agent cx) (tc_name call) (sb_breaker s)))"
    | r where "step_breaker call cx w s = (Return (Err (refusal_text r)),
         emit_tool_executed (ctx_agent cx) call False 0 (cx_task_id cx) (cx_session_id cx)
           (s\<lparr>sb_breaker := snd (tool_check (w_check_at w) (ctx_agent cx) (tc_name call) (sb_breaker s))\<rparr>))"
  by (cases "tool_check (w_check_at w) (ctx_agent cx) (tc_name call) (sb_breaker s)"; cases "fst (tool_check (w_check_at w) (ctx_agent cx) (tc_name call) (sb_breaker s))")
    (auto simp: step_breaker_def)

lemma prompts_trips [simp]: "prompts (map CircuitBreakerTripped evs) = []"
  by (induction evs) simp_all

lemma record_failure_at_frame [frame_simps]:
  "sb_dispatched (record_failure_at w call cx s) = sb_dispatched s"
  "sb_broker (record_failure_at w call cx s) = sb_broker s"
  "sb_cache (record_failure_at w call cx s) = sb_cache s"
  "prompts (sb_events (record_failure_at w call cx s)) = prompts (sb_events s)"
  by (auto simp: record_failure_at_def split: prod.splits)

lemma step_execute_frame:
  "sb_dispatched (snd (step_execute lc call p cx w a s)) = sb_dispatched s @ [(call, dispatch_context cx a)]"
  "sb_broker (snd (step_execute lc call p cx w a s)) = sb_broker s"
  "sb_cache (snd (step_execute lc call p cx w a s)) = sb_cache s"
  "prompts (sb_events (snd (step_execute lc call p cx w a s))) = prompts (sb_events s)"
  by (auto simp: step_execute_def Let_def emit_defs frame_simps split: option.splits tool_answer.splits)

text \<open>The whole call, by the step that ends it.\<close>

lemma execute_tool_cases:
  obtains
    (refused) v where "execute_tool lc hash call p cx w s =
      (Some (Err (violation_to_string v)),
       emit_security_violation (ctx_agent cx) (tc_name call) (violation_to_string v) (cx_task_id cx) s)"
  | (confirm) f s3 where "step_confirm hash call p cx w s = (f, s3)" "\<nexists>a. f = Continue a"
      "snd (execute_tool lc hash call p cx w s) = s3"
  | (breaker) a s3 r where "step_confirm hash call p cx w s = (Continue a, s3)"
      "step_breaker call cx w s3 = (Return (Err (refusal_text r)),
         emit_tool_executed (ctx_agent cx) call False 0 (cx_task_id cx) (cx_session_id cx)
           (s3\<lparr>sb_breaker := snd (tool_check (w_check_at w) (ctx_agent cx) (tc_name call) (sb_breaker s3))\<rparr>))"
      "execute_tool lc hash call p cx w s = (Some (Err (refusal_text r)), snd (step_breaker call cx w s3))"
  | (run) a s3 where
      "is_ok (check_agent_capability lc (ctx_agent cx) (tc_name call)
            (sp_allowed_capabilities p) (sp_denied_capabilities p))"
      "args_safe call (sb_registry s)"
      "step_confirm hash call p cx w s = (Continue a, s3)"
      "is_ok (fst (tool_check (w_check_at w) (ctx_agent cx) (tc_name call) (sb_breaker s3)))"
      "execute_tool lc hash call p cx w s = step_execute lc call p cx w a
         (s3\<lparr>sb_breaker := snd (tool_check (w_check_at w) (ctx_agent cx) (tc_name call) (sb_breaker s3))\<rparr>)"
proof (rule step_capability_cases [of lc call p cx s])
  fix v assume "step_capability lc call p cx s = (Return (Err (violation_to_string v)),
       emit_security_violation (ctx_agent cx) (tc_name call) (violation_to_string v) (cx_task_id cx) s)"
  then show thesis by (intro refused) (simp add: execute_tool_def)
next
  assume cap: "step_capability lc call p cx s = (Continue (), s)"
    and ok1: "is_ok (check_agent_capability lc (ctx_agent cx) (tc_name call)
            (sp_allowed_capabilities p) (sp_denied_capabilities p))"
  show thesis
  proof (rule step_sanitize_cases [of call cx s])
    fix v assume "step_sanitize call cx s = (Return (Err (violation_to_string v)),
       emit_security_violation (ctx_agent cx) (tc_name call) (violation_to_string v) (cx_task_id cx) s)"
    then show thesis by (intro refused) (simp add: execute_tool_def cap)
  next
    assume san: "step_sanitize call cx s = (Continue (), s)" and ok2: "args_safe call (sb_registry s)"
    obtain f s3 where c: "step_confirm hash call p cx w s = (f, s3)" by force
    show thesis
    proof (cases f)
      case (Return r)
      then show thesis using c by (intro confirm) (auto simp: execute_tool_def cap san)
    next
      case Dropped
      then show thesis using c by (intro confirm) (auto simp: execute_tool_def cap san)
    next
      case (Continue a)
      show thesis
      proof (rule step_breaker_cases [of call cx w s3])
        assume "step_breaker call cx w s3 = (Continue (), s3\<lparr>sb_breaker := snd (tool_check (w_check_at w) (ctx_agent cx) (tc_name call) (sb_breaker s3))\<rparr>)"
          and "is_ok (fst (tool_check (w_check_at w) (ctx_agent cx) (tc_name call) (sb_breaker s3)))"
        then show thesis using c Continue ok1 ok2 by (intro run) (auto simp: execute_tool_def cap san)
      next
        fix r assume "step_breaker call cx w s3 = (Return (Err (refusal_text r)),
         emit_tool_executed (ctx_agent cx) call False 0 (cx_task_id cx) (cx_session_id cx)
           (s3\<lparr>sb_breaker := snd (tool_check (w_check_at w) (ctx_agent cx) (tc_name call) (sb_breaker s3))\<rparr>))"
        then show thesis using c Continue by (intro breaker) (auto simp: execute_tool_def cap san)
      qed
    qed
  qed
qed

lemma ctx_wedge:
  assumes "w_answer w = None \<or> (\<exists>err. w_answer w = Some (ToolErr err) \<and>
      \<not> (is_transient_tool_error lc err \<and> \<not> is_withheld_refusal err))"
    and "\<not> w_outlasts w"
  shows "sb_breaker (snd (step_execute lc call p cx w a s)) = sb_breaker s"
  using assms by (auto simp: step_execute_def Let_def emit_defs frame_simps)

section \<open>Properties\<close>

text \<open>C1: No call reaches a tool unless every layer let it through: in any state, for any world, a call
  that is dispatched was admitted by the agent's capability check and the argument sanitizer,
  either needed no confirmation or was pre-approved, auto-approved or approved by a person now,
  and passed the circuit breaker. Calls reach a tool at most once.\<close>

theorem dispatch_passed_every_gate:
  assumes "sb_dispatched (snd (execute_tool lc hash call p cx w s)) \<noteq> sb_dispatched s"
  shows "\<exists>approval s3.
      sb_dispatched (snd (execute_tool lc hash call p cx w s)) = sb_dispatched s @ [(call, dispatch_context cx approval)]
    \<and> is_ok (check_agent_capability lc (ctx_agent cx) (tc_name call)
         (sp_allowed_capabilities p) (sp_denied_capabilities p))
    \<and> args_safe call (sb_registry s)
    \<and> may_run hash call p cx w s approval
    \<and> step_confirm hash call p cx w s = (Continue approval, s3)
    \<and> is_ok (fst (tool_check (w_check_at w) (ctx_agent cx) (tc_name call) (sb_breaker s)))"
  using assms
proof (cases rule: execute_tool_cases [of lc hash call p cx w s])
  case (refused v)
  then show ?thesis using assms by (simp add: emit_defs frame_simps)
next
  case (confirm f s3)
  then show ?thesis using assms step_confirm_core [OF confirm(1)] by (simp add: same_core_def)
next
  case (breaker a s3 r)
  then show ?thesis using assms step_confirm_core [OF breaker(1)]
    by (simp add: same_core_def emit_defs frame_simps)
next
  case (run a s3)
  have "same_core s s3" "may_run hash call p cx w s a" using step_confirm_core [OF run(3)] by auto
  with run show ?thesis by (auto simp: step_execute_frame same_core_def)
qed

definition demo_sandbox :: sandbox where
  "demo_sandbox = \<lparr>sb_registry = [(''file_write'', \<lparr>rt_backend = BuiltIn False, rt_destructive_hint = Some True,
       rt_exempt_from_timeout = False\<rparr>)],
     sb_breaker = \<lparr>tb_state = [], tb_failure_threshold = 5, tb_reset_timeout = 60, tb_enabled = True,
       tb_reset_timeout_secs = 0\<rparr>, sb_has_db = True,
     sb_broker = Some broker_new, sb_cache = approval_cache_new, sb_events = [], sb_audit = [],
     sb_dispatched = []\<rparr>"

definition demo_call :: tool_call where
  "demo_call = \<lparr>tc_id = ''c1'', tc_name = ''file_write'', tc_arguments = JObject [(''path'', JString ''a.txt'')]\<rparr>"

definition demo_ctx :: tool_context where
  "demo_ctx = \<lparr>cx_agent_id = Some ''a'', cx_agent_instance_id = None, cx_task_id = None, cx_session_id = None,
     cx_has_event_bus = False, cx_human_approval = Some ''forged'', cx_human_denial = None\<rparr>"

definition demo_sandbox_policy :: sandbox_policy where
  "demo_sandbox_policy = (from_constraints ascii_lower ''a'' constraints_default)
     \<lparr>sp_allowed_capabilities := Unrestricted\<rparr>"

definition demo_world :: world where
  "demo_world = \<lparr>w_precheck = Ok (), w_preview = Ok None, w_request_id = ''r1'',
     w_during_wait = [BRespond ''r1'' \<lparr>rs_approved = True, rs_scope = None\<rparr>], w_wait_dropped = False,
     w_denied_note = None, w_check_at = 5, w_answer = Some (ToolOk ''written''), w_outlasts = False,
     w_record_at = 6, w_duration_ms = 1\<rparr>"

definition hash0 :: "json \<Rightarrow> 64 word" where
  "hash0 v = 0"

text \<open>The demonstration call runs to its end: the person approves, the tool answers.\<close>

lemma demo_dispatched:
  "sb_dispatched (snd (execute_tool ascii_lower hash0 demo_call demo_sandbox_policy demo_ctx demo_world demo_sandbox))
     = [(demo_call, dispatch_context demo_ctx (Some ''r1''))]"
  by code_simp

lemma dispatch_passed_every_gate_witness:
  "\<exists>approval. may_run hash0 demo_call demo_sandbox_policy demo_ctx demo_world demo_sandbox approval"
  using dispatch_passed_every_gate [of ascii_lower hash0 demo_call demo_sandbox_policy demo_ctx demo_world demo_sandbox]
  by (auto simp: demo_dispatched) (auto simp: demo_sandbox_def)

text \<open>C5: The fact that a person approved a call is made by the sandbox alone: whatever context the
  caller built, a tool that is run with the approval set was approved on the prompt raised for
  this very call, and a tool run without such an approval finds none; a denial is never passed
  on.\<close>

theorem human_approval_unforgeable:
  assumes "sb_dispatched (snd (execute_tool lc hash call p cx w s)) = sb_dispatched s @ [(call, cx')]"
  shows "cx_human_denial cx' = None
    \<and> (cx_human_approval cx' = None
       \<or> (cx_human_approval cx' = Some (w_request_id w)
          \<and> needs_confirmation call p s \<and> person_approved call p cx w s))"
  using assms
proof (cases rule: execute_tool_cases [of lc hash call p cx w s])
  case (refused v)
  then show ?thesis using assms by (simp add: emit_defs frame_simps)
next
  case (confirm f s3)
  then show ?thesis using assms step_confirm_core [OF confirm(1)] by (simp add: same_core_def)
next
  case (breaker a s3 r)
  then show ?thesis using assms step_confirm_core [OF breaker(1)]
    by (simp add: same_core_def emit_defs frame_simps)
next
  case (run a s3)
  have s3: "same_core s s3" and m: "may_run hash call p cx w s a" using step_confirm_core [OF run(3)] by auto
  from run assms s3 have cx': "cx' = dispatch_context cx a" by (simp add: step_execute_frame same_core_def)
  have "cx_human_approval cx' = a" "cx_human_denial cx' = None"
    by (simp_all add: cx' dispatch_context_def disciplined_def)
  then show ?thesis using m by (cases a) (auto simp: may_run_def)
qed

lemma human_approval_unforgeable_witness:
  "person_approved demo_call demo_sandbox_policy demo_ctx demo_world demo_sandbox"
proof -
  have "sb_dispatched demo_sandbox = []" and "cx_human_approval (dispatch_context demo_ctx (Some ''r1'')) = Some ''r1''"
    by (simp_all add: demo_sandbox_def dispatch_context_def)
  then show ?thesis
    using human_approval_unforgeable [of ascii_lower hash0 demo_call demo_sandbox_policy demo_ctx demo_world demo_sandbox
        "dispatch_context demo_ctx (Some ''r1'')"]
    by (simp add: demo_dispatched)
qed

text \<open>C13: A tool whose approval is per call (memory_confirm) runs only when a person approved this call
  now: neither the policy's lists, the approval cache nor auto-approve answers for it, and its
  approval is never recorded.\<close>

theorem per_call_approval_required:
  assumes "approval_is_per_call (tc_name call)"
  shows "sb_cache (snd (execute_tool lc hash call p cx w s)) = sb_cache s
    \<and> (\<not> person_approved call p cx w s \<longrightarrow>
        sb_dispatched (snd (execute_tool lc hash call p cx w s)) = sb_dispatched s)"
proof (cases rule: execute_tool_cases [of lc hash call p cx w s])
  case (refused v)
  then show ?thesis by (simp add: emit_defs frame_simps)
next
  case (confirm f s3)
  then show ?thesis using assms step_confirm_core [OF confirm(1)] by (simp add: same_core_def)
next
  case (breaker a s3 r)
  then show ?thesis using assms step_confirm_core [OF breaker(1)]
    by (simp add: same_core_def emit_defs frame_simps)
next
  case (run a s3)
  have "may_run hash call p cx w s a" "sb_cache s3 = sb_cache s" using step_confirm_core [OF run(3)] assms by auto
  with run assms show ?thesis
    by (auto simp: step_execute_frame may_run_def needs_confirmation_def split: option.splits)
qed

lemma per_call_approval_required_witness:
  "sb_dispatched (snd (execute_tool ascii_lower hash0 (demo_call\<lparr>tc_name := ''memory_confirm''\<rparr>)
      (demo_sandbox_policy\<lparr>sp_auto_approve := True\<rparr>) demo_ctx (demo_world\<lparr>w_during_wait := []\<rparr>) demo_sandbox)) = []"
proof -
  have "\<not> person_approved (demo_call\<lparr>tc_name := ''memory_confirm''\<rparr>)
      (demo_sandbox_policy\<lparr>sp_auto_approve := True\<rparr>) demo_ctx (demo_world\<lparr>w_during_wait := []\<rparr>) demo_sandbox"
    by (simp add: person_approved_def demo_world_def demo_sandbox_def broker_wait_def broker_request_def broker_new_def
        prompt_request_def)
  then show ?thesis
    using per_call_approval_required [of "demo_call\<lparr>tc_name := ''memory_confirm''\<rparr>" ascii_lower hash0
        "demo_sandbox_policy\<lparr>sp_auto_approve := True\<rparr>" demo_ctx "demo_world\<lparr>w_during_wait := []\<rparr>" demo_sandbox]
    by (simp add: approval_is_per_call_def demo_sandbox_def)
qed

text \<open>C14: Every prompt ends exactly once, however the call ends: the events a call publishes about
  prompts are none, or one request followed by one resolution of the same id, also when the wait
  times out or the call's future is dropped during it; and afterwards the broker holds no
  pending request of that id. The request id is fresh, and only this call registers it.\<close>

theorem prompt_resolved_exactly_once:
  assumes "prompt_fresh (w_request_id w) s"
    and "\<forall>x\<in>set (w_during_wait w). \<not> owner_op (w_request_id w) x"
  shows "prompt_closed (w_request_id w) s (snd (execute_tool lc hash call p cx w s))"
proof (cases rule: execute_tool_cases [of lc hash call p cx w s])
  case (refused v)
  then show ?thesis
    using prompt_closed_quiet [OF prompt_closed_refl [OF assms(1)]] by (simp add: emit_defs frame_simps)
next
  case (confirm f s3)
  then show ?thesis using step_confirm_prompts [OF confirm(1) assms] by simp
next
  case (breaker a s3 r)
  show ?thesis
    using prompt_closed_quiet [OF step_confirm_prompts [OF breaker(1) assms]] breaker(2,3)
    by (simp add: emit_defs frame_simps)
next
  case (run a s3)
  show ?thesis
    using prompt_closed_quiet [OF step_confirm_prompts [OF run(3) assms]] run(5)
    by (simp add: step_execute_frame)
qed

lemma prompt_resolved_exactly_once_witness:
  "prompt_closed ''r1'' demo_sandbox
     (snd (execute_tool ascii_lower hash0 demo_call demo_sandbox_policy demo_ctx
        (demo_world\<lparr>w_wait_dropped := True\<rparr>) demo_sandbox))"
  using prompt_resolved_exactly_once [of "demo_world\<lparr>w_wait_dropped := True\<rparr>" demo_sandbox]
  by (simp add: demo_world_def prompt_fresh_def demo_sandbox_def broker_new_def)

text \<open>C18: A half-open circuit can wedge: when the window is over and the probe call is let through, but
  its tool answers with an error that is not transient (or its future is dropped while it runs),
  no outcome is recorded, the circuit stays half-open, and every later check of this agent's tool
  is refused, however long one waits.\<close>

theorem probe_without_outcome_wedges:
  assumes "is_ok (check_agent_capability lc (ctx_agent cx) (tc_name call)
       (sp_allowed_capabilities p) (sp_denied_capabilities p))"
    and "args_safe call (sb_registry s)" and "\<not> needs_confirmation call p s"
    and "pair_circuit (ctx_agent cx) (tc_name call) (sb_breaker s) = CircuitOpen since"
    and "since + tb_reset_timeout (sb_breaker s) \<le> w_check_at w"
    and "\<not> w_outlasts w"
    and "w_answer w = None \<or> (\<exists>err. w_answer w = Some (ToolErr err) \<and> \<not> is_transient_tool_error lc err)"
  shows "tool_answers (ctx_agent cx) (tc_name call)
      (sb_breaker (snd (execute_tool lc hash call p cx w s))) (map EvCheck ts) = replicate (length ts) False"
proof -
  let ?ag = "ctx_agent cx" and ?tool = "tc_name call"
  have nb: "\<not> pair_blocks ?ag ?tool (sb_breaker s) (w_check_at w)"
    using assms(4,5) by (auto simp: pair_blocks_def)
  obtain e where e: "tb_enabled (sb_breaker s)" "entry_of ?ag ?tool (sb_breaker s) = Some e"
    "pair_check ?ag ?tool (w_check_at w) (sb_breaker s) =
      (True, (sb_breaker s)\<lparr>tb_state := tput (?ag, ?tool) (e\<lparr>circuit_state := CircuitHalfOpen\<rparr>) (tb_state (sb_breaker s))\<rparr>)"
    using pair_check_probe [OF assms(4) nb] by metis
  let ?b = "snd (tool_check (w_check_at w) ?ag ?tool (sb_breaker s))"
  have ok: "is_ok (fst (tool_check (w_check_at w) ?ag ?tool (sb_breaker s)))"
    using e(3) by (simp add: pair_check_def)
  have half: "pair_circuit ?ag ?tool ?b = CircuitHalfOpen"
    using e by (simp add: pair_check_def pair_circuit_def table_simps)
  have conf: "step_confirm hash call p cx w s = (Continue None, s)"
    using assms(3) by (simp add: step_confirm_def Let_def)
  have "execute_tool lc hash call p cx w s = step_execute lc call p cx w None (s\<lparr>sb_breaker := ?b\<rparr>)"
    using assms(1,2) ok conf
    by (auto simp: execute_tool_def step_capability_def step_sanitize_def step_breaker_def args_safe_def
        is_ok_def split: sum.splits prod.splits)
  then have "sb_breaker (snd (execute_tool lc hash call p cx w s)) = ?b"
    using ctx_wedge [of w lc call p cx None "s\<lparr>sb_breaker := ?b\<rparr>"] assms(6,7) by auto
  moreover have "pair_check ?ag ?tool t ?b = (False, ?b)" for t
    using half by (intro pair_check_refuses) (simp add: pair_blocks_def)
  ultimately show ?thesis unfolding tool_answers_eq by (induction ts) auto
qed

definition wedged_sandbox :: sandbox where
  "wedged_sandbox = demo_sandbox\<lparr>sb_breaker := demo_open\<rparr>"

lemma probe_without_outcome_wedges_witness:
  "tool_answers ''a'' ''t'' (sb_breaker (snd (execute_tool ascii_lower hash0
      (demo_call\<lparr>tc_name := ''t''\<rparr>) demo_sandbox_policy demo_ctx
      (demo_world\<lparr>w_check_at := 1000, w_answer := Some (ToolErr ''no such file'')\<rparr>)
      (wedged_sandbox\<lparr>sb_registry := [(''t'', \<lparr>rt_backend = BuiltIn False, rt_destructive_hint = None,
         rt_exempt_from_timeout = False\<rparr>)]\<rparr>)))) (map EvCheck [10 ^ 6, 10 ^ 12]) = [False, False]"
proof -
  let ?s = "wedged_sandbox\<lparr>sb_registry := [(''t'', \<lparr>rt_backend = BuiltIn False, rt_destructive_hint = None,
         rt_exempt_from_timeout = False\<rparr>)]\<rparr>"
  let ?c = "demo_call\<lparr>tc_name := ''t''\<rparr>"
  let ?w = "demo_world\<lparr>w_check_at := 1000, w_answer := Some (ToolErr ''no such file'')\<rparr>"
  have "is_ok (check_agent_capability ascii_lower (ctx_agent demo_ctx) (tc_name ?c)
       (sp_allowed_capabilities demo_sandbox_policy) (sp_denied_capabilities demo_sandbox_policy))"
    and "args_safe ?c (sb_registry ?s)" and "\<not> needs_confirmation ?c demo_sandbox_policy ?s"
    and "\<not> is_transient_tool_error ascii_lower ''no such file''"
    by code_simp+
  moreover have "pair_circuit (ctx_agent demo_ctx) (tc_name ?c) (sb_breaker ?s) = CircuitOpen 100"
    by (simp add: ctx_agent_def demo_ctx_def wedged_sandbox_def demo_open_def pair_circuit_def)
  moreover have "ctx_agent demo_ctx = ''a''" "tc_name ?c = ''t''" by (simp_all add: ctx_agent_def demo_ctx_def)
  ultimately show ?thesis
    using probe_without_outcome_wedges [of ascii_lower demo_ctx ?c demo_sandbox_policy ?s 100 ?w hash0 "[10 ^ 6, 10 ^ 12]"]
    by (simp add: wedged_sandbox_def demo_open_def demo_world_def)
qed

text \<open>An unattended run asks nobody and runs nothing that needs asking: a call that needs
  confirmation, is not pre-approved and is not auto-approved is refused without a prompt and
  without reaching the tool, and the audit log, where there is one, gets its typed row.\<close>

theorem unattended_refuses_without_prompt:
  assumes "sp_unattended p" and "needs_confirmation call p s" and "w_precheck w = Ok ()"
    and "\<not> may_run hash call p cx w s None"
    and "is_ok (check_agent_capability lc (ctx_agent cx) (tc_name call)
       (sp_allowed_capabilities p) (sp_denied_capabilities p))"
    and "args_safe call (sb_registry s)"
  shows "case execute_tool lc hash call p cx w s of (r, s') \<Rightarrow>
      r = Some (Err (unattended_reason (tc_name call)))
    \<and> prompts (sb_events s') = prompts (sb_events s) \<and> sb_dispatched s' = sb_dispatched s
    \<and> sb_audit s' = sb_audit s @
        (if sb_has_db s then [(UNAPPROVABLE_EVENT_TYPE, ctx_agent cx, tc_name call, unattended_reason (tc_name call),
            cx_task_id cx)] else [])"
proof -
  have "step_confirm hash call p cx w s = (Return (Err (unattended_reason (tc_name call))),
     emit_violation_as UNAPPROVABLE_EVENT_TYPE (ctx_agent cx) (tc_name call)
               (unattended_reason (tc_name call)) (cx_task_id cx) s)"
    using assms(1-4) by (auto simp: step_confirm_def Let_def may_run_def)
  then have "execute_tool lc hash call p cx w s = (Some (Err (unattended_reason (tc_name call))),
     emit_violation_as UNAPPROVABLE_EVENT_TYPE (ctx_agent cx) (tc_name call)
               (unattended_reason (tc_name call)) (cx_task_id cx) s)"
    using assms(5,6)
    by (auto simp: execute_tool_def step_capability_def step_sanitize_def args_safe_def is_ok_def split: sum.splits)
  then show ?thesis by (simp add: emit_defs frame_simps) (simp add: audit_def publish_def)
qed

lemma unattended_refuses_without_prompt_witness:
  "fst (execute_tool ascii_lower hash0 demo_call (demo_sandbox_policy\<lparr>sp_unattended := True\<rparr>) demo_ctx demo_world
      demo_sandbox) = Some (Err (unattended_reason ''file_write''))"
proof -
  let ?p = "demo_sandbox_policy\<lparr>sp_unattended := True\<rparr>"
  have "sp_unattended ?p" and "needs_confirmation demo_call ?p demo_sandbox" and "w_precheck demo_world = Ok ()"
    and "\<not> may_run hash0 demo_call ?p demo_ctx demo_world demo_sandbox None"
    and "is_ok (check_agent_capability ascii_lower (ctx_agent demo_ctx) (tc_name demo_call)
       (sp_allowed_capabilities ?p) (sp_denied_capabilities ?p))"
    and "args_safe demo_call (sb_registry demo_sandbox)"
    by code_simp+
  from unattended_refuses_without_prompt [OF this] show ?thesis
    by (simp add: split_beta demo_call_def)
qed

end
