(* ===== verification/Utf8.thy ===== *)
theory Utf8
  imports Prelude
begin

text \<open>
  UTF-8: what \<open>std::str\<close> says of a byte sequence, the character boundaries of a string, and
  the decoder of streamed byte chunks (\<open>crates/openalpaca_llm/src/providers/utf8.rs\<close>). A string
  is the list of its bytes, so a cut in the middle of a character is visible here.
\<close>

section \<open>The first character of a byte sequence\<close>

text \<open>
  What \<open>std::str::from_utf8\<close> finds at the head of a sequence: a character of so many bytes, an
  error of so many bytes (\<open>Utf8Error::error_len\<close>), or a character the sequence ends inside of.
\<close>

datatype head_char = Whole nat | Bad nat | Cut

definition continuation :: "char \<Rightarrow> bool" where
  "continuation c \<longleftrightarrow> 128 \<le> byte_of c \<and> byte_of c < 192"

fun tail_chars :: "nat \<Rightarrow> nat \<Rightarrow> string \<Rightarrow> head_char" where
  "tail_chars n 0 s = Whole n"
| "tail_chars n (Suc k) [] = Cut"
| "tail_chars n (Suc k) (c # cs) = (if continuation c then tail_chars (Suc n) k cs else Bad n)"

definition second_ok :: "nat \<Rightarrow> nat \<Rightarrow> bool" where
  "second_ok a b =
     (if a = 224 then 160 \<le> b \<and> b < 192
      else if a = 237 then 128 \<le> b \<and> b < 160
      else if a = 240 then 144 \<le> b \<and> b < 192
      else if a = 244 then 128 \<le> b \<and> b < 144
      else 128 \<le> b \<and> b < 192)"

definition width :: "nat \<Rightarrow> nat" where
  "width a =
     (if a < 128 then 1 else if 194 \<le> a \<and> a < 224 then 2 else if 224 \<le> a \<and> a < 240 then 3
      else if 240 \<le> a \<and> a < 245 then 4 else 0)"

fun first_char :: "string \<Rightarrow> head_char" where
  "first_char [] = Cut"
| "first_char (c # cs) =
     (let w = width (byte_of c) in
      if w = 0 then Bad 1
      else if w = 1 then Whole 1
      else case cs of
             [] \<Rightarrow> Cut
           | d # ds \<Rightarrow> if second_ok (byte_of c) (byte_of d) then tail_chars 2 (w - 2) ds else Bad 1)"

lemma tail_chars_Whole: "tail_chars n k s = Whole m \<Longrightarrow> m = n + k \<and> k \<le> length s"
  by (induction n k s rule: tail_chars.induct) (auto split: if_splits)

lemma tail_chars_Bad: "tail_chars n k s = Bad m \<Longrightarrow> n \<le> m \<and> m < n + k \<and> m - n < length s"
  by (induction n k s rule: tail_chars.induct) (auto split: if_splits)

lemma tail_chars_append: "tail_chars n k s \<noteq> Cut \<Longrightarrow> tail_chars n k (s @ t) = tail_chars n k s"
  by (induction n k s rule: tail_chars.induct) auto

lemma first_char_Whole: "first_char s = Whole n \<Longrightarrow> 0 < n \<and> n \<le> length s"
  by (cases s) (auto simp: Let_def split: if_splits list.splits dest!: tail_chars_Whole)

lemma first_char_Bad: "first_char s = Bad n \<Longrightarrow> 0 < n \<and> n \<le> length s"
  by (cases s) (auto simp: Let_def split: if_splits list.splits dest!: tail_chars_Bad)

lemma first_char_append: "first_char s \<noteq> Cut \<Longrightarrow> first_char (s @ t) = first_char s"
  by (cases s) (auto simp: Let_def tail_chars_append split: if_splits list.splits)

section \<open>Decoding\<close>

text \<open>\<open>Utf8Error::valid_up_to\<close>, \<open>std::str::from_utf8\<close> and \<open>String::from_utf8_lossy\<close>.\<close>

function valid_up_to :: "string \<Rightarrow> nat" where
  "valid_up_to s = (case first_char s of Whole n \<Rightarrow> n + valid_up_to (drop n s) | _ \<Rightarrow> 0)"
  by pat_completeness auto

termination
  by (relation "measure length") (auto dest: first_char_Whole)

declare valid_up_to.simps [simp del]

definition utf8_ok :: "string \<Rightarrow> bool" where
  "utf8_ok s = (valid_up_to s = length s)"

definition error_len :: "string \<Rightarrow> nat option" where
  "error_len s = (case first_char s of Bad n \<Rightarrow> Some n | _ \<Rightarrow> None)"

definition from_utf8 :: "string \<Rightarrow> (nat \<times> nat option, string) res" where
  "from_utf8 s =
     (let v = valid_up_to s in if v = length s then Ok s else Err (v, error_len (drop v s)))"

definition REPLACEMENT :: string where
  "REPLACEMENT = [CHR 0xEF, CHR 0xBF, CHR 0xBD]"

function from_utf8_lossy :: "string \<Rightarrow> string" where
  "from_utf8_lossy s =
     (if s = [] then []
      else case first_char s of
             Whole n \<Rightarrow> take n s @ from_utf8_lossy (drop n s)
           | Bad n \<Rightarrow> REPLACEMENT @ from_utf8_lossy (drop n s)
           | Cut \<Rightarrow> REPLACEMENT)"
  by pat_completeness auto

termination
  by (relation "measure length") (auto dest: first_char_Whole first_char_Bad)

declare from_utf8_lossy.simps [simp del]

lemma valid_up_to_le: "valid_up_to s \<le> length s"
proof (induction s rule: valid_up_to.induct)
  case (1 s)
  show ?case
  proof (cases "first_char s")
    case (Whole n)
    then show ?thesis using 1 [OF Whole] first_char_Whole [OF Whole] by (subst valid_up_to.simps) auto
  qed (subst valid_up_to.simps, simp)+
qed

lemma valid_up_to_Nil [simp]: "valid_up_to [] = 0"
  by (subst valid_up_to.simps) simp

lemma lossy_Nil [simp]: "from_utf8_lossy [] = []"
  by (subst from_utf8_lossy.simps) simp

lemma utf8_ok_Nil [simp]: "utf8_ok []"
  by (simp add: utf8_ok_def)

text \<open>A string is the concatenation of its characters; the induction on them.\<close>

lemma utf8_ok_unfold:
  "utf8_ok s \<longleftrightarrow> s = [] \<or> (\<exists>n. first_char s = Whole n \<and> utf8_ok (drop n s))"
proof (cases "first_char s")
  case (Whole n)
  then show ?thesis using first_char_Whole [OF Whole] valid_up_to_le [of "drop n s"]
    unfolding utf8_ok_def by (subst valid_up_to.simps) auto
next
  case (Bad n)
  then show ?thesis using first_char_Bad [OF Bad]
    unfolding utf8_ok_def by (subst valid_up_to.simps) auto
next
  case Cut
  then show ?thesis unfolding utf8_ok_def by (subst valid_up_to.simps) auto
qed

lemma utf8_induct [consumes 1, case_names Nil Char]:
  assumes "utf8_ok s"
    and nil: "P []"
    and char: "\<And>n s. first_char s = Whole n \<Longrightarrow> utf8_ok (drop n s) \<Longrightarrow> P (drop n s) \<Longrightarrow> P s"
  shows "P s"
  using \<open>utf8_ok s\<close>
proof (induction "length s" arbitrary: s rule: less_induct)
  case less
  show ?case
  proof (cases "s = []")
    case True
    then show ?thesis using nil by simp
  next
    case False
    with less.prems obtain n where n: "first_char s = Whole n" "utf8_ok (drop n s)"
      using utf8_ok_unfold [of s] by blast
    have "length (drop n s) < length s" using first_char_Whole [OF n(1)] False by simp
    with n less.hyps show ?thesis using char by blast
  qed
qed

lemma first_char_take: "first_char s = Whole n \<Longrightarrow> first_char (take n s @ t) = Whole n"
proof (cases s)
  case (Cons c cs)
  assume a: "first_char s = Whole n"
  have tc: "tail_chars m k u = Whole p \<Longrightarrow> tail_chars m k (take (p - m) u @ t) = Whole p" for m k u p
    by (induction m k u rule: tail_chars.induct)
       (auto split: if_splits dest: tail_chars_Whole simp: take_Cons' Suc_diff_Suc)
  show ?thesis
  proof (cases "width (byte_of c) \<le> 1")
    case True
    then show ?thesis using a Cons by (auto simp: Let_def split: if_splits)
  next
    case False
    then obtain d ds where cs: "cs = d # ds"
      and ok: "second_ok (byte_of c) (byte_of d)"
      and tl: "tail_chars 2 (width (byte_of c) - 2) ds = Whole n"
      using a Cons by (auto simp: Let_def split: if_splits list.splits)
    have "2 \<le> n" using tail_chars_Whole [OF tl] by simp
    then obtain m where m: "n = Suc (Suc m)" by (metis add_2_eq_Suc le_Suc_ex)
    show ?thesis using a Cons cs False ok tc [OF tl] m by (auto simp: Let_def numeral_2_eq_2)
  qed
qed simp

lemma utf8_ok_append: "utf8_ok s \<Longrightarrow> utf8_ok t \<Longrightarrow> utf8_ok (s @ t)"
proof (induction s rule: utf8_induct)
  case Nil
  then show ?case by simp
next
  case (Char n s)
  have "first_char (s @ t) = Whole n" using Char(1) by (simp add: first_char_append)
  moreover have "drop n (s @ t) = drop n s @ t" using first_char_Whole [OF Char(1)] by simp
  ultimately show ?case using Char by (subst utf8_ok_unfold) auto
qed

lemma utf8_ok_one: "first_char s = Whole n \<Longrightarrow> utf8_ok (take n s)"
  using first_char_take [of s n "[]"] first_char_Whole [of s n]
  by (subst utf8_ok_unfold) auto

lemma utf8_ok_replacement [simp]: "utf8_ok REPLACEMENT"
  by (simp add: utf8_ok_def REPLACEMENT_def valid_up_to.simps width_def second_ok_def continuation_def
      byte_of_def)

lemma lossy_valid: "utf8_ok s \<Longrightarrow> from_utf8_lossy s = s"
proof (induction s rule: utf8_induct)
  case Nil
  then show ?case by simp
next
  case (Char n s)
  have "s \<noteq> []" using first_char_Whole [OF Char(1)] by auto
  with Char show ?case by (subst from_utf8_lossy.simps) simp
qed

lemma utf8_ok_lossy: "utf8_ok (from_utf8_lossy s)"
proof (induction s rule: from_utf8_lossy.induct)
  case (1 s)
  show ?case
  proof (cases "s = []")
    case False
    then show ?thesis using 1
      by (subst from_utf8_lossy.simps)
         (auto split: head_char.splits intro!: utf8_ok_append utf8_ok_one)
  qed simp
qed

section \<open>Streamed chunks\<close>

lemma error_len_pos: "error_len s = Some n \<Longrightarrow> 0 < n \<and> n \<le> length s"
  by (auto simp: error_len_def split: head_char.splits dest: first_char_Bad)

text \<open>
  \<open>split_valid_utf8\<close>: the text decoded so far and the bytes of a character the buffer ends
  inside of. The recursion is on the bytes after an error.
\<close>

function split_valid_utf8 :: "string \<Rightarrow> string \<times> string" where
  "split_valid_utf8 buf =
     (case from_utf8 buf of
        Inr s \<Rightarrow> (s, [])
      | Inl (v, e) \<Rightarrow>
          (let out = take v buf in
           case e of
             None \<Rightarrow> (out, drop v buf)
           | Some len \<Rightarrow>
               (case split_valid_utf8 (drop (v + len) buf) of
                  (rest_text, rest_keep) \<Rightarrow> (out @ REPLACEMENT @ rest_text, rest_keep))))"
  by pat_completeness auto

termination
proof (relation "measure length", simp)
  fix buf :: string and x :: "nat \<times> nat option" and v e len and out :: string
  assume "from_utf8 buf = Inl x" "(v, e) = x" "e = Some len"
  then have "error_len (drop v buf) = Some len" "v = valid_up_to buf"
    by (auto simp: from_utf8_def Let_def split: if_splits)
  then have "0 < len" "len \<le> length (drop v buf)" using error_len_pos by blast+
  then show "(drop (v + len) buf, buf) \<in> measure length" by simp
qed

declare split_valid_utf8.simps [simp del]

text \<open>
  \<open>utf8_chunks\<close>: the items of the byte stream, in order, and what the adapter yields for them.
  \<^const>\<open>None\<close> in the input is the end of the stream; an item the adapter swallows (only part of a
  character so far) yields nothing.
\<close>

fun utf8_chunks :: "string \<Rightarrow> ('e, string) res list \<Rightarrow> ('e, string) res list" where
  "utf8_chunks pending [] = (if pending = [] then [] else [Ok (from_utf8_lossy pending)])"
| "utf8_chunks pending (Inr bytes # items) =
     (case split_valid_utf8 (pending @ bytes) of
        (out, keep) \<Rightarrow> if out = [] then utf8_chunks keep items else Ok out # utf8_chunks keep items)"
| "utf8_chunks pending (Inl e # items) = Err e # utf8_chunks pending items"

text \<open>The texts of a list of items, joined, and its errors.\<close>

definition texts :: "('e, string) res list \<Rightarrow> string" where
  "texts items = concat (map (\<lambda>r. case r of Inl _ \<Rightarrow> [] | Inr s \<Rightarrow> s) items)"

definition errors :: "('e, string) res list \<Rightarrow> 'e list" where
  "errors items = concat (map (\<lambda>r. case r of Inl e \<Rightarrow> [e] | Inr s \<Rightarrow> []) items)"

lemma texts_simps [simp]:
  "texts [] = []" "texts (Inr s # r) = s @ texts r" "texts (Inl e # r) = texts r"
  by (simp_all add: texts_def)

lemma errors_simps [simp]:
  "errors [] = []" "errors (Inr s # r) = errors r" "errors (Inl e # r) = e # errors r"
  by (simp_all add: errors_def)

lemma lossy_take_valid:
  "from_utf8_lossy (s @ t) = take (valid_up_to s) s @ from_utf8_lossy (drop (valid_up_to s) s @ t)"
proof (induction s rule: valid_up_to.induct)
  case (1 s)
  show ?case
  proof (cases "first_char s")
    case (Whole n)
    have fc: "first_char (s @ t) = Whole n" using Whole by (simp add: first_char_append)
    have v: "valid_up_to s = n + valid_up_to (drop n s)" using Whole by (subst valid_up_to.simps) simp
    have l: "0 < n" "n \<le> length s" using first_char_Whole [OF Whole] by simp_all
    have "from_utf8_lossy (s @ t) = take n s @ from_utf8_lossy (drop n s @ t)"
      using fc l by (subst from_utf8_lossy.simps) auto
    also have "\<dots> = take (valid_up_to s) s @ from_utf8_lossy (drop (valid_up_to s) s @ t)"
      using 1 [OF Whole] by (simp add: v take_add add.commute)
    finally show ?thesis .
  qed (subst (1 2) valid_up_to.simps, simp)+
qed

lemma utf8_ok_take_valid: "utf8_ok (take (valid_up_to s) s)"
proof (induction s rule: valid_up_to.induct)
  case (1 s)
  show ?case
  proof (cases "first_char s")
    case (Whole n)
    have "valid_up_to s = n + valid_up_to (drop n s)" using Whole by (subst valid_up_to.simps) simp
    then show ?thesis using 1 [OF Whole] utf8_ok_one [OF Whole] by (simp add: take_add utf8_ok_append)
  qed (subst valid_up_to.simps, simp)+
qed

text \<open>What follows a split decodes as if the buffer had not been split there.\<close>

lemma split_valid_lossy:
  "split_valid_utf8 buf = (out, keep) \<Longrightarrow>
   from_utf8_lossy (buf @ more) = out @ from_utf8_lossy (keep @ more) \<and> utf8_ok out"
proof (induction buf arbitrary: out keep rule: split_valid_utf8.induct)
  case (1 buf)
  let ?v = "valid_up_to buf"
  have base: "from_utf8_lossy (buf @ more) = take ?v buf @ from_utf8_lossy (drop ?v buf @ more)"
    by (rule lossy_take_valid)
  have okv: "utf8_ok (take ?v buf)" by (rule utf8_ok_take_valid)
  show ?case
  proof (cases "?v = length buf")
    case True
    then have "out = buf" "keep = []" using "1.prems"
      by (simp_all add: split_valid_utf8.simps [of buf] from_utf8_def)
    then show ?thesis using base okv True by simp
  next
    case False
    then have fu: "from_utf8 buf = Inl (?v, error_len (drop ?v buf))" by (simp add: from_utf8_def Let_def)
    show ?thesis
    proof (cases "error_len (drop ?v buf)")
      case None
      then have "out = take ?v buf" "keep = drop ?v buf" using "1.prems" fu
        by (simp_all add: split_valid_utf8.simps [of buf])
      then show ?thesis using base okv by simp
    next
      case (Some len)
      obtain rt rk where rec: "split_valid_utf8 (drop (?v + len) buf) = (rt, rk)" by fastforce
      have out: "out = take ?v buf @ REPLACEMENT @ rt" and keep: "keep = rk"
        using "1.prems" fu Some rec by (simp_all add: split_valid_utf8.simps [of buf])
      have ih: "from_utf8_lossy (drop (?v + len) buf @ more) = rt @ from_utf8_lossy (rk @ more)
          \<and> utf8_ok rt"
        using "1.IH" [OF fu] Some rec by simp
      have fc: "first_char (drop ?v buf) = Bad len"
        using Some by (auto simp: error_len_def split: head_char.splits)
      have l: "0 < len" "len \<le> length (drop ?v buf)" using first_char_Bad [OF fc] by simp_all
      have "first_char (drop ?v buf @ more) = Bad len" using fc by (simp add: first_char_append)
      moreover have "drop len (drop ?v buf @ more) = drop (?v + len) buf @ more"
        using l by (simp add: add.commute)
      moreover have "drop ?v buf @ more \<noteq> []" using l by auto
      ultimately have "from_utf8_lossy (drop ?v buf @ more)
          = REPLACEMENT @ from_utf8_lossy (drop (?v + len) buf @ more)"
        by (subst from_utf8_lossy.simps) (simp only: if_False head_char.case)
      then show ?thesis using base ih out keep okv by (simp add: utf8_ok_append)
    qed
  qed
qed

lemma utf8_chunks_texts:
  "texts (utf8_chunks pending items) = from_utf8_lossy (pending @ texts items)"
proof (induction pending items rule: utf8_chunks.induct)
  case (2 pending bytes items)
  obtain out keep where s: "split_valid_utf8 (pending @ bytes) = (out, keep)" by fastforce
  show ?case using 2 s split_valid_lossy [OF s, of "texts items"] by (auto simp: s)
qed auto

lemma utf8_chunks_errors: "errors (utf8_chunks pending items) = errors items"
  by (induction pending items rule: utf8_chunks.induct) (auto split: prod.splits)

lemma lossy_nonempty: "from_utf8_lossy s = [] \<longleftrightarrow> s = []"
proof (cases "first_char s")
  case (Whole n)
  then show ?thesis using first_char_Whole [OF Whole] by (subst from_utf8_lossy.simps) auto
qed (subst from_utf8_lossy.simps, simp add: REPLACEMENT_def)+

lemma utf8_chunks_valid: "Inr s \<in> set (utf8_chunks pending items) \<Longrightarrow> utf8_ok s \<and> s \<noteq> []"
proof (induction pending items rule: utf8_chunks.induct)
  case (1 pending)
  then show ?case by (auto simp: utf8_ok_lossy lossy_nonempty split: if_splits)
next
  case (2 pending bytes items)
  obtain out keep where s: "split_valid_utf8 (pending @ bytes) = (out, keep)" by fastforce
  show ?case using 2 s split_valid_lossy [OF s, of "[]"] by (auto split: if_splits)
next
  case (3 pending e items)
  then show ?case by auto
qed

text \<open>C20: The decoder of streamed bytes is insensitive to how the transport cut the stream: for any sequence of chunks and transport errors, the texts it yields, joined, are the lossy decoding of all the bytes received, joined; every text is non-empty valid UTF-8; and every error is passed on, in order, without losing a byte held back for the next chunk.\<close>

theorem utf8_stream_exact:
  "texts (utf8_chunks [] items) = from_utf8_lossy (texts items)
   \<and> errors (utf8_chunks [] items) = errors items
   \<and> (\<forall>s. Inr s \<in> set (utf8_chunks [] items) \<longrightarrow> utf8_ok s \<and> s \<noteq> [])"
  using utf8_chunks_texts [of "[]" items] utf8_chunks_errors [of "[]" items] utf8_chunks_valid [of _ "[]" items]
  by auto

theorem utf8_stream_exact_witness:
  "texts (utf8_chunks [] [Ok [CHR 0xE4, CHR 0xBD], Err (), Ok [CHR 0xA0, CHR 0x21]])
     = [CHR 0xE4, CHR 0xBD, CHR 0xA0, CHR 0x21]"
proof -
  let ?items = "[Ok [CHR 0xE4, CHR 0xBD], Err (), Ok [CHR 0xA0, CHR 0x21]] :: (unit, string) res list"
  have "texts (utf8_chunks [] ?items) = from_utf8_lossy (texts ?items)"
    using utf8_stream_exact [of ?items] by blast
  also have "\<dots> = [CHR 0xE4, CHR 0xBD, CHR 0xA0, CHR 0x21]" by code_simp
  finally show ?thesis .
qed

end
