(* ===== verification/Followup_Queue.thy ===== *)
theory Followup_Queue
  imports Prelude
begin

text \<open>
  The follow-up queue of a lane (\<open>crates/openalpaca_storage/src/repository/followup/mod.rs\<close>):
  queued promises and undelivered interjections, claimed, cancelled or consumed at most once.
  The tables \<open>lane_followups\<close> and \<open>session\<close> are lists of rows in id order; \<open>AUTOINCREMENT\<close> is the
  next id. Every call holds the one connection mutex, so each is one function of the database,
  and any interleaving of callers is a list of calls. Timestamps are left out. A statement that
  breaks the unique index of active sessions fails and rolls its transaction back.
\<close>

section \<open>Rows\<close>

datatype followup_status = Queued | Running | Done | Cancelled

datatype followup_kind = KindFollowup | KindUnprocessed

record followup =
  fu_id :: nat
  fu_lane_key :: string
  fu_kind :: followup_kind
  fu_content :: string
  fu_principal_json :: string
  fu_workspace_path :: "string option"
  fu_source_task_id :: "string option"
  fu_session_id :: "string option"
  fu_status :: followup_status
  fu_unattended :: bool

record session_row =
  se_id :: string
  se_lane_key :: string
  se_active :: bool

record followup_db =
  fd_rows :: "followup list"
  fd_next_id :: nat
  fd_sessions :: "session_row list"

record recovered_steering =
  rv_content :: string
  rv_principal_json :: string
  rv_workspace_path :: "string option"

section \<open>Operations\<close>

definition active_session_id :: "string \<Rightarrow> followup_db \<Rightarrow> string option" where
  "active_session_id lane db =
     map_option se_id (List.find (\<lambda>s. se_lane_key s = lane \<and> se_active s) (fd_sessions db))"

definition insert_row :: "followup \<Rightarrow> followup_db \<Rightarrow> nat \<times> followup_db" where
  "insert_row r db =
     (fd_next_id db,
      db\<lparr>fd_rows := fd_rows db @ [r\<lparr>fu_id := fd_next_id db\<rparr>], fd_next_id := fd_next_id db + 1\<rparr>)"

definition queue ::
  "string \<Rightarrow> followup_kind \<Rightarrow> string \<Rightarrow> string \<Rightarrow> string option \<Rightarrow> string option \<Rightarrow> bool \<Rightarrow> followup_db
   \<Rightarrow> nat \<times> followup_db" where
  "queue lane kind content pjson workspace task unattended db =
     insert_row
       \<lparr>fu_id = 0, fu_lane_key = lane, fu_kind = kind, fu_content = content, fu_principal_json = pjson,
        fu_workspace_path = workspace, fu_source_task_id = task, fu_session_id = active_session_id lane db,
        fu_status = Queued, fu_unattended = unattended\<rparr> db"

definition same_interjection :: "string \<Rightarrow> string \<Rightarrow> followup \<Rightarrow> bool" where
  "same_interjection task content r \<longleftrightarrow>
     fu_source_task_id r = Some task \<and> fu_kind r = KindUnprocessed \<and> fu_content r = content"

definition queue_unprocessed_steering_once ::
  "string \<Rightarrow> string \<Rightarrow> string \<Rightarrow> string option \<Rightarrow> string \<Rightarrow> string option \<Rightarrow> followup_db
   \<Rightarrow> nat option \<times> followup_db" where
  "queue_unprocessed_steering_once lane content pjson workspace task session db =
     (if list_ex (same_interjection task content) (fd_rows db) then (None, db)
      else case insert_row
             \<lparr>fu_id = 0, fu_lane_key = lane, fu_kind = KindUnprocessed, fu_content = content,
              fu_principal_json = pjson, fu_workspace_path = workspace, fu_source_task_id = Some task,
              fu_session_id = session, fu_status = Queued, fu_unattended = False\<rparr> db of
             (i, db') \<Rightarrow> (Some i, db'))"

fun recover_unprocessed_steering ::
  "string \<Rightarrow> string \<Rightarrow> string option \<Rightarrow> recovered_steering list \<Rightarrow> followup_db \<Rightarrow> nat list \<times> followup_db" where
  "recover_unprocessed_steering lane task session [] db = ([], db)"
| "recover_unprocessed_steering lane task session (x # xs) db =
     (case queue_unprocessed_steering_once lane (rv_content x) (rv_principal_json x) (rv_workspace_path x)
             task session db of
        (res, db1) \<Rightarrow>
          (case recover_unprocessed_steering lane task session xs db1 of
             (ids, db2) \<Rightarrow> ((case res of None \<Rightarrow> ids | Some i \<Rightarrow> i # ids), db2)))"

definition get_followup :: "nat \<Rightarrow> followup_db \<Rightarrow> followup option" where
  "get_followup i db = List.find (\<lambda>r. fu_id r = i) (fd_rows db)"

definition list_queued_by_lane :: "string \<Rightarrow> followup_db \<Rightarrow> followup list" where
  "list_queued_by_lane lane db = filter (\<lambda>r. fu_lane_key r = lane \<and> fu_status r = Queued) (fd_rows db)"

definition set_status_where :: "(followup \<Rightarrow> bool) \<Rightarrow> followup_status \<Rightarrow> followup_db \<Rightarrow> followup_db" where
  "set_status_where P st db = db\<lparr>fd_rows := map (\<lambda>r. if P r then r\<lparr>fu_status := st\<rparr> else r) (fd_rows db)\<rparr>"

text \<open>\<open>UPDATE ... WHERE id = ?\<close> under the unique index of active sessions: \<^const>\<open>None\<close> when it would break it.\<close>

definition one_active :: "session_row list \<Rightarrow> bool" where
  "one_active ss = distinct (map se_lane_key (filter se_active ss))"

definition rehome :: "followup \<Rightarrow> session_row list \<Rightarrow> session_row list option" where
  "rehome r ss =
     (case fu_session_id r of
        None \<Rightarrow> Some ss
      | Some sid \<Rightarrow>
          (let archived = map (\<lambda>s. if se_lane_key s = fu_lane_key r \<and> se_active s \<and> se_id s \<noteq> sid
                                 then s\<lparr>se_active := False\<rparr> else s) ss;
               opened = map (\<lambda>s. if se_id s = sid then s\<lparr>se_active := True\<rparr> else s) archived
           in if one_active opened then Some opened else None))"

definition claimable :: "string \<Rightarrow> followup \<Rightarrow> bool" where
  "claimable lane r \<longleftrightarrow> fu_lane_key r = lane \<and> fu_status r = Queued \<and> fu_kind r = KindFollowup"

text \<open>\<open>claim_next\<close>: \<open>Err ()\<close> is the transaction rolled back.\<close>

definition claim_next :: "string \<Rightarrow> followup_db \<Rightarrow> (unit, followup option) res \<times> followup_db" where
  "claim_next lane db =
     (case List.find (claimable lane) (fd_rows db) of
        None \<Rightarrow> (Ok None, db)
      | Some r \<Rightarrow>
          (let db1 = set_status_where (\<lambda>x. fu_id x = fu_id r \<and> fu_status x = Queued) Running db
           in case rehome r (fd_sessions db) of
                None \<Rightarrow> (Err (), db)
              | Some ss \<Rightarrow> (Ok (get_followup (fu_id r) db1), db1\<lparr>fd_sessions := ss\<rparr>)))"

definition cancel_if_queued :: "nat \<Rightarrow> string \<Rightarrow> followup_db \<Rightarrow> bool \<times> followup_db" where
  "cancel_if_queued i lane db =
     (let P = (\<lambda>r. fu_id r = i \<and> fu_lane_key r = lane \<and> fu_status r = Queued)
      in (list_ex P (fd_rows db), set_status_where P Cancelled db))"

definition mark_done_if_queued :: "nat \<Rightarrow> followup_db \<Rightarrow> bool \<times> followup_db" where
  "mark_done_if_queued i db =
     (let P = (\<lambda>r. fu_id r = i \<and> fu_status r = Queued)
      in (list_ex P (fd_rows db), set_status_where P Done db))"

definition mark_done :: "nat \<Rightarrow> followup_db \<Rightarrow> followup_db" where
  "mark_done i = set_status_where (\<lambda>r. fu_id r = i) Done"

definition mark_cancelled :: "nat \<Rightarrow> followup_db \<Rightarrow> followup_db" where
  "mark_cancelled i = set_status_where (\<lambda>r. fu_id r = i) Cancelled"

section \<open>Histories\<close>

text \<open>Any caller's calls, in the order the mutex admits them, with the rows each took off the queue.\<close>

datatype followup_op =
    OpQueue string followup_kind string string "string option" "string option" bool
  | OpOnce string string string "string option" string "string option"
  | OpClaim string
  | OpCancel nat string
  | OpDoneIfQueued nat
  | OpDone nat
  | OpCancelled nat

fun followup_step :: "followup_op \<Rightarrow> followup_db \<Rightarrow> nat list \<times> followup_db" where
  "followup_step (OpQueue lane k c p w t u) db = ([], snd (queue lane k c p w t u db))"
| "followup_step (OpOnce lane c p w t s) db = ([], snd (queue_unprocessed_steering_once lane c p w t s db))"
| "followup_step (OpClaim lane) db =
     (case claim_next lane db of
        (Inr (Some r), db') \<Rightarrow> ([fu_id r], db')
      | (_, db') \<Rightarrow> ([], db'))"
| "followup_step (OpCancel i lane) db =
     (case cancel_if_queued i lane db of (won, db') \<Rightarrow> (if won then [i] else [], db'))"
| "followup_step (OpDoneIfQueued i) db =
     (case mark_done_if_queued i db of (won, db') \<Rightarrow> (if won then [i] else [], db'))"
| "followup_step (OpDone i) db = ([], mark_done i db)"
| "followup_step (OpCancelled i) db = ([], mark_cancelled i db)"

fun followup_run :: "followup_op list \<Rightarrow> followup_db \<Rightarrow> nat list \<times> followup_db" where
  "followup_run [] db = ([], db)"
| "followup_run (x # xs) db =
     (case followup_step x db of
        (w, db1) \<Rightarrow> (case followup_run xs db1 of (ws, db2) \<Rightarrow> (w @ ws, db2)))"

definition queued_ids :: "followup_db \<Rightarrow> nat set" where
  "queued_ids db = {fu_id r |r. r \<in> set (fd_rows db) \<and> fu_status r = Queued}"

definition followup_ok :: "followup_db \<Rightarrow> bool" where
  "followup_ok db \<longleftrightarrow>
     distinct (map fu_id (fd_rows db)) \<and> (\<forall>r\<in>set (fd_rows db). fu_id r < fd_next_id db)
     \<and> one_active (fd_sessions db)"

lemma set_status_ids [simp]: "map fu_id (fd_rows (set_status_where P st db)) = map fu_id (fd_rows db)"
  by (simp add: set_status_where_def comp_def if_distrib cong: if_cong)

lemma set_status_next [simp]: "fd_next_id (set_status_where P st db) = fd_next_id db"
  by (simp add: set_status_where_def)

lemma set_status_sessions [simp]: "fd_sessions (set_status_where P st db) = fd_sessions db"
  by (simp add: set_status_where_def)

lemma ids_below: "(\<forall>r\<in>set rows. fu_id r < n) \<longleftrightarrow> (\<forall>i\<in>set (map fu_id rows). i < n)"
  by simp

lemma ok_set_status [simp]: "followup_ok (set_status_where P st db) = followup_ok db"
  unfolding followup_ok_def ids_below by simp

lemma ok_insert: "followup_ok db \<Longrightarrow> followup_ok (snd (insert_row r db))"
  by (fastforce simp: followup_ok_def insert_row_def)

lemma ok_sessions: "followup_ok db \<Longrightarrow> one_active ss \<Longrightarrow> followup_ok (db\<lparr>fd_sessions := ss\<rparr>)"
  by (simp add: followup_ok_def)

lemma rehome_one_active: "one_active ss \<Longrightarrow> rehome r ss = Some ss' \<Longrightarrow> one_active ss'"
  by (auto simp: rehome_def Let_def split: option.splits if_splits)

lemma ok_once: "followup_ok db \<Longrightarrow> followup_ok (snd (queue_unprocessed_steering_once l c p w t s db))"
  by (auto simp: queue_unprocessed_steering_once_def split: prod.splits) (metis ok_insert snd_conv)

lemma find_row:
  "distinct (map fu_id rows) \<Longrightarrow> r \<in> set rows \<Longrightarrow> List.find (\<lambda>x. fu_id x = fu_id r) rows = Some r"
  by (induction rows) (auto simp: rev_image_eqI)

lemma find_split:
  "List.find P xs = Some x \<Longrightarrow> \<exists>pre post. xs = pre @ x # post \<and> (\<forall>y\<in>set pre. \<not> P y)"
proof (induction xs)
  case (Cons y ys)
  show ?case
  proof (cases "P y")
    case False
    with Cons obtain pre post where "ys = pre @ x # post" "\<forall>y\<in>set pre. \<not> P y" by auto
    then show ?thesis using False by (intro exI [of _ "y # pre"] exI [of _ post]) simp
  qed (use Cons.prems in \<open>auto intro: exI [of _ "[]"]\<close>)
qed simp

lemma claim_cases:
  assumes "followup_ok db"
  shows "(claim_next lane db = (Ok None, db) \<and> (\<forall>r\<in>set (fd_rows db). \<not> claimable lane r))
    \<or> (claim_next lane db = (Err (), db))
    \<or> (\<exists>r ss. r \<in> set (fd_rows db) \<and> claimable lane r \<and> List.find (claimable lane) (fd_rows db) = Some r
         \<and> rehome r (fd_sessions db) = Some ss
         \<and> claim_next lane db =
             (Ok (Some (r\<lparr>fu_status := Running\<rparr>)),
              (set_status_where (\<lambda>x. fu_id x = fu_id r \<and> fu_status x = Queued) Running db)\<lparr>fd_sessions := ss\<rparr>))"
proof (cases "List.find (claimable lane) (fd_rows db)")
  case None
  then have "claim_next lane db = (Ok None, db)" by (simp only: claim_next_def option.case)
  moreover have "\<forall>r\<in>set (fd_rows db). \<not> claimable lane r" using None by (simp only: find_None_iff_all)
  ultimately show ?thesis by blast
next
  case (Some r)
  then have r: "r \<in> set (fd_rows db)" "claimable lane r" using find_SomeD [OF Some] by simp_all
  show ?thesis
  proof (cases "rehome r (fd_sessions db)")
    case None
    then show ?thesis using Some by (simp add: claim_next_def Let_def)
  next
    case ss: (Some ss)
    let ?db1 = "set_status_where (\<lambda>x. fu_id x = fu_id r \<and> fu_status x = Queued) Running db"
    have "r\<lparr>fu_status := Running\<rparr> \<in> set (fd_rows ?db1)"
      using r by (force simp: set_status_where_def claimable_def)
    moreover have "distinct (map fu_id (fd_rows ?db1))" using assms by (simp add: followup_ok_def)
    ultimately have "get_followup (fu_id r) ?db1 = Some (r\<lparr>fu_status := Running\<rparr>)"
      using find_row [of "fd_rows ?db1" "r\<lparr>fu_status := Running\<rparr>"] by (simp add: get_followup_def)
    then have "claim_next lane db = (Ok (Some (r\<lparr>fu_status := Running\<rparr>)), ?db1\<lparr>fd_sessions := ss\<rparr>)"
      unfolding claim_next_def Some option.case Let_def ss by (simp only:)
    then show ?thesis
      by (intro disjI2 exI [of _ r] exI [of _ ss] conjI) (rule r Some ss | assumption)+
  qed
qed

lemma ok_step: "followup_ok db \<Longrightarrow> followup_ok (snd (followup_step x db))"
proof (cases x)
  case (OpClaim lane)
  assume ok: "followup_ok db"
  from claim_cases [OF ok, of lane] show ?thesis
  proof (elim disjE exE conjE)
    fix r ss
    assume "rehome r (fd_sessions db) = Some ss"
    then have "one_active ss" using rehome_one_active ok by (auto simp: followup_ok_def)
    moreover assume "claim_next lane db = (Ok (Some (r\<lparr>fu_status := Running\<rparr>)),
              (set_status_where (\<lambda>x. fu_id x = fu_id r \<and> fu_status x = Queued) Running db)\<lparr>fd_sessions := ss\<rparr>)"
    ultimately show ?thesis using ok OpClaim by (simp add: ok_sessions)
  qed (use OpClaim ok in simp_all)
qed (simp_all add: queue_def ok_insert ok_once cancel_if_queued_def mark_done_if_queued_def mark_done_def
    mark_cancelled_def Let_def)

text \<open>A row taken off the queue was on it, and stays off it for good.\<close>

definition off_queue :: "nat \<Rightarrow> followup_db \<Rightarrow> bool" where
  "off_queue i db \<longleftrightarrow> i < fd_next_id db \<and> (\<forall>r\<in>set (fd_rows db). fu_id r = i \<longrightarrow> fu_status r \<noteq> Queued)"

lemma off_insert: "off_queue i db \<Longrightarrow> off_queue i (snd (insert_row r db))"
  by (auto simp: off_queue_def insert_row_def)

lemma off_set_status: "st \<noteq> Queued \<Longrightarrow> off_queue i db \<Longrightarrow> off_queue i (set_status_where P st db)"
  by (auto simp: off_queue_def set_status_where_def)

lemma off_sessions [simp]: "off_queue i (db\<lparr>fd_sessions := ss\<rparr>) = off_queue i db"
  by (simp add: off_queue_def)

lemma off_once: "off_queue i db \<Longrightarrow> off_queue i (snd (queue_unprocessed_steering_once l c p w t s db))"
  by (auto simp: queue_unprocessed_steering_once_def split: prod.splits) (metis off_insert snd_conv)

lemma set_status_off:
  "st \<noteq> Queued \<Longrightarrow> i < fd_next_id db \<Longrightarrow> (\<And>r. fu_id r = i \<Longrightarrow> fu_status r = Queued \<Longrightarrow> P r) \<Longrightarrow>
   off_queue i (set_status_where P st db)"
  by (auto simp: off_queue_def set_status_where_def)

lemma step_off:
  assumes ok: "followup_ok db" and off: "off_queue i db"
  shows "off_queue i (snd (followup_step x db)) \<and> i \<notin> set (fst (followup_step x db))"
proof (cases x)
  case (OpClaim lane)
  from claim_cases [OF ok, of lane] show ?thesis
  proof (elim disjE exE conjE)
    fix r ss
    assume r: "r \<in> set (fd_rows db)" "claimable lane r"
      and c: "claim_next lane db = (Ok (Some (r\<lparr>fu_status := Running\<rparr>)),
              (set_status_where (\<lambda>x. fu_id x = fu_id r \<and> fu_status x = Queued) Running db)\<lparr>fd_sessions := ss\<rparr>)"
    have "fu_id r \<noteq> i" using r off by (auto simp: off_queue_def claimable_def)
    then show ?thesis using c OpClaim off by (simp add: off_set_status)
  qed (use OpClaim off in simp_all)
next
  case (OpCancel j lane)
  then show ?thesis using off
    by (auto simp: cancel_if_queued_def Let_def list_ex_iff off_queue_def off_set_status set_status_where_def)
next
  case (OpDoneIfQueued j)
  then show ?thesis using off
    by (auto simp: mark_done_if_queued_def Let_def list_ex_iff off_queue_def set_status_where_def)
qed (use off in \<open>simp_all add: queue_def off_insert off_once mark_done_def mark_cancelled_def off_set_status\<close>)

lemma step_won:
  assumes ok: "followup_ok db" and won: "i \<in> set (fst (followup_step x db))"
  shows "i \<in> queued_ids db \<and> off_queue i (snd (followup_step x db)) \<and> fst (followup_step x db) = [i]"
proof (cases x)
  case (OpClaim lane)
  from claim_cases [OF ok, of lane] show ?thesis
  proof (elim disjE exE conjE)
    fix r ss
    assume r: "r \<in> set (fd_rows db)" "claimable lane r"
      and c: "claim_next lane db = (Ok (Some (r\<lparr>fu_status := Running\<rparr>)),
              (set_status_where (\<lambda>x. fu_id x = fu_id r \<and> fu_status x = Queued) Running db)\<lparr>fd_sessions := ss\<rparr>)"
    then have i: "i = fu_id r" using won OpClaim by simp
    have "i < fd_next_id db" using r i ok by (auto simp: followup_ok_def)
    then have "off_queue i (set_status_where (\<lambda>x. fu_id x = fu_id r \<and> fu_status x = Queued) Running db)"
      using i by (intro set_status_off) auto
    moreover have "i \<in> queued_ids db" using r i by (auto simp: queued_ids_def claimable_def)
    ultimately show ?thesis using c OpClaim i by simp
  qed (use OpClaim won in simp_all)
next
  case (OpCancel j lane)
  let ?P = "\<lambda>r. fu_id r = j \<and> fu_lane_key r = lane \<and> fu_status r = Queued"
  have step: "followup_step x db = (if list_ex ?P (fd_rows db) then [j] else [], set_status_where ?P Cancelled db)"
    using OpCancel by (simp add: cancel_if_queued_def Let_def)
  then have j: "i = j" and "list_ex ?P (fd_rows db)" using won by (simp_all split: if_splits)
  then obtain r where r: "r \<in> set (fd_rows db)" "fu_id r = j" "fu_lane_key r = lane" "fu_status r = Queued"
    by (auto simp: list_ex_iff)
  have only: "y = r" if "y \<in> set (fd_rows db)" "fu_id y = j" for y
    using ok r(1,2) that by (auto simp: followup_ok_def distinct_map inj_on_def)
  have "j < fd_next_id db" using r ok by (auto simp: followup_ok_def)
  then have "off_queue j (set_status_where ?P Cancelled db)"
    unfolding off_queue_def
  proof (intro conjI ballI impI)
    fix y assume "y \<in> set (fd_rows (set_status_where ?P Cancelled db))" "fu_id y = j"
    then have "y \<in> (\<lambda>r. if ?P r then r\<lparr>fu_status := Cancelled\<rparr> else r) ` set (fd_rows db)"
      by (simp add: set_status_where_def)
    then obtain z where z: "z \<in> set (fd_rows db)" "y = (if ?P z then z\<lparr>fu_status := Cancelled\<rparr> else z)"
      by (rule imageE)
    then have "fu_id z = j" using \<open>fu_id y = j\<close> by (simp split: if_splits)
    then have "z = r" by (rule only [OF z(1)])
    then show "fu_status y \<noteq> Queued" using z(2) r by simp
  qed simp
  moreover have "j \<in> queued_ids db" using r by (auto simp: queued_ids_def)
  ultimately show ?thesis using step j \<open>list_ex ?P (fd_rows db)\<close> by simp
next
  case (OpDoneIfQueued j)
  let ?P = "\<lambda>r. fu_id r = j \<and> fu_status r = Queued"
  have step: "followup_step x db = (if list_ex ?P (fd_rows db) then [j] else [], set_status_where ?P Done db)"
    using OpDoneIfQueued by (simp add: mark_done_if_queued_def Let_def)
  then have j: "i = j" and ex: "list_ex ?P (fd_rows db)" using won by (simp_all split: if_splits)
  then obtain r where r: "r \<in> set (fd_rows db)" "fu_id r = j" "fu_status r = Queued"
    by (auto simp: list_ex_iff)
  have "j < fd_next_id db" using r ok by (auto simp: followup_ok_def)
  then have "off_queue j (set_status_where ?P Done db)" by (intro set_status_off) auto
  moreover have "j \<in> queued_ids db" using r by (auto simp: queued_ids_def)
  ultimately show ?thesis using step j ex by simp
qed (use won in simp_all)

lemma run_off:
  "followup_ok db \<Longrightarrow> off_queue i db \<Longrightarrow> i \<notin> set (fst (followup_run xs db))"
proof (induction xs arbitrary: db)
  case (Cons x xs)
  obtain w db1 where s: "followup_step x db = (w, db1)" by fastforce
  obtain ws db2 where r: "followup_run xs db1 = (ws, db2)" by fastforce
  have "off_queue i db1" "i \<notin> set w" "followup_ok db1"
    using step_off [OF Cons.prems, of x] ok_step [OF Cons.prems(1), of x] s by simp_all
  then show ?case using Cons.IH [of db1] s r by simp
qed simp

lemma run_distinct: "followup_ok db \<Longrightarrow> distinct (fst (followup_run xs db))"
proof (induction xs arbitrary: db)
  case (Cons x xs)
  obtain w db1 where s: "followup_step x db = (w, db1)" by fastforce
  obtain ws db2 where r: "followup_run xs db1 = (ws, db2)" by fastforce
  have ok1: "followup_ok db1" using ok_step [OF Cons.prems, of x] s by simp
  have "distinct ws" using Cons.IH [OF ok1] r by simp
  moreover have "distinct w \<and> (\<forall>i\<in>set w. i \<notin> set ws)"
  proof (cases w)
    case (Cons i t)
    then have "off_queue i db1" "w = [i]" using step_won [OF Cons.prems, of i x] s \<open>followup_ok db\<close> by auto
    then show ?thesis using run_off [OF ok1, of i xs] r by simp
  qed simp
  ultimately show ?case using s r by auto
qed simp

lemma run_ok: "followup_ok db \<Longrightarrow> followup_ok (snd (followup_run xs db))"
proof (induction xs arbitrary: db)
  case (Cons x xs)
  obtain w db1 where s: "followup_step x db = (w, db1)" by fastforce
  then have "followup_ok db1" using ok_step [OF Cons.prems, of x] by simp
  then have "followup_ok (snd (followup_run xs db1))" by (rule Cons.IH)
  then show ?case using s by (cases "followup_run xs db1") simp
qed simp

text \<open>C22: A follow-up leaves the queue exactly once, whoever races for it. Over any history of calls, in any order the connection admits them, the rows won by a claim, a cancellation or a lazy delivery are pairwise distinct: no row is both run and cancelled, or delivered twice. Ids stay unique, and no lane ever has two active sessions, even when a claim reopens the session its item was queued in.\<close>

theorem followup_taken_once:
  assumes "followup_ok db"
  shows "distinct (fst (followup_run xs db)) \<and> followup_ok (snd (followup_run xs db))"
  using run_distinct [OF assms] run_ok [OF assms] by blast

definition demo_followups :: followup_db where
  "demo_followups =
     \<lparr>fd_rows = [], fd_next_id = 1,
      fd_sessions = [\<lparr>se_id = ''s1'', se_lane_key = ''l'', se_active = True\<rparr>,
                     \<lparr>se_id = ''s2'', se_lane_key = ''l'', se_active = False\<rparr>]\<rparr>"

theorem followup_taken_once_witness:
  "fst (followup_run [OpQueue ''l'' KindFollowup ''c'' ''p'' None None False, OpClaim ''l'', OpCancel 1 ''l'',
      OpDoneIfQueued 1] demo_followups) = [1]
   \<and> distinct (fst (followup_run [OpQueue ''l'' KindFollowup ''c'' ''p'' None None False, OpClaim ''l''] demo_followups))"
proof -
  have ok: "followup_ok demo_followups" by code_simp
  have "fst (followup_run [OpQueue ''l'' KindFollowup ''c'' ''p'' None None False, OpClaim ''l'', OpCancel 1 ''l'',
      OpDoneIfQueued 1] demo_followups) = [1]" by code_simp
  then show ?thesis using followup_taken_once [OF ok] by blast
qed

text \<open>A claim takes the lane's oldest queued follow-up and nothing else. It returns nothing exactly when no follow-up of the lane is queued; otherwise it returns the row with the smallest position among them, now running, never an undelivered interjection, and leaves every other row as it was; a claim whose session could not be reopened changes nothing at all.\<close>

theorem claim_next_exact:
  assumes "followup_ok db"
  shows "case claim_next lane db of
           (Inr None, db') \<Rightarrow> db' = db \<and> \<not> list_ex (claimable lane) (fd_rows db)
         | (Inl _, db') \<Rightarrow> db' = db
         | (Inr (Some r), db') \<Rightarrow>
             fu_kind r = KindFollowup \<and> fu_lane_key r = lane \<and> fu_status r = Running
             \<and> (\<exists>pre x post. fd_rows db = pre @ x # post \<and> \<not> list_ex (claimable lane) pre \<and> claimable lane x
                  \<and> r = x\<lparr>fu_status := Running\<rparr> \<and> fd_rows db' = pre @ r # post)"
proof -
  from claim_cases [OF assms, of lane] show ?thesis
  proof (elim disjE exE conjE)
    fix r ss
    assume r: "r \<in> set (fd_rows db)" "claimable lane r" and f: "List.find (claimable lane) (fd_rows db) = Some r"
      and c: "claim_next lane db = (Ok (Some (r\<lparr>fu_status := Running\<rparr>)),
              (set_status_where (\<lambda>x. fu_id x = fu_id r \<and> fu_status x = Queued) Running db)\<lparr>fd_sessions := ss\<rparr>)"
    let ?P = "\<lambda>x. fu_id x = fu_id r \<and> fu_status x = Queued"
    obtain pre post where s: "fd_rows db = pre @ r # post" "\<forall>x\<in>set pre. \<not> claimable lane x"
      using find_split [OF f] by blast
    have fresh: "fu_id r \<notin> fu_id ` set pre \<union> fu_id ` set post"
      using assms s(1) by (auto simp: followup_ok_def)
    have keep: "map (\<lambda>x. if ?P x then x\<lparr>fu_status := Running\<rparr> else x) ys = ys" if "fu_id r \<notin> fu_id ` set ys" for ys
      using that by (induction ys) auto
    have "fd_rows (set_status_where ?P Running db) = pre @ r\<lparr>fu_status := Running\<rparr> # post"
      using s(1) r(2) fresh keep [of pre] keep [of post] by (simp add: set_status_where_def claimable_def)
    then show ?thesis using c r(2) s by (auto simp: claimable_def list_ex_iff)
  qed (auto simp: list_ex_iff)
qed

theorem claim_next_exact_witness:
  "case claim_next ''l'' demo_followups of
     (Inr None, db') \<Rightarrow> db' = demo_followups | _ \<Rightarrow> False"
proof -
  have ok: "followup_ok demo_followups" by code_simp
  have "fst (claim_next ''l'' demo_followups) = Inr None" by code_simp
  then show ?thesis using claim_next_exact [OF ok, of "''l''"] by (auto split: prod.splits sum.splits option.splits)
qed

section \<open>The filing interface\<close>

text \<open>
  What the writers of an \<open>unprocessed_steering\<close> row rely on: after filing, the interjection is on
  file; nothing takes it off file; and it is on file once. \<open>count\<close> is how many rows carry it.
\<close>

locale interjection_filing =
  fixes count :: "'d \<Rightarrow> string \<Rightarrow> string \<Rightarrow> nat"
    and file_row :: "string \<Rightarrow> string \<Rightarrow> 'm \<Rightarrow> 'd \<Rightarrow> 'd"
    and content :: "'m \<Rightarrow> string"
  assumes filed: "0 < count (file_row lane task m d) task (content m)"
    and kept: "count d t c \<le> count (file_row lane task m d) t c"
    and once: "0 < count d t c \<Longrightarrow> count (file_row lane task m d) t c = count d t c"
    and fresh: "count d t c = 0 \<Longrightarrow> count (file_row lane task m d) t c \<le> 1"
begin

fun file_all :: "string \<Rightarrow> string \<Rightarrow> 'm list \<Rightarrow> 'd \<Rightarrow> 'd" where
  "file_all lane task [] d = d"
| "file_all lane task (m # ms) d = file_all lane task ms (file_row lane task m d)"

lemma file_all_kept: "count d t c \<le> count (file_all lane task ms d) t c"
  by (induction ms arbitrary: d) (auto intro: order_trans [OF kept])

lemma file_all_filed: "m \<in> set ms \<Longrightarrow> 0 < count (file_all lane task ms d) task (content m)"
proof (induction ms arbitrary: d)
  case (Cons x xs)
  show ?case
  proof (cases "m = x")
    case True
    then show ?thesis
      using filed [of lane task x d] file_all_kept [of "file_row lane task x d" task "content x" lane task xs] by simp
  next
    case False
    then show ?thesis using Cons by simp
  qed
qed simp

lemma file_all_once: "count d t c \<le> 1 \<Longrightarrow> count (file_all lane task ms d) t c \<le> 1"
proof (induction ms arbitrary: d)
  case (Cons x xs)
  have "count (file_row lane task x d) t c \<le> 1"
    using fresh [of d t c lane task x] once [of d t c lane task x] Cons.prems by (cases "count d t c = 0") auto
  then show ?case using Cons.IH by simp
qed simp

end

definition interjection_count :: "followup_db \<Rightarrow> string \<Rightarrow> string \<Rightarrow> nat" where
  "interjection_count db task content = length (filter (same_interjection task content) (fd_rows db))"

lemma once_count:
  "interjection_count (snd (queue_unprocessed_steering_once lane c p w task s db)) t c' =
     (if t = task \<and> c' = c \<and> interjection_count db task c = 0 then 1 else interjection_count db t c')"
  by (auto simp: queue_unprocessed_steering_once_def interjection_count_def insert_row_def same_interjection_def
      list_ex_iff filter_empty_conv split: prod.splits)

text \<open>The provider: the guarded insert, with the columns a recovered interjection carries.\<close>

interpretation recovered: interjection_filing interjection_count
  "\<lambda>lane task x db. snd (queue_unprocessed_steering_once lane (rv_content x) (rv_principal_json x)
      (rv_workspace_path x) task s db)" rv_content
  for s
  by unfold_locales (auto simp: once_count)

lemma recover_file_all:
  "snd (recover_unprocessed_steering lane task s xs db) = recovered.file_all s lane task xs db"
proof (induction xs arbitrary: db)
  case (Cons x xs)
  obtain r db1 where q: "queue_unprocessed_steering_once lane (rv_content x) (rv_principal_json x)
      (rv_workspace_path x) task s db = (r, db1)" by fastforce
  obtain ids db2 where t: "recover_unprocessed_steering lane task s xs db1 = (ids, db2)" by fastforce
  have "db2 = recovered.file_all s lane task xs db1" using Cons [of db1] t by simp
  then show ?case using q t by simp
qed simp

text \<open>Recovering a crashed run's interjections is idempotent and loses none. After a recovery pass every interjection of the list is on file; what was filed before stays; an interjection filed at most once before, by the pass, by the graceful exit or by the dropped-record fallback, is filed at most once after, and a second pass over the same list changes nothing.\<close>

theorem recovery_idempotent:
  "(\<forall>x\<in>set xs. 0 < interjection_count (snd (recover_unprocessed_steering lane task s xs db)) task (rv_content x))
   \<and> (\<forall>t c. interjection_count db t c \<le> 1 \<longrightarrow>
        interjection_count (snd (recover_unprocessed_steering lane task s xs db)) t c \<le> 1)
   \<and> recover_unprocessed_steering lane task s xs (snd (recover_unprocessed_steering lane task s xs db))
       = ([], snd (recover_unprocessed_steering lane task s xs db))"
proof -
  have again: "recover_unprocessed_steering lane task s xs d = ([], d)"
    if "\<forall>x\<in>set xs. 0 < interjection_count d task (rv_content x)" for d
    using that
  proof (induction xs)
    case (Cons x xs)
    then have "list_ex (same_interjection task (rv_content x)) (fd_rows d)"
      by (auto simp: interjection_count_def list_ex_iff filter_empty_conv)
    then show ?case using Cons by (simp add: queue_unprocessed_steering_once_def)
  qed simp
  have filed: "\<forall>x\<in>set xs. 0 < interjection_count (snd (recover_unprocessed_steering lane task s xs db)) task (rv_content x)"
    unfolding recover_file_all using recovered.file_all_filed by blast
  moreover have "\<forall>t c. interjection_count db t c \<le> 1 \<longrightarrow>
        interjection_count (snd (recover_unprocessed_steering lane task s xs db)) t c \<le> 1"
    unfolding recover_file_all using recovered.file_all_once by blast
  ultimately show ?thesis using again [OF filed] by blast
qed

theorem recovery_idempotent_witness:
  "0 < interjection_count (snd (recover_unprocessed_steering ''l'' ''t'' None
      [\<lparr>rv_content = ''c'', rv_principal_json = ''p'', rv_workspace_path = None\<rparr>] demo_followups)) ''t'' ''c''"
  using recovery_idempotent [of "[\<lparr>rv_content = ''c'', rv_principal_json = ''p'', rv_workspace_path = None\<rparr>]"
      "''l''" "''t''" None demo_followups] by simp

end
