(* ===== verification/Text_Cut.thy ===== *)
theory Text_Cut
  imports Utf8
begin

text \<open>
  How the runtime shortens a text a model or a person reads: character boundaries
  (\<open>str::is_char_boundary\<close>, \<open>floor_char_boundary\<close>, \<open>ceil_char_boundary\<close>), the cut of a tool result
  (\<open>runner/agentic_loop/tool_helpers.rs\<close>), the head and tail of an error (\<open>utils/text.rs\<close>), the
  stubs of a spilled result (\<open>session_log/record.rs\<close>). Rust panics when a slice ends inside a
  character, so the theorems show that no cut does.
\<close>

section \<open>Character boundaries\<close>

definition boundary :: "string \<Rightarrow> nat \<Rightarrow> bool" where
  "boundary s i =
     (if i = 0 then True else if length s \<le> i then i = length s else \<not> continuation (s ! i))"

fun floor_from :: "string \<Rightarrow> nat \<Rightarrow> nat" where
  "floor_from s 0 = 0"
| "floor_from s (Suc i) = (if boundary s (Suc i) then Suc i else floor_from s i)"

definition floor_char_boundary :: "string \<Rightarrow> nat \<Rightarrow> nat" where
  "floor_char_boundary s i = (if length s \<le> i then length s else floor_from s i)"

text \<open>The first boundary at or after an index: the continuation bytes there are skipped.\<close>

definition ceil_char_boundary :: "string \<Rightarrow> nat \<Rightarrow> nat" where
  "ceil_char_boundary s i =
     (if length s \<le> i then length s else if boundary s i then i
      else i + length (takeWhile continuation (drop i s)))"

lemma boundary_0 [simp]: "boundary s 0"
  by (simp add: boundary_def)

lemma boundary_length [simp]: "boundary s (length s)"
  by (simp add: boundary_def)

lemma boundary_le: "boundary s i \<Longrightarrow> i \<le> length s"
  by (auto simp: boundary_def split: if_splits)

lemma floor_from_boundary: "boundary s (floor_from s i) \<and> floor_from s i \<le> i"
  by (induction s i rule: floor_from.induct) auto

lemma floor_boundary [simp]: "boundary s (floor_char_boundary s i)"
  using floor_from_boundary by (simp add: floor_char_boundary_def)

lemma floor_le: "floor_char_boundary s i \<le> i" "floor_char_boundary s i \<le> length s"
  using floor_from_boundary [of s i] boundary_le [OF floor_boundary [of s i]]
  by (auto simp: floor_char_boundary_def)

lemma ceil_boundary [simp]: "boundary s (ceil_char_boundary s i)"
proof (cases "length s \<le> i \<or> boundary s i")
  case False
  let ?t = "takeWhile continuation (drop i s)"
  show ?thesis
  proof (cases "?t = drop i s")
    case True
    then have "length ?t = length s - i" by (simp only: length_drop)
    with False show ?thesis by (simp add: ceil_char_boundary_def)
  next
    case neq: False
    have "length ?t \<le> length (drop i s)" by (rule length_takeWhile_le)
    moreover have "length ?t \<noteq> length (drop i s)"
      using neq by (metis length_drop takeWhile_eq_take take_all order_refl)
    ultimately have lt: "length ?t < length (drop i s)" by simp
    then have "\<not> continuation (drop i s ! length ?t)" by (rule nth_length_takeWhile)
    with False lt show ?thesis by (auto simp: ceil_char_boundary_def boundary_def)
  qed
qed (auto simp: ceil_char_boundary_def)

lemma ceil_ge: "i \<le> length s \<Longrightarrow> i \<le> ceil_char_boundary s i"
  by (simp add: ceil_char_boundary_def)

lemma ceil_le: "ceil_char_boundary s i \<le> length s"
  using boundary_le [OF ceil_boundary] .

lemma second_ok_continuation: "second_ok a (byte_of d) \<Longrightarrow> continuation d"
  by (auto simp: second_ok_def continuation_def split: if_splits)

lemma tail_chars_continuation:
  "tail_chars n k s = Whole m \<Longrightarrow> j < k \<Longrightarrow> continuation (s ! j)"
  by (induction n k s arbitrary: j rule: tail_chars.induct)
     (auto split: if_splits simp: nth_Cons' less_Suc_eq_0_disj)

lemma inside_char: "first_char s = Whole n \<Longrightarrow> 0 < i \<Longrightarrow> i < n \<Longrightarrow> continuation (s ! i)"
proof (cases s)
  case (Cons c cs)
  assume a: "first_char s = Whole n" and i: "0 < i" "i < n"
  let ?w = "width (byte_of c)"
  have w: "1 < ?w" using a i Cons by (auto simp: Let_def split: if_splits list.splits)
  then obtain d ds where cs: "cs = d # ds"
    and so: "second_ok (byte_of c) (byte_of d)" and tl: "tail_chars 2 (?w - 2) ds = Whole n"
    using a Cons by (auto simp: Let_def split: if_splits list.splits)
  show ?thesis
  proof (cases "i = 1")
    case True
    then show ?thesis using Cons cs so by (simp add: second_ok_continuation)
  next
    case False
    then obtain j where j: "i = j + 2" using i by (metis One_nat_def add_2_eq_Suc' gr0_implies_Suc not0_implies_Suc)
    have "j < ?w - 2" using tail_chars_Whole [OF tl] i j by simp
    then show ?thesis using tail_chars_continuation [OF tl] Cons cs j by simp
  qed
qed simp

lemma utf8_cut: "utf8_ok s \<Longrightarrow> boundary s i \<Longrightarrow> utf8_ok (take i s) \<and> utf8_ok (drop i s)"
proof (induction s arbitrary: i rule: utf8_induct)
  case Nil
  then show ?case by simp
next
  case (Char n s)
  have n: "0 < n" "n \<le> length s" using first_char_Whole [OF Char(1)] by simp_all
  have ok: "utf8_ok s" using Char(1,2) by (subst utf8_ok_unfold) blast
  show ?case
  proof (cases "i = 0 \<or> i < n")
    case True
    then have "i = 0"
    proof (cases "i = 0")
      case False
      then have "\<not> continuation (s ! i)" using True Char.prems n by (simp add: boundary_def)
      then show ?thesis using inside_char [OF Char(1), of i] False True by simp
    qed
    then show ?thesis using ok by simp
  next
    case False
    then have le: "n \<le> i" by simp
    have "boundary (drop n s) (i - n)"
      using Char.prems le n by (auto simp: boundary_def split: if_splits)
    from Char.IH [OF this] have ih: "utf8_ok (take (i - n) (drop n s))" "utf8_ok (drop i s)"
      using le by simp_all
    have "take i s = take n s @ take (i - n) (drop n s)" using le by (metis le_add_diff_inverse take_add)
    then show ?thesis using ih utf8_ok_append [OF utf8_ok_one [OF Char(1)]] by simp
  qed
qed

lemmas utf8_take = utf8_cut [THEN conjunct1] and utf8_drop = utf8_cut [THEN conjunct2]

text \<open>ASCII texts are valid, and so are the notices the cuts append.\<close>

lemma utf8_ascii: "(\<forall>c\<in>set s. byte_of c < 128) \<Longrightarrow> utf8_ok s"
proof (induction s)
  case (Cons c s)
  have "first_char (c # s) = Whole 1" using Cons.prems by (simp add: width_def)
  with Cons show ?case by (subst utf8_ok_unfold) auto
qed simp

lemma digit_byte: "d < 10 \<Longrightarrow> byte_of (char_of (48 + d :: nat)) < 128"
  by (simp add: byte_of_def take_bit_eq_mod)

lemma utf8_show_nat: "utf8_ok (show_nat n)"
proof -
  have "\<forall>c\<in>set (show_nat n). byte_of c < 128"
  proof (induction n rule: show_nat.induct)
    case (1 n)
    then show ?case by (subst show_nat.simps) (auto intro: digit_byte)
  qed
  then show ?thesis by (rule utf8_ascii)
qed

section \<open>Cuts\<close>

definition NL :: string where
  "NL = [CHR 0x0A]"

definition EM_DASH :: string where
  "EM_DASH = [CHR 0xE2, CHR 0x80, CHR 0x94]"

definition byte_prefix :: "string \<Rightarrow> nat \<Rightarrow> string" where
  "byte_prefix s max_bytes = take (floor_char_boundary s max_bytes) s"

definition head_tail :: "string \<Rightarrow> nat \<Rightarrow> string" where
  "head_tail s limit =
     (if length s \<le> limit then s
      else let half = limit div 2;
               head = byte_prefix s half;
               tail_start = ceil_char_boundary s (length s - half)
           in head @ NL @ NL @ ''[... '' @ show_nat (tail_start - length head) @ '' of '' @ show_nat (length s)
              @ '' bytes elided; the tail follows ...]'' @ NL @ NL @ drop tail_start s)"

text \<open>\<open>str::rfind\<close>: the byte index of the last occurrence.\<close>

fun rfind :: "string \<Rightarrow> string \<Rightarrow> nat option" where
  "rfind p [] = (if p = [] then Some 0 else None)"
| "rfind p (c # cs) =
     (case rfind p cs of
        Some i \<Rightarrow> Some (Suc i)
      | None \<Rightarrow> if prefix p (c # cs) then Some 0 else None)"

definition or_else :: "'a option \<Rightarrow> 'a option \<Rightarrow> 'a option" where
  "or_else a b = (case a of Some x \<Rightarrow> Some x | None \<Rightarrow> b)"

definition keep_if :: "('a \<Rightarrow> bool) \<Rightarrow> 'a option \<Rightarrow> 'a option" where
  "keep_if P a = (case a of Some x \<Rightarrow> if P x then Some x else None | None \<Rightarrow> None)"

text \<open>Sentence ends, in the order the code tries them: the last one that occurs at all wins.\<close>

definition sentence_end :: "string \<Rightarrow> nat option" where
  "sentence_end sl =
     map_option Suc
       (or_else (rfind ''. '' sl) (or_else (rfind (''.'' @ NL) sl)
       (or_else (rfind ''! '' sl) (or_else (rfind (''!'' @ NL) sl)
       (or_else (rfind ''? '' sl) (rfind (''?'' @ NL) sl))))))"

definition best_cut :: "string \<Rightarrow> nat \<Rightarrow> nat" where
  "best_cut sl end_at =
     (let min_cut = end_at * 3 div 4 in
      case or_else (keep_if (\<lambda>p. min_cut \<le> p) (sentence_end sl))
             (or_else (keep_if (\<lambda>p. min_cut \<le> p) (rfind NL sl))
                (keep_if (\<lambda>p. min_cut \<le> p) (rfind '' '' sl))) of
        Some p \<Rightarrow> p
      | None \<Rightarrow> end_at)"

definition truncate_tool_result_to :: "string \<Rightarrow> nat \<Rightarrow> string" where
  "truncate_tool_result_to s limit =
     (if length s \<le> limit then s
      else let end_at = floor_from s limit;
               cut = best_cut (take end_at s) end_at
           in take cut s @ NL @ NL @ ''[... truncated: showing first '' @ show_nat cut @ '' of ''
              @ show_nat (length s) @ '' bytes]'')"

definition format_tool_error :: "string \<Rightarrow> string" where
  "format_tool_error msg = ''[tool_error] '' @ msg"

definition truncate_for_summary :: "string \<Rightarrow> nat \<Rightarrow> string" where
  "truncate_for_summary s max_chars =
     (if length s \<le> max_chars then s else take (floor_char_boundary s max_chars) s @ ''...'')"

text \<open>\<open>s.chars().take(n)\<close>: a character is a byte and the continuation bytes after it.\<close>

fun take_chars :: "nat \<Rightarrow> string \<Rightarrow> string" where
  "take_chars 0 s = []"
| "take_chars (Suc n) [] = []"
| "take_chars (Suc n) (c # cs) =
     c # takeWhile continuation cs @ take_chars n (dropWhile continuation cs)"

definition PREVIEW_CHARS :: nat where
  "PREVIEW_CHARS = 2048"

definition spill_preview :: "string \<Rightarrow> string" where
  "spill_preview content = take_chars PREVIEW_CHARS content"

definition reference_line :: "string \<Rightarrow> string" where
  "reference_line rel =
     ''[full result: result_ref=file:'' @ rel @ '' '' @ EM_DASH @ '' use read_result to page]''"

definition spill_stub :: "nat \<Rightarrow> string \<Rightarrow> string \<Rightarrow> string" where
  "spill_stub bytes preview rel =
     ''[result too large: '' @ show_nat bytes @ '' bytes; first 2 KB follow]'' @ NL @ preview @ NL
     @ reference_line rel"

definition command_spill_stub :: "string \<Rightarrow> nat \<Rightarrow> string \<Rightarrow> string" where
  "command_spill_stub content budget rel =
     ''[result too large: '' @ show_nat (length content) @ '' bytes; its head and tail follow]'' @ NL
     @ head_tail content budget @ NL @ reference_line rel"

section \<open>No cut splits a character\<close>

lemma rfind_SomeD: "rfind p s = Some i \<Longrightarrow> prefix p (drop i s) \<and> i + length p \<le> length s"
  by (induction p s arbitrary: i rule: rfind.induct)
     (auto split: option.splits if_splits dest: prefix_length_le)

lemma prefix_nth: "prefix p s \<Longrightarrow> j < length p \<Longrightarrow> s ! j = p ! j"
  by (auto simp: prefix_def nth_append)

lemma rfind_boundary:
  assumes "rfind p s = Some i" and j: "j < length p" and "\<not> continuation (p ! j)"
  shows "boundary s (i + j)"
proof -
  have "prefix p (drop i s)" "i + length p \<le> length s" using rfind_SomeD [OF assms(1)] by simp_all
  with j have "s ! (i + j) = p ! j" "i + j < length s"
    using prefix_nth [of p "drop i s" j] by simp_all
  with assms(3) show ?thesis by (simp add: boundary_def)
qed

lemma sentence_boundary: "sentence_end s = Some p \<Longrightarrow> boundary s p \<and> p \<le> length s"
proof -
  assume "sentence_end s = Some p"
  then obtain a i where p: "p = Suc i" and f: "rfind a s = Some i"
    and a: "a \<in> {''. '', ''.'' @ NL, ''! '', ''!'' @ NL, ''? '', ''?'' @ NL}"
    unfolding sentence_end_def or_else_def by (auto split: option.splits)
  have "length a = 2 \<and> \<not> continuation (a ! 1)"
    using a by (auto simp: NL_def continuation_def byte_of_def)
  then have "boundary s (i + 1)" by (intro rfind_boundary [OF f]) auto
  then show ?thesis using p boundary_le by simp
qed

lemma break_boundary: "rfind [c] s = Some p \<Longrightarrow> \<not> continuation c \<Longrightarrow> boundary s p \<and> p \<le> length s"
  using rfind_boundary [of "[c]" s p 0] boundary_le by simp

lemma best_cut_boundary:
  assumes "length sl = end_at"
  shows "boundary sl (best_cut sl end_at) \<and> best_cut sl end_at \<le> end_at
    \<and> end_at * 3 div 4 \<le> best_cut sl end_at"
proof -
  let ?m = "end_at * 3 div 4"
  let ?good = "\<lambda>p. boundary sl p \<and> p \<le> end_at \<and> ?m \<le> p"
  have s: "keep_if (\<lambda>p. ?m \<le> p) (sentence_end sl) = Some p \<Longrightarrow> ?good p" for p
    using sentence_boundary [of sl] assms by (auto simp: keep_if_def split: option.splits if_splits)
  have l: "keep_if (\<lambda>p. ?m \<le> p) (rfind NL sl) = Some p \<Longrightarrow> ?good p" for p
    using break_boundary [of "CHR 0x0A" sl] assms
    by (auto simp: keep_if_def NL_def continuation_def byte_of_def split: option.splits if_splits)
  have w: "keep_if (\<lambda>p. ?m \<le> p) (rfind '' '' sl) = Some p \<Longrightarrow> ?good p" for p
    using break_boundary [of "CHR '' ''" sl] assms
    by (auto simp: keep_if_def continuation_def byte_of_def split: option.splits if_splits)
  have e: "?good end_at" using assms by auto
  show ?thesis
  proof (cases "keep_if (\<lambda>p. ?m \<le> p) (sentence_end sl)")
    case (Some p)
    then have "best_cut sl end_at = p" by (simp add: best_cut_def Let_def or_else_def)
    with s [OF Some] show ?thesis by simp
  next
    case None
    note none = this
    show ?thesis
    proof (cases "keep_if (\<lambda>p. ?m \<le> p) (rfind NL sl)")
      case (Some p)
      then have "best_cut sl end_at = p" using none by (simp add: best_cut_def Let_def or_else_def)
      with l [OF Some] show ?thesis by simp
    next
      case None
      then have "best_cut sl end_at = (case keep_if (\<lambda>p. ?m \<le> p) (rfind '' '' sl) of Some p \<Rightarrow> p | None \<Rightarrow> end_at)"
        using none by (simp add: best_cut_def Let_def or_else_def)
      with w e show ?thesis by (simp split: option.splits)
    qed
  qed
qed

lemma boundary_take: "boundary s e \<Longrightarrow> boundary (take e s) i \<Longrightarrow> boundary s i"
  by (auto simp: boundary_def split: if_splits)

lemma truncate_cut:
  assumes "limit < length s"
  obtains cut where "boundary s cut" "cut \<le> limit" "floor_from s limit * 3 div 4 \<le> cut"
    "truncate_tool_result_to s limit = take cut s @ NL @ NL @ ''[... truncated: showing first ''
       @ show_nat cut @ '' of '' @ show_nat (length s) @ '' bytes]''"
proof -
  let ?e = "floor_from s limit"
  let ?cut = "best_cut (take ?e s) ?e"
  have e: "boundary s ?e" "?e \<le> limit" using floor_from_boundary by simp_all
  have len: "length (take ?e s) = ?e" using e assms by simp
  note b = best_cut_boundary [OF len]
  show ?thesis
  proof (rule that [of ?cut])
    show "boundary s ?cut" using b boundary_take [OF e(1)] by simp
    show "?cut \<le> limit" "?e * 3 div 4 \<le> ?cut" using b e(2) by simp_all
    show "truncate_tool_result_to s limit = take ?cut s @ NL @ NL @ ''[... truncated: showing first ''
       @ show_nat ?cut @ '' of '' @ show_nat (length s) @ '' bytes]''"
      using assms by (simp add: truncate_tool_result_to_def Let_def)
  qed
qed

lemma utf8_NL [simp]: "utf8_ok NL"
  by (rule utf8_ascii) (simp add: NL_def byte_of_def)

lemma utf8_truncate: "utf8_ok s \<Longrightarrow> utf8_ok (truncate_tool_result_to s limit)"
proof (cases "length s \<le> limit")
  case False
  assume ok: "utf8_ok s"
  from False obtain cut where "boundary s cut"
    and eq: "truncate_tool_result_to s limit = take cut s @ NL @ NL @ ''[... truncated: showing first ''
       @ show_nat cut @ '' of '' @ show_nat (length s) @ '' bytes]''"
    by (metis not_le truncate_cut)
  then show ?thesis unfolding eq
    by (intro utf8_ok_append utf8_take ok utf8_NL utf8_show_nat utf8_ascii) (simp_all add: byte_of_def)
qed (simp add: truncate_tool_result_to_def)

lemma head_tail_split:
  assumes "limit < length s"
  obtains h t where "boundary s h" "boundary s t" "h \<le> limit div 2" "length s - limit div 2 \<le> t"
    "h \<le> t" "t \<le> length s"
    "head_tail s limit = take h s @ NL @ NL @ ''[... '' @ show_nat (t - h) @ '' of '' @ show_nat (length s)
       @ '' bytes elided; the tail follows ...]'' @ NL @ NL @ drop t s"
proof -
  let ?h = "floor_char_boundary s (limit div 2)"
  let ?t = "ceil_char_boundary s (length s - limit div 2)"
  have h: "?h \<le> limit div 2" "?h \<le> length s" by (rule floor_le)+
  have t: "length s - limit div 2 \<le> ?t" by (rule ceil_ge) simp
  have "?h \<le> ?t" using h t assms by linarith
  moreover have "head_tail s limit = take ?h s @ NL @ NL @ ''[... '' @ show_nat (?t - ?h) @ '' of ''
       @ show_nat (length s) @ '' bytes elided; the tail follows ...]'' @ NL @ NL @ drop ?t s"
    using assms h by (simp add: head_tail_def Let_def byte_prefix_def min_absorb2)
  ultimately show ?thesis by (rule that [OF floor_boundary ceil_boundary h(1) t _ ceil_le])
qed

lemma utf8_head_tail: "utf8_ok s \<Longrightarrow> utf8_ok (head_tail s limit)"
proof (cases "length s \<le> limit")
  case False
  assume ok: "utf8_ok s"
  from False obtain h t where "boundary s h" "boundary s t"
    and eq: "head_tail s limit = take h s @ NL @ NL @ ''[... '' @ show_nat (t - h) @ '' of ''
       @ show_nat (length s) @ '' bytes elided; the tail follows ...]'' @ NL @ NL @ drop t s"
    by (metis not_le head_tail_split)
  then show ?thesis unfolding eq
    by (intro utf8_ok_append utf8_take utf8_drop ok utf8_NL utf8_show_nat utf8_ascii)
       (simp_all add: byte_of_def)
qed (simp add: head_tail_def)

lemma take_chars_prefix: "\<exists>i. take_chars n s = take i s \<and> boundary s i"
proof (induction n s rule: take_chars.induct)
  case (3 n c cs)
  let ?t = "takeWhile continuation cs" and ?d = "dropWhile continuation cs"
  from 3 obtain i where i: "take_chars n ?d = take i ?d" "boundary ?d i" by blast
  let ?k = "Suc (length ?t + min i (length ?d))"
  have len: "length cs = length ?t + length ?d" by (metis length_append takeWhile_dropWhile_id)
  have eq: "take_chars (Suc n) (c # cs) = take ?k (c # cs)"
  proof -
    have "take (length ?t + min i (length ?d)) cs = take (length ?t + min i (length ?d)) (?t @ ?d)"
      by (simp only: takeWhile_dropWhile_id)
    also have "\<dots> = ?t @ take i ?d" by (simp only: take_append take_all) (auto simp: min_def)
    finally show ?thesis using i(1) by simp
  qed
  have "boundary (c # cs) ?k"
  proof (cases "min i (length ?d) = length ?d")
    case True
    then show ?thesis using len by (simp add: boundary_def)
  next
    case False
    then have lt: "i < length ?d" by simp
    have nc: "\<not> continuation (?d ! i)"
    proof (cases "i = 0")
      case True
      have "?d \<noteq> []" using lt by (metis less_nat_zero_code list.size(3))
      then show ?thesis using True hd_dropWhile [of continuation cs] by (simp add: hd_conv_nth)
    next
      case False
      then show ?thesis using i(2) lt by (simp add: boundary_def)
    qed
    have "cs ! (length ?t + i) = ?d ! i"
      by (metis nth_append_length_plus takeWhile_dropWhile_id)
    with nc lt len show ?thesis by (simp add: boundary_def)
  qed
  with eq show ?case by blast
qed (auto intro: exI [of _ 0])

lemma utf8_take_chars: "utf8_ok s \<Longrightarrow> utf8_ok (take_chars n s)"
  using take_chars_prefix [of n s] utf8_take by auto

lemma utf8_summary: "utf8_ok s \<Longrightarrow> utf8_ok (truncate_for_summary s n)"
proof -
  assume ok: "utf8_ok s"
  have "utf8_ok (take (floor_char_boundary s n) s @ ''...'')"
    by (intro utf8_ok_append utf8_take ok floor_boundary utf8_ascii) (simp add: byte_of_def)
  then show ?thesis using ok by (simp add: truncate_for_summary_def)
qed

text \<open>Shortening a text never cuts inside a character and never hides that it cut. A text within the limit is returned whole. A longer tool result is a prefix ending on a character boundary, at most the limit and at least three quarters of what fits, followed by a notice stating how many of how many bytes are shown; a longer error is a head and a tail, each at most half the limit, around a notice stating how many bytes are elided. The result is valid UTF-8 whenever the text is.\<close>

theorem shortened_text_exact:
  "(length s \<le> limit \<longrightarrow> truncate_tool_result_to s limit = s \<and> head_tail s limit = s)
   \<and> (limit < length s \<longrightarrow>
        (\<exists>cut. boundary s cut \<and> cut \<le> limit \<and> floor_from s limit * 3 div 4 \<le> cut
           \<and> truncate_tool_result_to s limit = take cut s @ NL @ NL @ ''[... truncated: showing first ''
               @ show_nat cut @ '' of '' @ show_nat (length s) @ '' bytes]'')
      \<and> (\<exists>h t. boundary s h \<and> boundary s t \<and> h \<le> limit div 2 \<and> length s - limit div 2 \<le> t
           \<and> h \<le> t \<and> t \<le> length s
           \<and> head_tail s limit = take h s @ NL @ NL @ ''[... '' @ show_nat (t - h) @ '' of ''
               @ show_nat (length s) @ '' bytes elided; the tail follows ...]'' @ NL @ NL @ drop t s))
   \<and> (utf8_ok s \<longrightarrow> utf8_ok (truncate_tool_result_to s limit) \<and> utf8_ok (head_tail s limit)
        \<and> utf8_ok (spill_preview s) \<and> utf8_ok (truncate_for_summary s limit))"
proof -
  have "length s \<le> limit \<Longrightarrow> truncate_tool_result_to s limit = s \<and> head_tail s limit = s"
    by (simp add: truncate_tool_result_to_def head_tail_def)
  moreover have "limit < length s \<Longrightarrow>
        \<exists>cut. boundary s cut \<and> cut \<le> limit \<and> floor_from s limit * 3 div 4 \<le> cut
           \<and> truncate_tool_result_to s limit = take cut s @ NL @ NL @ ''[... truncated: showing first ''
               @ show_nat cut @ '' of '' @ show_nat (length s) @ '' bytes]''"
    by (erule truncate_cut) blast
  moreover have "limit < length s \<Longrightarrow> \<exists>h t. boundary s h \<and> boundary s t \<and> h \<le> limit div 2
           \<and> length s - limit div 2 \<le> t \<and> h \<le> t \<and> t \<le> length s
           \<and> head_tail s limit = take h s @ NL @ NL @ ''[... '' @ show_nat (t - h) @ '' of ''
               @ show_nat (length s) @ '' bytes elided; the tail follows ...]'' @ NL @ NL @ drop t s"
    by (erule head_tail_split) blast
  ultimately show ?thesis
    using utf8_truncate utf8_head_tail utf8_take_chars utf8_summary by (simp add: spill_preview_def)
qed

theorem shortened_text_exact_witness:
  "truncate_tool_result_to ''abc'' 4 = ''abc''
   \<and> (\<exists>cut. boundary ''abcdefgh'' cut \<and> cut \<le> 4 \<and> 3 \<le> cut
        \<and> truncate_tool_result_to ''abcdefgh'' 4 = take cut ''abcdefgh'' @ NL @ NL
            @ ''[... truncated: showing first '' @ show_nat cut @ '' of '' @ show_nat (length ''abcdefgh'') @ '' bytes]'')"
proof -
  have l: "length ''abc'' \<le> 4" "4 < length ''abcdefgh''" by simp_all
  have f: "floor_from ''abcdefgh'' 4 * 3 div 4 = 3" by code_simp
  show ?thesis
    using shortened_text_exact [of "''abc''" 4] shortened_text_exact [of "''abcdefgh''" 4] l
    unfolding f by blast
qed

end
