(* ===== verification/White_Space.thy ===== *)
theory White_Space
  imports Text_Cut
begin

text \<open>
  The \<open>str\<close> methods that follow Unicode white space: \<open>trim\<close>, \<open>trim_start\<close>, \<open>trim_end\<close>,
  \<open>split_whitespace\<close>, and the \<open>chars\<close> of a string as the list of its encoded characters. The
  white-space characters are those of \<^const>\<open>is_blank_bytes\<close>.
\<close>

section \<open>White space\<close>

text \<open>How many bytes the white-space character at the head takes; 0 when there is none.\<close>

fun ws3 :: "nat \<Rightarrow> nat \<Rightarrow> nat \<Rightarrow> bool" where
  "ws3 a b c =
     ((a = 225 \<and> b = 154 \<and> c = 128)
      \<or> (a = 226 \<and> b = 128 \<and> ((128 \<le> c \<and> c \<le> 138) \<or> c = 168 \<or> c = 169 \<or> c = 175))
      \<or> (a = 226 \<and> b = 129 \<and> c = 159)
      \<or> (a = 227 \<and> b = 128 \<and> c = 128))"

definition ws1 :: "nat \<Rightarrow> bool" where
  "ws1 a \<longleftrightarrow> (9 \<le> a \<and> a \<le> 13) \<or> a = 32"

definition ws2 :: "nat \<Rightarrow> nat \<Rightarrow> bool" where
  "ws2 a b \<longleftrightarrow> a = 194 \<and> (b = 133 \<or> b = 160)"

fun head_ws :: "string \<Rightarrow> nat" where
  "head_ws (a # b # c # s) =
     (if ws1 (byte_of a) then 1 else if ws2 (byte_of a) (byte_of b) then 2
      else if ws3 (byte_of a) (byte_of b) (byte_of c) then 3 else 0)"
| "head_ws [a, b] = (if ws1 (byte_of a) then 1 else if ws2 (byte_of a) (byte_of b) then 2 else 0)"
| "head_ws [a] = (if ws1 (byte_of a) then 1 else 0)"
| "head_ws [] = 0"

text \<open>The same for the last character, read on the reversed string.\<close>

fun last_ws :: "string \<Rightarrow> nat" where
  "last_ws (c # b # a # s) =
     (if ws1 (byte_of c) then 1 else if ws2 (byte_of b) (byte_of c) then 2
      else if ws3 (byte_of a) (byte_of b) (byte_of c) then 3 else 0)"
| "last_ws [c, b] = (if ws1 (byte_of c) then 1 else if ws2 (byte_of b) (byte_of c) then 2 else 0)"
| "last_ws [c] = (if ws1 (byte_of c) then 1 else 0)"
| "last_ws [] = 0"

function trim_start :: "string \<Rightarrow> string" where
  "trim_start s = (if s = [] \<or> head_ws s = 0 then s else trim_start (drop (head_ws s) s))"
  by pat_completeness auto

termination
  by (relation "measure length") auto

function trim_last :: "string \<Rightarrow> string" where
  "trim_last s = (if s = [] \<or> last_ws s = 0 then s else trim_last (drop (last_ws s) s))"
  by pat_completeness auto

termination
  by (relation "measure length") auto

declare trim_start.simps [simp del] trim_last.simps [simp del]

definition trim_end :: "string \<Rightarrow> string" where
  "trim_end s = rev (trim_last (rev s))"

definition trim :: "string \<Rightarrow> string" where
  "trim s = trim_end (trim_start s)"

function split_ws :: "string \<Rightarrow> string \<Rightarrow> string list" where
  "split_ws cur s =
     (if s = [] then (if cur = [] then [] else [cur])
      else if head_ws s = 0 then split_ws (cur @ [hd s]) (tl s)
      else (if cur = [] then [] else [cur]) @ split_ws [] (drop (head_ws s) s))"
  by pat_completeness auto

termination
  by (relation "measure (\<lambda>(c, s). length s)") auto

declare split_ws.simps [simp del]

definition split_whitespace :: "string \<Rightarrow> string list" where
  "split_whitespace s = split_ws [] s"

lemma trim_start_suffix: "\<exists>i. trim_start s = drop i s"
proof (induction s rule: trim_start.induct)
  case (1 s)
  show ?case
  proof (cases "s = [] \<or> head_ws s = 0")
    case True
    then show ?thesis by (subst trim_start.simps) (auto intro: exI [of _ 0])
  next
    case False
    with 1 obtain i where "trim_start (drop (head_ws s) s) = drop i (drop (head_ws s) s)" by blast
    with False show ?thesis by (subst trim_start.simps) auto
  qed
qed

lemma trim_last_suffix: "\<exists>i. trim_last s = drop i s"
proof (induction s rule: trim_last.induct)
  case (1 s)
  show ?case
  proof (cases "s = [] \<or> last_ws s = 0")
    case True
    then show ?thesis by (subst trim_last.simps) (auto intro: exI [of _ 0])
  next
    case False
    with 1 obtain i where "trim_last (drop (last_ws s) s) = drop i (drop (last_ws s) s)" by blast
    with False show ?thesis by (subst trim_last.simps) auto
  qed
qed

lemma trim_end_prefix: "prefix (trim_end s) s"
proof -
  obtain i where "trim_last (rev s) = drop i (rev s)" using trim_last_suffix by blast
  then have "trim_end s = take (length s - i) s" by (simp add: trim_end_def rev_drop)
  then show ?thesis by (simp add: take_is_prefix)
qed

lemma head_ws_ws1: "ws1 (byte_of c) \<Longrightarrow> head_ws (c # s) = 1"
proof (cases s)
  case (Cons d t)
  assume "ws1 (byte_of c)"
  then show ?thesis using Cons by (cases t) (simp_all del: ws3.simps)
qed simp

lemma head_ws_0: "head_ws s = 0 \<Longrightarrow> s \<noteq> [] \<Longrightarrow> \<not> ws1 (byte_of (hd s))"
  using head_ws_ws1 by (cases s) fastforce+

text \<open>A word of \<open>split_whitespace\<close> is never empty and holds no line break.\<close>

lemma split_ws_words:
  "w \<in> set (split_ws cur s) \<Longrightarrow> (\<forall>c\<in>set cur. \<not> ws1 (byte_of c)) \<Longrightarrow>
   w \<noteq> [] \<and> (\<forall>c\<in>set w. \<not> ws1 (byte_of c))"
proof (induction cur s rule: split_ws.induct)
  case (1 cur s)
  show ?case
  proof (cases "s = []")
    case True
    then show ?thesis using 1 by (auto simp: split_ws.simps [of cur "[]"] split: if_splits)
  next
    case ne: False
    show ?thesis
    proof (cases "head_ws s = 0")
      case True
      then have "\<not> ws1 (byte_of (hd s))" using ne by (rule head_ws_0)
      then have all: "\<forall>c\<in>set (cur @ [hd s]). \<not> ws1 (byte_of c)" using 1(4) by simp
      have "w \<in> set (split_ws (cur @ [hd s]) (tl s))"
        using 1(3) ne True by (simp add: split_ws.simps [of cur s])
      then show ?thesis using all by (rule 1(1) [OF ne True])
    next
      case False
      then have "(cur \<noteq> [] \<and> w = cur) \<or> w \<in> set (split_ws [] (drop (head_ws s) s))"
        using 1(3) ne by (simp add: split_ws.simps [of cur s] split: if_splits)
      then show ?thesis
      proof
        assume "cur \<noteq> [] \<and> w = cur"
        then show ?thesis using 1(4) by simp
      next
        assume "w \<in> set (split_ws [] (drop (head_ws s) s))"
        then show ?thesis by (rule 1(2) [OF ne False]) simp
      qed
    qed
  qed
qed

section \<open>Characters\<close>

function chars_of :: "string \<Rightarrow> string list" where
  "chars_of [] = []"
| "chars_of (c # cs) = (c # takeWhile continuation cs) # chars_of (dropWhile continuation cs)"
  by pat_completeness auto

termination
  by (relation "measure length") (auto simp: length_dropWhile_le le_imp_less_Suc)

definition char_count :: "string \<Rightarrow> nat" where
  "char_count s = length (chars_of s)"

lemma concat_chars_of: "concat (chars_of s) = s"
  by (induction s rule: chars_of.induct) simp_all

lemma take_chars_conv: "take_chars n s = concat (take n (chars_of s))"
  by (induction n s rule: take_chars.induct) simp_all

lemma chars_of_take_chars: "chars_of (take_chars n s) = take n (chars_of s)"
proof (induction n s rule: take_chars.induct)
  case (3 n c cs)
  let ?t = "takeWhile continuation cs" and ?d = "dropWhile continuation cs"
  have start: "take_chars n ?d = [] \<or> \<not> continuation (hd (take_chars n ?d))"
  proof (cases "?d = [] \<or> n = 0")
    case True
    then show ?thesis by (cases n; cases "?d") (simp_all del: dropWhile_eq_Nil_conv)
  next
    case False
    then obtain x xs m where "?d = x # xs" "n = Suc m" by (metis list.exhaust not0_implies_Suc)
    moreover have "\<not> continuation (hd ?d)" using False hd_dropWhile by blast
    ultimately show ?thesis by simp
  qed
  have tw: "takeWhile continuation (?t @ take_chars n ?d) = ?t"
    using start by (cases "take_chars n ?d") (auto simp: takeWhile_append dest: set_takeWhileD)
  have dw: "dropWhile continuation (?t @ take_chars n ?d) = take_chars n ?d"
    using start by (cases "take_chars n ?d") (auto simp: dropWhile_append dest: set_takeWhileD)
  show ?case using 3 tw dw by simp
qed (simp_all)

lemma char_count_take: "char_count (take_chars n s) = min n (char_count s)"
  by (simp add: char_count_def chars_of_take_chars min.commute)

lemma chars_of_append:
  "t = [] \<or> \<not> continuation (hd t) \<Longrightarrow> chars_of (s @ t) = chars_of s @ chars_of t"
proof (induction s rule: chars_of.induct)
  case (2 c cs)
  have "takeWhile continuation (cs @ t) = takeWhile continuation cs
      \<and> dropWhile continuation (cs @ t) = dropWhile continuation cs @ t"
    using 2(2) by (cases t; induction cs) auto
  then show ?case using 2 by simp
qed simp

lemma char_count_append:
  "t = [] \<or> \<not> continuation (hd t) \<Longrightarrow> char_count (s @ t) = char_count s + char_count t"
  by (simp add: char_count_def chars_of_append)

lemma char_count_0 [simp]: "char_count s = 0 \<longleftrightarrow> s = []"
  by (cases s) (simp_all add: char_count_def)

lemma char_count_Nil [simp]: "char_count [] = 0"
  by (simp add: char_count_def)

lemma take_chars_all: "char_count s \<le> n \<Longrightarrow> take_chars n s = s"
  by (simp add: take_chars_conv char_count_def concat_chars_of)

end
