(* ===== verification/Context_Budget.thy ===== *)
theory Context_Budget
  imports White_Space Llm_Types
begin

text \<open>
  The token budget of a context window (\<open>context_budget/budget.rs\<close>): sections, the compaction
  trigger and target, the tiers. An \<open>f64\<close> is a rational; a cast to \<open>usize\<close> truncates and stops
  at zero. Social phrases (\<open>utils/social.rs\<close>) and the token estimates of the loop
  (\<open>runner/agentic_loop/context.rs\<close>) are here too, as every compaction step reads them.
\<close>

section \<open>Tiers\<close>

datatype compaction_tier =
    TierNone | TruncateToolResults | DropMultimedia | DiscardSocial | HeuristicSummary | LlmSummary

fun tier_rank :: "compaction_tier \<Rightarrow> nat" where
  "tier_rank TierNone = 0"
| "tier_rank TruncateToolResults = 1"
| "tier_rank DropMultimedia = 2"
| "tier_rank DiscardSocial = 3"
| "tier_rank HeuristicSummary = 4"
| "tier_rank LlmSummary = 5"

lemma tier_rank_inject: "tier_rank a = tier_rank b \<longleftrightarrow> a = b"
  by (cases a; cases b) simp_all

text \<open>\<open>derive(PartialOrd, Ord)\<close>: the order of the constructors.\<close>

instantiation compaction_tier :: linorder
begin

definition less_eq_compaction_tier :: "compaction_tier \<Rightarrow> compaction_tier \<Rightarrow> bool" where
  "less_eq_compaction_tier a b = (tier_rank a \<le> tier_rank b)"

definition less_compaction_tier :: "compaction_tier \<Rightarrow> compaction_tier \<Rightarrow> bool" where
  "less_compaction_tier a b = (tier_rank a < tier_rank b)"

instance
  by standard (auto simp: less_eq_compaction_tier_def less_compaction_tier_def tier_rank_inject)

end

fun next_tier :: "compaction_tier \<Rightarrow> compaction_tier option" where
  "next_tier TierNone = Some TruncateToolResults"
| "next_tier TruncateToolResults = Some DropMultimedia"
| "next_tier DropMultimedia = Some DiscardSocial"
| "next_tier DiscardSocial = Some HeuristicSummary"
| "next_tier HeuristicSummary = Some LlmSummary"
| "next_tier LlmSummary = None"

lemma next_tier_less: "next_tier t = Some t' \<Longrightarrow> t < t'"
  by (cases t) (auto simp: less_compaction_tier_def)

lemma next_tier_None: "next_tier t = None \<longleftrightarrow> t = LlmSummary"
  by (cases t) auto

section \<open>The budget\<close>

record context_budget_config =
  cb_autocompact_buffer_ratio :: rat
  cb_compaction_target_ratio :: rat
  cb_min_recent_messages :: nat

definition context_budget_config_default :: context_budget_config where
  "context_budget_config_default =
     \<lparr>cb_autocompact_buffer_ratio = 165 / 1000, cb_compaction_target_ratio = 1 / 2,
      cb_min_recent_messages = 4\<rparr>"

record context_budget =
  bg_window :: nat
  bg_buffer :: nat
  bg_target_ratio :: rat
  bg_min_recent :: nat
  bg_sections :: "(string \<times> nat) list"

text \<open>\<open>x as usize\<close> for a float.\<close>

definition as_usize :: "rat \<Rightarrow> nat" where
  "as_usize x = nat \<lfloor>x\<rfloor>"

definition budget_new :: "nat \<Rightarrow> context_budget_config \<Rightarrow> context_budget" where
  "budget_new window cfg =
     \<lparr>bg_window = window, bg_buffer = as_usize (of_nat window * cb_autocompact_buffer_ratio cfg),
      bg_target_ratio = cb_compaction_target_ratio cfg, bg_min_recent = cb_min_recent_messages cfg,
      bg_sections = []\<rparr>"

definition register_section :: "string \<Rightarrow> nat \<Rightarrow> context_budget \<Rightarrow> context_budget" where
  "register_section name tokens b = b\<lparr>bg_sections := bg_sections b @ [(name, tokens)]\<rparr>"

definition fixed_zone_tokens :: "context_budget \<Rightarrow> nat" where
  "fixed_zone_tokens b = sum_list (map snd (bg_sections b))"

definition free_zone_capacity :: "context_budget \<Rightarrow> nat" where
  "free_zone_capacity b = bg_window b - bg_buffer b - fixed_zone_tokens b"

definition compaction_trigger :: "context_budget \<Rightarrow> nat" where
  "compaction_trigger b = bg_window b - bg_buffer b"

definition should_compact :: "context_budget \<Rightarrow> nat \<Rightarrow> bool" where
  "should_compact b message_tokens \<longleftrightarrow> compaction_trigger b \<le> fixed_zone_tokens b + message_tokens"

definition compaction_target_tokens :: "context_budget \<Rightarrow> nat" where
  "compaction_target_tokens b = as_usize (of_nat (free_zone_capacity b) * bg_target_ratio b)"

definition is_fixed_zone_oversized :: "context_budget \<Rightarrow> bool" where
  "is_fixed_zone_oversized b \<longleftrightarrow> bg_window b div 2 < fixed_zone_tokens b"

definition section_breakdown :: "context_budget \<Rightarrow> (string \<times> nat) list" where
  "section_breakdown b = bg_sections b"

text \<open>With a window of 0 the quotient is infinite or no number, and no comparison of the match holds.\<close>

definition compaction_tier_for :: "context_budget \<Rightarrow> nat \<Rightarrow> compaction_tier" where
  "compaction_tier_for b message_tokens =
     (let total = fixed_zone_tokens b + message_tokens;
          u = (of_nat total :: rat) / of_nat (bg_window b)
      in if bg_window b = 0 then LlmSummary
         else if u < 60 / 100 then TierNone
         else if u < 70 / 100 then TruncateToolResults
         else if u < 75 / 100 then DropMultimedia
         else if u < 80 / 100 then DiscardSocial
         else if u < 85 / 100 then HeuristicSummary
         else LlmSummary)"

record rendered_section =
  rd_content :: string
  rd_token_estimate :: nat

definition rendered_new :: "string \<Rightarrow> rendered_section" where
  "rendered_new content = \<lparr>rd_content = content, rd_token_estimate = length content div 4\<rparr>"

definition rendered_with_estimate :: "string \<Rightarrow> nat \<Rightarrow> rendered_section" where
  "rendered_with_estimate content tokens = \<lparr>rd_content = content, rd_token_estimate = tokens\<rparr>"

definition rendered_empty :: rendered_section where
  "rendered_empty = \<lparr>rd_content = '''', rd_token_estimate = 0\<rparr>"

text \<open>More tokens never mean a lower tier, and free room shrinks by what a section takes.\<close>

lemma tier_mono: "m \<le> n \<Longrightarrow> compaction_tier_for b m \<le> compaction_tier_for b n"
proof (cases "bg_window b = 0")
  case False
  assume le: "m \<le> n"
  define u v where "u = (of_nat (fixed_zone_tokens b + m) :: rat) / of_nat (bg_window b)"
    and "v = (of_nat (fixed_zone_tokens b + n) :: rat) / of_nat (bg_window b)"
  have uv: "u \<le> v" unfolding u_def v_def using le by (intro divide_right_mono) simp_all
  have eqs: "compaction_tier_for b m = (if u < 60 / 100 then TierNone else if u < 70 / 100 then TruncateToolResults
      else if u < 75 / 100 then DropMultimedia else if u < 80 / 100 then DiscardSocial
      else if u < 85 / 100 then HeuristicSummary else LlmSummary)"
    "compaction_tier_for b n = (if v < 60 / 100 then TierNone else if v < 70 / 100 then TruncateToolResults
      else if v < 75 / 100 then DropMultimedia else if v < 80 / 100 then DiscardSocial
      else if v < 85 / 100 then HeuristicSummary else LlmSummary)"
    using False by (simp_all only: compaction_tier_for_def Let_def u_def v_def if_False)
  show ?thesis unfolding eqs less_eq_compaction_tier_def using uv by simp
qed (simp add: compaction_tier_for_def)

lemma fixed_zone_register:
  "fixed_zone_tokens (register_section name t b) = fixed_zone_tokens b + t"
  by (simp add: fixed_zone_tokens_def register_section_def)

section \<open>Social phrases\<close>

definition SOCIAL_PHRASES :: "string list" where
  "SOCIAL_PHRASES =
     [''thanks'', ''thank you'', ''ok'', ''okay'', ''got it'', ''sounds good'', ''yes'', ''no'', ''sure'', ''right'',
      [CHR 0xE5, CHR 0xA5, CHR 0xBD, CHR 0xE7, CHR 0x9A, CHR 0x84],
      [CHR 0xE6, CHR 0xB2, CHR 0xA1, CHR 0xE9, CHR 0x97, CHR 0xAE, CHR 0xE9, CHR 0xA2, CHR 0x98],
      [CHR 0xE8, CHR 0xB0, CHR 0xA2, CHR 0xE8, CHR 0xB0, CHR 0xA2],
      [CHR 0xE5, CHR 0x97, CHR 0xAF],
      [CHR 0xE6, CHR 0x98, CHR 0x8E, CHR 0xE7, CHR 0x99, CHR 0xBD],
      [CHR 0xE6, CHR 0x94, CHR 0xB6, CHR 0xE5, CHR 0x88, CHR 0xB0],
      [CHR 0xE5, CHR 0xAF, CHR 0xB9],
      [CHR 0xE6, CHR 0x98, CHR 0xAF, CHR 0xE7, CHR 0x9A, CHR 0x84],
      [CHR 0xE4, CHR 0xB8, CHR 0x8D, CHR 0xE6, CHR 0x98, CHR 0xAF],
      [CHR 0xE4, CHR 0xB8, CHR 0x8D, CHR 0xE7, CHR 0x94, CHR 0xA8]]"

definition is_social_phrase :: "(string \<Rightarrow> string) \<Rightarrow> string \<Rightarrow> bool" where
  "is_social_phrase lc content = (lc (trim content) \<in> set SOCIAL_PHRASES)"

section \<open>Estimates\<close>

text \<open>Token counts of the loop are \<open>u32\<close>: casts keep the low 32 bits and sums wrap.\<close>

fun estimate_part_tokens :: "content_part \<Rightarrow> 32 word" where
  "estimate_part_tokens (PText s) = of_nat (length s div 4)"
| "estimate_part_tokens (PImage _ detail) = (if detail = Some ''low'' then 85 else 1590)"
| "estimate_part_tokens (PAudio data _) =
     of_nat (min (2 ^ 32 - 1) (max 25 (nat \<lceil>(of_nat (length data) :: rat) / 4096 * 25\<rceil>)))"
| "estimate_part_tokens (PDocument _ _ _ extracted) =
     (case extracted of None \<Rightarrow> 500 | Some t \<Rightarrow> of_nat (length t div 4))"
| "estimate_part_tokens (PFileRef _ _ _) = 50"

definition tool_definition_bytes :: "(json \<Rightarrow> string) \<Rightarrow> tool_definition \<Rightarrow> nat" where
  "tool_definition_bytes render t =
     length (td_description t) + length (render (td_parameters t))
     + (case td_input_examples t of None \<Rightarrow> 0 | Some ex \<Rightarrow> sum_list (map (\<lambda>e. length (render e)) ex))"

definition estimate_tools_tokens :: "(json \<Rightarrow> string) \<Rightarrow> tool_definition list \<Rightarrow> nat" where
  "estimate_tools_tokens render tools = sum_list (map (tool_definition_bytes render) tools) div 4"

definition message_tokens :: "(json \<Rightarrow> string) \<Rightarrow> chat_message \<Rightarrow> 32 word" where
  "message_tokens render m =
     (case cm_parts m of
        Some ps \<Rightarrow> sum_list (map estimate_part_tokens ps)
      | None \<Rightarrow> of_nat (length (cm_content m) div 4))
     + (case cm_tool_calls m of
          None \<Rightarrow> 0
        | Some tcs \<Rightarrow>
            sum_list (map (\<lambda>tc. of_nat ((length (tc_name tc) + length (render (tc_arguments tc))) div 4)) tcs))"

definition estimate_messages_tokens :: "(json \<Rightarrow> string) \<Rightarrow> chat_message list \<Rightarrow> 32 word" where
  "estimate_messages_tokens render ms = sum_list (map (message_tokens render) ms)"

lemma estimate_Nil [simp]: "estimate_messages_tokens render [] = 0"
  by (simp add: estimate_messages_tokens_def)

lemma estimate_append:
  "estimate_messages_tokens render (a @ b) = estimate_messages_tokens render a + estimate_messages_tokens render b"
  by (simp add: estimate_messages_tokens_def)

end
