(* ===== verification/Session_Log.thy ===== *)
theory Session_Log
  imports Context_Budget Working_State
begin

text \<open>
  The emit side of a session's event log (\<open>session_log/mod.rs\<close>, \<open>session_log/record.rs\<close>): the
  record catalogue, the non-blocking \<open>emit\<close> with its counted losses, and the reservation of a
  spill file's name. What the writer's channel answers to the next records is part of the handle's
  state, an arbitrary list, so every theorem holds for any pattern of full and closed channels.
  The payload is a constructor per record the runtime writes, in place of its JSON.
\<close>

section \<open>The catalogue\<close>

datatype record_type =
    SessionStart | SessionEnd | WorkspaceChanged | UserMsg | AssistantMsg | Delegation | Round | ToolCall
  | ToolResult | Steering | SteeringDrained | ConfirmationReq | ConfirmationRes | SubagentOpen | SubagentClose
  | SkillInvoked | Compaction | ArtifactWritten | FileSnapshot | FollowupQueued | LogTrimmed | WorkflowDone
  | Resume | ErrorRecord

definition record_type_ALL :: "record_type list" where
  "record_type_ALL =
     [SessionStart, SessionEnd, WorkspaceChanged, UserMsg, AssistantMsg, Delegation, Round, ToolCall,
      ToolResult, Steering, SteeringDrained, ConfirmationReq, ConfirmationRes, SubagentOpen, SubagentClose,
      SkillInvoked, Compaction, ArtifactWritten, FileSnapshot, FollowupQueued, LogTrimmed, WorkflowDone,
      Resume, ErrorRecord]"

fun record_type_as_str :: "record_type \<Rightarrow> string" where
  "record_type_as_str SessionStart = ''session_start''"
| "record_type_as_str SessionEnd = ''session_end''"
| "record_type_as_str WorkspaceChanged = ''workspace_changed''"
| "record_type_as_str UserMsg = ''user_msg''"
| "record_type_as_str AssistantMsg = ''assistant_msg''"
| "record_type_as_str Delegation = ''delegation''"
| "record_type_as_str Round = ''round''"
| "record_type_as_str ToolCall = ''tool_call''"
| "record_type_as_str ToolResult = ''tool_result''"
| "record_type_as_str Steering = ''steering''"
| "record_type_as_str SteeringDrained = ''steering_drained''"
| "record_type_as_str ConfirmationReq = ''confirmation_req''"
| "record_type_as_str ConfirmationRes = ''confirmation_res''"
| "record_type_as_str SubagentOpen = ''subagent_open''"
| "record_type_as_str SubagentClose = ''subagent_close''"
| "record_type_as_str SkillInvoked = ''skill_invoked''"
| "record_type_as_str Compaction = ''compaction''"
| "record_type_as_str ArtifactWritten = ''artifact_written''"
| "record_type_as_str FileSnapshot = ''file_snapshot''"
| "record_type_as_str FollowupQueued = ''followup_queued''"
| "record_type_as_str LogTrimmed = ''log_trimmed''"
| "record_type_as_str WorkflowDone = ''workflow_done''"
| "record_type_as_str Resume = ''resume''"
| "record_type_as_str ErrorRecord = ''error''"

definition record_type_parse :: "string \<Rightarrow> record_type option" where
  "record_type_parse s = List.find (\<lambda>t. record_type_as_str t = s) record_type_ALL"

definition is_durability_boundary :: "record_type \<Rightarrow> bool" where
  "is_durability_boundary t \<longleftrightarrow> t \<in> {SessionStart, AssistantMsg, WorkflowDone, ConfirmationRes, SessionEnd}"

lemma record_type_ALL_complete: "t \<in> set record_type_ALL"
  by (cases t) (simp_all add: record_type_ALL_def)

text \<open>The names of the session log's records are an exact code for its catalogue: every kind's name parses back to that kind, a text parses to a kind only if it is that kind's name, and a name no kind has parses to nothing.\<close>

theorem record_type_round_trip:
  "record_type_parse (record_type_as_str t) = Some t
   \<and> (record_type_parse s = Some t \<longleftrightarrow> s = record_type_as_str t)"
proof -
  have rt: "record_type_parse (record_type_as_str k) = Some k" for k
    by (cases k) (simp_all add: record_type_parse_def record_type_ALL_def)
  moreover have "record_type_parse s = Some t \<Longrightarrow> s = record_type_as_str t"
    using find_SomeD by (fastforce simp: record_type_parse_def)
  ultimately show ?thesis by blast
qed

section \<open>Records\<close>

text \<open>\<open>ext\<close> is the kind, id and generation of the extension a tool belongs to.\<close>

type_synonym tool_ext = "(string \<times> string \<times> nat) option"

datatype log_data =
    DSteering string string string string nat string "string option"
      \<comment> \<open>request id, lane, text, received at, queue depth, principal, workspace\<close>
  | DDrained string nat nat "string list"  \<comment> \<open>at, round, count, request ids\<close>
  | DCompaction compaction_tier nat nat nat nat nat "compaction_tier list" "working_state option" "int option" nat
      \<comment> \<open>tier, tokens before and after, messages before, after and discarded, tiers applied, state, through, dropped\<close>
  | DRound nat string "32 word" "32 word" "32 word" finish_reason string "tool_call list"
      "(nat \<times> nat \<times> nat \<times> nat \<times> nat) option"
      \<comment> \<open>round, model, input, output and cached tokens, stop reason, text, tool calls, context\<close>
  | DToolCall string string json tool_ext  \<comment> \<open>id, name, input, extension\<close>
  | DToolResult string string bool "string option" "string option" "nat option" tool_ext
      \<comment> \<open>id, name, ok, error, inline result, budget of a command's stub, extension\<close>
  | DError string string  \<comment> \<open>where, message\<close>
  | DDone string nat nat "32 word" "32 word" rat "string option"
      \<comment> \<open>finish reason, rounds, tool calls, tokens, cost, model\<close>

record log_record =
  lr_kind :: record_type
  lr_task :: "string option"
  lr_span :: "string option"
  lr_agent :: "string option"
  lr_data :: log_data
  lr_spill :: "(string \<times> string) option"

section \<open>The handle\<close>

text \<open>
  What the channel answers to one \<open>try_send\<close>: taken, full, or closed; in the last case whether a
  writer could be reopened and took the retried record. When the list is exhausted it accepts.
\<close>

datatype channel_answer = Taken | Full | Closed bool

record session_log =
  sl_session_id :: string
  sl_channel :: "channel_answer list"
  sl_records :: "log_record list"
  sl_dropped :: nat
  sl_written_seq :: nat
  sl_next_spill :: nat

definition emit :: "log_record \<Rightarrow> session_log \<Rightarrow> bool \<times> session_log" where
  "emit r lg =
     (let ans = (case sl_channel lg of [] \<Rightarrow> Taken | a # _ \<Rightarrow> a);
          lg1 = lg\<lparr>sl_channel := tl (sl_channel lg)\<rparr>;
          taken = lg1\<lparr>sl_records := sl_records lg1 @ [r]\<rparr>;
          lost = lg1\<lparr>sl_dropped := sl_dropped lg1 + 1\<rparr>
      in case ans of
           Taken \<Rightarrow> (True, taken)
         | Full \<Rightarrow> (False, lost)
         | Closed reopened \<Rightarrow> if reopened then (True, taken) else (False, lost))"

definition is_alnum :: "char \<Rightarrow> bool" where
  "is_alnum c \<longleftrightarrow> (48 \<le> byte_of c \<and> byte_of c \<le> 57) \<or> (65 \<le> byte_of c \<and> byte_of c \<le> 90)
     \<or> (97 \<le> byte_of c \<and> byte_of c \<le> 122)"

text \<open>\<open>call_tag\<close>: the random tag of a call without an id is an argument.\<close>

definition call_tag :: "string \<Rightarrow> string \<Rightarrow> string" where
  "call_tag fresh_tag tool_use_id =
     (let cleaned = filter is_alnum tool_use_id
      in if cleaned = [] then take 8 fresh_tag else drop (length cleaned - 8) cleaned)"

definition slug :: "string \<Rightarrow> string" where
  "slug name =
     (let cleaned = take 48 (map (\<lambda>ch. case ch of [c] \<Rightarrow> if is_alnum c then c else CHR ''_'' | _ \<Rightarrow> CHR ''_'')
                     (chars_of name))
      in if cleaned = [] then ''tool'' else cleaned)"

text \<open>\<open>{number:06}\<close>.\<close>

definition show_padded :: "nat \<Rightarrow> nat \<Rightarrow> string" where
  "show_padded k n = replicate (k - length (show_nat n)) (CHR ''0'') @ show_nat n"

definition RESULTS_DIR :: string where
  "RESULTS_DIR = ''results''"

definition reserve_spill :: "string \<Rightarrow> string \<Rightarrow> string \<Rightarrow> session_log \<Rightarrow> string \<times> session_log" where
  "reserve_spill fresh_tag tool_name tool_use_id lg =
     (let floor_no = sl_written_seq lg + 1;
          prev = sl_next_spill lg;
          number = max prev floor_no
      in (RESULTS_DIR @ ''/'' @ show_padded 6 number @ ''-'' @ call_tag fresh_tag tool_use_id @ ''-''
            @ slug tool_name @ ''.txt'',
          lg\<lparr>sl_next_spill := max prev floor_no + 1\<rparr>))"

section \<open>Laws\<close>

lemma emit_cases:
  obtains (taken) "emit r lg = (True, lg\<lparr>sl_channel := tl (sl_channel lg), sl_records := sl_records lg @ [r]\<rparr>)"
  | (lost) "emit r lg = (False, lg\<lparr>sl_channel := tl (sl_channel lg), sl_dropped := sl_dropped lg + 1\<rparr>)"
proof (cases "case sl_channel lg of [] \<Rightarrow> Taken | a # _ \<Rightarrow> a")
  case Taken
  then show ?thesis by (intro taken) (simp add: emit_def Let_def)
next
  case Full
  then show ?thesis by (intro lost) (simp add: emit_def Let_def)
next
  case (Closed b)
  then show ?thesis by (cases b) (auto simp: emit_def Let_def intro: taken lost)
qed

text \<open>A record is either on file or counted as lost, never both and never neither.\<close>

lemma emit_accounted:
  "emit r lg = (ok, lg') \<Longrightarrow>
   sl_records lg' = sl_records lg @ (if ok then [r] else []) \<and> sl_dropped lg' = sl_dropped lg + (if ok then 0 else 1)
   \<and> sl_session_id lg' = sl_session_id lg \<and> sl_next_spill lg' = sl_next_spill lg"
  by (rule emit_cases [of r lg]) auto

fun reserve_many :: "(string \<times> string \<times> string) list \<Rightarrow> session_log \<Rightarrow> string list \<times> session_log" where
  "reserve_many [] lg = ([], lg)"
| "reserve_many ((tag, name, uid) # xs) lg =
     (case reserve_spill tag name uid lg of
        (rel, lg1) \<Rightarrow> (case reserve_many xs lg1 of (rels, lg2) \<Rightarrow> (rel # rels, lg2)))"

lemma digits_only: "c \<in> set (show_nat n) \<Longrightarrow> 48 \<le> byte_of c \<and> byte_of c \<le> 57"
proof (induction n rule: show_nat.induct)
  case (1 n)
  have one: "d < 10 \<Longrightarrow> byte_of (char_of (48 + d :: nat)) = 48 + d" for d
    by (simp add: byte_of_def take_bit_eq_mod)
  show ?case using 1 one [of n] one [of "n mod 10"]
    by (subst (asm) (2) show_nat.simps) (auto split: if_splits)
qed

lemma padded_digits: "c \<in> set (show_padded k n) \<Longrightarrow> 48 \<le> byte_of c \<and> byte_of c \<le> 57"
  using digits_only by (auto simp: show_padded_def byte_of_def)

text \<open>Reading a decimal text back.\<close>

definition value_of :: "string \<Rightarrow> nat" where
  "value_of s = foldl (\<lambda>v c. v * 10 + (byte_of c - 48)) 0 s"

lemma value_of_snoc: "value_of (s @ [c]) = value_of s * 10 + (byte_of c - 48)"
  by (simp add: value_of_def)

lemma value_of_zeros: "value_of (replicate k (CHR ''0'') @ s) = value_of s"
  by (induction k) (simp_all add: value_of_def byte_of_def)

lemma value_of_show: "value_of (show_nat n) = n"
proof (induction n rule: show_nat.induct)
  case (1 n)
  have one: "d < 10 \<Longrightarrow> byte_of (char_of (48 + d :: nat)) = 48 + d" for d
    by (simp add: byte_of_def take_bit_eq_mod)
  show ?case
  proof (cases "n < 10")
    case True
    then show ?thesis using one [of n] by (subst show_nat.simps) (simp add: value_of_def)
  next
    case False
    then show ?thesis using 1 one [of "n mod 10"] by (subst show_nat.simps) (simp add: value_of_snoc)
  qed
qed

lemma value_of_padded: "value_of (show_padded k n) = n"
  by (simp add: show_padded_def value_of_zeros value_of_show)

lemma show_nat_inject: "show_nat a = show_nat b \<longleftrightarrow> a = b"
  by (metis value_of_show)

text \<open>The number of a spill name is the digits before its first dash.\<close>

definition spill_number :: "string \<Rightarrow> nat" where
  "spill_number rel = value_of (takeWhile (\<lambda>c. c \<noteq> CHR ''-'') (drop (length RESULTS_DIR + 1) rel))"

lemma reserve_number:
  assumes "reserve_spill tag name uid lg = (rel, lg')"
  shows "spill_number rel = max (sl_next_spill lg) (sl_written_seq lg + 1) \<and> sl_next_spill lg' = spill_number rel + 1
    \<and> sl_written_seq lg' = sl_written_seq lg"
proof -
  let ?n = "max (sl_next_spill lg) (sl_written_seq lg + 1)"
  have rel: "rel = RESULTS_DIR @ ''/'' @ show_padded 6 ?n @ ''-'' @ call_tag tag uid @ ''-'' @ slug name @ ''.txt''"
    and lg': "lg' = lg\<lparr>sl_next_spill := ?n + 1\<rparr>"
    using assms by (auto simp: reserve_spill_def Let_def)
  have "\<forall>c\<in>set (show_padded 6 ?n). c \<noteq> CHR ''-''"
    using padded_digits by (fastforce simp: byte_of_def)
  then have "takeWhile (\<lambda>c. c \<noteq> CHR ''-'') (drop (length RESULTS_DIR + 1) rel) = show_padded 6 ?n"
    unfolding rel by (simp add: takeWhile_append)
  then have "spill_number rel = ?n" unfolding spill_number_def by (simp only: value_of_padded)
  then show ?thesis unfolding lg' by simp
qed

lemma reserve_many_above:
  "reserve_many xs lg = (rels, lg') \<Longrightarrow> rel \<in> set rels \<Longrightarrow> sl_next_spill lg \<le> spill_number rel"
proof (induction xs arbitrary: lg rels lg')
  case (Cons x xs)
  obtain tag name uid where x: "x = (tag, name, uid)" by (cases x)
  obtain r1 lg1 where s: "reserve_spill tag name uid lg = (r1, lg1)" by fastforce
  obtain rs lg2 where t: "reserve_many xs lg1 = (rs, lg2)" by fastforce
  have "rels = r1 # rs" using Cons.prems(1) x s t by simp
  then show ?case using Cons.IH [OF t] Cons.prems(2) reserve_number [OF s] by fastforce
qed simp

text \<open>No two spilled results share a file. Whatever ids and names the calls carry, including equal ones and none at all, and however far the writer has got, the references a session's log reserves one after another are pairwise distinct.\<close>

theorem spill_references_distinct:
  "distinct (fst (reserve_many calls lg))"
proof (induction calls arbitrary: lg)
  case (Cons x xs)
  obtain tag name uid where x: "x = (tag, name, uid)" by (cases x)
  obtain r1 lg1 where s: "reserve_spill tag name uid lg = (r1, lg1)" by fastforce
  obtain rs lg2 where t: "reserve_many xs lg1 = (rs, lg2)" by fastforce
  have "r1 \<notin> set rs"
  proof
    assume "r1 \<in> set rs"
    then have "sl_next_spill lg1 \<le> spill_number r1" using reserve_many_above [OF t] by simp
    then show False using reserve_number [OF s] by simp
  qed
  moreover have "distinct rs" using Cons.IH [of lg1] t by simp
  ultimately show ?case using x s t by simp
qed simp

end
