(* ===== verification/Steering.thy ===== *)
theory Steering
  imports Followup_Queue Session_Log Capabilities
begin

text \<open>
  Steering a running workflow (\<open>runner/steering.rs\<close>): the bounded, closable inbox, the push with
  its session-log record and its fallback row, the conversion of what is left at detach
  (\<open>orchestrator/dispatcher/lead_agent.rs\<close>), and the block that shows a lane its unprocessed
  interjections once (\<open>orchestrator/query_handler/unprocessed_steering.rs\<close>). The inbox holds one
  lock per operation, so its concurrent users are a list of operations. Waking waiters has no
  effect on the state. \<open>pj\<close> is the JSON of a principal, when it serialises.
\<close>

section \<open>Messages\<close>

datatype steering_origin = OriginUser | OriginDaemon

definition DEFAULT_STEERING_INBOX_CAP :: nat where
  "DEFAULT_STEERING_INBOX_CAP = 16"

definition USER_INTERJECTION_PREFIX :: string where
  "USER_INTERJECTION_PREFIX = ''<user_interjection''"

definition SYSTEM_NOTE_PREFIX :: string where
  "SYSTEM_NOTE_PREFIX = ''<system_note''"

record steering_msg =
  sm_text :: string
  sm_request_id :: string
  sm_principal :: principal
  sm_scope :: scope
  sm_workspace_path :: "string option"
  sm_received_at :: string
  sm_origin :: steering_origin

definition to_interjection :: "steering_msg \<Rightarrow> string" where
  "to_interjection m =
     (let ts = sm_received_at m
      in case sm_origin m of
           OriginUser \<Rightarrow>
             USER_INTERJECTION_PREFIX @ '' ts='' @ [CHR 0x22] @ ts @ [CHR 0x22] @ ''>'' @ sm_text m
             @ ''</user_interjection>''
         | OriginDaemon \<Rightarrow>
             SYSTEM_NOTE_PREFIX @ '' ts='' @ [CHR 0x22] @ ts @ [CHR 0x22] @ ''>'' @ sm_text m
             @ ''</system_note>'')"

section \<open>The inbox\<close>

datatype push_error = PushFull | PushClosed

record inbox =
  ib_queue :: "steering_msg list"
  ib_closed :: bool
  ib_cap :: nat

definition inbox_new :: "nat \<Rightarrow> inbox" where
  "inbox_new cap = \<lparr>ib_queue = [], ib_closed = False, ib_cap = cap\<rparr>"

definition inbox_push :: "steering_msg \<Rightarrow> inbox \<Rightarrow> (push_error, nat) res \<times> inbox" where
  "inbox_push m ib =
     (if ib_closed ib then (Err PushClosed, ib)
      else if ib_cap ib \<le> length (ib_queue ib) then (Err PushFull, ib)
      else let q = ib_queue ib @ [m] in (Ok (length q), ib\<lparr>ib_queue := q\<rparr>))"

definition drain_all :: "inbox \<Rightarrow> steering_msg list \<times> inbox" where
  "drain_all ib = (ib_queue ib, ib\<lparr>ib_queue := []\<rparr>)"

text \<open>\<open>push_front_all\<close>: the messages one by one, last first, each to the front.\<close>

definition push_front_all :: "steering_msg list \<Rightarrow> inbox \<Rightarrow> inbox" where
  "push_front_all ms ib = ib\<lparr>ib_queue := fold (#) (rev ms) (ib_queue ib)\<rparr>"

definition close_and_drain :: "inbox \<Rightarrow> steering_msg list \<times> inbox" where
  "close_and_drain ib = (ib_queue ib, ib\<lparr>ib_closed := True, ib_queue := []\<rparr>)"

definition inbox_is_empty :: "inbox \<Rightarrow> bool" where
  "inbox_is_empty ib = (ib_queue ib = [])"

lemma push_front_all_queue [simp]: "ib_queue (push_front_all ms ib) = ms @ ib_queue ib"
proof -
  have "fold (#) xs ys = rev xs @ ys" for xs ys :: "steering_msg list"
    by (induction xs arbitrary: ys) simp_all
  then show ?thesis by (simp add: push_front_all_def)
qed

subsection \<open>Concurrent users\<close>

datatype inbox_op = IPush steering_msg | IDrain | IReturn "steering_msg list" | IClose

text \<open>What an operation put in and took out.\<close>

record inbox_trace =
  it_accepted :: "steering_msg list"
  it_returned :: "steering_msg list"
  it_taken :: "steering_msg list"

fun inbox_step :: "inbox_op \<Rightarrow> inbox \<Rightarrow> inbox_trace \<times> inbox" where
  "inbox_step (IPush m) ib =
     (case inbox_push m ib of
        (Inr _, ib') \<Rightarrow> (\<lparr>it_accepted = [m], it_returned = [], it_taken = []\<rparr>, ib')
      | (Inl _, ib') \<Rightarrow> (\<lparr>it_accepted = [], it_returned = [], it_taken = []\<rparr>, ib'))"
| "inbox_step IDrain ib =
     (case drain_all ib of (ms, ib') \<Rightarrow> (\<lparr>it_accepted = [], it_returned = [], it_taken = ms\<rparr>, ib'))"
| "inbox_step (IReturn ms) ib = (\<lparr>it_accepted = [], it_returned = ms, it_taken = []\<rparr>, push_front_all ms ib)"
| "inbox_step IClose ib =
     (case close_and_drain ib of (ms, ib') \<Rightarrow> (\<lparr>it_accepted = [], it_returned = [], it_taken = ms\<rparr>, ib'))"

fun inbox_run :: "inbox_op list \<Rightarrow> inbox \<Rightarrow> inbox_trace \<times> inbox" where
  "inbox_run [] ib = (\<lparr>it_accepted = [], it_returned = [], it_taken = []\<rparr>, ib)"
| "inbox_run (x # xs) ib =
     (case inbox_step x ib of
        (t, ib1) \<Rightarrow>
          (case inbox_run xs ib1 of
             (u, ib2) \<Rightarrow>
               (\<lparr>it_accepted = it_accepted t @ it_accepted u, it_returned = it_returned t @ it_returned u,
                 it_taken = it_taken t @ it_taken u\<rparr>, ib2)))"

lemma push_cases:
  "inbox_push m ib = (r, ib') \<Longrightarrow>
     (\<exists>e. r = Inl e \<and> ib' = ib)
     \<or> (r = Inr (Suc (length (ib_queue ib))) \<and> \<not> ib_closed ib \<and> length (ib_queue ib) < ib_cap ib
         \<and> ib' = ib\<lparr>ib_queue := ib_queue ib @ [m]\<rparr>)"
  by (auto simp: inbox_push_def Let_def split: if_splits)

definition conserves :: "inbox \<Rightarrow> inbox_trace \<Rightarrow> inbox \<Rightarrow> bool" where
  "conserves ib t ib' \<longleftrightarrow>
     mset (ib_queue ib) + mset (it_accepted t) + mset (it_returned t) = mset (it_taken t) + mset (ib_queue ib')
     \<and> (it_returned t = [] \<longrightarrow> ib_queue ib @ it_accepted t = it_taken t @ ib_queue ib')
     \<and> (ib_closed ib \<longrightarrow> ib_closed ib' \<and> it_accepted t = [])
     \<and> (it_returned t = [] \<longrightarrow> length (ib_queue ib) \<le> ib_cap ib \<longrightarrow> length (ib_queue ib') \<le> ib_cap ib)"

lemma step_conserves:
  assumes "inbox_step x ib = (t, ib')"
  shows "conserves ib t ib' \<and> ib_cap ib' = ib_cap ib"
proof (cases x)
  case (IPush m)
  obtain r ib1 where p: "inbox_push m ib = (r, ib1)" by fastforce
  from push_cases [OF p] show ?thesis
  proof (elim disjE exE conjE)
    fix e assume "r = Inl e" "ib1 = ib"
    then have "t = \<lparr>it_accepted = [], it_returned = [], it_taken = []\<rparr>" "ib' = ib"
      using assms IPush p by simp_all
    then show ?thesis by (simp add: conserves_def)
  next
    assume "r = Inr (Suc (length (ib_queue ib)))" and o: "\<not> ib_closed ib" "length (ib_queue ib) < ib_cap ib"
      and "ib1 = ib\<lparr>ib_queue := ib_queue ib @ [m]\<rparr>"
    then have "t = \<lparr>it_accepted = [m], it_returned = [], it_taken = []\<rparr>" "ib' = ib\<lparr>ib_queue := ib_queue ib @ [m]\<rparr>"
      using assms IPush p by simp_all
    then show ?thesis using o by (simp add: conserves_def)
  qed
next
  case IDrain
  then have "t = \<lparr>it_accepted = [], it_returned = [], it_taken = ib_queue ib\<rparr>" "ib' = ib\<lparr>ib_queue := []\<rparr>"
    using assms by (simp_all add: drain_all_def)
  then show ?thesis by (simp add: conserves_def)
next
  case (IReturn ms)
  then have "t = \<lparr>it_accepted = [], it_returned = ms, it_taken = []\<rparr>" "ib' = push_front_all ms ib"
    using assms by simp_all
  moreover have "ib_closed (push_front_all ms ib) = ib_closed ib" "ib_cap (push_front_all ms ib) = ib_cap ib"
    by (simp_all add: push_front_all_def)
  ultimately show ?thesis by (simp add: conserves_def)
next
  case IClose
  then have "t = \<lparr>it_accepted = [], it_returned = [], it_taken = ib_queue ib\<rparr>"
    "ib' = ib\<lparr>ib_closed := True, ib_queue := []\<rparr>"
    using assms by (simp_all add: close_and_drain_def)
  then show ?thesis by (simp add: conserves_def)
qed

lemma mset_chain:
  assumes "a + b + c = d + e" "e + f + g = h + i"
  shows "a + (b + f) + (c + g) = d + h + (i :: 'x multiset)"
proof (rule multiset_eqI)
  fix x
  have "count (a + b + c) x = count (d + e) x" "count (e + f + g) x = count (h + i) x" using assms by simp_all
  then show "count (a + (b + f) + (c + g)) x = count (d + h + i) x" by simp
qed

lemma conserves_trans:
  assumes "conserves ib a ib1" "conserves ib1 u ib2" "ib_cap ib1 = ib_cap ib"
  shows "conserves ib \<lparr>it_accepted = it_accepted a @ it_accepted u, it_returned = it_returned a @ it_returned u,
      it_taken = it_taken a @ it_taken u\<rparr> ib2"
proof -
  note c = assms(1,2) [unfolded conserves_def]
  have "it_returned a = [] \<and> it_returned u = []
      \<longrightarrow> ib_queue ib @ it_accepted a @ it_accepted u = it_taken a @ it_taken u @ ib_queue ib2"
  proof
    assume r: "it_returned a = [] \<and> it_returned u = []"
    have "ib_queue ib @ it_accepted a @ it_accepted u = (ib_queue ib @ it_accepted a) @ it_accepted u" by simp
    also have "\<dots> = it_taken a @ (ib_queue ib1 @ it_accepted u)" using c(1) r by simp
    finally show "ib_queue ib @ it_accepted a @ it_accepted u = it_taken a @ it_taken u @ ib_queue ib2" using c(2) r by simp
  qed
  moreover have "mset (ib_queue ib) + (mset (it_accepted a) + mset (it_accepted u))
      + (mset (it_returned a) + mset (it_returned u)) = mset (it_taken a) + mset (it_taken u) + mset (ib_queue ib2)"
    by (rule mset_chain) (use c in blast)+
  ultimately show ?thesis using c assms(3) by (simp add: conserves_def)
qed

lemma run_conserves: "inbox_run xs ib = (t, ib') \<Longrightarrow> conserves ib t ib'"
proof (induction xs arbitrary: ib t ib')
  case Nil
  then show ?case by (auto simp: conserves_def)
next
  case (Cons x xs)
  obtain a ib1 where s: "inbox_step x ib = (a, ib1)" by fastforce
  obtain u ib2 where r: "inbox_run xs ib1 = (u, ib2)" by fastforce
  have "t = \<lparr>it_accepted = it_accepted a @ it_accepted u, it_returned = it_returned a @ it_returned u,
      it_taken = it_taken a @ it_taken u\<rparr>" "ib' = ib2"
    using Cons.prems s r by simp_all
  then show ?case using conserves_trans step_conserves [OF s] Cons.IH [OF r] by blast
qed

text \<open>The steering inbox loses nothing, repeats nothing and keeps its order. Over any interleaving of pushes, drains, returns and a close, the messages accepted or returned are, counted with multiplicity, exactly those taken out and those still queued; when nothing is returned they come out in the order they were accepted, and the queue never exceeds its cap; and once the inbox has closed no push is ever accepted, so a push that races the close is either in the drained batch or told it is closed.\<close>

theorem inbox_conserves:
  assumes "inbox_run xs ib = (t, ib')"
  shows "mset (ib_queue ib) + mset (it_accepted t) + mset (it_returned t) = mset (it_taken t) + mset (ib_queue ib')
    \<and> (it_returned t = [] \<longrightarrow> ib_queue ib @ it_accepted t = it_taken t @ ib_queue ib')
    \<and> (ib_closed ib \<longrightarrow> ib_closed ib' \<and> it_accepted t = [])
    \<and> (it_returned t = [] \<longrightarrow> length (ib_queue ib) \<le> ib_cap ib \<longrightarrow> length (ib_queue ib') \<le> ib_cap ib)"
  using run_conserves [OF assms] by (simp add: conserves_def)

definition demo_msg :: "string \<Rightarrow> steering_msg" where
  "demo_msg s =
     \<lparr>sm_text = s, sm_request_id = ''r'', sm_principal = System, sm_scope = Global, sm_workspace_path = None,
      sm_received_at = ''now'', sm_origin = OriginUser\<rparr>"

theorem inbox_conserves_witness:
  "it_taken (fst (inbox_run [IPush (demo_msg ''a''), IClose, IPush (demo_msg ''b'')] (inbox_new 1)))
     @ ib_queue (snd (inbox_run [IPush (demo_msg ''a''), IClose, IPush (demo_msg ''b'')] (inbox_new 1)))
   = [demo_msg ''a'']"
  using inbox_conserves [of "[IPush (demo_msg ''a''), IClose, IPush (demo_msg ''b'')]" "inbox_new 1", OF prod.collapse [symmetric]]
  by (simp add: inbox_new_def inbox_push_def close_and_drain_def)

section \<open>Pushing into a workflow\<close>

datatype steering_event =
    EvWorkflowSteered string string string  \<comment> \<open>task, lane, request id\<close>
  | EvFollowupQueued string nat  \<comment> \<open>lane, row id\<close>

record shared =
  sh_inboxes :: "(string, inbox) table"
  sh_logs :: "(string, session_log) table"
  sh_db :: "followup_db option"
  sh_events :: "steering_event list"

definition file_unprocessed_steering ::
  "string \<Rightarrow> string \<Rightarrow> string \<Rightarrow> string \<Rightarrow> string option \<Rightarrow> followup_db \<Rightarrow> nat option \<times> followup_db" where
  "file_unprocessed_steering lane task content pjson workspace db =
     queue_unprocessed_steering_once lane content pjson workspace task (active_session_id lane db) db"

definition file_dropped_steering ::
  "string \<Rightarrow> string \<Rightarrow> string \<Rightarrow> string option \<Rightarrow> string option \<Rightarrow> followup_db option \<Rightarrow> followup_db option" where
  "file_dropped_steering lane task content pjson workspace db =
     (case db of
        None \<Rightarrow> None
      | Some d \<Rightarrow>
          (case pjson of
             None \<Rightarrow> Some d
           | Some p \<Rightarrow> Some (snd (file_unprocessed_steering lane task content p workspace d))))"

definition steering_record :: "(principal \<Rightarrow> string option) \<Rightarrow> string \<Rightarrow> string \<Rightarrow> nat \<Rightarrow> steering_msg \<Rightarrow> log_record" where
  "steering_record pj task lane depth m =
     \<lparr>lr_kind = Steering, lr_task = Some task, lr_span = None, lr_agent = None,
      lr_data = DSteering (sm_request_id m) lane (sm_text m) (sm_received_at m) depth
        (case pj (sm_principal m) of None \<Rightarrow> ''null'' | Some p \<Rightarrow> p) (sm_workspace_path m),
      lr_spill = None\<rparr>"

definition push_steering ::
  "(principal \<Rightarrow> string option) \<Rightarrow> string \<Rightarrow> string \<Rightarrow> steering_msg \<Rightarrow> shared
   \<Rightarrow> (push_error, nat) res \<times> shared" where
  "push_steering pj task lane m sh =
     (case tget (sh_inboxes sh) task of
        None \<Rightarrow> (Err PushClosed, sh)
      | Some ib \<Rightarrow>
          (case inbox_push m ib of
             (Inl e, ib') \<Rightarrow> (Err e, sh)
           | (Inr depth, ib') \<Rightarrow>
               (let sh1 = sh\<lparr>sh_inboxes := tput task ib' (sh_inboxes sh)\<rparr>;
                    sh2 = (case tget (sh_logs sh1) task of
                             None \<Rightarrow> sh1
                           | Some lg \<Rightarrow>
                               (case emit (steering_record pj task lane depth m) lg of
                                  (recorded, lg') \<Rightarrow>
                                    (let sh' = sh1\<lparr>sh_logs := tput task lg' (sh_logs sh1)\<rparr>
                                     in if recorded then sh'
                                        else sh'\<lparr>sh_db := file_dropped_steering lane task (sm_text m)
                                                   (pj (sm_principal m)) (sm_workspace_path m) (sh_db sh')\<rparr>)))
                in (Ok depth,
                    sh2\<lparr>sh_events := sh_events sh2 @ [EvWorkflowSteered task lane (sm_request_id m)]\<rparr>))))"

section \<open>Detaching a workflow\<close>

fun convert_leftovers ::
  "(principal \<Rightarrow> string option) \<Rightarrow> string \<Rightarrow> string \<Rightarrow> steering_msg list \<Rightarrow> followup_db
   \<Rightarrow> steering_event list \<times> followup_db" where
  "convert_leftovers pj lane task [] db = ([], db)"
| "convert_leftovers pj lane task (m # ms) db =
     (case pj (sm_principal m) of
        None \<Rightarrow> convert_leftovers pj lane task ms db
      | Some p \<Rightarrow>
          (case file_unprocessed_steering lane task (sm_text m) p (sm_workspace_path m) db of
             (r, db1) \<Rightarrow>
               (case convert_leftovers pj lane task ms db1 of
                  (evs, db2) \<Rightarrow> ((case r of None \<Rightarrow> [] | Some i \<Rightarrow> [EvFollowupQueued lane i]) @ evs, db2))))"

definition detach_steering ::
  "(principal \<Rightarrow> string option) \<Rightarrow> string \<Rightarrow> string \<Rightarrow> shared \<Rightarrow> shared" where
  "detach_steering pj lane task sh =
     (case tget (sh_inboxes sh) task of
        None \<Rightarrow> sh
      | Some ib \<Rightarrow>
          (let leftovers = filter (\<lambda>m. sm_origin m \<noteq> OriginDaemon) (fst (close_and_drain ib));
               sh1 = sh\<lparr>sh_inboxes := tdel task (sh_inboxes sh)\<rparr>
           in if leftovers = [] then sh1
              else case sh_db sh1 of
                     None \<Rightarrow> sh1
                   | Some db \<Rightarrow>
                       (case convert_leftovers pj lane task leftovers db of
                          (evs, db') \<Rightarrow> sh1\<lparr>sh_db := Some db', sh_events := sh_events sh1 @ evs\<rparr>)))"

section \<open>Showing a lane its unprocessed interjections\<close>

definition MAX_ROWS_PER_TURN :: nat where
  "MAX_ROWS_PER_TURN = 5"

fun claim_rows :: "followup list \<Rightarrow> followup_db \<Rightarrow> followup list \<times> followup_db" where
  "claim_rows [] db = ([], db)"
| "claim_rows (r # rs) db =
     (case mark_done_if_queued (fu_id r) db of
        (won, db1) \<Rightarrow>
          (case claim_rows rs db1 of (claimed, db2) \<Rightarrow> (if won then r # claimed else claimed, db2)))"

definition unprocessed_block :: "followup list \<Rightarrow> string" where
  "unprocessed_block claimed =
     ''<unprocessed_steering>'' @ NL
     @ ''Messages the user sent while the last workflow was finishing. They were NOT processed ''
     @ EM_DASH @ '' the workflow ended before they could be delivered, and nothing has acted on them:'' @ NL
     @ concat (map (\<lambda>r. ''- '' @ fu_content r @ NL) claimed)
     @ ''Acknowledge them and, where still relevant, act on them now or ask the user how to proceed.'' @ NL
     @ ''</unprocessed_steering>''"

definition claim_and_render :: "followup list \<Rightarrow> followup_db \<Rightarrow> string option \<times> followup_db" where
  "claim_and_render candidates db =
     (case claim_rows candidates db of
        (claimed, db') \<Rightarrow> (if claimed = [] then None else Some (unprocessed_block claimed), db'))"

definition block_candidates :: "string \<Rightarrow> followup_db \<Rightarrow> followup list" where
  "block_candidates lane db =
     take MAX_ROWS_PER_TURN (filter (\<lambda>r. fu_kind r = KindUnprocessed) (list_queued_by_lane lane db))"

text \<open>\<open>between\<close> is what other holders of the connection did between the listing and the claims.\<close>

definition take_unprocessed_steering_block ::
  "string \<Rightarrow> (followup_db \<Rightarrow> followup_db) \<Rightarrow> followup_db option \<Rightarrow> string option \<times> followup_db option" where
  "take_unprocessed_steering_block lane between db =
     (case db of
        None \<Rightarrow> (None, None)
      | Some d \<Rightarrow>
          (case claim_and_render (block_candidates lane d) (between d) of (b, d') \<Rightarrow> (b, Some d')))"

section \<open>Laws\<close>

lemma file_unprocessed_count:
  "interjection_count (snd (file_unprocessed_steering lane task c p w db)) t c' =
     (if t = task \<and> c' = c \<and> interjection_count db task c = 0 then 1 else interjection_count db t c')"
  by (simp add: file_unprocessed_steering_def once_count)

text \<open>The leftovers of a detaching workflow are the second provider of the filing interface.\<close>

interpretation leftover: interjection_filing interjection_count
  "\<lambda>lane task m db. snd (file_unprocessed_steering lane task (sm_text m) (the (pj (sm_principal m)))
      (sm_workspace_path m) db)" sm_text
  for pj :: "principal \<Rightarrow> string option"
  by unfold_locales (auto simp: file_unprocessed_count)

lemma convert_file_all:
  "(\<forall>m\<in>set ms. pj (sm_principal m) \<noteq> None) \<Longrightarrow>
   snd (convert_leftovers pj lane task ms db) = leftover.file_all pj lane task ms db"
proof (induction ms arbitrary: db)
  case (Cons m ms)
  obtain p where p: "pj (sm_principal m) = Some p" using Cons.prems by auto
  obtain r db1 where f: "file_unprocessed_steering lane task (sm_text m) p (sm_workspace_path m) db = (r, db1)"
    by fastforce
  obtain evs db2 where c: "convert_leftovers pj lane task ms db1 = (evs, db2)" by fastforce
  have "db2 = leftover.file_all pj lane task ms db1" using Cons.IH [of db1] Cons.prems c by simp
  then show ?case using p f c by simp
qed simp

text \<open>Detaching a workflow loses no interjection and files none twice. When a workflow with an inbox detaches, every user message still in it is on file as an undelivered interjection of that workflow (given a store, and principals that serialise), messages filed before stay filed, an interjection on file at most once before, say by the dropped-record fallback, is on file at most once after, no daemon message is filed that was not there, and the inbox is gone, so later pushes are refused as closed.\<close>

theorem detach_files_leftovers:
  assumes "tget (sh_inboxes sh) task = Some ib" "sh_db sh = Some db" "\<forall>p. pj p \<noteq> None"
  shows "\<exists>db'. sh_db (detach_steering pj lane task sh) = Some db'
    \<and> (\<forall>m\<in>set (ib_queue ib). sm_origin m = OriginUser \<longrightarrow> 0 < interjection_count db' task (sm_text m))
    \<and> (\<forall>t c. interjection_count db t c \<le> interjection_count db' t c)
    \<and> (\<forall>t c. interjection_count db t c \<le> 1 \<longrightarrow> interjection_count db' t c \<le> 1)
    \<and> (\<forall>t c. interjection_count db t c = 0 \<longrightarrow> 0 < interjection_count db' t c \<longrightarrow>
         t = task \<and> (\<exists>m\<in>set (ib_queue ib). sm_origin m = OriginUser \<and> sm_text m = c))
    \<and> fst (push_steering pj task lane msg (detach_steering pj lane task sh)) = Err PushClosed"
proof -
  let ?left = "filter (\<lambda>m. sm_origin m \<noteq> OriginDaemon) (ib_queue ib)"
  have origin: "sm_origin m \<noteq> OriginDaemon \<longleftrightarrow> sm_origin m = OriginUser" for m by (cases "sm_origin m") auto
  define db' where "db' = leftover.file_all pj lane task ?left db"
  have conv: "snd (convert_leftovers pj lane task ?left db) = db'"
    unfolding db'_def by (rule convert_file_all) (use assms(3) in blast)
  have db: "sh_db (detach_steering pj lane task sh) = Some db'"
  proof (cases "?left = []")
    case True
    then show ?thesis using assms(1,2) by (simp add: detach_steering_def Let_def close_and_drain_def db'_def)
  next
    case False
    obtain evs db2 where "convert_leftovers pj lane task ?left db = (evs, db2)" by fastforce
    then show ?thesis using assms(1,2) conv False
      by (simp add: detach_steering_def Let_def close_and_drain_def)
  qed
  have only: "t = task \<and> (\<exists>m\<in>set ms. sm_text m = c)"
    if "interjection_count d t c = 0" "0 < interjection_count (leftover.file_all pj lane task ms d) t c" for ms d t c
    using that
  proof (induction ms arbitrary: d)
    case (Cons m ms)
    let ?d1 = "snd (file_unprocessed_steering lane task (sm_text m) (the (pj (sm_principal m))) (sm_workspace_path m) d)"
    show ?case
    proof (cases "interjection_count ?d1 t c = 0")
      case True
      then show ?thesis using Cons.IH [of ?d1] Cons.prems(2) by auto
    next
      case False
      then show ?thesis using Cons.prems(1) by (auto simp: file_unprocessed_count split: if_splits)
    qed
  qed simp
  have gone: "tget (sh_inboxes (detach_steering pj lane task sh)) task = None"
    using assms(1,2) by (auto simp: detach_steering_def Let_def table_simps split: option.splits prod.splits)
  show ?thesis
  proof (intro exI conjI)
    show "sh_db (detach_steering pj lane task sh) = Some db'" by (rule db)
    show "\<forall>m\<in>set (ib_queue ib). sm_origin m = OriginUser \<longrightarrow> 0 < interjection_count db' task (sm_text m)"
      unfolding db'_def by (intro ballI impI leftover.file_all_filed) (simp add: origin)
    show "\<forall>t c. interjection_count db t c \<le> interjection_count db' t c"
      unfolding db'_def using leftover.file_all_kept by blast
    show "\<forall>t c. interjection_count db t c \<le> 1 \<longrightarrow> interjection_count db' t c \<le> 1"
      unfolding db'_def using leftover.file_all_once by blast
    show "\<forall>t c. interjection_count db t c = 0 \<longrightarrow> 0 < interjection_count db' t c \<longrightarrow>
         t = task \<and> (\<exists>m\<in>set (ib_queue ib). sm_origin m = OriginUser \<and> sm_text m = c)"
    proof (intro allI impI)
      fix t c
      assume "interjection_count db t c = 0" "0 < interjection_count db' t c"
      then have "t = task \<and> (\<exists>m\<in>set ?left. sm_text m = c)" unfolding db'_def by (rule only)
      then show "t = task \<and> (\<exists>m\<in>set (ib_queue ib). sm_origin m = OriginUser \<and> sm_text m = c)"
        using origin by auto
    qed
    show "fst (push_steering pj task lane msg (detach_steering pj lane task sh)) = Err PushClosed"
      by (simp add: push_steering_def gone)
  qed
qed

definition demo_shared :: shared where
  "demo_shared =
     \<lparr>sh_inboxes = [(''t'', inbox_new 4)],
      sh_logs = [(''t'', \<lparr>sl_session_id = ''s'', sl_channel = [Full], sl_records = [], sl_dropped = 0,
                   sl_written_seq = 0, sl_next_spill = 0\<rparr>)],
      sh_db = Some demo_followups, sh_events = []\<rparr>"

theorem detach_files_leftovers_witness:
  "\<exists>db'. sh_db (detach_steering (\<lambda>p. Some ''p'') ''l'' ''t''
        (demo_shared\<lparr>sh_inboxes := [(''t'', snd (inbox_push (demo_msg ''go'') (inbox_new 4)))]\<rparr>)) = Some db'
     \<and> 0 < interjection_count db' ''t'' ''go''"
proof -
  let ?ib = "snd (inbox_push (demo_msg ''go'') (inbox_new 4))"
  let ?sh = "demo_shared\<lparr>sh_inboxes := [(''t'', ?ib)]\<rparr>"
  have "demo_msg ''go'' \<in> set (ib_queue ?ib)" "sm_origin (demo_msg ''go'') = OriginUser"
    "sm_text (demo_msg ''go'') = ''go''"
    by (simp_all add: inbox_push_def inbox_new_def demo_msg_def)
  moreover have "tget (sh_inboxes ?sh) ''t'' = Some ?ib" "sh_db ?sh = Some demo_followups"
    by (simp_all add: demo_shared_def)
  ultimately show ?thesis
    using detach_files_leftovers [of ?sh "''t''" ?ib demo_followups "\<lambda>p. Some ''p''" "''l''" "demo_msg ''go''"] by auto
qed

lemma push_accepted:
  assumes "push_steering pj task lane m sh = (Ok depth, sh')"
  obtains ib ib' where "tget (sh_inboxes sh) task = Some ib" "inbox_push m ib = (Ok depth, ib')"
proof (cases "tget (sh_inboxes sh) task")
  case None
  then show ?thesis using assms by (simp add: push_steering_def)
next
  case (Some ib)
  obtain r ib' where p: "inbox_push m ib = (r, ib')" by fastforce
  show ?thesis
  proof (cases r)
    case (Inl e)
    then show ?thesis using assms Some p by (simp add: push_steering_def)
  next
    case (Inr d)
    then have "d = depth" using assms Some p unfolding push_steering_def Let_def by simp
    then show ?thesis using that [OF Some] p Inr by simp
  qed
qed

text \<open>An accepted push is never lost, even when its log record is. Whenever a push is accepted, the message is the last of the workflow's queue; if the session log took its record it is on file there for a crash to recover; and if the log dropped the record the message is filed at once as an undelivered interjection, which nothing removes when the running workflow then delivers the queued copy as well.\<close>

theorem accepted_push_recoverable:
  assumes "push_steering pj task lane m sh = (Ok depth, sh')"
    and "tget (sh_logs sh) task = Some lg" "sh_db sh = Some db" "pj (sm_principal m) = Some p"
  shows "(\<exists>ib. tget (sh_inboxes sh') task = Some ib \<and> ib_queue ib \<noteq> [] \<and> last (ib_queue ib) = m
           \<and> length (ib_queue ib) = depth)
    \<and> (\<exists>lg' db'. tget (sh_logs sh') task = Some lg' \<and> sh_db sh' = Some db'
         \<and> ((sl_records lg' = sl_records lg @ [steering_record pj task lane depth m] \<and> db' = db)
            \<or> (sl_dropped lg' = sl_dropped lg + 1 \<and> 0 < interjection_count db' task (sm_text m))))"
proof -
  from assms(1) obtain ib ib' where ib: "tget (sh_inboxes sh) task = Some ib" and p: "inbox_push m ib = (Ok depth, ib')"
    by (rule push_accepted)
  have q: "ib_queue ib' = ib_queue ib @ [m]" "depth = length (ib_queue ib')"
    using p by (auto simp: inbox_push_def Let_def split: if_splits)
  obtain rec lg' where e: "emit (steering_record pj task lane depth m) lg = (rec, lg')" by fastforce
  have sh': "sh_inboxes sh' = tput task ib' (sh_inboxes sh)" "sh_logs sh' = tput task lg' (sh_logs sh)"
    "sh_db sh' = (if rec then sh_db sh
       else file_dropped_steering lane task (sm_text m) (pj (sm_principal m)) (sm_workspace_path m) (sh_db sh))"
    using assms(1,2) ib p e by (auto simp: push_steering_def Let_def split: if_splits)
  show ?thesis
  proof (intro conjI)
    show "\<exists>ib. tget (sh_inboxes sh') task = Some ib \<and> ib_queue ib \<noteq> [] \<and> last (ib_queue ib) = m
           \<and> length (ib_queue ib) = depth"
      using sh'(1) q by (auto simp: table_simps)
    show "\<exists>lg' db'. tget (sh_logs sh') task = Some lg' \<and> sh_db sh' = Some db'
         \<and> ((sl_records lg' = sl_records lg @ [steering_record pj task lane depth m] \<and> db' = db)
            \<or> (sl_dropped lg' = sl_dropped lg + 1 \<and> 0 < interjection_count db' task (sm_text m)))"
      using sh'(2,3) assms(3,4) emit_accounted [OF e]
      by (cases rec) (auto simp: table_simps file_dropped_steering_def file_unprocessed_count)
  qed
qed

theorem accepted_push_recoverable_witness:
  "case push_steering (\<lambda>p. Some ''p'') ''t'' ''l'' (demo_msg ''go'') demo_shared of
     (Inr d, sh') \<Rightarrow> d = 1 \<and> (\<exists>db'. sh_db sh' = Some db' \<and> 0 < interjection_count db' ''t'' ''go'')
   | _ \<Rightarrow> False"
proof -
  obtain r sh' where ps: "push_steering (\<lambda>p. Some ''p'') ''t'' ''l'' (demo_msg ''go'') demo_shared = (r, sh')" by fastforce
  have "fst (push_steering (\<lambda>p. Some ''p'') ''t'' ''l'' (demo_msg ''go'') demo_shared) = Inr 1" by code_simp
  then have r: "r = Inr 1" using ps by simp
  have rec: "sl_records (the (tget (sh_logs (snd (push_steering (\<lambda>p. Some ''p'') ''t'' ''l'' (demo_msg ''go'') demo_shared))) ''t'')) = []"
    by code_simp
  obtain lg where lg: "tget (sh_logs demo_shared) ''t'' = Some lg" by (simp add: demo_shared_def)
  have "sh_db demo_shared = Some demo_followups" by (simp add: demo_shared_def)
  from accepted_push_recoverable [OF ps [unfolded r] lg this] rec ps r show ?thesis
    by (auto simp: demo_msg_def)
qed

text \<open>The block of unprocessed interjections shows only rows it won. Whatever other holders of the connection did between the listing and the claims, a row is rendered only if it was still queued when claimed, so a row the user cancelled in between is not shown to the model; every listed row is off the queue afterwards, so none is ever shown again.\<close>

theorem block_shows_only_claimed:
  assumes "followup_ok db" "distinct (map fu_id rs)" "claim_rows rs db = (claimed, db')"
  shows "(\<forall>r\<in>set claimed. r \<in> set rs \<and> fu_id r \<in> queued_ids db)
    \<and> queued_ids db' = queued_ids db - set (map fu_id rs) \<and> followup_ok db'"
  using assms
proof (induction rs arbitrary: db claimed db')
  case (Cons r rs)
  let ?P = "\<lambda>x. fu_id x = fu_id r \<and> fu_status x = Queued"
  let ?db1 = "set_status_where ?P Done db"
  obtain cl db2 where c: "claim_rows rs ?db1 = (cl, db2)" by fastforce
  have cr: "claimed = (if list_ex ?P (fd_rows db) then r # cl else cl)" "db' = db2"
    using Cons.prems(3) c by (simp_all add: mark_done_if_queued_def Let_def)
  have q1: "queued_ids ?db1 = queued_ids db - {fu_id r}"
    by (auto simp: queued_ids_def set_status_where_def split: if_splits)
  have won: "fu_id r \<in> queued_ids db" if ex: "list_ex ?P (fd_rows db)"
  proof -
    obtain x where x: "x \<in> set (fd_rows db)" "fu_id x = fu_id r" "fu_status x = Queued"
      using ex unfolding list_ex_iff by blast
    then have "fu_id x \<in> queued_ids db" unfolding queued_ids_def by blast
    then show ?thesis using x(2) by simp
  qed
  have ih: "(\<forall>x\<in>set cl. x \<in> set rs \<and> fu_id x \<in> queued_ids ?db1)
      \<and> queued_ids db2 = queued_ids ?db1 - set (map fu_id rs) \<and> followup_ok db2"
    by (rule Cons.IH [OF _ _ c]) (use Cons.prems in simp_all)
  show ?case using cr ih q1 won by auto
qed (simp)

theorem block_shows_only_claimed_witness:
  "fst (claim_rows [] demo_followups) = [] \<and> queued_ids (snd (claim_rows [] demo_followups)) = queued_ids demo_followups - {}"
proof -
  have "followup_ok demo_followups" by code_simp
  then show ?thesis using block_shows_only_claimed [of demo_followups "[]" "[]" demo_followups] by simp
qed

end
