(* ===== verification/Compaction.thy ===== *)
theory Compaction
  imports Steering
begin

text \<open>
  Compaction of a conversation that fills its window: the two-phase pipeline of
  \<open>context_budget/compaction.rs\<close>, the heuristic summary \<open>compress_context\<close> of
  \<open>runner/agentic_loop/context.rs\<close>, and the tiers of \<open>prompt_ctx/compaction/graduated.rs\<close>. The one
  model call is the argument \<open>summ\<close>, the time it stamps \<open>stamp\<close>; \<open>cancelled\<close> says that the token fired
  while that call was awaited. \<open>lc\<close> is \<open>to_lowercase\<close>, \<open>render\<close> the JSON text of arguments.
\<close>

type_synonym summarizer = "working_state option \<Rightarrow> chat_message list \<Rightarrow> (string, working_state) res"

section \<open>Social messages\<close>

fun discard_walk :: "(string \<Rightarrow> string) \<Rightarrow> bool \<Rightarrow> chat_message list \<Rightarrow> chat_message list" where
  "discard_walk lc skip [] = []"
| "discard_walk lc skip (m # ms) =
     (if skip \<and> cm_role m = RAssistant then discard_walk lc False ms
      else if cm_role m = RUser \<and> is_social_phrase lc (cm_content m) then discard_walk lc True ms
      else m # discard_walk lc False ms)"

definition discard_social :: "(string \<Rightarrow> string) \<Rightarrow> nat \<Rightarrow> chat_message list \<Rightarrow> chat_message list" where
  "discard_social lc min_recent msgs =
     (if length msgs \<le> 2 + min_recent then msgs
      else let from = length msgs - min_recent
           in take 2 msgs @ discard_walk lc False (drop 2 (take from msgs)) @ drop from msgs)"

section \<open>The working state in place of the older messages\<close>

definition is_block :: "chat_message \<Rightarrow> bool" where
  "is_block m = prefix BLOCK_PREFIX (cm_content m)"

definition is_previous :: "chat_message \<Rightarrow> bool" where
  "is_previous m = prefix PREVIOUS_BLOCK_PREFIX (cm_content m)"

definition summarize_older ::
  "summarizer \<Rightarrow> string \<Rightarrow> chat_message list \<Rightarrow> nat \<Rightarrow> working_state option \<Rightarrow> chat_message list \<Rightarrow> nat
   \<Rightarrow> (string, (chat_message list \<times> working_state) option) res" where
  "summarize_older summ stamp msgs min_recent previous behind max_chars =
     (if length msgs \<le> 2 + min_recent then Ok None
      else let edge = length msgs - min_recent
           in if edge \<le> 2 then Ok None
              else let older = filter (\<lambda>m. \<not> is_block m \<and> \<not> is_previous m) (drop 2 (take edge msgs))
                   in if older = [] then Ok None
                      else (case summ previous (behind @ older) of
                              Inl e \<Rightarrow> Err e
                            | Inr st \<Rightarrow>
                                Ok (Some (filter (\<lambda>m. \<not> is_block m) (take 2 msgs)
                                          @ msg_user (render_state stamp max_chars st)
                                          # filter (\<lambda>m. \<not> is_block m) (drop edge msgs), st))))"

section \<open>The heuristic summary\<close>

definition is_interjection :: "chat_message \<Rightarrow> bool" where
  "is_interjection m \<longleftrightarrow>
     cm_role m = RUser \<and> cm_parts m = None \<and> prefix USER_INTERJECTION_PREFIX (cm_content m)"

fun role_label :: "role \<Rightarrow> string" where
  "role_label RUser = ''User''"
| "role_label RAssistant = ''Assistant''"
| "role_label RSystem = ''System''"
| "role_label RTool = ''Tool''"

fun describe_part :: "string \<Rightarrow> content_part \<Rightarrow> string option" where
  "describe_part label (PImage _ _) = Some (label @ '': [sent an image]'')"
| "describe_part label (PAudio _ _) = Some (label @ '': [sent audio]'')"
| "describe_part label (PDocument _ name _ extracted) =
     Some (label @ '': [attached: '' @ name @ ''] ''
           @ (case extracted of None \<Rightarrow> '''' | Some t \<Rightarrow> truncate_for_summary t 150))"
| "describe_part label (PFileRef _ name _) = Some (label @ '': [attached: '' @ name @ '']'')"
| "describe_part label (PText t) =
     (if t = '''' then None else Some (label @ '': '' @ truncate_for_summary t 150))"

record summary_acc =
  sa_parts :: "string list"
  sa_round :: nat
  sa_current :: "string list"
  sa_state :: "chat_message list"
  sa_interjections :: "chat_message list"

definition note_line :: "string \<Rightarrow> summary_acc \<Rightarrow> summary_acc" where
  "note_line s a = a\<lparr>sa_current := sa_current a @ [s]\<rparr>"

definition flush_round :: "summary_acc \<Rightarrow> summary_acc" where
  "flush_round a =
     (if sa_current a = [] then a
      else a\<lparr>sa_parts := sa_parts a @ (''Round '' @ show_nat (sa_round a) @ '':'') # sa_current a,
             sa_round := sa_round a + 1, sa_current := []\<rparr>)"

definition summary_step :: "chat_message \<Rightarrow> summary_acc \<Rightarrow> summary_acc" where
  "summary_step m a =
     (if is_block m then a\<lparr>sa_state := sa_state a @ [m]\<rparr>
      else if is_interjection m then a\<lparr>sa_interjections := sa_interjections a @ [m]\<rparr>
      else case cm_parts m of
             Some ps \<Rightarrow>
               a\<lparr>sa_current := sa_current a
                   @ map (\<lambda>d. ''  '' @ d) (List.map_filter (describe_part (role_label (cm_role m))) ps)\<rparr>
           | None \<Rightarrow>
               (case cm_role m of
                  RUser \<Rightarrow> note_line (''  User: '' @ truncate_for_summary (cm_content m) 150) (flush_round a)
                | RAssistant \<Rightarrow>
                    (let b = (if cm_content m = '''' then a
                              else note_line (''  Assistant: '' @ truncate_for_summary (cm_content m) 150) a)
                     in b\<lparr>sa_current := sa_current b
                            @ (case cm_tool_calls m of
                                 None \<Rightarrow> []
                               | Some tcs \<Rightarrow> map (\<lambda>tc. ''  Called: '' @ tc_name tc) tcs)\<rparr>)
                | RTool \<Rightarrow> note_line (''  Result: '' @ truncate_for_summary (cm_content m) 100) a
                | RSystem \<Rightarrow> note_line (''  System: '' @ truncate_for_summary (cm_content m) 100) a))"

text \<open>The last round is flushed without counting a further one.\<close>

definition summary_text :: "nat \<Rightarrow> summary_acc \<Rightarrow> string" where
  "summary_text compressed a =
     (let parts = (if sa_current a = [] then sa_parts a
                   else sa_parts a @ (''Round '' @ show_nat (sa_round a) @ '':'') # sa_current a)
      in ''[Context compressed: '' @ show_nat (compressed - length (sa_interjections a) - length (sa_state a))
         @ '' earlier messages in '' @ show_nat (sa_round a) @ '' rounds]'' @ NL @ join NL parts)"

definition text_tokens :: "chat_message \<Rightarrow> nat" where
  "text_tokens m =
     (case cm_parts m of
        Some ps \<Rightarrow> sum_list (map (\<lambda>p. unat (estimate_part_tokens p)) ps)
      | None \<Rightarrow> length (cm_content m) div 4)"

fun walk_back :: "nat \<Rightarrow> nat \<Rightarrow> nat \<Rightarrow> nat \<Rightarrow> (nat \<times> chat_message) list \<Rightarrow> nat" where
  "walk_back target n tail edge [] = edge"
| "walk_back target n tail edge ((i, m) # rest) =
     (if i \<le> 1 then edge
      else if target < tail + text_tokens m \<and> edge < n then edge
      else walk_back target n (tail + text_tokens m) i rest)"

definition keep_tail_of :: "nat \<Rightarrow> context_budget option \<Rightarrow> chat_message list \<Rightarrow> nat" where
  "keep_tail_of tail_keep budget msgs =
     (case budget of
        None \<Rightarrow> tail_keep * 3
      | Some b \<Rightarrow>
          (let target = compaction_target_tokens b
           in if target = 0 then tail_keep * 3
              else length msgs - walk_back target (length msgs) 0 (length msgs) (rev (enumerate 0 msgs))))"

definition cap_summary :: "context_budget option \<Rightarrow> string \<Rightarrow> string" where
  "cap_summary budget s =
     (case budget of
        None \<Rightarrow> s
      | Some b \<Rightarrow>
          (let limit = compaction_target_tokens b * 4
           in if limit < length s
              then take (floor_char_boundary s limit) s @ NL @ ''[...summary truncated]'' else s))"

definition compress_context :: "nat \<Rightarrow> context_budget option \<Rightarrow> chat_message list \<Rightarrow> chat_message list" where
  "compress_context tail_keep budget msgs =
     (let keep_tail = keep_tail_of tail_keep budget msgs
      in if length msgs \<le> 2 + keep_tail then msgs
         else let compress_end = length msgs - keep_tail;
                  a = fold summary_step (drop 2 (take compress_end msgs))
                        \<lparr>sa_parts = [], sa_round = 1, sa_current = [], sa_state = [], sa_interjections = []\<rparr>;
                  summary = cap_summary budget (summary_text (compress_end - 2) a)
              in take 2 msgs @ sa_state a @ msg_user summary # sa_interjections a @ drop compress_end msgs)"

section \<open>The pipeline\<close>

record compaction_result =
  cp_messages :: "chat_message list"
  cp_state :: "(working_state \<times> nat) option"
  cp_discarded :: nat
  cp_before :: nat
  cp_after :: nat
  cp_error :: "string option"

definition pipeline_compact ::
  "(string \<Rightarrow> string) \<Rightarrow> summarizer \<Rightarrow> string \<Rightarrow> chat_message list \<Rightarrow> nat \<Rightarrow> working_state option
   \<Rightarrow> chat_message list \<Rightarrow> nat \<Rightarrow> compaction_result" where
  "pipeline_compact lc summ stamp msgs min_recent previous behind max_chars =
     (let after_discard = discard_social lc min_recent msgs;
          discarded = length msgs - length after_discard
      in case summarize_older summ stamp after_discard min_recent previous behind max_chars of
           Inr (Some (compacted, st)) \<Rightarrow>
             \<lparr>cp_messages = compacted, cp_state = Some (st, length msgs - min_recent), cp_discarded = discarded,
              cp_before = length msgs, cp_after = length compacted, cp_error = None\<rparr>
         | Inr None \<Rightarrow>
             \<lparr>cp_messages = after_discard, cp_state = None, cp_discarded = discarded,
              cp_before = length msgs, cp_after = length after_discard, cp_error = None\<rparr>
         | Inl e \<Rightarrow>
             (let fallback = compress_context (max ((min_recent + 2) div 3) 1) None after_discard
              in \<lparr>cp_messages = fallback, cp_state = None, cp_discarded = discarded,
                  cp_before = length msgs, cp_after = length fallback,
                  cp_error = Some (''Phase 3 failed: '' @ e)\<rparr>))"

section \<open>The tiers\<close>

definition truncate_result :: "chat_message \<Rightarrow> chat_message" where
  "truncate_result m =
     (if cm_role m = RTool \<and> 200 < length (cm_content m)
      then m\<lparr>cm_content := take (floor_char_boundary (cm_content m) (length (cm_content m) div 2)) (cm_content m)
                            @ NL @ ''[...truncated]''\<rparr>
      else m)"

definition truncate_tool_results :: "chat_message list \<Rightarrow> chat_message list" where
  "truncate_tool_results = map truncate_result"

fun drop_part :: "content_part \<Rightarrow> content_part" where
  "drop_part (PImage _ _) = PText ''[image removed to save context]''"
| "drop_part (PAudio _ _) = PText ''[audio removed to save context]''"
| "drop_part (PDocument _ name _ _) = PText (''[document '' @ [CHR 0x27] @ name @ [CHR 0x27] @ '' removed to save context]'')"
| "drop_part p = p"

definition drop_media :: "chat_message \<Rightarrow> chat_message" where
  "drop_media m = m\<lparr>cm_parts := map_option (map drop_part) (cm_parts m)\<rparr>"

definition drop_multimedia :: "chat_message list \<Rightarrow> chat_message list" where
  "drop_multimedia = map drop_media"

record compaction_report =
  cq_tiers :: "compaction_tier list"
  cq_initial :: nat
  cq_final :: nat
  cq_state :: "(working_state \<times> nat) option"
  cq_discarded :: nat
  cq_before :: nat
  cq_after :: nat
  cq_error :: "string option"

record compactor =
  gc_budget :: context_budget
  gc_summ :: summarizer
  gc_stamp :: string
  gc_cancelled :: bool
  gc_max_chars :: nat
  gc_tail_keep :: nat
  gc_previous :: "working_state option"
  gc_behind :: "chat_message list"

text \<open>One tier; \<^const>\<open>None\<close> when the token fired during the model call.\<close>

definition apply_tier ::
  "(string \<Rightarrow> string) \<Rightarrow> compactor \<Rightarrow> compaction_tier \<Rightarrow> chat_message list \<Rightarrow> compaction_report
   \<Rightarrow> (chat_message list \<times> compaction_report) option" where
  "apply_tier lc g t msgs rep =
     (case t of
        TierNone \<Rightarrow> None
      | TruncateToolResults \<Rightarrow> Some (truncate_tool_results msgs, rep)
      | DropMultimedia \<Rightarrow> Some (drop_multimedia msgs, rep)
      | DiscardSocial \<Rightarrow> Some (discard_social lc (bg_min_recent (gc_budget g)) msgs, rep)
      | HeuristicSummary \<Rightarrow> Some (compress_context (gc_tail_keep g) (Some (gc_budget g)) msgs, rep)
      | LlmSummary \<Rightarrow>
          (if gc_cancelled g then None
           else let r = pipeline_compact lc (gc_summ g) (gc_stamp g) msgs (bg_min_recent (gc_budget g))
                          (gc_previous g) (gc_behind g) (gc_max_chars g)
                in Some (cp_messages r, rep\<lparr>cq_state := cp_state r, cq_error := cp_error r\<rparr>)))"

function run_tiers ::
  "(string \<Rightarrow> string) \<Rightarrow> (json \<Rightarrow> string) \<Rightarrow> compactor \<Rightarrow> compaction_tier \<Rightarrow> chat_message list
   \<Rightarrow> compaction_report \<Rightarrow> chat_message list \<times> compaction_report" where
  "run_tiers lc render g t msgs rep =
     (case apply_tier lc g t msgs rep of
        None \<Rightarrow> (msgs, rep)
      | Some (msgs', rep1) \<Rightarrow>
          (let rep' = rep1\<lparr>cq_tiers := cq_tiers rep1 @ [t],
                           cq_discarded := cq_discarded rep1 + (length msgs - length msgs')\<rparr>;
               tokens_now = unat (estimate_messages_tokens render msgs')
           in if \<not> should_compact (gc_budget g) tokens_now then (msgs', rep')
              else case next_tier t of
                     Some t' \<Rightarrow> run_tiers lc render g t' msgs' rep'
                   | None \<Rightarrow> (msgs', rep')))"
  by pat_completeness auto

termination
  by (relation "measure (\<lambda>(_, _, _, t, _). 5 - tier_rank t)") (auto elim: next_tier.elims)

definition graduated_compact ::
  "(string \<Rightarrow> string) \<Rightarrow> (json \<Rightarrow> string) \<Rightarrow> compactor \<Rightarrow> chat_message list
   \<Rightarrow> chat_message list \<times> compaction_report" where
  "graduated_compact lc render g msgs =
     (let initial = unat (estimate_messages_tokens render msgs);
          rep = \<lparr>cq_tiers = [], cq_initial = initial, cq_final = 0, cq_state = None, cq_discarded = 0,
                 cq_before = length msgs, cq_after = 0, cq_error = None\<rparr>;
          t = compaction_tier_for (gc_budget g) initial
      in if t = TierNone then (msgs, rep\<lparr>cq_final := initial\<rparr>)
         else case run_tiers lc render g t msgs rep of
                (msgs', rep') \<Rightarrow>
                  (msgs', rep'\<lparr>cq_final := unat (estimate_messages_tokens render msgs'),
                               cq_after := length msgs'\<rparr>))"

section \<open>What compaction keeps\<close>

lemma fold_summary:
  "sa_state (fold summary_step ms a) = sa_state a @ filter is_block ms
   \<and> sa_interjections (fold summary_step ms a)
       = sa_interjections a @ filter (\<lambda>m. \<not> is_block m \<and> is_interjection m) ms"
proof (induction ms arbitrary: a)
  case (Cons m ms)
  have "sa_state (summary_step m a) = sa_state a @ (if is_block m then [m] else [])"
    "sa_interjections (summary_step m a) = sa_interjections a @ (if \<not> is_block m \<and> is_interjection m then [m] else [])"
    by (auto simp: summary_step_def note_line_def flush_round_def Let_def split: option.splits role.splits)
  then show ?case using Cons [of "summary_step m a"] by auto
qed simp

lemma compress_shape:
  obtains "compress_context k b msgs = msgs"
  | e s where "2 < e" "e \<le> length msgs"
      "compress_context k b msgs =
         take 2 msgs @ filter is_block (drop 2 (take e msgs)) @ msg_user s
         # filter (\<lambda>m. \<not> is_block m \<and> is_interjection m) (drop 2 (take e msgs)) @ drop e msgs"
      "hd s \<in> {CHR ''['', CHR 0x0A}" "s \<noteq> []"
proof (cases "length msgs \<le> 2 + keep_tail_of k b msgs")
  case True
  then show ?thesis using that(1) by (simp add: compress_context_def Let_def)
next
  case False
  let ?e = "length msgs - keep_tail_of k b msgs"
  let ?a = "fold summary_step (drop 2 (take ?e msgs))
     \<lparr>sa_parts = [], sa_round = 1, sa_current = [], sa_state = [], sa_interjections = []\<rparr>"
  obtain raw where raw: "summary_text (?e - 2) ?a = CHR ''['' # raw" by (simp add: summary_text_def Let_def)
  have "hd (cap_summary b (CHR ''['' # raw)) \<in> {CHR ''['', CHR 0x0A} \<and> cap_summary b (CHR ''['' # raw) \<noteq> []"
    by (auto simp: cap_summary_def Let_def NL_def take_Cons' split: option.splits)
  moreover have "compress_context k b msgs =
         take 2 msgs @ filter is_block (drop 2 (take ?e msgs)) @ msg_user (cap_summary b (CHR ''['' # raw))
         # filter (\<lambda>m. \<not> is_block m \<and> is_interjection m) (drop 2 (take ?e msgs)) @ drop ?e msgs"
    using False fold_summary [of "drop 2 (take ?e msgs)"] raw
    unfolding compress_context_def Let_def by simp
  ultimately show ?thesis using that(2) [of ?e] False by simp
qed

text \<open>Plain user messages that carry the conversation's state block, or a user's interjection.\<close>

definition state_message :: "chat_message \<Rightarrow> bool" where
  "state_message m \<longleftrightarrow> cm_role m = RUser \<and> cm_parts m = None \<and> is_block m"

definition plain :: "chat_message \<Rightarrow> bool" where
  "plain m \<longleftrightarrow> cm_role m \<noteq> RTool \<and> cm_parts m = None \<and> \<not> is_block m"

text \<open>\<open>to_lowercase\<close> maps \<open><\<close> to itself, and no social phrase starts with it.\<close>

definition keeps_angle :: "(string \<Rightarrow> string) \<Rightarrow> bool" where
  "keeps_angle lc \<longleftrightarrow> lc [] = [] \<and> (\<forall>s. \<exists>t. lc (CHR ''<'' # s) = CHR ''<'' # t)"

lemma no_angle_phrase: "s \<in> set SOCIAL_PHRASES \<Longrightarrow> s \<noteq> [] \<and> hd s \<noteq> CHR ''<''"
  by (auto simp: SOCIAL_PHRASES_def)

lemma angle_not_ws:
  "\<not> ws1 (byte_of CHR ''<'')" "\<not> ws2 (byte_of CHR ''<'') b" "\<not> ws3 (byte_of CHR ''<'') b c"
  by (simp_all add: ws1_def ws2_def byte_of_def)

lemma marked_not_social:
  assumes "keeps_angle lc"
  shows "\<not> is_social_phrase lc (CHR ''<'' # s)"
proof -
  have "head_ws (CHR ''<'' # s) = 0"
    by (cases s; cases "tl s") (simp_all only: list.sel angle_not_ws head_ws.simps if_False)
  then have start: "trim_start (CHR ''<'' # s) = CHR ''<'' # s" by (subst trim_start.simps) simp
  have "prefix (trim (CHR ''<'' # s)) (CHR ''<'' # s)"
    unfolding trim_def start by (rule trim_end_prefix)
  then consider "trim (CHR ''<'' # s) = []" | t where "trim (CHR ''<'' # s) = CHR ''<'' # t"
    by (cases "trim (CHR ''<'' # s)") auto
  then show ?thesis
  proof cases
    case 1
    then show ?thesis using assms no_angle_phrase [of "[]"] by (auto simp: is_social_phrase_def keeps_angle_def)
  next
    case 2
    moreover obtain u where "lc (CHR ''<'' # t) = CHR ''<'' # u" using assms by (auto simp: keeps_angle_def)
    ultimately show ?thesis using no_angle_phrase by (fastforce simp: is_social_phrase_def)
  qed
qed

definition marked :: "(chat_message \<Rightarrow> bool) \<Rightarrow> bool" where
  "marked Q \<longleftrightarrow>
     (\<forall>m. Q m \<longrightarrow> cm_role m = RUser \<and> cm_parts m = None \<and> (\<exists>s. cm_content m = CHR ''<'' # s))"

lemma marked_kinds: "marked is_interjection" "marked state_message"
  by (auto simp: marked_def is_interjection_def state_message_def is_block_def BLOCK_PREFIX_def
      USER_INTERJECTION_PREFIX_def prefix_def)

lemma block_no_interjection: "is_block m \<Longrightarrow> \<not> is_interjection m"
  by (auto simp: is_interjection_def is_block_def BLOCK_PREFIX_def USER_INTERJECTION_PREFIX_def prefix_def)

lemma markedD:
  assumes "marked Q" "Q m"
  shows "cm_role m = RUser" "cm_parts m = None" "\<exists>s. cm_content m = CHR ''<'' # s"
  using assms by (auto simp: marked_def)

lemma split_three: "n \<le> e \<Longrightarrow> take n xs @ drop n (take e xs) @ drop e xs = xs"
  by (metis append.assoc append_take_drop_id min.absorb1 take_take)

lemma discard_walk_marked:
  assumes "marked Q" "keeps_angle lc"
  shows "filter Q (discard_walk lc skip ms) = filter Q ms"
proof (induction ms arbitrary: skip)
  case (Cons m ms)
  show ?case
  proof (cases "Q m")
    case True
    then obtain s where "cm_content m = CHR ''<'' # s" and "cm_role m = RUser" using markedD [OF assms(1)] by blast
    then show ?thesis using True Cons marked_not_social [OF assms(2)] by simp
  qed (simp add: Cons)
qed simp

lemma discard_social_marked:
  assumes "marked Q" "keeps_angle lc"
  shows "filter Q (discard_social lc n msgs) = filter Q msgs"
proof (cases "length msgs \<le> 2 + n")
  case False
  then have "filter Q (discard_social lc n msgs)
      = filter Q (take 2 msgs @ drop 2 (take (length msgs - n) msgs) @ drop (length msgs - n) msgs)"
    by (simp add: discard_social_def Let_def discard_walk_marked [OF assms])
  then show ?thesis using False by (simp only: split_three)
qed (simp add: discard_social_def)

lemma map_filter_fixed:
  "(\<And>m. Q (f m) = Q m) \<Longrightarrow> (\<And>m. Q m \<Longrightarrow> f m = m) \<Longrightarrow> filter Q (map f ms) = filter Q ms"
  by (induction ms) auto

lemma truncate_results_marked:
  assumes "marked Q"
  shows "filter Q (truncate_tool_results msgs) = filter Q msgs"
  unfolding truncate_tool_results_def
proof (rule map_filter_fixed)
  fix m
  show "Q (truncate_result m) = Q m"
    using markedD(1) [OF assms, of m] markedD(1) [OF assms, of "truncate_result m"]
    by (cases "cm_role m = RTool") (auto simp: truncate_result_def)
  show "Q m \<Longrightarrow> truncate_result m = m"
    using markedD(1) [OF assms, of m] by (simp add: truncate_result_def)
qed

lemma drop_media_plain: "cm_parts m = None \<Longrightarrow> drop_media m = m"
  by (cases m) (simp add: drop_media_def)

lemma drop_multimedia_marked:
  assumes "marked Q"
  shows "filter Q (drop_multimedia msgs) = filter Q msgs"
  unfolding drop_multimedia_def
proof (rule map_filter_fixed)
  fix m
  show "Q (drop_media m) = Q m"
  proof (cases "cm_parts m")
    case (Some ps)
    then have "cm_parts (drop_media m) \<noteq> None" by (simp add: drop_media_def)
    then show ?thesis using Some markedD(2) [OF assms, of m] markedD(2) [OF assms, of "drop_media m"] by auto
  qed (simp add: drop_media_plain)
  show "Q m \<Longrightarrow> drop_media m = m"
    using markedD(2) [OF assms, of m] by (simp add: drop_media_plain)
qed

lemma compress_marked:
  assumes "Q = is_interjection \<or> Q = state_message"
  shows "filter Q (compress_context k b msgs) = filter Q msgs"
proof (rule compress_shape [of k b msgs])
  fix e s
  assume e: "2 < e" "e \<le> length msgs" and s: "hd s \<in> {CHR ''['', CHR 0x0A}" "s \<noteq> []"
    and c: "compress_context k b msgs =
         take 2 msgs @ filter is_block (drop 2 (take e msgs)) @ msg_user s
         # filter (\<lambda>m. \<not> is_block m \<and> is_interjection m) (drop 2 (take e msgs)) @ drop e msgs"
  have "\<not> Q (msg_user s)"
    using assms s markedD(3) [of Q "msg_user s"] marked_kinds by (auto simp: msg_user_def msg_of_def)
  moreover have "filter Q (filter is_block xs) @ filter Q (filter (\<lambda>m. \<not> is_block m \<and> is_interjection m) xs)
      = filter Q xs" for xs
    using assms
  proof
    assume Q: "Q = is_interjection"
    have "filter Q (filter is_block xs) = []"
      unfolding filter_empty_conv Q using block_no_interjection by auto
    moreover have "filter Q (filter (\<lambda>m. \<not> is_block m \<and> is_interjection m) xs) = filter Q xs"
      unfolding filter_filter Q using block_no_interjection by (intro filter_cong) auto
    ultimately show ?thesis by simp
  next
    assume Q: "Q = state_message"
    have "filter Q (filter is_block xs) = filter Q xs"
      unfolding filter_filter Q by (intro filter_cong) (auto simp: state_message_def)
    moreover have "filter Q (filter (\<lambda>m. \<not> is_block m \<and> is_interjection m) xs) = []"
      unfolding filter_empty_conv Q by (auto simp: state_message_def)
    ultimately show ?thesis by simp
  qed
  ultimately have "filter Q (compress_context k b msgs)
      = filter Q (take 2 msgs @ drop 2 (take e msgs) @ drop e msgs)"
    unfolding c by simp
  then show ?thesis using e by (simp only: split_three)
qed simp

lemma pipeline_marked:
  assumes "Q = is_interjection \<or> Q = state_message" "keeps_angle lc"
    and "cp_state (pipeline_compact lc summ stamp msgs n previous behind k) = None"
  shows "filter Q (cp_messages (pipeline_compact lc summ stamp msgs n previous behind k)) = filter Q msgs"
proof -
  have Q: "marked Q" using assms(1) marked_kinds by auto
  let ?d = "discard_social lc n msgs"
  note d = discard_social_marked [OF Q assms(2), of n msgs] compress_marked [OF assms(1)]
  show ?thesis
  proof (cases "summarize_older summ stamp ?d n previous behind k")
    case (Inl e)
    then show ?thesis using d by (simp add: pipeline_compact_def Let_def)
  next
    case (Inr r)
    then show ?thesis using d assms(3) by (cases r) (auto simp: pipeline_compact_def Let_def)
  qed
qed

lemma apply_marked:
  assumes "Q = is_interjection \<or> Q = state_message" "keeps_angle lc"
    and "apply_tier lc g t msgs rep = Some (msgs', rep')" "cq_state rep' = None"
  shows "filter Q msgs' = filter Q msgs"
proof -
  have "marked Q" using assms(1) marked_kinds by auto
  then show ?thesis
    using assms pipeline_marked [OF assms(1,2)]
    by (cases t) (auto simp: apply_tier_def Let_def truncate_results_marked drop_multimedia_marked
        discard_social_marked compress_marked split: if_splits)
qed

lemma apply_state_kept:
  "apply_tier lc g t msgs rep = Some (msgs', rep') \<Longrightarrow> t \<noteq> LlmSummary \<Longrightarrow> rep' = rep"
  by (cases t) (auto simp: apply_tier_def)

declare run_tiers.simps [simp del]

text \<open>One step of the loop over the tiers.\<close>

lemma run_tiers_cases:
  assumes "run_tiers lc render g t msgs rep = (msgs', rep')"
  obtains (stopped) "apply_tier lc g t msgs rep = None" "msgs' = msgs" "rep' = rep"
  | (settled) r1 where "apply_tier lc g t msgs rep = Some (msgs', r1)"
      "rep' = r1\<lparr>cq_tiers := cq_tiers r1 @ [t], cq_discarded := cq_discarded r1 + (length msgs - length msgs')\<rparr>"
      "\<not> should_compact (gc_budget g) (unat (estimate_messages_tokens render msgs')) \<or> t = LlmSummary"
  | (further) m1 r1 t' where "apply_tier lc g t msgs rep = Some (m1, r1)" "next_tier t = Some t'"
      "run_tiers lc render g t' m1
         (r1\<lparr>cq_tiers := cq_tiers r1 @ [t], cq_discarded := cq_discarded r1 + (length msgs - length m1)\<rparr>)
       = (msgs', rep')"
proof (cases "apply_tier lc g t msgs rep")
  case None
  then show ?thesis using assms that(1) unfolding run_tiers.simps [of lc render g t msgs rep] None by simp
next
  case (Some r)
  obtain m1 r1 where r: "r = (m1, r1)" by (cases r)
  show ?thesis
  proof (cases "should_compact (gc_budget g) (unat (estimate_messages_tokens render m1)) \<and> t \<noteq> LlmSummary")
    case True
    then obtain t' where n: "next_tier t = Some t'" using next_tier_None [of t] by (cases "next_tier t") auto
    have "run_tiers lc render g t' m1
         (r1\<lparr>cq_tiers := cq_tiers r1 @ [t], cq_discarded := cq_discarded r1 + (length msgs - length m1)\<rparr>)
       = (msgs', rep')"
      using assms True unfolding run_tiers.simps [of lc render g t msgs rep] Some r n Let_def by simp
    then show ?thesis using that(3) Some r n by blast
  next
    case False
    have "t = LlmSummary \<Longrightarrow> next_tier t = None" by simp
    then have "m1 = msgs'"
      "rep' = r1\<lparr>cq_tiers := cq_tiers r1 @ [t], cq_discarded := cq_discarded r1 + (length msgs - length m1)\<rparr>"
      using assms False unfolding run_tiers.simps [of lc render g t msgs rep] Some r Let_def
      by (auto split: if_splits)
    then show ?thesis using that(2) Some r False by blast
  qed
qed

lemma run_tiers_state:
  assumes kept: "\<And>t msgs rep msgs' rep'. apply_tier lc g t msgs rep = Some (msgs', rep')
      \<Longrightarrow> cq_state rep' = None \<Longrightarrow> P msgs \<Longrightarrow> P msgs'"
  shows "run_tiers lc render g t msgs rep = (msgs', rep') \<Longrightarrow> cq_state rep = None \<Longrightarrow> P msgs
    \<Longrightarrow> cq_state rep' = None \<Longrightarrow> P msgs'"
proof (induction "5 - tier_rank t" arbitrary: t msgs rep rule: less_induct)
  case less
  from less.prems(1) show ?case
  proof (cases rule: run_tiers_cases)
    case (settled r1)
    then show ?thesis using kept [OF settled(1)] less.prems by simp
  next
    case (further m1 r1 t')
    have t: "t \<noteq> LlmSummary" using further(2) next_tier_None [of t] by simp
    then have r1: "r1 = rep" using apply_state_kept [OF further(1)] by simp
    then have "P m1" using kept [OF further(1)] less.prems by simp
    moreover have "5 - tier_rank t' < 5 - tier_rank t" using further(2) by (cases t) auto
    ultimately show ?thesis
      using less.hyps [OF _ further(3)] less.prems r1 by simp
  qed (use less.prems in simp)
qed

lemma run_tiers_tiers:
  "run_tiers lc render g t msgs rep = (msgs', rep') \<Longrightarrow>
   cq_initial rep' = cq_initial rep \<and> cq_before rep' = cq_before rep
   \<and> (\<exists>ts. cq_tiers rep' = cq_tiers rep @ ts \<and> sorted_wrt (<) ts \<and> (\<forall>u\<in>set ts. t \<le> u)
        \<and> (ts \<noteq> [] \<longrightarrow> hd ts = t)
        \<and> (t \<noteq> TierNone \<longrightarrow> should_compact (gc_budget g) (unat (estimate_messages_tokens render msgs'))
             \<longrightarrow> LlmSummary \<in> set ts \<or> gc_cancelled g))"
proof (induction "5 - tier_rank t" arbitrary: t msgs rep rule: less_induct)
  case less
  have same: "cq_initial r1 = cq_initial r \<and> cq_before r1 = cq_before r \<and> cq_tiers r1 = cq_tiers r"
    if "apply_tier lc g t m r = Some (m1, r1)" for t m r m1 r1
    using that by (cases t) (auto simp: apply_tier_def Let_def split: if_splits)
  from less.prems show ?case
  proof (cases rule: run_tiers_cases)
    case stopped
    then have "t \<noteq> TierNone \<longrightarrow> gc_cancelled g" by (cases t) (auto simp: apply_tier_def Let_def split: if_splits)
    then show ?thesis using stopped by simp
  next
    case (settled r1)
    then show ?thesis using same [OF settled(1)] by (intro conjI exI [of _ "[t]"]) auto
  next
    case (further m1 r1 t')
    have lt: "t < t'" by (rule next_tier_less [OF further(2)])
    have "t' \<noteq> TierNone" using further(2) by (cases t) auto
    have "5 - tier_rank t' < 5 - tier_rank t" using further(2) by (cases t) auto
    from less.hyps [OF this further(3)] obtain ts where
      ts: "cq_tiers rep' = cq_tiers r1 @ t # ts" "sorted_wrt (<) ts" "\<forall>u\<in>set ts. t' \<le> u"
        "should_compact (gc_budget g) (unat (estimate_messages_tokens render msgs'))
           \<longrightarrow> LlmSummary \<in> set ts \<or> gc_cancelled g"
      and rest: "cq_initial rep' = cq_initial r1" "cq_before rep' = cq_before r1"
      using \<open>t' \<noteq> TierNone\<close> by auto
    have "\<forall>u\<in>set ts. t < u" using ts(3) lt by (auto intro: less_le_trans)
    then show ?thesis using ts rest same [OF further(1)] by (intro conjI exI [of _ "t # ts"]) (auto intro: less_imp_le)
  qed
qed

lemma take_two: "length msgs \<ge> 2 \<Longrightarrow> take 2 (take 2 msgs @ xs) = take 2 msgs"
  by simp

lemma compress_heads: "2 \<le> length msgs \<Longrightarrow> take 2 (compress_context k b msgs) = take 2 msgs"
  by (rule compress_shape [of k b msgs]) simp_all

lemma discard_heads: "2 \<le> length msgs \<Longrightarrow> take 2 (discard_social lc n msgs) = take 2 msgs"
  by (simp add: discard_social_def Let_def)

lemma apply_heads:
  assumes "apply_tier lc g t msgs rep = Some (msgs', rep')" "take 2 msgs = [a, b]" "plain a" "plain b"
  shows "take 2 msgs' = [a, b]"
proof -
  have len: "2 \<le> length msgs" using assms(2) by (cases msgs; cases "tl msgs") auto
  have fixed: "truncate_result a = a" "truncate_result b = b" "drop_media a = a" "drop_media b = b"
    using assms(3,4) by (auto simp: truncate_result_def plain_def drop_media_plain)
  show ?thesis
  proof (cases t)
    case LlmSummary
    let ?n = "bg_min_recent (gc_budget g)"
    let ?d = "discard_social lc ?n msgs"
    have d: "take 2 ?d = [a, b]" using len assms(2) by (simp add: discard_heads)
    then have dl: "2 \<le> length ?d" by (cases ?d; cases "tl ?d") auto
    let ?r = "summarize_older (gc_summ g) (gc_stamp g) ?d ?n (gc_previous g) (gc_behind g) (gc_max_chars g)"
    have m': "msgs' = cp_messages (pipeline_compact lc (gc_summ g) (gc_stamp g) msgs ?n (gc_previous g) (gc_behind g)
        (gc_max_chars g))"
      using assms(1) LlmSummary by (auto simp: apply_tier_def Let_def split: if_splits)
    show ?thesis
    proof (cases ?r)
      case (Inl e)
      then show ?thesis using m' d dl by (simp add: pipeline_compact_def Let_def compress_heads)
    next
      case (Inr o')
      show ?thesis
      proof (cases o')
        case None
        then show ?thesis using Inr m' d by (simp add: pipeline_compact_def Let_def)
      next
        case (Some p)
        obtain ms st where p: "p = (ms, st)" by (cases p)
        have "filter (\<lambda>m. \<not> is_block m) (take 2 ?d) = [a, b]" using d assms(3,4) by (simp add: plain_def)
        then have "take 2 ms = [a, b]"
          using Inr Some p by (auto simp: summarize_older_def Let_def split: if_splits sum.splits)
        then show ?thesis using Inr Some p m' by (simp add: pipeline_compact_def Let_def)
      qed
    qed
  qed (use assms(1,2) fixed len in
        \<open>auto simp: apply_tier_def truncate_tool_results_def drop_multimedia_def take_map compress_heads discard_heads\<close>)
qed

text \<open>C25: Compaction never loses the instructions or a correction. Whatever tiers a compaction goes through, cancelled or not, the first two messages (the system prompt and the first query, when they are plain text) open the compacted conversation unchanged. Unless the model's own summary took their place, every interjection of the user and every working-state block is still there, whole, in order and once: no truncation, social discard or heuristic summary touches one.\<close>

theorem compaction_keeps:
  assumes "graduated_compact lc render g msgs = (msgs', rep)" "keeps_angle lc"
    and "take 2 msgs = [a, b]" "plain a" "plain b"
  shows "take 2 msgs' = [a, b]
    \<and> (cq_state rep = None \<longrightarrow>
         filter is_interjection msgs' = filter is_interjection msgs
         \<and> filter state_message msgs' = filter state_message msgs)"
proof (cases "compaction_tier_for (gc_budget g) (unat (estimate_messages_tokens render msgs)) = TierNone")
  case True
  then show ?thesis using assms(1,3) by (auto simp: graduated_compact_def Let_def)
next
  case False
  let ?t = "compaction_tier_for (gc_budget g) (unat (estimate_messages_tokens render msgs))"
  let ?rep = "\<lparr>cq_tiers = [], cq_initial = unat (estimate_messages_tokens render msgs), cq_final = 0, cq_state = None,
      cq_discarded = 0, cq_before = length msgs, cq_after = 0, cq_error = None\<rparr>"
  obtain r' where run: "run_tiers lc render g ?t msgs ?rep = (msgs', r')" and st: "cq_state rep = cq_state r'"
    using assms(1) False by (auto simp: graduated_compact_def Let_def split: prod.splits)
  have heads: "run_tiers lc render g t m r = (m', r') \<Longrightarrow> take 2 m = [a, b] \<Longrightarrow> take 2 m' = [a, b]" for t m r m' r'
  proof (induction "5 - tier_rank t" arbitrary: t m r rule: less_induct)
    case less
    from less.prems(1) show ?case
    proof (cases rule: run_tiers_cases)
      case (further m1 r1 t')
      have "5 - tier_rank t' < 5 - tier_rank t" using further(2) by (cases t) auto
      then show ?thesis using less.hyps further(3) apply_heads [OF further(1) less.prems(2) assms(4,5)] by blast
    qed (use less.prems(2) assms(4,5) in \<open>auto dest: apply_heads\<close>)
  qed
  have kept: "filter Q msgs' = filter Q msgs" if "Q = is_interjection \<or> Q = state_message" "cq_state r' = None" for Q
    by (rule run_tiers_state [OF _ run, where P = "\<lambda>m. filter Q m = filter Q msgs"])
       (use that apply_marked [OF that(1) assms(2)] in auto)
  show ?thesis using heads [OF run assms(3)] kept st by simp
qed

definition demo_compactor :: compactor where
  "demo_compactor =
     \<lparr>gc_budget = \<lparr>bg_window = 0, bg_buffer = 0, bg_target_ratio = 0, bg_min_recent = 1, bg_sections = []\<rparr>,
      gc_summ = (\<lambda>_ _. Err ''ceiling''), gc_stamp = ''now'', gc_cancelled = False, gc_max_chars = 100,
      gc_tail_keep = 1, gc_previous = None, gc_behind = []\<rparr>"

definition demo_turn :: "chat_message list" where
  "demo_turn =
     [msg_system ''s'', msg_user ''q'', msg_user ''<user_interjection ts=now>stop</user_interjection>'',
      msg_user ''ok'', msg_assistant ''a'', msg_assistant ''b'', msg_user ''c'', msg_assistant ''d'']"

theorem compaction_keeps_witness:
  "cq_state (snd (graduated_compact (\<lambda>s. s) (\<lambda>_. []) demo_compactor demo_turn)) = None
   \<and> length (fst (graduated_compact (\<lambda>s. s) (\<lambda>_. []) demo_compactor demo_turn)) = 7
   \<and> filter is_interjection (fst (graduated_compact (\<lambda>s. s) (\<lambda>_. []) demo_compactor demo_turn))
       = [msg_user ''<user_interjection ts=now>stop</user_interjection>'']"
proof -
  obtain msgs' rep where g: "graduated_compact (\<lambda>s. s) (\<lambda>_. []) demo_compactor demo_turn = (msgs', rep)" by fastforce
  have 1: "cq_state (snd (graduated_compact (\<lambda>s. s) (\<lambda>_. []) demo_compactor demo_turn)) = None"
    "length (fst (graduated_compact (\<lambda>s. s) (\<lambda>_. []) demo_compactor demo_turn)) = 7"
    by code_simp+
  have "filter is_interjection demo_turn = [msg_user ''<user_interjection ts=now>stop</user_interjection>'']"
    by code_simp
  moreover have "filter is_interjection msgs' = filter is_interjection demo_turn"
    using compaction_keeps [OF g, of "msg_system ''s''" "msg_user ''q''"] 1(1) g
    by (simp add: keeps_angle_def demo_turn_def plain_def is_block_def msg_system_def msg_user_def msg_of_def
        BLOCK_PREFIX_def)
  ultimately show ?thesis using 1 g by simp
qed



section \<open>Tool results without their calls\<close>

text \<open>The call ids of tool messages that no assistant message before them made.\<close>

fun orphans :: "string list \<Rightarrow> chat_message list \<Rightarrow> string list" where
  "orphans ids [] = []"
| "orphans ids (m # ms) =
     (if cm_role m = RTool
      then (case cm_tool_call_id m of None \<Rightarrow> [] | Some i \<Rightarrow> if i \<in> set ids then [] else [i]) @ orphans ids ms
      else orphans ((case cm_tool_calls m of None \<Rightarrow> [] | Some tcs \<Rightarrow> map tc_id tcs) @ ids) ms)"

definition demo_round :: "string \<Rightarrow> chat_message list" where
  "demo_round i =
     [(msg_assistant '''')\<lparr>cm_tool_calls := Some [\<lparr>tc_id = i, tc_name = ''t'', tc_arguments = JNull\<rparr>]\<rparr>,
      tool_result i ''r'']"


end
