(* ===== verification/Loop_Config.thy ===== *)
theory Loop_Config
  imports Compaction Router_Ladder
begin

text \<open>
  What an agentic loop is configured with and what it ends with
  (\<open>runner/agentic_loop/config.rs\<close>, \<open>cost.rs\<close>, \<open>answer_guard.rs\<close>): the configuration built
  from the daemon's defaults and an agent's constraints, the shared cost accumulator, the result,
  and the words a turn or a lead is told a failure in. Money is a rational for \<open>f64\<close>; the
  callbacks of streaming and of events are only present or absent; the handles of the steering inbox
  and of the session log are part of the loop's state.
\<close>

section \<open>Configuration\<close>

record correction =
  co_note :: string
  co_runtime_note :: string

type_synonym answer_guard = "string \<Rightarrow> correction option"

record loop_config =
  lf_max_rounds :: nat
  lf_max_tools_per_round :: nat
  lf_max_tool_runtime :: nat  \<comment> \<open>seconds\<close>
  lf_max_cost :: rat
  lf_model :: "string option"
  lf_fallback_models :: "string list"
  lf_constraints :: "agent_constraints option"
  lf_max_context_tokens :: "32 word"
  lf_context_tail_keep :: nat
  lf_context_threshold :: rat
  lf_initial_tool_choice :: "tool_choice option"
  lf_enable_caching :: bool
  lf_thinking :: "thinking_config option"
  lf_streams :: bool
  lf_max_stream_duration :: nat
  lf_writer_max_chars :: nat
  lf_working_state :: "working_state option"
  lf_cursor :: "cursor option"
  lf_has_event_bus :: bool
  lf_ephemeral_pressure :: bool
  lf_span :: "string option"
  lf_inline_bytes :: nat
  lf_guard :: "answer_guard option"

definition DEFAULT_CONTEXT_THRESHOLD :: rat where
  "DEFAULT_CONTEXT_THRESHOLD = 6 / 10"

definition MAX_TOOL_RESULT_SIZE :: nat where
  "MAX_TOOL_RESULT_SIZE = 32 * 1024"

definition loop_config_default :: loop_config where
  "loop_config_default =
     \<lparr>lf_max_rounds = 15, lf_max_tools_per_round = 5, lf_max_tool_runtime = 60, lf_max_cost = 1,
      lf_model = None, lf_fallback_models = [], lf_constraints = None, lf_max_context_tokens = 0,
      lf_context_tail_keep = 4, lf_context_threshold = DEFAULT_CONTEXT_THRESHOLD,
      lf_initial_tool_choice = None, lf_enable_caching = True, lf_thinking = None, lf_streams = False,
      lf_max_stream_duration = 600, lf_writer_max_chars = 4000, lf_working_state = None, lf_cursor = None,
      lf_has_event_bus = False, lf_ephemeral_pressure = False,
      lf_span = None, lf_inline_bytes = MAX_TOOL_RESULT_SIZE, lf_guard = None\<rparr>"

record subagent =
  ag_id :: string
  ag_constraints :: agent_constraints
  ag_model :: "string option"
  ag_fallback_models :: "string list"

definition from_defaults ::
  "(string \<Rightarrow> string) \<Rightarrow> nat \<Rightarrow> nat \<Rightarrow> nat \<Rightarrow> rat \<Rightarrow> subagent \<Rightarrow> loop_config" where
  "from_defaults lc max_rounds max_tools runtime_secs max_cost agent =
     (let c = ag_constraints agent;
          model = (case ag_model agent of
                     None \<Rightarrow> None
                   | Some i \<Rightarrow> (case check_model_access lc (ag_id agent) i c of Inr _ \<Rightarrow> Some i | Inl _ \<Rightarrow> None))
      in loop_config_default
           \<lparr>lf_max_rounds := unwrap_or (ac_max_rounds c) max_rounds,
            lf_max_tools_per_round := max_tools,
            lf_max_tool_runtime := (case ac_timeout_seconds c of None \<Rightarrow> runtime_secs | Some s \<Rightarrow> unat s),
            lf_max_cost := unwrap_or (ac_max_cost_per_task c) max_cost,
            lf_model := model, lf_fallback_models := ag_fallback_models agent, lf_constraints := Some c\<rparr>)"

text \<open>\<open>AgentDefaults\<close> and \<open>LeadAgentDefaults\<close> share the four fields the loop takes.\<close>

record agent_defaults =
  ad_max_rounds :: nat
  ad_max_tools_per_round :: nat
  ad_max_tool_runtime_secs :: nat
  ad_max_cost :: rat

definition from_agent :: "(string \<Rightarrow> string) \<Rightarrow> agent_defaults \<Rightarrow> subagent \<Rightarrow> loop_config" where
  "from_agent lc d agent =
     from_defaults lc (ad_max_rounds d) (ad_max_tools_per_round d) (ad_max_tool_runtime_secs d) (ad_max_cost d) agent"

definition with_context_window :: "model_registry \<Rightarrow> string option \<Rightarrow> loop_config \<Rightarrow> loop_config" where
  "with_context_window reg model cfg =
     (if lf_max_context_tokens cfg = 0
      then (case model of
              None \<Rightarrow> cfg
            | Some i \<Rightarrow>
                (case get_model_info reg i of
                   None \<Rightarrow> cfg
                 | Some info \<Rightarrow>
                     if 0 < mi_context_window info
                     then cfg\<lparr>lf_max_context_tokens :=
                            of_nat (min (2 ^ 32 - 1) (as_usize (of_nat (unat (mi_context_window info))
                                                               * lf_context_threshold cfg)))\<rparr>
                     else cfg))
      else cfg)"

section \<open>The cost accumulator\<close>

text \<open>Micro-dollars in a 64-bit word. The cast saturates; the atomic addition wraps.\<close>

type_synonym cost_acc = "64 word"

definition acc_new :: cost_acc where
  "acc_new = 0"

text \<open>\<open>f64::round\<close>: halves go away from zero.\<close>

definition round_half_away :: "rat \<Rightarrow> int" where
  "round_half_away x = (if 0 \<le> x then \<lfloor>x + 1 / 2\<rfloor> else - \<lfloor>- x + 1 / 2\<rfloor>)"

definition micros_of :: "rat \<Rightarrow> nat" where
  "micros_of usd = min (2 ^ 64 - 1) (nat (max 0 (round_half_away (usd * 1000000))))"

definition add_usd :: "rat \<Rightarrow> cost_acc \<Rightarrow> cost_acc" where
  "add_usd usd a = a + of_nat (micros_of usd)"

definition total_usd :: "cost_acc \<Rightarrow> rat" where
  "total_usd a = of_nat (unat a) / 1000000"

section \<open>Results\<close>

datatype loop_finish = FComplete | FMaxRounds | FCostExceeded | FTruncated | FCancelled | FFailed string

record loop_result =
  lr_final_content :: string
  lr_rounds_used :: nat
  lr_input_tokens :: "32 word"
  lr_output_tokens :: "32 word"
  lr_tool_calls_made :: nat
  lr_finish :: loop_finish
  lr_model_used :: "string option"
  lr_estimated_cost :: rat
  lr_cap_spend :: rat
  lr_last_tool_error :: "string option"
  lr_working_state :: "(working_state \<times> nat) option"

fun finish_reason_str :: "loop_finish \<Rightarrow> string" where
  "finish_reason_str FComplete = ''complete''"
| "finish_reason_str FMaxRounds = ''max_rounds''"
| "finish_reason_str FCostExceeded = ''cost_exceeded''"
| "finish_reason_str FTruncated = ''truncated''"
| "finish_reason_str FCancelled = ''cancelled''"
| "finish_reason_str (FFailed _) = ''error''"

section \<open>Words\<close>

definition STOPPED_SHORT :: string where
  "STOPPED_SHORT = ''stopped before reaching an answer''"

definition HIT_COST_LIMIT :: string where
  "HIT_COST_LIMIT = ''hit its cost limit''"

definition APOS :: string where
  "APOS = [CHR 0x27]"

definition HIT_OUTPUT_LIMIT :: string where
  "HIT_OUTPUT_LIMIT = ''the reply hit the model'' @ APOS @ ''s output limit''"

definition rounds_spent :: "nat \<Rightarrow> string" where
  "rounds_spent n = ''after '' @ show_nat n @ '' tool '' @ (if n = 1 then ''round'' else ''rounds'')"

text \<open>\<open>{:.2}\<close> of a float: the exact value, halves to the even digit.\<close>

definition round_half_even :: "rat \<Rightarrow> int" where
  "round_half_even x =
     (let f = \<lfloor>x\<rfloor>; d = x - of_int f
      in if d < 1 / 2 then f else if 1 / 2 < d then f + 1 else if even f then f else f + 1)"

definition pad_zeros :: "nat \<Rightarrow> string \<Rightarrow> string" where
  "pad_zeros n s = replicate (n - length s) CHR ''0'' @ s"

definition show_fixed :: "nat \<Rightarrow> rat \<Rightarrow> string" where
  "show_fixed digits x =
     (let m = nat (round_half_even (\<bar>x\<bar> * 10 ^ digits))
      in (if x < 0 then ''-'' else []) @ show_nat (m div 10 ^ digits) @ ''.''
         @ pad_zeros digits (show_nat (m mod 10 ^ digits)))"

definition usd :: "rat \<Rightarrow> string" where
  "usd amount =
     (if 1 / 100 \<le> \<bar>amount\<bar> \<or> amount = 0 then ''$'' @ show_fixed 2 amount else ''$'' @ show_fixed 4 amount)"

definition TOOL_ERROR_MARK :: string where
  "TOOL_ERROR_MARK = ''[tool_error]''"

definition user_facing :: "string \<Rightarrow> string" where
  "user_facing err =
     (let e = trim err
      in if prefix TOOL_ERROR_MARK e then trim_start (drop (length TOOL_ERROR_MARK) e) else e)"

definition with_last_tool_error :: "string option \<Rightarrow> string \<Rightarrow> string" where
  "with_last_tool_error err reason =
     (case err of None \<Rightarrow> reason | Some e \<Rightarrow> reason @ '' The last tool error was: '' @ user_facing e)"

definition no_answer_line :: "loop_result \<Rightarrow> string option" where
  "no_answer_line r =
     (if trim (lr_final_content r) \<noteq> [] then None
      else map_option (with_last_tool_error (lr_last_tool_error r))
        (case lr_finish r of
           FCancelled \<Rightarrow> None
         | FMaxRounds \<Rightarrow> Some (''I stopped '' @ rounds_spent (lr_rounds_used r) @ '' without reaching an answer.'')
         | FCostExceeded \<Rightarrow> Some (''I '' @ STOPPED_SHORT @ '': this turn '' @ HIT_COST_LIMIT @ ''.'')
         | FTruncated \<Rightarrow> Some (''I '' @ STOPPED_SHORT @ '': '' @ HIT_OUTPUT_LIMIT @ ''.'')
         | FFailed e \<Rightarrow> Some (''I could not finish this turn: '' @ e)
         | FComplete \<Rightarrow> Some ''I finished this turn without writing an answer.''))"

section \<open>Errors a retry cannot change\<close>

definition ARROW :: string where
  "ARROW = [CHR 0xE2, CHR 0x86, CHR 0x92]"

definition BQ :: string where
  "BQ = [CHR 0x60]"

fun router_error_to_string :: "router_error \<Rightarrow> string" where
  "router_error_to_string (UnknownModel m) = ''Unknown model: '' @ m"
| "router_error_to_string (ProviderNotConfigured p) = ''Provider not configured: '' @ p"
| "router_error_to_string RAllKeysRateLimited = ''All keys are rate-limited for provider''"
| "router_error_to_string RNoApiCompatibleKeys =
     ''No API-compatible keys configured for provider (only managed/OAuth keys found)''"
| "router_error_to_string MaxRetriesExceeded = ''Max retries exceeded''"
| "router_error_to_string AllKeysRefused =
     ''The provider refused the API key on every attempt (authentication failed). Fix or replace the key ''
     @ EM_DASH @ '' Settings '' @ ARROW @ '' Models & keys in the GUI, or '' @ BQ @ ''openalpaca llm keys add'' @ BQ
     @ '' '' @ EM_DASH @ '' then try again.''"
| "router_error_to_string AllFallbacksFailed = ''All fallback models failed''"
| "router_error_to_string NoRoutableModel =
     ''No model is available: no enabled provider offers one. Turn one on '' @ EM_DASH @ '' Settings '' @ ARROW
     @ '' Models in the GUI, or '' @ BQ @ ''openalpaca config set ai.<provider>.enabled true'' @ BQ @ '' '' @ EM_DASH
     @ '' then '' @ BQ @ ''openalpaca llm status'' @ BQ
     @ '' says what is loaded. A local Ollama needs no API key, only '' @ BQ @ ''ollama pull <model>'' @ BQ @ ''.''"
| "router_error_to_string (NoFallbackAvailable m) = ''No fallback chain configured for model: '' @ m"
| "router_error_to_string (LlmFail e) = ''LLM error: '' @ llm_error_to_string e"

definition WHY_NO_MODEL :: string where
  "WHY_NO_MODEL =
     ''no model this agent can use is available '' @ EM_DASH
     @ '' a provider must be turned on, or the agent'' @ APOS @ ''s model changed, first''"

definition WHY_CREDENTIALS :: string where
  "WHY_CREDENTIALS =
     ''the provider refused the credentials '' @ EM_DASH @ '' the key must be fixed first''"

definition WHY_ACCESS :: string where
  "WHY_ACCESS = ''this agent may not use the model that answered''"

definition starts_like :: "string \<Rightarrow> router_error \<Rightarrow> bool" where
  "starts_like text e = prefix (router_error_to_string e) text"

definition reads_as :: "string \<Rightarrow> router_error \<Rightarrow> bool" where
  "reads_as text e = (text = router_error_to_string e)"

definition retry_cannot_help :: "string \<Rightarrow> string option" where
  "retry_cannot_help text =
     (if reads_as text NoRoutableModel \<or> starts_like text (UnknownModel []) \<or> starts_like text (ProviderNotConfigured [])
         \<or> reads_as text (LlmFail ENotConfigured)
      then Some WHY_NO_MODEL
      else if reads_as text AllKeysRefused \<or> reads_as text RNoApiCompatibleKeys
         \<or> starts_like text (LlmFail (EAuthenticationFailed [])) \<or> starts_like text (LlmFail (ETokenRefresh []))
         \<or> (\<exists>status\<in>{401, 403}. starts_like text (LlmFail (EApi status [])))
      then Some WHY_CREDENTIALS
      else if prefix ''Model access denied:'' text then Some WHY_ACCESS
      else None)"

definition ends_sentence :: "string \<Rightarrow> bool" where
  "ends_sentence s \<longleftrightarrow> s \<noteq> [] \<and> last s \<in> {CHR ''.'', CHR ''!'', CHR ''?''}"

definition quoted_agent :: "string \<Rightarrow> string" where
  "quoted_agent agent = ''Agent '' @ APOS @ agent @ APOS @ '' ''"

definition subagent_failure :: "string \<Rightarrow> rat \<Rightarrow> loop_result \<Rightarrow> string" where
  "subagent_failure agent max_cost r =
     with_last_tool_error (lr_last_tool_error r)
       (case lr_finish r of
          FMaxRounds \<Rightarrow>
            quoted_agent agent @ ''stopped '' @ rounds_spent (lr_rounds_used r) @ '' without reaching an answer.''
        | FCostExceeded \<Rightarrow>
            quoted_agent agent @ STOPPED_SHORT @ '': it '' @ HIT_COST_LIMIT @ '' of '' @ usd max_cost
            @ '' (it spent '' @ usd (lr_cap_spend r)
            @ ''). A retry will not help: every attempt has the same limit '' @ EM_DASH
            @ '' give the work a narrower objective, or do this part yourself.''
        | FTruncated \<Rightarrow> quoted_agent agent @ STOPPED_SHORT @ '': '' @ HIT_OUTPUT_LIMIT @ ''.''
        | FCancelled \<Rightarrow> quoted_agent agent @ ''was cancelled before it finished.''
        | FFailed e0 \<Rightarrow>
            (let e = trim_end e0
             in case retry_cannot_help e of
                  Some why \<Rightarrow>
                    quoted_agent agent @ ''could not finish: '' @ e @ (if ends_sentence e then [] else ''.'')
                    @ '' A retry will not help: '' @ why @ ''.''
                | None \<Rightarrow> quoted_agent agent @ ''could not finish: '' @ e)
        | FComplete \<Rightarrow> quoted_agent agent @ ''finished without writing an answer.'')"

section \<open>Laws\<close>

lemma digits_no_paren: "c \<in> set (show_nat n) \<Longrightarrow> c \<noteq> CHR '')''"
proof (induction n rule: show_nat.induct)
  case (1 n)
  have digit: "char_of (48 + k) \<noteq> CHR '')''" if "k < 10" for k :: nat
  proof
    assume "char_of (48 + k) = CHR '')''"
    then have "of_char (char_of (48 + k)) = (of_char CHR '')'' :: nat)" by simp
    then show False using that by (simp add: of_char_of)
  qed
  show ?case
  proof (cases "n < 10")
    case True
    then show ?thesis using 1(2) digit by (auto simp: show_nat.simps [of n])
  next
    case False
    then have "c \<in> set (show_nat (n div 10)) \<or> c = char_of (48 + n mod 10)"
      using 1(2) by (auto simp: show_nat.simps [of n])
    then show ?thesis using 1(1) False digit [of "n mod 10"] by auto
  qed
qed

lemma prefix_until:
  "c \<notin> set a \<Longrightarrow> c \<notin> set b \<Longrightarrow> prefix (a @ c # s) (b @ c # t) \<Longrightarrow> a = b"
proof (induction a arbitrary: b)
  case Nil
  then show ?case by (cases b) auto
next
  case (Cons x a)
  then show ?case by (cases b) auto
qed

lemma api_prefix:
  "starts_like (router_error_to_string (LlmFail (EApi s m))) (LlmFail (EApi n [])) \<longleftrightarrow> s = n"
proof
  assume "starts_like (router_error_to_string (LlmFail (EApi s m))) (LlmFail (EApi n []))"
  then have "prefix (show_nat n @ CHR '')'' # '': '') (show_nat s @ CHR '')'' # '': '' @ m)"
    by (simp add: starts_like_def)
  then have "show_nat n = show_nat s"
    by (rule prefix_until [rotated 2]) (use digits_no_paren in blast)+
  then show "s = n" using show_nat_inject by simp
qed (simp add: starts_like_def)

text \<open>The advice that a retry cannot help, which the code reads off an error's text, is right for the error's type. For every error of the router whose text is not led by a model's name, the text classifier answers exactly what the type calls for: no model, or an unknown or unconfigured one, asks for a provider to be turned on; refused credentials, in every form including HTTP 401 and 403 and no other status, ask for the key to be fixed; every other error, rate limits, overload and exhausted retries among them, leaves a retry open. A runtime refusal of the model is told as such.\<close>

theorem retry_advice_exact:
  "(\<forall>e. (\<forall>model n. e \<noteq> LlmFail (EEmptyCompletion model n)) \<longrightarrow>
      retry_cannot_help (router_error_to_string e) =
        (case e of
           NoRoutableModel \<Rightarrow> Some WHY_NO_MODEL
         | UnknownModel _ \<Rightarrow> Some WHY_NO_MODEL
         | ProviderNotConfigured _ \<Rightarrow> Some WHY_NO_MODEL
         | AllKeysRefused \<Rightarrow> Some WHY_CREDENTIALS
         | RNoApiCompatibleKeys \<Rightarrow> Some WHY_CREDENTIALS
         | LlmFail ENotConfigured \<Rightarrow> Some WHY_NO_MODEL
         | LlmFail (EAuthenticationFailed _) \<Rightarrow> Some WHY_CREDENTIALS
         | LlmFail (ETokenRefresh _) \<Rightarrow> Some WHY_CREDENTIALS
         | LlmFail (EApi status _) \<Rightarrow> if status = 401 \<or> status = 403 then Some WHY_CREDENTIALS else None
         | _ \<Rightarrow> None))
   \<and> (\<forall>why. retry_cannot_help (''Model access denied: '' @ why) = Some WHY_ACCESS)"
proof (intro conjI allI impI)
  fix why
  show "retry_cannot_help (''Model access denied: '' @ why) = Some WHY_ACCESS"
    by (simp add: retry_cannot_help_def reads_as_def starts_like_def)
next
  fix e
  assume ne: "\<forall>model n. e \<noteq> LlmFail (EEmptyCompletion model n)"
  show "retry_cannot_help (router_error_to_string e) =
        (case e of
           NoRoutableModel \<Rightarrow> Some WHY_NO_MODEL
         | UnknownModel _ \<Rightarrow> Some WHY_NO_MODEL
         | ProviderNotConfigured _ \<Rightarrow> Some WHY_NO_MODEL
         | AllKeysRefused \<Rightarrow> Some WHY_CREDENTIALS
         | RNoApiCompatibleKeys \<Rightarrow> Some WHY_CREDENTIALS
         | LlmFail ENotConfigured \<Rightarrow> Some WHY_NO_MODEL
         | LlmFail (EAuthenticationFailed _) \<Rightarrow> Some WHY_CREDENTIALS
         | LlmFail (ETokenRefresh _) \<Rightarrow> Some WHY_CREDENTIALS
         | LlmFail (EApi status _) \<Rightarrow> if status = 401 \<or> status = 403 then Some WHY_CREDENTIALS else None
         | _ \<Rightarrow> None)"
  proof (cases e)
    case (LlmFail x)
    show ?thesis
    proof (cases x)
      case (EApi s m)
      have "\<not> reads_as (router_error_to_string e) f" if "f \<in> {NoRoutableModel, LlmFail ENotConfigured, AllKeysRefused, RNoApiCompatibleKeys}" for f
        using that LlmFail EApi by (auto simp: reads_as_def)
      moreover have "\<not> starts_like (router_error_to_string e) f"
        if "f \<in> {UnknownModel [], ProviderNotConfigured [], LlmFail (EAuthenticationFailed []), LlmFail (ETokenRefresh [])}" for f
        using that LlmFail EApi by (auto simp: starts_like_def)
      moreover have "\<not> prefix ''Model access denied:'' (router_error_to_string e)" using LlmFail EApi by simp
      ultimately have "retry_cannot_help (router_error_to_string e)
          = (if \<exists>status\<in>{401, 403}. starts_like (router_error_to_string e) (LlmFail (EApi status []))
             then Some WHY_CREDENTIALS else None)"
        unfolding retry_cannot_help_def by auto
      then show ?thesis using LlmFail EApi api_prefix by auto
    qed (use LlmFail ne in \<open>simp_all add: retry_cannot_help_def reads_as_def starts_like_def\<close>)
  qed (simp_all add: retry_cannot_help_def reads_as_def starts_like_def EM_DASH_def ARROW_def BQ_def)
qed

theorem retry_advice_exact_witness:
  "retry_cannot_help (router_error_to_string (LlmFail (EApi 403 ''no''))) = Some WHY_CREDENTIALS
   \<and> retry_cannot_help (router_error_to_string (LlmFail (EApi 4030 ''no''))) = None
   \<and> retry_cannot_help (router_error_to_string MaxRetriesExceeded) = None"
proof -
  note r = conjunct1 [OF retry_advice_exact, rule_format]
  show ?thesis
    using r [of "LlmFail (EApi 403 ''no'')"] r [of "LlmFail (EApi 4030 ''no'')"] r [of MaxRetriesExceeded] by simp
qed

lemma micros_close:
  assumes "0 \<le> u" "micros_of u < 2 ^ 64 - 1"
  shows "\<bar>of_nat (micros_of u) - u * 1000000\<bar> \<le> 1 / 2"
proof -
  define x where "x = u * 1000000"
  have x: "0 \<le> x" using assms(1) by (simp add: x_def)
  then have r: "round_half_away x = \<lfloor>x + 1 / 2\<rfloor>" "0 \<le> \<lfloor>x + 1 / 2\<rfloor>" by (simp_all add: round_half_away_def)
  have "micros_of u = nat \<lfloor>x + 1 / 2\<rfloor>"
    using assms(2) r unfolding micros_of_def x_def [symmetric] by (simp add: min_def split: if_splits)
  then have "(of_nat (micros_of u) :: rat) = of_int \<lfloor>x + 1 / 2\<rfloor>" using r(2) by simp
  moreover have "of_int \<lfloor>x + 1 / 2\<rfloor> \<le> x + 1 / 2" by (rule of_int_floor_le)
  moreover have "x + 1 / 2 < of_int \<lfloor>x + 1 / 2\<rfloor> + 1" by linarith
  ultimately show ?thesis unfolding x_def [symmetric] abs_le_iff by linarith
qed

lemma unat_fold_add:
  "unat a + sum_list (map micros_of us) < 2 ^ 64
   \<Longrightarrow> unat (fold add_usd us a) = unat a + sum_list (map micros_of us)"
proof (induction us arbitrary: a)
  case (Cons u us)
  have small: "unat a + micros_of u < 2 ^ 64" "micros_of u < 2 ^ 64" using Cons.prems by simp_all
  have m: "unat (of_nat (micros_of u) :: 64 word) = micros_of u"
    using small(2) by (simp add: unat_of_nat take_bit_nat_eq_self)
  have "unat (add_usd u a) = unat a + micros_of u"
    unfolding add_usd_def using small m by (simp add: unat_add_lem [THEN iffD1])
  then show ?case using Cons.IH [of "add_usd u a"] Cons.prems by simp
qed simp

text \<open>The shared cost accumulator counts every delta to the nearest micro-dollar, whoever adds it. As long as its 64-bit counter does not overflow, any sequence of non-negative deltas reads back within half a micro-dollar per delta of its true sum. At the top of the range one delta saturates but the next one wraps the counter around, so the total reads as nothing spent, which the doc comment (it saturates) rules out.\<close>

theorem accumulator_exact:
  "(\<forall>us. (\<forall>u\<in>set us. 0 \<le> u) \<longrightarrow> sum_list (map micros_of us) < 2 ^ 64 - 1 \<longrightarrow>
      \<bar>total_usd (fold add_usd us acc_new) - sum_list us\<bar> \<le> of_nat (length us) / 2000000)
   \<and> total_usd (add_usd (1 / 1000000) (add_usd 20000000000000 acc_new)) = 0"
proof (intro conjI allI impI)
  fix us :: "rat list"
  assume nn: "\<forall>u\<in>set us. 0 \<le> u" and small: "sum_list (map micros_of us) < 2 ^ 64 - 1"
  have "\<bar>of_nat (sum_list (map micros_of us)) - sum_list us * 1000000\<bar> \<le> of_nat (length us) / 2"
    using nn small
  proof (induction us)
    case (Cons u us)
    have "\<bar>of_nat (micros_of u) - u * 1000000\<bar> \<le> 1 / 2" using Cons.prems by (intro micros_close) simp_all
    moreover have "\<bar>of_nat (sum_list (map micros_of us)) - sum_list us * 1000000\<bar> \<le> of_nat (length us) / 2"
      using Cons by simp
    moreover have "of_nat (sum_list (map micros_of (u # us))) = (of_nat (micros_of u) + of_nat (sum_list (map micros_of us)) :: rat)"
      "sum_list (u # us) * 1000000 = u * 1000000 + sum_list us * 1000000" "(of_nat (length (u # us)) :: rat) = 1 + of_nat (length us)"
      by (simp_all add: algebra_simps)
    ultimately show ?case unfolding abs_le_iff by linarith
  qed simp
  moreover have "total_usd (fold add_usd us acc_new) = of_nat (sum_list (map micros_of us)) / 1000000"
    using unat_fold_add [of acc_new us] small by (simp add: total_usd_def acc_new_def)
  ultimately show "\<bar>total_usd (fold add_usd us acc_new) - sum_list us\<bar> \<le> of_nat (length us) / 2000000"
    unfolding abs_le_iff by linarith
next
  have "\<lfloor>40000000000000000001 / 2 :: rat\<rfloor> = 20000000000000000000" "\<lfloor>3 / 2 :: rat\<rfloor> = 1" by (rule floor_unique; simp)+
  then have "micros_of 20000000000000 = 2 ^ 64 - 1" "micros_of (1 / 1000000) = 1"
    by (simp_all add: micros_of_def round_half_away_def)
  then show "total_usd (add_usd (1 / 1000000) (add_usd 20000000000000 acc_new)) = 0"
    by (simp add: total_usd_def add_usd_def acc_new_def)
qed

theorem accumulator_exact_witness:
  "\<bar>total_usd (fold add_usd [1 / 4, 1 / 8] acc_new) - 3 / 8\<bar> \<le> 1 / 1000000"
proof -
  have "\<lfloor>500001 / 2 :: rat\<rfloor> = 250000" "\<lfloor>250001 / 2 :: rat\<rfloor> = 125000" by (rule floor_unique; simp)+
  then have "sum_list (map micros_of [1 / 4, 1 / 8]) < 2 ^ 64 - 1"
    by (simp add: micros_of_def round_half_away_def)
  then have "\<bar>total_usd (fold add_usd [1 / 4, 1 / 8] acc_new) - sum_list [1 / 4, 1 / 8]\<bar>
      \<le> of_nat (length [1 / 4, 1 / 8 :: rat]) / 2000000"
    by (intro conjunct1 [OF accumulator_exact, rule_format]) auto
  then show ?thesis by simp
qed

end
