(* ===== verification/Agentic_Loop.thy ===== *)
theory Agentic_Loop
  imports Loop_Config Sandbox
begin

text \<open>
  The agentic loop (\<open>runner/agentic_loop/mod.rs\<close>): rounds of one model call each, with its
  cancellation, round and cost checks, compaction, steering, tool execution through the sandbox,
  the answer guard, retries, and the record of it all in the session log. Each numbered step of the
  code is one definition, composed with the code's early returns.

  What the awaits bring back is a record of functions of an arbitrary world: what the token, the
  cost tracker, the summariser, the model and the sandbox answer, and what other tasks do to the
  steering inbox and the shared cost accumulator meanwhile. A model call can be answered, be
  interrupted by the token, or never return. The ghost fields record requests and deliveries.
\<close>

section \<open>Environment and state\<close>

record loop_request =
  lq_messages :: "chat_message list"
  lq_tools :: "tool_definition list"
  lq_model :: "string option"
  lq_tool_choice :: "tool_choice option"
  lq_tools_estimate :: "32 word option"
  lq_caching :: bool
  lq_thinking :: "thinking_config option"
  lq_context_management :: "context_management option"
  lq_notice :: "string option"

datatype 'a awaited = Came 'a | Interrupted | Hung

record 'w loop_env =
  en_cancelled :: "'w \<Rightarrow> bool"
  en_agent_cost :: "32 word \<Rightarrow> 32 word \<Rightarrow> 'w \<Rightarrow> rat"
  en_others_spend :: "'w \<Rightarrow> rat list"
  en_others :: "'w \<Rightarrow> inbox_op list"
  en_summarize :: "'w \<Rightarrow> summarizer"
  en_summary_cancelled :: "'w \<Rightarrow> bool"
  en_stamp :: "'w \<Rightarrow> string"
  en_complete :: "loop_request \<Rightarrow> 'w \<Rightarrow> (router_error, chat_response) res awaited"
  en_tool :: "'w \<Rightarrow> nat \<Rightarrow> Sandbox.world \<times> sandbox"
  en_batch_cancelled :: "'w \<Rightarrow> bool"
  en_backoff_cancelled :: "'w \<Rightarrow> bool"
  en_fresh_tag :: "'w \<Rightarrow> string"
  en_next :: "'w \<Rightarrow> 'w"

record loop_setup =
  su_config :: loop_config
  su_tools :: "tool_definition list"
  su_registry :: "registry option"  \<comment> \<open>the sandbox's, when there is a sandbox\<close>
  su_policy :: "sandbox_policy option"
  su_agent_id :: string
  su_task_id :: "string option"
  su_budget :: "context_budget option"
  su_context :: "tool_context option"
  su_routed :: bool  \<comment> \<open>the backend is the router\<close>
  su_extension :: "string \<Rightarrow> tool_ext"

datatype loop_event =
    EvAccessDenied string string string
  | EvCompaction nat nat nat nat

record 'w loop_state =
  ls_world :: 'w
  ls_messages :: "chat_message list"
  ls_rounds :: nat
  ls_input :: "32 word"
  ls_output :: "32 word"
  ls_tool_calls :: nat
  ls_content :: string
  ls_model :: "string option"
  ls_token_retries :: nat
  ls_last_cost :: rat
  ls_cap_spend :: rat
  ls_last_tool_error :: "string option"
  ls_working_state :: "(working_state \<times> nat) option"
  ls_llm_errors :: nat
  ls_steering_bonus :: nat
  ls_guard_corrections :: nat
  ls_guard_bonus :: nat
  ls_dropped_tokens :: nat
  ls_pending :: "steering_msg list"
  ls_acc :: cost_acc
  ls_inbox :: "inbox option"
  ls_log :: "session_log option"
  ls_events :: "loop_event list"
  ls_requests :: "(rat \<times> loop_request) list"  \<comment> \<open>every request to the model, with the spend checked before it\<close>
  ls_arrived :: "steering_msg list"  \<comment> \<open>what others pushed and the inbox accepted\<close>
  ls_delivered :: "steering_msg list"  \<comment> \<open>drained and in a request the model answered\<close>

datatype 'w loop_flow = Ends loop_result "'w loop_state" | Goes "'w loop_state" | Hangs

definition MAX_TOKENS_RETRIES :: nat where
  "MAX_TOKENS_RETRIES = 2"

definition LAST_TOOL_ERROR_MAX_BYTES :: nat where
  "LAST_TOOL_ERROR_MAX_BYTES = 600"

definition STEERING_ROUNDS_BONUS :: nat where
  "STEERING_ROUNDS_BONUS = 5"

definition MAX_LLM_RETRIES :: nat where
  "MAX_LLM_RETRIES = 3"

section \<open>Results and records\<close>

definition result_with_content :: "string \<Rightarrow> loop_finish \<Rightarrow> 'w loop_state \<Rightarrow> loop_result" where
  "result_with_content content fin s =
     \<lparr>lr_final_content = content, lr_rounds_used = ls_rounds s, lr_input_tokens = ls_input s,
      lr_output_tokens = ls_output s, lr_tool_calls_made = ls_tool_calls s, lr_finish = fin,
      lr_model_used = ls_model s, lr_estimated_cost = ls_last_cost s, lr_cap_spend = ls_cap_spend s,
      lr_last_tool_error = ls_last_tool_error s, lr_working_state = ls_working_state s\<rparr>"

definition result :: "loop_finish \<Rightarrow> 'w loop_state \<Rightarrow> loop_result" where
  "result fin s = result_with_content (ls_content s) fin s"

definition record_of :: "loop_setup \<Rightarrow> record_type \<Rightarrow> log_data \<Rightarrow> (string \<times> string) option \<Rightarrow> log_record" where
  "record_of u kind d spill =
     \<lparr>lr_kind = kind, lr_task = su_task_id u, lr_span = lf_span (su_config u), lr_agent = Some (su_agent_id u),
      lr_data = d, lr_spill = spill\<rparr>"

definition log_event :: "loop_setup \<Rightarrow> record_type \<Rightarrow> log_data \<Rightarrow> 'w loop_state \<Rightarrow> 'w loop_state" where
  "log_event u kind d s =
     (case ls_log s of
        None \<Rightarrow> s
      | Some lg \<Rightarrow> s\<lparr>ls_log := Some (snd (emit (record_of u kind d None) lg))\<rparr>)"

definition log_spill_event ::
  "loop_setup \<Rightarrow> log_data \<Rightarrow> (string \<times> string) option \<Rightarrow> 'w loop_state \<Rightarrow> bool \<times> 'w loop_state" where
  "log_spill_event u d spill s =
     (case ls_log s of
        None \<Rightarrow> (False, s)
      | Some lg \<Rightarrow>
          (case emit (record_of u ToolResult d spill) lg of (ok, lg') \<Rightarrow> (ok, s\<lparr>ls_log := Some lg'\<rparr>)))"

definition publish_event :: "loop_setup \<Rightarrow> loop_event \<Rightarrow> 'w loop_state \<Rightarrow> 'w loop_state" where
  "publish_event u e s =
     (if lf_has_event_bus (su_config u) then s\<lparr>ls_events := ls_events s @ [e]\<rparr> else s)"

section \<open>Steering\<close>

text \<open>What other tasks did to the inbox since the loop last touched it.\<close>

definition meanwhile :: "'w loop_env \<Rightarrow> 'w loop_state \<Rightarrow> 'w loop_state" where
  "meanwhile en s =
     (case ls_inbox s of
        None \<Rightarrow> s\<lparr>ls_world := en_next en (ls_world s)\<rparr>
      | Some ib \<Rightarrow>
          (case inbox_run (en_others en (ls_world s)) ib of
             (t, ib') \<Rightarrow>
               s\<lparr>ls_inbox := Some ib', ls_arrived := ls_arrived s @ it_accepted t,
                 ls_world := en_next en (ls_world s)\<rparr>))"

definition return_pending_steering :: "'w loop_env \<Rightarrow> 'w loop_state \<Rightarrow> 'w loop_state" where
  "return_pending_steering en s0 =
     (let s = meanwhile en s0
      in case ls_inbox s of
           None \<Rightarrow> s
         | Some ib \<Rightarrow>
             if ls_pending s = [] then s
             else s\<lparr>ls_inbox := Some (push_front_all (ls_pending s) ib), ls_pending := []\<rparr>)"

definition user_interjections :: "steering_msg list \<Rightarrow> chat_message list" where
  "user_interjections ms = map (\<lambda>m. msg_user (to_interjection m)) ms"

text \<open>The drain at the round boundary.\<close>

definition steering_drain :: "'w loop_env \<Rightarrow> loop_setup \<Rightarrow> 'w loop_state \<Rightarrow> 'w loop_state" where
  "steering_drain en u s0 =
     (let s = meanwhile en s0
      in case ls_inbox s of
           None \<Rightarrow> s
         | Some ib \<Rightarrow>
             (case drain_all ib of
                (drained, ib') \<Rightarrow>
                  if drained = [] then s\<lparr>ls_inbox := Some ib'\<rparr>
                  else let s1 = log_event u SteeringDrained
                                  (DDrained ''round_boundary'' (ls_rounds s) (length drained) (map sm_request_id drained))
                                  (s\<lparr>ls_inbox := Some ib',
                                     ls_steering_bonus := ls_steering_bonus s + STEERING_ROUNDS_BONUS\<rparr>)
                       in s1\<lparr>ls_messages := ls_messages s1 @ user_interjections drained,
                             ls_pending := ls_pending s1 @ drained\<rparr>))"

section \<open>The checks\<close>

definition effective_max_rounds :: "loop_setup \<Rightarrow> 'w loop_state \<Rightarrow> nat" where
  "effective_max_rounds u s =
     min (lf_max_rounds (su_config u) + ls_steering_bonus s + ls_guard_bonus s) (2 * lf_max_rounds (su_config u))"

definition charge :: "'w loop_env \<Rightarrow> 'w loop_state \<Rightarrow> 'w loop_state" where
  "charge en s =
     (let round_cost = en_agent_cost en (ls_input s) (ls_output s) (ls_world s);
          delta = max (round_cost - ls_last_cost s) 0;
          acc0 = fold add_usd (en_others_spend en (ls_world s)) (ls_acc s);
          acc = (if 0 < delta then add_usd delta acc0 else acc0)
      in s\<lparr>ls_acc := acc, ls_last_cost := round_cost, ls_cap_spend := total_usd acc\<rparr>)"

definition pressure_notice :: "loop_setup \<Rightarrow> 'w loop_state \<Rightarrow> string option" where
  "pressure_notice u s =
     (let cfg = su_config u;
          cost_ratio = ls_cap_spend s / lf_max_cost cfg;
          rounds_ratio = of_nat (ls_rounds s) / max (of_nat (lf_max_rounds cfg)) 1;
          percent = (\<lambda>x. show_nat (min (2 ^ 32 - 1) (nat (max 0 (round_half_away (x * 100))))))
      in if lf_ephemeral_pressure cfg \<and> 8 / 10 \<le> max cost_ratio rounds_ratio
         then Some (''[budget_notice]'' @ NL
           @ ''Budget status: '' @ show_nat (ls_rounds s) @ ''/'' @ show_nat (lf_max_rounds cfg) @ '' rounds (''
           @ percent rounds_ratio @ ''%), $'' @ show_fixed 2 (ls_cap_spend s) @ ''/$'' @ show_fixed 2 (lf_max_cost cfg)
           @ '' spent ('' @ percent cost_ratio @ ''%).'' @ NL
           @ ''Prefer concluding the current task over opening new tool calls. ''
           @ ''If you need more than 2 additional tool calls to finish, ''
           @ ''summarize the partial result instead.'' @ NL @ ''[/budget_notice]'')
         else None)"

section \<open>Compaction\<close>

definition state_through :: "loop_setup \<Rightarrow> compaction_report \<Rightarrow> 'w loop_state \<Rightarrow> int option" where
  "state_through u rep s =
     (case (cq_state rep, ls_working_state s, lf_cursor (su_config u)) of
        (Some _, Some (_, edge), Some c) \<Rightarrow> Some (cursor_after edge c)
      | _ \<Rightarrow> None)"

definition compaction_step ::
  "(string \<Rightarrow> string) \<Rightarrow> (json \<Rightarrow> string) \<Rightarrow> 'w loop_env \<Rightarrow> loop_setup \<Rightarrow> 'w loop_state \<Rightarrow> 'w loop_state" where
  "compaction_step lc render en u s =
     (let cfg = su_config u; tokens = unat (estimate_messages_tokens render (ls_messages s))
      in case su_budget u of
           None \<Rightarrow> s
         | Some b \<Rightarrow>
             if \<not> should_compact b tokens then s
             else
               let (previous, behind) =
                     (case ls_working_state s of
                        Some (st, _) \<Rightarrow> (Some st, [])
                      | None \<Rightarrow> (lf_working_state cfg, (case lf_cursor cfg of None \<Rightarrow> [] | Some c \<Rightarrow> cu_behind c)));
                   w = ls_world s;
                   g = \<lparr>gc_budget = b, gc_summ = en_summarize en w, gc_stamp = en_stamp en w,
                        gc_cancelled = en_summary_cancelled en w, gc_max_chars = lf_writer_max_chars cfg,
                        gc_tail_keep = lf_context_tail_keep cfg, gc_previous = previous, gc_behind = behind\<rparr>;
                   (msgs, rep) = graduated_compact lc render g (ls_messages s);
                   wst = (case cq_state rep of
                            None \<Rightarrow> ls_working_state s
                          | Some (st, edge) \<Rightarrow>
                              Some (st, case ls_working_state s of None \<Rightarrow> edge | Some (_, e) \<Rightarrow> max edge e));
                   dropped = ls_dropped_tokens s + (cq_initial rep - cq_final rep);
                   s1 = s\<lparr>ls_messages := msgs, ls_working_state := wst, ls_dropped_tokens := dropped,
                          ls_world := en_next en w\<rparr>;
                   s2 = log_event u Compaction
                          (DCompaction (compaction_tier_for b tokens) (cq_initial rep) (cq_final rep)
                            (cq_before rep) (cq_after rep) (cq_discarded rep) (cq_tiers rep)
                            (map_option fst (cq_state rep)) (state_through u rep s1) dropped) s1
               in publish_event u
                    (EvCompaction (cq_before rep) (cq_after rep) (cq_discarded rep) (cq_initial rep - cq_final rep)) s2)"

section \<open>The request\<close>

definition SHELL_TIMEOUT_SECS :: nat where
  "SHELL_TIMEOUT_SECS = 300"

text \<open>\<open>WHAT_A_COMMAND_MAY_HOLD\<close> and \<open>shell_execute_description\<close> of \<open>tools/builtins/shell_execute.rs\<close>.\<close>

definition WHAT_A_COMMAND_MAY_HOLD :: string where
  "WHAT_A_COMMAND_MAY_HOLD =
     ''One command line: '' @ BQ @ '';'' @ BQ @ '', '' @ BQ @ ''&&'' @ BQ @ '', '' @ BQ @ ''||'' @ BQ
     @ '', pipes and redirections are allowed; command substitution ('' @ BQ @ ''$('' @ [CHR 0xE2, CHR 0x80, CHR 0xA6]
     @ '')'' @ BQ @ '' or backticks) and line breaks are refused.''"

definition shell_execute_description :: "nat option \<Rightarrow> string" where
  "shell_execute_description timeout_secs =
     ''Run a shell command and return its output. The command starts in the working folder '' @ EM_DASH
     @ '' the project, or this conversation'' @ APOS @ ''s scratch folder '' @ EM_DASH
     @ '' and every command asks first; an approved command runs as you and can reach files outside that folder. ''
     @ WHAT_A_COMMAND_MAY_HOLD @ '' ''
     @ (case timeout_secs of
          Some n \<Rightarrow>
            if n = 1 then ''A command still running after 1 second is stopped, with every process it started.''
            else ''A command still running after '' @ show_nat n
                 @ '' seconds is stopped, with every process it started.''
        | None \<Rightarrow>
            ''A command still running at the calling agent'' @ APOS
            @ ''s time limit is stopped, with every process it started.'')
     @ '' Output is truncated to 512KB. Use for system operations, package management, git commands, ''
     @ ''build tools, and any operations not covered by other tools.''"

definition state_enforced_timeout :: "nat \<Rightarrow> tool_definition list \<Rightarrow> tool_definition list" where
  "state_enforced_timeout sandbox_secs tools =
     (let secs = min sandbox_secs SHELL_TIMEOUT_SECS
      in map (\<lambda>d. if td_name d = ''shell_execute''
                   then d\<lparr>td_description := shell_execute_description (Some secs)\<rparr> else d) tools)"

definition loop_tools :: "loop_setup \<Rightarrow> tool_definition list" where
  "loop_tools u =
     (case su_policy u of
        None \<Rightarrow> su_tools u
      | Some p \<Rightarrow> state_enforced_timeout (unat (sp_max_tool_runtime_secs p)) (su_tools u))"

definition build_request :: "(json \<Rightarrow> string) \<Rightarrow> loop_setup \<Rightarrow> string option \<Rightarrow> 'w loop_state \<Rightarrow> loop_request" where
  "build_request render u notice s =
     (let cfg = su_config u
      in \<lparr>lq_messages = ls_messages s, lq_tools = loop_tools u, lq_model = lf_model cfg,
          lq_tool_choice = (if ls_rounds s = 0 then lf_initial_tool_choice cfg else None),
          lq_tools_estimate = (if su_routed u then Some (of_nat (estimate_tools_tokens render (loop_tools u))) else None),
          lq_caching = lf_enable_caching cfg, lq_thinking = lf_thinking cfg,
          lq_context_management =
            map_option (\<lambda>b. cm_from_budget (compaction_trigger b) 5 2) (su_budget u),
          lq_notice = notice\<rparr>)"

section \<open>Tool results\<close>

definition model_visible_result ::
  "loop_setup \<Rightarrow> string \<Rightarrow> bool \<Rightarrow> string option \<Rightarrow> bool \<Rightarrow> string" where
  "model_visible_result u text ok spill_ref command =
     (let limit = lf_inline_bytes (su_config u)
      in if \<not> ok then head_tail text limit
         else case spill_ref of
                Some rel \<Rightarrow>
                  if command then command_spill_stub text limit rel
                  else spill_stub (length text) (spill_preview text) rel
              | None \<Rightarrow> truncate_tool_result_to text limit)"

definition spill_plan ::
  "'w loop_env \<Rightarrow> loop_setup \<Rightarrow> tool_call \<Rightarrow> string \<Rightarrow> 'w loop_state \<Rightarrow> (string \<times> string) option \<times> 'w loop_state" where
  "spill_plan en u tc text s =
     (if length text \<le> lf_inline_bytes (su_config u) then (None, s)
      else case ls_log s of
             None \<Rightarrow> (None, s)
           | Some lg \<Rightarrow>
               (case reserve_spill (en_fresh_tag en (ls_world s)) (tc_name tc) (tc_id tc) lg of
                  (rel, lg') \<Rightarrow> (Some (rel, text), s\<lparr>ls_log := Some lg'\<rparr>)))"

definition tool_extension :: "loop_setup \<Rightarrow> string \<Rightarrow> tool_ext" where
  "tool_extension u name = (if su_registry u = None then None else su_extension u name)"

definition is_command :: "loop_setup \<Rightarrow> string \<Rightarrow> bool" where
  "is_command u name = (case su_registry u of None \<Rightarrow> False | Some reg \<Rightarrow> is_command_tool reg name)"

text \<open>The record of a result: the bytes travel once, in the spill when there is one.\<close>

definition result_record :: "loop_setup \<Rightarrow> tool_call \<Rightarrow> string \<Rightarrow> bool \<Rightarrow> bool \<Rightarrow> log_data" where
  "result_record u tc text ok spilled =
     DToolResult (tc_id tc) (tc_name tc) ok
       (if ok then None else if spilled then Some (spill_preview text) else Some text)
       (if spilled then None else Some text)
       (if spilled \<and> ok \<and> is_command u (tc_name tc) then Some (lf_inline_bytes (su_config u)) else None)
       (tool_extension u (tc_name tc))"

definition take_result ::
  "'w loop_env \<Rightarrow> loop_setup \<Rightarrow> tool_call \<times> string \<times> bool \<Rightarrow> 'w loop_state \<Rightarrow> 'w loop_state" where
  "take_result en u r s =
     (case r of
        (tc, text, failed) \<Rightarrow>
          (let ok = \<not> failed;
               s1 = s\<lparr>ls_tool_calls := ls_tool_calls s + 1,
                      ls_last_tool_error := (if ok then ls_last_tool_error s
                        else Some (truncate_tool_result_to text LAST_TOOL_ERROR_MAX_BYTES))\<rparr>
           in case spill_plan en u tc text s1 of
                (spill, s2) \<Rightarrow>
                  (case log_spill_event u (result_record u tc text ok (spill \<noteq> None)) spill s2 of
                     (emitted, s3) \<Rightarrow>
                       (let shown = model_visible_result u text ok
                              (if emitted then map_option fst spill else None) (is_command u (tc_name tc))
                        in s3\<lparr>ls_messages := ls_messages s3
                                 @ [if ok then tool_result (tc_id tc) shown else tool_error (tc_id tc) shown]\<rparr>))))"

section \<open>Tool execution\<close>

definition effective_context :: "loop_setup \<Rightarrow> 'w loop_state \<Rightarrow> tool_context" where
  "effective_context u s =
     (case su_context u of
        Some cx \<Rightarrow> cx
      | None \<Rightarrow> \<lparr>cx_agent_id = Some (su_agent_id u), cx_agent_instance_id = None, cx_task_id = None,
                 cx_session_id = None, cx_has_event_bus = False, cx_human_approval = None,
                 cx_human_denial = None\<rparr>)
       \<lparr>cx_session_id := map_option sl_session_id (ls_log s)\<rparr>"

text \<open>
  One call of the batch. The calls of a batch run together, so each meets the sandbox in some
  state the environment chooses. A dropped call is the loop itself dropped.
\<close>

definition run_call ::
  "(string \<Rightarrow> string) \<Rightarrow> (json \<Rightarrow> 64 word) \<Rightarrow> loop_setup \<Rightarrow> tool_context \<Rightarrow> tool_call \<Rightarrow> Sandbox.world \<times> sandbox
   \<Rightarrow> (string \<times> bool) option" where
  "run_call lc hash u cx tc ws =
     (case (su_registry u, su_policy u) of
        (Some _, Some p) \<Rightarrow>
          (case fst (execute_tool lc hash tc p cx (fst ws) (snd ws)) of
             None \<Rightarrow> None
           | Some (Inr output) \<Rightarrow> Some (output, False)
           | Some (Inl err) \<Rightarrow> Some (format_tool_error err, True))
      | _ \<Rightarrow>
          Some (format_tool_error (''tool '' @ APOS @ tc_name tc @ APOS @ '' not available '' @ EM_DASH
                  @ '' sandbox not configured''), True))"

fun run_batch ::
  "(string \<Rightarrow> string) \<Rightarrow> (json \<Rightarrow> 64 word) \<Rightarrow> loop_setup \<Rightarrow> tool_context \<Rightarrow> (nat \<Rightarrow> Sandbox.world \<times> sandbox) \<Rightarrow> nat
   \<Rightarrow> tool_call list \<Rightarrow> (tool_call \<times> string \<times> bool) list option" where
  "run_batch lc hash u cx ws i [] = Some []"
| "run_batch lc hash u cx ws i (tc # tcs) =
     (case run_call lc hash u cx tc (ws i) of
        None \<Rightarrow> None
      | Some r \<Rightarrow> map_option (\<lambda>rs. (tc, r) # rs) (run_batch lc hash u cx ws (Suc i) tcs))"

definition refusal :: "string \<Rightarrow> tool_call \<Rightarrow> chat_message" where
  "refusal reason tc = tool_error (tc_id tc) (format_tool_error reason)"

definition split_calls :: "loop_setup \<Rightarrow> nat \<Rightarrow> tool_call list \<Rightarrow> tool_call list \<times> tool_call list \<times> tool_call list" where
  "split_calls u made calls =
     (let k = min (length calls) (lf_max_tools_per_round (su_config u));
          now = take k calls
      in case su_policy u of
           None \<Rightarrow> (now, [], drop k calls)
         | Some p \<Rightarrow>
             (case sp_max_tool_calls p of
                None \<Rightarrow> (now, [], drop k calls)
              | Some m \<Rightarrow> (let left = unat m - made in (take left now, drop left now, drop k calls))))"

definition execute_tools ::
  "(string \<Rightarrow> string) \<Rightarrow> (json \<Rightarrow> 64 word) \<Rightarrow> 'w loop_env \<Rightarrow> loop_setup \<Rightarrow> chat_response \<Rightarrow> 'w loop_state \<Rightarrow> 'w loop_flow" where
  "execute_tools lc hash en u r s =
     (let s1 = s\<lparr>ls_messages := ls_messages s @ [assistant_with_tools r]\<rparr>
      in case split_calls u (ls_tool_calls s1) (rs_tool_calls r) of
           (executable, over_budget, overflow) \<Rightarrow>
             (let s2 = fold (\<lambda>tc. log_event u ToolCall
                               (DToolCall (tc_id tc) (tc_name tc) (tc_arguments tc) (tool_extension u (tc_name tc))))
                         executable s1;
                  w = ls_world s2
              in if en_batch_cancelled en w then Ends (result FCancelled s2) s2
                 else case run_batch lc hash u (effective_context u s2) (en_tool en w) 0 executable of
                        None \<Rightarrow> Hangs
                      | Some rs \<Rightarrow>
                          (let s3 = fold (take_result en u) rs (s2\<lparr>ls_world := en_next en w\<rparr>)
                           in Goes (s3\<lparr>ls_messages := ls_messages s3
                                 @ map (refusal (''max_tool_calls limit reached '' @ EM_DASH
                                          @ '' no more tool calls allowed'')) over_budget
                                 @ map (refusal ''max tools per round exceeded'') overflow,
                               ls_token_retries := 0\<rparr>))))"

section \<open>The answer\<close>

definition round_context :: "loop_setup \<Rightarrow> nat \<Rightarrow> (nat \<times> nat \<times> nat \<times> nat \<times> nat) option" where
  "round_context u tokens =
     map_option (\<lambda>b.
       let size_of = (\<lambda>name. unwrap_or (map_of (rev (section_breakdown b)) name) 0)
       in (bg_window b, size_of ''system_prompt'', size_of ''tools'', tokens, free_zone_capacity b)) (su_budget u)"

text \<open>Usage is recorded before the model's right to answer is checked.\<close>

definition record_answer :: "chat_response \<Rightarrow> 'w loop_state \<Rightarrow> 'w loop_state" where
  "record_answer r s =
     s\<lparr>ls_llm_errors := 0, ls_delivered := ls_delivered s @ ls_pending s, ls_pending := [],
       ls_input := ls_input s + ug_input_tokens (rs_usage r),
       ls_output := ls_output s + ug_output_tokens (rs_usage r),
       ls_rounds := ls_rounds s + 1, ls_model := Some (rs_model r)\<rparr>"

definition access_violation ::
  "(string \<Rightarrow> string) \<Rightarrow> loop_setup \<Rightarrow> chat_response \<Rightarrow> security_violation option" where
  "access_violation lc u r =
     (if \<not> su_routed u then None
      else case lf_constraints (su_config u) of
             None \<Rightarrow> None
           | Some c \<Rightarrow>
               (case check_model_access lc (su_agent_id u) (rs_model r) c of
                  Inl v \<Rightarrow> Some v
                | Inr _ \<Rightarrow> None))"

definition keep_going_prompt :: string where
  "keep_going_prompt =
     ''Your previous response was truncated due to length limits. Continue from where you left off.''"

definition annotate :: "string \<Rightarrow> correction \<Rightarrow> string" where
  "annotate content c =
     (if trim content = [] then co_runtime_note c else content @ NL @ NL @ co_runtime_note c)"

text \<open>The steering completion guard: whether it put late interjections before the model.\<close>

definition completion_guard ::
  "'w loop_env \<Rightarrow> loop_setup \<Rightarrow> chat_response \<Rightarrow> 'w loop_state \<Rightarrow> bool \<times> 'w loop_state" where
  "completion_guard en u r s0 =
     (let s = meanwhile en s0
      in case ls_inbox s of
           None \<Rightarrow> (False, s)
         | Some ib \<Rightarrow>
             if ib_closed ib then (False, s)
             else (case drain_all ib of
                     (drained, ib') \<Rightarrow>
                       if drained = [] then (False, s\<lparr>ls_inbox := Some ib'\<rparr>)
                       else let s1 = log_event u SteeringDrained
                                  (DDrained ''completion_guard'' (ls_rounds s) (length drained) (map sm_request_id drained))
                                  (s\<lparr>ls_inbox := Some ib',
                                     ls_steering_bonus := ls_steering_bonus s + STEERING_ROUNDS_BONUS\<rparr>)
                            in (True, s1\<lparr>ls_messages := ls_messages s1 @ msg_assistant (rs_content r)
                                             # user_interjections drained,
                                         ls_pending := ls_pending s1 @ drained\<rparr>)))"

definition finish_answer ::
  "'w loop_env \<Rightarrow> loop_setup \<Rightarrow> chat_response \<Rightarrow> 'w loop_state \<Rightarrow> 'w loop_flow" where
  "finish_answer en u r s0 =
     (case completion_guard en u r s0 of
        (True, s) \<Rightarrow> Goes s
      | (False, s) \<Rightarrow>
          (case lf_guard (su_config u) of
             None \<Rightarrow> Ends (result_with_content (rs_content r) FComplete s) s
           | Some review \<Rightarrow>
               (case review (rs_content r) of
                  None \<Rightarrow> Ends (result_with_content (rs_content r) FComplete s) s
                | Some c \<Rightarrow>
                    if ls_guard_corrections s = 0
                    then Goes (s\<lparr>ls_guard_corrections := 1, ls_guard_bonus := 1,
                                 ls_messages := ls_messages s @ [msg_assistant (rs_content r), msg_user (co_note c)]\<rparr>)
                    else Ends (result_with_content (annotate (rs_content r) c) FComplete s) s)))"

text \<open>The last text is captured and the round recorded before any branch is taken.\<close>

definition note_answer :: "loop_setup \<Rightarrow> nat \<Rightarrow> chat_response \<Rightarrow> 'w loop_state \<Rightarrow> 'w loop_state" where
  "note_answer u tokens r s1 =
     (let s2 = (if rs_content r = [] then s1 else s1\<lparr>ls_content := rs_content r\<rparr>)
      in log_event u Round
           (DRound (ls_rounds s2) (rs_model r) (ug_input_tokens (rs_usage r)) (ug_output_tokens (rs_usage r))
             (ug_cache_read (rs_usage r)) (rs_finish_reason r) (rs_content r) (rs_tool_calls r)
             (round_context u tokens)) s2)"

definition cut_short :: "chat_response \<Rightarrow> 'w loop_state \<Rightarrow> 'w loop_flow" where
  "cut_short r s0 =
     (let s = s0\<lparr>ls_token_retries := ls_token_retries s0 + 1\<rparr>
      in if ls_token_retries s \<le> MAX_TOKENS_RETRIES
         then Goes (s\<lparr>ls_messages := ls_messages s @ [msg_assistant (rs_content r), msg_user keep_going_prompt]\<rparr>)
         else Ends (result_with_content (rs_content r) FTruncated s) s)"

definition on_answer ::
  "(string \<Rightarrow> string) \<Rightarrow> (json \<Rightarrow> 64 word) \<Rightarrow> 'w loop_env \<Rightarrow> loop_setup \<Rightarrow> nat \<Rightarrow> chat_response \<Rightarrow> 'w loop_state
   \<Rightarrow> 'w loop_flow" where
  "on_answer lc hash en u tokens r s0 =
     (let s1 = record_answer r s0
      in case access_violation lc u r of
           Some v \<Rightarrow>
             (let s2 = publish_event u (EvAccessDenied (su_agent_id u) (rs_model r) (violation_to_string v)) s1
              in Ends (result (FFailed (''Model access denied: '' @ violation_to_string v)) s2) s2)
         | None \<Rightarrow>
             (let s2 = note_answer u tokens r s1
              in if rs_finish_reason r = FinToolUse \<and> rs_tool_calls r \<noteq> []
                 then execute_tools lc hash en u r s2
                 else if rs_finish_reason r = FinMaxTokens then cut_short r s2
                 else finish_answer en u r s2))"

section \<open>The error\<close>

definition loop_transient :: "(string \<Rightarrow> string) \<Rightarrow> router_error \<Rightarrow> bool" where
  "loop_transient lc e =
     (case e of
        MaxRetriesExceeded \<Rightarrow> True
      | RAllKeysRateLimited \<Rightarrow> True
      | AllFallbacksFailed \<Rightarrow> True
      | LlmFail inner \<Rightarrow> is_transient lc inner
      | _ \<Rightarrow> False)"

definition on_error ::
  "(string \<Rightarrow> string) \<Rightarrow> 'w loop_env \<Rightarrow> loop_setup \<Rightarrow> router_error \<Rightarrow> 'w loop_state \<Rightarrow> 'w loop_flow" where
  "on_error lc en u e s =
     (if su_routed u \<and> loop_transient lc e \<and> ls_llm_errors s < MAX_LLM_RETRIES
         \<and> ls_rounds s < lf_max_rounds (su_config u)
      then let s1 = s\<lparr>ls_llm_errors := ls_llm_errors s + 1, ls_rounds := ls_rounds s + 1\<rparr>;
               w = ls_world s1
           in if en_backoff_cancelled en w
              then let s2 = return_pending_steering en s1 in Ends (result FCancelled s2) s2
              else Goes (s1\<lparr>ls_world := en_next en w\<rparr>)
      else let s2 = return_pending_steering en s in Ends (result (FFailed (router_error_to_string e)) s2) s2)"

section \<open>The loop\<close>

definition model_call ::
  "(string \<Rightarrow> string) \<Rightarrow> (json \<Rightarrow> string) \<Rightarrow> (json \<Rightarrow> 64 word) \<Rightarrow> 'w loop_env \<Rightarrow> loop_setup \<Rightarrow> string option \<Rightarrow> nat
   \<Rightarrow> 'w loop_state \<Rightarrow> 'w loop_flow" where
  "model_call lc render hash en u notice tokens s =
     (let rq = build_request render u notice s;
          s1 = s\<lparr>ls_requests := ls_requests s @ [(ls_cap_spend s, rq)], ls_world := en_next en (ls_world s)\<rparr>
      in case en_complete en rq (ls_world s) of
           Hung \<Rightarrow> Hangs
         | Interrupted \<Rightarrow> (let s2 = return_pending_steering en s1 in Ends (result FCancelled s2) s2)
         | Came (Inr r) \<Rightarrow> on_answer lc hash en u tokens r s1
         | Came (Inl e) \<Rightarrow> on_error lc en u e s1)"

definition loop_round ::
  "(string \<Rightarrow> string) \<Rightarrow> (json \<Rightarrow> string) \<Rightarrow> (json \<Rightarrow> 64 word) \<Rightarrow> 'w loop_env \<Rightarrow> loop_setup \<Rightarrow> 'w loop_state
   \<Rightarrow> 'w loop_flow" where
  "loop_round lc render hash en u s =
     (if en_cancelled en (ls_world s)
      then let s' = return_pending_steering en s in Ends (result FCancelled s') s'
      else if effective_max_rounds u s \<le> ls_rounds s
      then let s' = return_pending_steering en s in Ends (result FMaxRounds s') s'
      else
        let s1 = charge en s
        in if lf_max_cost (su_config u) < ls_cap_spend s1
           then let s' = return_pending_steering en s1 in Ends (result FCostExceeded s') s'
           else
             let tokens = unat (estimate_messages_tokens render (ls_messages s1));
                 s2 = compaction_step lc render en u s1;
                 s3 = steering_drain en u s2
             in model_call lc render hash en u (pressure_notice u s1) tokens s3)"

section \<open>What each step leaves alone\<close>

named_theorems loop_frame \<open>fields a step does not touch\<close>

lemma log_event_frame [loop_frame]:
  "ls_rounds (log_event u k d s) = ls_rounds s" "ls_messages (log_event u k d s) = ls_messages s"
  "ls_steering_bonus (log_event u k d s) = ls_steering_bonus s" "ls_guard_bonus (log_event u k d s) = ls_guard_bonus s"
  "ls_guard_corrections (log_event u k d s) = ls_guard_corrections s"
  "ls_inbox (log_event u k d s) = ls_inbox s" "ls_pending (log_event u k d s) = ls_pending s"
  "ls_arrived (log_event u k d s) = ls_arrived s" "ls_delivered (log_event u k d s) = ls_delivered s"
  "ls_tool_calls (log_event u k d s) = ls_tool_calls s" "ls_cap_spend (log_event u k d s) = ls_cap_spend s"
  "ls_requests (log_event u k d s) = ls_requests s" "ls_world (log_event u k d s) = ls_world s"
  "ls_token_retries (log_event u k d s) = ls_token_retries s" "ls_llm_errors (log_event u k d s) = ls_llm_errors s"
  by (simp_all add: log_event_def split: option.split)

lemma publish_event_frame [loop_frame]:
  "ls_rounds (publish_event u e s) = ls_rounds s" "ls_messages (publish_event u e s) = ls_messages s"
  "ls_steering_bonus (publish_event u e s) = ls_steering_bonus s" "ls_guard_bonus (publish_event u e s) = ls_guard_bonus s"
  "ls_guard_corrections (publish_event u e s) = ls_guard_corrections s"
  "ls_inbox (publish_event u e s) = ls_inbox s" "ls_pending (publish_event u e s) = ls_pending s"
  "ls_arrived (publish_event u e s) = ls_arrived s" "ls_delivered (publish_event u e s) = ls_delivered s"
  "ls_tool_calls (publish_event u e s) = ls_tool_calls s" "ls_cap_spend (publish_event u e s) = ls_cap_spend s"
  "ls_requests (publish_event u e s) = ls_requests s" "ls_log (publish_event u e s) = ls_log s"
  by (simp_all add: publish_event_def)

lemma meanwhile_frame [loop_frame]:
  "ls_rounds (meanwhile en s) = ls_rounds s" "ls_messages (meanwhile en s) = ls_messages s"
  "ls_steering_bonus (meanwhile en s) = ls_steering_bonus s" "ls_guard_bonus (meanwhile en s) = ls_guard_bonus s"
  "ls_guard_corrections (meanwhile en s) = ls_guard_corrections s" "ls_pending (meanwhile en s) = ls_pending s"
  "ls_delivered (meanwhile en s) = ls_delivered s" "ls_tool_calls (meanwhile en s) = ls_tool_calls s"
  "ls_cap_spend (meanwhile en s) = ls_cap_spend s" "ls_requests (meanwhile en s) = ls_requests s"
  "ls_log (meanwhile en s) = ls_log s" "(ls_inbox (meanwhile en s) = None) = (ls_inbox s = None)"
  by (simp_all add: meanwhile_def split: option.split prod.split)

lemma charge_frame [loop_frame]:
  "ls_rounds (charge en s) = ls_rounds s" "ls_messages (charge en s) = ls_messages s"
  "ls_steering_bonus (charge en s) = ls_steering_bonus s" "ls_guard_bonus (charge en s) = ls_guard_bonus s"
  "ls_guard_corrections (charge en s) = ls_guard_corrections s"
  "ls_inbox (charge en s) = ls_inbox s" "ls_pending (charge en s) = ls_pending s"
  "ls_arrived (charge en s) = ls_arrived s" "ls_delivered (charge en s) = ls_delivered s"
  "ls_tool_calls (charge en s) = ls_tool_calls s" "ls_requests (charge en s) = ls_requests s"
  "ls_log (charge en s) = ls_log s"
  by (simp_all add: charge_def Let_def)

lemma compaction_frame [loop_frame]:
  "ls_rounds (compaction_step lc render en u s) = ls_rounds s"
  "ls_steering_bonus (compaction_step lc render en u s) = ls_steering_bonus s"
  "ls_guard_bonus (compaction_step lc render en u s) = ls_guard_bonus s"
  "ls_guard_corrections (compaction_step lc render en u s) = ls_guard_corrections s"
  "ls_inbox (compaction_step lc render en u s) = ls_inbox s"
  "ls_pending (compaction_step lc render en u s) = ls_pending s"
  "ls_arrived (compaction_step lc render en u s) = ls_arrived s"
  "ls_delivered (compaction_step lc render en u s) = ls_delivered s"
  "ls_tool_calls (compaction_step lc render en u s) = ls_tool_calls s"
  "ls_cap_spend (compaction_step lc render en u s) = ls_cap_spend s"
  "ls_requests (compaction_step lc render en u s) = ls_requests s"
  by (simp_all add: compaction_step_def Let_def loop_frame split: option.split prod.split)

lemma drain_frame [loop_frame]:
  "ls_rounds (steering_drain en u s) = ls_rounds s"
  "ls_guard_bonus (steering_drain en u s) = ls_guard_bonus s"
  "ls_guard_corrections (steering_drain en u s) = ls_guard_corrections s"
  "ls_delivered (steering_drain en u s) = ls_delivered s" "ls_tool_calls (steering_drain en u s) = ls_tool_calls s"
  "ls_cap_spend (steering_drain en u s) = ls_cap_spend s" "ls_requests (steering_drain en u s) = ls_requests s"
  by (simp_all add: steering_drain_def Let_def loop_frame split: option.split prod.split)

lemma return_frame [loop_frame]:
  "ls_rounds (return_pending_steering en s) = ls_rounds s"
  "ls_messages (return_pending_steering en s) = ls_messages s"
  "ls_guard_bonus (return_pending_steering en s) = ls_guard_bonus s"
  "ls_guard_corrections (return_pending_steering en s) = ls_guard_corrections s"
  "ls_delivered (return_pending_steering en s) = ls_delivered s"
  "ls_tool_calls (return_pending_steering en s) = ls_tool_calls s"
  "ls_cap_spend (return_pending_steering en s) = ls_cap_spend s"
  "ls_requests (return_pending_steering en s) = ls_requests s" "ls_log (return_pending_steering en s) = ls_log s"
  by (simp_all add: return_pending_steering_def Let_def loop_frame split: option.split)

lemma take_result_frame [loop_frame]:
  "ls_rounds (take_result en u r s) = ls_rounds s"
  "ls_steering_bonus (take_result en u r s) = ls_steering_bonus s"
  "ls_guard_bonus (take_result en u r s) = ls_guard_bonus s"
  "ls_guard_corrections (take_result en u r s) = ls_guard_corrections s"
  "ls_inbox (take_result en u r s) = ls_inbox s" "ls_pending (take_result en u r s) = ls_pending s"
  "ls_arrived (take_result en u r s) = ls_arrived s" "ls_delivered (take_result en u r s) = ls_delivered s"
  "ls_cap_spend (take_result en u r s) = ls_cap_spend s" "ls_requests (take_result en u r s) = ls_requests s"
  "ls_tool_calls (take_result en u r s) = ls_tool_calls s + 1"
  by (simp_all add: take_result_def spill_plan_def log_spill_event_def Let_def split: option.split prod.split)

lemma fold_frame:
  assumes "\<And>x s. f (g x s) = f s"
  shows "f (fold g xs s) = f s"
  by (induction xs arbitrary: s) (simp_all add: assms)

lemma fold_log_frame [loop_frame]:
  "ls_rounds (fold (\<lambda>tc. log_event u k (d tc)) tcs s) = ls_rounds s"
  "ls_messages (fold (\<lambda>tc. log_event u k (d tc)) tcs s) = ls_messages s"
  "ls_steering_bonus (fold (\<lambda>tc. log_event u k (d tc)) tcs s) = ls_steering_bonus s"
  "ls_guard_bonus (fold (\<lambda>tc. log_event u k (d tc)) tcs s) = ls_guard_bonus s"
  "ls_guard_corrections (fold (\<lambda>tc. log_event u k (d tc)) tcs s) = ls_guard_corrections s"
  "ls_inbox (fold (\<lambda>tc. log_event u k (d tc)) tcs s) = ls_inbox s"
  "ls_pending (fold (\<lambda>tc. log_event u k (d tc)) tcs s) = ls_pending s"
  "ls_arrived (fold (\<lambda>tc. log_event u k (d tc)) tcs s) = ls_arrived s"
  "ls_delivered (fold (\<lambda>tc. log_event u k (d tc)) tcs s) = ls_delivered s"
  "ls_tool_calls (fold (\<lambda>tc. log_event u k (d tc)) tcs s) = ls_tool_calls s"
  "ls_cap_spend (fold (\<lambda>tc. log_event u k (d tc)) tcs s) = ls_cap_spend s"
  "ls_requests (fold (\<lambda>tc. log_event u k (d tc)) tcs s) = ls_requests s"
  by (rule fold_frame, simp add: loop_frame)+

lemma fold_take_frame [loop_frame]:
  "ls_rounds (fold (take_result en u) rs s) = ls_rounds s"
  "ls_steering_bonus (fold (take_result en u) rs s) = ls_steering_bonus s"
  "ls_guard_bonus (fold (take_result en u) rs s) = ls_guard_bonus s"
  "ls_guard_corrections (fold (take_result en u) rs s) = ls_guard_corrections s"
  "ls_inbox (fold (take_result en u) rs s) = ls_inbox s" "ls_pending (fold (take_result en u) rs s) = ls_pending s"
  "ls_arrived (fold (take_result en u) rs s) = ls_arrived s"
  "ls_delivered (fold (take_result en u) rs s) = ls_delivered s"
  "ls_cap_spend (fold (take_result en u) rs s) = ls_cap_spend s"
  "ls_requests (fold (take_result en u) rs s) = ls_requests s"
  by (rule fold_frame, simp add: loop_frame)+

section \<open>Every round counts\<close>

definition flow_all :: "('w loop_state \<Rightarrow> bool) \<Rightarrow> 'w loop_flow \<Rightarrow> bool" where
  "flow_all I f = (case f of Ends r s \<Rightarrow> I s | Goes s \<Rightarrow> I s | Hangs \<Rightarrow> True)"

lemma flow_all_simps [simp]:
  "flow_all I (Ends r s) = I s" "flow_all I (Goes s) = I s" "flow_all I Hangs"
  by (simp_all add: flow_all_def)

lemma tools_rounds: "flow_all (\<lambda>s'. ls_rounds s' = ls_rounds s) (execute_tools lc hash en u r s)"
  by (simp add: execute_tools_def Let_def loop_frame split: option.split prod.split)

lemma guard_rounds: "ls_rounds (snd (completion_guard en u r s)) = ls_rounds s"
  by (simp add: completion_guard_def Let_def loop_frame split: option.split prod.split)

lemma finish_rounds: "flow_all (\<lambda>s'. ls_rounds s' = ls_rounds s) (finish_answer en u r s)"
proof -
  obtain b s1 where g: "completion_guard en u r s = (b, s1)" by fastforce
  then have "ls_rounds s1 = ls_rounds s" using guard_rounds [of en u r s] by simp
  then show ?thesis using g by (cases b) (simp_all add: finish_answer_def split: option.split)
qed

lemma note_frame [loop_frame]:
  "ls_rounds (note_answer u t r s) = ls_rounds s" "ls_messages (note_answer u t r s) = ls_messages s"
  "ls_steering_bonus (note_answer u t r s) = ls_steering_bonus s"
  "ls_guard_bonus (note_answer u t r s) = ls_guard_bonus s"
  "ls_guard_corrections (note_answer u t r s) = ls_guard_corrections s"
  "ls_inbox (note_answer u t r s) = ls_inbox s" "ls_pending (note_answer u t r s) = ls_pending s"
  "ls_arrived (note_answer u t r s) = ls_arrived s" "ls_delivered (note_answer u t r s) = ls_delivered s"
  "ls_tool_calls (note_answer u t r s) = ls_tool_calls s" "ls_cap_spend (note_answer u t r s) = ls_cap_spend s"
  "ls_requests (note_answer u t r s) = ls_requests s"
  "ls_token_retries (note_answer u t r s) = ls_token_retries s"
  by (simp_all add: note_answer_def Let_def loop_frame)

lemma answer_rounds: "flow_all (\<lambda>s'. ls_rounds s' = ls_rounds s + 1) (on_answer lc hash en u t r s)"
proof (cases "access_violation lc u r")
  case None
  let ?s2 = "note_answer u t r (record_answer r s)"
  have "ls_rounds ?s2 = ls_rounds s + 1" by (simp add: record_answer_def loop_frame)
  then show ?thesis
    using tools_rounds [of ?s2 lc hash en u r] finish_rounds [of ?s2 en u r] None
    by (simp add: on_answer_def cut_short_def Let_def)
qed (simp add: on_answer_def record_answer_def Let_def loop_frame)

lemma error_rounds:
  assumes "on_error lc en u e s = Goes s'"
  shows "ls_rounds s' = ls_rounds s + 1"
  using assms by (auto simp: on_error_def Let_def split: if_splits)

lemma loop_round_progress:
  assumes "loop_round lc render hash en u s = Goes s'"
  shows "ls_rounds s' = ls_rounds s + 1" "ls_rounds s < 2 * lf_max_rounds (su_config u)"
proof -
  have open_rounds: "\<not> effective_max_rounds u s \<le> ls_rounds s"
    using assms by (auto simp: loop_round_def Let_def split: if_splits)
  then show "ls_rounds s < 2 * lf_max_rounds (su_config u)" by (simp add: effective_max_rounds_def)
  obtain s3 n t where c: "model_call lc render hash en u n t s3 = Goes s'" and r: "ls_rounds s3 = ls_rounds s"
    using assms by (auto simp: loop_round_def Let_def loop_frame split: if_splits)
  let ?s1 = "s3\<lparr>ls_requests := ls_requests s3 @ [(ls_cap_spend s3, build_request render u n s3)],
    ls_world := en_next en (ls_world s3)\<rparr>"
  show "ls_rounds s' = ls_rounds s + 1"
  proof (cases "en_complete en (build_request render u n s3) (ls_world s3)")
    case (Came a)
    show ?thesis
    proof (cases a)
      case (Inl e)
      then have "on_error lc en u e ?s1 = Goes s'" using c Came by (simp add: model_call_def Let_def)
      then show ?thesis using error_rounds r by fastforce
    next
      case (Inr x)
      then have "on_answer lc hash en u t x ?s1 = Goes s'" using c Came by (simp add: model_call_def Let_def)
      then show ?thesis using answer_rounds [of ?s1 lc hash en u t x] r by simp
    qed
  qed (use c in \<open>simp_all add: model_call_def Let_def\<close>)
qed

function loop_run ::
  "(string \<Rightarrow> string) \<Rightarrow> (json \<Rightarrow> string) \<Rightarrow> (json \<Rightarrow> 64 word) \<Rightarrow> 'w loop_env \<Rightarrow> loop_setup \<Rightarrow> 'w loop_state
   \<Rightarrow> (loop_result \<times> 'w loop_state) option" where
  "loop_run lc render hash en u s =
     (case loop_round lc render hash en u s of
        Ends r s' \<Rightarrow> Some (r, s')
      | Goes s' \<Rightarrow> loop_run lc render hash en u s'
      | Hangs \<Rightarrow> None)"
  by pat_completeness auto

termination
proof (relation "measure (\<lambda>(_, _, _, _, u, s). 2 * lf_max_rounds (su_config u) - ls_rounds s)", simp)
  fix lc render hash en u and s s' :: "'w loop_state"
  assume "loop_round lc render hash en u s = Goes s'"
  note p = loop_round_progress [OF this]
  show "((lc, render, hash, en, u, s'), (lc, render, hash, en, u, s))
      \<in> measure (\<lambda>(_, _, _, _, u, s). 2 * lf_max_rounds (su_config u) - ls_rounds s)"
    using p by simp
qed

declare loop_run.simps [simp del]

definition loop_start ::
  "'w loop_env \<Rightarrow> cost_acc \<Rightarrow> inbox option \<Rightarrow> session_log option \<Rightarrow> chat_message list \<Rightarrow> 'w \<Rightarrow> 'w loop_state" where
  "loop_start en acc ib lg msgs w =
     \<lparr>ls_world = en_next en w, ls_messages = msgs, ls_rounds = 0, ls_input = 0, ls_output = 0, ls_tool_calls = 0,
      ls_content = [], ls_model = None, ls_token_retries = 0, ls_last_cost = en_agent_cost en 0 0 w,
      ls_cap_spend = 0, ls_last_tool_error = None, ls_working_state = None, ls_llm_errors = 0,
      ls_steering_bonus = 0, ls_guard_corrections = 0, ls_guard_bonus = 0, ls_dropped_tokens = 0,
      ls_pending = [], ls_acc = acc, ls_inbox = ib, ls_log = lg, ls_events = [], ls_requests = [],
      ls_arrived = [], ls_delivered = []\<rparr>"

text \<open>\<open>run_agentic_loop_inner\<close>: the core, and its exit narrated.\<close>

definition narrate_exit :: "loop_setup \<Rightarrow> loop_result \<Rightarrow> 'w loop_state \<Rightarrow> 'w loop_state" where
  "narrate_exit u r s =
     (let s1 = (case lr_finish r of
                  FFailed message \<Rightarrow> log_event u ErrorRecord (DError ''agentic_loop'' message) s
                | _ \<Rightarrow> s)
      in log_event u WorkflowDone
           (DDone (finish_reason_str (lr_finish r)) (lr_rounds_used r) (lr_tool_calls_made r) (lr_input_tokens r)
             (lr_output_tokens r) (lr_estimated_cost r) (lr_model_used r)) s1)"

definition run_agentic_loop ::
  "(string \<Rightarrow> string) \<Rightarrow> (json \<Rightarrow> string) \<Rightarrow> (json \<Rightarrow> 64 word) \<Rightarrow> 'w loop_env \<Rightarrow> loop_setup \<Rightarrow> cost_acc
   \<Rightarrow> inbox option \<Rightarrow> session_log option \<Rightarrow> chat_message list \<Rightarrow> 'w \<Rightarrow> (loop_result \<times> 'w loop_state) option" where
  "run_agentic_loop lc render hash en u acc ib lg msgs w =
     map_option (\<lambda>(r, s). (r, narrate_exit u r s))
       (loop_run lc render hash en u (loop_start en acc ib lg msgs w))"

end
