(* ===== verification/Loop_Laws.thy ===== *)
theory Loop_Laws
  imports Agentic_Loop
begin

text \<open>
  What a run of the agentic loop keeps. The locale \<open>loop_outline\<close> is the contract of one round, an
  assertion per point of the round and one law per step; what it gives is that the assertion at the
  exit holds of every result. Each property of the loop is an interpretation of it.
\<close>

section \<open>Runs\<close>

lemma loop_run_cases:
  assumes "loop_run lc render hash en u s = Some (r, s')"
  obtains (last_round) "loop_round lc render hash en u s = Ends r s'"
  | (further) s1 where "loop_round lc render hash en u s = Goes s1"
      "loop_run lc render hash en u s1 = Some (r, s')"
  using assms that by (cases "loop_round lc render hash en u s") (simp_all add: loop_run.simps [of lc render hash en u s])

lemma loop_run_induct [consumes 1, case_names last_round further]:
  assumes "loop_run lc render hash en u s = Some (r, s')"
    and "\<And>s. loop_round lc render hash en u s = Ends r s' \<Longrightarrow> P s"
    and "\<And>s s1. loop_round lc render hash en u s = Goes s1 \<Longrightarrow> loop_run lc render hash en u s1 = Some (r, s')
      \<Longrightarrow> P s1 \<Longrightarrow> P s"
  shows "P s"
  using assms(1)
proof (induction "2 * lf_max_rounds (su_config u) - ls_rounds s" arbitrary: s rule: less_induct)
  case less
  from less.prems show ?case
  proof (cases rule: loop_run_cases)
    case last_round
    then show ?thesis by (rule assms(2))
  next
    case (further s1)
    have "2 * lf_max_rounds (su_config u) - ls_rounds s1 < 2 * lf_max_rounds (su_config u) - ls_rounds s"
      using loop_round_progress [OF further(1)] by simp
    then have "P s1" using less.hyps further(2) by blast
    then show ?thesis using assms(3) further by blast
  qed
qed

text \<open>The parts of a round, as its case analysis.\<close>

lemma loop_round_parts:
  obtains (cancelled) "loop_round lc render hash en u s =
      Ends (result FCancelled (return_pending_steering en s)) (return_pending_steering en s)"
  | (rounds) "effective_max_rounds u s \<le> ls_rounds s" "loop_round lc render hash en u s =
      Ends (result FMaxRounds (return_pending_steering en s)) (return_pending_steering en s)"
  | (cost) "ls_rounds s < effective_max_rounds u s" "lf_max_cost (su_config u) < ls_cap_spend (charge en s)"
      "loop_round lc render hash en u s =
         Ends (result FCostExceeded (return_pending_steering en (charge en s))) (return_pending_steering en (charge en s))"
  | (call) t where "ls_rounds s < effective_max_rounds u s" "ls_cap_spend (charge en s) \<le> lf_max_cost (su_config u)"
      "loop_round lc render hash en u s =
         model_call lc render hash en u (pressure_notice u (charge en s)) t
           (steering_drain en u (compaction_step lc render en u (charge en s)))"
  by (cases "en_cancelled en (ls_world s)"; cases "effective_max_rounds u s \<le> ls_rounds s";
      cases "lf_max_cost (su_config u) < ls_cap_spend (charge en s)")
     (simp_all add: loop_round_def Let_def not_le not_less)

definition asked :: "(json \<Rightarrow> string) \<Rightarrow> 'w loop_env \<Rightarrow> loop_setup \<Rightarrow> string option \<Rightarrow> 'w loop_state \<Rightarrow> 'w loop_state" where
  "asked render en u notice s =
     s\<lparr>ls_requests := ls_requests s @ [(ls_cap_spend s, build_request render u notice s)],
       ls_world := en_next en (ls_world s)\<rparr>"

definition counted_retry :: "'w loop_state \<Rightarrow> 'w loop_state" where
  "counted_retry s = s\<lparr>ls_llm_errors := ls_llm_errors s + 1, ls_rounds := ls_rounds s + 1\<rparr>"

lemma model_call_parts:
  obtains (hung) "model_call lc render hash en u n t s = Hangs"
  | (interrupted) "model_call lc render hash en u n t s =
      Ends (result FCancelled (return_pending_steering en (asked render en u n s)))
        (return_pending_steering en (asked render en u n s))"
  | (answered) r where "model_call lc render hash en u n t s = on_answer lc hash en u t r (asked render en u n s)"
  | (failed) e where "model_call lc render hash en u n t s = on_error lc en u e (asked render en u n s)"
proof (cases "en_complete en (build_request render u n s) (ls_world s)")
  case (Came a)
  then show ?thesis using that(3,4) by (cases a) (simp_all add: model_call_def Let_def asked_def)
qed (use that in \<open>simp_all add: model_call_def Let_def asked_def\<close>)

lemma on_error_parts:
  obtains (backoff) "ls_rounds s < lf_max_rounds (su_config u)"
      "on_error lc en u e s = Goes ((counted_retry s)\<lparr>ls_world := en_next en (ls_world s)\<rparr>)"
  | (interrupted) "ls_rounds s < lf_max_rounds (su_config u)" "on_error lc en u e s =
      Ends (result FCancelled (return_pending_steering en (counted_retry s))) (return_pending_steering en (counted_retry s))"
  | (failed) "on_error lc en u e s =
      Ends (result (FFailed (router_error_to_string e)) (return_pending_steering en s)) (return_pending_steering en s)"
  by (cases "su_routed u \<and> loop_transient lc e \<and> ls_llm_errors s < MAX_LLM_RETRIES
        \<and> ls_rounds s < lf_max_rounds (su_config u)"; cases "en_backoff_cancelled en (ls_world s)")
     (auto simp: on_error_def Let_def counted_retry_def)

lemma on_answer_parts:
  obtains (denied) v where "access_violation lc u r = Some v" "on_answer lc hash en u t r s =
      Ends (result (FFailed (''Model access denied: '' @ violation_to_string v))
          (publish_event u (EvAccessDenied (su_agent_id u) (rs_model r) (violation_to_string v)) (record_answer r s)))
        (publish_event u (EvAccessDenied (su_agent_id u) (rs_model r) (violation_to_string v)) (record_answer r s))"
  | (tools) "access_violation lc u r = None" "rs_tool_calls r \<noteq> []" "on_answer lc hash en u t r s =
      execute_tools lc hash en u r (note_answer u t r (record_answer r s))"
  | (cut) "access_violation lc u r = None"
      "on_answer lc hash en u t r s = cut_short r (note_answer u t r (record_answer r s))"
  | (finished) "access_violation lc u r = None"
      "on_answer lc hash en u t r s = finish_answer en u r (note_answer u t r (record_answer r s))"
  by (cases "access_violation lc u r"; cases "rs_finish_reason r = FinToolUse \<and> rs_tool_calls r \<noteq> []";
      cases "rs_finish_reason r = FinMaxTokens") (auto simp: on_answer_def Let_def)

lemma drain_bonus: "ls_steering_bonus s \<le> ls_steering_bonus (steering_drain en u s)"
  by (simp add: steering_drain_def Let_def loop_frame split: option.split prod.split)

lemma effective_max_mono:
  "ls_steering_bonus s \<le> ls_steering_bonus s' \<Longrightarrow> ls_guard_bonus s \<le> ls_guard_bonus s'
    \<Longrightarrow> effective_max_rounds u s \<le> effective_max_rounds u s'"
  by (simp add: effective_max_rounds_def)

section \<open>The outline of a round\<close>

text \<open>
  The assertions of a round, in the style of a proof outline: \<open>I\<close> between rounds, \<open>A\<close> once the model
  was asked, \<open>R\<close> once its answer is recorded, \<open>J\<close> of the result and state the loop ends with.
\<close>

definition flow_into ::
  "('w loop_state \<Rightarrow> bool) \<Rightarrow> (loop_result \<Rightarrow> 'w loop_state \<Rightarrow> bool) \<Rightarrow> 'w loop_flow \<Rightarrow> bool" where
  "flow_into I J f = (case f of Ends r s \<Rightarrow> J r s | Goes s \<Rightarrow> I s | Hangs \<Rightarrow> True)"

lemma flow_into_simps [simp]:
  "flow_into I J (Ends r s) = J r s" "flow_into I J (Goes s) = I s" "flow_into I J Hangs"
  by (simp_all add: flow_into_def)

locale loop_outline =
  fixes lc :: "string \<Rightarrow> string" and render :: "json \<Rightarrow> string" and hash :: "json \<Rightarrow> 64 word"
    and en :: "'w loop_env" and u :: loop_setup
    and I :: "'w loop_state \<Rightarrow> bool" and A :: "'w loop_state \<Rightarrow> bool" and R :: "'w loop_state \<Rightarrow> bool"
    and J :: "loop_result \<Rightarrow> 'w loop_state \<Rightarrow> bool"
  assumes charged: "I s \<Longrightarrow> I (charge en s)"
    and compacted: "I s \<Longrightarrow> I (compaction_step lc render en u s)"
    and drained: "I s \<Longrightarrow> I (steering_drain en u s)"
    and stopped: "I s \<Longrightarrow> fin = FCancelled \<or> fin = FMaxRounds
        \<or> fin = FCostExceeded \<and> lf_max_cost (su_config u) < ls_cap_spend s
      \<Longrightarrow> J (result fin (return_pending_steering en s)) (return_pending_steering en s)"
    and asks: "I s \<Longrightarrow> ls_rounds s < effective_max_rounds u s \<Longrightarrow> ls_cap_spend s \<le> lf_max_cost (su_config u)
      \<Longrightarrow> A (asked render en u n s)"
    and broken: "A s \<Longrightarrow> fin = FCancelled \<or> fin = FFailed why
      \<Longrightarrow> J (result fin (return_pending_steering en s)) (return_pending_steering en s)"
    and retried: "A s \<Longrightarrow> ls_rounds s < lf_max_rounds (su_config u) \<Longrightarrow> I ((counted_retry s)\<lparr>ls_world := w\<rparr>)"
    and gave_up: "A s \<Longrightarrow> ls_rounds s < lf_max_rounds (su_config u)
      \<Longrightarrow> J (result FCancelled (return_pending_steering en (counted_retry s)))
          (return_pending_steering en (counted_retry s))"
    and recorded: "A s \<Longrightarrow> R (record_answer r s)"
    and noted: "R s \<Longrightarrow> R (note_answer u t r s)"
    and denied: "R s \<Longrightarrow> J (result (FFailed why) (publish_event u e s)) (publish_event u e s)"
    and tools: "R s \<Longrightarrow> rs_tool_calls r \<noteq> [] \<Longrightarrow> flow_into I J (execute_tools lc hash en u r s)"
    and cut: "R s \<Longrightarrow> flow_into I J (cut_short r s)"
    and finished: "R s \<Longrightarrow> flow_into I J (finish_answer en u r s)"
begin

lemma answer_into: "A s \<Longrightarrow> flow_into I J (on_answer lc hash en u t r s)"
  by (rule on_answer_parts [of lc u r hash en t s])
     (simp_all add: recorded noted denied tools cut finished)

lemma error_into: "A s \<Longrightarrow> flow_into I J (on_error lc en u e s)"
  by (rule on_error_parts [of s u lc en e]) (auto simp: retried gave_up broken)

lemma call_into: "A (asked render en u n s) \<Longrightarrow> flow_into I J (model_call lc render hash en u n t s)"
  by (rule model_call_parts [of lc render hash en u n t s]) (simp_all add: broken answer_into error_into)

lemma round_into: "I s \<Longrightarrow> flow_into I J (loop_round lc render hash en u s)"
proof (rule loop_round_parts [of lc render hash en u s])
  fix t
  assume "I s" and rounds: "ls_rounds s < effective_max_rounds u s"
    and cap: "ls_cap_spend (charge en s) \<le> lf_max_cost (su_config u)"
    and c: "loop_round lc render hash en u s = model_call lc render hash en u (pressure_notice u (charge en s)) t
           (steering_drain en u (compaction_step lc render en u (charge en s)))"
  let ?s2 = "compaction_step lc render en u (charge en s)"
  have "I (steering_drain en u ?s2)" using \<open>I s\<close> by (simp add: drained compacted charged)
  moreover have "ls_rounds (steering_drain en u ?s2) < effective_max_rounds u (steering_drain en u ?s2)"
    using rounds effective_max_mono [of ?s2 "steering_drain en u ?s2" u] drain_bonus [of ?s2 en u]
    by (simp add: effective_max_rounds_def loop_frame)
  moreover have "ls_cap_spend (steering_drain en u ?s2) \<le> lf_max_cost (su_config u)"
    using cap by (simp add: loop_frame)
  ultimately have "A (asked render en u (pressure_notice u (charge en s)) (steering_drain en u ?s2))" by (rule asks)
  then show ?thesis unfolding c by (rule call_into)
qed (auto simp: stopped charged)

lemma run_into:
  assumes "loop_run lc render hash en u s = Some (r, s')" "I s"
  shows "J r s'"
  using assms
proof (induction rule: loop_run_induct)
  case (last_round s)
  then show ?case using round_into [of s] by simp
next
  case (further s s1)
  then show ?case using round_into [of s] by simp
qed

end


section \<open>The parts of tool execution and of finishing\<close>

definition calls_of :: "loop_setup \<Rightarrow> chat_response \<Rightarrow> 'w loop_state \<Rightarrow> tool_call list" where
  "calls_of u r s = fst (split_calls u (ls_tool_calls s) (rs_tool_calls r))"

definition refusals_of :: "loop_setup \<Rightarrow> chat_response \<Rightarrow> 'w loop_state \<Rightarrow> chat_message list" where
  "refusals_of u r s =
     (case split_calls u (ls_tool_calls s) (rs_tool_calls r) of
        (_, over_budget, overflow) \<Rightarrow>
          map (refusal (''max_tool_calls limit reached '' @ EM_DASH @ '' no more tool calls allowed'')) over_budget
          @ map (refusal ''max tools per round exceeded'') overflow)"

definition calls_logged :: "loop_setup \<Rightarrow> chat_response \<Rightarrow> 'w loop_state \<Rightarrow> 'w loop_state" where
  "calls_logged u r s =
     fold (\<lambda>tc. log_event u ToolCall
            (DToolCall (tc_id tc) (tc_name tc) (tc_arguments tc) (tool_extension u (tc_name tc))))
       (calls_of u r s) (s\<lparr>ls_messages := ls_messages s @ [assistant_with_tools r]\<rparr>)"

definition batch_taken ::
  "'w loop_env \<Rightarrow> loop_setup \<Rightarrow> chat_response \<Rightarrow> (tool_call \<times> string \<times> bool) list \<Rightarrow> 'w loop_state \<Rightarrow> 'w loop_state" where
  "batch_taken en u r rs s =
     (let s2 = calls_logged u r s;
          s3 = fold (take_result en u) rs (s2\<lparr>ls_world := en_next en (ls_world s2)\<rparr>)
      in s3\<lparr>ls_messages := ls_messages s3 @ refusals_of u r s, ls_token_retries := 0\<rparr>)"

lemma calls_logged_frame [loop_frame]:
  "ls_rounds (calls_logged u r s) = ls_rounds s"
  "ls_messages (calls_logged u r s) = ls_messages s @ [assistant_with_tools r]"
  "ls_steering_bonus (calls_logged u r s) = ls_steering_bonus s"
  "ls_guard_bonus (calls_logged u r s) = ls_guard_bonus s"
  "ls_guard_corrections (calls_logged u r s) = ls_guard_corrections s"
  "ls_inbox (calls_logged u r s) = ls_inbox s" "ls_pending (calls_logged u r s) = ls_pending s"
  "ls_arrived (calls_logged u r s) = ls_arrived s" "ls_delivered (calls_logged u r s) = ls_delivered s"
  "ls_tool_calls (calls_logged u r s) = ls_tool_calls s" "ls_cap_spend (calls_logged u r s) = ls_cap_spend s"
  "ls_requests (calls_logged u r s) = ls_requests s"
  by (simp_all add: calls_logged_def loop_frame)

lemma batch_taken_frame [loop_frame]:
  "ls_rounds (batch_taken en u r rs s) = ls_rounds s"
  "ls_steering_bonus (batch_taken en u r rs s) = ls_steering_bonus s"
  "ls_guard_bonus (batch_taken en u r rs s) = ls_guard_bonus s"
  "ls_guard_corrections (batch_taken en u r rs s) = ls_guard_corrections s"
  "ls_inbox (batch_taken en u r rs s) = ls_inbox s" "ls_pending (batch_taken en u r rs s) = ls_pending s"
  "ls_arrived (batch_taken en u r rs s) = ls_arrived s" "ls_delivered (batch_taken en u r rs s) = ls_delivered s"
  "ls_cap_spend (batch_taken en u r rs s) = ls_cap_spend s"
  "ls_requests (batch_taken en u r rs s) = ls_requests s"
  by (simp_all add: batch_taken_def Let_def loop_frame)

lemma execute_tools_parts:
  obtains (cancelled) "execute_tools lc hash en u r s = Ends (result FCancelled (calls_logged u r s)) (calls_logged u r s)"
  | (dropped)
      "run_batch lc hash u (effective_context u (calls_logged u r s)) (en_tool en (ls_world (calls_logged u r s))) 0
         (calls_of u r s) = None"
      "execute_tools lc hash en u r s = Hangs"
  | (taken) rs where
      "run_batch lc hash u (effective_context u (calls_logged u r s)) (en_tool en (ls_world (calls_logged u r s))) 0
         (calls_of u r s) = Some rs"
      "execute_tools lc hash en u r s = Goes (batch_taken en u r rs s)"
proof -
  obtain ex ov over where p: "split_calls u (ls_tool_calls s) (rs_tool_calls r) = (ex, ov, over)"
    by (metis prod_cases3)
  let ?s2 = "calls_logged u r s"
  have c: "calls_of u r s = ex" using p by (simp add: calls_of_def)
  have e: "execute_tools lc hash en u r s =
      (if en_batch_cancelled en (ls_world ?s2) then Ends (result FCancelled ?s2) ?s2
       else case run_batch lc hash u (effective_context u ?s2) (en_tool en (ls_world ?s2)) 0 ex of
              None \<Rightarrow> Hangs
            | Some rs \<Rightarrow> Goes (batch_taken en u r rs s))"
    by (simp add: execute_tools_def batch_taken_def refusals_of_def p calls_logged_def c Let_def split: option.split)
  show ?thesis
  proof (cases "en_batch_cancelled en (ls_world ?s2)")
    case False
    then show ?thesis
      using that(2,3) e c
      by (cases "run_batch lc hash u (effective_context u ?s2) (en_tool en (ls_world ?s2)) 0 ex") simp_all
  qed (use e that(1) in simp)
qed

definition heard_late :: "loop_setup \<Rightarrow> chat_response \<Rightarrow> inbox \<Rightarrow> 'w loop_state \<Rightarrow> 'w loop_state" where
  "heard_late u r ib s =
     (let d = ib_queue ib;
          s1 = log_event u SteeringDrained
                 (DDrained ''completion_guard'' (ls_rounds s) (length d) (map sm_request_id d))
                 (s\<lparr>ls_inbox := Some (ib\<lparr>ib_queue := []\<rparr>),
                    ls_steering_bonus := ls_steering_bonus s + STEERING_ROUNDS_BONUS\<rparr>)
      in s1\<lparr>ls_messages := ls_messages s1 @ msg_assistant (rs_content r) # user_interjections d,
            ls_pending := ls_pending s1 @ d\<rparr>)"

definition corrected :: "chat_response \<Rightarrow> correction \<Rightarrow> 'w loop_state \<Rightarrow> 'w loop_state" where
  "corrected r c s =
     s\<lparr>ls_guard_corrections := 1, ls_guard_bonus := 1,
       ls_messages := ls_messages s @ [msg_assistant (rs_content r), msg_user (co_note c)]\<rparr>"

lemma heard_late_frame [loop_frame]:
  "ls_rounds (heard_late u r ib s) = ls_rounds s"
  "ls_messages (heard_late u r ib s) =
     ls_messages s @ msg_assistant (rs_content r) # user_interjections (ib_queue ib)"
  "ls_steering_bonus (heard_late u r ib s) = ls_steering_bonus s + STEERING_ROUNDS_BONUS"
  "ls_guard_bonus (heard_late u r ib s) = ls_guard_bonus s"
  "ls_guard_corrections (heard_late u r ib s) = ls_guard_corrections s"
  "ls_inbox (heard_late u r ib s) = Some (ib\<lparr>ib_queue := []\<rparr>)"
  "ls_pending (heard_late u r ib s) = ls_pending s @ ib_queue ib"
  "ls_arrived (heard_late u r ib s) = ls_arrived s" "ls_delivered (heard_late u r ib s) = ls_delivered s"
  "ls_tool_calls (heard_late u r ib s) = ls_tool_calls s" "ls_cap_spend (heard_late u r ib s) = ls_cap_spend s"
  "ls_requests (heard_late u r ib s) = ls_requests s"
  by (simp_all add: heard_late_def Let_def loop_frame)

lemma corrected_frame [loop_frame]:
  "ls_rounds (corrected r c s) = ls_rounds s"
  "ls_messages (corrected r c s) = ls_messages s @ [msg_assistant (rs_content r), msg_user (co_note c)]"
  "ls_steering_bonus (corrected r c s) = ls_steering_bonus s"
  "ls_guard_bonus (corrected r c s) = 1" "ls_guard_corrections (corrected r c s) = 1"
  "ls_inbox (corrected r c s) = ls_inbox s" "ls_pending (corrected r c s) = ls_pending s"
  "ls_arrived (corrected r c s) = ls_arrived s" "ls_delivered (corrected r c s) = ls_delivered s"
  "ls_tool_calls (corrected r c s) = ls_tool_calls s" "ls_cap_spend (corrected r c s) = ls_cap_spend s"
  "ls_requests (corrected r c s) = ls_requests s"
  by (simp_all add: corrected_def)

lemma completion_guard_parts:
  obtains (quiet) "completion_guard en u r s = (False, meanwhile en s)"
  | (heard) ib where "ls_inbox (meanwhile en s) = Some ib" "ib_queue ib \<noteq> []"
      "completion_guard en u r s = (True, heard_late u r ib (meanwhile en s))"
proof (cases "ls_inbox (meanwhile en s)")
  case None
  then show ?thesis using that(1) by (simp add: completion_guard_def Let_def)
next
  case (Some ib)
  show ?thesis
  proof (cases "ib_closed ib \<or> ib_queue ib = []")
    case True
    moreover have "(meanwhile en s)\<lparr>ls_inbox := Some (ib\<lparr>ib_queue := []\<rparr>)\<rparr> = meanwhile en s" if "ib_queue ib = []"
      using Some that by (cases "meanwhile en s"; cases ib) simp
    ultimately show ?thesis
      using that(1) Some by (auto simp: completion_guard_def Let_def drain_all_def)
  next
    case False
    then show ?thesis
      using that(2) [of ib] Some
      by (simp add: completion_guard_def heard_late_def Let_def drain_all_def loop_frame)
  qed
qed

lemma finish_answer_parts:
  obtains (heard) ib where "ls_inbox (meanwhile en s) = Some ib" "ib_queue ib \<noteq> []"
      "finish_answer en u r s = Goes (heard_late u r ib (meanwhile en s))"
  | (plain) "lf_guard (su_config u) = None" "finish_answer en u r s =
      Ends (result_with_content (rs_content r) FComplete (meanwhile en s)) (meanwhile en s)"
  | (passed) review where "lf_guard (su_config u) = Some review" "review (rs_content r) = None"
      "finish_answer en u r s = Ends (result_with_content (rs_content r) FComplete (meanwhile en s)) (meanwhile en s)"
  | (corrected) review c where "lf_guard (su_config u) = Some review" "review (rs_content r) = Some c"
      "ls_guard_corrections s = 0" "finish_answer en u r s = Goes (corrected r c (meanwhile en s))"
  | (annotated) review c where "lf_guard (su_config u) = Some review" "review (rs_content r) = Some c"
      "ls_guard_corrections s \<noteq> 0"
      "finish_answer en u r s =
        Ends (result_with_content (annotate (rs_content r) c) FComplete (meanwhile en s)) (meanwhile en s)"
proof (cases rule: completion_guard_parts [of en u r s])
  case quiet
  show ?thesis
  proof (cases "lf_guard (su_config u)")
    case None
    then show ?thesis using quiet that(2) by (simp add: finish_answer_def)
  next
    case (Some review)
    note g = Some
    show ?thesis
    proof (cases "review (rs_content r)")
      case None
      then show ?thesis using quiet that(3) g by (simp add: finish_answer_def)
    next
      case (Some c)
      then show ?thesis
        using quiet that(4,5) g
        by (cases "ls_guard_corrections s = 0") (simp_all add: finish_answer_def corrected_def loop_frame)
    qed
  qed
next
  case (heard ib)
  then show ?thesis using that(1) by (simp add: finish_answer_def)
qed

text \<open>What a recorded answer, a request and a counted retry change.\<close>

lemma record_answer_frame [loop_frame]:
  "ls_rounds (record_answer r s) = ls_rounds s + 1" "ls_messages (record_answer r s) = ls_messages s"
  "ls_steering_bonus (record_answer r s) = ls_steering_bonus s"
  "ls_guard_bonus (record_answer r s) = ls_guard_bonus s"
  "ls_guard_corrections (record_answer r s) = ls_guard_corrections s"
  "ls_inbox (record_answer r s) = ls_inbox s" "ls_pending (record_answer r s) = []"
  "ls_arrived (record_answer r s) = ls_arrived s"
  "ls_delivered (record_answer r s) = ls_delivered s @ ls_pending s"
  "ls_tool_calls (record_answer r s) = ls_tool_calls s" "ls_cap_spend (record_answer r s) = ls_cap_spend s"
  "ls_requests (record_answer r s) = ls_requests s"
  by (simp_all add: record_answer_def)

lemma asked_frame [loop_frame]:
  "ls_rounds (asked render en u n s) = ls_rounds s" "ls_messages (asked render en u n s) = ls_messages s"
  "ls_steering_bonus (asked render en u n s) = ls_steering_bonus s"
  "ls_guard_bonus (asked render en u n s) = ls_guard_bonus s"
  "ls_guard_corrections (asked render en u n s) = ls_guard_corrections s"
  "ls_inbox (asked render en u n s) = ls_inbox s" "ls_pending (asked render en u n s) = ls_pending s"
  "ls_arrived (asked render en u n s) = ls_arrived s" "ls_delivered (asked render en u n s) = ls_delivered s"
  "ls_tool_calls (asked render en u n s) = ls_tool_calls s" "ls_cap_spend (asked render en u n s) = ls_cap_spend s"
  "ls_requests (asked render en u n s) = ls_requests s @ [(ls_cap_spend s, build_request render u n s)]"
  by (simp_all add: asked_def)

lemma counted_retry_frame [loop_frame]:
  "ls_rounds (counted_retry s) = ls_rounds s + 1" "ls_messages (counted_retry s) = ls_messages s"
  "ls_steering_bonus (counted_retry s) = ls_steering_bonus s"
  "ls_guard_bonus (counted_retry s) = ls_guard_bonus s"
  "ls_guard_corrections (counted_retry s) = ls_guard_corrections s"
  "ls_inbox (counted_retry s) = ls_inbox s" "ls_pending (counted_retry s) = ls_pending s"
  "ls_arrived (counted_retry s) = ls_arrived s" "ls_delivered (counted_retry s) = ls_delivered s"
  "ls_tool_calls (counted_retry s) = ls_tool_calls s" "ls_cap_spend (counted_retry s) = ls_cap_spend s"
  "ls_requests (counted_retry s) = ls_requests s"
  by (simp_all add: counted_retry_def)

lemma result_simps [simp]:
  "lr_finish (result_with_content c fin s) = fin" "lr_final_content (result_with_content c fin s) = c"
  "lr_rounds_used (result_with_content c fin s) = ls_rounds s"
  "lr_tool_calls_made (result_with_content c fin s) = ls_tool_calls s"
  "lr_cap_spend (result_with_content c fin s) = ls_cap_spend s"
  "lr_finish (result fin s) = fin" "lr_rounds_used (result fin s) = ls_rounds s"
  "lr_tool_calls_made (result fin s) = ls_tool_calls s" "lr_cap_spend (result fin s) = ls_cap_spend s"
  "lr_final_content (result fin s) = ls_content s"
  by (simp_all add: result_def result_with_content_def)

lemma cut_short_parts:
  obtains (goes) s1 where "s1 = s\<lparr>ls_token_retries := ls_token_retries s + 1\<rparr>"
      "cut_short r s = Goes (s1\<lparr>ls_messages := ls_messages s1 @ [msg_assistant (rs_content r), msg_user keep_going_prompt]\<rparr>)"
  | (ends) s1 where "s1 = s\<lparr>ls_token_retries := ls_token_retries s + 1\<rparr>"
      "cut_short r s = Ends (result_with_content (rs_content r) FTruncated s1) s1"
  by (cases "Suc (ls_token_retries s) \<le> MAX_TOKENS_RETRIES") (simp_all add: cut_short_def Let_def)

end
