(* ===== verification/Loop_Properties.thy ===== *)
theory Loop_Properties
  imports Loop_Laws
begin

text \<open>
  The properties of the agentic loop: bounded rounds and termination, the cost cap, the tool budget,
  the pairing of tool calls and results, the order of steering messages, the answer guard, and what
  the session log and the model are told of a tool result.
\<close>

section \<open>Rounds and requests\<close>

definition guard_rounds_left :: "loop_setup \<Rightarrow> nat" where
  "guard_rounds_left u = (if lf_guard (su_config u) = None then 0 else 1)"

definition round_cap :: "loop_setup \<Rightarrow> bool \<Rightarrow> nat" where
  "round_cap u steered =
     (let m = lf_max_rounds (su_config u) in if steered then 2 * m else min (m + guard_rounds_left u) (2 * m))"

definition tool_budget :: "loop_setup \<Rightarrow> nat \<Rightarrow> bool" where
  "tool_budget u n =
     (case su_policy u of
        None \<Rightarrow> True
      | Some p \<Rightarrow> (case sp_max_tool_calls p of None \<Rightarrow> True | Some m \<Rightarrow> n \<le> unat m))"

definition bonus_ok :: "loop_setup \<Rightarrow> 'w loop_state \<Rightarrow> bool" where
  "bonus_ok u s = (ls_guard_bonus s \<le> guard_rounds_left u \<and> (ls_inbox s = None \<longrightarrow> ls_steering_bonus s = 0)
      \<and> tool_budget u (ls_tool_calls s))"

definition between_rounds :: "loop_setup \<Rightarrow> bool \<Rightarrow> 'w loop_state \<Rightarrow> bool" where
  "between_rounds u b s =
     (bonus_ok u s \<and> (ls_inbox s \<noteq> None) = b \<and> length (ls_requests s) = ls_rounds s \<and> ls_rounds s \<le> round_cap u b
      \<and> ls_tool_calls s \<le> lf_max_tools_per_round (su_config u) * ls_rounds s)"

definition while_asking :: "loop_setup \<Rightarrow> bool \<Rightarrow> 'w loop_state \<Rightarrow> bool" where
  "while_asking u b s =
     (bonus_ok u s \<and> (ls_inbox s \<noteq> None) = b \<and> length (ls_requests s) = ls_rounds s + 1 \<and> ls_rounds s < round_cap u b
      \<and> ls_tool_calls s \<le> lf_max_tools_per_round (su_config u) * ls_rounds s)"

definition when_answered :: "loop_setup \<Rightarrow> bool \<Rightarrow> 'w loop_state \<Rightarrow> bool" where
  "when_answered u b s =
     (bonus_ok u s \<and> (ls_inbox s \<noteq> None) = b \<and> length (ls_requests s) = ls_rounds s \<and> ls_rounds s \<le> round_cap u b
      \<and> ls_tool_calls s + lf_max_tools_per_round (su_config u) \<le> lf_max_tools_per_round (su_config u) * ls_rounds s)"

definition at_exit :: "loop_setup \<Rightarrow> bool \<Rightarrow> loop_result \<Rightarrow> 'w loop_state \<Rightarrow> bool" where
  "at_exit u b r s =
     (lr_rounds_used r = ls_rounds s \<and> lr_tool_calls_made r = ls_tool_calls s
      \<and> ls_rounds s \<le> length (ls_requests s) \<and> length (ls_requests s) \<le> ls_rounds s + 1
      \<and> length (ls_requests s) \<le> round_cap u b \<and> tool_budget u (ls_tool_calls s)
      \<and> ls_tool_calls s \<le> lf_max_tools_per_round (su_config u) * ls_rounds s)"

lemmas round_counts = between_rounds_def while_asking_def when_answered_def at_exit_def bonus_ok_def

lemma steered_max: "bonus_ok u s \<Longrightarrow> (ls_inbox s \<noteq> None) = b \<Longrightarrow> effective_max_rounds u s \<le> round_cap u b"
  by (cases "ls_inbox s") (auto simp: effective_max_rounds_def round_cap_def bonus_ok_def Let_def)

lemma run_batch_calls: "run_batch lc hash u cx ws i tcs = Some rs \<Longrightarrow> map fst rs = tcs"
  by (induction tcs arbitrary: i rs) (auto split: option.splits)

lemma calls_of_le: "length (calls_of u r s) \<le> lf_max_tools_per_round (su_config u)"
  by (auto simp: calls_of_def split_calls_def Let_def min_def split: option.split)

lemma calls_of_budget: "tool_budget u (ls_tool_calls s) \<Longrightarrow> tool_budget u (ls_tool_calls s + length (calls_of u r s))"
  by (auto simp: tool_budget_def calls_of_def split_calls_def Let_def split: option.splits)

lemma fold_take_calls: "ls_tool_calls (fold (take_result en u) rs s) = ls_tool_calls s + length rs"
  by (induction rs arbitrary: s) (simp_all add: loop_frame)

lemma batch_taken_calls:
  "ls_tool_calls (batch_taken en u r rs s) = ls_tool_calls s + length rs"
  by (simp add: batch_taken_def Let_def fold_take_calls loop_frame)

lemma inbox_frame:
  "(ls_inbox (steering_drain en u s) = None) = (ls_inbox s = None)"
  "(ls_inbox (return_pending_steering en s) = None) = (ls_inbox s = None)"
  "ls_inbox s = None \<Longrightarrow> ls_steering_bonus (steering_drain en u s) = ls_steering_bonus s"
  "ls_steering_bonus (return_pending_steering en s) = ls_steering_bonus s"
  by (simp_all add: steering_drain_def return_pending_steering_def drain_all_def meanwhile_def Let_def loop_frame
      split: option.split prod.split)

lemma tools_bounded:
  assumes "when_answered u b s"
  shows "flow_into (between_rounds u b) (at_exit u b) (execute_tools lc hash en u r s)"
proof (cases rule: execute_tools_parts [of lc hash en u r s])
  case (taken rs)
  have n: "length rs = length (calls_of u r s)" using run_batch_calls [OF taken(1)] by (metis length_map)
  then have "length rs \<le> lf_max_tools_per_round (su_config u)" using calls_of_le [of u r s] by simp
  moreover have "tool_budget u (ls_tool_calls s + length rs)"
    using calls_of_budget [of u s r] assms n by (simp add: round_counts)
  ultimately show ?thesis
    using assms unfolding taken(2) by (simp add: round_counts batch_taken_calls loop_frame)
qed (use assms in \<open>auto simp: round_counts loop_frame\<close>)

lemma finish_bounded:
  assumes "when_answered u b s"
  shows "flow_into (between_rounds u b) (at_exit u b) (finish_answer en u r s)"
proof (cases rule: finish_answer_parts [of en s u r])
  case (heard ib)
  then have "ls_inbox s \<noteq> None" using meanwhile_frame(12) [of en s] by simp
  then show ?thesis using assms unfolding heard(3) by (auto simp: round_counts loop_frame)
qed (use assms in \<open>auto simp: round_counts guard_rounds_left_def loop_frame\<close>)

lemma cut_bounded:
  assumes "when_answered u b s"
  shows "flow_into (between_rounds u b) (at_exit u b) (cut_short r s)"
  using assms by (cases rule: cut_short_parts [of s r]) (auto simp: round_counts)

interpretation rounds: loop_outline lc render hash en u
  "between_rounds u b" "while_asking u b" "when_answered u b" "at_exit u b"
proof unfold_locales
  show "flow_into (between_rounds u b) (at_exit u b) (execute_tools lc hash en u r s)"
    if "when_answered u b s" for r s
    using that by (rule tools_bounded)
  show "flow_into (between_rounds u b) (at_exit u b) (cut_short r s)" if "when_answered u b s" for r s
    using that by (rule cut_bounded)
  show "flow_into (between_rounds u b) (at_exit u b) (finish_answer en u r s)" if "when_answered u b s" for r s
    using that by (rule finish_bounded)
  show "while_asking u b (asked render en u n s)"
    if "between_rounds u b s" "ls_rounds s < effective_max_rounds u s" for n s
    using that steered_max [of u s b] by (auto simp: round_counts loop_frame)
qed (auto simp: round_counts loop_frame inbox_frame)


section \<open>A demonstration run\<close>

text \<open>
  A world that counts the awaits. The model asks for the demonstration tool, then answers; a person
  approves the tool; others push one message into the inbox while the first request is out.
\<close>

definition demo_answer :: "string \<Rightarrow> tool_call list \<Rightarrow> chat_response" where
  "demo_answer content calls =
     \<lparr>rs_content = content, rs_tool_calls = calls, rs_model = ''m'', rs_usage = usage_default,
      rs_finish_reason = (if calls = [] then FinStop else FinToolUse), rs_thinking = None, rs_parts = None\<rparr>"

definition demo_env :: "nat loop_env" where
  "demo_env =
     \<lparr>en_cancelled = (\<lambda>w. False), en_agent_cost = (\<lambda>i o' w. 0), en_others_spend = (\<lambda>w. []),
      en_others = (\<lambda>w. if w = 1 then [IPush (demo_msg ''a'')] else []), en_summarize = (\<lambda>w st ms. Err ''''),
      en_summary_cancelled = (\<lambda>w. False), en_stamp = (\<lambda>w. ''''),
      en_complete = (\<lambda>rq w. if length (lq_messages rq) \<le> 1 then Came (Inr (demo_answer '''' [demo_call]))
                            else Came (Inr (demo_answer ''d'' []))),
      en_tool = (\<lambda>w i. (demo_world, demo_sandbox)), en_batch_cancelled = (\<lambda>w. False),
      en_backoff_cancelled = (\<lambda>w. False), en_fresh_tag = (\<lambda>w. ''t''), en_next = Suc\<rparr>"

definition demo_setup :: loop_setup where
  "demo_setup =
     \<lparr>su_config = loop_config_default\<lparr>lf_max_rounds := 3\<rparr>, su_tools = [],
      su_registry = Some (sb_registry demo_sandbox), su_policy = Some demo_sandbox_policy, su_agent_id = ''a'',
      su_task_id = None, su_budget = None, su_context = Some demo_ctx, su_routed = False,
      su_extension = (\<lambda>n. None)\<rparr>"


section \<open>Running to an end\<close>

lemma step_confirm_return: "step_confirm hash call p cx w s = (Return r, s') \<Longrightarrow> \<exists>e. r = Err e"
  by (auto simp: step_confirm_def raise_prompt_def after_prompt_def Let_def
      split: if_splits sum.splits option.splits confirmation_resolution.splits prod.splits flow.splits)

lemma step_confirm_awaited:
  "\<not> w_wait_dropped w \<Longrightarrow> fst (step_confirm hash call p cx w s) \<noteq> Dropped"
  by (auto simp: step_confirm_def raise_prompt_def after_prompt_def Let_def
      split: if_splits sum.splits option.splits confirmation_resolution.splits prod.splits flow.splits)

definition answers :: "Sandbox.world \<Rightarrow> bool" where
  "answers w = (\<not> w_wait_dropped w \<and> w_answer w \<noteq> None)"

lemma execute_tool_answers:
  assumes "answers w"
  shows "fst (execute_tool lc hash call p cx w s) \<noteq> None"
proof (cases rule: execute_tool_cases [of lc hash call p cx w s])
  case (confirm f s3)
  then obtain r where f: "f = Return r"
    using step_confirm_awaited [of w hash call p cx s] assms by (cases f) (auto simp: answers_def)
  have "fst (execute_tool lc hash call p cx w s) = None \<Longrightarrow> False"
    using confirm(1) f
    by (auto simp: execute_tool_def step_capability_def step_sanitize_def Let_def split: sum.splits if_splits)
  then show ?thesis by blast
next
  case (run a s3)
  then show ?thesis
    using assms by (auto simp: step_execute_def Let_def answers_def split: tool_answer.splits option.splits)
qed simp_all

lemma run_batch_answers:
  assumes "\<And>i. answers (fst (ws i))"
  shows "run_batch lc hash u cx ws i tcs \<noteq> None"
proof (induction tcs arbitrary: i)
  case (Cons tc tcs)
  have "run_call lc hash u cx tc (ws i) \<noteq> None"
  proof (cases "su_policy u")
    case (Some p)
    then show ?thesis
      using execute_tool_answers [OF assms [of i], of lc hash tc p cx "snd (ws i)"]
      by (auto simp: run_call_def split: option.split sum.split)
  next
    case None
    then show ?thesis by (cases "su_registry u") (simp_all add: run_call_def option.distinct)
  qed
  then show ?case using Cons [of "Suc i"] by auto
qed simp

lemma round_answers:
  assumes "\<And>rq w. en_complete en rq w \<noteq> Hung" "\<And>w i. answers (fst (en_tool en w i))"
  shows "loop_round lc render hash en u s \<noteq> Hangs"
proof (cases rule: loop_round_parts [of lc render hash en u s])
  case (call t)
  let ?n = "pressure_notice u (charge en s)" and ?s3 = "steering_drain en u (compaction_step lc render en u (charge en s))"
  have "execute_tools lc hash en u r s1 \<noteq> Hangs" for r s1
  proof (cases rule: execute_tools_parts [of lc hash en u r s1])
    case dropped
    have "run_batch lc hash u (effective_context u (calls_logged u r s1))
        (en_tool en (ls_world (calls_logged u r s1))) 0 (calls_of u r s1) \<noteq> None"
      by (rule run_batch_answers) (rule assms(2))
    then show ?thesis using dropped(1) by blast
  qed simp_all
  moreover have "cut_short r s1 \<noteq> Hangs" for r and s1 :: "'a loop_state"
    by (cases rule: cut_short_parts [of s1 r]) simp_all
  moreover have "finish_answer en u r s1 \<noteq> Hangs" for r s1
    by (cases rule: finish_answer_parts [of en s1 u r]) simp_all
  ultimately have "on_answer lc hash en u t r s1 \<noteq> Hangs" for r s1
    by (cases rule: on_answer_parts [of lc u r hash en t s1]) simp_all
  moreover have "on_error lc en u e s1 \<noteq> Hangs" for e s1
    by (cases rule: on_error_parts [of s1 u lc en e]) simp_all
  ultimately show ?thesis
    unfolding call(3) using assms(1)
    by (auto simp: model_call_def Let_def split: awaited.split sum.split)
qed simp_all

lemma loop_run_answers:
  assumes "\<And>rq w. en_complete en rq w \<noteq> Hung" "\<And>w i. answers (fst (en_tool en w i))"
  shows "\<exists>r s'. loop_run lc render hash en u s = Some (r, s')"
proof (induction "2 * lf_max_rounds (su_config u) - ls_rounds s" arbitrary: s rule: less_induct)
  case less
  show ?case
  proof (cases "loop_round lc render hash en u s")
    case (Goes s1)
    then have "2 * lf_max_rounds (su_config u) - ls_rounds s1 < 2 * lf_max_rounds (su_config u) - ls_rounds s"
      using loop_round_progress [OF Goes] by simp
    then show ?thesis using less.hyps Goes by (simp add: loop_run.simps [of lc render hash en u s])
  next
    case Hangs
    then show ?thesis using round_answers [OF assms] by blast
  qed (simp add: loop_run.simps [of lc render hash en u s])
qed

lemma agentic_run:
  assumes "run_agentic_loop lc render hash en u acc ib lg msgs w = Some (r, s)"
  obtains s0 where "loop_run lc render hash en u (loop_start en acc ib lg msgs w) = Some (r, s0)"
    "s = narrate_exit u r s0"
  using assms by (auto simp: run_agentic_loop_def)

lemma narrate_exit_frame [loop_frame]:
  "ls_rounds (narrate_exit u r s) = ls_rounds s" "ls_messages (narrate_exit u r s) = ls_messages s"
  "ls_inbox (narrate_exit u r s) = ls_inbox s" "ls_pending (narrate_exit u r s) = ls_pending s"
  "ls_arrived (narrate_exit u r s) = ls_arrived s" "ls_delivered (narrate_exit u r s) = ls_delivered s"
  "ls_tool_calls (narrate_exit u r s) = ls_tool_calls s" "ls_cap_spend (narrate_exit u r s) = ls_cap_spend s"
  "ls_requests (narrate_exit u r s) = ls_requests s"
  "ls_guard_corrections (narrate_exit u r s) = ls_guard_corrections s"
  by (simp_all add: narrate_exit_def Let_def loop_frame split: loop_finish.split)

lemma demo_returns:
  "\<exists>r s. run_agentic_loop ascii_lower (\<lambda>v. '''') hash0 demo_env demo_setup acc_new ib lg msgs w = Some (r, s)"
proof -
  have "\<exists>r s'. loop_run ascii_lower (\<lambda>v. '''') hash0 demo_env demo_setup s = Some (r, s')" for s
    by (rule loop_run_answers) (simp_all add: demo_env_def answers_def demo_world_def)
  then show ?thesis by (fastforce simp: run_agentic_loop_def)
qed

section \<open>Bounds\<close>






section \<open>The cost cap\<close>

definition within_cap :: "loop_setup \<Rightarrow> 'w loop_state \<Rightarrow> bool" where
  "within_cap u s = list_all (\<lambda>(spent, rq). spent \<le> lf_max_cost (su_config u)) (ls_requests s)"

definition cap_at_exit :: "loop_setup \<Rightarrow> loop_result \<Rightarrow> 'w loop_state \<Rightarrow> bool" where
  "cap_at_exit u r s =
     (within_cap u s \<and> lr_cap_spend r = ls_cap_spend s
      \<and> (lr_finish r = FCostExceeded \<longrightarrow> lf_max_cost (su_config u) < lr_cap_spend r))"

lemmas cap_defs = within_cap_def cap_at_exit_def

interpretation cap: loop_outline lc render hash en u
  "within_cap u" "within_cap u" "within_cap u" "cap_at_exit u"
proof unfold_locales
  show "flow_into (within_cap u) (cap_at_exit u) (execute_tools lc hash en u r s)" if "within_cap u s" for r s
    using that by (cases rule: execute_tools_parts [of lc hash en u r s]) (auto simp: cap_defs loop_frame)
  show "flow_into (within_cap u) (cap_at_exit u) (cut_short r s)" if "within_cap u s" for r s
    using that by (cases rule: cut_short_parts [of s r]) (auto simp: cap_defs)
  show "flow_into (within_cap u) (cap_at_exit u) (finish_answer en u r s)" if "within_cap u s" for r s
    using that by (cases rule: finish_answer_parts [of en s u r]) (auto simp: cap_defs loop_frame)
qed (auto simp: cap_defs loop_frame)



section \<open>The answer guard\<close>

definition guard_state :: "loop_setup \<Rightarrow> 'w loop_state \<Rightarrow> bool" where
  "guard_state u s = (ls_guard_corrections s \<le> 1)"

definition guard_at_exit :: "loop_setup \<Rightarrow> loop_result \<Rightarrow> 'w loop_state \<Rightarrow> bool" where
  "guard_at_exit u r s =
     (ls_guard_corrections s \<le> 1
      \<and> (case lf_guard (su_config u) of
           None \<Rightarrow> True
         | Some review \<Rightarrow>
             lr_finish r = FComplete \<longrightarrow> review (lr_final_content r) = None
               \<or> (\<exists>x c. review x = Some c \<and> lr_final_content r = annotate x c \<and> ls_guard_corrections s = 1)))"

lemmas guard_defs = guard_state_def guard_at_exit_def

lemma guard_finishes:
  assumes "guard_state u s"
  shows "flow_into (guard_state u) (guard_at_exit u) (finish_answer en u r s)"
proof (cases rule: finish_answer_parts [of en s u r])
  case (annotated review c)
  then have "ls_guard_corrections s = 1" using assms by (simp add: guard_state_def)
  then show ?thesis using annotated by (auto simp: guard_defs loop_frame)
qed (use assms in \<open>simp_all add: guard_defs loop_frame\<close>)

interpretation guard: loop_outline lc render hash en u
  "guard_state u" "guard_state u" "guard_state u" "guard_at_exit u"
proof unfold_locales
  show "flow_into (guard_state u) (guard_at_exit u) (execute_tools lc hash en u r s)" if "guard_state u s" for r s
    using that
    by (cases rule: execute_tools_parts [of lc hash en u r s]) (auto simp: guard_defs loop_frame split: option.split)
  show "flow_into (guard_state u) (guard_at_exit u) (cut_short r s)" if "guard_state u s" for r s
    using that by (cases rule: cut_short_parts [of s r]) (auto simp: guard_defs split: option.split)
  show "flow_into (guard_state u) (guard_at_exit u) (finish_answer en u r s)" if "guard_state u s" for r s
    using that by (rule guard_finishes)
qed (auto simp: guard_defs loop_frame split: option.split)

text \<open>A completed answer passed the answer guard, or says so. When the loop has a guard and ends as complete, either the guard has no objection to the text the loop returns, or the text is an answer the guard objects to with the guard's own note put under it, and the model was given its one corrective round before; there is never a second one.\<close>

theorem answer_guard_honest:
  assumes "run_agentic_loop lc render hash en u acc ib lg msgs w = Some (r, s)"
    and "lf_guard (su_config u) = Some review" and "lr_finish r = FComplete"
  shows "ls_guard_corrections s \<le> 1
    \<and> (review (lr_final_content r) = None
       \<or> (\<exists>x c. review x = Some c \<and> lr_final_content r = annotate x c \<and> ls_guard_corrections s = 1))"
proof -
  obtain s0 where r: "loop_run lc render hash en u (loop_start en acc ib lg msgs w) = Some (r, s0)"
    and s: "s = narrate_exit u r s0" using assms(1) by (rule agentic_run)
  have "guard_state u (loop_start en acc ib lg msgs w)" by (simp add: guard_state_def loop_start_def)
  then have "guard_at_exit u r s0" by (rule guard.run_into [OF r])
  then show ?thesis using assms(2,3) by (simp add: s loop_frame guard_at_exit_def)
qed

lemmas stubborn_round =
  loop_round_def Let_def charge_def total_usd_def compaction_step_def steering_drain_def meanwhile_def model_call_def
  on_answer_def access_violation_def record_answer_def finish_answer_def completion_guard_def note_answer_def
  log_event_def

definition stubborn_env :: "nat loop_env" where
  "stubborn_env = demo_env\<lparr>en_complete := \<lambda>rq w. Came (Inr (demo_answer ''d'' []))\<rparr>"

definition guarded_setup :: loop_setup where
  "guarded_setup = demo_setup\<lparr>su_config := loop_config_default\<lparr>lf_max_rounds := 3,
     lf_guard := Some (\<lambda>x. Some \<lparr>co_note = ''n'', co_runtime_note = ''r''\<rparr>)\<rparr>\<rparr>"

lemma stubborn_simps [simp]:
  "en_cancelled stubborn_env w = False" "en_agent_cost stubborn_env i ot w = 0" "en_others_spend stubborn_env w = []"
  "en_complete stubborn_env rq w = Came (Inr (demo_answer ''d'' []))" "en_next stubborn_env w = Suc w"
  "su_budget guarded_setup = None" "lf_max_rounds (su_config guarded_setup) = 3"
  "lf_max_cost (su_config guarded_setup) = 1" "su_routed guarded_setup = False"
  "lf_guard (su_config guarded_setup) = Some (\<lambda>x. Some \<lparr>co_note = ''n'', co_runtime_note = ''r''\<rparr>)"
  "rs_content (demo_answer c tcs) = c" "rs_tool_calls (demo_answer c tcs) = tcs"
  "rs_finish_reason (demo_answer c tcs) = (if tcs = [] then FinStop else FinToolUse)"
  by (simp_all add: stubborn_env_def guarded_setup_def demo_env_def demo_setup_def demo_answer_def loop_config_default_def)

lemma stubborn_corrected:
  assumes "ls_rounds s < effective_max_rounds guarded_setup s" "ls_acc s = 0" "ls_inbox s = None" "ls_last_cost s = 0"
    "ls_guard_corrections s = 0" "ls_log s = None"
  shows "\<exists>s1. loop_round ascii_lower (\<lambda>v. '''') hash0 stubborn_env guarded_setup s = Goes s1
     \<and> ls_guard_corrections s1 = 1 \<and> ls_rounds s1 = ls_rounds s + 1 \<and> ls_steering_bonus s1 = ls_steering_bonus s
     \<and> ls_guard_bonus s1 = 1 \<and> ls_inbox s1 = None \<and> ls_acc s1 = 0 \<and> ls_last_cost s1 = 0 \<and> ls_log s1 = None"
  using assms by (simp add: stubborn_round)

lemma stubborn_annotated:
  assumes "ls_rounds s < effective_max_rounds guarded_setup s" "ls_acc s = 0" "ls_inbox s = None" "ls_last_cost s = 0"
    "ls_guard_corrections s = 1" "ls_log s = None"
  shows "\<exists>s1. loop_round ascii_lower (\<lambda>v. '''') hash0 stubborn_env guarded_setup s
     = Ends (result_with_content (annotate ''d'' \<lparr>co_note = ''n'', co_runtime_note = ''r''\<rparr>) FComplete s1) s1"
  using assms by (simp add: stubborn_round)

theorem answer_guard_honest_witness:
  "\<exists>r s. run_agentic_loop ascii_lower (\<lambda>v. '''') hash0 stubborn_env guarded_setup acc_new None None [msg_user ''q''] 0
      = Some (r, s) \<and> lr_final_content r = annotate ''d'' \<lparr>co_note = ''n'', co_runtime_note = ''r''\<rparr>
      \<and> ls_guard_corrections s = 1"
proof -
  let ?c = "\<lparr>co_note = ''n'', co_runtime_note = ''r''\<rparr>"
  let ?s0 = "loop_start stubborn_env acc_new None None [msg_user ''q''] 0"
  obtain s1 where 1: "loop_round ascii_lower (\<lambda>v. '''') hash0 stubborn_env guarded_setup ?s0 = Goes s1"
    and f: "ls_guard_corrections s1 = 1" "ls_rounds s1 = 1" "ls_steering_bonus s1 = 0" "ls_guard_bonus s1 = 1"
      "ls_inbox s1 = None" "ls_acc s1 = 0" "ls_last_cost s1 = 0" "ls_log s1 = None"
    using stubborn_corrected [of ?s0] by (auto simp: loop_start_def effective_max_rounds_def acc_new_def)
  obtain s2 where 2: "loop_round ascii_lower (\<lambda>v. '''') hash0 stubborn_env guarded_setup s1
      = Ends (result_with_content (annotate ''d'' ?c) FComplete s2) s2"
    using stubborn_annotated [of s1] f by (auto simp: effective_max_rounds_def)
  obtain r s where run: "run_agentic_loop ascii_lower (\<lambda>v. '''') hash0 stubborn_env guarded_setup acc_new None None
      [msg_user ''q''] 0 = Some (r, s)" and r: "r = result_with_content (annotate ''d'' ?c) FComplete s2"
    using 1 2 by (simp add: run_agentic_loop_def loop_run.simps [of ascii_lower "\<lambda>v. ''''" hash0 stubborn_env guarded_setup])
  show ?thesis
    using answer_guard_honest [OF run, of "\<lambda>x. Some ?c"] run r by (auto simp: result_with_content_def)
qed

section \<open>The conversation\<close>

text \<open>
  The calls a conversation still owes a result for: a tool message answers the first of them, and
  no other message may come while one is open. \<open>None\<close> is a conversation a provider refuses.
\<close>

fun open_calls :: "string list \<Rightarrow> chat_message list \<Rightarrow> string list option" where
  "open_calls ids [] = Some ids"
| "open_calls ids (m # ms) =
     (if cm_role m = RTool
      then (case ids of
              [] \<Rightarrow> None
            | i # rest \<Rightarrow> if cm_tool_call_id m = Some i then open_calls rest ms else None)
      else if ids \<noteq> [] then None
      else open_calls (case cm_tool_calls m of None \<Rightarrow> [] | Some tcs \<Rightarrow> map tc_id tcs) ms)"

definition well_paired :: "chat_message list \<Rightarrow> bool" where
  "well_paired ms = (open_calls [] ms = Some [])"

lemma open_calls_append:
  "open_calls ids (xs @ ys) = Option.bind (open_calls ids xs) (\<lambda>rest. open_calls rest ys)"
  by (induction ids xs rule: open_calls.induct) (simp_all split: list.split)

lemma open_calls_results:
  assumes "list_all2 (\<lambda>i m. cm_role m = RTool \<and> cm_tool_call_id m = Some i) ids ms"
  shows "open_calls (ids @ rest) ms = Some rest"
  using assms by (induction rule: list_all2_induct) simp_all

lemma message_simps [simp]:
  "cm_role (msg_of k c) = k" "cm_tool_calls (msg_of k c) = None"
  "cm_role (tool_result i c) = RTool" "cm_tool_call_id (tool_result i c) = Some i"
  "cm_role (tool_error i c) = RTool" "cm_tool_call_id (tool_error i c) = Some i"
  "cm_role (refusal why tc) = RTool" "cm_tool_call_id (refusal why tc) = Some (tc_id tc)"
  by (simp_all add: msg_of_def tool_result_def tool_error_def refusal_def)

lemma plain_keeps_pairs:
  assumes "well_paired ms" "\<forall>m \<in> set new. cm_role m \<noteq> RTool \<and> cm_tool_calls m = None"
  shows "well_paired (ms @ new)"
proof -
  have "open_calls [] new = Some []" using assms(2) by (induction new) simp_all
  then show ?thesis using assms(1) by (simp add: well_paired_def open_calls_append)
qed

lemma answered_keeps_pairs:
  assumes "well_paired ms" "rs_tool_calls r \<noteq> []"
    and "list_all2 (\<lambda>i m. cm_role m = RTool \<and> cm_tool_call_id m = Some i) (map tc_id (rs_tool_calls r)) results"
  shows "well_paired (ms @ assistant_with_tools r # results)"
proof -
  have "open_calls (map tc_id (rs_tool_calls r)) results = Some []"
    using open_calls_results [OF assms(3), of "[]"] by simp
  then show ?thesis
    using assms(1,2) by (simp add: well_paired_def open_calls_append assistant_with_tools_def msg_of_def)
qed


lemma split_calls_all:
  assumes "split_calls u made calls = (ex, ov, over)"
  shows "ex @ ov @ over = calls"
proof -
  let ?k = "min (length calls) (lf_max_tools_per_round (su_config u))"
  have "take l (take ?k calls) @ drop l (take ?k calls) @ drop ?k calls = calls" for l
    unfolding append_assoc [symmetric] append_take_drop_id ..
  then show ?thesis
    using assms by (auto simp: split_calls_def Let_def simp del: take_take split: option.splits)
qed

lemma take_result_messages:
  "\<exists>m. ls_messages (take_result en u r s) = ls_messages s @ [m] \<and> cm_role m = RTool
     \<and> cm_tool_call_id m = Some (tc_id (fst r))"
  by (auto simp: take_result_def spill_plan_def log_spill_event_def Let_def split: option.split prod.split)

lemma fold_take_messages:
  "\<exists>ms. ls_messages (fold (take_result en u) rs s) = ls_messages s @ ms
     \<and> list_all2 (\<lambda>i m. cm_role m = RTool \<and> cm_tool_call_id m = Some i) (map (\<lambda>r. tc_id (fst r)) rs) ms"
proof (induction rs arbitrary: s)
  case (Cons r rs)
  obtain m where m: "ls_messages (take_result en u r s) = ls_messages s @ [m]" "cm_role m = RTool"
    "cm_tool_call_id m = Some (tc_id (fst r))" using take_result_messages by blast
  obtain ms where "ls_messages (fold (take_result en u) rs (take_result en u r s)) = ls_messages s @ [m] @ ms"
    "list_all2 (\<lambda>i m. cm_role m = RTool \<and> cm_tool_call_id m = Some i) (map (\<lambda>r. tc_id (fst r)) rs) ms"
    using Cons [of "take_result en u r s"] m(1) by auto
  then show ?case using m(2,3) by (intro exI [of _ "m # ms"]) simp
qed simp

lemma batch_taken_paired:
  assumes "run_batch lc hash u cx ws i (calls_of u r s) = Some rs" "well_paired (ls_messages s)"
    "rs_tool_calls r \<noteq> []"
  shows "well_paired (ls_messages (batch_taken en u r rs s))"
proof -
  obtain ex ov over where p: "split_calls u (ls_tool_calls s) (rs_tool_calls r) = (ex, ov, over)"
    by (metis prod_cases3)
  have calls: "ex @ ov @ over = rs_tool_calls r" using p by (rule split_calls_all)
  have rs: "map fst rs = ex" using run_batch_calls [OF assms(1)] p by (simp add: calls_of_def)
  define s2 where "s2 = (calls_logged u r s)\<lparr>ls_world := en_next en (ls_world (calls_logged u r s))\<rparr>"
  obtain ms where ms: "ls_messages (fold (take_result en u) rs s2) = ls_messages s2 @ ms"
    and ids: "list_all2 (\<lambda>i m. cm_role m = RTool \<and> cm_tool_call_id m = Some i) (map (\<lambda>r. tc_id (fst r)) rs) ms"
    using fold_take_messages [of en u rs s2] by blast
  have refused: "list_all2 (\<lambda>i m. cm_role m = RTool \<and> cm_tool_call_id m = Some i) (map tc_id (ov @ over))
      (refusals_of u r s)"
    using p by (simp add: refusals_of_def list_all2_map1 list_all2_map2 list_all2_append list.rel_refl)
  have "map (\<lambda>r. tc_id (fst r)) rs = map tc_id ex" using rs by (auto simp: map_map comp_def)
  then have "list_all2 (\<lambda>i m. cm_role m = RTool \<and> cm_tool_call_id m = Some i) (map tc_id (rs_tool_calls r))
      (ms @ refusals_of u r s)"
    using ids refused unfolding calls [symmetric] by (simp add: list_all2_appendI)
  then have "well_paired (ls_messages s @ assistant_with_tools r # ms @ refusals_of u r s)"
    using assms(2,3) by (intro answered_keeps_pairs)
  then show ?thesis
    using ms by (simp add: batch_taken_def Let_def s2_def loop_frame)
qed


definition requests_paired :: "loop_setup \<Rightarrow> 'w loop_state \<Rightarrow> bool" where
  "requests_paired u s =
     (su_budget u = None \<longrightarrow> list_all (\<lambda>(spent, rq). well_paired (lq_messages rq)) (ls_requests s))"

definition all_paired :: "loop_setup \<Rightarrow> 'w loop_state \<Rightarrow> bool" where
  "all_paired u s = (requests_paired u s \<and> (su_budget u = None \<longrightarrow> well_paired (ls_messages s)))"

lemmas paired_defs = requests_paired_def all_paired_def

lemma interjections_plain: "m \<in> set (user_interjections ms) \<Longrightarrow> cm_role m \<noteq> RTool \<and> cm_tool_calls m = None"
  by (auto simp: user_interjections_def msg_user_def)

lemma drain_paired: "well_paired (ls_messages s) \<Longrightarrow> well_paired (ls_messages (steering_drain en u s))"
  using plain_keeps_pairs [of "ls_messages s", OF _ ballI, OF _ interjections_plain]
  by (auto simp: steering_drain_def drain_all_def Let_def loop_frame split: option.split)

lemma tools_paired:
  assumes "all_paired u s" "rs_tool_calls r \<noteq> []"
  shows "flow_into (all_paired u) (\<lambda>r. requests_paired u) (execute_tools lc hash en u r s)"
proof (cases rule: execute_tools_parts [of lc hash en u r s])
  case (taken rs)
  then show ?thesis
    using assms batch_taken_paired [OF taken(1) _ assms(2), of en] by (auto simp: paired_defs loop_frame)
qed (use assms in \<open>simp_all add: paired_defs loop_frame\<close>)

lemma cut_paired:
  assumes "all_paired u s"
  shows "flow_into (all_paired u) (\<lambda>r. requests_paired u) (cut_short r s)"
  using assms
  by (cases rule: cut_short_parts [of s r])
     (auto simp: paired_defs msg_user_def msg_assistant_def intro!: plain_keeps_pairs)

lemma finish_paired:
  assumes "all_paired u s"
  shows "flow_into (all_paired u) (\<lambda>r. requests_paired u) (finish_answer en u r s)"
  using assms
  by (cases rule: finish_answer_parts [of en s u r])
     (auto simp: paired_defs loop_frame msg_user_def msg_assistant_def intro!: plain_keeps_pairs
       dest: interjections_plain)

interpretation pairs: loop_outline lc render hash en u
  "all_paired u" "all_paired u" "all_paired u" "\<lambda>r. requests_paired u"
proof unfold_locales
  show "flow_into (all_paired u) (\<lambda>r. requests_paired u) (execute_tools lc hash en u r s)"
    if "all_paired u s" "rs_tool_calls r \<noteq> []" for r s
    using that by (rule tools_paired)
  show "flow_into (all_paired u) (\<lambda>r. requests_paired u) (cut_short r s)" if "all_paired u s" for r s
    using that by (rule cut_paired)
  show "flow_into (all_paired u) (\<lambda>r. requests_paired u) (finish_answer en u r s)" if "all_paired u s" for r s
    using that by (rule finish_paired)
  show "all_paired u (compaction_step lc render en u s)" if "all_paired u s" for s
    using that by (auto simp: paired_defs compaction_step_def)
  show "all_paired u (steering_drain en u s)" if "all_paired u s" for s
    using that drain_paired [of s en u] by (simp add: paired_defs loop_frame)
qed (auto simp: paired_defs loop_frame build_request_def Let_def)

text \<open>C3: Every request is a conversation a provider accepts. Without a context budget (so without compaction), and from messages whose tool calls are answered, every request the loop sends has each assistant message's tool calls answered at once, one result per call, in the order of the calls, and no result without its call: whether the calls ran, failed, were refused by the budget or overflowed the round.\<close>

theorem requests_well_paired:
  assumes "run_agentic_loop lc render hash en u acc ib lg msgs w = Some (r, s)"
    and "su_budget u = None" and "well_paired msgs"
  shows "list_all (\<lambda>(spent, rq). well_paired (lq_messages rq)) (ls_requests s)"
proof -
  obtain s0 where r: "loop_run lc render hash en u (loop_start en acc ib lg msgs w) = Some (r, s0)"
    and s: "s = narrate_exit u r s0" using assms(1) by (rule agentic_run)
  have "all_paired u (loop_start en acc ib lg msgs w)"
    using assms(3) by (simp add: paired_defs loop_start_def)
  then have "requests_paired u s0" by (rule pairs.run_into [OF r])
  then show ?thesis using assms(2) by (simp add: s loop_frame requests_paired_def)
qed

theorem requests_well_paired_witness:
  "\<exists>r s. run_agentic_loop ascii_lower (\<lambda>v. '''') hash0 demo_env demo_setup acc_new None None
      [msg_user ''q'', assistant_with_tools (demo_answer '''' [demo_call]), tool_result ''c1'' ''x''] 0 = Some (r, s)
      \<and> list_all (\<lambda>(spent, rq). well_paired (lq_messages rq)) (ls_requests s)"
proof -
  let ?msgs = "[msg_user ''q'', assistant_with_tools (demo_answer '''' [demo_call]), tool_result ''c1'' ''x'']"
  obtain r s where
    run: "run_agentic_loop ascii_lower (\<lambda>v. '''') hash0 demo_env demo_setup acc_new None None ?msgs 0 = Some (r, s)"
    using demo_returns by blast
  have "well_paired ?msgs"
    by (simp add: well_paired_def msg_user_def assistant_with_tools_def demo_answer_def demo_call_def)
  then show ?thesis using requests_well_paired [OF run] run by (simp add: demo_setup_def)
qed


section \<open>Steering\<close>

fun is_push :: "inbox_op \<Rightarrow> bool" where
  "is_push (IPush m) = True"
| "is_push _ = False"

definition only_pushes :: "'w loop_env \<Rightarrow> bool" where
  "only_pushes en = (\<forall>w. list_all is_push (en_others en w))"

definition ordered ::
  "'w loop_env \<Rightarrow> steering_msg list option \<Rightarrow> inbox option \<Rightarrow> steering_msg list \<Rightarrow> steering_msg list
   \<Rightarrow> steering_msg list \<Rightarrow> bool" where
  "ordered en q0 ib arrived delivered pending =
     (only_pushes en \<longrightarrow>
       (case (q0, ib) of
          (None, None) \<Rightarrow> pending = []
        | (Some q, Some i) \<Rightarrow> q @ arrived = delivered @ pending @ ib_queue i
        | _ \<Rightarrow> False))"

definition in_order :: "'w loop_env \<Rightarrow> steering_msg list option \<Rightarrow> 'w loop_state \<Rightarrow> bool" where
  "in_order en q0 s = ordered en q0 (ls_inbox s) (ls_arrived s) (ls_delivered s) (ls_pending s)"

definition nothing_pending :: "'w loop_env \<Rightarrow> steering_msg list option \<Rightarrow> 'w loop_state \<Rightarrow> bool" where
  "nothing_pending en q0 s = (in_order en q0 s \<and> (only_pushes en \<longrightarrow> ls_pending s = []))"

lemmas order_defs = in_order_def nothing_pending_def

lemma pushes_queue:
  assumes "list_all is_push xs" "inbox_run xs ib = (t, ib')"
  shows "ib_queue ib' = ib_queue ib @ it_accepted t"
proof -
  have nothing: "it_taken (fst (inbox_run xs ib)) = [] \<and> it_returned (fst (inbox_run xs ib)) = []"
    using assms(1)
  proof (induction xs arbitrary: ib)
    case (Cons x xs)
    then obtain m where x: "x = IPush m" by (cases x) auto
    obtain r ib1 where p: "inbox_push m ib = (r, ib1)" by fastforce
    obtain t2 ib2 where q: "inbox_run xs ib1 = (t2, ib2)" by fastforce
    then have "it_taken t2 = [] \<and> it_returned t2 = []" using Cons.IH [of ib1] Cons.prems by simp
    then show ?case using x p q by (cases r) simp_all
  qed simp
  then show ?thesis using run_conserves [OF assms(2)] assms(2) by (simp add: conserves_def)
qed

lemma meanwhile_in_order:
  assumes "in_order en q0 s"
  shows "in_order en q0 (meanwhile en s)"
proof (cases "ls_inbox s")
  case None
  then show ?thesis using assms by (simp add: in_order_def meanwhile_def)
next
  case (Some ib)
  obtain t ib' where t: "inbox_run (en_others en (ls_world s)) ib = (t, ib')" by fastforce
  have "ib_queue ib' = ib_queue ib @ it_accepted t" if "only_pushes en"
    using pushes_queue [OF _ t] that by (simp add: only_pushes_def)
  then show ?thesis
    using assms Some t by (auto simp: in_order_def ordered_def meanwhile_def split: option.splits)
qed

lemma drain_in_order:
  assumes "in_order en q0 s"
  shows "in_order en q0 (steering_drain en u s)"
proof (cases "ls_inbox (meanwhile en s)")
  case None
  then show ?thesis using meanwhile_in_order [OF assms] by (simp add: steering_drain_def Let_def)
next
  case (Some ib)
  then show ?thesis
    using meanwhile_in_order [OF assms]
    by (auto simp: in_order_def ordered_def steering_drain_def drain_all_def Let_def loop_frame split: option.splits)
qed

lemma return_nothing_pending:
  assumes "in_order en q0 s"
  shows "nothing_pending en q0 (return_pending_steering en s)"
proof (cases "ls_inbox (meanwhile en s)")
  case None
  then show ?thesis
    using meanwhile_in_order [OF assms]
    by (auto simp: order_defs ordered_def return_pending_steering_def Let_def split: option.splits)
next
  case (Some ib)
  then show ?thesis
    using meanwhile_in_order [OF assms]
    by (auto simp: order_defs ordered_def return_pending_steering_def Let_def split: option.splits)
qed

lemma tools_in_order:
  assumes "nothing_pending en q0 s"
  shows "flow_into (in_order en q0) (\<lambda>r. nothing_pending en q0) (execute_tools lc hash en u r s)"
  using assms
  by (cases rule: execute_tools_parts [of lc hash en u r s]) (simp_all add: order_defs loop_frame)

lemma heard_in_order:
  assumes "nothing_pending en q0 s" "ls_inbox s = Some ib"
  shows "in_order en q0 (heard_late u r ib s)"
  using assms by (auto simp: order_defs ordered_def loop_frame split: option.splits)

lemma finish_in_order:
  assumes "nothing_pending en q0 s"
  shows "flow_into (in_order en q0) (\<lambda>r. nothing_pending en q0) (finish_answer en u r s)"
proof -
  have m: "nothing_pending en q0 (meanwhile en s)"
    using assms meanwhile_in_order [of en q0 s] by (simp add: nothing_pending_def loop_frame)
  have "in_order en q0 (corrected r c (meanwhile en s))" for c
    using m by (simp add: order_defs loop_frame)
  then show ?thesis
    by (cases rule: finish_answer_parts [of en s u r]) (use m in \<open>simp_all add: heard_in_order\<close>)
qed

lemma record_in_order: "in_order en q0 s \<Longrightarrow> nothing_pending en q0 (record_answer r s)"
  by (auto simp: order_defs ordered_def loop_frame split: option.splits)

interpretation order: loop_outline lc render hash en u
  "in_order en q0" "in_order en q0" "nothing_pending en q0" "\<lambda>r. nothing_pending en q0"
proof unfold_locales
  show "flow_into (in_order en q0) (\<lambda>r. nothing_pending en q0) (execute_tools lc hash en u r s)"
    if "nothing_pending en q0 s" for r s
    using that by (rule tools_in_order)
  show "flow_into (in_order en q0) (\<lambda>r. nothing_pending en q0) (finish_answer en u r s)"
    if "nothing_pending en q0 s" for r s
    using that by (rule finish_in_order)
  show "flow_into (in_order en q0) (\<lambda>r. nothing_pending en q0) (cut_short r s)"
    if "nothing_pending en q0 s" for r s
    using that by (cases rule: cut_short_parts [of s r]) (auto simp: order_defs)
  show "in_order en q0 (steering_drain en u s)" if "in_order en q0 s" for s
    using that by (rule drain_in_order)
  show "nothing_pending en q0 (return_pending_steering en s)" if "in_order en q0 s" for s
    using that by (rule return_nothing_pending)
  show "nothing_pending en q0 (return_pending_steering en s)" if "in_order en q0 s" for s
    using that by (rule return_nothing_pending)
  show "nothing_pending en q0 (return_pending_steering en (counted_retry s))" if "in_order en q0 s" for s
    using that by (intro return_nothing_pending) (simp add: in_order_def loop_frame)
  show "nothing_pending en q0 (record_answer r s)" if "in_order en q0 s" for r s
    using that by (rule record_in_order)
qed (simp_all add: order_defs loop_frame)




section \<open>What the log tells\<close>

definition untold :: "log_record list \<Rightarrow> session_log option \<Rightarrow> bool" where
  "untold old lg =
     (case lg of
        None \<Rightarrow> False
      | Some l \<Rightarrow> sl_channel l = []
          \<and> (\<exists>new. sl_records l = old @ new \<and> list_all (\<lambda>r. lr_kind r \<noteq> WorkflowDone) new))"

definition exit_untold :: "log_record list \<Rightarrow> 'w loop_state \<Rightarrow> bool" where
  "exit_untold old s = untold old (ls_log s)"

lemma emit_open: "sl_channel lg = [] \<Longrightarrow> emit r lg = (True, lg\<lparr>sl_records := sl_records lg @ [r]\<rparr>)"
  by (cases lg) (simp add: emit_def Let_def)

lemma log_event_untold:
  "exit_untold old s \<Longrightarrow> k \<noteq> WorkflowDone \<Longrightarrow> exit_untold old (log_event u k d s)"
  by (auto simp: exit_untold_def untold_def log_event_def emit_open record_of_def split: option.splits)

lemma take_result_untold: "exit_untold old s \<Longrightarrow> exit_untold old (take_result en u r s)"
  by (cases r)
     (auto simp: exit_untold_def untold_def take_result_def spill_plan_def log_spill_event_def emit_open
       record_of_def reserve_spill_def Let_def split: option.splits)

lemma fold_keeps: "P s \<Longrightarrow> (\<And>x s. P s \<Longrightarrow> P (g x s)) \<Longrightarrow> P (fold g xs s)"
  by (induction xs arbitrary: s) simp_all

lemma calls_logged_untold: "exit_untold old s \<Longrightarrow> exit_untold old (calls_logged u r s)"
  unfolding calls_logged_def
  by (rule fold_keeps [where P = "exit_untold old"], simp add: exit_untold_def) (rule log_event_untold; simp)

lemma batch_taken_untold:
  assumes "exit_untold old s"
  shows "exit_untold old (batch_taken en u r rs s)"
proof -
  let ?s2 = "calls_logged u r s"
  have "exit_untold old (?s2\<lparr>ls_world := en_next en (ls_world ?s2)\<rparr>)"
    using calls_logged_untold [OF assms] by (simp add: exit_untold_def)
  then have "exit_untold old (fold (take_result en u) rs (?s2\<lparr>ls_world := en_next en (ls_world ?s2)\<rparr>))"
    by (rule fold_keeps) (rule take_result_untold)
  then show ?thesis by (simp add: batch_taken_def Let_def exit_untold_def)
qed

lemma heard_late_untold: "exit_untold old s \<Longrightarrow> exit_untold old (heard_late u r ib s)"
  using log_event_untold [of old "s\<lparr>ls_inbox := Some (ib\<lparr>ib_queue := []\<rparr>),
      ls_steering_bonus := ls_steering_bonus s + STEERING_ROUNDS_BONUS\<rparr>" SteeringDrained u]
  by (simp add: heard_late_def Let_def exit_untold_def)

lemma drain_untold:
  assumes "exit_untold old s"
  shows "exit_untold old (steering_drain en u s)"
proof (cases "ls_inbox (meanwhile en s)")
  case None
  then have "steering_drain en u s = meanwhile en s" by (simp add: steering_drain_def)
  then show ?thesis using assms by (simp add: exit_untold_def loop_frame)
next
  case (Some ib)
  let ?s1 = "(meanwhile en s)\<lparr>ls_inbox := Some (ib\<lparr>ib_queue := []\<rparr>),
      ls_steering_bonus := ls_steering_bonus (meanwhile en s) + STEERING_ROUNDS_BONUS\<rparr>"
  have "exit_untold old ?s1" using assms by (simp add: exit_untold_def loop_frame)
  then have "exit_untold old (log_event u SteeringDrained d ?s1)" for d by (rule log_event_untold) simp
  then show ?thesis
    using assms Some by (simp add: steering_drain_def drain_all_def Let_def exit_untold_def loop_frame)
qed

lemma compaction_untold: "exit_untold old s \<Longrightarrow> exit_untold old (compaction_step lc render en u s)"
  by (auto simp: compaction_step_def Let_def exit_untold_def loop_frame split: option.split prod.split
      intro!: log_event_untold [unfolded exit_untold_def])

lemma note_untold:
  assumes "exit_untold old s"
  shows "exit_untold old (note_answer u t r s)"
  unfolding note_answer_def Let_def
  by (rule log_event_untold) (use assms in \<open>simp_all add: exit_untold_def\<close>)

interpretation told: loop_outline lc render hash en u
  "exit_untold old" "exit_untold old" "exit_untold old" "\<lambda>r. exit_untold old"
proof unfold_locales
  show "flow_into (exit_untold old) (\<lambda>r. exit_untold old) (execute_tools lc hash en u r s)"
    if "exit_untold old s" for r s
    using that
    by (cases rule: execute_tools_parts [of lc hash en u r s]) (simp_all add: calls_logged_untold batch_taken_untold)
  show "flow_into (exit_untold old) (\<lambda>r. exit_untold old) (finish_answer en u r s)" if "exit_untold old s" for r s
  proof -
    have m: "exit_untold old (meanwhile en s)" using that by (simp add: exit_untold_def loop_frame)
    then have "exit_untold old (corrected r c (meanwhile en s))" for c by (simp add: exit_untold_def corrected_def)
    then show ?thesis
      by (cases rule: finish_answer_parts [of en s u r]) (use m in \<open>simp_all add: heard_late_untold\<close>)
  qed
  show "flow_into (exit_untold old) (\<lambda>r. exit_untold old) (cut_short r s)" if "exit_untold old s" for r s
    using that by (cases rule: cut_short_parts [of s r]) (simp_all add: exit_untold_def)
  show "exit_untold old (steering_drain en u s)" if "exit_untold old s" for s using that by (rule drain_untold)
  show "exit_untold old (compaction_step lc render en u s)" if "exit_untold old s" for s
    using that by (rule compaction_untold)
  show "exit_untold old (note_answer u t r s)" if "exit_untold old s" for r t s using that by (rule note_untold)
qed (simp_all add: exit_untold_def loop_frame asked_def record_answer_def counted_retry_def)


text \<open>Every run is narrated to its end, once. When the session log takes records, the records a run adds end in exactly one workflow-done record, carrying the finish reason, rounds and tool calls of the returned result, whatever exit the loop took; a failed run has an error record with the failure's message right before it.\<close>

theorem exit_narrated_once:
  assumes "run_agentic_loop lc render hash en u acc ib (Some lg) msgs w = Some (r, s)" and "sl_channel lg = []"
  shows "\<exists>lg' new d. ls_log s = Some lg' \<and> sl_records lg' = sl_records lg @ new @ [d]
    \<and> list_all (\<lambda>x. lr_kind x \<noteq> WorkflowDone) new \<and> lr_kind d = WorkflowDone
    \<and> lr_data d = DDone (finish_reason_str (lr_finish r)) (lr_rounds_used r) (lr_tool_calls_made r)
        (lr_input_tokens r) (lr_output_tokens r) (lr_estimated_cost r) (lr_model_used r)
    \<and> (\<forall>message. lr_finish r = FFailed message \<longrightarrow>
        (\<exists>before e. new = before @ [e] \<and> lr_kind e = ErrorRecord \<and> lr_data e = DError ''agentic_loop'' message))"
proof -
  obtain s0 where r: "loop_run lc render hash en u (loop_start en acc ib (Some lg) msgs w) = Some (r, s0)"
    and s: "s = narrate_exit u r s0" using assms(1) by (rule agentic_run)
  have "exit_untold (sl_records lg) (loop_start en acc ib (Some lg) msgs w)"
    using assms(2) by (simp add: exit_untold_def untold_def loop_start_def)
  then have "exit_untold (sl_records lg) s0" by (rule told.run_into [OF r])
  then obtain l new where l: "ls_log s0 = Some l" "sl_channel l = []" "sl_records l = sl_records lg @ new"
    and n: "list_all (\<lambda>x. lr_kind x \<noteq> WorkflowDone) new"
    by (auto simp: exit_untold_def untold_def split: option.splits)
  show ?thesis
    by (cases "lr_finish r")
       (use l n in \<open>auto simp: s narrate_exit_def log_event_def emit_open record_of_def Let_def\<close>)
qed

definition demo_log :: session_log where
  "demo_log = \<lparr>sl_session_id = ''s'', sl_channel = [], sl_records = [], sl_dropped = 0, sl_written_seq = 0,
     sl_next_spill = 0\<rparr>"

theorem exit_narrated_once_witness:
  "\<exists>r s lg' new d. run_agentic_loop ascii_lower (\<lambda>v. '''') hash0 demo_env demo_setup acc_new None (Some demo_log)
      [msg_user ''q''] 0 = Some (r, s) \<and> ls_log s = Some lg' \<and> sl_records lg' = new @ [d]
      \<and> lr_kind d = WorkflowDone"
proof -
  obtain r s where
    run: "run_agentic_loop ascii_lower (\<lambda>v. '''') hash0 demo_env demo_setup acc_new None (Some demo_log)
      [msg_user ''q''] 0 = Some (r, s)" using demo_returns by blast
  have "sl_channel demo_log = []" "sl_records demo_log = []" by (simp_all add: demo_log_def)
  then show ?thesis using exit_narrated_once [OF run] run by auto
qed

section \<open>Tool results\<close>

definition spilled :: "string \<Rightarrow> string \<Rightarrow> log_record \<Rightarrow> bool" where
  "spilled rel text rec = (lr_kind rec = ToolResult \<and> lr_spill rec = Some (rel, text))"

text \<open>C7: The model is shown a reference to a spilled output only when the bytes are there. After a tool's success the conversation gains one result for the call: the text itself, cut to the inline limit, or a stub naming a file, and then the text is over the limit and the last record the session log took carries exactly that file with the whole text. A failed call's text is never replaced by a reference.\<close>

theorem stub_backed_by_record:
  "\<exists>shown. ls_messages (take_result en u (tc, text, failed) s) = ls_messages s
       @ [if failed then tool_error (tc_id tc) shown else tool_result (tc_id tc) shown]
     \<and> (if failed then shown = head_tail text (lf_inline_bytes (su_config u))
        else shown = truncate_tool_result_to text (lf_inline_bytes (su_config u))
          \<or> (\<exists>rel lg before rec. lf_inline_bytes (su_config u) < length text
               \<and> ls_log (take_result en u (tc, text, failed) s) = Some lg
               \<and> sl_records lg = before @ [rec] \<and> spilled rel text rec
               \<and> shown = (if is_command u (tc_name tc)
                          then command_spill_stub text (lf_inline_bytes (su_config u)) rel
                          else spill_stub (length text) (spill_preview text) rel)))"
proof -
  let ?s1 = "s\<lparr>ls_tool_calls := ls_tool_calls s + 1,
      ls_last_tool_error := (if \<not> failed then ls_last_tool_error s
        else Some (truncate_tool_result_to text LAST_TOOL_ERROR_MAX_BYTES))\<rparr>"
  obtain spill s2 where p: "spill_plan en u tc text ?s1 = (spill, s2)" by fastforce
  define d where "d = result_record u tc text (\<not> failed) (spill \<noteq> None)"
  obtain ok s3 where e: "log_spill_event u d spill s2 = (ok, s3)" by fastforce
  have m: "ls_messages s3 = ls_messages s"
    using p e by (auto simp: spill_plan_def log_spill_event_def split: option.splits prod.splits if_splits)
  have t: "take_result en u (tc, text, failed) s = s3\<lparr>ls_messages := ls_messages s3
      @ [if \<not> failed then tool_result (tc_id tc) (model_visible_result u text (\<not> failed)
            (if ok then map_option fst spill else None) (is_command u (tc_name tc)))
         else tool_error (tc_id tc) (model_visible_result u text (\<not> failed)
            (if ok then map_option fst spill else None) (is_command u (tc_name tc)))]\<rparr>"
    using p e by (simp add: take_result_def Let_def d_def)
  show ?thesis
  proof (cases "\<not> failed \<and> ok \<and> spill \<noteq> None")
    case False
    then have "failed \<or> (if ok then map_option fst spill else None) = None" by auto
    then show ?thesis by (auto simp: t m model_visible_result_def Let_def)
  next
    case True
    then obtain rel where sp: "spill = Some (rel, text)" and over: "lf_inline_bytes (su_config u) < length text"
      using p by (auto simp: spill_plan_def split: if_splits option.splits prod.splits)
    obtain lg2 where l2: "ls_log s2 = Some lg2"
      using e True by (cases "ls_log s2") (simp_all add: log_spill_event_def)
    then have s3: "ls_log s3 = Some (lg2\<lparr>sl_channel := tl (sl_channel lg2),
        sl_records := sl_records lg2 @ [record_of u ToolResult d spill]\<rparr>)"
      using e True
      by (auto simp: log_spill_event_def emit_def Let_def split: list.splits channel_answer.splits if_splits)
    define shown where "shown = (if is_command u (tc_name tc)
        then command_spill_stub text (lf_inline_bytes (su_config u)) rel
        else spill_stub (length text) (spill_preview text) rel)"
    have "spilled rel text (record_of u ToolResult d spill)" by (simp add: spilled_def record_of_def sp)
    moreover have "ls_log (take_result en u (tc, text, failed) s) = ls_log s3" by (simp add: t)
    ultimately have backed: "\<exists>rel lg before rec. lf_inline_bytes (su_config u) < length text
        \<and> ls_log (take_result en u (tc, text, failed) s) = Some lg \<and> sl_records lg = before @ [rec]
        \<and> spilled rel text rec
        \<and> shown = (if is_command u (tc_name tc) then command_spill_stub text (lf_inline_bytes (su_config u)) rel
            else spill_stub (length text) (spill_preview text) rel)"
      using over s3 shown_def by (intro exI [of _ rel] exI conjI) auto
    have "ls_messages (take_result en u (tc, text, failed) s) = ls_messages s @ [tool_result (tc_id tc) shown]"
      unfolding t using True sp by (simp add: m model_visible_result_def Let_def shown_def)
    then show ?thesis using True backed by (intro exI [of _ shown]) simp
  qed
qed

text \<open>The loop hands the model only results that passed the sandbox. A result of a round's batch that is not an error comes from a call the sandbox ran: under the loop's policy the agent may call the tool, its arguments passed the sanitizer, it needed no confirmation or had one, the circuit breaker let it through in the state it met, and the text is what the tool itself answered; without a sandbox no call has such a result.\<close>

theorem batch_results_gated:
  assumes "run_batch lc hash u cx ws i tcs = Some rs" and "(tc, output, False) \<in> set rs"
  shows "\<exists>p w sb a. su_policy u = Some p \<and> (\<exists>j. ws j = (w, sb)) \<and> tc \<in> set tcs
    \<and> is_ok (check_agent_capability lc (ctx_agent cx) (tc_name tc) (sp_allowed_capabilities p)
         (sp_denied_capabilities p))
    \<and> args_safe tc (sb_registry sb) \<and> may_run hash tc p cx w sb a
    \<and> is_ok (fst (tool_check (w_check_at w) (ctx_agent cx) (tc_name tc) (sb_breaker sb)))
    \<and> w_answer w = Some (ToolOk output)"
  using assms
proof (induction tcs arbitrary: i rs)
  case (Cons t tcs)
  obtain x rs1 where x: "run_call lc hash u cx t (ws i) = Some x"
    and rs1: "run_batch lc hash u cx ws (Suc i) tcs = Some rs1" and rs: "rs = (t, x) # rs1"
    using Cons.prems(1) by (auto split: option.splits)
  show ?case
  proof (cases "(tc, output, False) \<in> set rs1")
    case True
    then show ?thesis using Cons.IH [OF rs1] by auto
  next
    case False
    then have tx: "t = tc" "x = (output, False)" using Cons.prems(2) rs by auto
    obtain w sb where wi: "ws i = (w, sb)" by fastforce
    obtain p where p: "su_policy u = Some p" and ran: "fst (execute_tool lc hash tc p cx w sb) = Some (Inr output)"
      using x tx wi by (auto simp: run_call_def split: option.splits sum.splits)
    from ran show ?thesis
    proof (cases rule: execute_tool_cases [of lc hash tc p cx w sb])
      case (confirm f s3)
      have "fst (execute_tool lc hash tc p cx w sb) \<noteq> Some (Inr output)"
        using confirm(1,2) step_confirm_return [of hash tc p cx w sb]
        by (cases f)
           (auto simp: execute_tool_def step_capability_def step_sanitize_def Let_def split: sum.splits if_splits)
      then show ?thesis using ran by contradiction
    next
      case (run a s3)
      have core: "same_core sb s3" "may_run hash tc p cx w sb a" using step_confirm_core [OF run(3)] by auto
      have "w_answer w = Some (ToolOk output)"
        using ran run(5) by (auto simp: step_execute_def Let_def split: if_splits option.splits tool_answer.splits)
      then show ?thesis using p wi tx run core by (auto simp: same_core_def)
    qed simp_all
  qed
qed simp


theorem batch_results_gated_witness:
  "\<exists>p w sb a. su_policy demo_setup = Some p \<and> (\<exists>j. en_tool demo_env 0 j = (w, sb))
     \<and> may_run hash0 demo_call p demo_ctx w sb a \<and> w_answer w = Some (ToolOk ''written'')"
proof -
  have "fst (execute_tool ascii_lower hash0 demo_call demo_sandbox_policy demo_ctx demo_world demo_sandbox)
      = Some (Ok ''written'')" by code_simp
  then have "run_batch ascii_lower hash0 demo_setup demo_ctx (en_tool demo_env 0) 0 [demo_call]
      = Some [(demo_call, ''written'', False)]"
    by (simp add: run_call_def demo_setup_def demo_env_def)
  from batch_results_gated [OF this] show ?thesis by auto
qed


section \<open>A cut answer\<close>

definition cut_env :: "nat loop_env" where
  "cut_env = demo_env\<lparr>en_complete := \<lambda>rq w.
     Came (Inr (if length (lq_messages rq) \<le> 1
                then (demo_answer ''one'' [])\<lparr>rs_finish_reason := FinMaxTokens\<rparr> else demo_answer ''two'' []))\<rparr>"

lemma cut_simps [simp]:
  "en_cancelled cut_env w = False" "en_agent_cost cut_env i ot w = 0" "en_others_spend cut_env w = []"
  "en_complete cut_env rq w = Came (Inr (if length (lq_messages rq) \<le> 1
     then (demo_answer ''one'' [])\<lparr>rs_finish_reason := FinMaxTokens\<rparr> else demo_answer ''two'' []))"
  "en_next cut_env w = Suc w"
  "su_budget demo_setup = None" "lf_max_rounds (su_config demo_setup) = 3" "lf_max_cost (su_config demo_setup) = 1"
  "su_routed demo_setup = False" "lf_guard (su_config demo_setup) = None"
  by (simp_all add: cut_env_def demo_env_def demo_setup_def loop_config_default_def)

lemma cut_first:
  assumes "ls_rounds s < effective_max_rounds demo_setup s" "ls_acc s = 0" "ls_inbox s = None" "ls_last_cost s = 0"
    "ls_log s = None" "length (ls_messages s) \<le> 1" "ls_token_retries s = 0"
  shows "\<exists>s1. loop_round ascii_lower (\<lambda>v. '''') hash0 cut_env demo_setup s = Goes s1
     \<and> ls_rounds s1 = ls_rounds s + 1 \<and> ls_steering_bonus s1 = ls_steering_bonus s
     \<and> ls_guard_bonus s1 = ls_guard_bonus s \<and> ls_inbox s1 = None \<and> ls_acc s1 = 0 \<and> ls_last_cost s1 = 0
     \<and> ls_log s1 = None \<and> ls_messages s1 = ls_messages s @ [msg_assistant ''one'', msg_user keep_going_prompt]
     \<and> map (\<lambda>(spent, rq). lq_messages rq) (ls_requests s1)
       = map (\<lambda>(spent, rq). lq_messages rq) (ls_requests s) @ [ls_messages s]"
  using assms by (simp add: stubborn_round build_request_def cut_short_def MAX_TOKENS_RETRIES_def)

lemma cut_second:
  assumes "ls_rounds s < effective_max_rounds demo_setup s" "ls_acc s = 0" "ls_inbox s = None" "ls_last_cost s = 0"
    "ls_log s = None" "\<not> length (ls_messages s) \<le> 1"
  shows "\<exists>s1. loop_round ascii_lower (\<lambda>v. '''') hash0 cut_env demo_setup s
       = Ends (result_with_content ''two'' FComplete s1) s1
     \<and> map (\<lambda>(spent, rq). lq_messages rq) (ls_requests s1)
       = map (\<lambda>(spent, rq). lq_messages rq) (ls_requests s) @ [ls_messages s]"
  using assms by (simp add: stubborn_round build_request_def)


end
