(* ===== verification/Session_Reader.thy ===== *)
theory Session_Reader
  imports Loop_Properties Utf8
begin

text \<open>
  Reading a session's log back (\<open>session_log/reader.rs\<close>): segments in order, pages by a cursor,
  the byte scan that finds a line's own sequence number, and the end of the log at a torn line.
  Parsing a line is \<open>serde_json\<close>'s and an argument. Listing and opening files succeed.
\<close>

section \<open>Records and directories\<close>

record logged_record =
  lg_seq :: nat
  lg_ts :: string
  lg_kind :: string
  lg_task :: "string option"
  lg_span :: "string option"
  lg_agent :: "string option"
  lg_data :: json

text \<open>A session's directory: its files in the order of the listing, the files of \<open>results/\<close> and of \<open>snapshots/\<close>.\<close>

record session_dir =
  sd_files :: "(string \<times> string) list"
  sd_results :: "(string \<times> string) list"
  sd_snapshots :: "(string \<times> string) list"

type_synonym line_parser = "string \<Rightarrow> logged_record option"

definition LIVE_SEGMENT :: string where
  "LIVE_SEGMENT = ''log.jsonl''"

definition USIZE_MAX :: nat where
  "USIZE_MAX = 2 ^ 64 - 1"

definition strip_prefix :: "string \<Rightarrow> string \<Rightarrow> string option" where
  "strip_prefix p s = (if prefix p s then Some (drop (length p) s) else None)"

definition strip_suffix :: "string \<Rightarrow> string \<Rightarrow> string option" where
  "strip_suffix p s = (if suffix p s then Some (take (length s - length p) s) else None)"

text \<open>\<open>str::parse::<u64>\<close>.\<close>

definition parse_u64 :: "string \<Rightarrow> nat option" where
  "parse_u64 s =
     (let d = (case s of c # cs \<Rightarrow> if c = CHR ''+'' then cs else s | [] \<Rightarrow> [])
      in if d \<noteq> [] \<and> list_all is_digit d \<and> read_nat d < 2 ^ 64 then Some (read_nat d) else None)"

definition segment_range :: "string \<Rightarrow> (nat \<times> nat) option" where
  "segment_range name =
     (case Option.bind (strip_prefix ''log.'' name) (strip_suffix ''.jsonl'') of
        None \<Rightarrow> None
      | Some rng \<Rightarrow>
          (case split_once (CHR ''-'') rng of
             None \<Rightarrow> None
           | Some (a, b) \<Rightarrow>
               (case (parse_u64 a, parse_u64 b) of
                  (Some x, Some y) \<Rightarrow> Some (x, y)
                | _ \<Rightarrow> None)))"

definition segment_first_seq :: "string \<Rightarrow> nat option" where
  "segment_first_seq name =
     (case Option.bind (strip_prefix ''log.'' name) (strip_suffix ''.jsonl'') of
        None \<Rightarrow> None
      | Some rng \<Rightarrow> Option.bind (split_once (CHR ''-'') rng) (\<lambda>(a, b). parse_u64 a))"

definition segments :: "session_dir \<Rightarrow> (string \<times> string) list" where
  "segments d =
     (let archived = sort_key fst (List.map_filter
            (\<lambda>(name, content). if name = LIVE_SEGMENT then None
               else map_option (\<lambda>first. (first, name, content)) (segment_first_seq name)) (sd_files d))
      in map snd archived @ filter (\<lambda>(name, content). name = LIVE_SEGMENT) (sd_files d))"

text \<open>\<open>BufRead::lines\<close>, on bytes; a line that is not UTF-8 is an error of the iterator.\<close>

fun file_lines :: "string \<Rightarrow> string \<Rightarrow> string list" where
  "file_lines acc [] = (if acc = [] then [] else [rev acc])"
| "file_lines acc (c # cs) =
     (if c = CHR 0x0A
      then (case acc of a # as \<Rightarrow> if a = CHR 0x0D then rev as else rev acc | [] \<Rightarrow> []) # file_lines [] cs
      else file_lines (c # acc) cs)"

section \<open>The sequence number of a line\<close>

text \<open>\<open>scan_string\<close>: the contents up to the closing quote and what follows it.\<close>

fun scan_string :: "string \<Rightarrow> (string \<times> string) option" where
  "scan_string [] = None"
| "scan_string (c # cs) =
     (if c = CHR 0x5C
      then (case cs of [] \<Rightarrow> None | d # ds \<Rightarrow> map_option (\<lambda>(t, r). (c # d # t, r)) (scan_string ds))
      else if c = CHR 0x22 then Some ([], cs)
      else map_option (\<lambda>(t, r). (c # t, r)) (scan_string cs))"

definition ascii_ws :: "char \<Rightarrow> bool" where
  "ascii_ws c \<longleftrightarrow> c \<in> set [CHR 0x20, CHR 0x09, CHR 0x0A, CHR 0x0C, CHR 0x0D]"

definition skip_ws :: "string \<Rightarrow> string" where
  "skip_ws = dropWhile ascii_ws"

definition scan_u64 :: "string \<Rightarrow> nat option" where
  "scan_u64 s =
     (let d = takeWhile is_digit s
      in if d = s \<or> d = [] \<or> 2 ^ 64 \<le> read_nat d then None else Some (read_nat d))"

lemma scan_string_shorter: "scan_string s = Some (t, r) \<Longrightarrow> length r < length s"
  by (induction s arbitrary: t r rule: scan_string.induct)
     (fastforce split: if_splits list.splits)+

lemma skip_ws_shorter: "length (skip_ws s) \<le> length s"
  by (simp add: skip_ws_def length_dropWhile_le)

function scan_from :: "nat \<Rightarrow> string \<Rightarrow> nat option" where
  "scan_from depth [] = None"
| "scan_from depth (c # cs) =
     (if c = CHR ''{'' \<or> c = CHR ''['' then scan_from (depth + 1) cs
      else if c = CHR ''}'' \<or> c = CHR '']'' then (if depth = 0 then None else scan_from (depth - 1) cs)
      else if c = CHR 0x22
      then (case scan_string cs of
              None \<Rightarrow> None
            | Some (token, rest) \<Rightarrow>
                (case skip_ws rest of
                   k # after \<Rightarrow>
                     if k \<noteq> CHR '':'' then scan_from depth rest
                     else if depth = 1 \<and> token = ''seq'' then scan_u64 (skip_ws after)
                     else scan_from depth after
                 | [] \<Rightarrow> scan_from depth rest))
      else scan_from depth cs)"
  by pat_completeness auto

termination
proof (relation "measure (\<lambda>(depth, s). length s)")
  fix c cs x token rest k after
  assume "scan_string cs = Some x" "(token, rest) = x" "skip_ws rest = k # after"
  then show "((depth, after), (depth, c # cs)) \<in> measure (\<lambda>(depth, s). length s)" for depth :: nat
    using scan_string_shorter [of cs token rest] skip_ws_shorter [of rest] by simp
qed (auto dest: scan_string_shorter)

definition scan_seq :: "string \<Rightarrow> nat option" where
  "scan_seq line = scan_from 0 line"

section \<open>Pages\<close>

record page =
  pg_out :: "logged_record list"
  pg_bytes :: nat
  pg_torn :: bool

definition seen :: "nat option \<Rightarrow> nat \<Rightarrow> bool" where
  "seen after n = (case after of None \<Rightarrow> False | Some c \<Rightarrow> n \<le> c)"

definition page_full :: "nat \<Rightarrow> nat \<Rightarrow> page \<Rightarrow> bool" where
  "page_full limit max_bytes p = (limit \<le> length (pg_out p) \<or> max_bytes \<le> pg_bytes p)"

definition page_add :: "string \<Rightarrow> logged_record \<Rightarrow> page \<Rightarrow> page" where
  "page_add line r p =
     p\<lparr>pg_out := pg_out p @ [r], pg_bytes := min USIZE_MAX (pg_bytes p + length line)\<rparr>"

fun read_lines :: "line_parser \<Rightarrow> nat option \<Rightarrow> nat \<Rightarrow> nat \<Rightarrow> string list \<Rightarrow> page \<Rightarrow> page" where
  "read_lines parse after limit max_bytes [] p = p"
| "read_lines parse after limit max_bytes (line # ls) p =
     (if \<not> utf8_ok line then p
      else if trim line = [] then read_lines parse after limit max_bytes ls p
      else if (case scan_seq line of None \<Rightarrow> False | Some n \<Rightarrow> seen after n)
      then read_lines parse after limit max_bytes ls p
      else (case parse line of
              None \<Rightarrow> p\<lparr>pg_torn := True\<rparr>
            | Some r \<Rightarrow>
                if seen after (lg_seq r) then read_lines parse after limit max_bytes ls p
                else let p' = page_add line r p
                     in if page_full limit max_bytes p' then p'
                        else read_lines parse after limit max_bytes ls p'))"

definition skip_segment :: "string \<Rightarrow> nat option \<Rightarrow> bool" where
  "skip_segment name after =
     (case after of
        None \<Rightarrow> False
      | Some c \<Rightarrow> (case segment_range name of None \<Rightarrow> False | Some (first, final) \<Rightarrow> final \<le> c))"

fun read_segments ::
  "line_parser \<Rightarrow> nat option \<Rightarrow> nat \<Rightarrow> nat \<Rightarrow> (string \<times> string) list \<Rightarrow> page \<Rightarrow> page" where
  "read_segments parse after limit max_bytes [] p = p"
| "read_segments parse after limit max_bytes ((name, content) # rest) p =
     (if page_full limit max_bytes p then p
      else if skip_segment name after then read_segments parse after limit max_bytes rest p
      else read_segments parse after limit max_bytes rest
             (read_lines parse after limit max_bytes (file_lines [] content) p))"

definition read_records_page_inner ::
  "line_parser \<Rightarrow> session_dir \<Rightarrow> nat option \<Rightarrow> nat \<Rightarrow> nat \<Rightarrow> logged_record list \<times> bool" where
  "read_records_page_inner parse d after limit max_bytes =
     (let p = read_segments parse after limit max_bytes (segments d) \<lparr>pg_out = [], pg_bytes = 0, pg_torn = False\<rparr>
      in (pg_out p, pg_torn p))"

definition read_records_after_torn ::
  "line_parser \<Rightarrow> session_dir \<Rightarrow> nat option \<Rightarrow> nat \<Rightarrow> logged_record list \<times> bool" where
  "read_records_after_torn parse d after limit = read_records_page_inner parse d after limit USIZE_MAX"

definition read_records_after :: "line_parser \<Rightarrow> session_dir \<Rightarrow> nat option \<Rightarrow> nat \<Rightarrow> logged_record list" where
  "read_records_after parse d after limit = fst (read_records_after_torn parse d after limit)"

definition read_records :: "line_parser \<Rightarrow> session_dir \<Rightarrow> logged_record list" where
  "read_records parse d = read_records_after parse d None USIZE_MAX"

definition read_records_page ::
  "line_parser \<Rightarrow> session_dir \<Rightarrow> nat option \<Rightarrow> nat \<Rightarrow> nat \<Rightarrow> logged_record list" where
  "read_records_page parse d after limit max_bytes = fst (read_records_page_inner parse d after limit max_bytes)"

text \<open>The record of a spill that could not be written, if there is one.\<close>

fun spill_failure_in :: "line_parser \<Rightarrow> string \<Rightarrow> string list \<Rightarrow> string option" where
  "spill_failure_in parse rel [] = None"
| "spill_failure_in parse rel (line # ls) =
     (if \<not> utf8_ok line then None
      else if \<not> str_contains line rel then spill_failure_in parse rel ls
      else case parse line of
             None \<Rightarrow> None
           | Some r \<Rightarrow>
               (case (Option.bind (json_get (lg_data r) ''spill_ref'') as_str,
                      Option.bind (json_get (lg_data r) ''spill_error'') as_str) of
                  (Some ref, Some err) \<Rightarrow> if ref = rel then Some err else spill_failure_in parse rel ls
                | _ \<Rightarrow> spill_failure_in parse rel ls))"

fun first_some :: "('a \<Rightarrow> 'b option) \<Rightarrow> 'a list \<Rightarrow> 'b option" where
  "first_some f [] = None"
| "first_some f (x # xs) = (case f x of None \<Rightarrow> first_some f xs | Some y \<Rightarrow> Some y)"

definition spill_failure :: "line_parser \<Rightarrow> session_dir \<Rightarrow> string \<Rightarrow> string option" where
  "spill_failure parse d rel =
     first_some (\<lambda>(name, content). spill_failure_in parse rel (file_lines [] content)) (segments d)"

definition PAGE :: nat where
  "PAGE = 512"

text \<open>
  The paging loop that \<open>rebuild\<close> and \<open>undrained_steering\<close> run. In a log whose numbers go back it
  may not end, which is the value \<^const>\<open>None\<close>.
\<close>

partial_function (option) read_pages ::
  "line_parser \<Rightarrow> session_dir \<Rightarrow> nat \<Rightarrow> nat option \<Rightarrow> (logged_record list \<times> bool) option" where
  "read_pages parse d limit after =
     (case read_records_after_torn parse d after limit of
        (page, torn) \<Rightarrow>
          if page = [] then Some ([], torn)
          else if length page < limit then Some (page, torn)
          else Option.bind (read_pages parse d limit (Some (lg_seq (List.last page))))
                 (\<lambda>(rest, torn'). Some (page @ rest, torn \<or> torn')))"

section \<open>The line of a record\<close>

text \<open>
  \<open>Record::to_line\<close>: the envelope in its declared order. Quoting a string and printing a value are
  \<open>serde_json\<close>'s.
\<close>

definition envelope_field :: "(string \<Rightarrow> string) \<Rightarrow> string \<Rightarrow> string option \<Rightarrow> string" where
  "envelope_field quote key v =
     (case v of None \<Rightarrow> [] | Some x \<Rightarrow> '','' @ quote key @ '':'' @ quote x)"

definition to_line :: "(string \<Rightarrow> string) \<Rightarrow> (json \<Rightarrow> string) \<Rightarrow> logged_record \<Rightarrow> string" where
  "to_line quote render r =
     [CHR ''{'', CHR 0x22] @ ''v'' @ [CHR 0x22] @ '':1,'' @ [CHR 0x22] @ ''seq'' @ [CHR 0x22] @ '':''
     @ show_nat (lg_seq r) @ '','' @ quote ''ts'' @ '':'' @ quote (lg_ts r)
     @ '','' @ quote ''type'' @ '':'' @ quote (lg_kind r)
     @ envelope_field quote ''task_id'' (lg_task r) @ envelope_field quote ''span_id'' (lg_span r)
     @ envelope_field quote ''agent'' (lg_agent r)
     @ '','' @ quote ''data'' @ '':'' @ render (lg_data r) @ ''}'' @ NL"

lemma scan_u64_show: "n < 2 ^ 64 \<Longrightarrow> \<not> is_digit c \<Longrightarrow> scan_u64 (show_nat n @ c # s) = Some n"
proof -
  assume n: "n < 2 ^ 64" and c: "\<not> is_digit c"
  have d: "show_nat n \<noteq> []" "list_all is_digit (show_nat n)" "read_nat (show_nat n) = n"
    using read_show_nat [of n] by (auto simp: is_nat_text_def)
  then have "takeWhile is_digit (show_nat n @ c # s) = show_nat n"
    using c by (simp add: takeWhile_append2 list_all_iff)
  then show ?thesis using d n by (simp add: scan_u64_def)
qed

lemma skip_ws_show: "skip_ws (show_nat n @ s) = show_nat n @ s"
proof -
  obtain c cs where "show_nat n = c # cs" "is_digit c"
    using read_show_nat [of n] by (cases "show_nat n") (auto simp: is_nat_text_def)
  moreover have "\<not> ascii_ws c" if "is_digit c" for c
    using that by (auto simp: is_digit_def ascii_ws_def byte_of_def)
  ultimately show ?thesis by (simp add: skip_ws_def)
qed

text \<open>The scan of a record's line finds the record's own number, whatever the payload holds: nested numbers, a member of its own called seq, quotes, any text at all.\<close>

theorem scan_finds_own_seq:
  assumes "lg_seq r < 2 ^ 64"
  shows "scan_seq (to_line quote render r) = Some (lg_seq r)"
proof -
  have comma: "\<not> is_digit (CHR '','')" by (simp add: is_digit_def byte_of_def)
  show ?thesis
    unfolding scan_seq_def to_line_def
    using scan_u64_show [OF assms comma] by (simp add: skip_ws_show) (simp add: skip_ws_def ascii_ws_def skip_ws_show [unfolded skip_ws_def])
qed


section \<open>A page of a clean log\<close>

text \<open>
  In a clean log every line is text, is blank or parses, and where the scan finds a number it is the
  record's own; the numbers rise through the segments in their order; a segment's name bounds what it
  holds; and the whole is smaller than a page's byte bound.
\<close>

definition clean_line :: "line_parser \<Rightarrow> string \<Rightarrow> bool" where
  "clean_line parse line =
     (utf8_ok line \<and> (trim line = [] \<or>
        (case parse line of
           None \<Rightarrow> False
         | Some r \<Rightarrow> scan_seq line = None \<or> scan_seq line = Some (lg_seq r))))"

definition line_records :: "line_parser \<Rightarrow> string list \<Rightarrow> logged_record list" where
  "line_records parse ls = List.map_filter (\<lambda>line. if trim line = [] then None else parse line) ls"

definition segment_records :: "line_parser \<Rightarrow> string \<times> string \<Rightarrow> logged_record list" where
  "segment_records parse seg = line_records parse (file_lines [] (snd seg))"

lemma segment_records_pair: "segment_records parse (name, content) = line_records parse (file_lines [] content)"
  by (simp add: segment_records_def)

definition log_records :: "line_parser \<Rightarrow> session_dir \<Rightarrow> logged_record list" where
  "log_records parse d = concat (map (segment_records parse) (segments d))"

definition truthful_name :: "line_parser \<Rightarrow> string \<times> string \<Rightarrow> bool" where
  "truthful_name parse seg =
     (case segment_range (fst seg) of
        None \<Rightarrow> True
      | Some (first, final) \<Rightarrow> list_all (\<lambda>r. lg_seq r \<le> final) (segment_records parse seg))"

definition text_bytes :: "string list \<Rightarrow> nat" where
  "text_bytes ls = sum_list (map length ls)"

definition clean_log :: "line_parser \<Rightarrow> session_dir \<Rightarrow> bool" where
  "clean_log parse d =
     (list_all (\<lambda>seg. list_all (clean_line parse) (file_lines [] (snd seg)) \<and> truthful_name parse seg) (segments d)
      \<and> sorted_wrt (<) (map lg_seq (log_records parse d))
      \<and> sum_list (map (\<lambda>seg. text_bytes (file_lines [] (snd seg))) (segments d)) < USIZE_MAX)"

definition unseen :: "nat option \<Rightarrow> logged_record \<Rightarrow> bool" where
  "unseen after r = (\<not> seen after (lg_seq r))"

lemma line_records_simps [simp]:
  "line_records parse [] = []"
  "line_records parse (l # ls) =
     (if trim l = [] then line_records parse ls
      else case parse l of None \<Rightarrow> line_records parse ls | Some r \<Rightarrow> r # line_records parse ls)"
  by (simp_all add: line_records_def split: option.split)

lemma read_lines_clean:
  assumes "list_all (clean_line parse) ls" "length (pg_out p) < limit"
    and "pg_bytes p + text_bytes ls < USIZE_MAX"
  shows "\<exists>n \<le> pg_bytes p + text_bytes ls.
     read_lines parse after limit USIZE_MAX ls p
     = p\<lparr>pg_out := pg_out p @ take (limit - length (pg_out p)) (filter (unseen after) (line_records parse ls)),
         pg_bytes := n\<rparr>"
  using assms
proof (induction ls arbitrary: p)
  case Nil
  then show ?case by (intro exI [of _ "pg_bytes p"]) simp
next
  case (Cons l ls)
  have l: "clean_line parse l" and ls: "list_all (clean_line parse) ls" using Cons.prems(1) by simp_all
  have bytes: "pg_bytes p + length l + text_bytes ls < USIZE_MAX"
    using Cons.prems(3) by (simp add: text_bytes_def)
  obtain n where n: "n \<le> pg_bytes p + text_bytes ls"
      "read_lines parse after limit USIZE_MAX ls p
       = p\<lparr>pg_out := pg_out p @ take (limit - length (pg_out p)) (filter (unseen after) (line_records parse ls)),
           pg_bytes := n\<rparr>"
    using Cons.IH [OF ls Cons.prems(2)] bytes by auto
  have less: "n \<le> pg_bytes p + text_bytes (l # ls)" using n(1) by (simp add: text_bytes_def)
  show ?case
  proof (cases "trim l = []")
    case True
    then show ?thesis using l n less by (intro exI [of _ n]) (simp add: clean_line_def)
  next
    case False
    then obtain r where r: "parse l = Some r" "scan_seq l = None \<or> scan_seq l = Some (lg_seq r)" "utf8_ok l"
      using l by (auto simp: clean_line_def split: option.splits)
    show ?thesis
    proof (cases "seen after (lg_seq r)")
      case True
      then have "\<not> unseen after r" by (simp add: unseen_def)
      then show ?thesis using True False r n less
        by (intro exI [of _ n]) auto
    next
      case fresh: False
      then have new: "unseen after r" by (simp add: unseen_def)
      let ?p = "page_add l r p"
      have p: "pg_out ?p = pg_out p @ [r]" "pg_bytes ?p = pg_bytes p + length l" "pg_torn ?p = pg_torn p"
        using bytes by (simp_all add: page_add_def)
      have step: "read_lines parse after limit USIZE_MAX (l # ls) p
          = (if page_full limit USIZE_MAX ?p then ?p else read_lines parse after limit USIZE_MAX ls ?p)"
        using False r fresh by (auto simp: Let_def)
      show ?thesis
      proof (cases "limit \<le> Suc (length (pg_out p))")
        case True
        then have "page_full limit USIZE_MAX ?p" "limit - length (pg_out p) = 1"
          using Cons.prems(2) p by (simp_all add: page_full_def)
        then show ?thesis using step False r fresh p
          by (intro exI [of _ "pg_bytes p + length l"]) (simp add: new text_bytes_def page_add_def bytes)
      next
        case room: False
        then have "\<not> page_full limit USIZE_MAX ?p" using p bytes by (simp add: page_full_def)
        moreover obtain k where "k \<le> pg_bytes ?p + text_bytes ls"
            "read_lines parse after limit USIZE_MAX ls ?p
             = ?p\<lparr>pg_out := pg_out ?p @ take (limit - length (pg_out ?p)) (filter (unseen after) (line_records parse ls)),
                 pg_bytes := k\<rparr>"
          using Cons.IH [OF ls, of ?p] room p bytes by auto
        moreover have "limit - length (pg_out p) = Suc (limit - Suc (length (pg_out p)))" using room by simp
        ultimately show ?thesis using step False r fresh p
          by (intro exI [of _ k]) (simp add: new text_bytes_def page_add_def)
      qed
    qed
  qed
qed

lemma take_both:
  "take (limit - n) (xs @ ys) = take (limit - n) xs @ take (limit - (n + length (take (limit - n) xs))) ys"
  by (cases "length xs \<le> limit - n") simp_all

lemma read_segments_clean:
  assumes "list_all (\<lambda>seg. list_all (clean_line parse) (file_lines [] (snd seg)) \<and> truthful_name parse seg) segs"
    and "length (pg_out p) \<le> limit"
    and "pg_bytes p + sum_list (map (\<lambda>seg. text_bytes (file_lines [] (snd seg))) segs) < USIZE_MAX"
  shows "\<exists>n. read_segments parse after limit USIZE_MAX segs p
     = p\<lparr>pg_out := pg_out p @ take (limit - length (pg_out p))
            (filter (unseen after) (concat (map (segment_records parse) segs))), pg_bytes := n\<rparr>"
  using assms
proof (induction segs arbitrary: p)
  case Nil
  then show ?case by (intro exI [of _ "pg_bytes p"]) simp
next
  case (Cons seg segs)
  obtain name content where seg: "seg = (name, content)" by (cases seg)
  have clean: "list_all (clean_line parse) (file_lines [] content)" and true_name: "truthful_name parse seg"
    and rest: "list_all (\<lambda>seg. list_all (clean_line parse) (file_lines [] (snd seg)) \<and> truthful_name parse seg) segs"
    using Cons.prems(1) seg by simp_all
  show ?case
  proof (cases "limit \<le> length (pg_out p)")
    case True
    then show ?thesis using seg by (intro exI [of _ "pg_bytes p"]) (simp add: page_full_def)
  next
    case room: False
    then have open_page: "\<not> page_full limit USIZE_MAX p" using Cons.prems(3) by (simp add: page_full_def)
    show ?thesis
    proof (cases "skip_segment name after")
      case True
      then have "filter (unseen after) (segment_records parse seg) = []"
        using true_name seg
        by (auto simp: skip_segment_def truthful_name_def unseen_def seen_def filter_empty_conv list_all_iff
              split: option.splits)
      then show ?thesis using True open_page seg Cons.IH [OF rest, of p] Cons.prems(2,3)
        by auto
    next
      case False
      let ?ls = "file_lines [] content"
      obtain n where n: "n \<le> pg_bytes p + text_bytes ?ls"
          "read_lines parse after limit USIZE_MAX ?ls p
           = p\<lparr>pg_out := pg_out p @ take (limit - length (pg_out p)) (filter (unseen after) (line_records parse ?ls)),
               pg_bytes := n\<rparr>"
        using read_lines_clean [OF clean, of p limit after] room Cons.prems(3) seg by auto
      let ?p = "p\<lparr>pg_out := pg_out p @ take (limit - length (pg_out p)) (filter (unseen after) (line_records parse ?ls)),
               pg_bytes := n\<rparr>"
      have "n + sum_list (map (\<lambda>seg. text_bytes (file_lines [] (snd seg))) segs) < USIZE_MAX"
        using n(1) Cons.prems(3) seg by simp
      then have "\<exists>k. read_segments parse after limit USIZE_MAX segs ?p
        = ?p\<lparr>pg_out := pg_out ?p @ take (limit - length (pg_out ?p))
            (filter (unseen after) (concat (map (segment_records parse) segs))), pg_bytes := k\<rparr>"
        using room by (intro Cons.IH [OF rest]) simp_all
      then obtain k where "read_segments parse after limit USIZE_MAX segs ?p
        = ?p\<lparr>pg_out := pg_out ?p @ take (limit - length (pg_out ?p))
            (filter (unseen after) (concat (map (segment_records parse) segs))), pg_bytes := k\<rparr>" ..
      then have "read_segments parse after limit USIZE_MAX (seg # segs) p
        = p\<lparr>pg_out := pg_out p @ take (limit - length (pg_out p))
            (filter (unseen after) (line_records parse ?ls)
              @ filter (unseen after) (concat (map (segment_records parse) segs))), pg_bytes := k\<rparr>"
        using n(2) open_page False seg by (simp add: take_both del: take_append length_take)
      then show ?thesis using seg by (intro exI [of _ k]) (simp add: segment_records_pair)
    qed
  qed
qed

lemma page_of_clean_log:
  assumes "clean_log parse d"
  shows "read_records_after_torn parse d after limit
     = (take limit (filter (unseen after) (log_records parse d)), False)"
proof -
  have "\<exists>n. read_segments parse after limit USIZE_MAX (segments d) \<lparr>pg_out = [], pg_bytes = 0, pg_torn = False\<rparr>
     = \<lparr>pg_out = take limit (filter (unseen after) (log_records parse d)), pg_bytes = n, pg_torn = False\<rparr>"
    using read_segments_clean [of parse "segments d" "\<lparr>pg_out = [], pg_bytes = 0, pg_torn = False\<rparr>" limit after] assms
    by (simp add: clean_log_def log_records_def)
  then show ?thesis
    by (auto simp: read_records_after_torn_def read_records_page_inner_def Let_def)
qed

lemma after_the_page:
  assumes "sorted_wrt (<) (map lg_seq xs)" "n < length xs"
  shows "filter (\<lambda>r. lg_seq (xs ! n) < lg_seq r) xs = drop (Suc n) xs"
  using assms
proof (induction xs arbitrary: n)
  case (Cons x xs)
  show ?case
  proof (cases n)
    case 0
    then show ?thesis using Cons.prems(1) by (auto intro!: filter_True)
  next
    case (Suc m)
    then have "\<not> lg_seq (xs ! m) < lg_seq x" using Cons.prems by (simp add: not_less less_imp_le)
    then show ?thesis using Suc Cons by simp
  qed
qed simp

lemma pages_of_clean_log:
  assumes "clean_log parse d" and "0 < limit"
  shows "read_pages parse d limit after = Some (filter (unseen after) (log_records parse d), False)"
proof (induction "length (filter (unseen after) (log_records parse d))" arbitrary: after rule: less_induct)
  case less
  let ?xs = "filter (unseen after) (log_records parse d)"
  have sorted: "sorted_wrt (<) (map lg_seq ?xs)"
    using assms(1) by (simp add: clean_log_def sorted_wrt_map sorted_wrt_filter)
  have page: "read_records_after_torn parse d after limit = (take limit ?xs, False)"
    by (rule page_of_clean_log [OF assms(1)])
  show ?case
  proof (cases "length ?xs < limit")
    case True
    then show ?thesis using assms(2) by (subst read_pages.simps) (simp add: page)
  next
    case False
    then obtain n where n: "limit = Suc n" "n < length ?xs" using assms(2) by (cases limit) auto
    let ?c = "lg_seq (?xs ! n)"
    have tail: "List.last (take limit ?xs) = ?xs ! n" using n by (simp add: take_Suc_conv_app_nth)
    have "unseen after (?xs ! n)" using nth_mem [OF n(2)] by simp
    then have both: "unseen (Some ?c) = (\<lambda>r. unseen after r \<and> ?c < lg_seq r)"
      by (auto simp: unseen_def seen_def fun_eq_iff split: option.splits)
    have "filter (unseen (Some ?c)) (log_records parse d) = filter (\<lambda>r. ?c < lg_seq r) ?xs"
      by (subst both) (simp add: filter_filter)
    then have rest: "filter (unseen (Some ?c)) (log_records parse d) = drop limit ?xs"
      using after_the_page [OF sorted n(2)] n(1) by simp
    then have "read_pages parse d limit (Some ?c) = Some (drop limit ?xs, False)"
      using less [of "Some ?c"] n by simp
    moreover have "take limit ?xs \<noteq> []" "\<not> length (take limit ?xs) < limit" using n by auto
    ultimately show ?thesis
      by (subst read_pages.simps) (simp only: page prod.case tail if_False Option.bind.bind_lunit append_take_drop_id
          simp_thms)
  qed
qed

lemma whole_log:
  assumes "clean_log parse d" "0 < limit"
  shows "read_pages parse d limit None = Some (log_records parse d, False)"
  using pages_of_clean_log [OF assms, of None] by (simp add: unseen_def seen_def)

text \<open>Paging through a clean log by a cursor yields the whole log: whatever the page size, however the records fall into segments, and wherever the reader starts, each record after the cursor is read exactly once and in order, nothing is reported torn, and the loop ends.\<close>

theorem paging_exact:
  assumes "clean_log parse d" and "0 < limit"
  shows "read_pages parse d limit after = Some (filter (unseen after) (log_records parse d), False)"
  using assms by (rule pages_of_clean_log)

lemma read_lines_append:
  assumes "list_all (clean_line parse) ls"
    and "length (pg_out p) + length (filter (unseen after) (line_records parse ls)) < limit"
    and "pg_bytes p + text_bytes ls < USIZE_MAX"
  shows "read_lines parse after limit USIZE_MAX (ls @ rest) p
       = read_lines parse after limit USIZE_MAX rest (read_lines parse after limit USIZE_MAX ls p)"
  using assms
proof (induction ls arbitrary: p)
  case (Cons l ls)
  have l: "clean_line parse l" and ls: "list_all (clean_line parse) ls" using Cons.prems(1) by simp_all
  have bytes: "pg_bytes p + length l + text_bytes ls < USIZE_MAX"
    using Cons.prems(3) by (simp add: text_bytes_def)
  show ?case
  proof (cases "trim l = []")
    case True
    then show ?thesis using l Cons.IH [OF ls, of p] Cons.prems(2) bytes by (simp add: clean_line_def)
  next
    case False
    then obtain r where r: "parse l = Some r" "scan_seq l = None \<or> scan_seq l = Some (lg_seq r)" "utf8_ok l"
      using l by (auto simp: clean_line_def split: option.splits)
    show ?thesis
    proof (cases "seen after (lg_seq r)")
      case True
      then have "\<not> unseen after r" by (simp add: unseen_def)
      then show ?thesis using True False r Cons.IH [OF ls, of p] Cons.prems(2) bytes by auto
    next
      case fresh: False
      then have new: "unseen after r" by (simp add: unseen_def)
      let ?p = "page_add l r p"
      have p: "pg_out ?p = pg_out p @ [r]" "pg_bytes ?p = pg_bytes p + length l"
        using bytes by (simp_all add: page_add_def)
      have room: "length (pg_out ?p) + length (filter (unseen after) (line_records parse ls)) < limit"
        using Cons.prems(2) False r new p by simp
      then have "\<not> page_full limit USIZE_MAX ?p" using p bytes by (simp add: page_full_def)
      then show ?thesis using False r fresh Cons.IH [OF ls room] p bytes by (auto simp: Let_def)
    qed
  qed
qed simp



definition demo_record :: "nat \<Rightarrow> logged_record" where
  "demo_record n =
     \<lparr>lg_seq = n, lg_ts = ''t'', lg_kind = ''round'', lg_task = Some ''r'', lg_span = None, lg_agent = None,
      lg_data = JNull\<rparr>"

lemma demo_seq: "lg_seq (demo_record n) = n"
  by (simp add: demo_record_def)

theorem scan_finds_own_seq_witness:
  "scan_seq (to_line (\<lambda>s. s) (\<lambda>_. ''null'') (demo_record 7)) = Some 7"
  using scan_finds_own_seq [of "demo_record 7" "\<lambda>s. s" "\<lambda>_. ''null''"] by (simp add: demo_record_def)

text \<open>A log of two segments, its lines the digits of their numbers.\<close>

definition demo_log :: session_dir where
  "demo_log = \<lparr>sd_files = [(''log.jsonl'', ''3'' @ NL @ ''4'' @ NL), (''log.1-2.jsonl'', ''1'' @ NL @ ''2'' @ NL)], sd_results = [], sd_snapshots = []\<rparr>"

definition demo_parse :: line_parser where
  "demo_parse line = map_option demo_record (parse_u64 line)"

lemma demo_digits:
  "parse_u64 ''1'' = Some 1" "parse_u64 ''2'' = Some 2" "parse_u64 ''3'' = Some 3" "parse_u64 ''4'' = Some 4"
  by (simp_all add: parse_u64_def is_digit_def byte_of_def read_nat_def Let_def)

lemma demo_name:
  "Option.bind (strip_prefix ''log.'' ''log.1-2.jsonl'') (strip_suffix ''.jsonl'') = Some ''1-2''"
  "Option.bind (strip_prefix ''log.'' ''log.jsonl'') (strip_suffix ''.jsonl'') = None"
  "split_once (CHR ''-'') ''1-2'' = Some (''1'', ''2'')"
  by code_simp+

theorem paging_exact_witness:
  "read_pages demo_parse demo_log 1 (Some 1) = Some ([demo_record 2, demo_record 3, demo_record 4], False)"
proof -
  have s: "segments demo_log = [(''log.1-2.jsonl'', ''1'' @ NL @ ''2'' @ NL), (''log.jsonl'', ''3'' @ NL @ ''4'' @ NL)]"
    by (simp add: segments_def demo_log_def LIVE_SEGMENT_def List.map_filter_def segment_first_seq_def demo_name demo_digits)
  have l: "file_lines [] (''1'' @ NL @ ''2'' @ NL) = [''1'', ''2'']" "file_lines [] (''3'' @ NL @ ''4'' @ NL) = [''3'', ''4'']"
    by code_simp+
  have p: "demo_parse ''1'' = Some (demo_record 1)" "demo_parse ''2'' = Some (demo_record 2)"
      "demo_parse ''3'' = Some (demo_record 3)" "demo_parse ''4'' = Some (demo_record 4)"
    by (simp_all add: demo_parse_def demo_digits)
  have t: "trim ''1'' \<noteq> []" "trim ''2'' \<noteq> []" "trim ''3'' \<noteq> []" "trim ''4'' \<noteq> []" by code_simp+
  have u: "utf8_ok ''1''" "utf8_ok ''2''" "utf8_ok ''3''" "utf8_ok ''4''" by code_simp+
  have q: "scan_seq ''1'' = None" "scan_seq ''2'' = None" "scan_seq ''3'' = None" "scan_seq ''4'' = None" by code_simp+
  have r: "segment_range ''log.1-2.jsonl'' = Some (1, 2)" "segment_range ''log.jsonl'' = None"
    by (simp_all add: segment_range_def demo_name demo_digits)
  define f1 where "f1 = ''1'' @ NL @ ''2'' @ NL"
  define f3 where "f3 = ''3'' @ NL @ ''4'' @ NL"
  note files = s [folded f1_def f3_def] l [folded f1_def f3_def]
  have log: "log_records demo_parse demo_log = [demo_record 1, demo_record 2, demo_record 3, demo_record 4]"
    by (simp add: log_records_def files segment_records_pair p t)
  have "clean_log demo_parse demo_log"
    unfolding clean_log_def log
    by (simp add: files clean_line_def p t u q truthful_name_def r segment_records_pair text_bytes_def USIZE_MAX_def
        demo_seq)
  from paging_exact [OF this, of 1 "Some 1"] show ?thesis
    by (simp add: log unseen_def seen_def demo_seq)
qed

end
