(* ===== verification/Session_Envelope.thy ===== *)
theory Session_Envelope
  imports Session_Reader
begin

text \<open>
  The bound on a record's payload (\<open>cap_data\<close> in \<open>session_log/record.rs\<close>): the long strings
  of the payload are cut, the longest first, never one that identifies the record or pairs it with
  another; a payload no cut can shrink is replaced by its identity and a preview. Writing a value as
  text is \<open>serde_json\<close>'s and an argument.
\<close>

type_synonym serializer = "json \<Rightarrow> string"

section \<open>Paths\<close>

datatype path_step = KeyStep string | IdxStep nat

definition ENVELOPE_DATA_CAP_BYTES :: nat where
  "ENVELOPE_DATA_CAP_BYTES = 64 * 1024"

definition CUT_WORTH_IT :: nat where
  "CUT_WORTH_IT = 128"

definition IDENTITY_KEYS :: "string list" where
  "IDENTITY_KEYS =
     [''tool_use_id'', ''id'', ''name'', ''type'', ''kind'', ''log_seq'', ''seq'', ''task_id'', ''span_id'',
      ''request_id'', ''msg_id'', ''agent'', ''model'', ''ext'']"

definition is_identity :: "string \<Rightarrow> bool" where
  "is_identity key = (key \<in> set IDENTITY_KEYS)"

definition is_pairing_key :: "path_step list \<Rightarrow> string \<Rightarrow> bool" where
  "is_pairing_key path key =
     (key = ''tool_use_id''
      \<or> (key = ''id'' \<or> key = ''name'')
        \<and> (case path of [KeyStep container, IdxStep _] \<Rightarrow> container = ''tool_use'' | _ \<Rightarrow> False))"

text \<open>The strings worth cutting, in the order the payload is walked; a path is kept reversed.\<close>

function collect_cuttable :: "path_step list \<Rightarrow> json \<Rightarrow> (path_step list \<times> nat) list" where
  "collect_cuttable path (JString s) =
     (if PREVIEW_CHARS + CUT_WORTH_IT < length s then [(path, length s)] else [])"
| "collect_cuttable path (JArray items) =
     concat (map (\<lambda>(i, v). collect_cuttable (path @ [IdxStep i]) v) (enumerate 0 items))"
| "collect_cuttable path (JObject ms) =
     concat (map (\<lambda>(k, v). if is_pairing_key path k then [] else collect_cuttable (path @ [KeyStep k]) v) ms)"
| "collect_cuttable path JNull = []"
| "collect_cuttable path (JBool b) = []"
| "collect_cuttable path (JNumber n) = []"
  by pat_completeness auto

termination
proof (relation "measure (\<lambda>(path, v). size v)")
  fix path :: "path_step list" and items :: "json list" and x i v
  assume "x \<in> set (enumerate 0 items)" "(i, v) = x"
  then have "v \<in> set items" by (auto simp: enumerate_eq_zip dest: set_zip_rightD)
  then show "((path @ [IdxStep i], v), path, JArray items) \<in> measure (\<lambda>(path, v). size v)"
    by (simp add: size_list_estimation' less_Suc_eq_le)
next
  fix path :: "path_step list" and ms :: "(string \<times> json) list" and x k v
  assume "x \<in> set ms" "(k, v) = x"
  then have "size_prod (\<lambda>_. 0) size (k, v) \<le> size_list (size_prod (\<lambda>_. 0) size) ms"
    by (auto intro: size_list_estimation')
  then show "((path @ [KeyStep k], v), path, JObject ms) \<in> measure (\<lambda>(path, v). size v)" by simp
qed simp

text \<open>\<open>slot_mut\<close>: the value at a path, and the payload with it replaced.\<close>

fun value_at :: "path_step list \<Rightarrow> json \<Rightarrow> json option" where
  "value_at [] v = Some v"
| "value_at (KeyStep k # p) (JObject ms) = Option.bind (map_of ms k) (value_at p)"
| "value_at (IdxStep i # p) (JArray vs) = (if i < length vs then value_at p (vs ! i) else None)"
| "value_at _ _ = None"

fun update_member :: "string \<Rightarrow> 'v \<Rightarrow> (string \<times> 'v) list \<Rightarrow> (string \<times> 'v) list" where
  "update_member k v [] = []"
| "update_member k v ((k', v') # ms) = (if k' = k then (k', v) # ms else (k', v') # update_member k v ms)"

fun put_at :: "path_step list \<Rightarrow> json \<Rightarrow> json \<Rightarrow> json" where
  "put_at [] new v = new"
| "put_at (KeyStep k # p) new (JObject ms) =
     (case map_of ms k of
        None \<Rightarrow> JObject ms
      | Some v \<Rightarrow> JObject (update_member k (put_at p new v) ms))"
| "put_at (IdxStep i # p) new (JArray vs) =
     (if i < length vs then JArray (vs[i := put_at p new (vs ! i)]) else JArray vs)"
| "put_at _ new v = v"

fun render_path :: "string \<Rightarrow> path_step list \<Rightarrow> string" where
  "render_path out [] = out"
| "render_path out (KeyStep k # p) = render_path (out @ (if out = [] then [] else ''.'') @ k) p"
| "render_path out (IdxStep i # p) = render_path (out @ ''['' @ show_nat i @ '']'') p"

section \<open>The cap\<close>

definition json_nat :: "nat \<Rightarrow> json" where
  "json_nat n = JNumber (show_nat n)"

definition json_object :: "(string \<times> json) list \<Rightarrow> json" where
  "json_object ms = JObject (btree_of ms)"

definition cut_marker :: "string list \<Rightarrow> nat \<Rightarrow> json" where
  "cut_marker gone original_bytes =
     json_object [(''fields'', JArray (map JString gone)), (''original_bytes'', json_nat original_bytes),
       (''spilled_pending'', JBool True)]"

definition marker_len :: "serializer \<Rightarrow> string list \<Rightarrow> nat \<Rightarrow> nat" where
  "marker_len ser gone original_bytes =
     length (ser (cut_marker gone original_bytes)) + length '',_truncated:'' + 2 + 64"

definition too_long :: "serializer \<Rightarrow> (string \<times> json) list \<Rightarrow> bool" where
  "too_long ser ms = (ENVELOPE_DATA_CAP_BYTES < length (ser (JObject ms)))"

text \<open>The member that costs most; of equals, the last. The marker is never it.\<close>

fun worst_member :: "serializer \<Rightarrow> (string \<times> json) list \<Rightarrow> (string \<times> nat) option" where
  "worst_member ser [] = None"
| "worst_member ser ((k, v) # ms) =
     (if k = ''_truncated'' then worst_member ser ms
      else case worst_member ser ms of
             None \<Rightarrow> Some (k, length (ser v))
           | Some (k', n) \<Rightarrow> if length (ser v) \<le> n then Some (k', n) else Some (k, length (ser v)))"

lemma worst_member_in: "worst_member ser ms = Some (k, n) \<Longrightarrow> k \<in> fst ` set ms \<and> k \<noteq> ''_truncated''"
proof (induction ms arbitrary: n)
  case (Cons m ms)
  then show ?case by (cases m; cases "worst_member ser ms") (auto split: if_splits)
qed simp

lemma removed_shorter: "k \<in> fst ` set ms \<Longrightarrow> length (filter (\<lambda>(k', v). k' \<noteq> k) ms) < length ms"
  by (auto intro!: length_filter_less)

function drop_worst :: "serializer \<Rightarrow> (string \<times> json) list \<Rightarrow> (string \<times> json) list" where
  "drop_worst ser ms =
     (if \<not> too_long ser ms then ms
      else case worst_member ser ms of
             None \<Rightarrow> ms
           | Some (k, n) \<Rightarrow> drop_worst ser (filter (\<lambda>(k', v). k' \<noteq> k) ms))"
  by pat_completeness auto

termination
  by (relation "measure (\<lambda>(ser, ms). length ms)") (auto dest!: worst_member_in intro!: removed_shorter)

definition fallback :: "serializer \<Rightarrow> json \<Rightarrow> nat \<Rightarrow> (string \<times> json) list \<Rightarrow> json" where
  "fallback ser original original_bytes identity =
     (let rendered = ser original;
          bytes = (if 0 < original_bytes then original_bytes else length rendered);
          mark = json_object [(''fields'', JArray [JString ''*'']), (''original_bytes'', json_nat bytes),
                   (''spilled_pending'', JBool True)]
      in JObject (drop_worst ser
           (member_insert ''preview'' (JString (spill_preview rendered))
             (member_insert ''_truncated'' mark identity))))"

fun cut_victims ::
  "serializer \<Rightarrow> nat \<Rightarrow> (path_step list \<times> nat) list \<Rightarrow> (string \<times> json) list \<Rightarrow> string list
   \<Rightarrow> (string \<times> json) list \<times> string list" where
  "cut_victims ser bytes [] ms gone = (ms, gone)"
| "cut_victims ser bytes ((path, len) # victims) ms gone =
     (if length (ser (JObject ms)) + marker_len ser gone bytes \<le> ENVELOPE_DATA_CAP_BYTES then (ms, gone)
      else case value_at path (JObject ms) of
             None \<Rightarrow> cut_victims ser bytes victims ms gone
           | Some here \<Rightarrow>
               (let new = JString (spill_preview (unwrap_or (as_str here) '''') @ ELLIPSIS @ '' [truncated: ''
                            @ show_nat len @ '' bytes; spill pending]'')
                in case put_at path new (JObject ms) of
                     JObject ms' \<Rightarrow> cut_victims ser bytes victims ms' (gone @ [render_path [] path])
                   | _ \<Rightarrow> (ms, gone)))"

definition cuttable_members :: "(string \<times> json) list \<Rightarrow> (path_step list \<times> nat) list" where
  "cuttable_members ms =
     sort_key (\<lambda>(path, len). - int len)
       (concat (map (\<lambda>(k, v). if is_identity k then [] else collect_cuttable [KeyStep k] v) ms))"

definition cap_data :: "serializer \<Rightarrow> json \<Rightarrow> json \<times> bool" where
  "cap_data ser data =
     (if length (ser data) \<le> ENVELOPE_DATA_CAP_BYTES then (data, False)
      else case data of
             JObject ms \<Rightarrow>
               (let bytes = length (ser data);
                    identity = filter (\<lambda>(k, v). is_identity k) ms;
                    (ms', gone) = cut_victims ser bytes (cuttable_members ms) ms [];
                    marked = member_insert ''_truncated'' (cut_marker gone bytes) ms'
                in if too_long ser marked then (fallback ser (JObject marked) bytes identity, True)
                   else (JObject marked, True))
           | _ \<Rightarrow> (fallback ser data (length (ser data)) [], True))"


section \<open>What a cut leaves\<close>

lemma map_of_update_member:
  "map_of (update_member k v ms) k' = (if k' = k \<and> map_of ms k \<noteq> None then Some v else map_of ms k')"
  by (induction k v ms rule: update_member.induct) auto

text \<open>The payload with every string emptied: what no cut changes.\<close>

fun skeleton :: "json \<Rightarrow> json" where
  "skeleton (JString s) = JString []"
| "skeleton (JArray vs) = JArray (map skeleton vs)"
| "skeleton (JObject ms) = JObject (map (\<lambda>m. (fst m, skeleton (snd m))) ms)"
| "skeleton v = v"

lemma map_of_skeleton: "map_of (map (\<lambda>m. (fst m, f (snd m))) ms) k = map_option f (map_of ms k)"
  by (induction ms) auto

lemma skeleton_update_member:
  "map_of ms k = Some v \<Longrightarrow> skeleton w = skeleton v \<Longrightarrow>
   map (\<lambda>m. (fst m, skeleton (snd m))) (update_member k w ms) = map (\<lambda>m. (fst m, skeleton (snd m))) ms"
  by (induction k w ms rule: update_member.induct) (auto split: if_splits)

lemma skeleton_put_at:
  "value_at p v = Some (JString s) \<Longrightarrow> skeleton (put_at p (JString t) v) = skeleton v"
proof (induction p "JString t" v rule: put_at.induct)
  case (2 k p ms)
  then obtain v where v: "map_of ms k = Some v" "value_at p v = Some (JString s)" by (auto simp: bind_eq_Some_conv)
  then show ?case using 2 by (simp add: skeleton_update_member)
next
  case (3 i p vs)
  then have "skeleton (put_at p (JString t) (vs ! i)) = map skeleton vs ! i" "i < length vs"
    by (simp_all split: if_splits)
  then show ?case using list_update_id [of "map skeleton vs" i] by (simp add: map_update)
qed auto

text \<open>No collected path leads into a call's id or name.\<close>

definition unsafe_path :: "path_step list \<Rightarrow> bool" where
  "unsafe_path p \<longleftrightarrow>
     (\<exists>i k q. p = KeyStep ''tool_use'' # IdxStep i # KeyStep k # q \<and> (k = ''id'' \<or> k = ''name''))"

lemma unsafe_snoc:
  "unsafe_path (p @ [x]) \<longleftrightarrow>
     unsafe_path p \<or> (\<exists>i k. p = [KeyStep ''tool_use'', IdxStep i] \<and> x = KeyStep k \<and> (k = ''id'' \<or> k = ''name''))"
  unfolding unsafe_path_def
  by (cases p; cases "tl p"; cases "tl (tl p)") auto

lemma collected_safe:
  "(p, n) \<in> set (collect_cuttable path v) \<Longrightarrow> unsafe_path p \<Longrightarrow> unsafe_path path"
proof (induction path v rule: collect_cuttable.induct)
  case (2 path items)
  then show ?case by (auto simp: unsafe_snoc)
next
  case (3 path ms)
  then obtain k v where kv: "(k, v) \<in> set ms" "\<not> is_pairing_key path k"
      "(p, n) \<in> set (collect_cuttable (path @ [KeyStep k]) v)"
    by (auto split: if_splits)
  then have "unsafe_path (path @ [KeyStep k])" using 3 by blast
  then show ?case using kv(2) by (auto simp: unsafe_snoc is_pairing_key_def)
qed (auto split: if_splits)

text \<open>An object holds a name once, at every depth.\<close>

fun json_ok :: "json \<Rightarrow> bool" where
  "json_ok (JArray vs) = list_all json_ok vs"
| "json_ok (JObject ms) = (distinct (map fst ms) \<and> list_all (\<lambda>m. json_ok (snd m)) ms)"
| "json_ok v = True"

lemma collected_string:
  "(p, n) \<in> set (collect_cuttable path v) \<Longrightarrow> json_ok v \<Longrightarrow>
   \<exists>q s. p = path @ q \<and> value_at q v = Some (JString s)"
proof (induction path v rule: collect_cuttable.induct)
  case (1 path s)
  then show ?case by (auto split: if_splits)
next
  case (2 path items)
  then obtain i where i: "i < length items" "(p, n) \<in> set (collect_cuttable (path @ [IdxStep i]) (items ! i))"
    by (auto simp: in_set_enumerate_eq)
  moreover have "(i, items ! i) \<in> set (enumerate 0 items)" using i by (simp add: in_set_enumerate_eq)
  moreover have "json_ok (items ! i)" using 2 i by (simp add: list_all_length)
  ultimately obtain q s where "p = (path @ [IdxStep i]) @ q" "value_at q (items ! i) = Some (JString s)"
    using 2 by blast
  then show ?case using i by (intro exI [of _ "IdxStep i # q"] exI [of _ s]) simp
next
  case (3 path ms)
  then obtain k v where kv: "(k, v) \<in> set ms" "\<not> is_pairing_key path k"
      "(p, n) \<in> set (collect_cuttable (path @ [KeyStep k]) v)"
    by (auto split: if_splits)
  moreover have "json_ok v" "map_of ms k = Some v" using 3 kv(1) by (auto simp: list_all_iff)
  ultimately obtain q s where "p = (path @ [KeyStep k]) @ q" "value_at q v = Some (JString s)"
    using 3 by blast
  then show ?case using \<open>map_of ms k = Some v\<close>
    by (intro exI [of _ "KeyStep k # q"] exI [of _ s]) simp
qed auto

text \<open>What a victim is, as far as cutting it goes.\<close>

definition victim_ok :: "json \<Rightarrow> path_step list \<Rightarrow> bool" where
  "victim_ok v p \<longleftrightarrow>
     (\<exists>k q s. p = KeyStep k # q \<and> \<not> is_identity k \<and> value_at p v = Some (JString s)) \<and> \<not> unsafe_path p"

lemma cuttable_ok:
  assumes "json_ok (JObject ms)" "(p, n) \<in> set (cuttable_members ms)"
  shows "victim_ok (JObject ms) p"
proof -
  obtain k v where kv: "(k, v) \<in> set ms" "\<not> is_identity k" "(p, n) \<in> set (collect_cuttable [KeyStep k] v)"
    using assms(2) by (auto simp: cuttable_members_def split: if_splits)
  have v: "json_ok v" "map_of ms k = Some v" using assms(1) kv(1) by (auto simp: list_all_iff)
  obtain q s where "p = [KeyStep k] @ q" "value_at q v = Some (JString s)"
    using collected_string [OF kv(3) v(1)] by blast
  moreover have "\<not> unsafe_path p"
    using collected_safe [OF kv(3)] by (auto simp: unsafe_path_def)
  ultimately show ?thesis using kv(2) v(2) by (simp add: victim_ok_def)
qed

text \<open>The calls of a round, by id and name.\<close>

definition call_names :: "json \<Rightarrow> (string option \<times> string option) list option" where
  "call_names v =
     map_option (map (\<lambda>c. (Option.bind (json_get c ''id'') as_str, Option.bind (json_get c ''name'') as_str)))
       (Option.bind (json_get v ''tool_use'') as_array)"

lemma value_at_array:
  "value_at q (JArray vs) = Some (JString s) \<Longrightarrow>
   \<exists>i r. q = IdxStep i # r \<and> i < length vs \<and> value_at r (vs ! i) = Some (JString s)"
  by (cases q rule: list.exhaust; cases "hd q") (auto split: if_splits)

lemma value_at_object:
  "value_at q (JObject ms) = Some (JString s) \<Longrightarrow>
   \<exists>k r v. q = KeyStep k # r \<and> map_of ms k = Some v \<and> value_at r v = Some (JString s)"
  by (cases q rule: list.exhaust; cases "hd q") (auto simp: bind_eq_Some_conv)

lemma value_at_string: "value_at q (JString x) = Some v \<Longrightarrow> q = []"
  by (cases q rule: list.exhaust; cases "hd q"; simp)

lemma value_at_leaf [simp]:
  "value_at q JNull \<noteq> Some (JString s)" "value_at q (JBool b) \<noteq> Some (JString s)"
  "value_at q (JNumber n) \<noteq> Some (JString s)"
  by (cases q rule: list.exhaust; cases "hd q"; simp)+

lemma call_names_put:
  assumes "victim_ok (JObject ms) p"
  shows "call_names (put_at p (JString t) (JObject ms)) = call_names (JObject ms)"
proof -
  obtain k q s where p: "p = KeyStep k # q" "value_at p (JObject ms) = Some (JString s)" "\<not> unsafe_path p"
    using assms by (auto simp: victim_ok_def)
  then obtain v where v: "map_of ms k = Some v" "value_at q v = Some (JString s)" by (auto simp: bind_eq_Some_conv)
  show ?thesis
  proof (cases "k = ''tool_use''")
    case False
    then show ?thesis using p v by (simp add: call_names_def map_of_update_member)
  next
    case k: True
    have same: "map_option (map (\<lambda>c. (Option.bind (json_get c ''id'') as_str, Option.bind (json_get c ''name'') as_str)))
        (as_array (put_at q (JString t) v))
      = map_option (map (\<lambda>c. (Option.bind (json_get c ''id'') as_str, Option.bind (json_get c ''name'') as_str)))
        (as_array v)" (is "?f (as_array _) = _")
    proof (cases v)
      case (JArray vs)
      then obtain i r where q: "q = IdxStep i # r" "i < length vs" "value_at r (vs ! i) = Some (JString s)"
        using v(2) value_at_array by blast
      have "Option.bind (json_get (put_at r (JString t) (vs ! i)) key) as_str
          = Option.bind (json_get (vs ! i) key) as_str" if "key = ''id'' \<or> key = ''name''" for key
      proof (cases "vs ! i")
        case (JObject es)
        then obtain k' r' where r: "r = KeyStep k' # r'" "map_of es k' \<noteq> None"
          using value_at_object [of r es s] q(3) by auto
        have "k' \<noteq> key" using p(1,3) k q(1) r that by (auto simp: unsafe_path_def)
        then show ?thesis using JObject r by (auto simp: map_of_update_member)
      next
        case (JArray x)
        then show ?thesis using value_at_array [of r x s] q(3) by auto
      next
        case (JString x)
        then show ?thesis using value_at_string [of r x] q(3) by simp
      qed (use q(3) in auto)
      then show ?thesis using JArray q(1,2)
        using list_update_id [of "map (\<lambda>c. (Option.bind (json_get c ''id'') as_str, Option.bind (json_get c ''name'') as_str)) vs" i]
        by (simp add: map_update)
    next
      case (JObject es)
      then show ?thesis using value_at_object [of q es s] v(2) by auto
    next
      case (JString x)
      then show ?thesis using value_at_string [of q x] v(2) by simp
    qed (use v(2) in auto)
    then show ?thesis using p v k by (simp add: call_names_def map_of_update_member)
  qed
qed


lemma value_at_skeleton: "value_at p (skeleton v) = map_option skeleton (value_at p v)"
proof (induction p v rule: value_at.induct)
  case (2 k p ms)
  then show ?case by (cases "map_of ms k") (simp_all add: map_of_skeleton)
qed auto

lemma string_skeleton: "skeleton v = JString s \<Longrightarrow> \<exists>t. v = JString t"
  by (cases v) simp_all

lemma victim_ok_put:
  assumes "victim_ok v p" "victim_ok v p'"
  shows "victim_ok (put_at p (JString t) v) p'"
proof -
  obtain s s' where s: "value_at p v = Some (JString s)" "value_at p' v = Some (JString s')"
    using assms by (auto simp: victim_ok_def)
  have "value_at p' (skeleton (put_at p (JString t) v)) = Some (JString [])"
    using skeleton_put_at [OF s(1)] s(2) by (simp add: value_at_skeleton)
  then obtain s'' where "value_at p' (put_at p (JString t) v) = Some (JString s'')"
    by (auto simp: value_at_skeleton dest: string_skeleton)
  then show ?thesis using assms(2) by (auto simp: victim_ok_def)
qed

lemma put_at_object:
  assumes "victim_ok (JObject ms) p"
  obtains ms' where "put_at p new (JObject ms) = JObject ms'" "\<forall>k. is_identity k \<longrightarrow> map_of ms' k = map_of ms k"
proof -
  obtain k q s where p: "p = KeyStep k # q" "\<not> is_identity k" "value_at p (JObject ms) = Some (JString s)"
    using assms by (auto simp: victim_ok_def)
  then obtain v where "map_of ms k = Some v" by (auto simp: bind_eq_Some_conv)
  then show ?thesis using p that by (auto simp: map_of_update_member)
qed

lemma cut_victims_keeps:
  assumes "\<forall>x \<in> set victims. victim_ok (JObject ms) (fst x)" "cut_victims ser bytes victims ms gone = (ms', gone')"
  shows "call_names (JObject ms') = call_names (JObject ms) \<and> (\<forall>k. is_identity k \<longrightarrow> map_of ms' k = map_of ms k)"
  using assms
proof (induction victims arbitrary: ms gone)
  case (Cons x victims)
  obtain p n where x: "x = (p, n)" by (cases x)
  have ok: "victim_ok (JObject ms) p" using Cons.prems(1) x by simp
  then obtain s where s: "value_at p (JObject ms) = Some (JString s)" by (auto simp: victim_ok_def)
  show ?case
  proof (cases "length (ser (JObject ms)) + marker_len ser gone bytes \<le> ENVELOPE_DATA_CAP_BYTES")
    case False
    define new where "new = spill_preview s @ ELLIPSIS @ '' [truncated: '' @ show_nat n @ '' bytes; spill pending]''"
    obtain ms1 where ms1: "put_at p (JString new) (JObject ms) = JObject ms1"
        "\<forall>k. is_identity k \<longrightarrow> map_of ms1 k = map_of ms k"
      using put_at_object [OF ok] by blast
    have "\<forall>y \<in> set victims. victim_ok (JObject ms1) (fst y)"
      using victim_ok_put [OF ok, of _ new] ms1(1) Cons.prems(1) by auto
    moreover have "cut_victims ser bytes victims ms1 (gone @ [render_path [] p]) = (ms', gone')"
      using Cons.prems(2) False x s ms1(1) by (simp add: new_def unwrap_or_def)
    ultimately show ?thesis
      using Cons.IH call_names_put [OF ok, of new] ms1 by simp
  qed (use Cons.prems(2) x in auto)
qed simp

section \<open>The bound\<close>

declare drop_worst.simps [simp del]

lemma worst_member_None: "worst_member ser ms = None \<Longrightarrow> \<forall>m \<in> set ms. fst m = ''_truncated''"
proof (induction ms)
  case (Cons m ms)
  then show ?case by (cases m) (auto split: if_splits option.splits)
qed simp

lemma drop_worst_induct [case_names Fits Marked Drops]:
  assumes "\<And>ms. \<not> too_long ser ms \<Longrightarrow> P ms ms"
    and "\<And>ms. too_long ser ms \<Longrightarrow> \<forall>m \<in> set ms. fst m = ''_truncated'' \<Longrightarrow> P ms ms"
    and "\<And>ms ms' k. k \<noteq> ''_truncated'' \<Longrightarrow> P (filter (\<lambda>(k', v). k' \<noteq> k) ms) ms' \<Longrightarrow> P ms ms'"
  shows "P ms (drop_worst ser ms)"
proof (induction "length ms" arbitrary: ms rule: less_induct)
  case less
  show ?case
  proof (cases "too_long ser ms")
    case long: True
    show ?thesis
    proof (cases "worst_member ser ms")
      case None
      then show ?thesis using assms(2) [OF long worst_member_None] long by (simp add: drop_worst.simps [of ser ms])
    next
      case (Some x)
      obtain k n where x: "x = (k, n)" by (cases x)
      have k: "k \<in> fst ` set ms" "k \<noteq> ''_truncated''" using worst_member_in Some x by blast+
      have "P (filter (\<lambda>(k', v). k' \<noteq> k) ms) (drop_worst ser (filter (\<lambda>(k', v). k' \<noteq> k) ms))"
        using less removed_shorter [OF k(1)] by simp
      then show ?thesis using assms(3) [OF k(2)] long Some x by (simp add: drop_worst.simps [of ser ms])
    qed
  qed (simp add: assms(1) drop_worst.simps [of ser ms])
qed

lemma drop_worst_bound:
  "\<not> too_long ser (drop_worst ser ms) \<or> (\<forall>m \<in> set (drop_worst ser ms). fst m = ''_truncated'')"
  by (rule drop_worst_induct [of ser "\<lambda>ms ms'. \<not> too_long ser ms' \<or> (\<forall>m \<in> set ms'. fst m = ''_truncated'')"]) simp_all

lemma drop_worst_marker:
  "filter (\<lambda>m. fst m = ''_truncated'') (drop_worst ser ms) = filter (\<lambda>m. fst m = ''_truncated'') ms"
proof (rule drop_worst_induct [of ser "\<lambda>ms ms'. filter (\<lambda>m. fst m = ''_truncated'') ms' = filter (\<lambda>m. fst m = ''_truncated'') ms"])
  fix ms ms' :: "(string \<times> json) list" and k
  assume k: "k \<noteq> ''_truncated''"
    and eq: "filter (\<lambda>m. fst m = ''_truncated'') ms' = filter (\<lambda>m. fst m = ''_truncated'') (filter (\<lambda>(k', v). k' \<noteq> k) ms)"
  have "filter (\<lambda>m. fst m = ''_truncated'') (filter (\<lambda>(k', v). k' \<noteq> k) ms) = filter (\<lambda>m. fst m = ''_truncated'') ms"
    using k by (induction ms) auto
  then show "filter (\<lambda>m. fst m = ''_truncated'') ms' = filter (\<lambda>m. fst m = ''_truncated'') ms" using eq by (rule trans [rotated])
qed simp_all

text \<open>What is dropped is dropped whole: a member that is left is the one that was there.\<close>

lemma drop_worst_member:
  "map_of (drop_worst ser ms) k = None \<or> map_of (drop_worst ser ms) k = map_of ms k"
proof (rule drop_worst_induct [of ser "\<lambda>ms ms'. map_of ms' k = None \<or> map_of ms' k = map_of ms k"])
  fix ms ms' :: "(string \<times> json) list" and k'
  assume ih: "map_of ms' k = None \<or> map_of ms' k = map_of (filter (\<lambda>(a, v). a \<noteq> k') ms) k"
  have "map_of (filter (\<lambda>(a, v). a \<noteq> k') ms) k = (if k = k' then None else map_of ms k)"
    by (induction ms) auto
  then show "map_of ms' k = None \<or> map_of ms' k = map_of ms k" using ih by (auto split: if_splits)
qed simp_all

lemma map_of_identity: "is_identity k \<Longrightarrow> map_of (filter (\<lambda>(k, v). is_identity k) ms) k = map_of ms k"
  by (induction ms) auto

lemma identity_names [simp]: "\<not> is_identity ''_truncated''" "\<not> is_identity ''preview''" "\<not> is_identity ''tool_use''"
  by (simp_all add: is_identity_def IDENTITY_KEYS_def)

lemma filter_member_insert:
  "filter (\<lambda>m. fst m = k) ms = [] \<Longrightarrow> filter (\<lambda>m. fst m = k) (member_insert k v ms) = [(k, v)]"
  "j \<noteq> k \<Longrightarrow> filter (\<lambda>m. fst m = k) (member_insert j v ms) = filter (\<lambda>m. fst m = k) ms"
  by (induction ms) (auto split: if_splits)

text \<open>The marker alone is under the bound.\<close>

definition marker_fits :: "serializer \<Rightarrow> bool" where
  "marker_fits ser \<longleftrightarrow>
     (\<forall>n. length (ser (JObject [(''_truncated'', json_object [(''fields'', JArray [JString ''*'']),
        (''original_bytes'', json_nat n), (''spilled_pending'', JBool True)])])) \<le> ENVELOPE_DATA_CAP_BYTES)"

lemma fallback_object:
  assumes "marker_fits ser" "\<forall>m \<in> set identity. is_identity (fst m)"
  obtains ms where "fallback ser v n identity = JObject ms" "\<not> too_long ser ms"
    "\<forall>k. is_identity k \<longrightarrow> map_of ms k = None \<or> map_of ms k = map_of identity k" "map_of ms ''tool_use'' = None"
proof -
  define bytes where "bytes = (if 0 < n then n else length (ser v))"
  define mark where "mark = json_object [(''fields'', JArray [JString ''*'']), (''original_bytes'', json_nat bytes),
      (''spilled_pending'', JBool True)]"
  define full where "full = member_insert ''preview'' (JString (spill_preview (ser v)))
      (member_insert ''_truncated'' mark identity)"
  define ms where "ms = drop_worst ser full"
  have f: "fallback ser v n identity = JObject ms"
    by (simp add: fallback_def ms_def full_def mark_def bytes_def Let_def)
  have none: "filter (\<lambda>m. fst m = ''_truncated'') identity = []" "map_of identity ''tool_use'' = None"
    using assms(2) identity_names by (fastforce simp: filter_empty_conv map_of_eq_None_iff)+
  then have one: "filter (\<lambda>m. fst m = ''_truncated'') ms = [(''_truncated'', mark)]"
    by (simp add: ms_def drop_worst_marker full_def filter_member_insert)
  have short: "\<not> too_long ser ms"
  proof
    assume "too_long ser ms"
    then have "\<forall>m \<in> set ms. fst m = ''_truncated''" using drop_worst_bound [of ser full] by (simp add: ms_def)
    then have "ms = [(''_truncated'', mark)]" using one by (simp add: filter_id_conv)
    moreover have "length (ser (JObject [(''_truncated'', mark)])) \<le> ENVELOPE_DATA_CAP_BYTES"
      using assms(1) by (simp add: marker_fits_def mark_def)
    ultimately show False using \<open>too_long ser ms\<close> by (simp add: too_long_def)
  qed
  have full: "map_of full k = map_of identity k" if "k \<noteq> ''preview''" "k \<noteq> ''_truncated''" for k
    using that by (simp add: full_def map_of_member_insert)
  show ?thesis
  proof (rule that [OF f short])
    show "\<forall>k. is_identity k \<longrightarrow> map_of ms k = None \<or> map_of ms k = map_of identity k"
    proof (intro allI impI)
      fix k assume "is_identity k"
      then have "k \<noteq> ''preview''" "k \<noteq> ''_truncated''" by auto
      then show "map_of ms k = None \<or> map_of ms k = map_of identity k"
        using drop_worst_member [of ser full k] full by (simp add: ms_def)
    qed
    show "map_of ms ''tool_use'' = None"
      using drop_worst_member [of ser full "''tool_use''"] full none(2) by (auto simp: ms_def)
  qed
qed

text \<open>C29: A payload over the bound is cut to fit, and never at the cost of knowing what it belongs to: what is written is under 64 KiB; a payload that fits is left as it is; no field that identifies the record is ever altered, only, at the worst, dropped; and unless the payload collapses to a preview every tool call of a round keeps its id and its name, so that its results still find it.\<close>

theorem cap_data_sound:
  assumes "marker_fits ser" and "json_ok data" and "cap_data ser data = (out, was_cut)"
  shows "length (ser out) \<le> ENVELOPE_DATA_CAP_BYTES
    \<and> (length (ser data) \<le> ENVELOPE_DATA_CAP_BYTES \<longrightarrow> out = data \<and> \<not> was_cut)
    \<and> (\<forall>k. is_identity k \<longrightarrow> json_get out k = None \<or> json_get out k = json_get data k)
    \<and> (json_get out ''tool_use'' = None \<or> call_names out = call_names data)"
proof (cases "length (ser data) \<le> ENVELOPE_DATA_CAP_BYTES")
  case True
  then show ?thesis using assms(3) by (auto simp: cap_data_def)
next
  case False
  show ?thesis
  proof (cases "as_object data")
    case None
    then have "out = fallback ser data (length (ser data)) []"
      using assms(3) False by (cases data) (auto simp: cap_data_def)
    moreover obtain fs where "fallback ser data (length (ser data)) [] = JObject fs" "\<not> too_long ser fs"
        "\<forall>k. is_identity k \<longrightarrow> map_of fs k = None \<or> map_of fs k = map_of [] k" "map_of fs ''tool_use'' = None"
      by (rule fallback_object [OF assms(1), of "[]" data "length (ser data)"]) simp
    ultimately show ?thesis using False by (simp add: too_long_def)
  next
    case (Some ms)
    then have data: "data = JObject ms" by (cases data) simp_all
    define bytes where "bytes = length (ser data)"
    define ids where "ids = filter (\<lambda>(k, v). is_identity k) ms"
    obtain ms' gone where c: "cut_victims ser bytes (cuttable_members ms) ms [] = (ms', gone)" by fastforce
    define marked where "marked = member_insert ''_truncated'' (cut_marker gone bytes) ms'"
    have out: "out = (if too_long ser marked then fallback ser (JObject marked) bytes ids else JObject marked)"
    proof -
      have "cap_data ser data = (if too_long ser marked then (fallback ser (JObject marked) bytes ids, True)
          else (JObject marked, True))"
        using False by (simp add: cap_data_def data bytes_def [unfolded data, symmetric] c marked_def ids_def Let_def)
      then show ?thesis using assms(3) by (auto split: if_splits)
    qed
    have kept: "call_names (JObject ms') = call_names data" "\<forall>k. is_identity k \<longrightarrow> map_of ms' k = map_of ms k"
    proof -
      have "\<forall>x \<in> set (cuttable_members ms). victim_ok (JObject ms) (fst x)"
        using cuttable_ok [of ms] assms(2) unfolding data by (metis prod.collapse)
      from cut_victims_keeps [OF this c]
      show "call_names (JObject ms') = call_names data" "\<forall>k. is_identity k \<longrightarrow> map_of ms' k = map_of ms k"
        by (simp_all add: data)
    qed
    show ?thesis
    proof (cases "too_long ser marked")
      case True
      have "\<forall>m \<in> set ids. is_identity (fst m)" by (auto simp: ids_def)
      from fallback_object [OF assms(1) this, of "JObject marked" bytes]
      obtain fs where f: "fallback ser (JObject marked) bytes ids = JObject fs" "\<not> too_long ser fs"
          "\<forall>k. is_identity k \<longrightarrow> map_of fs k = None \<or> map_of fs k = map_of ids k" "map_of fs ''tool_use'' = None" .
      then have o: "out = JObject fs" using True out by simp
      have "\<forall>k. is_identity k \<longrightarrow> map_of fs k = None \<or> map_of fs k = map_of ms k"
        using f(3) by (simp add: ids_def map_of_identity)
      then show ?thesis using f(2,4) \<open>\<not> length (ser data) \<le> ENVELOPE_DATA_CAP_BYTES\<close>
        by (simp add: o data too_long_def)
    next
      case False
      have m: "map_of marked k = map_of ms' k" if "k \<noteq> ''_truncated''" for k
        using that by (simp add: marked_def map_of_member_insert)
      have o: "out = JObject marked" using False out by simp
      have "\<forall>k. is_identity k \<longrightarrow> map_of marked k = map_of ms k"
      proof (intro allI impI)
        fix k assume k: "is_identity k"
        then have "k \<noteq> ''_truncated''" by auto
        then show "map_of marked k = map_of ms k" using m k kept(2) by simp
      qed
      moreover have "call_names out = call_names data" using kept(1) m by (simp add: o call_names_def)
      ultimately show ?thesis using False \<open>\<not> length (ser data) \<le> ENVELOPE_DATA_CAP_BYTES\<close>
        by (simp add: o data too_long_def)
    qed
  qed
qed

text \<open>A writer of values that spells out one object and makes every other one long.\<close>

definition demo_ser :: serializer where
  "demo_ser v = (case v of JObject (m # n # ms) \<Rightarrow> replicate (ENVELOPE_DATA_CAP_BYTES + 1) (CHR ''x'') | _ \<Rightarrow> ''{}'')"

theorem cap_data_sound_witness:
  "\<exists>out. cap_data demo_ser (JObject [(''id'', JString ''c1''), (''n'', JNull)]) = (out, True)
     \<and> length (demo_ser out) \<le> ENVELOPE_DATA_CAP_BYTES"
proof -
  have "marker_fits demo_ser" by (simp add: marker_fits_def demo_ser_def ENVELOPE_DATA_CAP_BYTES_def)
  moreover have "json_ok (JObject [(''id'', JString ''c1''), (''n'', JNull)])" by simp
  moreover obtain out c where o: "cap_data demo_ser (JObject [(''id'', JString ''c1''), (''n'', JNull)]) = (out, c)"
    by fastforce
  ultimately have "length (demo_ser out) \<le> ENVELOPE_DATA_CAP_BYTES" by (blast dest: cap_data_sound)
  moreover have "length (demo_ser (JObject [(''id'', JString ''c1''), (''n'', JNull)])) = ENVELOPE_DATA_CAP_BYTES + 1"
    by (simp add: demo_ser_def)
  then have c using o by (auto simp: cap_data_def Let_def split: prod.splits if_splits)
  ultimately show ?thesis using o by auto
qed

end
