(* ===== verification/Session_Replay.thy ===== *)
theory Session_Replay
  imports Session_Envelope
begin

text \<open>
  Rebuilding an interrupted run's history from its log (\<open>session_log/replay.rs\<close>) and its undelivered
  interjections (\<open>session_log/recovery.rs\<close>). The derived reading of a working state, the rendering
  of a timestamp and the hash are arguments. The note that resumes a run is not modelled.
\<close>

section \<open>The plan\<close>

record replayed_close =
  rx_state :: string
  rx_detail :: "string option"
  rx_answer :: string

record replayed_subagent =
  ry_run_id :: string
  ry_close :: "replayed_close option"

record replay_plan =
  rp_messages :: "chat_message list"
  rp_rounds :: nat
  rp_tool_results :: nat
  rp_from_seq :: "nat option"
  rp_to_seq :: "nat option"
  rp_compacted_from_seq :: "nat option"
  rp_compacted_rounds_dropped :: nat
  rp_dropped_incomplete_rounds :: nat
  rp_trimmed_from_seq :: "nat option"
  rp_trim_reason :: "string option"
  rp_spills_referenced :: nat
  rp_missing_spills :: nat
  rp_last_ts :: "string option"
  rp_subagents :: "replayed_subagent list"

definition plan_default :: replay_plan where
  "plan_default =
     \<lparr>rp_messages = [], rp_rounds = 0, rp_tool_results = 0, rp_from_seq = None, rp_to_seq = None,
      rp_compacted_from_seq = None, rp_compacted_rounds_dropped = 0, rp_dropped_incomplete_rounds = 0,
      rp_trimmed_from_seq = None, rp_trim_reason = None, rp_spills_referenced = 0, rp_missing_spills = 0,
      rp_last_ts = None, rp_subagents = []\<rparr>"

definition plan_is_empty :: "replay_plan \<Rightarrow> bool" where
  "plan_is_empty p = (rp_rounds p = 0)"

text \<open>A round as the log recorded it, with the results that answered its calls.\<close>

record replay_round =
  rr_seq :: nat
  rr_text :: string
  rr_calls :: "tool_call list"
  rr_results :: "(nat \<times> chat_message) option list"

definition complete_round :: "replay_round \<Rightarrow> bool" where
  "complete_round r = list_all (\<lambda>x. x \<noteq> None) (rr_results r)"

definition assistant_message :: "replay_round \<Rightarrow> chat_message" where
  "assistant_message r =
     \<lparr>cm_role = RAssistant, cm_content = rr_text r, cm_parts = None,
      cm_tool_calls = (if rr_calls r = [] then None else Some (rr_calls r)), cm_tool_call_id = None,
      cm_is_error = False\<rparr>"

section \<open>Reading the records\<close>

definition json_str :: "json \<Rightarrow> string \<Rightarrow> string option" where
  "json_str v k = Option.bind (json_get v k) as_str"

definition json_u64 :: "json \<Rightarrow> string \<Rightarrow> nat option" where
  "json_u64 v k = Option.bind (json_get v k) as_u64"

definition text_of :: "json \<Rightarrow> string" where
  "text_of v = unwrap_or (json_str v ''text'') ''''"

definition tool_call_of :: "json \<Rightarrow> tool_call option" where
  "tool_call_of v =
     (case (json_str v ''id'', json_str v ''name'') of
        (Some i, Some n) \<Rightarrow>
          Some \<lparr>tc_id = i, tc_name = n, tc_arguments = unwrap_or (json_get v ''input'') JNull\<rparr>
      | _ \<Rightarrow> None)"

definition tool_calls_of :: "json \<Rightarrow> tool_call list" where
  "tool_calls_of v =
     (case Option.bind (json_get v ''tool_use'') as_array of
        None \<Rightarrow> []
      | Some calls \<Rightarrow> List.map_filter tool_call_of calls)"

text \<open>One file name directly under \<open>results/\<close>.\<close>

definition spill_name :: "string \<Rightarrow> string option" where
  "spill_name rel =
     (case Option.bind (strip_prefix RESULTS_DIR rel) (strip_prefix ''/'') of
        None \<Rightarrow> None
      | Some name \<Rightarrow>
          if name = [] \<or> prefix ''.'' name \<or> str_contains name ''/'' \<or> str_contains name [CHR 0x5C]
             \<or> str_contains name ''..''
          then None else Some name)"

definition spill_file :: "session_dir \<Rightarrow> string \<Rightarrow> string option" where
  "spill_file d rel = Option.bind (spill_name rel) (map_of (sd_results d))"

definition spilled_bytes ::
  "(string \<Rightarrow> string) \<Rightarrow> session_dir \<Rightarrow> string \<Rightarrow> nat \<Rightarrow> string option \<Rightarrow> string option" where
  "spilled_bytes sha d rel bytes sha256 =
     (case spill_file d rel of
        None \<Rightarrow> None
      | Some content \<Rightarrow>
          if length content = bytes \<and> utf8_ok content \<and> Some (sha content) = sha256 then Some content else None)"

definition command_stub_budget :: "json \<Rightarrow> nat option" where
  "command_stub_budget data =
     (case json_get data ''stub'' of
        None \<Rightarrow> None
      | Some stub \<Rightarrow>
          if json_str stub ''form'' \<noteq> Some ''head_tail'' then None else json_u64 stub ''budget'')"

definition missing_stub :: "nat \<Rightarrow> string \<Rightarrow> string" where
  "missing_stub bytes preview =
     ''[result too large: '' @ show_nat bytes @ '' bytes; first 2 KB follow]'' @ NL @ preview @ NL
     @ ''[the full result was removed by the session-log sweep and cannot be paged]''"

definition UNRECORDED :: string where
  "UNRECORDED = ''[tool result unavailable '' @ EM_DASH @ '' the session log did not record it]''"

text \<open>\<open>result_text\<close>: the text, whether a spill was referenced and whether its file is missing.\<close>

definition result_text ::
  "(string \<Rightarrow> string) \<Rightarrow> session_dir \<Rightarrow> json \<Rightarrow> string \<times> nat \<times> nat" where
  "result_text sha d data =
     (case json_get data ''result'' of
        Some (JString inlined) \<Rightarrow> (inlined, 0, 0)
      | Some (JObject ms) \<Rightarrow>
          (let spilled = JObject ms;
               preview = unwrap_or (json_str spilled ''preview'') '''';
               spill = unwrap_or (json_get spilled ''spill'') JNull;
               rel = unwrap_or (json_str spill ''rel'') '''';
               bytes = unwrap_or (json_u64 spill ''bytes'') 0
           in if rel = [] \<or> spill_file d rel = None then (missing_stub bytes preview, 1, 1)
              else (case command_stub_budget data of
                      None \<Rightarrow> (spill_stub bytes preview rel, 1, 0)
                    | Some budget \<Rightarrow>
                        (case spilled_bytes sha d rel bytes (json_str spill ''sha256'') of
                           Some content \<Rightarrow> (command_spill_stub content budget rel, 1, 0)
                         | None \<Rightarrow> (spill_stub bytes preview rel, 1, 0))))
      | _ \<Rightarrow> (UNRECORDED, 0, 0))"

section \<open>Subagents\<close>

definition is_subagent_lane :: "json \<Rightarrow> bool" where
  "is_subagent_lane data = (json_str data ''role'' = Some ''subagent'')"

text \<open>The last part of a text split at two colons.\<close>

fun last_part :: "string \<Rightarrow> string \<Rightarrow> string" where
  "last_part acc (a # b # cs) =
     (if a = CHR '':'' \<and> b = CHR '':'' then last_part [] cs else last_part (a # acc) (b # cs))"
| "last_part acc [a] = rev (a # acc)"
| "last_part acc [] = rev acc"

definition subagent_run_id :: "logged_record \<Rightarrow> string option" where
  "subagent_run_id r =
     (case json_str (lg_data r) ''run_id'' of
        Some i \<Rightarrow> Some i
      | None \<Rightarrow>
          (case (json_str (lg_data r) ''template'', lg_agent r) of
             (Some template, Some inst) \<Rightarrow> Some (template @ ''::'' @ last_part [] inst)
           | _ \<Rightarrow> None))"

definition subagent_answer :: "session_dir \<Rightarrow> json \<Rightarrow> string" where
  "subagent_answer d data =
     (case json_get data ''result'' of
        Some (JObject ms) \<Rightarrow>
          (let spilled = JObject ms;
               rel = unwrap_or (json_str (unwrap_or (json_get spilled ''spill'') JNull) ''rel'') '''';
               preview = unwrap_or (json_str spilled ''preview'') '''' @ NL
                 @ ''[the whole answer is no longer kept '' @ EM_DASH @ '' the session log'' @ APOS
                 @ ''s sweep took it; this is its first 2 KB]''
           in if rel = [] then preview
              else (case spill_file d rel of
                      None \<Rightarrow> preview
                    | Some whole \<Rightarrow> if utf8_ok whole then whole else preview))
      | Some (JString preview) \<Rightarrow>
          preview @ NL @ ''[the whole answer could not be kept beside the log; this is its first 2 KB]''
      | _ \<Rightarrow>
          (let preview = unwrap_or (json_str data ''output_preview'') ''''
           in if char_count preview < 200 then preview
              else preview @ NL
                @ ''[the whole answer is no longer kept; this is its first 200 characters]''))"

definition close_of :: "session_dir \<Rightarrow> json \<Rightarrow> replayed_close" where
  "close_of d data =
     \<lparr>rx_state = unwrap_or (json_str data ''state'') ''cancelled'', rx_detail = json_str data ''detail'',
      rx_answer = subagent_answer d data\<rparr>"

definition lead_span_id :: "string \<Rightarrow> string" where
  "lead_span_id task_id = ''lead::'' @ task_id"

section \<open>The walk over the records\<close>

record rebuild_state =
  rb_plan :: replay_plan
  rb_rounds :: "replay_round list"
  rb_slots :: "string \<rightharpoonup> nat \<times> nat"
  rb_compaction :: "(nat \<times> nat) option"
  rb_compaction_state :: "(working_state \<times> string) option"
  rb_first_seq :: "nat option"
  rb_trimmed :: "(nat \<times> nat) option"
  rb_orphans :: nat
  rb_lanes :: "string \<rightharpoonup> nat"

definition rebuild_start :: rebuild_state where
  "rebuild_start =
     \<lparr>rb_plan = plan_default, rb_rounds = [], rb_slots = Map.empty, rb_compaction = None,
      rb_compaction_state = None, rb_first_seq = None, rb_trimmed = None, rb_orphans = 0,
      rb_lanes = Map.empty\<rparr>"

definition note_trim :: "logged_record \<Rightarrow> rebuild_state \<Rightarrow> rebuild_state" where
  "note_trim r b =
     (if lg_kind r \<noteq> ''log_trimmed'' then b
      else case (json_u64 (lg_data r) ''from_seq'', json_u64 (lg_data r) ''to_seq'') of
             (Some f, Some t) \<Rightarrow>
               b\<lparr>rb_trimmed := Some (case rb_trimmed b of
                    None \<Rightarrow> (f, t) | Some (lo, hi) \<Rightarrow> (min lo f, max hi t))\<rparr>
           | _ \<Rightarrow> b)"

definition open_lane :: "logged_record \<Rightarrow> rebuild_state \<Rightarrow> rebuild_state" where
  "open_lane r b =
     (case (lg_span r, subagent_run_id r) of
        (Some lane, Some run_id) \<Rightarrow>
          b\<lparr>rb_lanes := (rb_lanes b)(lane \<mapsto> length (rp_subagents (rb_plan b))),
            rb_plan := (rb_plan b)\<lparr>rp_subagents := rp_subagents (rb_plan b)
              @ [\<lparr>ry_run_id = run_id, ry_close = None\<rparr>]\<rparr>\<rparr>
      | _ \<Rightarrow> b)"

definition close_lane :: "session_dir \<Rightarrow> logged_record \<Rightarrow> rebuild_state \<Rightarrow> rebuild_state" where
  "close_lane d r b =
     (let c = close_of d (lg_data r); p = rb_plan b
      in case Option.bind (lg_span r) (rb_lanes b) of
           Some i \<Rightarrow>
             b\<lparr>rb_plan := p\<lparr>rp_subagents := (rp_subagents p)[i := (rp_subagents p ! i)\<lparr>ry_close := Some c\<rparr>]\<rparr>\<rparr>
         | None \<Rightarrow>
             (case subagent_run_id r of
                None \<Rightarrow> b
              | Some run_id \<Rightarrow>
                  b\<lparr>rb_plan := p\<lparr>rp_subagents := rp_subagents p @ [\<lparr>ry_run_id = run_id, ry_close = Some c\<rparr>]\<rparr>\<rparr>))"

definition slots_for :: "nat \<Rightarrow> tool_call list \<Rightarrow> (string \<rightharpoonup> nat \<times> nat) \<Rightarrow> string \<rightharpoonup> nat \<times> nat" where
  "slots_for i calls m = fold (\<lambda>(j, tc) m. m(tc_id tc \<mapsto> (i, j))) (enumerate 0 calls) m"

definition round_record :: "logged_record \<Rightarrow> rebuild_state \<Rightarrow> rebuild_state" where
  "round_record r b =
     (let calls = tool_calls_of (lg_data r)
      in b\<lparr>rb_slots := slots_for (length (rb_rounds b)) calls (rb_slots b),
           rb_rounds := rb_rounds b @ [\<lparr>rr_seq = lg_seq r, rr_text = text_of (lg_data r), rr_calls = calls,
                                         rr_results = replicate (length calls) None\<rparr>]\<rparr>)"

definition result_message :: "string \<Rightarrow> json \<Rightarrow> string \<Rightarrow> chat_message" where
  "result_message i data content =
     (if json_get data ''ok'' = Some (JBool False) then tool_error i content else tool_result i content)"

definition result_record_read ::
  "(string \<Rightarrow> string) \<Rightarrow> session_dir \<Rightarrow> logged_record \<Rightarrow> rebuild_state \<Rightarrow> rebuild_state" where
  "result_record_read sha d r b =
     (case json_str (lg_data r) ''tool_use_id'' of
        None \<Rightarrow> b
      | Some i \<Rightarrow>
          (case rb_slots b i of
             None \<Rightarrow> b\<lparr>rb_orphans := rb_orphans b + 1\<rparr>
           | Some (k, j) \<Rightarrow>
               (case result_text sha d (lg_data r) of
                  (content, refs, missing) \<Rightarrow>
                    (let rd = rb_rounds b ! k; p = rb_plan b
                     in b\<lparr>rb_rounds := (rb_rounds b)[k := rd\<lparr>rr_results := (rr_results rd)
                              [j := Some (lg_seq r, result_message i (lg_data r) content)]\<rparr>],
                          rb_plan := p\<lparr>rp_spills_referenced := rp_spills_referenced p + refs,
                                       rp_missing_spills := rp_missing_spills p + missing\<rparr>\<rparr>))))"

definition compaction_record ::
  "(json \<Rightarrow> working_state option) \<Rightarrow> logged_record \<Rightarrow> rebuild_state \<Rightarrow> rebuild_state" where
  "compaction_record read_state r b =
     (case json_u64 (lg_data r) ''preserved_from_seq'' of
        None \<Rightarrow> b
      | Some n \<Rightarrow>
          b\<lparr>rb_compaction := Some (lg_seq r, n),
            rb_compaction_state := map_option (\<lambda>st. (st, lg_ts r))
              (Option.bind (json_get (lg_data r) ''working_state'') read_state)\<rparr>)"

definition in_subagent_lane :: "string \<Rightarrow> logged_record \<Rightarrow> bool" where
  "in_subagent_lane task r =
     (case lg_span r of None \<Rightarrow> False | Some lane \<Rightarrow> lane \<noteq> [] \<and> lane \<noteq> lead_span_id task)"

definition rebuild_step ::
  "(string \<Rightarrow> string) \<Rightarrow> (json \<Rightarrow> working_state option) \<Rightarrow> session_dir \<Rightarrow> string \<Rightarrow> logged_record
   \<Rightarrow> rebuild_state \<Rightarrow> rebuild_state" where
  "rebuild_step sha read_state d task r b0 =
     (let b = note_trim r (b0\<lparr>rb_first_seq := (case rb_first_seq b0 of None \<Rightarrow> Some (lg_seq r) | Some n \<Rightarrow> Some n)\<rparr>)
      in if lg_task r \<noteq> Some task then b
         else let b1 = b\<lparr>rb_plan := (rb_plan b)\<lparr>rp_last_ts := Some (lg_ts r)\<rparr>\<rparr>
              in if lg_kind r = ''subagent_open'' \<and> is_subagent_lane (lg_data r) then open_lane r b1
                 else if lg_kind r = ''subagent_close'' \<and> is_subagent_lane (lg_data r) then close_lane d r b1
                 else if in_subagent_lane task r then b1
                 else if lg_kind r = ''round'' then round_record r b1
                 else if lg_kind r = ''tool_result'' then result_record_read sha d r b1
                 else if lg_kind r = ''compaction'' then compaction_record read_state r b1
                 else if lg_kind r = ''resume'' then b1\<lparr>rb_slots := Map.empty\<rparr>
                 else b1)"

section \<open>The history\<close>

definition EN_DASH :: string where
  "EN_DASH = [CHR 0xE2, CHR 0x80, CHR 0x93]"

definition trim_evidence ::
  "nat option \<Rightarrow> (nat \<times> nat) option \<Rightarrow> nat \<Rightarrow> bool \<Rightarrow> nat option \<times> string option" where
  "trim_evidence first_seq trimmed lost torn =
     (let head_lost = (case first_seq of None \<Rightarrow> False | Some n \<Rightarrow> 1 < n) \<or> trimmed \<noteq> None;
          reasons = (case trimmed of
              Some (f, t) \<Rightarrow> [''the session log'' @ APOS @ ''s oldest segments were removed by its size cap (seq ''
                              @ show_nat f @ EN_DASH @ show_nat t @ '')'']
            | None \<Rightarrow> if head_lost
                then [''the session log'' @ APOS @ ''s oldest records are no longer on disk''] else [])
            @ (if 0 < lost
               then [show_nat lost @ '' of this run'' @ APOS @ ''s recorded tool results have no surviving round'']
               else [])
            @ (if torn
               then [''a record was written only partially (the daemon died mid-write), so what followed it ''
                     @ ''could not be read''] else [])
      in if reasons = [] then (None, None)
         else (if head_lost then first_seq else None, Some (join ''; '' reasons)))"

definition trim_note :: "nat option \<Rightarrow> string \<Rightarrow> string" where
  "trim_note from_seq reason =
     (case from_seq of
        Some n \<Rightarrow>
          ''<log_trimmed from_seq='' @ [CHR 0x22] @ show_nat n @ [CHR 0x22] @ ''>Part of this run'' @ APOS
          @ ''s transcript is unavailable: '' @ reason @ ''. History before log seq '' @ show_nat n
          @ '' is gone '' @ EM_DASH @ '' earlier steps of this run are not shown here, and work they recorded ''
          @ ''may already be done.</log_trimmed>''
      | None \<Rightarrow>
          ''<log_trimmed>Part of this run'' @ APOS @ ''s transcript is unavailable: '' @ reason
          @ ''. The steps it held are not shown here, and work they recorded may already be done.</log_trimmed>'')"

definition compaction_note :: "nat \<Rightarrow> string" where
  "compaction_note dropped =
     ''<context_compacted rounds='' @ [CHR 0x22] @ show_nat dropped @ [CHR 0x22]
     @ ''>This conversation was compacted while it ran. '' @ show_nat dropped @ '' earlier round''
     @ (if dropped = 1 then '''' else ''s'')
     @ '' of this run are not shown; their outcomes are reflected in the steps that follow.</context_compacted>''"

definition round_messages :: "replay_round \<Rightarrow> chat_message list" where
  "round_messages r = assistant_message r # map snd (List.map_filter id (rr_results r))"

definition round_seqs :: "replay_round \<Rightarrow> nat list" where
  "round_seqs r = rr_seq r # map fst (List.map_filter id (rr_results r))"

definition kept_rounds :: "nat \<Rightarrow> (nat \<times> nat) option \<Rightarrow> replay_round list \<Rightarrow> nat" where
  "kept_rounds tail_keep compaction rounds =
     (case compaction of
        None \<Rightarrow> length rounds
      | Some (_, preserved) \<Rightarrow>
          (let after = length (filter (\<lambda>r. preserved < rr_seq r) rounds)
           in after + min tail_keep (length rounds - after)))"

definition finish_plan ::
  "(string \<Rightarrow> string) \<Rightarrow> nat \<Rightarrow> bool \<Rightarrow> rebuild_state \<Rightarrow> replay_plan" where
  "finish_plan show_ts tail_keep torn b =
     (let whole = filter complete_round (rb_rounds b);
          dropped = length whole - kept_rounds tail_keep (rb_compaction b) whole;
          rounds = drop dropped whole;
          (trimmed_from, reason) = trim_evidence (rb_first_seq b) (rb_trimmed b) (rb_orphans b) torn;
          trim = (case reason of
                    Some why \<Rightarrow> if rounds = [] then [] else [msg_user (trim_note trimmed_from why)]
                  | None \<Rightarrow> []);
          stand_in = (if 0 < dropped
                      then [msg_user (case rb_compaction_state b of
                              Some (st, ts) \<Rightarrow> render_state (show_ts ts) USIZE_MAX st
                            | None \<Rightarrow> compaction_note dropped)]
                      else []);
          seqs = concat (map round_seqs rounds)
      in (rb_plan b)
           \<lparr>rp_messages := trim @ stand_in @ concat (map round_messages rounds),
            rp_rounds := length rounds,
            rp_tool_results := sum_list (map (\<lambda>r. length (List.map_filter id (rr_results r))) rounds),
            rp_from_seq := (if seqs = [] then None else Some (Min (set seqs))),
            rp_to_seq := (if seqs = [] then None else Some (Max (set seqs))),
            rp_compacted_from_seq := map_option snd (rb_compaction b),
            rp_compacted_rounds_dropped := dropped,
            rp_dropped_incomplete_rounds := length (rb_rounds b) - length whole,
            rp_trimmed_from_seq := trimmed_from, rp_trim_reason := reason\<rparr>)"

definition rebuild_records ::
  "(string \<Rightarrow> string) \<Rightarrow> (json \<Rightarrow> working_state option) \<Rightarrow> (string \<Rightarrow> string) \<Rightarrow> session_dir \<Rightarrow> string \<Rightarrow> nat
   \<Rightarrow> bool \<Rightarrow> logged_record list \<Rightarrow> replay_plan" where
  "rebuild_records sha read_state show_ts d task tail_keep torn rs =
     finish_plan show_ts tail_keep torn (fold (rebuild_step sha read_state d task) rs rebuild_start)"

definition rebuild ::
  "line_parser \<Rightarrow> (string \<Rightarrow> string) \<Rightarrow> (json \<Rightarrow> working_state option) \<Rightarrow> (string \<Rightarrow> string) \<Rightarrow> session_dir
   \<Rightarrow> string \<Rightarrow> nat \<Rightarrow> replay_plan option" where
  "rebuild parse sha read_state show_ts d task tail_keep =
     map_option (\<lambda>(rs, torn). rebuild_records sha read_state show_ts d task tail_keep torn rs)
       (read_pages parse d PAGE None)"


section \<open>What a rebuilt history is\<close>

text \<open>A slot answers its own call; every name the slots know leads to a call of that name.\<close>

definition answers_call :: "tool_call \<Rightarrow> (nat \<times> chat_message) option \<Rightarrow> bool" where
  "answers_call tc x =
     (case x of None \<Rightarrow> True | Some (n, m) \<Rightarrow> cm_role m = RTool \<and> cm_tool_call_id m = Some (tc_id tc))"

definition sound_round :: "replay_round \<Rightarrow> bool" where
  "sound_round r = list_all2 answers_call (rr_calls r) (rr_results r)"

definition sound_slots :: "replay_round list \<Rightarrow> (string \<rightharpoonup> nat \<times> nat) \<Rightarrow> bool" where
  "sound_slots rounds m \<longleftrightarrow>
     (\<forall>i k j. m i = Some (k, j) \<longrightarrow>
        k < length rounds \<and> j < length (rr_calls (rounds ! k)) \<and> tc_id (rr_calls (rounds ! k) ! j) = i)"

definition sound_walk :: "rebuild_state \<Rightarrow> bool" where
  "sound_walk b = (list_all sound_round (rb_rounds b) \<and> sound_slots (rb_rounds b) (rb_slots b))"

lemma slots_for_found:
  assumes "slots_for k calls m i = Some x"
  shows "m i = Some x \<or> (\<exists>j < length calls. x = (k, j) \<and> tc_id (calls ! j) = i)"
proof -
  have "m i = Some x \<or> (\<exists>j < length calls. x = (k, n + j) \<and> tc_id (calls ! j) = i)"
    if "fold (\<lambda>(j, tc) m. m(tc_id tc \<mapsto> (k, j))) (enumerate n calls) m i = Some x" for n
    using that
  proof (induction calls arbitrary: n m)
    case (Cons tc calls)
    have "(m(tc_id tc \<mapsto> (k, n))) i = Some x
        \<or> (\<exists>j < length calls. x = (k, Suc n + j) \<and> tc_id (calls ! j) = i)"
      using Cons.prems by (intro Cons.IH) simp
    then consider "(m(tc_id tc \<mapsto> (k, n))) i = Some x"
      | j where "j < length calls" "x = (k, Suc n + j)" "tc_id (calls ! j) = i"
      by blast
    then show ?case
    proof cases
      case 1
      then show ?thesis by (cases "i = tc_id tc") auto
    next
      case 2
      then show ?thesis by (intro disjI2 exI [of _ "Suc j"]) simp
    qed
  qed simp
  from this [of 0] show ?thesis using assms by (simp add: slots_for_def)
qed

lemma sound_slots_empty [simp]: "sound_slots rounds Map.empty"
  by (simp add: sound_slots_def)

lemma sound_round_record: "sound_walk b \<Longrightarrow> sound_walk (round_record r b)"
proof -
  assume b: "sound_walk b"
  let ?calls = "tool_calls_of (lg_data r)"
  let ?rd = "\<lparr>rr_seq = lg_seq r, rr_text = text_of (lg_data r), rr_calls = ?calls,
              rr_results = replicate (length ?calls) None\<rparr>"
  have "sound_round ?rd" by (simp add: sound_round_def list_all2_conv_all_nth answers_call_def)
  moreover have "sound_slots (rb_rounds b @ [?rd]) (slots_for (length (rb_rounds b)) ?calls (rb_slots b))"
    unfolding sound_slots_def
  proof (intro allI impI)
    fix i k j
    assume "slots_for (length (rb_rounds b)) ?calls (rb_slots b) i = Some (k, j)"
    then consider "rb_slots b i = Some (k, j)"
      | "k = length (rb_rounds b)" "j < length ?calls" "tc_id (?calls ! j) = i"
      using slots_for_found by blast
    then show "k < length (rb_rounds b @ [?rd]) \<and> j < length (rr_calls ((rb_rounds b @ [?rd]) ! k))
        \<and> tc_id (rr_calls ((rb_rounds b @ [?rd]) ! k) ! j) = i"
    proof cases
      case 1
      then have "k < length (rb_rounds b)" "j < length (rr_calls (rb_rounds b ! k))"
          "tc_id (rr_calls (rb_rounds b ! k) ! j) = i"
        using b by (simp_all add: sound_walk_def sound_slots_def)
      then show ?thesis by (simp add: nth_append)
    qed simp
  qed
  ultimately show ?thesis using b by (simp add: sound_walk_def round_record_def Let_def)
qed

lemma result_message_simps [simp]:
  "cm_role (result_message i v c) = RTool" "cm_tool_call_id (result_message i v c) = Some i"
  by (simp_all add: result_message_def)

lemma sound_slots_update:
  "sound_slots rounds m \<Longrightarrow> k < length rounds \<Longrightarrow> rr_calls rd = rr_calls (rounds ! k)
   \<Longrightarrow> sound_slots (rounds[k := rd]) m"
  by (fastforce simp: sound_slots_def nth_list_update)

lemma list_all_update: "list_all P xs \<Longrightarrow> P x \<Longrightarrow> list_all P (xs[k := x])"
  using set_update_subset_insert [of xs k x] by (auto simp: list_all_iff)

lemma sound_result_record:
  assumes "sound_walk b"
  shows "sound_walk (result_record_read sha d r b)"
proof (cases "Option.bind (json_str (lg_data r) ''tool_use_id'') (rb_slots b)")
  case (Some x)
  then obtain i k j where i: "json_str (lg_data r) ''tool_use_id'' = Some i" and s: "rb_slots b i = Some (k, j)"
    by (cases x) (auto simp: bind_eq_Some_conv)
  have k: "k < length (rb_rounds b)" "j < length (rr_calls (rb_rounds b ! k))"
      "tc_id (rr_calls (rb_rounds b ! k) ! j) = i"
    using assms s by (simp_all add: sound_walk_def sound_slots_def)
  obtain c refs missing where t: "result_text sha d (lg_data r) = (c, refs, missing)"
    by (cases "result_text sha d (lg_data r)")
  have rd: "sound_round (rb_rounds b ! k)" using assms k by (simp add: sound_walk_def list_all_length)
  let ?rd = "(rb_rounds b ! k)\<lparr>rr_results := (rr_results (rb_rounds b ! k))
               [j := Some (lg_seq r, result_message i (lg_data r) c)]\<rparr>"
  let ?x = "Some (lg_seq r, result_message i (lg_data r) c)"
  have "answers_call (rr_calls (rb_rounds b ! k) ! j) ?x" using k by (simp add: answers_call_def)
  then have "list_all2 answers_call (rr_calls (rb_rounds b ! k)) ((rr_results (rb_rounds b ! k))[j := ?x])"
    using rd list_all2_update_cong [of answers_call "rr_calls (rb_rounds b ! k)" "rr_results (rb_rounds b ! k)"
        "rr_calls (rb_rounds b ! k) ! j" ?x j]
    by (simp add: sound_round_def)
  then have "sound_round ?rd" by (simp add: sound_round_def)
  then have "list_all sound_round ((rb_rounds b)[k := ?rd])"
    using assms by (simp add: sound_walk_def list_all_update)
  then show ?thesis
    using assms k by (simp add: result_record_read_def i s t sound_walk_def Let_def sound_slots_update)
next
  case None
  then show ?thesis using assms
    by (auto simp: result_record_read_def sound_walk_def bind_eq_None_conv split: option.split)
qed

lemma sound_rebuild_step: "sound_walk b \<Longrightarrow> sound_walk (rebuild_step sha rd d task r b)"
proof -
  assume b: "sound_walk b"
  let ?b = "note_trim r (b\<lparr>rb_first_seq := (case rb_first_seq b of None \<Rightarrow> Some (lg_seq r) | Some n \<Rightarrow> Some n)\<rparr>)"
  have n: "rb_rounds ?b = rb_rounds b" "rb_slots ?b = rb_slots b"
    by (simp_all add: note_trim_def split: option.split)
  let ?b1 = "?b\<lparr>rb_plan := (rb_plan ?b)\<lparr>rp_last_ts := Some (lg_ts r)\<rparr>\<rparr>"
  have b1: "sound_walk ?b1" "sound_walk ?b" using b n by (simp_all add: sound_walk_def)
  have lanes: "rb_rounds (open_lane r x) = rb_rounds x" "rb_slots (open_lane r x) = rb_slots x"
      "rb_rounds (close_lane d r x) = rb_rounds x" "rb_slots (close_lane d r x) = rb_slots x" for x
    by (simp_all add: open_lane_def close_lane_def Let_def split: option.split)
  have comp: "rb_rounds (compaction_record rd r x) = rb_rounds x" "rb_slots (compaction_record rd r x) = rb_slots x" for x
    by (simp_all add: compaction_record_def split: option.split)
  show ?thesis
    unfolding rebuild_step_def Let_def
    using b1 sound_round_record [OF b1(1)] sound_result_record [OF b1(1)]
    by (simp add: sound_walk_def lanes comp n)
qed

lemma sound_fold: "sound_walk b \<Longrightarrow> sound_walk (fold (rebuild_step sha rd d task) rs b)"
  by (induction rs arbitrary: b) (simp_all add: sound_rebuild_step)

lemma answered_results:
  "list_all2 answers_call calls xs \<Longrightarrow> list_all (\<lambda>x. x \<noteq> None) xs \<Longrightarrow>
   list_all2 (\<lambda>i m. cm_role m = RTool \<and> cm_tool_call_id m = Some i) (map tc_id calls)
     (map snd (List.map_filter id xs))"
  by (induction rule: list_all2_induct) (auto simp: answers_call_def)

lemma whole_round_paired:
  assumes "sound_round r" "complete_round r"
  shows "well_paired (round_messages r)"
proof -
  have "open_calls (map tc_id (rr_calls r) @ []) (map snd (List.map_filter id (rr_results r))) = Some []"
    using assms by (intro open_calls_results answered_results) (simp_all add: sound_round_def complete_round_def)
  then show ?thesis
    by (cases "rr_calls r = []") (simp_all add: well_paired_def round_messages_def assistant_message_def)
qed

lemma whole_rounds_paired:
  "\<forall>r \<in> set rounds. sound_round r \<and> complete_round r \<Longrightarrow> well_paired (concat (map round_messages rounds))"
  using whole_round_paired by (induction rounds) (auto simp: well_paired_def open_calls_append)

text \<open>C28: Whatever the log holds - records in any order, of several runs, with rounds torn off by a crash, results without a round or for the wrong one, tool calls sharing a name, trims and compactions - the history rebuilt for a resumed run is one every provider accepts: each assistant message that asks for tools is followed at once by one result per call, in the order of the calls, and no result stands without its call.\<close>

theorem rebuilt_history_paired:
  "well_paired (rp_messages (rebuild_records sha read_state show_ts d task tail_keep torn rs))"
proof -
  define b where "b = fold (rebuild_step sha read_state d task) rs rebuild_start"
  have "sound_walk b"
    unfolding b_def by (rule sound_fold) (simp add: sound_walk_def rebuild_start_def)
  then have whole: "\<forall>r \<in> set (filter complete_round (rb_rounds b)). sound_round r \<and> complete_round r"
    by (simp add: sound_walk_def list_all_iff)
  obtain f y where t: "trim_evidence (rb_first_seq b) (rb_trimmed b) (rb_orphans b) torn = (f, y)" by fastforce
  let ?n = "length (filter complete_round (rb_rounds b))
             - kept_rounds tail_keep (rb_compaction b) (filter complete_round (rb_rounds b))"
  have "well_paired (concat (map round_messages (drop ?n (filter complete_round (rb_rounds b)))))"
    using whole by (intro whole_rounds_paired) (meson in_set_dropD)
  moreover have "open_calls [] (msg_user c # ms) = open_calls [] ms" for c ms
    by (simp add: msg_user_def)
  ultimately show ?thesis
    unfolding rebuild_records_def b_def [symmetric] finish_plan_def Let_def t
    by (auto simp: well_paired_def split: option.split)
qed

end
