(* ===== verification/Session_Writer.thy ===== *)
theory Session_Writer
  imports Session_Envelope
begin

text \<open>
  The writer of a session's log (\<open>session_log/writer.rs\<close>): numbering, the append, the spill of a large
  result, rotation and the trim under the size cap, the index row of a tool call, snapshots of files,
  reopening after a crash. Directory listings are in the order the files were made; removing, renaming and
  reading files succeed. Hashing, parsing, quoting and writing values as text are arguments.
\<close>

section \<open>State\<close>

record codec =
  cd_parse :: line_parser
  cd_quote :: "string \<Rightarrow> string"
  cd_ser :: serializer
  cd_sha :: "string \<Rightarrow> string"
  cd_disk_error :: string

record session_log_limits =
  lm_rotate_bytes :: nat
  lm_max_session_bytes :: nat

text \<open>A record before it has a number; \<open>rc_spill\<close> names a file and what goes in it.\<close>

record raw_record =
  rc_kind :: record_type
  rc_ts :: string
  rc_task :: "string option"
  rc_span :: "string option"
  rc_agent :: "string option"
  rc_data :: json
  rc_spill :: "(string \<times> string) option"

record pending_call =
  pc_seq :: nat
  pc_tool_name :: string
  pc_args_preview :: string

record pending_calls =
  pq_by_id :: "string \<rightharpoonup> pending_call"
  pq_order :: "string list"

record tool_entry =
  te_request_id :: string
  te_agent_id :: string
  te_tool_name :: string
  te_success :: bool
  te_duration_ms :: int
  te_error_message :: "string option"
  te_session_id :: string
  te_task_id :: "string option"
  te_log_seq :: "nat option"
  te_args_preview :: "string option"
  te_result_preview :: "string option"
  te_result_ref :: string

record open_log =
  ol_bytes :: nat
  ol_first :: "nat option"
  ol_next :: nat

text \<open>
  What the disk answers to the next append or spill: done, refused with the file cut back to the last
  record (\<open>realign\<close>), or written but not synced. When the list is exhausted it does what it is asked.
  \<open>wr_wrote\<close> is history: the records appended, in order.
\<close>

datatype disk_answer = DiskOk | DiskRefuses | DiskUnsynced

record writer =
  wr_session_id :: string
  wr_dir :: session_dir
  wr_log :: "open_log option"
  wr_pending :: pending_calls
  wr_written_seq :: nat
  wr_has_db :: bool
  wr_index :: "tool_entry list"
  wr_gave_up :: bool
  wr_disk :: "disk_answer list"
  wr_wrote :: "logged_record list"

definition writer_new :: "string \<Rightarrow> session_dir \<Rightarrow> bool \<Rightarrow> disk_answer list \<Rightarrow> writer" where
  "writer_new sid d has_db disk =
     \<lparr>wr_session_id = sid, wr_dir = d, wr_log = None, wr_pending = \<lparr>pq_by_id = Map.empty, pq_order = []\<rparr>,
      wr_written_seq = 0, wr_has_db = has_db, wr_index = [], wr_gave_up = False, wr_disk = disk, wr_wrote = []\<rparr>"

definition TAIL_SCAN_BYTES :: nat where
  "TAIL_SCAN_BYTES = 1024 * 1024"

definition PENDING_CALLS_CAP :: nat where
  "PENDING_CALLS_CAP = 256"

definition ask :: "writer \<Rightarrow> disk_answer \<times> writer" where
  "ask w = (case wr_disk w of [] \<Rightarrow> (DiskOk, w) | a # rest \<Rightarrow> (a, w\<lparr>wr_disk := rest\<rparr>))"

section \<open>Files\<close>

fun put_file :: "string \<Rightarrow> string \<Rightarrow> (string \<times> string) list \<Rightarrow> (string \<times> string) list" where
  "put_file name c [] = [(name, c)]"
| "put_file name c ((n, x) # fs) = (if n = name then (n, c) # fs else (n, x) # put_file name c fs)"

definition drop_file :: "string \<Rightarrow> (string \<times> string) list \<Rightarrow> (string \<times> string) list" where
  "drop_file name fs = filter (\<lambda>(n, c). n \<noteq> name) fs"

definition files_bytes :: "(string \<times> string) list \<Rightarrow> nat" where
  "files_bytes fs = sum_list (map (\<lambda>(n, c). length c) fs)"

definition SNAPSHOTS_DIR :: string where
  "SNAPSHOTS_DIR = ''snapshots''"

text \<open>\<open>sibling_ref\<close>: \<open>file:<dir>/<name>\<close>, as the name.\<close>

definition sibling_ref :: "json \<Rightarrow> string \<Rightarrow> string \<Rightarrow> string option" where
  "sibling_ref data key dir =
     (case Option.bind (Option.bind (Option.bind (json_get data key) as_str) (strip_prefix ''file:''))
             (strip_prefix (dir @ ''/'')) of
        None \<Rightarrow> None
      | Some rel \<Rightarrow>
          if rel = [] \<or> str_contains rel ''/'' \<or> str_contains rel ''..'' then None else Some rel)"

definition spill_ref_of :: "json \<Rightarrow> string option" where
  "spill_ref_of data = sibling_ref data ''result_ref'' RESULTS_DIR"

definition snapshot_ref_of :: "json \<Rightarrow> string option" where
  "snapshot_ref_of data = sibling_ref data ''snapshot_ref'' SNAPSHOTS_DIR"

definition as_list :: "'a option \<Rightarrow> 'a list" where
  "as_list x = (case x of None \<Rightarrow> [] | Some y \<Rightarrow> [y])"

fun referenced_in :: "line_parser \<Rightarrow> string list \<Rightarrow> string list \<times> string list" where
  "referenced_in parse [] = ([], [])"
| "referenced_in parse (line # ls) =
     (if \<not> utf8_ok line then ([], [])
      else case parse line of
             None \<Rightarrow> ([], [])
           | Some r \<Rightarrow>
               (case referenced_in parse ls of
                  (results, snapshots) \<Rightarrow>
                    (as_list (spill_ref_of (lg_data r)) @ results, as_list (snapshot_ref_of (lg_data r)) @ snapshots)))"

definition referenced_files_in :: "line_parser \<Rightarrow> string \<Rightarrow> string list \<times> string list" where
  "referenced_files_in parse content = referenced_in parse (file_lines [] content)"

fun drop_files :: "string list \<Rightarrow> (string \<times> string) list \<Rightarrow> nat \<times> (string \<times> string) list" where
  "drop_files [] fs = (0, fs)"
| "drop_files (n # ns) fs =
     (let len = (case map_of fs n of None \<Rightarrow> 0 | Some c \<Rightarrow> length c)
      in case drop_files ns (drop_file n fs) of (freed, fs') \<Rightarrow> (len + freed, fs'))"

definition drop_spilled_results :: "string list \<times> string list \<Rightarrow> session_dir \<Rightarrow> nat \<times> session_dir" where
  "drop_spilled_results refs d =
     (case drop_files (fst refs) (sd_results d) of
        (a, results) \<Rightarrow>
          (case drop_files (snd refs) (sd_snapshots d) of
             (b, snapshots) \<Rightarrow> (a + b, d\<lparr>sd_results := results, sd_snapshots := snapshots\<rparr>)))"

section \<open>The size cap\<close>

record trimmed =
  tm_from_seq :: nat
  tm_to_seq :: nat
  tm_segments :: nat
  tm_bytes_freed :: nat

definition merge_trims :: "trimmed option \<Rightarrow> trimmed \<Rightarrow> trimmed" where
  "merge_trims prev t =
     (case prev of
        None \<Rightarrow> t
      | Some p \<Rightarrow>
          \<lparr>tm_from_seq = min (tm_from_seq p) (tm_from_seq t), tm_to_seq = max (tm_to_seq p) (tm_to_seq t),
           tm_segments = tm_segments p + tm_segments t, tm_bytes_freed = tm_bytes_freed p + tm_bytes_freed t\<rparr>)"

definition archived_segments :: "session_dir \<Rightarrow> (nat \<times> nat \<times> string \<times> string) list" where
  "archived_segments d =
     List.map_filter
       (\<lambda>(name, content). if name = LIVE_SEGMENT then None
          else map_option (\<lambda>(first, final). (first, final, name, content)) (segment_range name)) (sd_files d)"

fun trim_segments ::
  "line_parser \<Rightarrow> nat \<Rightarrow> (nat \<times> nat \<times> string \<times> string) list \<Rightarrow> nat \<Rightarrow> trimmed option \<Rightarrow> session_dir
   \<Rightarrow> trimmed option \<times> session_dir" where
  "trim_segments parse max_bytes [] in_use t d = (t, d)"
| "trim_segments parse max_bytes ((first, final, name, content) # segs) in_use t d =
     (if in_use \<le> max_bytes then (t, d)
      else case drop_spilled_results (referenced_files_in parse content)
                  (d\<lparr>sd_files := drop_file name (sd_files d)\<rparr>) of
             (freed, d') \<Rightarrow>
               trim_segments parse max_bytes segs (in_use - length content - freed)
                 (Some (merge_trims t \<lparr>tm_from_seq = first, tm_to_seq = final, tm_segments = 1,
                                      tm_bytes_freed = length content + freed\<rparr>)) d')"

definition enforce_session_cap :: "line_parser \<Rightarrow> nat \<Rightarrow> session_dir \<Rightarrow> trimmed option \<times> session_dir" where
  "enforce_session_cap parse max_bytes d =
     (let in_use = files_bytes (sd_files d) + files_bytes (sd_results d) + files_bytes (sd_snapshots d);
          archived = archived_segments d
      in if in_use \<le> max_bytes \<or> archived = [] then (None, d)
         else trim_segments parse max_bytes (sort_key fst archived) in_use None d)"

section \<open>Appending\<close>

definition logged :: "nat \<Rightarrow> raw_record \<Rightarrow> logged_record" where
  "logged n r =
     \<lparr>lg_seq = n, lg_ts = rc_ts r, lg_kind = record_type_as_str (rc_kind r), lg_task = rc_task r,
      lg_span = rc_span r, lg_agent = rc_agent r, lg_data = rc_data r\<rparr>"

definition line_of :: "codec \<Rightarrow> logged_record \<Rightarrow> string" where
  "line_of cd r = to_line (cd_quote cd) (cd_ser cd) r"

definition live_text :: "session_dir \<Rightarrow> string" where
  "live_text d = unwrap_or (map_of (sd_files d) LIVE_SEGMENT) ''''"

definition append_line :: "codec \<Rightarrow> raw_record \<Rightarrow> open_log \<Rightarrow> writer \<Rightarrow> writer" where
  "append_line cd r ol w =
     (let lr = logged (ol_next ol) r;
          line = line_of cd lr;
          d = wr_dir w
      in w\<lparr>wr_dir := d\<lparr>sd_files := put_file LIVE_SEGMENT (live_text d @ line) (sd_files d)\<rparr>,
           wr_log := Some \<lparr>ol_bytes = ol_bytes ol + length line,
                           ol_first = (case ol_first ol of None \<Rightarrow> Some (ol_next ol) | Some n \<Rightarrow> Some n),
                           ol_next = ol_next ol + 1\<rparr>,
           wr_wrote := wr_wrote w @ [lr]\<rparr>)"

definition log_write :: "codec \<Rightarrow> raw_record \<Rightarrow> writer \<Rightarrow> nat option \<times> writer" where
  "log_write cd r w =
     (case wr_log w of
        None \<Rightarrow> (None, w)
      | Some ol \<Rightarrow>
          (case ask w of
             (a, w1) \<Rightarrow>
               if a = DiskRefuses then (None, w1)
               else if a = DiskUnsynced \<and> is_durability_boundary (rc_kind r) then (None, append_line cd r ol w1)
               else (Some (ol_next ol), append_line cd r ol w1)))"

definition segment_name :: "nat \<Rightarrow> nat \<Rightarrow> string" where
  "segment_name first final = ''log.'' @ show_nat first @ ''-'' @ show_nat final @ ''.jsonl''"

definition rotate_if_needed :: "codec \<Rightarrow> session_log_limits \<Rightarrow> writer \<Rightarrow> trimmed option \<times> writer" where
  "rotate_if_needed cd lm w =
     (case wr_log w of
        None \<Rightarrow> (None, w)
      | Some ol \<Rightarrow>
          if ol_bytes ol < lm_rotate_bytes lm then (None, w)
          else (let final = ol_next ol - 1;
                    first = unwrap_or (ol_first ol) final;
                    d = wr_dir w;
                    archived = put_file (segment_name first final) (live_text d) (drop_file LIVE_SEGMENT (sd_files d));
                    d1 = d\<lparr>sd_files := put_file LIVE_SEGMENT '''' archived\<rparr>
                in case enforce_session_cap (cd_parse cd) (lm_max_session_bytes lm) d1 of
                     (t, d2) \<Rightarrow> (t, w\<lparr>wr_dir := d2, wr_log := Some (ol\<lparr>ol_bytes := 0, ol_first := None\<rparr>)\<rparr>)))"

section \<open>Large results\<close>

fun set_member :: "string \<Rightarrow> json \<Rightarrow> json \<Rightarrow> json" where
  "set_member k v (JObject ms) = JObject (member_insert k v ms)"
| "set_member k v other = other"

definition SPILL_MIME :: string where
  "SPILL_MIME = ''text/plain; charset=utf-8''"

definition result_name :: "string \<Rightarrow> string" where
  "result_name rel = unwrap_or (strip_prefix (RESULTS_DIR @ ''/'') rel) rel"

definition write_spill_file :: "string \<Rightarrow> string \<Rightarrow> writer \<Rightarrow> bool \<times> writer" where
  "write_spill_file rel content w =
     (let d = wr_dir w
      in if map_of (sd_results d) (result_name rel) \<noteq> None then (True, w)
         else case ask w of
                (a, w1) \<Rightarrow>
                  if a = DiskOk
                  then (True, w1\<lparr>wr_dir := d\<lparr>sd_results := put_file (result_name rel) content (sd_results d)\<rparr>\<rparr>)
                  else (False, w1))"

definition spilled_data :: "codec \<Rightarrow> string \<Rightarrow> string \<Rightarrow> json \<Rightarrow> json" where
  "spilled_data cd rel content data =
     set_member ''result_ref'' (JString (''file:'' @ rel))
       (set_member ''result''
          (json_object [(''spill'', json_object [(''rel'', JString rel), (''bytes'', json_nat (length content)),
              (''sha256'', JString (cd_sha cd content)), (''mime'', JString SPILL_MIME)]),
            (''preview'', JString (spill_preview content))]) data)"

definition unspilled_data :: "codec \<Rightarrow> string \<Rightarrow> string \<Rightarrow> json \<Rightarrow> json" where
  "unspilled_data cd rel content data =
     set_member ''spill_ref'' (JString rel)
       (set_member ''spill_error'' (JString (cd_disk_error cd))
          (set_member ''result'' (JString (spill_preview content)) data))"

definition spill_result :: "codec \<Rightarrow> raw_record \<Rightarrow> writer \<Rightarrow> raw_record \<times> writer" where
  "spill_result cd r w =
     (case rc_spill r of
        None \<Rightarrow> (r, w)
      | Some (rel, content) \<Rightarrow>
          (case write_spill_file rel content w of
             (ok, w1) \<Rightarrow>
               (r\<lparr>rc_spill := None,
                  rc_data := (if ok then spilled_data cd rel content (rc_data r)
                              else unspilled_data cd rel content (rc_data r))\<rparr>, w1)))"

section \<open>The index of tool calls\<close>

definition string_field :: "json \<Rightarrow> string \<Rightarrow> string" where
  "string_field data key = unwrap_or (Option.bind (json_get data key) as_str) ''''"

definition result_preview :: "json \<Rightarrow> string option" where
  "result_preview data =
     (case json_get data ''result'' of
        Some (JString s) \<Rightarrow> Some s
      | Some (JObject ms) \<Rightarrow> Option.bind (map_of ms ''preview'') as_str
      | _ \<Rightarrow> None)"

fun as_bool :: "json \<Rightarrow> bool option" where
  "as_bool (JBool b) = Some b"
| "as_bool _ = None"

fun as_i64 :: "json \<Rightarrow> int option" where
  "as_i64 (JNumber s) =
     (if \<not> is_i64 (JNumber s) then None
      else if is_nat_text s then Some (int (read_nat s)) else Some (- int (read_nat (tl s))))"
| "as_i64 _ = None"

function forget_oldest :: "pending_calls \<Rightarrow> pending_calls" where
  "forget_oldest q =
     (if length (pq_order q) \<le> PENDING_CALLS_CAP then q
      else forget_oldest \<lparr>pq_by_id = (pq_by_id q)(hd (pq_order q) := None), pq_order = tl (pq_order q)\<rparr>)"
  by pat_completeness auto

termination
  by (relation "measure (\<lambda>q. length (pq_order q))") (auto simp: PENDING_CALLS_CAP_def)

definition pending_insert :: "string \<Rightarrow> pending_call \<Rightarrow> pending_calls \<Rightarrow> pending_calls" where
  "pending_insert i c q =
     forget_oldest
       (q\<lparr>pq_by_id := (pq_by_id q)(i \<mapsto> c),
          pq_order := (if pq_by_id q i = None then pq_order q @ [i] else pq_order q)\<rparr>)"

definition pending_take :: "string \<Rightarrow> pending_calls \<Rightarrow> pending_call option \<times> pending_calls" where
  "pending_take i q =
     (case pq_by_id q i of
        None \<Rightarrow> (None, q)
      | Some c \<Rightarrow>
          (Some c, q\<lparr>pq_by_id := (pq_by_id q)(i := None), pq_order := filter (\<lambda>k. k \<noteq> i) (pq_order q)\<rparr>))"

definition tool_entry_of :: "string \<Rightarrow> raw_record \<Rightarrow> string \<Rightarrow> nat \<Rightarrow> pending_call option \<Rightarrow> tool_entry" where
  "tool_entry_of sid r i n call =
     \<lparr>te_request_id = i, te_agent_id = unwrap_or (rc_agent r) ''unknown'',
      te_tool_name = (case call of
          Some c \<Rightarrow> if pc_tool_name c = [] then string_field (rc_data r) ''name'' else pc_tool_name c
        | None \<Rightarrow> string_field (rc_data r) ''name''),
      te_success = unwrap_or (Option.bind (json_get (rc_data r) ''ok'') as_bool) False,
      te_duration_ms = unwrap_or (Option.bind (json_get (rc_data r) ''duration_ms'') as_i64) 0,
      te_error_message = Option.bind (json_get (rc_data r) ''error'') as_str,
      te_session_id = sid, te_task_id = rc_task r, te_log_seq = map_option pc_seq call,
      te_args_preview = map_option pc_args_preview call, te_result_preview = result_preview (rc_data r),
      te_result_ref = unwrap_or (Option.bind (json_get (rc_data r) ''result_ref'') as_str) (''log:'' @ show_nat n)\<rparr>"

definition index_tool_call :: "codec \<Rightarrow> raw_record \<Rightarrow> nat \<Rightarrow> writer \<Rightarrow> writer" where
  "index_tool_call cd r n w =
     (case Option.bind (json_get (rc_data r) ''tool_use_id'') as_str of
        None \<Rightarrow> w
      | Some i \<Rightarrow>
          if i = [] then w
          else if rc_kind r = ToolCall
          then w\<lparr>wr_pending := pending_insert i
                 \<lparr>pc_seq = n, pc_tool_name = string_field (rc_data r) ''name'',
                  pc_args_preview = (case json_get (rc_data r) ''input'' of
                      None \<Rightarrow> '''' | Some (JString s) \<Rightarrow> s | Some v \<Rightarrow> cd_ser cd v)\<rparr> (wr_pending w)\<rparr>
          else if rc_kind r = ToolResult \<and> wr_has_db w
          then (case pending_take i (wr_pending w) of
                  (call, q) \<Rightarrow>
                    w\<lparr>wr_pending := q,
                      wr_index := wr_index w @ [tool_entry_of (wr_session_id w) r i n call]\<rparr>)
          else w)"

section \<open>A record\<close>

definition stamp_boundary :: "writer \<Rightarrow> raw_record \<Rightarrow> raw_record" where
  "stamp_boundary w r =
     (if rc_kind r \<noteq> Compaction then r
      else let preserved = (case wr_log w of None \<Rightarrow> 0 | Some ol \<Rightarrow> ol_next ol - 1)
           in r\<lparr>rc_data := set_member ''preserved_from_seq''
                  (if preserved = 0 then JNull else json_nat preserved) (rc_data r)\<rparr>)"

definition trim_notice :: "string \<Rightarrow> trimmed \<Rightarrow> raw_record" where
  "trim_notice ts t =
     \<lparr>rc_kind = LogTrimmed, rc_ts = ts, rc_task = None, rc_span = None, rc_agent = None,
      rc_data = json_object [(''from_seq'', json_nat (tm_from_seq t)), (''to_seq'', json_nat (tm_to_seq t)),
        (''segments'', json_nat (tm_segments t)), (''bytes_freed'', json_nat (tm_bytes_freed t))],
      rc_spill = None\<rparr>"

definition enforce_cap_now :: "codec \<Rightarrow> session_log_limits \<Rightarrow> writer \<Rightarrow> trimmed option \<times> writer" where
  "enforce_cap_now cd lm w =
     (case enforce_session_cap (cd_parse cd) (lm_max_session_bytes lm) (wr_dir w) of
        (t, d) \<Rightarrow> (t, w\<lparr>wr_dir := d\<rparr>))"

definition prepared :: "codec \<Rightarrow> raw_record \<Rightarrow> writer \<Rightarrow> raw_record \<times> writer" where
  "prepared cd r w =
     (case spill_result cd r w of
        (r1, w1) \<Rightarrow> (stamp_boundary w1 (r1\<lparr>rc_data := fst (cap_data (cd_ser cd) (rc_data r1))\<rparr>), w1))"

definition after_write ::
  "codec \<Rightarrow> session_log_limits \<Rightarrow> bool \<Rightarrow> writer \<Rightarrow> trimmed option \<times> writer" where
  "after_write cd lm grew w =
     (case (if grew then enforce_cap_now cd lm w else (None, w)) of
        (t, w1) \<Rightarrow>
          (case rotate_if_needed cd lm w1 of
             (t', w2) \<Rightarrow> ((case t' of None \<Rightarrow> t | Some x \<Rightarrow> Some (merge_trims t x)), w2)))"

definition write_record :: "codec \<Rightarrow> session_log_limits \<Rightarrow> string \<Rightarrow> raw_record \<Rightarrow> writer \<Rightarrow> nat option \<times> writer" where
  "write_record cd lm now r w =
     (let grew = (rc_spill r \<noteq> None \<or> rc_kind r = FileSnapshot)
      in case prepared cd r w of
           (r1, w1) \<Rightarrow>
             (case log_write cd r1 w1 of
                (None, w2) \<Rightarrow> (None, w2)
              | (Some n, w2) \<Rightarrow>
                  (let w3 = index_tool_call cd r1 n (w2\<lparr>wr_written_seq := max (wr_written_seq w2) n\<rparr>)
                   in case after_write cd lm grew w3 of
                        (None, w4) \<Rightarrow> (Some n, w4)
                      | (Some t, w4) \<Rightarrow> (Some n, snd (log_write cd (trim_notice now t) w4)))))"

section \<open>Snapshots\<close>

definition path_slug :: "string \<Rightarrow> string" where
  "path_slug path =
     (let cleaned = map (\<lambda>ch. case ch of [c] \<Rightarrow> if is_alnum c then c else CHR ''_'' | _ \<Rightarrow> CHR ''_'') (chars_of path)
      in if cleaned = [] then ''file'' else drop (length cleaned - 48) cleaned)"

definition snapshot_file :: "nat \<Rightarrow> string \<Rightarrow> string" where
  "snapshot_file n path = show_padded 6 n @ ''-'' @ path_slug path"

record snapshot_spec =
  ss_path :: string
  ss_source :: "string option"  \<comment> \<open>the bytes of a regular file that can be read\<close>
  ss_task :: "string option"
  ss_span :: "string option"
  ss_agent :: "string option"

definition write_snapshot_file :: "string \<Rightarrow> string option \<Rightarrow> writer \<Rightarrow> string option \<times> writer" where
  "write_snapshot_file name source w =
     (let d = wr_dir w
      in if map_of (sd_snapshots d) name \<noteq> None then (None, w)
         else case source of
                None \<Rightarrow> (None, w)
              | Some bytes \<Rightarrow>
                  (case ask w of
                     (a, w1) \<Rightarrow>
                       if a = DiskOk
                       then (Some bytes, w1\<lparr>wr_dir := d\<lparr>sd_snapshots := put_file name bytes (sd_snapshots d)\<rparr>\<rparr>)
                       else (None, w1)))"

definition snapshot_record :: "codec \<Rightarrow> string \<Rightarrow> snapshot_spec \<Rightarrow> nat \<Rightarrow> string \<Rightarrow> raw_record" where
  "snapshot_record cd now spec n bytes =
     \<lparr>rc_kind = FileSnapshot, rc_ts = now, rc_task = ss_task spec, rc_span = ss_span spec, rc_agent = ss_agent spec,
      rc_data = json_object [(''path'', JString (ss_path spec)),
        (''snapshot_ref'', JString (''file:'' @ SNAPSHOTS_DIR @ ''/'' @ snapshot_file n (ss_path spec))),
        (''size'', json_nat (length bytes)), (''sha256'', JString (cd_sha cd bytes)), (''seq'', json_nat n)],
      rc_spill = None\<rparr>"

text \<open>The name, the number, the size and the hash of the image, or nothing.\<close>

definition take_snapshot ::
  "codec \<Rightarrow> session_log_limits \<Rightarrow> string \<Rightarrow> snapshot_spec \<Rightarrow> writer
   \<Rightarrow> (string \<times> nat \<times> nat \<times> string) option \<times> writer" where
  "take_snapshot cd lm now spec w =
     (case wr_log w of
        None \<Rightarrow> (None, w)
      | Some ol \<Rightarrow>
          (let name = snapshot_file (ol_next ol) (ss_path spec)
           in case write_snapshot_file name (ss_source spec) w of
                (None, w1) \<Rightarrow> (None, w1)
              | (Some bytes, w1) \<Rightarrow>
                  (case write_record cd lm now (snapshot_record cd now spec (ol_next ol) bytes) w1 of
                     (Some n, w2) \<Rightarrow> (Some (SNAPSHOTS_DIR @ ''/'' @ name, n, length bytes, cd_sha cd bytes), w2)
                   | (None, w2) \<Rightarrow>
                       (None, w2\<lparr>wr_dir := (wr_dir w2)\<lparr>sd_snapshots := drop_file name (sd_snapshots (wr_dir w2))\<rparr>\<rparr>))))"

section \<open>Opening\<close>

text \<open>The lines of a text that end in a line feed.\<close>

fun whole_lines :: "string \<Rightarrow> string \<Rightarrow> string list" where
  "whole_lines acc [] = []"
| "whole_lines acc (c # cs) =
     (if c = CHR 0x0A then rev acc # whole_lines [] cs else whole_lines (c # acc) cs)"

datatype tail_repair = Kept string "nat option" | MovedAside

definition repair_tail :: "line_parser \<Rightarrow> string \<Rightarrow> tail_repair" where
  "repair_tail parse content =
     (let start = length content - min (length content) TAIL_SCAN_BYTES;
          ls = whole_lines [] (drop start content);
          good = filter (\<lambda>k. (0 < k \<or> start = 0) \<and> parse (ls ! k) \<noteq> None) [0..<length ls]
      in if content = [] then Kept [] None
         else if good \<noteq> []
         then (let k = List.last good
               in Kept (take (start + sum_list (map (\<lambda>l. length l + 1) (take (k + 1) ls))) content)
                    (map_option lg_seq (parse (ls ! k))))
         else if start = 0 then Kept [] None else MovedAside)"

definition head_seq :: "line_parser \<Rightarrow> string \<Rightarrow> nat option" where
  "head_seq parse content =
     (case file_lines [] content of [] \<Rightarrow> None | l # ls \<Rightarrow> map_option lg_seq (parse l))"

definition archived_last_seq :: "session_dir \<Rightarrow> nat" where
  "archived_last_seq d = fold (\<lambda>(first, final, s). max final) (archived_segments d) 0"

definition open_segment :: "line_parser \<Rightarrow> string \<Rightarrow> session_dir \<Rightarrow> open_log option \<times> session_dir" where
  "open_segment parse aside d =
     (case map_of (sd_files d) LIVE_SEGMENT of
        None \<Rightarrow>
          (Some \<lparr>ol_bytes = 0, ol_first = None, ol_next = archived_last_seq d + 1\<rparr>,
           d\<lparr>sd_files := put_file LIVE_SEGMENT '''' (sd_files d)\<rparr>)
      | Some content \<Rightarrow>
          (case repair_tail parse content of
             MovedAside \<Rightarrow>
               (None, d\<lparr>sd_files := put_file aside content (drop_file LIVE_SEGMENT (sd_files d))\<rparr>)
           | Kept kept final \<Rightarrow>
               (let d1 = d\<lparr>sd_files := put_file LIVE_SEGMENT kept (sd_files d)\<rparr>
                in if (case file_lines [] kept of [] \<Rightarrow> False | l # ls \<Rightarrow> \<not> utf8_ok l) then (None, d1)
                   else (Some \<lparr>ol_bytes = length kept, ol_first = head_seq parse kept,
                               ol_next = (case final of None \<Rightarrow> archived_last_seq d | Some n \<Rightarrow> n) + 1\<rparr>, d1))))"

definition ensure_log :: "codec \<Rightarrow> string \<Rightarrow> writer \<Rightarrow> bool \<times> writer" where
  "ensure_log cd aside w =
     (if wr_gave_up w then (False, w)
      else if wr_log w \<noteq> None then (True, w)
      else case open_segment (cd_parse cd) aside (wr_dir w) of
             (None, d) \<Rightarrow> (False, w\<lparr>wr_dir := d, wr_gave_up := True\<rparr>)
           | (Some ol, d) \<Rightarrow>
               (True, w\<lparr>wr_dir := d, wr_log := Some ol, wr_written_seq := max (wr_written_seq w) (ol_next ol - 1)\<rparr>))"

section \<open>Batches\<close>

datatype writer_msg = MRecord raw_record | MSync | MSnapshot snapshot_spec | MClose

text \<open>The answers to the snapshots of a batch, and whether it closed the writer.\<close>

fun process ::
  "codec \<Rightarrow> session_log_limits \<Rightarrow> string \<Rightarrow> string \<Rightarrow> writer_msg list \<Rightarrow> writer
   \<Rightarrow> (string \<times> nat \<times> nat \<times> string) option list \<times> bool \<times> writer" where
  "process cd lm now aside [] w = ([], False, w)"
| "process cd lm now aside (MRecord r # ms) w =
     (case ensure_log cd aside w of
        (ready, w1) \<Rightarrow>
          process cd lm now aside ms (if ready then snd (write_record cd lm now r w1) else w1))"
| "process cd lm now aside (MSync # ms) w = process cd lm now aside ms w"
| "process cd lm now aside (MSnapshot spec # ms) w =
     (case ensure_log cd aside w of
        (ready, w1) \<Rightarrow>
          (case (if ready then take_snapshot cd lm now spec w1 else (None, w1)) of
             (ans, w2) \<Rightarrow>
               (case process cd lm now aside ms w2 of (rest, closing, w3) \<Rightarrow> (ans # rest, closing, w3))))"
| "process cd lm now aside (MClose # ms) w = ([], True, w)"

end
