(* ===== verification/Session_Durability.thy ===== *)
theory Session_Durability
  imports Session_Writer
begin

text \<open>
  What the writer leaves on disk: its numbers run without a gap, each segment's name tells its range, and
  whatever was rotated and trimmed, the reader gets back the end of what was written, whole and in order.
\<close>

section \<open>Names and lines\<close>

lemma parse_u64_show: "n < 2 ^ 64 \<Longrightarrow> parse_u64 (show_nat n) = Some n"
proof -
  assume n: "n < 2 ^ 64"
  obtain c cs where s: "show_nat n = c # cs" "is_digit c"
    using read_show_nat [of n] by (cases "show_nat n") (auto simp: is_nat_text_def)
  moreover have "\<not> is_digit (CHR ''+'')" by (simp add: is_digit_def byte_of_def)
  ultimately have "c \<noteq> CHR ''+''" by auto
  then show ?thesis using n s read_show_nat [of n] by (auto simp: parse_u64_def is_nat_text_def Let_def)
qed

lemma strip_prefix_append [simp]: "strip_prefix p (p @ s) = Some s"
  by (simp add: strip_prefix_def)

lemma strip_suffix_append [simp]: "strip_suffix p (s @ p) = Some s"
  by (simp add: strip_suffix_def suffix_def)

lemma dash_not_digit: "CHR ''-'' \<notin> set (show_nat n)"
  using digits_only [of "CHR ''-''" n] by (auto simp: byte_of_def)

lemma segment_name_middle:
  "Option.bind (strip_prefix ''log.'' (segment_name a b)) (strip_suffix ''.jsonl'') = Some (show_nat a @ CHR ''-'' # show_nat b)"
proof -
  have "segment_name a b = ''log.'' @ ((show_nat a @ CHR ''-'' # show_nat b) @ ''.jsonl'')"
    by (simp add: segment_name_def)
  then show ?thesis by (simp only: strip_prefix_append Option.bind.bind_lunit strip_suffix_append)
qed

lemma segment_name_split: "split_once (CHR ''-'') (show_nat a @ CHR ''-'' # show_nat b) = Some (show_nat a, show_nat b)"
  using dash_not_digit by (simp add: split_once_Some)

lemma segment_name_range:
  assumes "a < 2 ^ 64" "b < 2 ^ 64"
  shows "segment_range (segment_name a b) = Some (a, b)" "segment_first_seq (segment_name a b) = Some a"
  using assms by (simp_all add: segment_range_def segment_first_seq_def segment_name_middle segment_name_split parse_u64_show)

lemma live_no_range: "segment_range LIVE_SEGMENT = None" "segment_first_seq LIVE_SEGMENT = None"
proof -
  have "Option.bind (strip_prefix ''log.'' LIVE_SEGMENT) (strip_suffix ''.jsonl'') = None"
    unfolding LIVE_SEGMENT_def by code_simp
  then show "segment_range LIVE_SEGMENT = None" "segment_first_seq LIVE_SEGMENT = None"
    by (simp_all add: segment_range_def segment_first_seq_def)
qed

definition body_of :: "codec \<Rightarrow> logged_record \<Rightarrow> string" where
  "body_of cd r = butlast (line_of cd r)"

lemma line_of_body: "line_of cd r = body_of cd r @ NL"
  by (simp add: body_of_def line_of_def to_line_def NL_def butlast_append)

text \<open>The codec reads a record back from its line.\<close>

definition reads_back :: "codec \<Rightarrow> logged_record \<Rightarrow> bool" where
  "reads_back cd r =
     (CHR 0x0A \<notin> set (body_of cd r) \<and> utf8_ok (body_of cd r) \<and> trim (body_of cd r) \<noteq> []
      \<and> cd_parse cd (body_of cd r) = Some r)"

lemma body_not_return: "body_of cd r \<noteq> [] \<and> List.last (body_of cd r) \<noteq> CHR 0x0D"
  by (simp add: body_of_def line_of_def to_line_def NL_def butlast_append)

lemma scan_body:
  assumes "lg_seq r < 2 ^ 64"
  shows "scan_seq (body_of cd r) = Some (lg_seq r)"
proof -
  have comma: "\<not> is_digit (CHR '','')" by (simp add: is_digit_def byte_of_def)
  show ?thesis
    unfolding scan_seq_def body_of_def line_of_def to_line_def
    using scan_u64_show [OF assms comma]
    by (simp add: skip_ws_show NL_def butlast_append)
       (simp add: skip_ws_def ascii_ws_def skip_ws_show [unfolded skip_ws_def])
qed

definition text_of_records :: "codec \<Rightarrow> logged_record list \<Rightarrow> string" where
  "text_of_records cd rs = concat (map (line_of cd) rs)"

lemma text_of_records_simps [simp]:
  "text_of_records cd [] = []"
  "text_of_records cd (r # rs) = line_of cd r @ text_of_records cd rs"
  "text_of_records cd (rs @ rs') = text_of_records cd rs @ text_of_records cd rs'"
  by (simp_all add: text_of_records_def)

lemma file_lines_body:
  "CHR 0x0A \<notin> set b \<Longrightarrow>
   file_lines acc (b @ NL @ s) =
     (case rev b @ acc of a # as \<Rightarrow> if a = CHR 0x0D then rev as else rev (a # as) | [] \<Rightarrow> []) # file_lines [] s"
  by (induction b arbitrary: acc) (auto simp: NL_def split: list.split)

lemma file_lines_text:
  "list_all (reads_back cd) rs \<Longrightarrow> file_lines [] (text_of_records cd rs) = map (body_of cd) rs"
proof (induction rs)
  case (Cons r rs)
  have b: "CHR 0x0A \<notin> set (body_of cd r)" using Cons.prems by (simp add: reads_back_def)
  obtain a as where "rev (body_of cd r) = a # as" "a \<noteq> CHR 0x0D"
    using body_not_return [of cd r] hd_rev [of "body_of cd r"] by (cases "rev (body_of cd r)") simp_all
  then have "(case rev (body_of cd r) of a # as \<Rightarrow> if a = CHR 0x0D then rev as else rev (a # as) | [] \<Rightarrow> []) = body_of cd r"
    using rev_rev_ident [of "body_of cd r"] by simp
  then show ?case using Cons b by (simp add: line_of_body file_lines_body)
qed simp

lemma records_of_text:
  "list_all (reads_back cd) rs \<Longrightarrow> segment_records (cd_parse cd) (name, text_of_records cd rs) = rs"
  unfolding segment_records_pair
  by (simp add: file_lines_text) (induction rs; simp add: reads_back_def)

lemma clean_text:
  assumes "list_all (reads_back cd) rs" "\<forall>r \<in> set rs. lg_seq r < 2 ^ 64"
  shows "list_all (clean_line (cd_parse cd)) (file_lines [] (text_of_records cd rs))"
  using assms scan_body by (auto simp: file_lines_text list_all_iff clean_line_def reads_back_def)

section \<open>The state of the directory\<close>

text \<open>
  The archived segments, each the lines of a run of records and named after the first and the last, then
  the live one: together the end of what was written.
\<close>

definition seg_file :: "codec \<Rightarrow> logged_record list \<Rightarrow> string \<times> string" where
  "seg_file cd rs = (segment_name (lg_seq (hd rs)) (lg_seq (List.last rs)), text_of_records cd rs)"

definition holds ::
  "codec \<Rightarrow> (string \<times> string) list \<Rightarrow> logged_record list list \<Rightarrow> logged_record list \<Rightarrow> bool" where
  "holds cd files segs live \<longleftrightarrow>
     files = map (seg_file cd) segs @ [(LIVE_SEGMENT, text_of_records cd live)] \<and> [] \<notin> set segs"

definition rising :: "logged_record list \<Rightarrow> bool" where
  "rising rs \<longleftrightarrow> sorted_wrt (<) (map lg_seq rs) \<and> (\<forall>r \<in> set rs. lg_seq r < 2 ^ 64)"

lemma rising_append:
  "rising (rs @ rs') \<longleftrightarrow> rising rs \<and> rising rs' \<and> (\<forall>r \<in> set rs. \<forall>r' \<in> set rs'. lg_seq r < lg_seq r')"
  by (auto simp: rising_def sorted_wrt_append)

lemma rising_bounds:
  assumes "rising rs" "r \<in> set rs"
  shows "lg_seq (hd rs) \<le> lg_seq r \<and> lg_seq r \<le> lg_seq (List.last rs)"
proof -
  obtain xs ys where rs: "rs = xs @ r # ys" using assms(2) by (meson split_list)
  have "lg_seq (hd rs) \<le> lg_seq r" using assms(1) rs by (cases xs) (auto simp: rising_def sorted_wrt_append)
  moreover have "lg_seq r \<le> lg_seq (List.last rs)"
    using assms(1) rs by (cases ys rule: rev_cases) (auto simp: rising_def sorted_wrt_append)
  ultimately show ?thesis ..
qed

lemma seg_range:
  assumes "rising rs" "rs \<noteq> []"
  shows "segment_range (fst (seg_file cd rs)) = Some (lg_seq (hd rs), lg_seq (List.last rs))"
    "segment_first_seq (fst (seg_file cd rs)) = Some (lg_seq (hd rs))"
  using assms segment_name_range by (simp_all add: seg_file_def rising_def)

lemma rising_segs:
  assumes "rising (concat segs)" "[] \<notin> set segs"
  shows "\<forall>rs \<in> set segs. rising rs \<and> rs \<noteq> []" "sorted_wrt (<) (map (lg_seq \<circ> hd) segs)"
proof -
  show a: "\<forall>rs \<in> set segs. rising rs \<and> rs \<noteq> []"
    using assms by (induction segs) (auto simp: rising_append)
  show "sorted_wrt (<) (map (lg_seq \<circ> hd) segs)" using assms
  proof (induction segs)
    case (Cons rs segs)
    then have "lg_seq (hd rs) < lg_seq (hd rs')" if "rs' \<in> set segs" for rs'
    proof -
      have "rs \<noteq> []" "rs' \<noteq> []" using that Cons.prems(2) by auto
      then have "hd rs \<in> set rs" "hd rs' \<in> set rs'" by simp_all
      then have "hd rs \<in> set rs" "hd rs' \<in> set (concat segs)" using that by auto
      then show ?thesis using Cons.prems(1) unfolding concat.simps rising_append by blast
    qed
    then show ?case using Cons by (auto simp: rising_append)
  qed simp
qed

lemma seg_not_live:
  "rising rs \<Longrightarrow> rs \<noteq> [] \<Longrightarrow> fst (seg_file cd rs) \<noteq> LIVE_SEGMENT"
  using seg_range(1) [of rs cd] live_no_range(1) by auto

lemma seg_names_distinct:
  assumes "rising (concat segs)" "[] \<notin> set segs"
  shows "distinct (map (fst \<circ> seg_file cd) segs @ [LIVE_SEGMENT])"
proof -
  note s = rising_segs [OF assms]
  have inj: "inj_on (lg_seq \<circ> hd) (set segs)" and d: "distinct segs"
    using s(2) by (simp_all add: strict_sorted_iff distinct_map)
  have "inj_on (fst \<circ> seg_file cd) (set segs)"
  proof (rule inj_onI)
    fix rs rs' assume a: "rs \<in> set segs" "rs' \<in> set segs" "(fst \<circ> seg_file cd) rs = (fst \<circ> seg_file cd) rs'"
    then have "Some (lg_seq (hd rs)) = Some (lg_seq (hd rs'))"
      using s(1) seg_range(2) [of rs cd] seg_range(2) [of rs' cd] by simp
    then show "rs = rs'" using inj a by (simp add: inj_on_def)
  qed
  then have "distinct (map (fst \<circ> seg_file cd) segs)" using d by (simp add: distinct_map)
  moreover have "LIVE_SEGMENT \<notin> (fst \<circ> seg_file cd) ` set segs"
  proof
    assume "LIVE_SEGMENT \<in> (fst \<circ> seg_file cd) ` set segs"
    then obtain rs where "rs \<in> set segs" "LIVE_SEGMENT = fst (seg_file cd rs)" by auto
    then show False using s(1) seg_not_live [of rs cd] by simp
  qed
  ultimately show ?thesis by simp
qed

text \<open>What the reader and the size cap see of it.\<close>

lemma archived_of:
  assumes "holds cd (sd_files d) segs live" "rising (concat segs)"
  shows "archived_segments d
     = map (\<lambda>rs. (lg_seq (hd rs), lg_seq (List.last rs), fst (seg_file cd rs), text_of_records cd rs)) segs"
proof -
  have s: "\<forall>rs \<in> set segs. rising rs \<and> rs \<noteq> []" using rising_segs(1) [OF assms(2)] assms(1) by (simp add: holds_def)
  have "List.map_filter (\<lambda>(name, content). if name = LIVE_SEGMENT then None
      else map_option (\<lambda>(first, final). (first, final, name, content)) (segment_range name)) (map (seg_file cd) segs)
    = map (\<lambda>rs. (lg_seq (hd rs), lg_seq (List.last rs), fst (seg_file cd rs), text_of_records cd rs)) segs"
    using s
  proof (induction segs)
    case (Cons rs segs)
    then have "fst (seg_file cd rs) \<noteq> LIVE_SEGMENT"
        "segment_range (fst (seg_file cd rs)) = Some (lg_seq (hd rs), lg_seq (List.last rs))"
      using seg_not_live seg_range by simp_all
    then show ?case using Cons by (simp add: seg_file_def List.map_filter_def)
  qed (simp add: List.map_filter_def)
  then show ?thesis using assms(1)
    by (simp add: archived_segments_def holds_def List.map_filter_def)
qed

lemma segments_of:
  assumes "holds cd (sd_files d) segs live" "rising (concat segs)"
  shows "segments d = sd_files d"
proof -
  have s: "\<forall>rs \<in> set segs. rising rs \<and> rs \<noteq> []" using rising_segs(1) [OF assms(2)] assms(1) by (simp add: holds_def)
  let ?f = "\<lambda>(name, content). if name = LIVE_SEGMENT then None
      else map_option (\<lambda>first. (first, name, content)) (segment_first_seq name)"
  have m: "List.map_filter ?f (map (seg_file cd) segs) = map (\<lambda>rs. (lg_seq (hd rs), seg_file cd rs)) segs"
    using s
  proof (induction segs)
    case (Cons rs segs)
    then have "fst (seg_file cd rs) \<noteq> LIVE_SEGMENT" "segment_first_seq (fst (seg_file cd rs)) = Some (lg_seq (hd rs))"
      using seg_not_live seg_range by simp_all
    then show ?case using Cons by (simp add: seg_file_def List.map_filter_def)
  qed (simp add: List.map_filter_def)
  have "sorted (map fst (map (\<lambda>rs. (lg_seq (hd rs), seg_file cd rs)) segs))"
    using rising_segs(2) [OF assms(2)] assms(1) by (simp add: holds_def comp_def strict_sorted_iff)
  moreover have "filter (\<lambda>(name, content). name = LIVE_SEGMENT) (map (seg_file cd) segs) = []"
    using s
  proof (induction segs)
    case (Cons rs segs)
    then show ?case using seg_not_live [of rs cd] by (simp add: split_def)
  qed simp
  moreover have "List.map_filter ?f (sd_files d) = List.map_filter ?f (map (seg_file cd) segs)"
    using assms(1) by (simp add: holds_def List.map_filter_def)
  ultimately show ?thesis
    using assms(1) m by (simp add: segments_def holds_def sort_key_id_if_sorted comp_def)
qed

lemma holds_clean:
  assumes "holds cd (sd_files d) segs live" "rising (concat segs @ live)" "list_all (reads_back cd) (concat segs @ live)"
    and "files_bytes (sd_files d) < USIZE_MAX"
  shows "clean_log (cd_parse cd) d" "log_records (cd_parse cd) d = concat segs @ live"
proof -
  have segs: "segments d = map (seg_file cd) segs @ [(LIVE_SEGMENT, text_of_records cd live)]"
    using segments_of [OF assms(1)] assms(1,2) by (simp add: rising_append holds_def)
  have s: "\<forall>rs \<in> set segs. rising rs \<and> rs \<noteq> []"
    using rising_segs(1) [of segs] assms(1,2) unfolding holds_def rising_append by blast
  have good: "list_all (reads_back cd) rs" if "rs \<in> set segs \<or> rs = live" for rs
    using assms(3) that by (auto simp: list_all_iff)
  have lt: "\<forall>r \<in> set rs. lg_seq r < 2 ^ 64" if "rs \<in> set segs \<or> rs = live" for rs
    using assms(2) that by (auto simp: rising_def)
  have recs: "segment_records (cd_parse cd) (seg_file cd rs) = rs" if "rs \<in> set segs" for rs
    using records_of_text good that by (simp add: seg_file_def)
  have live: "segment_records (cd_parse cd) (LIVE_SEGMENT, text_of_records cd live) = live"
    using records_of_text good by simp
  show log: "log_records (cd_parse cd) d = concat segs @ live"
    using recs live by (simp add: log_records_def segs map_idI comp_def cong: map_cong)
  have true_seg: "truthful_name (cd_parse cd) (seg_file cd rs)" if "rs \<in> set segs" for rs
    using s that recs [OF that] rising_bounds by (auto simp: truthful_name_def seg_range list_all_iff)
  have true_live: "truthful_name (cd_parse cd) (LIVE_SEGMENT, text_of_records cd live)"
    by (simp add: truthful_name_def live_no_range)
  have lines: "list_all (clean_line (cd_parse cd)) (file_lines [] (snd (seg_file cd rs)))" if "rs \<in> set segs" for rs
    unfolding seg_file_def snd_conv using that by (intro clean_text good lt) simp_all
  have lines_live: "list_all (clean_line (cd_parse cd)) (file_lines [] (text_of_records cd live))"
    by (intro clean_text good lt) simp_all
  have body: "text_bytes (map (body_of cd) rs) \<le> length (text_of_records cd rs)" for rs
    by (induction rs) (simp_all add: text_bytes_def line_of_body)
  then have small: "text_bytes (file_lines [] (text_of_records cd rs)) \<le> length (text_of_records cd rs)"
    if "rs \<in> set segs \<or> rs = live" for rs
    using good [OF that] by (simp add: file_lines_text)
  have "sum_list (map (\<lambda>seg. text_bytes (file_lines [] (snd seg))) (segments d)) \<le> files_bytes (sd_files d)"
    using small assms(1) unfolding segs
    by (simp add: files_bytes_def holds_def comp_def seg_file_def split_def add_mono sum_list_mono)
  moreover have "sorted_wrt (<) (map lg_seq (log_records (cd_parse cd) d))"
    using assms(2) by (simp add: log rising_def)
  moreover have "list_all (\<lambda>seg. list_all (clean_line (cd_parse cd)) (file_lines [] (snd seg))
      \<and> truthful_name (cd_parse cd) seg) (segments d)"
    using lines true_seg lines_live true_live by (auto simp: segs list_all_iff)
  ultimately show "clean_log (cd_parse cd) d" using assms(4) by (simp add: clean_log_def)
qed

section \<open>The steps keep it\<close>

definition kept :: "codec \<Rightarrow> logged_record list list \<Rightarrow> logged_record list \<Rightarrow> nat \<Rightarrow> writer \<Rightarrow> bool" where
  "kept cd segs live k w \<longleftrightarrow>
     holds cd (sd_files (wr_dir w)) segs live \<and> k \<le> length (wr_wrote w) \<and> concat segs @ live = drop k (wr_wrote w)
     \<and> length (wr_wrote w) < 2 ^ 64
     \<and> (\<exists>ol. wr_log w = Some ol \<and> 1 \<le> ol_next ol \<and> map lg_seq (wr_wrote w) = [1..<ol_next ol]
          \<and> ol_first ol = (if live = [] then None else Some (lg_seq (hd live))))"

text \<open>The parts of the writer the log rests on.\<close>

definition core :: "writer \<Rightarrow> (string \<times> string) list \<times> open_log option \<times> logged_record list" where
  "core w = (sd_files (wr_dir w), wr_log w, wr_wrote w)"

lemma kept_core: "core w' = core w \<Longrightarrow> kept cd segs live k w' = kept cd segs live k w"
  by (simp add: core_def kept_def)

lemma numbered_rising:
  assumes "map lg_seq rs = [1..<n]" "length rs < 2 ^ 64"
  shows "rising rs"
proof -
  have "length rs = n - 1" using assms(1) by (metis length_map length_upt)
  moreover have "lg_seq r < n" if "r \<in> set rs" for r
  proof -
    have "lg_seq r \<in> set (map lg_seq rs)" using that by simp
    then show ?thesis using assms(1) by simp
  qed
  ultimately have "lg_seq r < 2 ^ 64" if "r \<in> set rs" for r using that assms(2) by fastforce
  then show ?thesis using assms(1) by (simp add: rising_def)
qed

lemma rising_drop: "rising rs \<Longrightarrow> rising (drop k rs)"
  by (metis append_take_drop_id rising_append)

lemma kept_rising: "kept cd segs live k w \<Longrightarrow> rising (concat segs @ live) \<and> [] \<notin> set segs"
  using numbered_rising rising_drop by (fastforce simp: kept_def holds_def)

lemma file_ops:
  assumes "n \<notin> fst ` set fs"
  shows "put_file n c fs = fs @ [(n, c)]" "put_file n c (fs @ [(n, x)]) = fs @ [(n, c)]"
    "drop_file n (fs @ [(n, x)]) = fs" "map_of (fs @ [(n, x)]) n = Some x"
proof -
  show "put_file n c fs = fs @ [(n, c)]" "put_file n c (fs @ [(n, x)]) = fs @ [(n, c)]"
    using assms by (induction fs) auto
  show "drop_file n (fs @ [(n, x)]) = fs" using assms by (induction fs) (auto simp: drop_file_def)
  show "map_of (fs @ [(n, x)]) n = Some x" using assms by (induction fs) auto
qed

lemma live_not_archived:
  assumes "rising (concat segs)" "[] \<notin> set segs"
  shows "LIVE_SEGMENT \<notin> fst ` set (map (seg_file cd) segs)"
  using seg_names_distinct [OF assms, of cd] by (simp add: image_comp)

lemma append_kept:
  assumes "kept cd segs live k w" "wr_log w = Some ol" "length (wr_wrote w) + 1 < 2 ^ 64"
  shows "kept cd segs (live @ [logged (ol_next ol) r]) k (append_line cd r ol w)"
proof -
  have r: "rising (concat segs)" "[] \<notin> set segs" using kept_rising [OF assms(1)] by (simp_all add: rising_append)
  note ops = file_ops [OF live_not_archived [OF r, of cd]]
  have files: "sd_files (wr_dir w) = map (seg_file cd) segs @ [(LIVE_SEGMENT, text_of_records cd live)]"
    using assms(1) by (simp add: kept_def holds_def)
  have ol: "1 \<le> ol_next ol" "map lg_seq (wr_wrote w) = [1..<ol_next ol]"
      "ol_first ol = (if live = [] then None else Some (lg_seq (hd live)))"
    using assms(1,2) by (auto simp: kept_def)
  have "live_text (wr_dir w) = text_of_records cd live" by (simp only: live_text_def files ops(4) unwrap_or_def option.case)
  then have "holds cd (sd_files (wr_dir (append_line cd r ol w))) segs (live @ [logged (ol_next ol) r])"
    using r(2) by (simp add: append_line_def Let_def holds_def files ops)
  moreover have "map lg_seq (wr_wrote (append_line cd r ol w)) = [1..<ol_next ol + 1]"
    using ol by (simp add: append_line_def Let_def logged_def)
  moreover have "concat segs @ live @ [logged (ol_next ol) r] = drop k (wr_wrote (append_line cd r ol w))"
    using assms(1) by (simp add: append_line_def Let_def kept_def)
  ultimately show ?thesis using assms(1,3) ol
    by (auto simp: kept_def append_line_def Let_def logged_def split: option.split)
qed

lemma ask_core: "ask w = (a, w') \<Longrightarrow> core w' = core w"
  by (auto simp: ask_def core_def split: list.splits)

text \<open>An append that is answered leaves a record in the live segment.\<close>

lemma log_write_kept:
  assumes "kept cd segs live k w" "log_write cd r w = (res, w')" "length (wr_wrote w') < 2 ^ 64"
  shows "\<exists>live'. kept cd segs live' k w' \<and> (res \<noteq> None \<longrightarrow> live' \<noteq> [])"
proof -
  obtain ol where ol: "wr_log w = Some ol" using assms(1) by (auto simp: kept_def)
  obtain a w1 where a: "ask w = (a, w1)" by fastforce
  have k1: "kept cd segs live k w1" "wr_log w1 = Some ol"
    using kept_core [OF ask_core [OF a]] ask_core [OF a] assms(1) ol by (simp_all add: core_def)
  show ?thesis
  proof (cases "a = DiskRefuses")
    case True
    then show ?thesis using assms(2) k1(1) by (auto simp: log_write_def ol a)
  next
    case False
    then have w': "w' = append_line cd r ol w1" using assms(2) by (auto simp: log_write_def ol a split: if_splits)
    then have "length (wr_wrote w1) + 1 < 2 ^ 64" using assms(3) by (simp add: append_line_def Let_def)
    from append_kept [OF k1 this] show ?thesis unfolding w' by blast
  qed
qed

lemma drop_spilled_files: "sd_files (snd (drop_spilled_results refs d)) = sd_files d"
  by (simp add: drop_spilled_results_def split: prod.split)

lemma trim_segments_files:
  assumes "sd_files d = map (seg_file cd) segs @ rest" "distinct (map fst (map (seg_file cd) segs @ rest))"
  shows "\<exists>j \<le> length segs. sd_files (snd (trim_segments parse max_bytes
      (map (\<lambda>rs. (lg_seq (hd rs), lg_seq (List.last rs), fst (seg_file cd rs), text_of_records cd rs)) segs) n t d))
    = map (seg_file cd) (drop j segs) @ rest"
  using assms
proof (induction segs arbitrary: n t d)
  case (Cons rs segs)
  show ?case
  proof (cases "n \<le> max_bytes")
    case True
    then show ?thesis using Cons.prems(1) by (intro exI [of _ 0]) simp
  next
    case False
    obtain freed d' where d: "drop_spilled_results (referenced_files_in parse (text_of_records cd rs))
        (d\<lparr>sd_files := drop_file (fst (seg_file cd rs)) (sd_files d)\<rparr>) = (freed, d')" by fastforce
    have "drop_file (fst (seg_file cd rs)) (sd_files d) = map (seg_file cd) segs @ rest"
    proof -
      have "fst (seg_file cd rs) \<notin> fst ` set (map (seg_file cd) segs @ rest)" using Cons.prems(2) by auto
      then have "filter (\<lambda>x. fst x \<noteq> fst (seg_file cd rs)) (map (seg_file cd) segs @ rest) = map (seg_file cd) segs @ rest"
        by (intro filter_True) (metis image_eqI)
      then show ?thesis using Cons.prems(1) by (simp add: drop_file_def split_def)
    qed
    then have "sd_files d' = map (seg_file cd) segs @ rest"
      using drop_spilled_files [of "referenced_files_in parse (text_of_records cd rs)"
          "d\<lparr>sd_files := drop_file (fst (seg_file cd rs)) (sd_files d)\<rparr>"] d by simp
    moreover have "distinct (map fst (map (seg_file cd) segs @ rest))" using Cons.prems(2) by simp
    ultimately obtain j where "j \<le> length segs"
        "sd_files (snd (trim_segments parse max_bytes
          (map (\<lambda>rs. (lg_seq (hd rs), lg_seq (List.last rs), fst (seg_file cd rs), text_of_records cd rs)) segs)
          (n - length (text_of_records cd rs) - freed)
          (Some (merge_trims t \<lparr>tm_from_seq = lg_seq (hd rs), tm_to_seq = lg_seq (List.last rs), tm_segments = 1,
             tm_bytes_freed = length (text_of_records cd rs) + freed\<rparr>)) d'))
        = map (seg_file cd) (drop j segs) @ rest"
      using Cons.IH by blast
    then show ?thesis using False d by (intro exI [of _ "Suc j"]) simp
  qed
qed simp

lemma enforce_files:
  assumes "holds cd (sd_files d) segs live" "rising (concat segs)"
  shows "\<exists>j \<le> length segs. holds cd (sd_files (snd (enforce_session_cap parse max_bytes d))) (drop j segs) live"
proof -
  have ne: "[] \<notin> set segs" using assms(1) by (simp add: holds_def)
  have files: "sd_files d = map (seg_file cd) segs @ [(LIVE_SEGMENT, text_of_records cd live)]"
    using assms(1) by (simp add: holds_def)
  have dist: "distinct (map fst (map (seg_file cd) segs @ [(LIVE_SEGMENT, text_of_records cd live)]))"
    using seg_names_distinct [OF assms(2) ne, of cd] by simp
  have "sorted (map fst (archived_segments d))"
    using rising_segs(2) [OF assms(2) ne] by (simp add: archived_of [OF assms] comp_def strict_sorted_iff)
  then have sort: "sort_key fst (archived_segments d) = archived_segments d" by (rule sort_key_id_if_sorted)
  obtain j where "j \<le> length segs"
      "sd_files (snd (enforce_session_cap parse max_bytes d))
       = map (seg_file cd) (drop j segs) @ [(LIVE_SEGMENT, text_of_records cd live)]"
  proof (cases "files_bytes (sd_files d) + files_bytes (sd_results d) + files_bytes (sd_snapshots d) \<le> max_bytes
      \<or> archived_segments d = []")
    case True
    then show ?thesis using files that [of 0] by (simp add: enforce_session_cap_def Let_def)
  next
    case False
    then have "enforce_session_cap parse max_bytes d = trim_segments parse max_bytes (archived_segments d)
        (files_bytes (sd_files d) + files_bytes (sd_results d) + files_bytes (sd_snapshots d)) None d"
      by (simp add: enforce_session_cap_def Let_def sort)
    moreover obtain j where "j \<le> length segs"
        "sd_files (snd (trim_segments parse max_bytes (archived_segments d)
          (files_bytes (sd_files d) + files_bytes (sd_results d) + files_bytes (sd_snapshots d)) None d))
        = map (seg_file cd) (drop j segs) @ [(LIVE_SEGMENT, text_of_records cd live)]"
      using trim_segments_files [OF files dist, of parse max_bytes] unfolding archived_of [OF assms] by blast
    ultimately show ?thesis by (intro that [of j]) simp_all
  qed
  then show ?thesis using ne by (intro exI [of _ j]) (auto simp: holds_def dest: in_set_dropD)
qed

text \<open>Dropping archived segments leaves a later end of what was written.\<close>

lemma kept_drop:
  assumes "kept cd segs live k w" "holds cd files (drop j segs) live" "wr_wrote w' = wr_wrote w"
    "wr_log w' = wr_log w" "sd_files (wr_dir w') = files"
  shows "kept cd (drop j segs) live (k + length (concat (take j segs))) w'"
proof -
  have c: "concat segs @ live = drop k (wr_wrote w)" "k \<le> length (wr_wrote w)" using assms(1) by (simp_all add: kept_def)
  have "concat segs = concat (take j segs) @ concat (drop j segs)" by (metis append_take_drop_id concat_append)
  then have "concat (drop j segs) @ live = drop (length (concat (take j segs))) (concat segs @ live)"
      "length (concat (take j segs)) \<le> length (concat segs @ live)"
    by simp_all
  then show ?thesis using assms c by (simp add: kept_def add.commute)
qed

lemma enforce_now_kept:
  assumes "kept cd segs live k w" "enforce_cap_now cd lm w = (t, w')"
  shows "\<exists>segs' k'. kept cd segs' live k' w'"
proof -
  have "rising (concat segs)" using kept_rising [OF assms(1)] by (simp add: rising_append)
  then obtain j where "holds cd (sd_files (snd (enforce_session_cap (cd_parse cd) (lm_max_session_bytes lm) (wr_dir w))))
      (drop j segs) live"
    using enforce_files assms(1) by (meson kept_def)
  moreover have "w' = w\<lparr>wr_dir := snd (enforce_session_cap (cd_parse cd) (lm_max_session_bytes lm) (wr_dir w))\<rparr>"
    using assms(2) by (auto simp: enforce_cap_now_def split: prod.splits)
  ultimately have "kept cd (drop j segs) live (k + length (concat (take j segs))) w'"
    by (intro kept_drop [OF assms(1)]) simp_all
  then show ?thesis by blast
qed

lemma rotate_kept:
  assumes "kept cd segs live k w" "live \<noteq> []" "rotate_if_needed cd lm w = (t, w')"
  shows "\<exists>segs' live' k'. kept cd segs' live' k' w'"
proof -
  obtain ol where ol: "wr_log w = Some ol" "1 \<le> ol_next ol" "map lg_seq (wr_wrote w) = [1..<ol_next ol]"
      "ol_first ol = Some (lg_seq (hd live))"
    using assms(1,2) by (auto simp: kept_def)
  show ?thesis
  proof (cases "ol_bytes ol < lm_rotate_bytes lm")
    case True
    then show ?thesis using assms(1,3) ol(1) by (auto simp: rotate_if_needed_def)
  next
    case False
    have r: "rising (concat segs @ live)" "[] \<notin> set segs" using kept_rising [OF assms(1)] by simp_all
    have rs: "rising (concat segs)" "rising (concat (segs @ [live]))" using r(1) by (simp_all add: rising_append)
    have c: "concat segs @ live = drop k (wr_wrote w)" "k \<le> length (wr_wrote w)" using assms(1) by (simp_all add: kept_def)
    have files: "sd_files (wr_dir w) = map (seg_file cd) segs @ [(LIVE_SEGMENT, text_of_records cd live)]"
      using assms(1) by (simp add: kept_def holds_def)
    note ops = file_ops [OF live_not_archived [OF rs(1) r(2), of cd]]
    have ne: "wr_wrote w \<noteq> []" using c(1) assms(2) by auto
    have "List.last (wr_wrote w) = List.last live"
      using c(1) assms(2) by (metis append_is_Nil_conv last_appendR last_drop drop_eq_Nil2 not_le)
    moreover have "lg_seq (List.last (wr_wrote w)) = List.last [1..<ol_next ol]"
      using ol(3) ne by (metis last_map)
    moreover have "1 < ol_next ol" using ol(2,3) ne by (cases "ol_next ol = 1") auto
    ultimately have final: "ol_next ol - 1 = lg_seq (List.last live)" by simp
    have live_is: "live_text (wr_dir w) = text_of_records cd live" by (simp only: live_text_def files ops(4) unwrap_or_def option.case)
    define name where "name = segment_name (lg_seq (hd live)) (lg_seq (List.last live))"
    have "distinct (map (fst \<circ> seg_file cd) (segs @ [live]) @ [LIVE_SEGMENT])"
      using r(2) assms(2) by (intro seg_names_distinct [OF rs(2)]) auto
    then have new: "name \<notin> fst ` set (map (seg_file cd) segs)"
        "LIVE_SEGMENT \<notin> fst ` set (map (seg_file cd) segs @ [(name, text_of_records cd live)])"
      by (auto simp: name_def seg_file_def)
    define d1 where "d1 = (wr_dir w)\<lparr>sd_files := map (seg_file cd) (segs @ [live]) @ [(LIVE_SEGMENT, [])]\<rparr>"
    have "put_file LIVE_SEGMENT [] (put_file name (text_of_records cd live) (drop_file LIVE_SEGMENT (sd_files (wr_dir w))))
        = map (seg_file cd) (segs @ [live]) @ [(LIVE_SEGMENT, [])]"
      unfolding files ops file_ops(1) [OF new(1)] file_ops(1) [OF new(2)] by (simp add: seg_file_def name_def)
    then have w': "w' = w\<lparr>wr_dir := snd (enforce_session_cap (cd_parse cd) (lm_max_session_bytes lm) d1),
        wr_log := Some (ol\<lparr>ol_bytes := 0, ol_first := None\<rparr>)\<rparr>"
      using assms(3) False ol
      by (auto simp: rotate_if_needed_def Let_def live_is final [simplified] unwrap_or_def name_def [symmetric] d1_def split: prod.splits)
    have h: "holds cd (sd_files d1) (segs @ [live]) []" using r(2) assms(2) by (auto simp: d1_def holds_def)
    then have k1: "kept cd (segs @ [live]) [] k (w\<lparr>wr_dir := d1, wr_log := Some (ol\<lparr>ol_bytes := 0, ol_first := None\<rparr>)\<rparr>)"
      using assms(1) c ol by (simp add: kept_def)
    obtain j where "holds cd (sd_files (snd (enforce_session_cap (cd_parse cd) (lm_max_session_bytes lm) d1)))
        (drop j (segs @ [live])) []"
      using enforce_files [OF h rs(2)] by blast
    from kept_drop [OF k1 this, of w'] show ?thesis by (simp add: w') blast
  qed
qed

section \<open>A record, a snapshot, a batch\<close>

lemma core_simps [simp]:
  "core (w\<lparr>wr_disk := x\<rparr>) = core w" "core (w\<lparr>wr_written_seq := n\<rparr>) = core w" "core (w\<lparr>wr_pending := q\<rparr>) = core w"
  "core (w\<lparr>wr_index := ix\<rparr>) = core w" "core (w\<lparr>wr_dir := (wr_dir w)\<lparr>sd_results := fs\<rparr>\<rparr>) = core w"
  "core (w\<lparr>wr_dir := (wr_dir w)\<lparr>sd_snapshots := fs\<rparr>\<rparr>) = core w"
  by (simp_all add: core_def)

lemma ask_dir: "ask w = (a, w') \<Longrightarrow> wr_dir w' = wr_dir w"
  by (auto simp: ask_def split: list.splits)

lemma write_spill_core: "write_spill_file rel content w = (ok, w') \<Longrightarrow> core w' = core w"
proof -
  assume f: "write_spill_file rel content w = (ok, w')"
  obtain a w1 where a: "ask w = (a, w1)" by fastforce
  have "core (w1\<lparr>wr_dir := (wr_dir w)\<lparr>sd_results := fs\<rparr>\<rparr>) = core w1" for fs
    using core_simps(5) [of fs w1] ask_dir [OF a] by simp
  then show ?thesis using f ask_core [OF a] by (auto simp: write_spill_file_def Let_def a split: if_splits)
qed

lemma prepared_core: "prepared cd r w = (r', w') \<Longrightarrow> core w' = core w"
  by (auto simp: prepared_def spill_result_def split: prod.splits option.splits dest: write_spill_core)

lemma index_core [simp]: "core (index_tool_call cd r n w) = core w"
  by (auto simp: index_tool_call_def core_def split: option.splits prod.splits)

lemma wrote_core: "core w' = core w \<Longrightarrow> wr_wrote w' = wr_wrote w"
  by (simp add: core_def)

lemma log_write_wrote: "log_write cd r w = (res, w') \<Longrightarrow> length (wr_wrote w) \<le> length (wr_wrote w')"
  by (auto simp: log_write_def append_line_def Let_def split: option.splits prod.splits if_splits
      dest!: ask_core wrote_core)

lemma after_write_kept:
  assumes "kept cd segs live k w" "live \<noteq> []" "after_write cd lm grew w = (t, w')"
  shows "(\<exists>segs' live' k'. kept cd segs' live' k' w') \<and> wr_wrote w' = wr_wrote w"
proof -
  obtain t1 w1 where g: "(if grew then enforce_cap_now cd lm w else (None, w)) = (t1, w1)" by fastforce
  then obtain segs1 k1 where k1: "kept cd segs1 live k1 w1"
    using assms(1) enforce_now_kept [OF assms(1)] by (cases grew) fastforce+
  obtain t2 where r: "rotate_if_needed cd lm w1 = (t2, w')"
    using assms(3) g by (auto simp: after_write_def split: prod.splits)
  have "wr_wrote w1 = wr_wrote w" using g by (auto simp: enforce_cap_now_def split: if_splits prod.splits)
  moreover have "wr_wrote w' = wr_wrote w1"
    using r by (auto simp: rotate_if_needed_def Let_def split: option.splits if_splits prod.splits)
  ultimately show ?thesis using rotate_kept [OF k1 assms(2) r] by simp
qed

lemma write_record_kept:
  assumes "kept cd segs live k w" "write_record cd lm now r w = (res, w')" "length (wr_wrote w') < 2 ^ 64"
  shows "\<exists>segs' live' k'. kept cd segs' live' k' w'"
proof -
  obtain r1 w1 where p: "prepared cd r w = (r1, w1)" by fastforce
  have k1: "kept cd segs live k w1" using kept_core [OF prepared_core [OF p]] assms(1) by simp
  obtain res2 w2 where l: "log_write cd r1 w1 = (res2, w2)" by fastforce
  show ?thesis
  proof (cases res2)
    case None
    then have "w' = w2" using assms(2) by (simp add: write_record_def p l Let_def)
    then show ?thesis using log_write_kept [OF k1 l] assms(3) by blast
  next
    case (Some n)
    define w3 where "w3 = index_tool_call cd r1 n (w2\<lparr>wr_written_seq := max (wr_written_seq w2) n\<rparr>)"
    define grew where "grew \<longleftrightarrow> rc_spill r \<noteq> None \<or> rc_kind r = FileSnapshot"
    obtain t w4 where a: "after_write cd lm grew w3 = (t, w4)" by fastforce
    have w': "w' = (case t of None \<Rightarrow> w4 | Some t \<Rightarrow> snd (log_write cd (trim_notice now t) w4))"
      using assms(2) Some unfolding write_record_def Let_def p l grew_def [symmetric] prod.case option.case
        w3_def [symmetric] a
      by (cases t) (simp_all add: w3_def [symmetric] a)
    have c3: "core w3 = core w2" by (simp add: w3_def)
    have w4_short: "length (wr_wrote w4) \<le> length (wr_wrote w')"
      using log_write_wrote [of cd "trim_notice now (the t)" w4] w' by (cases t) (auto simp: prod_eq_iff)
    have after: "length (wr_wrote w4) = length (wr_wrote w3)"
      using a by (auto simp: after_write_def enforce_cap_now_def rotate_if_needed_def Let_def
          split: prod.splits if_splits option.splits)
    have "length (wr_wrote w2) < 2 ^ 64" using w4_short after wrote_core [OF c3] assms(3) by simp
    then obtain live' where "kept cd segs live' k w2" "live' \<noteq> []" using log_write_kept [OF k1 l] Some by blast
    then have "kept cd segs live' k w3" "live' \<noteq> []" using kept_core [OF c3] by simp_all
    then obtain segs4 live4 k4 where k4: "kept cd segs4 live4 k4 w4" using after_write_kept [OF _ _ a] by blast
    show ?thesis
    proof (cases t)
      case None
      then show ?thesis using w' k4 by auto
    next
      case (Some t)
      obtain res5 where "log_write cd (trim_notice now t) w4 = (res5, w')" using w' Some by (cases "log_write cd (trim_notice now t) w4") simp
      then show ?thesis using log_write_kept [OF k4] assms(3) by blast
    qed
  qed
qed

lemma write_record_wrote:
  "write_record cd lm now r w = (res, w') \<Longrightarrow> length (wr_wrote w) \<le> length (wr_wrote w')"
proof -
  assume a: "write_record cd lm now r w = (res, w')"
  obtain r1 w1 where p: "prepared cd r w = (r1, w1)" by fastforce
  obtain res2 w2 where l: "log_write cd r1 w1 = (res2, w2)" by fastforce
  have le: "length (wr_wrote w) \<le> length (wr_wrote w2)"
    using log_write_wrote [OF l] wrote_core [OF prepared_core [OF p]] by simp
  show ?thesis
  proof (cases res2)
    case None
    then show ?thesis using a le by (simp add: write_record_def p l Let_def)
  next
    case (Some n)
    define grew where "grew \<longleftrightarrow> rc_spill r \<noteq> None \<or> rc_kind r = FileSnapshot"
    obtain t w4 where f: "after_write cd lm grew
        (index_tool_call cd r1 n (w2\<lparr>wr_written_seq := max (wr_written_seq w2) n\<rparr>)) = (t, w4)" by fastforce
    have w': "w' = (case t of None \<Rightarrow> w4 | Some t \<Rightarrow> snd (log_write cd (trim_notice now t) w4))"
      using a Some unfolding write_record_def Let_def p l grew_def [symmetric] prod.case option.case
      by (cases t) (simp_all add: f)
    have "wr_wrote (index_tool_call cd r1 n (w2\<lparr>wr_written_seq := max (wr_written_seq w2) n\<rparr>)) = wr_wrote w2"
      by (rule wrote_core) simp
    then have "wr_wrote w4 = wr_wrote w2"
      using f by (auto simp: after_write_def enforce_cap_now_def rotate_if_needed_def Let_def
          split: prod.splits if_splits option.splits)
    moreover have "length (wr_wrote w4) \<le> length (wr_wrote w')"
      using log_write_wrote [of cd "trim_notice now (the t)" w4] w' by (cases t) (auto simp: prod_eq_iff)
    ultimately show ?thesis using le by simp
  qed
qed

lemma write_snapshot_core: "write_snapshot_file name source w = (res, w') \<Longrightarrow> core w' = core w"
proof -
  assume f: "write_snapshot_file name source w = (res, w')"
  obtain a w1 where a: "ask w = (a, w1)" by fastforce
  have "core (w1\<lparr>wr_dir := (wr_dir w)\<lparr>sd_snapshots := fs\<rparr>\<rparr>) = core w1" for fs
    using core_simps(6) [of fs w1] ask_dir [OF a] by simp
  then show ?thesis using f ask_core [OF a]
    by (auto simp: write_snapshot_file_def Let_def a split: if_splits option.splits)
qed

lemma snapshot_parts:
  assumes "take_snapshot cd lm now spec w = (res, w')"
  shows "core w' = core w \<or> (\<exists>w1 r res2 w2. core w1 = core w \<and> write_record cd lm now r w1 = (res2, w2) \<and> core w' = core w2)"
proof (cases "wr_log w")
  case (Some ol)
  let ?name = "snapshot_file (ol_next ol) (ss_path spec)"
  obtain img w1 where f: "write_snapshot_file ?name (ss_source spec) w = (img, w1)" by fastforce
  note c = write_snapshot_core [OF f]
  show ?thesis
  proof (cases img)
    case (Some bytes)
    obtain res2 w2 where r: "write_record cd lm now (snapshot_record cd now spec (ol_next ol) bytes) w1 = (res2, w2)"
      by fastforce
    then have "core w' = core w2"
      using assms \<open>wr_log w = Some ol\<close> f Some by (cases res2) (auto simp: take_snapshot_def Let_def)
    then show ?thesis using c r by blast
  qed (use assms \<open>wr_log w = Some ol\<close> f c in \<open>auto simp: take_snapshot_def Let_def\<close>)
qed (use assms in \<open>simp add: take_snapshot_def\<close>)

text \<open>From a new session on, the writer has written nothing or holds the end of what it wrote.\<close>

definition sound_log :: "codec \<Rightarrow> writer \<Rightarrow> bool" where
  "sound_log cd w \<longleftrightarrow>
     (length (wr_wrote w) < 2 ^ 64 \<longrightarrow>
        (wr_log w = None \<and> sd_files (wr_dir w) = [] \<and> wr_wrote w = []) \<or> (\<exists>segs live k. kept cd segs live k w))"

lemma sound_core: "core w' = core w \<Longrightarrow> sound_log cd w' = sound_log cd w"
  using kept_core [of w' w cd] by (auto simp: sound_log_def core_def)

lemma kept_log: "kept cd segs live k w \<Longrightarrow> wr_log w \<noteq> None"
  by (auto simp: kept_def)

lemma ensure_sound:
  assumes "sound_log cd w" "ensure_log cd aside w = (ready, w')"
  shows "sound_log cd w' \<and> wr_wrote w' = wr_wrote w
    \<and> (ready \<longrightarrow> length (wr_wrote w') < 2 ^ 64 \<longrightarrow> (\<exists>segs live k. kept cd segs live k w'))"
proof (cases "\<not> wr_gave_up w \<and> wr_log w = None \<and> length (wr_wrote w) < 2 ^ 64")
  case True
  then have "\<not> kept cd segs live k w" for segs live k using kept_log by blast
  then have f: "sd_files (wr_dir w) = []" "wr_wrote w = []" using assms(1) True by (auto simp: sound_log_def)
  have "open_segment (cd_parse cd) aside (wr_dir w)
      = (Some \<lparr>ol_bytes = 0, ol_first = None, ol_next = 1\<rparr>, (wr_dir w)\<lparr>sd_files := [(LIVE_SEGMENT, [])]\<rparr>)"
    using f by (simp add: open_segment_def archived_last_seq_def archived_segments_def List.map_filter_def)
  then have "w' = w\<lparr>wr_dir := (wr_dir w)\<lparr>sd_files := [(LIVE_SEGMENT, [])]\<rparr>,
      wr_log := Some \<lparr>ol_bytes = 0, ol_first = None, ol_next = 1\<rparr>, wr_written_seq := wr_written_seq w\<rparr>"
    using assms(2) True by (auto simp: ensure_log_def)
  then have "kept cd [] [] 0 w'" "wr_wrote w' = wr_wrote w" using f by (simp_all add: kept_def holds_def)
  then show ?thesis by (auto simp: sound_log_def)
next
  case False
  then show ?thesis
  proof (cases "length (wr_wrote w) < 2 ^ 64")
    case True
    then have "w' = w" "ready \<longrightarrow> wr_log w \<noteq> None" using False assms(2) by (auto simp: ensure_log_def split: if_splits)
    then show ?thesis using assms(1) by (auto simp: sound_log_def)
  next
    case long: False
    have "wr_wrote w' = wr_wrote w"
      using assms(2) by (auto simp: ensure_log_def split: if_splits prod.splits option.splits)
    then show ?thesis using long by (simp add: sound_log_def)
  qed
qed

lemma write_record_sound:
  assumes "length (wr_wrote w) < 2 ^ 64 \<longrightarrow> (\<exists>segs live k. kept cd segs live k w)"
    and "write_record cd lm now r w = (res, w')"
  shows "sound_log cd w'"
  using assms write_record_kept [OF _ assms(2)] write_record_wrote [OF assms(2)]
  unfolding sound_log_def by (meson le_less_trans)

lemma process_sound:
  assumes "sound_log cd w" "process cd lm now aside ms w = (acks, closing, w')"
  shows "sound_log cd w'"
  using assms
proof (induction cd lm now aside ms w arbitrary: acks closing rule: process.induct)
  case (2 cd lm now aside r ms w)
  obtain ready w1 where e: "ensure_log cd aside w = (ready, w1)" by fastforce
  note s = ensure_sound [OF 2(2) e]
  obtain res w2 where r: "write_record cd lm now r w1 = (res, w2)" by fastforce
  have "sound_log cd (if ready then snd (write_record cd lm now r w1) else w1)"
    using s write_record_sound [OF _ r] r by auto
  then show ?case using 2(1) [OF e [symmetric]] 2(3) e by auto
next
  case (4 cd lm now aside spec ms w)
  obtain ready w1 where e: "ensure_log cd aside w = (ready, w1)" by fastforce
  note s = ensure_sound [OF 4(2) e]
  obtain ans w2 where t: "(if ready then take_snapshot cd lm now spec w1 else (None, w1)) = (ans, w2)" by fastforce
  have "sound_log cd w2"
  proof (cases ready)
    case True
    then have t': "take_snapshot cd lm now spec w1 = (ans, w2)" using t by simp
    from snapshot_parts [OF this] show ?thesis
    proof
      assume "core w2 = core w1"
      then show ?thesis using s sound_core by blast
    next
      assume "\<exists>w1' r res2 w2'. core w1' = core w1 \<and> write_record cd lm now r w1' = (res2, w2') \<and> core w2 = core w2'"
      then obtain w1' r res2 w2' where p: "core w1' = core w1" "write_record cd lm now r w1' = (res2, w2')" "core w2 = core w2'"
        by blast
      have "length (wr_wrote w1') < 2 ^ 64 \<longrightarrow> (\<exists>segs live k. kept cd segs live k w1')"
        using s True kept_core [OF p(1)] wrote_core [OF p(1)] by simp
      then show ?thesis using write_record_sound [OF _ p(2)] sound_core [OF p(3)] by blast
    qed
  qed (use t s in auto)
  then show ?case using 4(1) [OF e [symmetric] t [symmetric]] 4(3) e t by (auto split: prod.splits)
qed simp_all


text \<open>A session of one record, under a codec that knows its line.\<close>

definition demo_raw :: raw_record where
  "demo_raw =
     \<lparr>rc_kind = UserMsg, rc_ts = ''t'', rc_task = None, rc_span = None, rc_agent = None, rc_data = JNull, rc_spill = None\<rparr>"

definition demo_body :: string where
  "demo_body = butlast (to_line (\<lambda>s. s) (\<lambda>_. ''null'') (logged 1 demo_raw))"

definition demo_codec :: codec where
  "demo_codec =
     \<lparr>cd_parse = (\<lambda>s. if s = demo_body then Some (logged 1 demo_raw) else None), cd_quote = (\<lambda>s. s),
      cd_ser = (\<lambda>_. ''null''), cd_sha = (\<lambda>s. s), cd_disk_error = []\<rparr>"

definition demo_dir :: session_dir where
  "demo_dir = \<lparr>sd_files = [], sd_results = [], sd_snapshots = []\<rparr>"

lemma demo_ensure:
  "ensure_log demo_codec aside (writer_new sid demo_dir False [])
   = (True, (writer_new sid demo_dir False [])
        \<lparr>wr_dir := demo_dir\<lparr>sd_files := [(LIVE_SEGMENT, [])]\<rparr>,
         wr_log := Some \<lparr>ol_bytes = 0, ol_first = None, ol_next = 1\<rparr>\<rparr>)"
  by (simp add: ensure_log_def writer_new_def open_segment_def demo_dir_def archived_last_seq_def
      archived_segments_def List.map_filter_def)

lemma demo_process:
  "\<exists>w. process demo_codec \<lparr>lm_rotate_bytes = 1000000, lm_max_session_bytes = 1000000\<rparr> now aside [MRecord demo_raw]
         (writer_new sid demo_dir False []) = ([], False, w)
     \<and> wr_wrote w = [logged 1 demo_raw] \<and> sd_files (wr_dir w) = [(LIVE_SEGMENT, line_of demo_codec (logged 1 demo_raw))]"
proof -
  let ?w = "(writer_new sid demo_dir False [])\<lparr>wr_dir := demo_dir\<lparr>sd_files := [(LIVE_SEGMENT, [])]\<rparr>,
         wr_log := Some \<lparr>ol_bytes = 0, ol_first = None, ol_next = 1\<rparr>\<rparr>"
  have p: "prepared demo_codec demo_raw ?w = (demo_raw, ?w)"
    by (simp add: prepared_def spill_result_def demo_raw_def cap_data_def demo_codec_def stamp_boundary_def
        ENVELOPE_DATA_CAP_BYTES_def)
  let ?line = "line_of demo_codec (logged 1 demo_raw)"
  have len: "length ?line < 1000000"
  proof -
    have "length ?line = 45" unfolding line_of_def demo_codec_def by code_simp
    then show ?thesis by simp
  qed
  let ?w2 = "?w\<lparr>wr_dir := demo_dir\<lparr>sd_files := [(LIVE_SEGMENT, ?line)]\<rparr>,
         wr_log := Some \<lparr>ol_bytes = length ?line, ol_first = Some 1, ol_next = 2\<rparr>, wr_wrote := [logged 1 demo_raw]\<rparr>"
  have l: "log_write demo_codec demo_raw ?w = (Some 1, ?w2)"
    by (simp add: log_write_def ask_def append_line_def writer_new_def demo_dir_def live_text_def Let_def unwrap_or_def)
  have i: "index_tool_call demo_codec demo_raw 1 w = w" for w
    by (simp add: index_tool_call_def demo_raw_def)
  have g: "\<not> (rc_spill demo_raw \<noteq> None \<or> rc_kind demo_raw = FileSnapshot)" by (simp add: demo_raw_def)
  have a: "after_write demo_codec \<lparr>lm_rotate_bytes = 1000000, lm_max_session_bytes = 1000000\<rparr> False
      (?w2\<lparr>wr_written_seq := x\<rparr>) = (None, ?w2\<lparr>wr_written_seq := x\<rparr>)" for x
    using len by (simp add: after_write_def rotate_if_needed_def)
  have "write_record demo_codec \<lparr>lm_rotate_bytes = 1000000, lm_max_session_bytes = 1000000\<rparr> now demo_raw ?w
      = (Some 1, ?w2\<lparr>wr_written_seq := max (wr_written_seq ?w2) 1\<rparr>)"
    unfolding write_record_def Let_def p l prod.case option.case i using g a by simp
  then show ?thesis by (simp add: demo_ensure)
qed

lemma demo_reads_back: "list_all (reads_back demo_codec) [logged 1 demo_raw]"
proof -
  have b: "body_of demo_codec (logged 1 demo_raw) = demo_body"
    by (simp add: body_of_def line_of_def demo_codec_def demo_body_def)
  have pc: "cd_parse demo_codec demo_body = Some (logged 1 demo_raw)" by (simp add: demo_codec_def)
  have "CHR 0x0A \<notin> set demo_body" "utf8_ok demo_body" "trim demo_body \<noteq> []"
    unfolding demo_body_def by code_simp+
  then show ?thesis by (simp add: reads_back_def b [simplified] pc [simplified])
qed


section \<open>Reopening after a crash\<close>

lemma whole_lines_body:
  "CHR 0x0A \<notin> set b \<Longrightarrow> whole_lines acc (b @ NL @ s) = rev (rev b @ acc) # whole_lines [] s"
  by (induction b arbitrary: acc) (auto simp: NL_def)

lemma whole_lines_torn: "CHR 0x0A \<notin> set s \<Longrightarrow> whole_lines acc s = []"
  by (induction s arbitrary: acc) auto

lemma whole_lines_text:
  "list_all (reads_back cd) rs \<Longrightarrow> CHR 0x0A \<notin> set torn \<Longrightarrow>
   whole_lines [] (text_of_records cd rs @ torn) = map (body_of cd) rs"
proof (induction rs)
  case (Cons r rs)
  then show ?case by (simp add: line_of_body whole_lines_body reads_back_def)
qed (simp add: whole_lines_torn)

lemma text_length: "length (text_of_records cd rs) = sum_list (map (\<lambda>b. length b + 1) (map (body_of cd) rs))"
  by (induction rs) (simp_all add: line_of_body NL_def)


definition demo_writer :: writer where
  "demo_writer =
     (writer_new ''s'' demo_dir False [])
       \<lparr>wr_dir := demo_dir\<lparr>sd_files := [(LIVE_SEGMENT, line_of demo_codec (logged 1 demo_raw))]\<rparr>,
        wr_log := Some \<lparr>ol_bytes = 45, ol_first = Some 1, ol_next = 2\<rparr>, wr_wrote := [logged 1 demo_raw]\<rparr>"


text \<open>C32: A live segment whose last mebibyte holds no record is moved aside so that a new segment can be started, but none is: opening the file that was just moved fails, the writer gives up, and every record of the batch in hand is lost.\<close>

theorem corrupt_tail_drops_the_batch:
  assumes "map_of (sd_files d) LIVE_SEGMENT = Some content" and "repair_tail (cd_parse cd) content = MovedAside"
    and "aside \<noteq> LIVE_SEGMENT" and "rs \<noteq> []"
    and "process cd lm now aside (map MRecord rs) (writer_new sid d has_db disk) = (acks, closing, w)"
  shows "wr_wrote w = [] \<and> wr_gave_up w \<and> map_of (sd_files (wr_dir w)) LIVE_SEGMENT = None"
proof -
  have up: "process cd lm now aside (map MRecord rs) v = ([], False, v)" if "wr_gave_up v" for rs v
    using that by (induction rs) (simp_all add: ensure_log_def)
  obtain r rest where rs: "rs = r # rest" using assms(4) by (cases rs) simp_all
  let ?d = "d\<lparr>sd_files := put_file aside content (drop_file LIVE_SEGMENT (sd_files d))\<rparr>"
  have "ensure_log cd aside (writer_new sid d has_db disk)
      = (False, (writer_new sid d has_db disk)\<lparr>wr_dir := ?d, wr_gave_up := True\<rparr>)"
    using assms(1,2) by (simp add: ensure_log_def writer_new_def open_segment_def)
  then have w: "w = (writer_new sid d has_db disk)\<lparr>wr_dir := ?d, wr_gave_up := True\<rparr>"
    using assms(5) rs up by simp
  have "map_of (drop_file LIVE_SEGMENT fs) LIVE_SEGMENT = None" for fs
    by (auto simp: drop_file_def map_of_eq_None_iff)
  moreover have "map_of (put_file aside content fs) LIVE_SEGMENT = map_of fs LIVE_SEGMENT" for fs
    using assms(3) by (induction fs) auto
  ultimately show ?thesis using w by (simp add: writer_new_def)
qed

theorem corrupt_tail_drops_the_batch_witness:
  "\<exists>w. process demo_codec \<lparr>lm_rotate_bytes = 1000000, lm_max_session_bytes = 1000000\<rparr> ''now'' ''log.corrupt-1.jsonl'' [MRecord demo_raw]
         (writer_new ''s'' (demo_dir\<lparr>sd_files := [(LIVE_SEGMENT, replicate (TAIL_SCAN_BYTES + 1) (CHR ''x''))]\<rparr>) False [])
       = ([], False, w) \<and> wr_wrote w = []"
proof -
  let ?c = "replicate (TAIL_SCAN_BYTES + 1) (CHR ''x'')"
  let ?d = "demo_dir\<lparr>sd_files := [(LIVE_SEGMENT, ?c)]\<rparr>"
  have "whole_lines [] (drop n ?c) = []" for n by (rule whole_lines_torn) (auto dest: in_set_dropD)
  then have "repair_tail (cd_parse demo_codec) ?c = MovedAside"
    by (simp add: repair_tail_def Let_def)
  moreover have "map_of (sd_files ?d) LIVE_SEGMENT = Some ?c" by simp
  moreover have "''log.corrupt-1.jsonl'' \<noteq> LIVE_SEGMENT" by (simp add: LIVE_SEGMENT_def)
  moreover obtain acks closing w where p: "process demo_codec \<lparr>lm_rotate_bytes = 1000000, lm_max_session_bytes = 1000000\<rparr> ''now'' ''log.corrupt-1.jsonl'' (map MRecord [demo_raw])
      (writer_new ''s'' ?d False []) = (acks, closing, w)" by (metis prod_cases3)
  moreover have "acks = [] \<and> \<not> closing" using p by (auto split: prod.splits)
  ultimately show ?thesis using corrupt_tail_drops_the_batch [OF _ _ _ _ p] by auto
qed

end
