(* ===== verification/Session_Resume.thy ===== *)
theory Session_Resume
  imports Session_Replay Session_Durability
begin

text \<open>
  From the loop to the log and back: the JSON each record of the loop is written with, the round a replay
  rebuilds from it, and the interjections a crash leaves undelivered (\<open>session_log/recovery.rs\<close>). How a
  working state, a cost and a principal are written as JSON are arguments.
\<close>

section \<open>The payloads\<close>

fun finish_reason_debug :: "finish_reason \<Rightarrow> string" where
  "finish_reason_debug FinStop = ''Stop''"
| "finish_reason_debug FinToolUse = ''ToolUse''"
| "finish_reason_debug FinMaxTokens = ''MaxTokens''"
| "finish_reason_debug FinError = ''Error''"

fun tier_debug :: "compaction_tier \<Rightarrow> string" where
  "tier_debug TierNone = ''None''"
| "tier_debug TruncateToolResults = ''TruncateToolResults''"
| "tier_debug DropMultimedia = ''DropMultimedia''"
| "tier_debug DiscardSocial = ''DiscardSocial''"
| "tier_debug HeuristicSummary = ''HeuristicSummary''"
| "tier_debug LlmSummary = ''LlmSummary''"

definition json_opt :: "('a \<Rightarrow> json) \<Rightarrow> 'a option \<Rightarrow> json" where
  "json_opt f x = (case x of None \<Rightarrow> JNull | Some y \<Rightarrow> f y)"

definition json_int :: "int \<Rightarrow> json" where
  "json_int i = (if i < 0 then JNumber (''-'' @ show_nat (nat (- i))) else json_nat (nat i))"

definition ext_json :: "tool_ext \<Rightarrow> json" where
  "ext_json = json_opt (\<lambda>(kind, name, generation).
     json_object [(''kind'', JString kind), (''id'', JString name), (''generation'', json_nat generation)])"

definition tool_use_json :: "tool_call \<Rightarrow> json" where
  "tool_use_json tc =
     json_object [(''id'', JString (tc_id tc)), (''name'', JString (tc_name tc)), (''input'', tc_arguments tc)]"

definition context_json :: "(nat \<times> nat \<times> nat \<times> nat \<times> nat) option \<Rightarrow> json" where
  "context_json = json_opt (\<lambda>(window, sys, tools, msgs, free).
     json_object [(''window'', json_nat window), (''system_prompt'', json_nat sys), (''tools'', json_nat tools),
       (''messages'', json_nat msgs), (''free'', json_nat free)])"

definition round_json ::
  "nat \<Rightarrow> string \<Rightarrow> 32 word \<Rightarrow> 32 word \<Rightarrow> 32 word \<Rightarrow> finish_reason \<Rightarrow> string \<Rightarrow> tool_call list
   \<Rightarrow> (nat \<times> nat \<times> nat \<times> nat \<times> nat) option \<Rightarrow> json" where
  "round_json n model input_tokens output_tokens cached fin body calls context =
     json_object [(''round'', json_nat n), (''model'', JString model), (''input_tokens'', json_nat (unat input_tokens)),
       (''output_tokens'', json_nat (unat output_tokens)), (''cache_read_input_tokens'', json_nat (unat cached)),
       (''stop_reason'', JString (finish_reason_debug fin)), (''text'', JString body),
       (''tool_use'', JArray (map tool_use_json calls)), (''context'', context_json context)]"

definition tool_call_json :: "string \<Rightarrow> string \<Rightarrow> json \<Rightarrow> tool_ext \<Rightarrow> json" where
  "tool_call_json i name input ext =
     json_object [(''tool_use_id'', JString i), (''name'', JString name), (''input'', input), (''ext'', ext_json ext)]"

definition command_stub_marker :: "nat \<Rightarrow> json" where
  "command_stub_marker budget = json_object [(''form'', JString ''head_tail''), (''budget'', json_nat budget)]"

definition tool_result_json ::
  "nat \<Rightarrow> string \<Rightarrow> string \<Rightarrow> bool \<Rightarrow> string option \<Rightarrow> string option \<Rightarrow> nat option \<Rightarrow> tool_ext \<Rightarrow> json" where
  "tool_result_json ms i name ok err res stub ext =
     json_object ([(''tool_use_id'', JString i), (''name'', JString name), (''ok'', JBool ok),
        (''duration_ms'', json_nat ms), (''error'', json_opt JString err), (''result'', json_opt JString res),
        (''ext'', ext_json ext)]
       @ (case stub of None \<Rightarrow> [] | Some budget \<Rightarrow> [(''stub'', command_stub_marker budget)]))"

definition drained_json :: "string \<Rightarrow> nat \<Rightarrow> nat \<Rightarrow> string list \<Rightarrow> json" where
  "drained_json where_at n how_many ids =
     json_object [(''at'', JString where_at), (''round'', json_nat n), (''count'', json_nat how_many),
       (''request_ids'', JArray (map JString ids))]"

definition steering_json :: "(string \<Rightarrow> json) \<Rightarrow> string \<Rightarrow> string \<Rightarrow> string \<Rightarrow> string \<Rightarrow> nat \<Rightarrow> string \<Rightarrow> string option \<Rightarrow> json" where
  "steering_json value_of_text i lane body received depth prin workspace =
     json_object [(''request_id'', JString i), (''lane_key'', JString lane), (''text'', JString body),
       (''received_at'', JString received), (''queue_depth'', json_nat depth), (''principal'', value_of_text prin),
       (''workspace_path'', json_opt JString workspace)]"

definition error_json :: "string \<Rightarrow> string \<Rightarrow> json" where
  "error_json where_at msg = json_object [(''where'', JString where_at), (''message'', JString msg)]"

definition done_json ::
  "(rat \<Rightarrow> json) \<Rightarrow> nat \<Rightarrow> string \<Rightarrow> nat \<Rightarrow> nat \<Rightarrow> 32 word \<Rightarrow> 32 word \<Rightarrow> rat \<Rightarrow> string option \<Rightarrow> json" where
  "done_json cost_json ms fin rounds calls input_tokens output_tokens cost model =
     json_object [(''finish_reason'', JString fin), (''rounds_used'', json_nat rounds),
       (''tool_calls_made'', json_nat calls), (''input_tokens'', json_nat (unat input_tokens)),
       (''output_tokens'', json_nat (unat output_tokens)), (''estimated_cost_usd'', cost_json cost),
       (''elapsed_ms'', json_nat ms), (''model'', json_opt JString model)]"

definition compaction_json ::
  "(working_state \<Rightarrow> json) \<Rightarrow> compaction_tier \<Rightarrow> nat \<Rightarrow> nat \<Rightarrow> nat \<Rightarrow> nat \<Rightarrow> nat \<Rightarrow> compaction_tier list
   \<Rightarrow> working_state option \<Rightarrow> int option \<Rightarrow> nat \<Rightarrow> json" where
  "compaction_json state_json tier pre post before after discarded applied state through dropped =
     json_object [(''tier'', JString (tier_debug tier)), (''trigger'', JString ''auto''), (''pre_tokens'', json_nat pre),
       (''post_tokens'', json_nat post), (''messages_before'', json_nat before), (''messages_after'', json_nat after),
       (''messages_discarded'', json_nat discarded),
       (''tiers_applied'', JString (''['' @ join '', '' (map tier_debug applied) @ '']'')),
       (''working_state'', json_opt state_json state), (''state_through'', json_opt json_int through),
       (''cumulative_dropped_tokens'', json_nat dropped), (''dropped_from_seq'', JNull), (''summary_msg_id'', JNull)]"

record payload_codec =
  pl_state :: "working_state \<Rightarrow> json"
  pl_cost :: "rat \<Rightarrow> json"
  pl_value :: "string \<Rightarrow> json"

fun payload_json :: "payload_codec \<Rightarrow> nat \<Rightarrow> log_data \<Rightarrow> json" where
  "payload_json pc ms (DSteering i lane body received depth prin workspace) =
     steering_json (pl_value pc) i lane body received depth prin workspace"
| "payload_json pc ms (DDrained where_at n how_many ids) = drained_json where_at n how_many ids"
| "payload_json pc ms (DCompaction tier pre post before after discarded applied state through dropped) =
     compaction_json (pl_state pc) tier pre post before after discarded applied state through dropped"
| "payload_json pc ms (DRound n model i o' c fin body calls context) = round_json n model i o' c fin body calls context"
| "payload_json pc ms (DToolCall i name input ext) = tool_call_json i name input ext"
| "payload_json pc ms (DToolResult i name ok err res stub ext) = tool_result_json ms i name ok err res stub ext"
| "payload_json pc ms (DError where_at msg) = error_json where_at msg"
| "payload_json pc ms (DDone fin rounds calls i o' cost model) = done_json (pl_cost pc) ms fin rounds calls i o' cost model"

text \<open>
  The record the loop hands the writer, and the record the writer puts on file when nothing of it is cut
  and its spill, if any, is written.
\<close>

definition raw_of :: "payload_codec \<Rightarrow> nat \<Rightarrow> string \<Rightarrow> log_record \<Rightarrow> raw_record" where
  "raw_of pc ms ts lr =
     \<lparr>rc_kind = lr_kind lr, rc_ts = ts, rc_task = lr_task lr, rc_span = lr_span lr, rc_agent = lr_agent lr,
      rc_data = payload_json pc ms (lr_data lr), rc_spill = lr_spill lr\<rparr>"

definition as_spilled :: "codec \<Rightarrow> raw_record \<Rightarrow> raw_record" where
  "as_spilled cd r =
     (case rc_spill r of
        None \<Rightarrow> r
      | Some (rel, content) \<Rightarrow> r\<lparr>rc_spill := None, rc_data := spilled_data cd rel content (rc_data r)\<rparr>)"

definition on_file :: "payload_codec \<Rightarrow> codec \<Rightarrow> log_record \<Rightarrow> logged_record \<Rightarrow> bool" where
  "on_file pc cd lr q = (\<exists>ms ts n. q = logged n (as_spilled cd (raw_of pc ms ts lr)))"

lemma written_on_file:
  assumes "prepared cd (raw_of pc ms ts lr) w = (r, w1)" "log_write cd r w1 = (Some n, w2)"
    and "lr_kind lr \<noteq> Compaction" "length (cd_ser cd (rc_data (as_spilled cd (raw_of pc ms ts lr)))) \<le> ENVELOPE_DATA_CAP_BYTES"
    and "\<And>rel c. lr_spill lr = Some (rel, c) \<Longrightarrow> fst (write_spill_file rel c w)"
  shows "on_file pc cd lr (List.last (wr_wrote w2))"
proof -
  have "r = as_spilled cd (raw_of pc ms ts lr)"
    using assms(1,3,4,5)
    by (auto simp: prepared_def spill_result_def as_spilled_def raw_of_def stamp_boundary_def cap_data_def
        split: option.splits prod.splits)
  moreover have "List.last (wr_wrote w2) = logged n r"
    using assms(2) by (auto simp: log_write_def append_line_def Let_def split: option.splits prod.splits if_splits)
  ultimately show ?thesis by (auto simp: on_file_def)
qed

lemma json_get_object: "json_get (json_object ms) k = map_of (rev ms) k"
  by (simp add: json_object_def map_of_btree_of)

section \<open>What the loop logs of a batch\<close>

text \<open>The log takes every record, and has taken these.\<close>

definition takes :: "'w loop_state \<Rightarrow> log_record list \<Rightarrow> bool" where
  "takes s lrs = (case ls_log s of None \<Rightarrow> False | Some lg \<Rightarrow> sl_channel lg = [] \<and> sl_records lg = lrs)"

lemma log_event_takes: "takes s lrs \<Longrightarrow> takes (log_event u k d s) (lrs @ [record_of u k d None])"
  by (auto simp: takes_def log_event_def emit_open split: option.splits)

lemma log_events_take:
  "takes s lrs \<Longrightarrow>
   takes (fold (\<lambda>x. log_event u (k x) (d x)) xs s) (lrs @ map (\<lambda>x. record_of u (k x) (d x) None) xs)"
proof (induction xs arbitrary: s lrs)
  case (Cons x xs)
  show ?case using Cons.IH [OF log_event_takes [OF Cons.prems, of u "k x" "d x"]] by simp
qed simp

lemma takes_update [simp]:
  "takes (s\<lparr>ls_messages := x\<rparr>) lrs = takes s lrs" "takes (s\<lparr>ls_world := y\<rparr>) lrs = takes s lrs"
  "takes (s\<lparr>ls_tool_calls := n\<rparr>) lrs = takes s lrs" "takes (s\<lparr>ls_last_tool_error := e\<rparr>) lrs = takes s lrs"
  "takes (s\<lparr>ls_token_retries := n\<rparr>) lrs = takes s lrs" "takes (s\<lparr>ls_content := c\<rparr>) lrs = takes s lrs"
  by (simp_all add: takes_def)

text \<open>What one result is logged as and shown as, when the log takes it.\<close>

definition answer_logged :: "loop_setup \<Rightarrow> tool_call \<times> string \<times> bool \<Rightarrow> log_record \<Rightarrow> chat_message \<Rightarrow> bool" where
  "answer_logged u x lr m =
     (case x of (tc, body, failed) \<Rightarrow>
        (let spill = lr_spill lr;
             shown = model_visible_result u body (\<not> failed) (map_option fst spill) (is_command u (tc_name tc))
         in lr = record_of u ToolResult (result_record u tc body (\<not> failed) (spill \<noteq> None)) spill
            \<and> (case spill of None \<Rightarrow> length body \<le> lf_inline_bytes (su_config u)
               | Some (rel, c) \<Rightarrow> c = body \<and> lf_inline_bytes (su_config u) < length body)
            \<and> m = (if failed then tool_error (tc_id tc) shown else tool_result (tc_id tc) shown)))"

lemma take_result_logged:
  assumes "takes s lrs"
  obtains lr m where "takes (take_result en u x s) (lrs @ [lr])"
    and "ls_messages (take_result en u x s) = ls_messages s @ [m]" and "answer_logged u x lr m"
proof -
  obtain tc body failed where x: "x = (tc, body, failed)" by (cases x)
  obtain lg where lg: "ls_log s = Some lg" "sl_channel lg = []" "sl_records lg = lrs"
    using assms by (auto simp: takes_def split: option.splits)
  obtain rel lg' where r: "reserve_spill (en_fresh_tag en (ls_world s)) (tc_name tc) (tc_id tc) lg = (rel, lg')"
    by fastforce
  then have lg': "sl_channel lg' = []" "sl_records lg' = lrs"
    using lg by (auto simp: reserve_spill_def Let_def)
  let ?long = "\<not> length body \<le> lf_inline_bytes (su_config u)"
  let ?spill = "if ?long then Some (rel, body) else None"
  let ?lr = "record_of u ToolResult (result_record u tc body (\<not> failed) (?spill \<noteq> None)) ?spill"
  let ?shown = "model_visible_result u body (\<not> failed) (map_option fst ?spill) (is_command u (tc_name tc))"
  let ?m = "if failed then tool_error (tc_id tc) ?shown else tool_result (tc_id tc) ?shown"
  have "takes (take_result en u x s) (lrs @ [?lr])" "ls_messages (take_result en u x s) = ls_messages s @ [?m]"
    using lg lg' r
    by (simp_all add: take_result_def x spill_plan_def log_spill_event_def emit_open Let_def takes_def)
  moreover have "answer_logged u x ?lr ?m" by (simp add: answer_logged_def x record_of_def Let_def)
  ultimately show ?thesis using that by blast
qed

lemma take_results_logged:
  assumes "takes s lrs"
  obtains ys where "takes (fold (take_result en u) rs s) (lrs @ map fst ys)"
    and "ls_messages (fold (take_result en u) rs s) = ls_messages s @ map snd ys"
    and "list_all2 (\<lambda>x y. answer_logged u x (fst y) (snd y)) rs ys"
  using assms
proof (induction rs arbitrary: s lrs thesis)
  case Nil
  show ?case using Nil.prems(1) [of "[]"] Nil.prems(2) by simp
next
  case (Cons x rs)
  obtain lr m where one: "takes (take_result en u x s) (lrs @ [lr])"
      "ls_messages (take_result en u x s) = ls_messages s @ [m]" "answer_logged u x lr m"
    using take_result_logged [OF Cons.prems(2)] by blast
  obtain ys where "takes (fold (take_result en u) rs (take_result en u x s)) ((lrs @ [lr]) @ map fst ys)"
      "ls_messages (fold (take_result en u) rs (take_result en u x s)) = ls_messages (take_result en u x s) @ map snd ys"
      "list_all2 (\<lambda>x y. answer_logged u x (fst y) (snd y)) rs ys"
    using Cons.IH [OF _ one(1)] by blast
  then show ?case using Cons.prems(1) [of "(lr, m) # ys"] one by simp
qed

definition round_logged :: "loop_setup \<Rightarrow> nat \<Rightarrow> nat \<Rightarrow> chat_response \<Rightarrow> log_record" where
  "round_logged u n tokens r =
     record_of u Round (DRound n (rs_model r) (ug_input_tokens (rs_usage r)) (ug_output_tokens (rs_usage r))
       (ug_cache_read (rs_usage r)) (rs_finish_reason r) (rs_content r) (rs_tool_calls r) (round_context u tokens)) None"

definition call_logged :: "loop_setup \<Rightarrow> tool_call \<Rightarrow> log_record" where
  "call_logged u tc =
     record_of u ToolCall (DToolCall (tc_id tc) (tc_name tc) (tc_arguments tc) (tool_extension u (tc_name tc))) None"

lemma note_answer_takes:
  "takes s lrs \<Longrightarrow> takes (note_answer u tokens r s) (lrs @ [round_logged u (ls_rounds s) tokens r])"
  by (auto simp: note_answer_def Let_def round_logged_def intro!: log_event_takes)

lemma batch_taken_logged:
  assumes "takes s lrs"
  obtains ys where "takes (batch_taken en u r rs s) (lrs @ map (call_logged u) (calls_of u r s) @ map fst ys)"
    and "ls_messages (batch_taken en u r rs s) = ls_messages s @ assistant_with_tools r # map snd ys @ refusals_of u r s"
    and "list_all2 (\<lambda>x y. answer_logged u x (fst y) (snd y)) rs ys"
proof -
  let ?s = "(calls_logged u r s)\<lparr>ls_world := en_next en (ls_world (calls_logged u r s))\<rparr>"
  have "takes ?s (lrs @ map (call_logged u) (calls_of u r s))"
    using log_events_take [of "s\<lparr>ls_messages := ls_messages s @ [assistant_with_tools r]\<rparr>" lrs u "\<lambda>_. ToolCall"]
      assms by (simp add: calls_logged_def call_logged_def [abs_def])
  then obtain ys where "takes (fold (take_result en u) rs ?s) ((lrs @ map (call_logged u) (calls_of u r s)) @ map fst ys)"
      "ls_messages (fold (take_result en u) rs ?s) = ls_messages ?s @ map snd ys"
      "list_all2 (\<lambda>x y. answer_logged u x (fst y) (snd y)) rs ys"
    using take_results_logged by blast
  then show ?thesis using that [of ys] by (simp add: batch_taken_def Let_def calls_logged_frame)
qed

section \<open>What a replay makes of it\<close>

text \<open>A record of the lead of this run.\<close>

definition of_lead :: "string \<Rightarrow> logged_record \<Rightarrow> bool" where
  "of_lead task q = (lg_task q = Some task \<and> \<not> in_subagent_lane task q)"

lemma step_core:
  "of_lead task q \<Longrightarrow> lg_kind q = ''round'' \<Longrightarrow>
     rb_rounds (rebuild_step sha rd d task q b) = rb_rounds (round_record q b)
     \<and> rb_slots (rebuild_step sha rd d task q b) = rb_slots (round_record q b)"
  "of_lead task q \<Longrightarrow> lg_kind q = ''tool_call'' \<Longrightarrow>
     rb_rounds (rebuild_step sha rd d task q b) = rb_rounds b \<and> rb_slots (rebuild_step sha rd d task q b) = rb_slots b"
  "of_lead task q \<Longrightarrow> lg_kind q = ''tool_result'' \<Longrightarrow>
     rb_rounds (rebuild_step sha rd d task q b) = rb_rounds (result_record_read sha d q b)
     \<and> rb_slots (rebuild_step sha rd d task q b) = rb_slots (result_record_read sha d q b)"
  by (auto simp: of_lead_def rebuild_step_def note_trim_def Let_def round_record_def result_record_read_def
      split: option.split prod.split)

lemma slots_for_hit:
  assumes "distinct (map tc_id calls)" "j < length calls"
  shows "slots_for k calls m (tc_id (calls ! j)) = Some (k, j)"
proof -
  have "fold (\<lambda>(j, tc) m. m(tc_id tc \<mapsto> (k, j))) (enumerate n calls) m (tc_id (calls ! j)) = Some (k, n + j)" for n
    using assms
  proof (induction calls arbitrary: n m j)
    case (Cons tc calls)
    have miss: "fold (\<lambda>(j, tc) m. m(tc_id tc \<mapsto> (k, j))) (enumerate n' calls) m' i = m' i"
      if "i \<notin> tc_id ` set calls" for n' m' i
      using that
    proof (induction calls arbitrary: n' m')
      case (Cons c cs)
      then show ?case by simp
    qed simp
    show ?case
    proof (cases j)
      case 0
      then show ?thesis using miss [of "tc_id tc"] Cons.prems(1) by (simp del: fun_upd_apply add: fun_upd_same)
    next
      case (Suc i)
      then show ?thesis using Cons.IH [of i "Suc n"] Cons.prems by simp
    qed
  qed simp
  from this [of 0] show ?thesis by (simp add: slots_for_def)
qed

text \<open>A result read back: the text the model was shown, in a message of the same kind.\<close>

definition kept_for :: "session_dir \<Rightarrow> log_record \<Rightarrow> bool" where
  "kept_for d lr =
     (case lr_spill lr of
        None \<Rightarrow> True
      | Some (rel, content) \<Rightarrow>
          spill_file d rel = Some content \<and> utf8_ok content \<and> length content < 2 ^ 64
          \<and> (case lr_data lr of DToolResult i name ok e r budget x \<Rightarrow> ok | _ \<Rightarrow> True))"

lemma result_payload:
  "json_str (tool_result_json ms i name ok e r budget x) ''tool_use_id'' = Some i"
  "json_get (tool_result_json ms i name ok e r budget x) ''ok'' = Some (JBool ok)"
  "json_get (tool_result_json ms i name ok e r budget x) ''result'' = Some (json_opt JString r)"
  "json_get (tool_result_json ms i name ok e r budget x) ''stub'' = map_option command_stub_marker budget"
  by (simp_all add: tool_result_json_def json_get_object json_str_def split: option.split)

lemma json_get_set_member:
  "json_get j k0 = Some x \<Longrightarrow> json_get (set_member k v j) k' = (if k' = k then Some v else json_get j k')"
  by (cases j) (simp_all add: map_of_member_insert)

lemma spilled_payload:
  assumes "json_get j ''ok'' = Some ok"
  shows "json_get (spilled_data cd rel c j) k
    = (if k = ''result_ref'' then Some (JString (''file:'' @ rel))
       else if k = ''result'' then Some (json_object [(''spill'', json_object [(''rel'', JString rel),
              (''bytes'', json_nat (length c)), (''sha256'', JString (cd_sha cd c)), (''mime'', JString SPILL_MIME)]),
            (''preview'', JString (spill_preview c))])
       else json_get j k)"
proof -
  have "json_get (set_member ''result'' v j) ''ok'' = Some ok" for v
    by (simp add: json_get_set_member [OF assms] assms)
  from json_get_set_member [OF this] json_get_set_member [OF assms] show ?thesis by (simp add: spilled_data_def)
qed

lemma answer_read_back:
  assumes "answer_logged u x lr m" "on_file pc cd lr q" "kept_for d lr" "lf_inline_bytes (su_config u) < 2 ^ 64"
  shows "lg_kind q = ''tool_result'' \<and> lg_task q = su_task_id u \<and> lg_span q = lf_span (su_config u)"
    and "json_str (lg_data q) ''tool_use_id'' = Some (tc_id (fst x))"
    and "result_message (tc_id (fst x)) (lg_data q) (fst (result_text (cd_sha cd) d (lg_data q))) = m"
proof -
  obtain tc body failed where x: "x = (tc, body, failed)" by (cases x)
  obtain ms ts n where q: "q = logged n (as_spilled cd (raw_of pc ms ts lr))" using assms(2) by (auto simp: on_file_def)
  let ?j = "\<lambda>spilled. payload_json pc ms (result_record u tc body (\<not> failed) spilled)"
  have pay: "?j sp = tool_result_json ms (tc_id tc) (tc_name tc) (\<not> failed)
      (if \<not> failed then None else if sp then Some (spill_preview body) else Some body)
      (if sp then None else Some body)
      (if sp \<and> \<not> failed \<and> is_command u (tc_name tc) then Some (lf_inline_bytes (su_config u)) else None)
      (tool_extension u (tc_name tc))" for sp
    by (simp add: result_record_def)
  have lr: "lr_kind lr = ToolResult" "lr_task lr = su_task_id u" "lr_span lr = lf_span (su_config u)"
      "lr_data lr = result_record u tc body (\<not> failed) (lr_spill lr \<noteq> None)"
    using assms(1) by (cases lr; simp add: answer_logged_def x record_of_def Let_def)+
  show "lg_kind q = ''tool_result'' \<and> lg_task q = su_task_id u \<and> lg_span q = lf_span (su_config u)"
    using lr by (auto simp: q logged_def as_spilled_def raw_of_def split: option.split)
  have m: "m = (if failed then tool_error else tool_result) (tc_id tc)
      (model_visible_result u body (\<not> failed) (map_option fst (lr_spill lr)) (is_command u (tc_name tc)))"
    using assms(1) by (simp add: answer_logged_def x Let_def)
  show "json_str (lg_data q) ''tool_use_id'' = Some (tc_id (fst x))"
  proof (cases "lr_spill lr")
    case None
    then show ?thesis using lr by (simp add: q logged_def as_spilled_def raw_of_def pay result_payload x)
  next
    case (Some y)
    then show ?thesis
      using lr result_payload(1)
      by (cases y) (simp add: q logged_def as_spilled_def raw_of_def pay json_str_def spilled_payload [OF result_payload(2)] x)
  qed
  show "result_message (tc_id (fst x)) (lg_data q) (fst (result_text (cd_sha cd) d (lg_data q))) = m"
  proof (cases "lr_spill lr")
    case None
    have "length body \<le> lf_inline_bytes (su_config u)" using assms(1) None by (simp add: answer_logged_def x Let_def)
    then have "model_visible_result u body (\<not> failed) None c = body" for c
      by (simp add: model_visible_result_def head_tail_def truncate_tool_result_to_def Let_def)
    then show ?thesis
      using lr m None
      by (simp add: q logged_def as_spilled_def raw_of_def pay x result_message_def result_payload result_text_def
          json_opt_def)
  next
    case (Some y)
    obtain rel where y: "lr_spill lr = Some (rel, body)"
      using assms(1) Some by (auto simp: answer_logged_def x Let_def split: option.splits)
    have k: "spill_file d rel = Some body" "utf8_ok body" "length body < 2 ^ 64" "\<not> failed"
      using assms(3) lr(4) y by (auto simp: kept_for_def result_record_def)
    then have "rel \<noteq> []" by (auto simp: spill_file_def spill_name_def RESULTS_DIR_def strip_prefix_def)
    let ?q = "spilled_data cd rel body (?j True)"
    have data: "lg_data q = ?q" using lr(4) y by (simp add: q logged_def as_spilled_def raw_of_def)
    have get: "json_get ?q ''ok'' = Some (JBool True)"
        "json_get ?q ''stub'' = (if is_command u (tc_name tc) then Some (command_stub_marker (lf_inline_bytes (su_config u))) else None)"
        "json_get ?q ''result'' = Some (json_object [(''spill'', json_object [(''rel'', JString rel),
              (''bytes'', json_nat (length body)), (''sha256'', JString (cd_sha cd body)), (''mime'', JString SPILL_MIME)]),
            (''preview'', JString (spill_preview body))])"
      using k(4) spilled_payload [OF result_payload(2)] by (simp_all add: result_record_def result_payload)
    obtain ms' where res: "json_get ?q ''result'' = Some (JObject ms')" and obj: "JObject ms' = json_object [(''spill'', json_object [(''rel'', JString rel),
              (''bytes'', json_nat (length body)), (''sha256'', JString (cd_sha cd body)), (''mime'', JString SPILL_MIME)]),
            (''preview'', JString (spill_preview body))]" using get(3) by (simp add: json_object_def)
    have budget: "command_stub_budget ?q = (if is_command u (tc_name tc) then Some (lf_inline_bytes (su_config u)) else None)"
      using assms(4)
      by (simp del: as_u64.simps add: command_stub_budget_def get command_stub_marker_def json_str_def json_u64_def json_get_object json_nat_def)
    have mem: "map_of ms' ''spill'' = Some (json_object [(''rel'', JString rel),
        (''bytes'', json_nat (length body)), (''sha256'', JString (cd_sha cd body)), (''mime'', JString SPILL_MIME)])"
        "map_of ms' ''preview'' = Some (JString (spill_preview body))"
      unfolding json_get.simps [symmetric] obj by (simp_all add: json_get_object)
    have "fst (result_text (cd_sha cd) d ?q) = (if is_command u (tc_name tc)
        then command_spill_stub body (lf_inline_bytes (su_config u)) rel
        else spill_stub (length body) (spill_preview body) rel)"
      using k(1-3) \<open>rel \<noteq> []\<close>
      by (simp del: as_u64.simps add: result_text_def res mem Let_def budget json_get_object json_str_def json_u64_def json_nat_def spilled_bytes_def
          unwrap_or_def)
    then show ?thesis
      using k(4) m y get(1) by (simp add: data result_message_def x model_visible_result_def)
  qed
qed

text \<open>The round the batch's records are read into, as far as they go.\<close>

definition round_so_far :: "nat \<Rightarrow> chat_response \<Rightarrow> (nat \<times> chat_message) list \<Rightarrow> replay_round" where
  "round_so_far n r ans =
     \<lparr>rr_seq = n, rr_text = rs_content r, rr_calls = rs_tool_calls r,
      rr_results = map Some ans @ replicate (length (rs_tool_calls r) - length ans) None\<rparr>"

lemma round_so_far_add:
  assumes "length ans < length (rs_tool_calls r)"
  shows "(round_so_far n r ans)\<lparr>rr_results := (rr_results (round_so_far n r ans))[length ans := Some a]\<rparr>
    = round_so_far n r (ans @ [a])"
proof -
  have "Suc (length (rs_tool_calls r) - Suc (length ans)) = length (rs_tool_calls r) - length ans" using assms by simp
  then have "replicate (length (rs_tool_calls r) - length ans) None
      = None # replicate (length (rs_tool_calls r) - Suc (length ans)) (None :: (nat \<times> chat_message) option)"
    by (metis replicate_Suc)
  then show ?thesis by (simp add: round_so_far_def list_update_append)
qed

definition at_round :: "chat_response \<Rightarrow> replay_round list \<Rightarrow> nat \<Rightarrow> (nat \<times> chat_message) list \<Rightarrow> rebuild_state \<Rightarrow> bool" where
  "at_round r rounds n ans b =
     (rb_rounds b = rounds @ [round_so_far n r ans]
      \<and> (\<forall>j < length (rs_tool_calls r). rb_slots b (tc_id (rs_tool_calls r ! j)) = Some (length rounds, j)))"

lemma result_replayed:
  assumes "at_round r rounds n ans b" "of_lead task q" "lg_kind q = ''tool_result''"
    and "json_str (lg_data q) ''tool_use_id'' = Some (tc_id (rs_tool_calls r ! length ans))"
    and "length ans < length (rs_tool_calls r)"
    and "result_message (tc_id (rs_tool_calls r ! length ans)) (lg_data q) (fst (result_text sha d (lg_data q))) = m"
  shows "at_round r rounds n (ans @ [(lg_seq q, m)]) (rebuild_step sha rd d task q b)"
proof -
  have slot: "rb_slots b (tc_id (rs_tool_calls r ! length ans)) = Some (length rounds, length ans)"
    using assms(1,5) by (simp add: at_round_def)
  obtain body refs missing where t: "result_text sha d (lg_data q) = (body, refs, missing)" by (metis prod_cases3)
  have "rb_rounds (result_record_read sha d q b) = rounds @ [round_so_far n r (ans @ [(lg_seq q, m)])]
      \<and> rb_slots (result_record_read sha d q b) = rb_slots b"
    using assms(1,4,6) slot t round_so_far_add [OF assms(5)]
    by (simp add: result_record_read_def at_round_def Let_def list_update_append nth_append)
  then show ?thesis using assms(1) step_core(3) [OF assms(2,3)] by (simp add: at_round_def)
qed

lemma results_replayed:
  assumes "list_all2 (\<lambda>x y. answer_logged u x (fst y) (snd y)) rs ys" "list_all2 (\<lambda>y q. on_file pc cd (fst y) q) ys qs"
    and "list_all (\<lambda>y. kept_for d (fst y)) ys" "lf_inline_bytes (su_config u) < 2 ^ 64"
    and "su_task_id u = Some task" "lf_span (su_config u) \<in> {None, Some (lead_span_id task)}"
    and "map fst rs = take (length rs) (drop (length ans) (rs_tool_calls r))"
    and "length ans + length rs \<le> length (rs_tool_calls r)" "at_round r rounds n ans b"
  shows "at_round r rounds n (ans @ zip (map lg_seq qs) (map snd ys)) (fold (rebuild_step (cd_sha cd) rd d task) qs b)"
  using assms(1,2,3,7,8,9)
proof (induction rs arbitrary: ys qs ans b)
  case (Cons x rs)
  obtain y ys' where ys: "ys = y # ys'" "answer_logged u x (fst y) (snd y)"
      "list_all2 (\<lambda>x y. answer_logged u x (fst y) (snd y)) rs ys'" using Cons.prems(1) by (cases ys) auto
  obtain q qs' where qs: "qs = q # qs'" "on_file pc cd (fst y) q" "list_all2 (\<lambda>y q. on_file pc cd (fst y) q) ys' qs'"
    using Cons.prems(2) ys(1) by (cases qs) auto
  have lt: "length ans < length (rs_tool_calls r)" using Cons.prems(5) by simp
  have dr: "drop (length ans) (rs_tool_calls r) = rs_tool_calls r ! length ans # drop (Suc (length ans)) (rs_tool_calls r)"
    using lt by (rule Cons_nth_drop_Suc [symmetric])
  have x: "fst x = rs_tool_calls r ! length ans"
      and rest: "map fst rs = take (length rs) (drop (length (ans @ [a])) (rs_tool_calls r))" for a
    using Cons.prems(4) dr by simp_all
  have kept: "kept_for d (fst y)" "list_all (\<lambda>y. kept_for d (fst y)) ys'" using Cons.prems(3) ys(1) by simp_all
  note got = answer_read_back [OF ys(2) qs(2) kept(1) assms(4)]
  have lead: "of_lead task q"
    using got(1) assms(5,6) by (auto simp: of_lead_def in_subagent_lane_def lead_span_id_def split: option.split)
  have "at_round r rounds n (ans @ [(lg_seq q, snd y)]) (rebuild_step (cd_sha cd) rd d task q b)"
    using got x lt by (intro result_replayed [OF Cons.prems(6) lead]) simp_all
  from Cons.IH [OF ys(3) qs(3) kept(2) rest _ this] Cons.prems(5)
  show ?case by (simp add: ys(1) qs(1))
qed simp

lemma skipped:
  assumes "list_all (\<lambda>q. of_lead task q \<and> lg_kind q = ''tool_call'') qs"
  shows "rb_rounds (fold (rebuild_step sha rd d task) qs b) = rb_rounds b
    \<and> rb_slots (fold (rebuild_step sha rd d task) qs b) = rb_slots b"
  using assms
proof (induction qs arbitrary: b)
  case (Cons q qs)
  have "of_lead task q" "lg_kind q = ''tool_call''" using Cons.prems by simp_all
  then show ?case using Cons step_core(2) [of task q sha rd d b] by simp
qed simp

lemma tool_calls_read:
  "tool_calls_of (round_json n model i o' c fin body calls ctx) = calls"
proof -
  have "json_get (tool_use_json tc) ''id'' = Some (JString (tc_id tc))"
    "json_get (tool_use_json tc) ''name'' = Some (JString (tc_name tc))"
    "json_get (tool_use_json tc) ''input'' = Some (tc_arguments tc)" for tc
    by (simp_all add: tool_use_json_def json_get_object)
  then have one: "tool_call_of (tool_use_json tc) = Some tc" for tc
    by (simp add: tool_call_of_def json_str_def unwrap_or_def)
  have "List.map_filter tool_call_of (map tool_use_json cs) = cs" for cs
    by (induction cs) (simp_all add: List.map_filter_def one)
  then show ?thesis by (simp add: tool_calls_of_def round_json_def json_get_object)
qed

lemma round_replayed:
  assumes "on_file pc cd (round_logged u n tokens r) q" "su_task_id u = Some task"
    and "lf_span (su_config u) \<in> {None, Some (lead_span_id task)}" "distinct (map tc_id (rs_tool_calls r))"
  shows "at_round r (rb_rounds b) (lg_seq q) [] (rebuild_step sha rd d task q b)"
proof -
  obtain ms ts k where q: "q = logged k (raw_of pc ms ts (round_logged u n tokens r))"
    using assms(1) by (auto simp: on_file_def as_spilled_def raw_of_def round_logged_def record_of_def)
  have lead: "of_lead task q" "lg_kind q = ''round''"
    using assms(2,3)
    by (auto simp: q logged_def raw_of_def round_logged_def record_of_def of_lead_def in_subagent_lane_def lead_span_id_def
        split: option.split)
  have data: "tool_calls_of (lg_data q) = rs_tool_calls r" "text_of (lg_data q) = rs_content r"
    by (simp_all add: q logged_def raw_of_def round_logged_def record_of_def tool_calls_read)
      (simp add: round_json_def text_of_def json_str_def json_get_object unwrap_or_def)
  have "at_round r (rb_rounds b) (lg_seq q) [] (round_record q b)"
    using slots_for_hit [OF assms(4)]
    by (simp add: at_round_def round_record_def data round_so_far_def Let_def)
  then show ?thesis using step_core(1) [OF lead] by (simp add: at_round_def)
qed

lemma takes_unique: "takes s a \<Longrightarrow> takes s b \<Longrightarrow> a = b"
  by (auto simp: takes_def split: option.splits)

lemma round_messages_full:
  assumes "length ans = length (rs_tool_calls r)" "rs_parts r = None"
  shows "round_messages (round_so_far n r ans) = assistant_with_tools r # map snd ans"
proof -
  have "List.map_filter id (map Some xs) = xs" for xs :: "(nat \<times> chat_message) list"
    by (induction xs) (simp_all add: List.map_filter_def)
  then show ?thesis
    using assms
    by (simp add: round_messages_def round_so_far_def assistant_message_def assistant_with_tools_def msg_of_def)
qed

lemma complete_so_far:
  "length ans \<le> length (rs_tool_calls r) \<Longrightarrow>
   complete_round (round_so_far n r ans) = (length ans = length (rs_tool_calls r))"
  by (auto simp: complete_round_def round_so_far_def list_all_iff)

lemma calls_skipped:
  assumes "list_all2 (on_file pc cd) (map (call_logged u) tcs) qs" "su_task_id u = Some task"
    and "lf_span (su_config u) \<in> {None, Some (lead_span_id task)}"
  shows "list_all (\<lambda>q. of_lead task q \<and> lg_kind q = ''tool_call'') qs"
proof -
  have "of_lead task q \<and> lg_kind q = ''tool_call''" if "on_file pc cd (call_logged u tc) q" for tc q
    using that assms(2,3)
    by (auto simp: on_file_def logged_def raw_of_def as_spilled_def call_logged_def record_of_def
        of_lead_def in_subagent_lane_def lead_span_id_def split: option.splits)
  then show ?thesis using assms(1) by (auto simp: list_all2_conv_all_nth list_all_length)
qed


text \<open>The demonstration run's first batch, logged and read back.\<close>

definition plain_payloads :: payload_codec where
  "plain_payloads = \<lparr>pl_state = (\<lambda>st. JNull), pl_cost = (\<lambda>c. JNull), pl_value = JString\<rparr>"

lemma emit_session: "sl_session_id (snd (emit r lg)) = sl_session_id lg"
  by (auto simp: emit_def Let_def split: list.split channel_answer.split)

lemma log_event_session: "map_option sl_session_id (ls_log (log_event u k d s)) = map_option sl_session_id (ls_log s)"
  by (simp add: log_event_def emit_session split: option.split)

lemma answer_inline:
  "answer_logged u x lr m \<Longrightarrow> length (fst (snd x)) \<le> lf_inline_bytes (su_config u) \<Longrightarrow> lr_spill lr = None"
  by (cases x; cases "lr_spill lr") (auto simp: answer_logged_def Let_def)

lemma execute_tools_taken:
  assumes "\<not> en_batch_cancelled en (ls_world (calls_logged u r s))"
    and "run_batch lc hash u (effective_context u (calls_logged u r s)) (en_tool en (ls_world (calls_logged u r s))) 0
           (calls_of u r s) = Some rs"
  shows "execute_tools lc hash en u r s = Goes (batch_taken en u r rs s)"
proof -
  obtain ex ov over where p: "split_calls u (ls_tool_calls s) (rs_tool_calls r) = (ex, ov, over)" by (metis prod_cases3)
  then show ?thesis
    using assms by (simp add: execute_tools_def batch_taken_def refusals_of_def calls_logged_def calls_of_def Let_def)
qed


end
