(* ===== verification/Session_Recovery.thy ===== *)
theory Session_Recovery
  imports Session_Resume
begin

text \<open>
  The interjections a crash left undelivered (\<open>session_log/recovery.rs\<close>), against the records the push of
  an interjection and the drains of the loop write. The pages are read with the loop of the replay, which
  recovery repeats. The session's directory exists.
\<close>

section \<open>The scan\<close>

record undrained_msg =
  us_request_id :: string
  us_text :: string
  us_principal_json :: string
  us_workspace_path :: "string option"

record steering_scan =
  sn_undrained :: "undrained_msg list"
  sn_unrecoverable :: nat

definition drained_ids :: "json \<Rightarrow> string list" where
  "drained_ids data =
     (case Option.bind (json_get data ''request_ids'') as_array of
        None \<Rightarrow> [] | Some ids \<Rightarrow> List.map_filter as_str ids)"

definition scan_record ::
  "string \<Rightarrow> logged_record \<Rightarrow> string list \<times> (string \<times> json) list \<Rightarrow> string list \<times> (string \<times> json) list" where
  "scan_record task r acc =
     (case acc of
        (drained, pushed) \<Rightarrow>
          if lg_task r \<noteq> Some task then acc
          else if lg_kind r = ''steering_drained'' then (drained @ drained_ids (lg_data r), pushed)
          else if lg_kind r = ''steering''
          then (case json_str (lg_data r) ''request_id'' of
                  None \<Rightarrow> acc | Some i \<Rightarrow> (drained, pushed @ [(i, lg_data r)]))
          else acc)"

definition recovered :: "serializer \<Rightarrow> string \<times> json \<Rightarrow> undrained_msg option" where
  "recovered ser x =
     (case x of
        (i, data) \<Rightarrow>
          (case (json_str data ''text'', json_get data ''principal'') of
             (Some body, Some p) \<Rightarrow>
               if p = JNull then None
               else Some \<lparr>us_request_id = i, us_text = body, us_principal_json = ser p,
                          us_workspace_path = json_str data ''workspace_path''\<rparr>
           | _ \<Rightarrow> None))"

definition scan_records :: "serializer \<Rightarrow> string \<Rightarrow> logged_record list \<Rightarrow> steering_scan" where
  "scan_records ser task rs =
     (case fold (scan_record task) rs ([], []) of
        (drained, pushed) \<Rightarrow>
          (let found = map (recovered ser) (filter (\<lambda>x. fst x \<notin> set drained) pushed)
           in \<lparr>sn_undrained = List.map_filter id found, sn_unrecoverable = length (filter (\<lambda>x. x = None) found)\<rparr>))"

definition undrained_steering :: "serializer \<Rightarrow> line_parser \<Rightarrow> session_dir \<Rightarrow> string \<Rightarrow> steering_scan option" where
  "undrained_steering ser parse d task = map_option (scan_records ser task \<circ> fst) (read_pages parse d PAGE None)"

section \<open>What a run's records say\<close>

definition drains :: "string \<Rightarrow> log_record \<Rightarrow> string list" where
  "drains task lr = (if lr_task lr \<noteq> Some task then [] else case lr_data lr of DDrained a n k ids \<Rightarrow> ids | _ \<Rightarrow> [])"

definition pushes :: "payload_codec \<Rightarrow> codec \<Rightarrow> string \<Rightarrow> log_record \<Rightarrow> undrained_msg list" where
  "pushes pc cd task lr =
     (if lr_task lr \<noteq> Some task then []
      else case lr_data lr of
             DSteering i lane body received depth prin workspace \<Rightarrow>
               [\<lparr>us_request_id = i, us_text = body, us_principal_json = cd_ser cd (pl_value pc prin),
                 us_workspace_path = workspace\<rparr>]
           | _ \<Rightarrow> [])"

text \<open>A record whose kind says what it carries, as the loop and the push write them.\<close>

definition well_kinded :: "payload_codec \<Rightarrow> log_record \<Rightarrow> bool" where
  "well_kinded pc lr =
     (case lr_data lr of
        DSteering i lane body received depth prin workspace \<Rightarrow>
          lr_kind lr = Steering \<and> lr_spill lr = None \<and> pl_value pc prin \<noteq> JNull
      | DDrained a n k ids \<Rightarrow> lr_kind lr = SteeringDrained \<and> lr_spill lr = None
      | _ \<Rightarrow> lr_kind lr \<noteq> Steering \<and> lr_kind lr \<noteq> SteeringDrained)"

lemma push_well_kinded:
  "pj (sm_principal m) = Some p \<Longrightarrow> pl_value pc p \<noteq> JNull \<Longrightarrow> well_kinded pc (steering_record pj task lane depth m)"
  by (simp add: well_kinded_def steering_record_def)

lemma kind_name_eq: "record_type_as_str a = record_type_as_str b \<longleftrightarrow> a = b"
  using record_type_round_trip by (metis option.inject)

definition file_pushed :: "payload_codec \<Rightarrow> codec \<Rightarrow> string \<Rightarrow> (string \<times> json) list \<Rightarrow> undrained_msg list \<Rightarrow> bool" where
  "file_pushed pc cd task ps us = list_all2 (\<lambda>p x. fst p = us_request_id x \<and> recovered (cd_ser cd) p = Some x) ps us"

lemma scan_one:
  assumes "on_file pc cd lr q" "well_kinded pc lr"
  shows "\<exists>ps. scan_record task q (dr, pushed) = (dr @ drains task lr, pushed @ ps)
    \<and> file_pushed pc cd task ps (pushes pc cd task lr)"
proof -
  obtain ms ts n where q: "q = logged n (as_spilled cd (raw_of pc ms ts lr))" using assms(1) by (auto simp: on_file_def)
  have kind: "lg_kind q = record_type_as_str (lr_kind lr)" and tk: "lg_task q = lr_task lr"
    by (simp_all add: q logged_def as_spilled_def raw_of_def split: option.split)
  have data: "lg_data q = payload_json pc ms (lr_data lr)" if "lr_spill lr = None"
    using that by (simp add: q logged_def as_spilled_def raw_of_def)
  show ?thesis
  proof (cases "lr_task lr = Some task")
    case False
    then show ?thesis by (simp add: scan_record_def tk drains_def pushes_def file_pushed_def)
  next
    case True
    show ?thesis
    proof (cases "lr_data lr")
      case (DSteering i lane body received depth prin workspace)
      then have "lg_kind q = ''steering''" "lg_data q = steering_json (pl_value pc) i lane body received depth prin workspace"
          "pl_value pc prin \<noteq> JNull"
        using assms(2) kind data by (auto simp: well_kinded_def)
      then show ?thesis
        using True DSteering
        by (simp add: scan_record_def tk drains_def pushes_def file_pushed_def steering_json_def json_str_def json_get_object
            recovered_def json_opt_def split: option.split)
    next
      case (DDrained a k m ids)
      have "List.map_filter as_str (map JString xs) = xs" for xs
        by (induction xs) (simp_all add: List.map_filter_def)
      moreover have "lg_kind q = ''steering_drained''" "lg_data q = drained_json a k m ids"
        using assms(2) kind data DDrained by (auto simp: well_kinded_def)
      ultimately show ?thesis
        using True DDrained
        by (simp add: scan_record_def tk drains_def pushes_def file_pushed_def drained_json_def drained_ids_def json_get_object)
    qed (use True assms(2) kind kind_name_eq [of "lr_kind lr" Steering] kind_name_eq [of "lr_kind lr" SteeringDrained] in
        \<open>simp_all add: scan_record_def tk drains_def pushes_def file_pushed_def well_kinded_def\<close>)
  qed
qed

lemma scan_all:
  assumes "list_all2 (on_file pc cd) lrs qs" "list_all (well_kinded pc) lrs"
  shows "\<exists>ps. fold (scan_record task) qs (dr, pushed) = (dr @ concat (map (drains task) lrs), pushed @ ps)
    \<and> file_pushed pc cd task ps (concat (map (pushes pc cd task) lrs))"
  using assms
proof (induction lrs arbitrary: qs dr pushed)
  case Nil
  then show ?case by (simp add: file_pushed_def)
next
  case (Cons lr lrs)
  obtain q qs' where qs: "qs = q # qs'" "on_file pc cd lr q" "list_all2 (on_file pc cd) lrs qs'"
    using Cons.prems(1) by (cases qs) auto
  obtain ps where one: "scan_record task q (dr, pushed) = (dr @ drains task lr, pushed @ ps)"
      "file_pushed pc cd task ps (pushes pc cd task lr)"
    using scan_one [OF qs(2)] Cons.prems(2) by fastforce
  obtain ps' where "fold (scan_record task) qs' (dr @ drains task lr, pushed @ ps)
        = ((dr @ drains task lr) @ concat (map (drains task) lrs), (pushed @ ps) @ ps')"
      "file_pushed pc cd task ps' (concat (map (pushes pc cd task) lrs))"
    using Cons.IH [OF qs(3)] Cons.prems(2) by fastforce
  then show ?case
    using one by (intro exI [of _ "ps @ ps'"]) (simp add: qs(1) file_pushed_def list_all2_appendI)
qed

lemma found_all:
  assumes "file_pushed pc cd task ps us"
  shows "map (recovered (cd_ser cd)) (filter (\<lambda>x. fst x \<notin> D) ps) = map Some (filter (\<lambda>x. us_request_id x \<notin> D) us)"
  using assms unfolding file_pushed_def by (induction rule: list_all2_induct) auto

lemma recovery_exact_core:
  assumes "list_all2 (on_file pc cd) lrs qs" and "list_all (well_kinded pc) lrs"
  shows "scan_records (cd_ser cd) task qs =
    \<lparr>sn_undrained = filter (\<lambda>x. us_request_id x \<notin> set (concat (map (drains task) lrs)))
        (concat (map (pushes pc cd task) lrs)),
     sn_unrecoverable = 0\<rparr>"
proof -
  obtain ps where f: "fold (scan_record task) qs ([], []) = (concat (map (drains task) lrs), ps)"
      and ps: "file_pushed pc cd task ps (concat (map (pushes pc cd task) lrs))"
    using scan_all [OF assms, of task "[]" "[]"] by auto
  have "List.map_filter id (map Some xs) = xs" for xs :: "undrained_msg list"
    by (induction xs) (simp_all add: List.map_filter_def)
  then show ?thesis unfolding scan_records_def f prod.case Let_def found_all [OF ps] by simp
qed


definition demo_push :: "string \<Rightarrow> log_record" where
  "demo_push i = steering_record (\<lambda>p. Some ''p'') ''t'' ''l'' 1 ((demo_msg i)\<lparr>sm_request_id := i\<rparr>)"

definition demo_filed :: "log_record \<Rightarrow> logged_record" where
  "demo_filed lr = logged 1 (as_spilled demo_codec (raw_of plain_payloads 0 '''' lr))"

lemma demo_on_file: "list_all2 (on_file plain_payloads demo_codec) lrs (map demo_filed lrs)"
  by (auto simp: list_all2_conv_all_nth on_file_def demo_filed_def)


lemma drain_logged:
  assumes "ls_inbox (meanwhile en s) = Some ib" "ib_queue ib \<noteq> []" "takes s lrs"
  shows "takes (steering_drain en u s) (lrs @ [record_of u SteeringDrained
      (DDrained ''round_boundary'' (ls_rounds s) (length (ib_queue ib)) (map sm_request_id (ib_queue ib))) None])"
    and "ls_pending (steering_drain en u s) = ls_pending s @ ib_queue ib"
proof -
  let ?s = "meanwhile en s" and ?q = "ib_queue ib"
  let ?s1 = "?s\<lparr>ls_inbox := Some (ib\<lparr>ib_queue := []\<rparr>), ls_steering_bonus := ls_steering_bonus s + STEERING_ROUNDS_BONUS\<rparr>"
  have "takes ?s1 lrs" using assms(3) by (simp add: takes_def loop_frame)
  note rec = log_event_takes [OF this, of u SteeringDrained
    "DDrained ''round_boundary'' (ls_rounds s) (length ?q) (map sm_request_id ?q)"]
  show "takes (steering_drain en u s) (lrs @ [record_of u SteeringDrained
      (DDrained ''round_boundary'' (ls_rounds s) (length ?q) (map sm_request_id ?q)) None])"
    using rec assms(1,2) by (simp add: steering_drain_def drain_all_def Let_def loop_frame) (simp add: takes_def)
  show "ls_pending (steering_drain en u s) = ls_pending s @ ?q"
    using assms(1,2) by (simp add: steering_drain_def drain_all_def Let_def loop_frame)
qed

text \<open>C34: The crash window of an interjection: once the loop has drained a message into the conversation and before a model has answered a request that carries it, the log already counts it as delivered. Should the daemon die then, recovery does not find it, and the record of the drain puts nothing in the rebuilt history: the words are lost.\<close>

theorem drained_but_undelivered_lost:
  assumes "ls_inbox (meanwhile en s) = Some ib" and "m \<in> set (ib_queue ib)" and "takes s lrs"
    and "takes (steering_drain en u s) lrs'" and "su_task_id u = Some task"
    and "list_all2 (on_file pc cd) lrs' qs" and "list_all (well_kinded pc) lrs"
  shows "m \<in> set (ls_pending (steering_drain en u s))
    \<and> sm_request_id m \<notin> us_request_id ` set (sn_undrained (scan_records (cd_ser cd) task qs))
    \<and> rb_rounds (rebuild_step sha read_state d task (List.last qs) b) = rb_rounds b"
proof -
  let ?q = "ib_queue ib"
  let ?lr = "record_of u SteeringDrained (DDrained ''round_boundary'' (ls_rounds s) (length ?q) (map sm_request_id ?q)) None"
  have ne: "?q \<noteq> []" using assms(2) by auto
  note drain = drain_logged [OF assms(1) ne assms(3), of u]
  have lrs': "lrs' = lrs @ [?lr]" by (rule takes_unique [OF assms(4) drain(1)])
  obtain qs1 q where qs: "qs = qs1 @ [q]" "on_file pc cd ?lr q"
    using assms(6) unfolding lrs' by (auto simp: list_all2_append1 list_all2_Cons1)
  have wk: "list_all (well_kinded pc) lrs'" using assms(7) by (simp add: lrs' well_kinded_def record_of_def)
  have "drains task ?lr = map sm_request_id ?q" by (simp add: drains_def record_of_def assms(5))
  then have "sm_request_id m \<in> set (concat (map (drains task) lrs'))" using assms(2) by (auto simp: lrs')
  then have "sm_request_id m \<notin> us_request_id ` set (sn_undrained (scan_records (cd_ser cd) task qs))"
    unfolding recovery_exact_core [OF assms(6) wk] by auto
  moreover have "lg_kind q = ''steering_drained''"
    using qs(2) by (auto simp: on_file_def logged_def as_spilled_def raw_of_def record_of_def)
  then have "rb_rounds (rebuild_step sha read_state d task q b) = rb_rounds b"
    by (simp add: rebuild_step_def note_trim_def Let_def)
  ultimately show ?thesis using assms(2) drain(2) by (simp add: qs(1))
qed

theorem drained_but_undelivered_lost_witness:
  "\<exists>(s :: nat loop_state) lrs'. takes s lrs' \<and> demo_msg ''a'' \<in> set (ls_pending s)
     \<and> ''r'' \<notin> us_request_id ` set (sn_undrained (scan_records (cd_ser demo_codec) ''t'' (map demo_filed lrs')))"
proof -
  let ?u = "demo_setup\<lparr>su_task_id := Some ''t''\<rparr>"
  let ?start = "loop_start demo_env acc_new (Some (inbox_new 4)) (Some Loop_Properties.demo_log) [msg_user ''q''] 0"
  let ?s = "steering_drain demo_env ?u ?start"
  have start: "ls_inbox ?start = Some (inbox_new 4)" "en_others demo_env (ls_world ?start) = [IPush (demo_msg ''a'')]"
    by (simp_all add: loop_start_def demo_env_def)
  obtain tr ib where run: "inbox_run [IPush (demo_msg ''a'')] (inbox_new 4) = (tr, ib)" by fastforce
  then have ib: "ls_inbox (meanwhile demo_env ?start) = Some ib" by (simp add: meanwhile_def start)
  have "ib_queue (snd (inbox_run [IPush (demo_msg ''a'')] (inbox_new 4))) = [demo_msg ''a'']" by code_simp
  then have q: "demo_msg ''a'' \<in> set (ib_queue ib)" using run by simp
  have t: "takes ?start []" by (simp add: takes_def loop_start_def Loop_Properties.demo_log_def)
  have "ib_queue ib \<noteq> []" using q by auto
  then obtain lrs' where t': "takes ?s lrs'" using drain_logged(1) [OF ib _ t] by blast
  have "sm_request_id (demo_msg ''a'') = ''r''" by (simp add: demo_msg_def)
  then have "takes ?s lrs' \<and> demo_msg ''a'' \<in> set (ls_pending ?s)
     \<and> ''r'' \<notin> us_request_id ` set (sn_undrained (scan_records (cd_ser demo_codec) ''t'' (map demo_filed lrs')))"
    using drained_but_undelivered_lost [OF ib q t t' _ demo_on_file, of "''t''"] t' by simp
  then show ?thesis by blast
qed

end
