(* ===== verification/Workspace.thy ===== *)
theory Workspace
  imports Loop_Config
begin

text \<open>
  Where a file tool may read and write (\<open>tools/builtins/helpers/mod.rs\<close>): the check of a path as written, its
  resolution under the working folder for a read and for a write, the rules of a project, the folders made
  on the way. The file system is a tree with links, walked as the system walks it; names are compared as
  written. How the system words an error is an argument.
\<close>

section \<open>The file system\<close>

type_synonym path = "string list"

datatype walk_step = Name string | Up

datatype node = Regular string | Folder | Link bool "walk_step list" | Special

type_synonym files = "path \<rightharpoonup> node"

datatype os_error = NotFound | NotADirectory | IsADirectory | AlreadyExists | TooManyLinks | Denied | OtherError

definition MAX_LINKS :: nat where
  "MAX_LINKS = 40"

text \<open>From a folder along the steps, every link followed.\<close>

function walk :: "files \<Rightarrow> nat \<Rightarrow> path \<Rightarrow> walk_step list \<Rightarrow> (os_error, path) res" where
  "walk fs k cur [] = Ok cur"
| "walk fs k cur (Up # ss) = (if fs cur \<noteq> Some Folder then Err NotADirectory else walk fs k (butlast cur) ss)"
| "walk fs k cur (Name n # ss) =
     (if fs cur \<noteq> Some Folder then Err NotADirectory
      else case fs (cur @ [n]) of
             None \<Rightarrow> Err NotFound
           | Some (Link absolute target) \<Rightarrow>
               (case k of 0 \<Rightarrow> Err TooManyLinks
                | Suc k' \<Rightarrow> walk fs k' (if absolute then [] else cur) (target @ ss))
           | Some _ \<Rightarrow> walk fs k (cur @ [n]) ss)"
  by pat_completeness auto

termination
  by (relation "inv_image (less_than <*lex*> less_than) (\<lambda>(fs, k, cur, ss). (k, length ss))") auto

definition canonicalize :: "files \<Rightarrow> path \<Rightarrow> (os_error, path) res" where
  "canonicalize fs p = walk fs MAX_LINKS [] (map Name p)"

definition metadata :: "files \<Rightarrow> path \<Rightarrow> (os_error, node) res" where
  "metadata fs p = (case canonicalize fs p of
     Err e \<Rightarrow> Err e | Ok q \<Rightarrow> (case fs q of None \<Rightarrow> Err NotFound | Some n \<Rightarrow> Ok n))"

text \<open>The place of an entry: the folder is resolved, the last name is not.\<close>

definition entry_place :: "files \<Rightarrow> path \<Rightarrow> (os_error, path) res" where
  "entry_place fs p =
     (if p = [] then Ok []
      else case canonicalize fs (butlast p) of
             Err e \<Rightarrow> Err e
           | Ok d \<Rightarrow> if fs d = Some Folder then Ok (d @ [List.last p]) else Err NotADirectory)"

definition symlink_metadata :: "files \<Rightarrow> path \<Rightarrow> (os_error, node) res" where
  "symlink_metadata fs p = (case entry_place fs p of
     Err e \<Rightarrow> Err e | Ok q \<Rightarrow> (case fs q of None \<Rightarrow> Err NotFound | Some n \<Rightarrow> Ok n))"

section \<open>Paths as written\<close>

fun split_at :: "char \<Rightarrow> string \<Rightarrow> string \<Rightarrow> string list" where
  "split_at d acc [] = [rev acc]"
| "split_at d acc (c # cs) = (if c = d then rev acc # split_at d [] cs else split_at d (c # acc) cs)"

definition path_names :: "string \<Rightarrow> path" where
  "path_names s = filter (\<lambda>n. n \<noteq> [] \<and> n \<noteq> ''.'') (split_at (CHR ''/'') [] s)"

definition in_quotes :: "string \<Rightarrow> string" where
  "in_quotes s = APOS @ s @ APOS"

definition validate_workspace_path :: "string \<Rightarrow> (string, unit) res" where
  "validate_workspace_path s =
     (if prefix ''/'' s then Err ''Absolute paths are not allowed. Use relative paths within the workspace.''
      else if ''..'' \<in> set (path_names s) then Err (''Path traversal ('' @ in_quotes ''..'' @ '') is not allowed.'')
      else Ok ())"

definition display :: "path \<Rightarrow> string" where
  "display p = ''/'' @ join ''/'' p"

section \<open>The rules of a folder\<close>

datatype folder_rules = ProjectRules | PlainRules

datatype store_access = AccessRead | AccessWrite

definition outside_boundary :: "string \<Rightarrow> string" where
  "outside_boundary rel = ''Path '' @ in_quotes rel @ '' resolves outside the workspace boundary''"

definition has_name :: "string \<Rightarrow> path \<Rightarrow> bool" where
  "has_name name p = (\<exists>n \<in> set p. ascii_lower n = ascii_lower name)"

definition check_rules :: "folder_rules \<Rightarrow> string \<Rightarrow> path \<Rightarrow> path \<Rightarrow> store_access \<Rightarrow> (string, unit) res" where
  "check_rules rules rel resolved home access =
     (if rules = PlainRules then Ok ()
      else if \<not> prefix home resolved then Err (outside_boundary rel)
      else let inside = drop (length home) resolved
           in if has_name ''.openalpaca'' inside
              then Err (in_quotes rel @ '' is refused: a .openalpaca folder inside a project is an older OpenAlpaca''
                     @ APOS @ ''s, and nothing in it is read or written any more.'')
              else if access = AccessWrite \<and> has_name ''.git'' inside
              then Err (''Writing '' @ in_quotes rel @ '' is refused: it is inside the project'' @ APOS
                     @ ''s .git folder, which git keeps. Run git through shell_execute instead.'')
              else Ok ())"

section \<open>Resolution\<close>

definition resolve_workspace_path ::
  "(os_error \<Rightarrow> string) \<Rightarrow> files \<Rightarrow> string \<Rightarrow> path \<Rightarrow> folder_rules \<Rightarrow> (string, path) res" where
  "resolve_workspace_path word fs rel home rules =
     (case validate_workspace_path rel of
        Err e \<Rightarrow> Err e
      | Ok _ \<Rightarrow>
          (case canonicalize fs (home @ path_names rel) of
             Err e \<Rightarrow> Err (''Path resolution failed for '' @ in_quotes rel @ '': '' @ word e)
           | Ok canonical \<Rightarrow>
               (case canonicalize fs home of
                  Err e \<Rightarrow> Err (''Workspace root canonicalization failed: '' @ word e)
                | Ok croot \<Rightarrow>
                    if \<not> prefix croot canonical then Err (outside_boundary rel)
                    else (case check_rules rules rel canonical croot AccessRead of
                            Err e \<Rightarrow> Err e | Ok _ \<Rightarrow> Ok canonical))))"

text \<open>The nearest folder above that is there, a link counting as there.\<close>

function nearest_existing :: "files \<Rightarrow> path \<Rightarrow> (os_error, path) res" where
  "nearest_existing fs p =
     (case symlink_metadata fs p of
        Ok _ \<Rightarrow> Ok p
      | Err e \<Rightarrow> if e = NotFound \<and> p \<noteq> [] then nearest_existing fs (butlast p) else Err e)"
  by pat_completeness auto

termination
  by (relation "measure (\<lambda>(fs, p). length p)") auto

declare nearest_existing.simps [simp del]

definition resolve_workspace_path_for_write ::
  "(os_error \<Rightarrow> string) \<Rightarrow> files \<Rightarrow> string \<Rightarrow> path \<Rightarrow> folder_rules \<Rightarrow> (string, path) res" where
  "resolve_workspace_path_for_write word fs rel home rules =
     (case validate_workspace_path rel of
        Err e \<Rightarrow> Err e
      | Ok _ \<Rightarrow>
          (let full = home @ path_names rel; parent = butlast full
           in if full = [] then Err ''Invalid path: no parent directory''
              else case canonicalize fs home of
                Err e \<Rightarrow> Err (''Workspace root canonicalization failed: '' @ word e)
              | Ok croot \<Rightarrow>
                  (case nearest_existing fs parent of
                     Err e \<Rightarrow> Err (if e = NotFound then ''Invalid path: no existing ancestor''
                                 else ''Parent directory resolution failed for '' @ in_quotes rel @ '': '' @ word e)
                   | Ok existing \<Rightarrow>
                       (case canonicalize fs existing of
                          Err e \<Rightarrow> Err (''Parent directory resolution failed for '' @ in_quotes rel @ '': '' @ word e)
                        | Ok there \<Rightarrow>
                            (let resolved_parent = there @ drop (length existing) parent
                             in if \<not> prefix croot resolved_parent then Err (outside_boundary rel)
                                else let leaf = resolved_parent @ [List.last full]
                                     in case (case symlink_metadata fs leaf of
                                                Ok _ \<Rightarrow> canonicalize fs leaf
                                              | Err e \<Rightarrow> if e = NotFound then Ok leaf else Err e) of
                                          Err e \<Rightarrow> Err (''Path resolution failed for '' @ in_quotes rel @ '': '' @ word e)
                                        | Ok target \<Rightarrow>
                                            if \<not> prefix croot target then Err (outside_boundary rel)
                                            else (case check_rules rules rel target croot AccessWrite of
                                                    Err e \<Rightarrow> Err e | Ok _ \<Rightarrow> Ok target))))))"

section \<open>Where a resolved path is\<close>

definition tree_ok :: "files \<Rightarrow> bool" where
  "tree_ok fs \<longleftrightarrow> fs [] = Some Folder \<and> (\<forall>p n. fs (p @ [n]) \<noteq> None \<longrightarrow> fs p = Some Folder)"

definition is_link :: "node option \<Rightarrow> bool" where
  "is_link x = (case x of Some (Link a t) \<Rightarrow> True | _ \<Rightarrow> False)"

text \<open>A path no entry of which leads elsewhere: what is written at it lands at it.\<close>

definition direct :: "files \<Rightarrow> path \<Rightarrow> bool" where
  "direct fs p = (\<forall>q. prefix q p \<longrightarrow> \<not> is_link (fs q))"

lemma direct_snoc: "direct fs (p @ [n]) \<longleftrightarrow> direct fs p \<and> \<not> is_link (fs (p @ [n]))"
  by (auto simp: direct_def)

lemma direct_butlast: "direct fs p \<Longrightarrow> direct fs (butlast p)"
  by (cases p rule: rev_cases) (simp_all add: direct_snoc)

lemma walk_direct: "direct fs cur \<Longrightarrow> fs cur \<noteq> None \<Longrightarrow> tree_ok fs \<Longrightarrow> walk fs k cur ss = Ok q \<Longrightarrow> direct fs q \<and> fs q \<noteq> None"
proof (induction fs k cur ss rule: walk.induct)
  case (2 fs k cur ss)
  have "fs (butlast cur) \<noteq> None"
    using "2.prems"(2,3) by (cases cur rule: rev_cases) (auto simp: tree_ok_def)
  then show ?case using 2 by (auto simp: direct_butlast split: if_splits)
next
  case (3 fs k cur n ss)
  have "direct fs []" "fs [] \<noteq> None" using "3.prems"(3) by (simp_all add: direct_def tree_ok_def is_link_def)
  then show ?case
    using 3 by (auto simp: direct_snoc is_link_def split: if_splits option.splits node.splits nat.splits)
qed simp

lemma canonical_direct:
  assumes "tree_ok fs" "canonicalize fs p = Ok q"
  shows "direct fs q \<and> fs q \<noteq> None"
  using walk_direct [of fs "[]" MAX_LINKS "map Name p" q] assms
  by (simp add: canonicalize_def tree_ok_def direct_def is_link_def)

lemma direct_prefix: "direct fs p \<Longrightarrow> prefix q p \<Longrightarrow> direct fs q"
  unfolding direct_def using prefix_order.trans by blast

text \<open>Nothing is below what is not there.\<close>

lemma nothing_below: "tree_ok fs \<Longrightarrow> fs p = None \<Longrightarrow> fs (p @ q) = None"
proof (induction q rule: rev_induct)
  case (snoc n q)
  then have "fs ((p @ q) @ [n]) = None"
    unfolding tree_ok_def by (metis node.distinct(1) option.distinct(1))
  then show ?case by simp
qed simp

lemma walk_append_direct:
  assumes "direct fs (cur @ p)" "fs (cur @ p) \<noteq> None" "tree_ok fs"
  shows "walk fs k cur (map Name p) = Ok (cur @ p)"
  using assms(1,2)
proof (induction p arbitrary: cur)
  case (Cons n p)
  have here: "fs (cur @ [n]) \<noteq> None" using nothing_below [OF assms(3), of "cur @ [n]" p] Cons.prems(2) by auto
  then have "fs cur = Some Folder" using assms(3) by (auto simp: tree_ok_def)
  moreover have "\<not> is_link (fs (cur @ [n]))" using Cons.prems(1) by (simp add: direct_def)
  ultimately show ?case using here Cons.IH [of "cur @ [n]"] Cons.prems
    by (auto simp: is_link_def split: option.split node.split)
qed simp

lemma canonicalize_direct: "direct fs p \<Longrightarrow> fs p \<noteq> None \<Longrightarrow> tree_ok fs \<Longrightarrow> canonicalize fs p = Ok p"
  using walk_append_direct [of fs "[]"] by (simp add: canonicalize_def)

lemma direct_extend:
  assumes "tree_ok fs" "direct fs p" "fs (p @ [n]) = None"
  shows "direct fs (p @ n # q)"
  unfolding direct_def
proof (intro allI impI)
  fix x
  assume x: "prefix x (p @ n # q)"
  show "\<not> is_link (fs x)"
  proof (cases "prefix x p")
    case True
    then show ?thesis using assms(2) by (simp add: direct_def)
  next
    case False
    then obtain r where "x = (p @ [n]) @ r"
      using x by (auto simp: prefix_append prefix_Cons)
    then show ?thesis using nothing_below [OF assms(1,3), of r] by (simp add: is_link_def)
  qed
qed

lemma entry_missing:
  assumes "symlink_metadata fs (p @ [n]) = Err NotFound" "canonicalize fs p = Ok d"
  shows "fs (d @ [n]) = None"
  using assms by (auto simp: symlink_metadata_def entry_place_def split: if_splits option.splits sum.splits)

lemma nearest_missing:
  assumes "nearest_existing fs p = Ok e"
  shows "prefix e p \<and> (drop (length e) p = [] \<or>
    (\<exists>m ms. drop (length e) p = m # ms \<and> symlink_metadata fs (e @ [m]) = Err NotFound))"
  using assms
proof (induction fs p rule: nearest_existing.induct)
  case (1 fs p)
  show ?case
  proof (cases "symlink_metadata fs p")
    case (Inr n)
    then show ?thesis using "1.prems" by (subst (asm) nearest_existing.simps) simp
  next
    case (Inl x)
    then have x: "x = NotFound" "p \<noteq> []" and up: "nearest_existing fs (butlast p) = Ok e"
      using "1.prems" by (subst (asm) nearest_existing.simps; simp split: if_splits)+
    have p: "p = butlast p @ [List.last p]" using x(2) by simp
    from "1.IH" [OF Inl _ up] x have ih: "prefix e (butlast p)"
        "drop (length e) (butlast p) = [] \<or>
         (\<exists>m ms. drop (length e) (butlast p) = m # ms \<and> symlink_metadata fs (e @ [m]) = Err NotFound)" by simp_all
    have d: "drop (length e) p = drop (length e) (butlast p) @ [List.last p]"
      using ih(1) p by (metis drop_append prefix_length_le diff_is_0_eq drop0)
    have pre: "prefix e p" using ih(1) p by (metis prefix_append prefixI prefix_order.trans)
    show ?thesis
    proof (cases "drop (length e) (butlast p)")
      case Nil
      obtain zs where "butlast p = e @ zs" using ih(1) by (auto simp: prefix_def)
      then have "e = butlast p" using Nil by simp
      then show ?thesis using d Nil Inl x pre p by simp
    next
      case (Cons m ms)
      then show ?thesis using d ih(2) pre by auto
    qed
  qed
qed

lemma resolved_confined:
  assumes "tree_ok fs"
    and "(if access = AccessWrite then resolve_workspace_path_for_write word fs rel home rules
          else resolve_workspace_path word fs rel home rules) = Ok target"
  shows "\<exists>real. canonicalize fs home = Ok real \<and> prefix real target \<and> direct fs target
    \<and> (rules = ProjectRules \<longrightarrow> \<not> has_name ''.openalpaca'' (drop (length real) target)
        \<and> (access = AccessWrite \<longrightarrow> \<not> has_name ''.git'' (drop (length real) target)))"
proof (cases access)
  case AccessRead
  then obtain real where "canonicalize fs home = Ok real" "prefix real target"
      "canonicalize fs (home @ path_names rel) = Ok target" "check_rules rules rel target real AccessRead = Ok ()"
    using assms(2) by (auto simp: resolve_workspace_path_def split: sum.splits if_splits)
  then show ?thesis
    using canonical_direct [OF assms(1)] AccessRead by (auto simp: check_rules_def Let_def split: if_splits)
next
  case AccessWrite
  let ?full = "home @ path_names rel"
  let ?parent = "butlast ?full"
  obtain real existing there where r: "canonicalize fs home = Ok real" "nearest_existing fs ?parent = Ok existing"
      "canonicalize fs existing = Ok there" and under: "prefix real target"
      and rules: "check_rules rules rel target real AccessWrite = Ok ()"
      and leaf: "(case symlink_metadata fs (there @ drop (length existing) ?parent @ [List.last ?full]) of
          Ok _ \<Rightarrow> canonicalize fs (there @ drop (length existing) ?parent @ [List.last ?full])
        | Err e \<Rightarrow> if e = NotFound then Ok (there @ drop (length existing) ?parent @ [List.last ?full]) else Err e) = Ok target"
    using assms(2) AccessWrite
    by (auto simp: resolve_workspace_path_for_write_def Let_def split: sum.splits if_splits)
  let ?missing = "drop (length existing) ?parent" and ?n = "List.last ?full"
  have there: "direct fs there" "fs there \<noteq> None" using canonical_direct [OF assms(1) r(3)] by simp_all
  have new: "?missing = [] \<or> (\<exists>m ms. ?missing = m # ms \<and> fs (there @ [m]) = None)"
    using nearest_missing [OF r(2)] r(3) entry_missing by fastforce
  have "direct fs target"
  proof (cases "symlink_metadata fs (there @ ?missing @ [?n])")
    case (Inr x)
    then have "canonicalize fs (there @ ?missing @ [?n]) = Ok target" using leaf by simp
    then show ?thesis using canonical_direct [OF assms(1)] by blast
  next
    case (Inl e)
    then have e: "e = NotFound" "target = there @ ?missing @ [?n]" using leaf by (auto split: if_splits)
    show ?thesis
    proof (cases ?missing)
      case Nil
      have "fs (there @ [?n]) = None"
        using entry_missing [of fs there ?n there] canonicalize_direct [OF there assms(1)] Inl e Nil by simp
      then show ?thesis using there(1) e(2) Nil by (simp add: direct_snoc is_link_def)
    next
      case (Cons m ms)
      then have "fs (there @ [m]) = None" using new by auto
      then show ?thesis using direct_extend [OF assms(1) there(1), of m "ms @ [?n]"] e(2) Cons by simp
    qed
  qed
  then show ?thesis using r(1) under rules AccessWrite by (auto simp: check_rules_def Let_def split: if_splits)
qed

text \<open>C36: A file tool stays in its folder. A path the resolver answers, for a read or for a write, lies under the folder's real place, and no entry on it - there now or yet to be made - is a link: what is read or written at the path lands at the path. In a project no part of it is a .openalpaca folder in any letter case, and for a write none is a .git folder.\<close>

theorem resolved_path_confined:
  assumes "tree_ok fs"
    and "(if access = AccessWrite then resolve_workspace_path_for_write word fs rel home rules
          else resolve_workspace_path word fs rel home rules) = Ok target"
  shows "\<exists>real. canonicalize fs home = Ok real \<and> prefix real target \<and> direct fs target
    \<and> (rules = ProjectRules \<longrightarrow> \<not> has_name ''.openalpaca'' (drop (length real) target)
        \<and> (access = AccessWrite \<longrightarrow> \<not> has_name ''.git'' (drop (length real) target)))"
  by (rule resolved_confined [OF assms])

definition demo_files :: files where
  "demo_files = [[] \<mapsto> Folder, [''p''] \<mapsto> Folder, [''p'', ''d''] \<mapsto> Folder, [''p'', ''l''] \<mapsto> Link False [Name ''d''],
     [''p'', ''d'', ''a.md''] \<mapsto> Regular ''old'', [''p'', ''out''] \<mapsto> Link True [], [''s''] \<mapsto> Folder]"

lemma demo_tree_ok: "tree_ok demo_files"
  by (auto simp: tree_ok_def demo_files_def append_eq_Cons_conv)

theorem resolved_path_confined_witness:
  "resolve_workspace_path_for_write (\<lambda>e. ''e'') demo_files ''l/new/x.md'' [''p''] ProjectRules
     = Ok [''p'', ''d'', ''new'', ''x.md'']
   \<and> direct demo_files [''p'', ''d'', ''new'', ''x.md'']"
proof -
  have r: "resolve_workspace_path_for_write (\<lambda>e. ''e'') demo_files ''l/new/x.md'' [''p''] ProjectRules
     = Ok [''p'', ''d'', ''new'', ''x.md'']"
    by code_simp
  then show ?thesis
    using resolved_path_confined [OF demo_tree_ok, of AccessWrite "\<lambda>e. ''e''" "''l/new/x.md''" "[''p'']" ProjectRules] by auto
qed

text \<open>A link out of the folder is refused.\<close>

lemma link_out_refused:
  "resolve_workspace_path_for_write word demo_files ''out/s/x'' [''p''] ProjectRules = Err (outside_boundary ''out/s/x'')"
  by code_simp

end
