(* ===== verification/Working_Folder.thy ===== *)
theory Working_Folder
  imports Workspace Session_Log Working_State
begin

text \<open>
  The working folder of a tool call (\<open>tools/working_folder.rs\<close>): which folder it is, how it is made ready,
  how a conversation's scratch folder is removed, the line that names it. Also the folders the file tools
  make (\<open>store::create_below\<close>, \<open>make_parents_below\<close>). The registry of projects and the home store's place
  are arguments; what the system answers to a change is a list.
\<close>

section \<open>Changing the file system\<close>

text \<open>
  What the system answers to the next change: done, or refused with an error - a write refused after some
  bytes went out. When the list is exhausted it does what it is asked.
\<close>

record file_system =
  dk_files :: files
  dk_answers :: "(os_error \<times> nat) option list"

definition sys :: "'a file_system_scheme \<Rightarrow> (os_error \<times> nat) option \<times> 'a file_system_scheme" where
  "sys s = (case dk_answers s of [] \<Rightarrow> (None, s) | a # rest \<Rightarrow> (a, s\<lparr>dk_answers := rest\<rparr>))"

definition create_dir :: "path \<Rightarrow> 'a file_system_scheme \<Rightarrow> os_error option \<times> 'a file_system_scheme" where
  "create_dir p s =
     (case sys s of
        (Some (e, k), s1) \<Rightarrow> (Some e, s1)
      | (None, s1) \<Rightarrow>
          (case entry_place (dk_files s1) p of
             Err e \<Rightarrow> (Some e, s1)
           | Ok q \<Rightarrow>
               if dk_files s1 q \<noteq> None then (Some AlreadyExists, s1)
               else (None, s1\<lparr>dk_files := (dk_files s1)(q \<mapsto> Folder)\<rparr>)))"

definition is_dir :: "files \<Rightarrow> path \<Rightarrow> bool" where
  "is_dir fs p = (metadata fs p = Ok Folder)"

function create_dir_all :: "path \<Rightarrow> 'a file_system_scheme \<Rightarrow> os_error option \<times> 'a file_system_scheme" where
  "create_dir_all p s =
     (case create_dir p s of
        (None, s1) \<Rightarrow> (None, s1)
      | (Some e, s1) \<Rightarrow>
          if e = NotFound
          then (if p = [] then (Some e, s1)
                else case create_dir_all (butlast p) s1 of
                       (Some e2, s2) \<Rightarrow> (Some e2, s2)
                     | (None, s2) \<Rightarrow>
                         (case create_dir p s2 of
                            (None, s3) \<Rightarrow> (None, s3)
                          | (Some e3, s3) \<Rightarrow> (if is_dir (dk_files s3) p then None else Some e3, s3)))
          else (if is_dir (dk_files s1) p then None else Some e, s1))"
  by pat_completeness auto

termination
  by (relation "measure (\<lambda>(p, s). length p)") auto

declare create_dir_all.simps [simp del]

definition real_directory :: "files \<Rightarrow> path \<Rightarrow> os_error option" where
  "real_directory fs p =
     (case symlink_metadata fs p of Err e \<Rightarrow> Some e | Ok n \<Rightarrow> if n = Folder then None else Some NotADirectory)"

fun create_levels :: "path \<Rightarrow> path \<Rightarrow> 'a file_system_scheme \<Rightarrow> os_error option \<times> 'a file_system_scheme" where
  "create_levels dir [] s = (None, s)"
| "create_levels dir (n # ns) s =
     (case create_dir (dir @ [n]) s of
        (None, s1) \<Rightarrow> create_levels (dir @ [n]) ns s1
      | (Some e, s1) \<Rightarrow>
          if e = AlreadyExists
          then (case real_directory (dk_files s1) (dir @ [n]) of
                  None \<Rightarrow> create_levels (dir @ [n]) ns s1
                | Some e2 \<Rightarrow> (Some e2, s1))
          else (Some e, s1))"

text \<open>Folders below a base, one level at a time; the base itself is never made.\<close>

definition create_below :: "path \<Rightarrow> path \<Rightarrow> 'a file_system_scheme \<Rightarrow> os_error option \<times> 'a file_system_scheme" where
  "create_below base rel s =
     (case real_directory (dk_files s) base of Some e \<Rightarrow> (Some e, s) | None \<Rightarrow> create_levels base rel s)"

definition root_is_missing :: "files \<Rightarrow> path \<Rightarrow> bool" where
  "root_is_missing fs p = (\<not> (is_dir fs p \<and> canonicalize fs p = Ok p))"

section \<open>The folder\<close>

datatype working_folder = ProjectFolder path | ScratchFolder path string

datatype working_folder_refusal =
  NoContext | ProjectMissing string | NotAProject string | NoConversation | Unavailable string

fun folder_path :: "working_folder \<Rightarrow> path" where
  "folder_path (ProjectFolder p) = p"
| "folder_path (ScratchFolder p c) = p"

fun is_project :: "working_folder \<Rightarrow> bool" where
  "is_project (ProjectFolder p) = True"
| "is_project (ScratchFolder p c) = False"

definition rules_of :: "working_folder \<Rightarrow> folder_rules" where
  "rules_of f = (if is_project f then ProjectRules else PlainRules)"

definition not_registered :: "string \<Rightarrow> string" where
  "not_registered p = p @ '' is not a project OpenAlpaca knows: no folder under projects/ records it''"

fun folder_refusal_text :: "working_folder_refusal \<Rightarrow> string" where
  "folder_refusal_text NoContext =
     ''This tool acts in the conversation'' @ APOS @ ''s working folder, and this call carries no ''
     @ ''conversation to name one.''"
| "folder_refusal_text (ProjectMissing p) =
     ''The project folder '' @ p @ '' is missing '' @ EM_DASH @ '' its folder is gone or has moved: re-point ''
     @ ''the project to where its folder is now (Settings '' @ ARROW @ '' Connection '' @ ARROW @ '' Projects ''
     @ ARROW @ '' Re-point'' @ ELLIPSIS @ '', or openalpaca store rebase '' @ p @ '' <new path>), or delete its data ''
     @ ''(Delete data'' @ ELLIPSIS @ '', or openalpaca store purge '' @ p @ ''). No file tool or command runs ''
     @ ''until then.''"
| "folder_refusal_text (NotAProject p) = not_registered p"
| "folder_refusal_text NoConversation =
     ''This call has neither a project nor a conversation, so it has no working ''
     @ ''folder: file tools and commands run only inside a conversation or a project.''"
| "folder_refusal_text (Unavailable reason) = ''The working folder could not be read: '' @ reason"

text \<open>A path as the registry of projects answers it: its root, and whether its folder is gone.\<close>

record project_entry =
  pe_root :: path
  pe_missing :: bool

record folder_ctx =
  fc_workspace_root :: "string option"
  fc_conversation_id :: "string option"
  fc_lookup :: "path \<Rightarrow> (string, project_entry option) res"
  fc_home_root :: "(string, path) res"

definition project_folder :: "(path \<Rightarrow> (string, project_entry option) res) \<Rightarrow> string \<Rightarrow> (working_folder_refusal, working_folder) res" where
  "project_folder lookup given =
     (if \<not> prefix ''/'' given then Err (NotAProject given)
      else case lookup (path_names given) of
             Ok (Some p) \<Rightarrow> if pe_missing p then Err (ProjectMissing (display (pe_root p))) else Ok (ProjectFolder (pe_root p))
           | Ok None \<Rightarrow> Err (NotAProject given)
           | Err e \<Rightarrow> Err (Unavailable e))"

definition safe_dir_name :: "string \<Rightarrow> string" where
  "safe_dir_name session_id =
     (let cleaned = map (\<lambda>ch. case ch of [c] \<Rightarrow> if is_alnum c \<or> c \<in> set ''-_.'' then c else CHR ''_'' | _ \<Rightarrow> CHR ''_'')
                      (chars_of session_id)
      in if \<forall>c \<in> set cleaned. c = CHR ''.'' then ''_unnamed''
         else if cleaned = ''.'' \<or> cleaned = ''..'' then ''_'' @ cleaned
         else cleaned)"

definition scratch_dir :: "folder_ctx \<Rightarrow> string \<Rightarrow> (string, path) res" where
  "scratch_dir ctx conversation_id =
     (case fc_home_root ctx of Err e \<Rightarrow> Err e | Ok home \<Rightarrow> Ok (home @ [''scratch'', safe_dir_name conversation_id]))"

definition not_blank :: "string option \<Rightarrow> string option" where
  "not_blank x = (case x of Some s \<Rightarrow> if is_blank s then None else Some s | None \<Rightarrow> None)"

definition working_folder_of :: "folder_ctx \<Rightarrow> (working_folder_refusal, working_folder) res" where
  "working_folder_of ctx =
     (case not_blank (fc_workspace_root ctx) of
        Some given \<Rightarrow> project_folder (fc_lookup ctx) given
      | None \<Rightarrow>
          (case not_blank (fc_conversation_id ctx) of
             None \<Rightarrow> Err NoConversation
           | Some cid \<Rightarrow>
               (case scratch_dir ctx cid of Err e \<Rightarrow> Err (Unavailable e) | Ok dir \<Rightarrow> Ok (ScratchFolder dir cid))))"

section \<open>Making it ready\<close>

definition own_folder :: "(os_error \<Rightarrow> string) \<Rightarrow> files \<Rightarrow> path \<Rightarrow> string option" where
  "own_folder word fs p =
     (case symlink_metadata fs p of
        Err e \<Rightarrow> Some (display p @ '': '' @ word e)
      | Ok n \<Rightarrow>
          if n = Folder then None
          else Some (display p @ '' is not a folder of its own: a link or a file stands at its name''))"

definition make_private_dir :: "(os_error \<Rightarrow> string) \<Rightarrow> path \<Rightarrow> 'a file_system_scheme \<Rightarrow> string option \<times> 'a file_system_scheme" where
  "make_private_dir word p s =
     (case create_dir p s of
        (None, s1) \<Rightarrow> (own_folder word (dk_files s1) p, s1)
      | (Some e, s1) \<Rightarrow>
          if e = AlreadyExists then (own_folder word (dk_files s1) p, s1)
          else (Some (display p @ '' could not be made: '' @ word e), s1))"

fun ensure ::
  "(os_error \<Rightarrow> string) \<Rightarrow> working_folder \<Rightarrow> 'a file_system_scheme \<Rightarrow> (working_folder_refusal, path) res \<times> 'a file_system_scheme" where
  "ensure word (ProjectFolder home) s =
     ((if root_is_missing (dk_files s) home
       then Err (Unavailable (''the project folder '' @ display home
              @ '' is missing: it is no longer a directory, or it no longer leads to itself''))
       else Ok home), s)"
| "ensure word (ScratchFolder dir c) s =
     (if dir = [] then (Err (Unavailable (display dir @ '' has no parent folder'')), s)
      else let scratch = butlast dir
           in case (if scratch = [] then (None, s) else create_dir_all (butlast scratch) s) of
                (Some e, s1) \<Rightarrow> (Err (Unavailable (display (butlast scratch) @ '': '' @ word e)), s1)
              | (None, s1) \<Rightarrow>
                  (case make_private_dir word scratch s1 of
                     (Some m, s2) \<Rightarrow> (Err (Unavailable m), s2)
                   | (None, s2) \<Rightarrow>
                       (case make_private_dir word dir s2 of
                          (Some m, s3) \<Rightarrow> (Err (Unavailable m), s3)
                        | (None, s3) \<Rightarrow> (Ok dir, s3))))"

section \<open>Removing it\<close>

definition drop_tree :: "files \<Rightarrow> path \<Rightarrow> files" where
  "drop_tree fs q = (\<lambda>p. if prefix q p then None else fs p)"

text \<open>A removal at an entry: the system refuses it whole or does it.\<close>

definition remove_at :: "path \<Rightarrow> 'a file_system_scheme \<Rightarrow> os_error option \<times> 'a file_system_scheme" where
  "remove_at p s =
     (case sys s of
        (Some (e, k), s1) \<Rightarrow> (Some e, s1)
      | (None, s1) \<Rightarrow>
          (case entry_place (dk_files s1) p of
             Err e \<Rightarrow> (Some e, s1)
           | Ok q \<Rightarrow> (None, s1\<lparr>dk_files := drop_tree (dk_files s1) q\<rparr>)))"

definition remove_scratch ::
  "(os_error \<Rightarrow> string) \<Rightarrow> folder_ctx \<Rightarrow> string \<Rightarrow> 'a file_system_scheme \<Rightarrow> (string, bool) res \<times> 'a file_system_scheme" where
  "remove_scratch word ctx conversation_id s =
     (case scratch_dir ctx conversation_id of
        Err e \<Rightarrow> (Err e, s)
      | Ok dir \<Rightarrow>
          (case symlink_metadata (dk_files s) (butlast dir) of
             Err e \<Rightarrow> ((if e = NotFound then Ok False else Err (word e)), s)
           | Ok n \<Rightarrow>
               if n \<noteq> Folder
               then (Err (display (butlast dir)
                     @ '' is not a folder of its own: a link or a file stands at its name''), s)
               else (case symlink_metadata (dk_files s) dir of
                       Err e \<Rightarrow> ((if e = NotFound then Ok False else Err (word e)), s)
                     | Ok m \<Rightarrow>
                         (case remove_at dir s of
                            (None, s1) \<Rightarrow> (Ok True, s1)
                          | (Some e, s1) \<Rightarrow>
                              (Err (word (if is_link (Some m) then NotADirectory else e)), s1)))))"

section \<open>The line that names it\<close>

datatype note_reader = LeadReader | LoopReader

definition FOLDER_FILE_TOOLS :: "string list" where
  "FOLDER_FILE_TOOLS = [''file_read'', ''file_list'', ''file_write'', ''file_edit'', ''send'']"

definition named :: "string list \<Rightarrow> string list \<Rightarrow> string" where
  "named among tools =
     (let names = filter (\<lambda>n. n \<in> set tools) among
      in if names = [] then []
         else if length names = 1 then List.last names
         else join '', '' (butlast names) @ '' and '' @ List.last names)"

definition working_folder_note :: "folder_ctx \<Rightarrow> string list \<Rightarrow> note_reader \<Rightarrow> string option" where
  "working_folder_note ctx tools reader =
     (let shell = ''shell_execute'' \<in> set tools;
          wrap = (\<lambda>line. Some (''<working_folder>'' @ line @ ''</working_folder>''))
      in case working_folder_of ctx of
           Ok (ProjectFolder home) \<Rightarrow>
             (let names = named FOLDER_FILE_TOOLS tools
              in wrap (''Your working folder is the project folder '' @ display home @ ''.''
                   @ (if names \<noteq> []
                      then (if shell then '' Paths in '' @ names @ '' are relative to it, and a shell command starts in it.''
                            else '' Paths in '' @ names @ '' are relative to it.'')
                      else if shell then '' A shell command starts in it.'' else [])
                   @ (if ''file_write'' \<notin> set tools \<and> ''file_edit'' \<notin> set tools
                      then '' You hold no tool that writes a file in the project''
                        @ (case reader of
                             LeadReader \<Rightarrow> '': a file for the project is written by a subagent whose template grants file_write.''
                           | LoopReader \<Rightarrow> ''.'')
                      else [])))
         | Ok (ScratchFolder dir c) \<Rightarrow>
             (let names = named [''file_read'', ''file_list'', ''send''] tools
              in wrap (''This conversation has no project. Your working folder is its scratch folder '' @ display dir
                   @ (if names \<noteq> []
                      then (if shell then '': paths in '' @ names @ '' are relative to it, and a shell command starts in it.''
                            else '': paths in '' @ names @ '' are relative to it.'')
                      else if shell then '': a shell command starts in it.'' else ''.'')
                   @ (if ''file_write'' \<in> set tools
                      then '' file_write saves a by-product in OpenAlpaca'' @ APOS @ ''s artifact store''
                        @ (if names = [] \<and> \<not> shell then ''.'' else '' instead.'')
                      else [])))
         | Err (ProjectMissing p) \<Rightarrow> wrap (folder_refusal_text (ProjectMissing p))
         | Err (NotAProject p) \<Rightarrow> wrap (folder_refusal_text (NotAProject p))
         | Err _ \<Rightarrow> None)"

section \<open>What making a folder leaves\<close>

definition only_new_folders :: "files \<Rightarrow> files \<Rightarrow> bool" where
  "only_new_folders fs fs2 \<longleftrightarrow> (\<forall>p. fs2 p = fs p \<or> (fs p = None \<and> fs2 p = Some Folder))"

lemma only_new_refl [simp]: "only_new_folders fs fs"
  by (simp add: only_new_folders_def)

lemma only_new_trans [trans]: "only_new_folders a b \<Longrightarrow> only_new_folders b c \<Longrightarrow> only_new_folders a c"
  unfolding only_new_folders_def by (metis option.distinct(1))

lemma only_new_keeps: "only_new_folders fs fs2 \<Longrightarrow> fs p = Some n \<Longrightarrow> fs2 p = Some n"
  unfolding only_new_folders_def by (metis option.distinct(1))

lemma only_new_direct: "only_new_folders fs fs2 \<Longrightarrow> direct fs p \<Longrightarrow> direct fs2 p"
proof -
  assume a: "only_new_folders fs fs2" "direct fs p"
  have "\<not> is_link (fs2 q)" if "prefix q p" for q
    using that a by (cases "fs2 q = fs q") (auto simp: only_new_folders_def direct_def is_link_def)
  then show ?thesis by (simp add: direct_def)
qed

lemma walk_kept: "walk fs k cur ss = Ok q \<Longrightarrow> only_new_folders fs fs2 \<Longrightarrow> walk fs2 k cur ss = Ok q"
proof (induction fs k cur ss rule: walk.induct)
  case (2 fs k cur ss)
  then show ?case using only_new_keeps [OF "2.prems"(2), of cur] by (auto split: if_splits)
next
  case (3 fs k cur n ss)
  then show ?case
    using only_new_keeps [OF "3.prems"(2), of cur] only_new_keeps [OF "3.prems"(2), of "cur @ [n]"]
    by (auto split: if_splits option.splits node.splits nat.splits)
qed simp

lemma canonicalize_kept: "canonicalize fs p = Ok q \<Longrightarrow> only_new_folders fs fs2 \<Longrightarrow> canonicalize fs2 p = Ok q"
  unfolding canonicalize_def by (rule walk_kept)

lemma entry_of_kept:
  assumes "entry_place fs p = Ok q" "only_new_folders fs fs2"
  shows "entry_place fs2 p = Ok q"
proof (cases "p = []")
  case False
  then obtain d where d: "canonicalize fs (butlast p) = Ok d" "fs d = Some Folder" "q = d @ [List.last p]"
    using assms(1) by (auto simp: entry_place_def split: sum.splits if_splits)
  show ?thesis using False d(3) canonicalize_kept [OF d(1) assms(2)] only_new_keeps [OF assms(2) d(2)] by (simp add: entry_place_def)
qed (use assms(1) in \<open>simp add: entry_place_def\<close>)

lemma symlink_metadata_kept:
  assumes "symlink_metadata fs p = Ok n" "only_new_folders fs fs2"
  shows "symlink_metadata fs2 p = Ok n"
proof -
  obtain q where q: "entry_place fs p = Ok q" "fs q = Some n"
    using assms(1) by (auto simp: symlink_metadata_def split: sum.splits option.splits)
  show ?thesis using entry_of_kept [OF q(1) assms(2)] only_new_keeps [OF assms(2) q(2)] by (simp add: symlink_metadata_def)
qed

lemma sys_files: "sys s = (a, s1) \<Longrightarrow> dk_files s1 = dk_files s"
  by (auto simp: sys_def split: list.splits)

lemma entry_parent: "entry_place fs p = Ok q \<Longrightarrow> q = [] \<or> (\<exists>d n. q = d @ [n] \<and> fs d = Some Folder)"
  by (auto simp: entry_place_def split: if_splits sum.splits)

lemma tree_put: "tree_ok fs \<Longrightarrow> fs p = Some Folder \<Longrightarrow> fs (p @ [n]) = None \<Longrightarrow> tree_ok (fs(p @ [n] \<mapsto> Folder))"
  unfolding tree_ok_def by (auto simp: append_eq_Cons_conv)

lemma create_dir_made:
  assumes "create_dir p s = (e, s1)" "tree_ok (dk_files s)"
  shows "only_new_folders (dk_files s) (dk_files s1) \<and> tree_ok (dk_files s1)"
proof -
  obtain a s0 where a: "sys s = (a, s0)" by fastforce
  note s0 = sys_files [OF a]
  have same: ?thesis if "dk_files s1 = dk_files s" using that assms(2) by simp
  show ?thesis
  proof (cases "a = None \<and> e = None")
    case False
    then show ?thesis
      using assms(1) a s0 by (intro same) (auto simp: create_dir_def split: option.splits sum.splits if_splits)
  next
    case True
    then obtain q where q: "entry_place (dk_files s) p = Ok q" "dk_files s q = None" "dk_files s1 = (dk_files s)(q \<mapsto> Folder)"
      using assms(1) a s0 by (auto simp: create_dir_def split: option.splits sum.splits if_splits)
    then obtain d n where "q = d @ [n]" "dk_files s d = Some Folder"
      using entry_parent [OF q(1)] assms(2) by (auto simp: tree_ok_def)
    then show ?thesis using q tree_put [OF assms(2)] by (simp add: only_new_folders_def)
  qed
qed

lemma create_dir_all_made:
  "create_dir_all p s = (e, s1) \<Longrightarrow> tree_ok (dk_files s) \<Longrightarrow> only_new_folders (dk_files s) (dk_files s1) \<and> tree_ok (dk_files s1)"
proof (induction p s arbitrary: e s1 rule: create_dir_all.induct)
  case (1 p s)
  obtain a sa where a: "create_dir p s = (a, sa)" by fastforce
  note m = create_dir_made [OF a "1.prems"(2)]
  show ?case
  proof (cases "a = Some NotFound \<and> p \<noteq> []")
    case False
    then have "s1 = sa" using "1.prems"(1) a by (subst (asm) create_dir_all.simps) (auto split: option.splits if_splits)
    then show ?thesis using m by simp
  next
    case True
    obtain b sb where b: "create_dir_all (butlast p) sa = (b, sb)" by fastforce
    obtain c sc where c: "create_dir p sb = (c, sc)" by fastforce
    have mb: "only_new_folders (dk_files sa) (dk_files sb) \<and> tree_ok (dk_files sb)"
      using "1.IH" [OF _ _ refl _ b] True a m by simp
    have "s1 = (case b of None \<Rightarrow> sc | Some _ \<Rightarrow> sb)"
      using "1.prems"(1) a b c True by (subst (asm) create_dir_all.simps) (auto split: option.splits if_splits)
    then show ?thesis
      using m mb create_dir_made [OF c conjunct2 [OF mb]]
        only_new_trans [of "dk_files s" "dk_files sa" "dk_files sb"] only_new_trans [of "dk_files s" "dk_files sb" "dk_files sc"]
      by (cases b) simp_all
  qed
qed

lemma create_levels_made:
  "create_levels d ns s = (e, s1) \<Longrightarrow> tree_ok (dk_files s) \<Longrightarrow> only_new_folders (dk_files s) (dk_files s1) \<and> tree_ok (dk_files s1)"
proof (induction d ns s arbitrary: e s1 rule: create_levels.induct)
  case (2 d n ns s)
  obtain a sa where a: "create_dir (d @ [n]) s = (a, sa)" by fastforce
  note m = create_dir_made [OF a "2.prems"(2)]
  show ?case
  proof (cases "s1 = sa")
    case True
    then show ?thesis using m by simp
  next
    case False
    then have r: "create_levels (d @ [n]) ns sa = (e, s1)"
      using "2.prems"(1) a by (auto split: option.splits if_splits)
    have "only_new_folders (dk_files sa) (dk_files s1) \<and> tree_ok (dk_files s1)"
      using "2.IH" "2.prems"(1) a r m False by (auto split: option.splits if_splits)
    then show ?thesis using m only_new_trans by blast
  qed
qed simp

lemma private_dir_made:
  assumes "make_private_dir word p s = (e, s1)" "tree_ok (dk_files s)"
  shows "only_new_folders (dk_files s) (dk_files s1) \<and> tree_ok (dk_files s1) \<and> (e = None \<longrightarrow> symlink_metadata (dk_files s1) p = Ok Folder)"
proof -
  obtain a sa where a: "create_dir p s = (a, sa)" by fastforce
  have "s1 = sa" using assms(1) a by (auto simp: make_private_dir_def split: option.splits if_splits)
  moreover have "symlink_metadata (dk_files s1) p = Ok Folder" if "e = None"
    using that assms(1) a by (auto simp: make_private_dir_def own_folder_def split: option.splits if_splits sum.splits)
  ultimately show ?thesis using create_dir_made [OF a assms(2)] by simp
qed

lemma ensure_effect:
  assumes "tree_ok (dk_files s)" and "ensure word f s = (ans, s1)"
  shows "only_new_folders (dk_files s) (dk_files s1) \<and> tree_ok (dk_files s1)
    \<and> (\<forall>p. ans = Ok p \<longrightarrow> p = folder_path f
        \<and> (case f of
             ProjectFolder home \<Rightarrow> s1 = s \<and> canonicalize (dk_files s) home = Ok home \<and> dk_files s home = Some Folder
           | ScratchFolder dir c \<Rightarrow> symlink_metadata (dk_files s1) dir = Ok Folder
               \<and> symlink_metadata (dk_files s1) (butlast dir) = Ok Folder))"
proof (cases f)
  case (ProjectFolder home)
  then show ?thesis
    using assms by (auto simp: root_is_missing_def is_dir_def metadata_def split: if_splits sum.splits option.splits)
next
  case (ScratchFolder dir c)
  show ?thesis
  proof (cases "dir = []")
    case True
    then show ?thesis using ScratchFolder assms by auto
  next
    case False
    obtain a sa where a: "(if butlast dir = [] then (None, s) else create_dir_all (butlast (butlast dir)) s) = (a, sa)" by fastforce
    have ma: "only_new_folders (dk_files s) (dk_files sa) \<and> tree_ok (dk_files sa)"
      using a create_dir_all_made [OF _ assms(1)] assms(1) by (auto split: if_splits)
    obtain b sb where b: "make_private_dir word (butlast dir) sa = (b, sb)" by fastforce
    note mb = private_dir_made [OF b conjunct2 [OF ma]]
    obtain x sc where x: "make_private_dir word dir sb = (x, sc)" by fastforce
    have mc: "only_new_folders (dk_files sb) (dk_files sc)" "tree_ok (dk_files sc)"
        "x = None \<Longrightarrow> symlink_metadata (dk_files sc) dir = Ok Folder"
      using private_dir_made [OF x] mb by blast+
    have r: "ensure word f s = (case a of Some e \<Rightarrow> (Err (Unavailable (display (butlast (butlast dir)) @ '': '' @ word e)), sa)
        | None \<Rightarrow> (case b of Some m \<Rightarrow> (Err (Unavailable m), sb)
          | None \<Rightarrow> (case x of Some m \<Rightarrow> (Err (Unavailable m), sc) | None \<Rightarrow> (Ok dir, sc))))"
      using False b x by (cases a) (simp_all add: ScratchFolder Let_def a split: option.split)
    have "s1 = sa \<or> s1 = sb \<or> s1 = sc" using r assms(2) by (auto split: option.splits)
    moreover have "only_new_folders (dk_files s) (dk_files sc)" "only_new_folders (dk_files s) (dk_files sb)"
      using ma mb mc(1) only_new_trans by blast+
    moreover have "p = dir \<and> x = None \<and> b = None \<and> s1 = sc" if "ans = Ok p" for p
      using that r assms(2) by (auto split: option.splits)
    moreover have "symlink_metadata (dk_files sc) (butlast dir) = Ok Folder" if "b = None"
      using that mb mc(1) symlink_metadata_kept by blast
    ultimately show ?thesis using ScratchFolder ma mb mc by auto
  qed
qed

text \<open>A working folder is made ready without touching anything that is there. Whatever the system refuses on the way, making it only adds folders where nothing stood; when it is answered ready, a project's folder is its own real place and nothing was changed, and a scratch folder and the folder that holds it are folders of their own - no link at either name was followed.\<close>

theorem folder_made_ready:
  assumes "tree_ok (dk_files s)" and "ensure word f s = (ans, s1)"
  shows "only_new_folders (dk_files s) (dk_files s1) \<and> tree_ok (dk_files s1)
    \<and> (\<forall>p. ans = Ok p \<longrightarrow> p = folder_path f
        \<and> (case f of
             ProjectFolder home \<Rightarrow> s1 = s \<and> canonicalize (dk_files s) home = Ok home \<and> dk_files s home = Some Folder
           | ScratchFolder dir c \<Rightarrow> symlink_metadata (dk_files s1) dir = Ok Folder
               \<and> symlink_metadata (dk_files s1) (butlast dir) = Ok Folder))"
  by (rule ensure_effect [OF assms])

theorem folder_made_ready_witness:
  "\<exists>s1. ensure (\<lambda>e. ''e'') (ScratchFolder [''s'', ''scratch'', ''c''] ''c'') \<lparr>dk_files = demo_files, dk_answers = []\<rparr>
      = (Ok [''s'', ''scratch'', ''c''], s1)
    \<and> demo_files [''s'', ''scratch''] = None \<and> symlink_metadata (dk_files s1) [''s'', ''scratch'', ''c''] = Ok Folder"
proof -
  let ?run = "ensure (\<lambda>e. ''e'') (ScratchFolder [''s'', ''scratch'', ''c''] ''c'') \<lparr>dk_files = demo_files, dk_answers = []\<rparr>"
  have "fst ?run = Ok [''s'', ''scratch'', ''c'']" by code_simp
  then obtain s1 where s1: "?run = (Ok [''s'', ''scratch'', ''c''], s1)" by (cases ?run) simp
  have "demo_files [''s'', ''scratch''] = None" by (simp add: demo_files_def)
  then show ?thesis
    using s1 folder_made_ready [OF _ s1] demo_tree_ok by simp
qed

section \<open>What a removal leaves\<close>

lemma safe_dir_name_segment:
  "safe_dir_name c \<noteq> [] \<and> safe_dir_name c \<noteq> ''.'' \<and> safe_dir_name c \<noteq> ''..'' \<and> CHR ''/'' \<notin> set (safe_dir_name c)"
proof -
  define cleaned where "cleaned = map (\<lambda>ch. case ch of [c] \<Rightarrow> if is_alnum c \<or> c \<in> set ''-_.'' then c else CHR ''_'' | _ \<Rightarrow> CHR ''_'')
    (chars_of c)"
  have slash: "\<not> is_alnum (CHR ''/'')" by (simp add: is_alnum_def byte_of_def)
  have no_slash: "CHR ''/'' \<notin> set cleaned"
  proof
    assume "CHR ''/'' \<in> set cleaned"
    then obtain ch where "CHR ''/'' = (case ch of [c] \<Rightarrow> if is_alnum c \<or> c \<in> set ''-_.'' then c else CHR ''_'' | _ \<Rightarrow> CHR ''_'')"
      unfolding cleaned_def set_map by (elim imageE) (rule that)
    then show False using slash by (auto split: list.splits if_splits)
  qed
  have n: "safe_dir_name c = (if \<forall>c \<in> set cleaned. c = CHR ''.'' then ''_unnamed''
         else if cleaned = ''.'' \<or> cleaned = ''..'' then ''_'' @ cleaned else cleaned)"
    unfolding safe_dir_name_def cleaned_def Let_def by (rule refl)
  show ?thesis using no_slash unfolding n by auto
qed

lemma walk_snoc:
  "walk fs k cur ss = Ok d \<Longrightarrow> fs d = Some Folder \<Longrightarrow> fs (d @ [n]) = Some x \<Longrightarrow> \<not> is_link (Some x)
    \<Longrightarrow> walk fs k cur (ss @ [Name n]) = Ok (d @ [n])"
proof (induction fs k cur ss rule: walk.induct)
  case (1 fs k cur)
  then show ?case by (auto simp: is_link_def split: node.splits)
next
  case (3 fs k cur m ss)
  then show ?case by (auto split: if_splits option.splits node.splits nat.splits)
qed (auto split: if_splits)

lemma entry_below:
  assumes "symlink_metadata fs (p @ [n]) = Ok Folder"
  obtains real where "canonicalize fs p = Ok real" "fs (real @ [n]) = Some Folder" "entry_place fs (p @ [n, m]) = Ok (real @ [n, m])"
proof -
  obtain real where r: "canonicalize fs p = Ok real" "fs real = Some Folder" "fs (real @ [n]) = Some Folder"
    using assms by (auto simp: symlink_metadata_def entry_place_def split: sum.splits option.splits if_splits)
  then have "canonicalize fs (p @ [n]) = Ok (real @ [n])"
    using walk_snoc [of fs MAX_LINKS "[]" "map Name p" real n Folder] by (simp add: canonicalize_def is_link_def)
  then show ?thesis using that r by (simp add: entry_place_def butlast_append)
qed

text \<open>Removing a conversation's scratch folder stays in it. It changes nothing, or it drops exactly the tree at one entry: the folder named for the conversation - one safe name - in the scratch folder at the home store's real place, when that scratch folder is no link. It answers true only then, and false only when nothing was changed.\<close>

theorem scratch_removal_confined:
  assumes "fc_home_root ctx = Ok home" and "remove_scratch word ctx c s = (ans, s1)"
  shows "(dk_files s1 = dk_files s
      \<or> (\<exists>real. canonicalize (dk_files s) home = Ok real \<and> dk_files s (real @ [''scratch'']) = Some Folder
           \<and> dk_files s1 = drop_tree (dk_files s) (real @ [''scratch'', safe_dir_name c])))
    \<and> (ans = Ok True \<longrightarrow> (\<exists>real. canonicalize (dk_files s) home = Ok real
           \<and> (\<forall>p. prefix (real @ [''scratch'', safe_dir_name c]) p \<longrightarrow> dk_files s1 p = None)))
    \<and> (ans = Ok False \<longrightarrow> s1 = s)
    \<and> safe_dir_name c \<noteq> [] \<and> safe_dir_name c \<noteq> ''.'' \<and> safe_dir_name c \<noteq> ''..'' \<and> CHR ''/'' \<notin> set (safe_dir_name c)"
proof -
  let ?n = "safe_dir_name c" and ?fs = "dk_files s"
  have dir: "scratch_dir ctx c = Ok (home @ [''scratch'', ?n])" "butlast (home @ [''scratch'', ?n]) = home @ [''scratch'']"
    using assms(1) by (simp_all add: scratch_dir_def butlast_append)
  show ?thesis
  proof (cases "symlink_metadata ?fs (home @ [''scratch'']) = Ok Folder \<and> (\<exists>m. symlink_metadata ?fs (home @ [''scratch'', ?n]) = Ok m)")
    case False
    then have "s1 = s \<and> ans \<noteq> Ok True"
      using assms(2) unfolding remove_scratch_def dir sum.case by (auto split: sum.splits if_splits)
    then show ?thesis using safe_dir_name_segment by simp
  next
    case True
    then obtain m where m: "symlink_metadata ?fs (home @ [''scratch'', ?n]) = Ok m" by blast
    obtain real where r: "canonicalize ?fs home = Ok real" "?fs (real @ [''scratch'']) = Some Folder"
        "entry_place ?fs (home @ [''scratch'', ?n]) = Ok (real @ [''scratch'', ?n])"
      using entry_below True by blast
    obtain a s0 where a: "sys s = (a, s0)" by fastforce
    then have s0: "dk_files s0 = ?fs" by (rule sys_files)
    have e: "remove_at (home @ [''scratch'', ?n]) s
        = (case a of None \<Rightarrow> (None, s0\<lparr>dk_files := drop_tree ?fs (real @ [''scratch'', ?n])\<rparr>) | Some (e, k) \<Rightarrow> (Some e, s0))"
      using r(3) by (simp add: remove_at_def a s0 split: option.splits)
    have "(ans, s1) = (case a of None \<Rightarrow> (Ok True, s0\<lparr>dk_files := drop_tree ?fs (real @ [''scratch'', ?n])\<rparr>)
        | Some (e, k) \<Rightarrow> (Err (word (if is_link (Some m) then NotADirectory else e)), s0))"
      using assms(2) True m unfolding remove_scratch_def dir sum.case e by (cases a) (auto split: prod.splits)
    then show ?thesis using r s0 safe_dir_name_segment by (auto simp: drop_tree_def split: option.splits)
  qed
qed

theorem scratch_removal_confined_witness:
  "\<exists>s1 :: file_system. remove_scratch (\<lambda>e. ''e'') \<lparr>fc_workspace_root = None, fc_conversation_id = None, fc_lookup = (\<lambda>p. Ok None), fc_home_root = Ok [''s'']\<rparr> ''c/1''
       \<lparr>dk_files = demo_files([''s'', ''scratch''] \<mapsto> Folder, [''s'', ''scratch'', ''c_1''] \<mapsto> Folder), dk_answers = []\<rparr> = (Ok True, s1)
    \<and> dk_files s1 [''s'', ''scratch'', ''c_1''] = None"
proof -
  let ?ctx = "\<lparr>fc_workspace_root = None, fc_conversation_id = None, fc_lookup = (\<lambda>p. Ok None), fc_home_root = Ok [''s'']\<rparr>"
  let ?s = "\<lparr>dk_files = demo_files([''s'', ''scratch''] \<mapsto> Folder, [''s'', ''scratch'', ''c_1''] \<mapsto> Folder), dk_answers = []\<rparr>"
  let ?run = "remove_scratch (\<lambda>e. ''e'') ?ctx ''c/1'' ?s"
  have "fst ?run = Ok True" by code_simp
  then obtain s1 :: file_system where s1: "?run = (Ok True, s1)" by (cases ?run) simp
  have n: "safe_dir_name ''c/1'' = ''c_1''" by code_simp
  have "canonicalize (dk_files ?s) [''s''] = Ok [''s'']" by code_simp
  then show ?thesis
    using scratch_removal_confined [of ?ctx "[''s'']", OF _ s1] by (auto simp: n s1)
qed

end
