(* ===== verification/Pre_Edit.thy ===== *)
theory Pre_Edit
  imports Session_Durability Working_Folder
begin

text \<open>
  The copy taken before a file tool replaces a file of the project (\<open>tools/builtins/pre_edit.rs\<close>), kept
  by the writer of the conversation's log: when it may be taken, and that it stays.
\<close>

section \<open>What a copy leaves in the log\<close>

definition session_bytes :: "session_dir \<Rightarrow> nat" where
  "session_bytes d = files_bytes (sd_files d) + files_bytes (sd_results d) + files_bytes (sd_snapshots d)"

lemma files_bytes_put: "files_bytes (put_file n c fs) + length (unwrap_or (map_of fs n) '''') = files_bytes fs + length c"
  by (induction fs) (auto simp: files_bytes_def unwrap_or_def)

lemma files_bytes_drop: "files_bytes (drop_file n fs) + length (unwrap_or (map_of fs n) '''') \<le> files_bytes fs"
proof (induction fs)
  case (Cons f fs)
  have "files_bytes (drop_file n fs) \<le> files_bytes fs"
    by (induction fs) (auto simp: files_bytes_def drop_file_def)
  then show ?case using Cons by (cases f) (auto simp: files_bytes_def drop_file_def unwrap_or_def)
qed (simp add: files_bytes_def drop_file_def unwrap_or_def)

lemma files_bytes_put_le: "files_bytes (put_file n c fs) \<le> files_bytes fs + length c"
  using files_bytes_put [of n c fs] by simp

lemma put_get: "map_of (put_file n c fs) m = (if m = n then Some c else map_of fs m)"
  by (induction fs) auto

lemma no_trim: "session_bytes d \<le> cap \<Longrightarrow> enforce_session_cap parse cap d = (None, d)"
  by (simp add: enforce_session_cap_def session_bytes_def Let_def)

lemma rotate_fits:
  assumes "session_bytes (wr_dir w) \<le> lm_max_session_bytes lm"
  obtains w' where "rotate_if_needed cd lm w = (None, w')" "wr_wrote w' = wr_wrote w"
    "sd_snapshots (wr_dir w') = sd_snapshots (wr_dir w)"
proof (cases "wr_log w")
  case (Some ol)
  show ?thesis
  proof (cases "ol_bytes ol < lm_rotate_bytes lm")
    case False
    let ?d = "wr_dir w" and ?final = "ol_next ol - 1"
    let ?n = "segment_name (unwrap_or (ol_first ol) ?final) ?final"
    let ?fs = "put_file LIVE_SEGMENT '''' (put_file ?n (live_text ?d) (drop_file LIVE_SEGMENT (sd_files ?d)))"
    have "files_bytes ?fs \<le> files_bytes (sd_files ?d)"
      using files_bytes_put_le [of LIVE_SEGMENT "''''"] files_bytes_put_le [of ?n "live_text ?d"]
        files_bytes_drop [of LIVE_SEGMENT "sd_files ?d"]
      by (fastforce simp: live_text_def intro: le_trans)
    then have "session_bytes (?d\<lparr>sd_files := ?fs\<rparr>) \<le> lm_max_session_bytes lm"
      using assms by (simp add: session_bytes_def)
    from no_trim [OF this, of "cd_parse cd"] show ?thesis
      using False Some that by (simp add: rotate_if_needed_def Let_def)
  qed (use Some that in \<open>simp add: rotate_if_needed_def\<close>)
qed (use that in \<open>simp add: rotate_if_needed_def\<close>)

lemma index_leaves: "wr_dir (index_tool_call cd r n w) = wr_dir w \<and> wr_wrote (index_tool_call cd r n w) = wr_wrote w"
  by (simp add: index_tool_call_def split: option.split prod.split)

text \<open>What a write appends: its own record first, whatever is trimmed for it.\<close>

lemma write_record_appends:
  assumes "prepared cd r w = (r1, w)" "log_write cd r1 w = (Some n, w2)"
  shows "\<exists>w'. write_record cd lm now r w = (Some n, w')
    \<and> prefix (wr_wrote w2) (wr_wrote w')"
proof -
  let ?w3 = "index_tool_call cd r1 n (w2\<lparr>wr_written_seq := max (wr_written_seq w2) n\<rparr>)"
  obtain t w4 where after: "after_write cd lm (rc_spill r \<noteq> None \<or> rc_kind r = FileSnapshot) ?w3 = (t, w4)" by fastforce
  have keeps: "\<exists>xs. wr_wrote v' = wr_wrote v @ xs" if "log_write cd x v = (y, v')" for x v y v'
    using that by (auto simp: log_write_def append_line_def Let_def ask_def split: option.splits if_splits list.splits prod.splits)
  have wrote4: "wr_wrote w4 = wr_wrote ?w3"
    using after by (auto simp: after_write_def enforce_cap_now_def rotate_if_needed_def Let_def split: if_splits prod.splits option.splits)
  have w': "write_record cd lm now r w = (Some n, case t of None \<Rightarrow> w4 | Some x \<Rightarrow> snd (log_write cd (trim_notice now x) w4))"
    using after assms by (simp add: write_record_def Let_def split: option.split)
  have "prefix (wr_wrote w4) (wr_wrote (snd (log_write cd x w4)))" for x
    using keeps [of x w4] by (metis prefixI prod.collapse)
  then show ?thesis using w' wrote4 by (auto simp: index_leaves split: option.split)
qed

text \<open>A record with no spill of its own, appended to a session that stays within its cap.\<close>

lemma write_record_fits:
  assumes "write_record cd lm now r w = (Some n, w')" "rc_spill r = None"
    and "session_bytes (wr_dir w) + length (line_of cd (wr_wrote w' ! length (wr_wrote w))) \<le> lm_max_session_bytes lm"
  shows "\<exists>ol r1. wr_log w = Some ol \<and> n = ol_next ol \<and> rc_kind r1 = rc_kind r \<and> wr_wrote w' = wr_wrote w @ [logged n r1]
    \<and> sd_snapshots (wr_dir w') = sd_snapshots (wr_dir w)"
proof -
  obtain r1 where p: "prepared cd r w = (r1, w)" "rc_kind r1 = rc_kind r"
    using assms(2) by (simp add: prepared_def spill_result_def stamp_boundary_def Let_def)
  obtain w2 where l: "log_write cd r1 w = (Some n, w2)"
    using assms(1) by (auto simp: write_record_def p Let_def split: prod.splits option.splits)
  obtain a w1 where a: "ask w = (a, w1)" by fastforce
  obtain ol where ol: "wr_log w = Some ol" "n = ol_next ol" and w2: "w2 = append_line cd r1 ol w1"
    using l a by (auto simp: log_write_def split: option.splits if_splits)
  have w1: "wr_dir w1 = wr_dir w" "wr_wrote w1 = wr_wrote w" using a by (auto simp: ask_def split: list.splits)
  let ?line = "line_of cd (logged n r1)"
  let ?w3 = "index_tool_call cd r1 n (w2\<lparr>wr_written_seq := max (wr_written_seq w2) n\<rparr>)"
  have w3: "wr_dir ?w3 = (wr_dir w)\<lparr>sd_files := put_file LIVE_SEGMENT (live_text (wr_dir w) @ ?line) (sd_files (wr_dir w))\<rparr>"
      "wr_wrote ?w3 = wr_wrote w @ [logged n r1]"
    by (simp_all add: index_leaves w2 append_line_def Let_def w1 ol(2))
  obtain t w4 where after: "after_write cd lm (rc_spill r \<noteq> None \<or> rc_kind r = FileSnapshot) ?w3 = (t, w4)" by fastforce
  have w': "w' = (case t of None \<Rightarrow> w4 | Some x \<Rightarrow> snd (log_write cd (trim_notice now x) w4))"
    using assms(1) l p after by (auto simp: write_record_def Let_def split: option.splits)
  have keeps: "\<exists>xs. wr_wrote v' = wr_wrote v @ xs" if "log_write cd x v = (y, v')" for x v y v'
    using that by (auto simp: log_write_def append_line_def Let_def ask_def split: option.splits if_splits list.splits prod.splits)
  have wrote4: "wr_wrote w4 = wr_wrote ?w3"
    using after by (auto simp: after_write_def enforce_cap_now_def rotate_if_needed_def Let_def split: if_splits prod.splits option.splits)
  obtain xs where "wr_wrote w' = (wr_wrote w @ [logged n r1]) @ xs"
  proof (cases t)
    case (Some x)
    obtain y v' where "log_write cd (trim_notice now x) w4 = (y, v')" by fastforce
    from keeps [OF this] this show ?thesis using that w' Some wrote4 w3(2) by auto
  qed (use that [of "[]"] w' wrote4 w3(2) in simp)
  then have "wr_wrote w' ! length (wr_wrote w) = logged n r1" by simp
  then have "session_bytes (wr_dir w) + length ?line \<le> lm_max_session_bytes lm" using assms(3) by simp
  moreover have "session_bytes (wr_dir ?w3) = session_bytes (wr_dir w) + length ?line"
    using files_bytes_put [of LIVE_SEGMENT "live_text (wr_dir w) @ ?line" "sd_files (wr_dir w)"]
    by (simp add: w3(1) session_bytes_def live_text_def)
  ultimately have fits: "session_bytes (wr_dir ?w3) \<le> lm_max_session_bytes lm" by simp
  have cap: "enforce_cap_now cd lm ?w3 = (None, ?w3)"
    using no_trim [OF fits] by (simp add: enforce_cap_now_def)
  obtain w5 where rot: "rotate_if_needed cd lm ?w3 = (None, w5)" "wr_wrote w5 = wr_wrote ?w3"
      "sd_snapshots (wr_dir w5) = sd_snapshots (wr_dir ?w3)" using rotate_fits [OF fits] by blast
  have "t = None \<and> w4 = w5" using after cap rot(1) by (auto simp: after_write_def split: if_splits)
  then show ?thesis using w' rot(2,3) w3 ol p(2) by auto
qed

lemma kept_shrinks:
  "(if a then Kept [] None else if b then Kept (take x content) y else if e then Kept [] None else MovedAside) = Kept c n
     \<Longrightarrow> length c \<le> length content"
  by (cases a; cases b; cases e) auto

lemma repair_shrinks: "repair_tail parse content = Kept c n \<Longrightarrow> length c \<le> length content"
  unfolding repair_tail_def Let_def by (rule kept_shrinks)

lemma open_shrinks:
  assumes "open_segment parse aside d = (Some ol, d')"
  shows "session_bytes d' \<le> session_bytes d \<and> sd_snapshots d' = sd_snapshots d"
proof (cases "map_of (sd_files d) LIVE_SEGMENT")
  case None
  then show ?thesis
    using assms files_bytes_put [of LIVE_SEGMENT "''''" "sd_files d"]
    by (auto simp: open_segment_def session_bytes_def unwrap_or_def)
next
  case (Some content)
  obtain c n where c: "repair_tail parse content = Kept c n" and d': "d' = d\<lparr>sd_files := put_file LIVE_SEGMENT c (sd_files d)\<rparr>"
    using assms Some by (auto simp: open_segment_def Let_def split: tail_repair.splits if_splits)
  then show ?thesis
    using repair_shrinks [OF c] files_bytes_put [of LIVE_SEGMENT c "sd_files d"] Some
    by (simp add: session_bytes_def unwrap_or_def)
qed

lemma ensure_shrinks:
  assumes "ensure_log cd aside w = (True, w1)"
  shows "session_bytes (wr_dir w1) \<le> session_bytes (wr_dir w) \<and> sd_snapshots (wr_dir w1) = sd_snapshots (wr_dir w)
    \<and> wr_wrote w1 = wr_wrote w"
proof (cases "wr_log w = None")
  case True
  then obtain ol d where "open_segment (cd_parse cd) aside (wr_dir w) = (Some ol, d)" "wr_dir w1 = d" "wr_wrote w1 = wr_wrote w"
    using assms by (auto simp: ensure_log_def split: if_splits prod.splits option.splits)
  then show ?thesis using open_shrinks by simp
qed (use assms in \<open>auto simp: ensure_log_def split: if_splits\<close>)

text \<open>An image the writer answered for: its bytes are there under its record's number.\<close>

lemma snapshot_kept:
  assumes "process cd lm now aside [MSnapshot spec] w = ([Some (rel, n, len, sha)], closing, w')"
    and "ss_source spec = Some bytes"
    and "session_bytes (wr_dir w) + length bytes + length (line_of cd (wr_wrote w' ! length (wr_wrote w)))
           \<le> lm_max_session_bytes lm"
  shows "map_of (sd_snapshots (wr_dir w')) (snapshot_file n (ss_path spec)) = Some bytes
    \<and> (\<exists>r. wr_wrote w' = wr_wrote w @ [r] \<and> lg_seq r = n \<and> lg_kind r = ''file_snapshot'')"
proof -
  obtain ready w1 where en: "ensure_log cd aside w = (ready, w1)" by fastforce
  then have ready: ready and taken: "take_snapshot cd lm now spec w1 = (Some (rel, n, len, sha), w')"
    using assms(1) by (auto split: prod.splits if_splits)
  have w1: "session_bytes (wr_dir w1) \<le> session_bytes (wr_dir w)" "wr_wrote w1 = wr_wrote w"
    using ensure_shrinks en ready by simp_all
  obtain ol where ol: "wr_log w1 = Some ol" using taken by (auto simp: take_snapshot_def split: option.splits)
  let ?name = "snapshot_file (ol_next ol) (ss_path spec)"
  obtain b w2 where copy: "write_snapshot_file ?name (ss_source spec) w1 = (b, w2)" by fastforce
  then have b: "b = Some bytes" and rec: "write_record cd lm now (snapshot_record cd now spec (ol_next ol) bytes) w2 = (Some n, w')"
    using taken assms(2)
    by (auto simp: take_snapshot_def ol Let_def write_snapshot_file_def split: if_splits option.splits prod.splits)
  have none: "map_of (sd_snapshots (wr_dir w1)) ?name = None"
      and w2: "wr_dir w2 = (wr_dir w1)\<lparr>sd_snapshots := put_file ?name bytes (sd_snapshots (wr_dir w1))\<rparr>"
      "wr_wrote w2 = wr_wrote w1" "wr_log w2 = Some ol"
    using copy b ol assms(2)
    by (auto simp: write_snapshot_file_def Let_def ask_def split: if_splits prod.splits list.splits)
  have "session_bytes (wr_dir w2) = session_bytes (wr_dir w1) + length bytes"
    using files_bytes_put [of ?name bytes "sd_snapshots (wr_dir w1)"] none
    by (simp add: w2(1) session_bytes_def unwrap_or_def)
  then have "session_bytes (wr_dir w2) + length (line_of cd (wr_wrote w' ! length (wr_wrote w2))) \<le> lm_max_session_bytes lm"
    using assms(3) w1 w2(2) by simp
  moreover have "rc_spill (snapshot_record cd now spec (ol_next ol) bytes) = None" "rc_kind (snapshot_record cd now spec (ol_next ol) bytes) = FileSnapshot"
    by (simp_all add: snapshot_record_def)
  ultimately obtain r1 where "n = ol_next ol" "rc_kind r1 = FileSnapshot" "wr_wrote w' = wr_wrote w2 @ [logged n r1]"
      "sd_snapshots (wr_dir w') = sd_snapshots (wr_dir w2)"
    using write_record_fits [OF rec] w2(3) by auto
  then show ?thesis using w2 w1(2) by (simp add: put_get logged_def)
qed

section \<open>The copy\<close>

datatype edit_verb = Overwrite | EditVerb

fun verb_word :: "edit_verb \<Rightarrow> string" where
  "verb_word Overwrite = ''overwrite''"
| "verb_word EditVerb = ''edit''"

datatype pre_edit = NewFile | KeptCopy

text \<open>
  The log of the conversation a call belongs to: a writer that takes messages (the handle's own or one it
  reopened), or none that can be reached.
\<close>

datatype log_handle = LogLive writer | LogGone

record project = file_system +
  pj_log :: "log_handle option"

text \<open>What a call runs in; how errors are worded, what the log answers when it takes no copy, and the hashes of the log are arguments.\<close>

record tool_env =
  te_word :: "os_error \<Rightarrow> string"
  te_codec :: codec
  te_limits :: session_log_limits
  te_now :: string
  te_aside :: string
  te_no_copy :: string
  te_store :: "path option"
  te_snapshot_max :: nat
  te_task_id :: "string option"
  te_agent_name :: "string option"

definition check_pre_edit ::
  "string \<Rightarrow> path \<Rightarrow> files \<Rightarrow> bool \<Rightarrow> nat \<Rightarrow> edit_verb \<Rightarrow> (string, bool) res" where
  "check_pre_edit path target fs has_log cap verb =
     (case metadata fs target of
        Ok (Regular old) \<Rightarrow>
          if \<not> has_log
          then Err (''Refusing to '' @ verb_word verb @ '' '' @ in_quotes path @ '': it already exists, and no copy of its ''
             @ ''current content can be kept here '' @ EM_DASH @ '' a skill or a plugin agent keeps no conversation ''
             @ ''log. The file is unchanged. Write the result to a new file, or ask for the change in the ''
             @ ''conversation itself.'')
          else if cap < length old
          then Err (''Refusing to '' @ verb_word verb @ '' '' @ in_quotes path @ '': it is '' @ show_nat (length old)
             @ '' bytes, above the '' @ show_nat cap @ '' byte [orchestrator.sessions] snapshot_max_bytes limit, ''
             @ ''so no pre-edit snapshot can be kept for it. The file is unchanged. Raise snapshot_max_bytes, or ''
             @ ''copy the file aside yourself first.'')
          else Ok True
      | _ \<Rightarrow> Ok False)"

definition is_snapshotable :: "files \<Rightarrow> path \<Rightarrow> path \<Rightarrow> path option \<Rightarrow> bool" where
  "is_snapshotable fs target home store =
     (case canonicalize fs home of
        Err e \<Rightarrow> False
      | Ok there \<Rightarrow>
          prefix there target \<and> (case store of None \<Rightarrow> True | Some st \<Rightarrow> \<not> prefix st target))"

definition log_snapshot :: "'e tool_env_scheme \<Rightarrow> snapshot_spec \<Rightarrow> log_handle \<Rightarrow> (string, string \<times> nat \<times> nat \<times> string) res \<times> log_handle" where
  "log_snapshot en spec h =
     (case h of
        LogGone \<Rightarrow> (Err (te_no_copy en), h)
      | LogLive w \<Rightarrow>
          (case process (te_codec en) (te_limits en) (te_now en) (te_aside en) [MSnapshot spec] w of
             (acks, closing, w') \<Rightarrow>
               ((case acks of [Some img] \<Rightarrow> Ok img | _ \<Rightarrow> Err (te_no_copy en)), LogLive w')))"

definition copy_failed :: "edit_verb \<Rightarrow> string \<Rightarrow> string \<Rightarrow> string" where
  "copy_failed verb path why =
     ''Refusing to '' @ verb_word verb @ '' '' @ in_quotes path @ '': its pre-edit snapshot could not be taken (''
     @ why @ ''). The file is unchanged.''"

definition keep_pre_edit_copy ::
  "'e tool_env_scheme \<Rightarrow> string \<Rightarrow> path \<Rightarrow> path \<Rightarrow> edit_verb \<Rightarrow> project \<Rightarrow> (string, pre_edit) res \<times> project" where
  "keep_pre_edit_copy en path target home verb s =
     (let fs = dk_files s
      in case check_pre_edit path target fs (pj_log s \<noteq> None) (te_snapshot_max en) verb of
           Err e \<Rightarrow> (Err e, s)
         | Ok False \<Rightarrow> (Ok NewFile, s)
         | Ok True \<Rightarrow>
             (case canonicalize fs target of
                Err e \<Rightarrow> (Err (copy_failed verb path (te_word en e)), s)
              | Ok source \<Rightarrow>
                  if \<not> is_snapshotable fs source home (te_store en)
                  then (Err (copy_failed verb path ''it is not a file inside the project folder''), s)
                  else case pj_log s of
                         None \<Rightarrow> (Err (copy_failed verb path ''this call has no conversation log''), s)
                       | Some h \<Rightarrow>
                           (case log_snapshot en
                                \<lparr>ss_path = path,
                                 ss_source = (case fs source of Some (Regular c) \<Rightarrow> Some c | _ \<Rightarrow> None),
                                 ss_task = te_task_id en, ss_span = None, ss_agent = te_agent_name en\<rparr> h of
                              (ans, h') \<Rightarrow>
                                ((case ans of Err e \<Rightarrow> Err (copy_failed verb path e) | Ok _ \<Rightarrow> Ok KeptCopy),
                                 s\<lparr>pj_log := Some h'\<rparr>))))"

end
