(* ===== verification/File_Edit.thy ===== *)
theory File_Edit
  imports Loop_Config
begin

text \<open>
  The match of \<open>file_edit\<close> (\<open>apply_edit\<close> in \<open>tools/builtins/file_ops.rs\<close>): finding the text to replace,
  replacing it once or everywhere, and line endings. Texts are their bytes.
\<close>

section \<open>Searching\<close>

fun str_find :: "string \<Rightarrow> string \<Rightarrow> nat option" where
  "str_find p [] = (if p = [] then Some 0 else None)"
| "str_find p (c # cs) = (if prefix p (c # cs) then Some 0 else map_option Suc (str_find p cs))"

lemma str_find_Some:
  "str_find p s = Some i \<Longrightarrow> s = take i s @ p @ drop (i + length p) s \<and> \<not> (\<exists>j < i. prefix p (drop j s))"
proof (induction s arbitrary: i)
  case (Cons c s)
  show ?case
  proof (cases "prefix p (c # s)")
    case True
    then show ?thesis using Cons.prems by (auto simp: prefix_def)
  next
    case False
    then obtain k where k: "str_find p s = Some k" "i = Suc k" using Cons.prems by auto
    have "\<not> prefix p (drop j (c # s))" if "j < i" for j
      using that False Cons.IH [OF k(1)] k(2) by (cases j) auto
    then show ?thesis using Cons.IH [OF k(1)] k(2) by auto
  qed
qed (auto split: if_splits)

lemma str_find_None: "str_find p s = None \<longleftrightarrow> \<not> sublist p s"
proof (induction s)
  case (Cons c s)
  then show ?case by (auto simp: sublist_Cons_right)
qed auto

lemma str_find_length: "str_find p s = Some i \<Longrightarrow> i + length p \<le> length s"
  by (induction s arbitrary: i) (auto split: if_splits dest: prefix_length_le)

text \<open>What lies between the matches of a text that is not empty, from the left and without overlap.\<close>

function pieces :: "string \<Rightarrow> string \<Rightarrow> string list" where
  "pieces p s =
     (case (if p = [] then None else str_find p s) of
        None \<Rightarrow> [s]
      | Some i \<Rightarrow> take i s # pieces p (drop (i + length p) s))"
  by pat_completeness auto

termination
  by (relation "measure (\<lambda>(p, s). length s)") (auto dest!: str_find_length split: if_splits simp: length_greater_0_conv [symmetric]
      simp del: length_greater_0_conv)

declare pieces.simps [simp del]

section \<open>Line endings\<close>

definition CR :: char where
  "CR = CHR 0x0D"

definition LF :: char where
  "LF = CHR 0x0A"

fun crlf_from :: "bool \<Rightarrow> string \<Rightarrow> string" where
  "crlf_from after_cr [] = []"
| "crlf_from after_cr (c # cs) = (if c = LF \<and> \<not> after_cr then [CR] else []) @ c # crlf_from (c = CR) cs"

definition lf_to_crlf :: "string \<Rightarrow> string" where
  "lf_to_crlf s = crlf_from False s"

fun lone_lf_from :: "bool \<Rightarrow> string \<Rightarrow> bool" where
  "lone_lf_from after_cr [] = False"
| "lone_lf_from after_cr (c # cs) = ((c = LF \<and> \<not> after_cr) \<or> lone_lf_from (c = CR) cs)"

definition has_lone_lf :: "string \<Rightarrow> bool" where
  "has_lone_lf s = lone_lf_from False s"

section \<open>The edit\<close>

record edited =
  ed_text :: string
  ed_replacements :: nat
  ed_first_line :: nat

definition EDIT_EMPTY_OLD :: string where
  "EDIT_EMPTY_OLD = ''old_string is empty. Give the exact text to replace; to create a file, use file_write.''"

definition EDIT_IDENTICAL :: string where
  "EDIT_IDENTICAL = ''old_string and new_string are the same, so there is nothing to change.''"

definition edit_not_found :: "string \<Rightarrow> string" where
  "edit_not_found path =
     ''old_string was not found in '' @ APOS @ path @ APOS @ ''. Read the file with file_read and copy the ''
     @ ''exact text, whitespace and line breaks included.''"

definition edit_ambiguous :: "string \<Rightarrow> nat \<Rightarrow> string" where
  "edit_ambiguous path n =
     ''old_string occurs '' @ show_nat n @ '' times in '' @ APOS @ path @ APOS @ ''. Give more of the surrounding ''
     @ ''text so it occurs once, or set replace_all to true to change every one.''"

text \<open>Whether the line breaks of both strings are written as two characters.\<close>

definition crlf_edit :: "string \<Rightarrow> string \<Rightarrow> bool" where
  "crlf_edit s old =
     ((\<not> str_contains s old \<and> str_contains s [CR, LF] \<and> str_contains old [LF] \<and> \<not> str_contains old [CR, LF])
      \<or> (str_contains s [CR, LF] \<and> \<not> has_lone_lf s))"

definition edit_string :: "string \<Rightarrow> string \<Rightarrow> string \<Rightarrow> string" where
  "edit_string s old_string x = (if crlf_edit s old_string then lf_to_crlf x else x)"

definition apply_edit :: "string \<Rightarrow> string \<Rightarrow> string \<Rightarrow> string \<Rightarrow> bool \<Rightarrow> (string, edited) res" where
  "apply_edit path s old_string new_string replace_all =
     (if old_string = [] then Err EDIT_EMPTY_OLD
      else let old = edit_string s old_string old_string;
               new = edit_string s old_string new_string
           in if old = new then Err EDIT_IDENTICAL
              else case str_find old s of
                     None \<Rightarrow> Err (edit_not_found path)
                   | Some first \<Rightarrow>
                       (let n = length (pieces old s) - 1
                        in if 1 < n \<and> \<not> replace_all then Err (edit_ambiguous path n)
                           else Ok \<lparr>ed_text = (if replace_all then join new (pieces old s)
                                               else take first s @ new @ drop (first + length old) s),
                                    ed_replacements = (if replace_all then n else 1),
                                    ed_first_line = 1 + length (filter (\<lambda>c. c = LF) (take first s))\<rparr>))"

section \<open>What an edit changes\<close>

lemma join_Cons: "qs \<noteq> [] \<Longrightarrow> join p (q # qs) = q @ p @ join p qs"
  by (cases qs) simp_all

lemma pieces_not_Nil [simp]: "pieces p s \<noteq> []"
  by (subst pieces.simps) (simp split: option.split)

lemma join_pieces: "join p (pieces p s) = s"
proof (induction p s rule: pieces.induct)
  case (1 p s)
  show ?case
  proof (cases "if p = [] then None else str_find p s")
    case None
    then show ?thesis by (subst pieces.simps) simp
  next
    case (Some i)
    then have f: "str_find p s = Some i" by (simp split: if_splits)
    have "pieces p s = take i s # pieces p (drop (i + length p) s)" using Some by (subst pieces.simps) simp
    then show ?thesis using 1 [OF Some] str_find_Some [OF f] by (simp add: join_Cons)
  qed
qed

lemma pieces_clear:
  assumes "p \<noteq> []" "x \<in> set (pieces p s)"
  shows "\<not> sublist p x"
  using assms
proof (induction p s rule: pieces.induct)
  case (1 p s)
  show ?case
  proof (cases "str_find p s")
    case None
    then have "pieces p s = [s]" by (subst pieces.simps) simp
    then show ?thesis using 1(3) None by (simp add: str_find_None)
  next
    case (Some i)
    have first: "\<not> sublist p (take i s)"
    proof
      assume "sublist p (take i s)"
      then obtain a b where ab: "take i s = a @ p @ b" by (auto simp: sublist_def)
      then have "length a < i" using 1(2) str_find_length [OF Some] by (cases p) (auto dest: arg_cong [of _ _ length])
      moreover have "prefix p (drop (length a) s)"
      proof -
        have "s = (a @ p @ b) @ drop i s" unfolding ab [symmetric] by simp
        then have "drop (length a) s = p @ b @ drop i s" by (metis append_assoc append_eq_conv_conj)
        then show ?thesis by simp
      qed
      ultimately show False using str_find_Some [OF Some] by blast
    qed
    have "pieces p s = take i s # pieces p (drop (i + length p) s)" using Some 1(2) by (subst pieces.simps) simp
    then show ?thesis using 1(1) [of i] 1(2,3) Some first by auto
  qed
qed

lemma pieces_found: "str_find p s = Some i \<Longrightarrow> p \<noteq> [] \<Longrightarrow> pieces p s = take i s # pieces p (drop (i + length p) s)"
  by (subst pieces.simps) simp

text \<open>Files whose every line break is two characters.\<close>

lemma lone_lf_append:
  "lone_lf_from b (xs @ ys) = (lone_lf_from b xs \<or> lone_lf_from (if xs = [] then b else List.last xs = CR) ys)"
  by (induction xs arbitrary: b) auto

lemma lone_lf_after_cr: "\<not> lone_lf_from False xs \<Longrightarrow> \<not> lone_lf_from b xs"
  by (cases xs) auto

lemma crlf_no_lone: "\<not> lone_lf_from b (crlf_from b xs)"
  by (induction xs arbitrary: b) (auto simp: CR_def LF_def)

lemma crlf_from_last: "xs \<noteq> [] \<Longrightarrow> crlf_from b xs \<noteq> [] \<and> List.last (crlf_from b xs) = List.last xs"
proof (induction xs arbitrary: b)
  case (Cons c xs)
  then show ?case by (cases "xs = []") auto
qed simp

lemma join_keeps_crlf:
  assumes "\<not> lone_lf_from b (join old ps)" "old \<noteq> []" "List.last old \<noteq> CR" "\<not> lone_lf_from False new"
  shows "\<not> lone_lf_from b (join new ps)"
  using assms(1)
proof (induction ps arbitrary: b)
  case (Cons x ps)
  show ?case
  proof (cases ps)
    case Nil
    then show ?thesis using Cons.prems by simp
  next
    case (Cons y ys)
    then have ne: "ps \<noteq> []" by simp
    have x: "\<not> lone_lf_from b x" and rest: "\<not> lone_lf_from False (join old ps)"
      using Cons.prems assms(2,3) by (auto simp: join_Cons [OF ne] lone_lf_append)
    have "\<not> lone_lf_from c new" "\<not> lone_lf_from c (join new ps)" for c
      using lone_lf_after_cr assms(4) Cons.IH [OF rest] by blast+
    then show ?thesis using x by (simp add: join_Cons [OF ne] lone_lf_append)
  qed
qed simp

text \<open>C37: An edit is exact: the text to find cuts the file into pieces that do not hold it, from the left and without overlap; the edit answers with an error exactly when it is empty, equals its replacement, cuts nothing off, or cuts more than once without leave; otherwise the new file is the same pieces with the replacement between them, every other byte kept. A file whose every line break is CR LF has only such line breaks after the edit, unless the text to find ends in a CR.\<close>

theorem edit_exact:
  assumes "old = edit_string s old_string old_string" and "new = edit_string s old_string new_string"
  shows "case apply_edit path s old_string new_string replace_all of
      Err e \<Rightarrow> old_string = [] \<or> old = new \<or> \<not> sublist old s \<or> (2 < length (pieces old s) \<and> \<not> replace_all)
    | Ok e \<Rightarrow>
        old_string \<noteq> [] \<and> old \<noteq> new
        \<and> join old (pieces old s) = s \<and> ed_text e = join new (pieces old s)
        \<and> (\<forall>x \<in> set (pieces old s). \<not> sublist old x)
        \<and> length (pieces old s) = ed_replacements e + 1 \<and> 0 < ed_replacements e
        \<and> (ed_replacements e = 1 \<or> replace_all)
        \<and> ed_first_line e = 1 + length (filter (\<lambda>c. c = LF) (hd (pieces old s)))
        \<and> (str_contains s [CR, LF] \<and> \<not> has_lone_lf s \<and> List.last old_string \<noteq> CR \<longrightarrow> \<not> has_lone_lf (ed_text e))"
proof (cases "apply_edit path s old_string new_string replace_all")
  case (Inl e)
  have len: "2 < length (pieces old s) \<longleftrightarrow> 1 < length (pieces old s) - 1" by auto
  show ?thesis
    using Inl unfolding apply_edit_def assms [symmetric] Let_def
    by (auto simp: str_find_None len split: if_splits option.splits)
next
  case (Inr e)
  then have ne: "old_string \<noteq> []" and diff: "old \<noteq> new"
    unfolding apply_edit_def assms [symmetric] Let_def by (auto split: if_splits)
  have old: "old \<noteq> []" using ne crlf_from_last [OF ne] by (simp add: assms(1) edit_string_def lf_to_crlf_def)
  obtain i where i: "str_find old s = Some i"
    using Inr ne diff unfolding apply_edit_def assms [symmetric] Let_def by (auto split: option.splits)
  note p = pieces_found [OF i old]
  let ?n = "length (pieces old s) - 1"
  have few: "\<not> (1 < ?n \<and> \<not> replace_all)" and e: "e = \<lparr>ed_text = (if replace_all then join new (pieces old s)
        else take i s @ new @ drop (i + length old) s), ed_replacements = (if replace_all then ?n else 1),
        ed_first_line = 1 + length (filter (\<lambda>c. c = LF) (take i s))\<rparr>"
    using Inr ne diff i unfolding apply_edit_def assms [symmetric] Let_def by (auto split: if_splits)
  have one: "pieces old s = [take i s, drop (i + length old) s]" if "\<not> replace_all"
  proof -
    have "length (pieces old (drop (i + length old) s)) \<le> 1" using few that by (simp add: p)
    then obtain r where r: "pieces old (drop (i + length old) s) = [r]"
      using pieces_not_Nil [of old "drop (i + length old) s"] by (cases "pieces old (drop (i + length old) s)") auto
    then have "r = drop (i + length old) s" using join_pieces [of old "drop (i + length old) s"] by simp
    then show ?thesis using p r by simp
  qed
  have texts: "ed_text e = join new (pieces old s)" using one by (cases replace_all) (simp_all add: e)
  have "0 < length (pieces old (drop (i + length old) s))" by simp
  then have n: "length (pieces old s) = ed_replacements e + 1" "0 < ed_replacements e" "ed_replacements e = 1 \<or> replace_all"
    using one by (cases replace_all; simp add: e p)+
  have "\<not> has_lone_lf (ed_text e)" if "str_contains s [CR, LF]" "\<not> has_lone_lf s" "List.last old_string \<noteq> CR"
  proof -
    have crlf: "crlf_edit s old_string" using that by (simp add: crlf_edit_def)
    then have "List.last old \<noteq> CR" "\<not> lone_lf_from False new"
      using that(3) crlf_from_last [OF ne] crlf_no_lone by (simp_all add: assms edit_string_def lf_to_crlf_def)
    then show ?thesis
      using join_keeps_crlf [OF _ old, of False "pieces old s" new] that(2) by (simp add: has_lone_lf_def texts join_pieces)
  qed
  moreover have "\<forall>x \<in> set (pieces old s). \<not> sublist old x" using pieces_clear [OF old] by blast
  moreover have "ed_first_line e = 1 + length (filter (\<lambda>c. c = LF) (hd (pieces old s)))" by (simp add: e p)
  ultimately show ?thesis
    unfolding Inr sum.case using ne diff texts n join_pieces [of old s] by simp
qed

text \<open>An edit that leaves a lone LF in a file whose every line break was CR LF.\<close>

lemma edit_leaves_lone_lf:
  "apply_edit ''f'' [CHR ''a'', CR, LF] [CHR ''a'', CR] ''b'' False
     = Ok \<lparr>ed_text = [CHR ''b'', LF], ed_replacements = 1, ed_first_line = 1\<rparr>"
  by code_simp

theorem edit_exact_witness:
  "\<exists>e. apply_edit ''f'' ''one two one'' ''one'' ''1'' True = Ok e \<and> ed_text e = ''1 two 1''
     \<and> length (pieces ''one'' ''one two one'') = ed_replacements e + 1"
proof -
  have r: "apply_edit ''f'' ''one two one'' ''one'' ''1'' True
      = Ok \<lparr>ed_text = ''1 two 1'', ed_replacements = 2, ed_first_line = 1\<rparr>" by code_simp
  have "edit_string ''one two one'' ''one'' ''one'' = ''one''" by code_simp
  then show ?thesis
    using edit_exact [OF refl refl, where s = "''one two one''" and old_string = "''one''" and new_string = "''1''" and path = "''f''" and replace_all = True]
    by (simp add: r)
qed

end
