(* ===== verification/File_Tools.thy ===== *)
theory File_Tools
  imports Pre_Edit File_Edit Utf8
begin

text \<open>
  The file tools of a conversation (\<open>tools/builtins/file_ops.rs\<close>): \<open>file_read\<close>, \<open>file_list\<close>, \<open>file_write\<close>
  and \<open>file_edit\<close>. One call runs alone on the files. The artifact store a by-product goes to, the row the
  Library lists a file by and the order of a directory's names are arguments.
\<close>

definition DQ :: string where
  "DQ = [CHR 0x22]"

section \<open>Opening and writing\<close>

text \<open>Every folder above the target that is missing, below the project's root.\<close>

definition make_parents_below ::
  "string \<Rightarrow> path \<Rightarrow> path \<Rightarrow> (os_error \<Rightarrow> string) \<Rightarrow> 'a file_system_scheme \<Rightarrow> string option \<times> 'a file_system_scheme" where
  "make_parents_below rel home target other s =
     (if target = [] \<or> \<not> prefix home (butlast target) then (Some (outside_boundary rel), s)
      else case create_below home (drop (length home) (butlast target)) s of
             (None, s1) \<Rightarrow> (None, s1)
           | (Some e, s1) \<Rightarrow>
               (Some (if root_is_missing (dk_files s1) home then folder_refusal_text (ProjectMissing (display home)) else other e), s1))"

text \<open>An open that truncates, a link at the last name not followed; \<open>create\<close> lets it make the file.\<close>

definition open_truncated ::
  "bool \<Rightarrow> path \<Rightarrow> string \<Rightarrow> (os_error \<Rightarrow> string) \<Rightarrow> 'a file_system_scheme \<Rightarrow> (string, path) res \<times> 'a file_system_scheme" where
  "open_truncated create target rel other s =
     (let failed = (\<lambda>e. Err (if e = TooManyLinks then outside_boundary rel else other e))
      in case sys s of
           (Some (e, k), s1) \<Rightarrow> (failed e, s1)
         | (None, s1) \<Rightarrow>
             (case entry_place (dk_files s1) target of
                Err e \<Rightarrow> (failed e, s1)
              | Ok q \<Rightarrow>
                  (case dk_files s1 q of
                     Some (Link a t) \<Rightarrow> (failed TooManyLinks, s1)
                   | Some Folder \<Rightarrow> (failed IsADirectory, s1)
                   | Some Special \<Rightarrow> (Ok q, s1)
                   | Some (Regular c) \<Rightarrow> (Ok q, s1\<lparr>dk_files := (dk_files s1)(q \<mapsto> Regular '''')\<rparr>)
                   | None \<Rightarrow>
                       if create then (Ok q, s1\<lparr>dk_files := (dk_files s1)(q \<mapsto> Regular '''')\<rparr>)
                       else (failed NotFound, s1))))"

definition write_out :: "path \<Rightarrow> string \<Rightarrow> 'a file_system_scheme \<Rightarrow> os_error option \<times> 'a file_system_scheme" where
  "write_out q content s =
     (let put = (\<lambda>c s1. case dk_files s1 q of
                          Some (Regular old) \<Rightarrow> s1\<lparr>dk_files := (dk_files s1)(q \<mapsto> Regular c)\<rparr>
                        | _ \<Rightarrow> s1)
      in case sys s of (None, s1) \<Rightarrow> (None, put content s1) | (Some (e, k), s1) \<Rightarrow> (Some e, put (take k content) s1))"

text \<open>The content of a file opened for reading, a link at the last name not followed.\<close>

definition read_leaf ::
  "path \<Rightarrow> string \<Rightarrow> (os_error \<Rightarrow> string) \<Rightarrow> (os_error \<Rightarrow> string) \<Rightarrow> files \<Rightarrow> (string, string) res" where
  "read_leaf target rel other unread fs =
     (let failed = (\<lambda>e. Err (if e = TooManyLinks then outside_boundary rel else other e))
      in case entry_place fs target of
           Err e \<Rightarrow> failed e
         | Ok q \<Rightarrow>
             (case fs q of
                None \<Rightarrow> failed NotFound
              | Some (Link a t) \<Rightarrow> failed TooManyLinks
              | Some Folder \<Rightarrow> Err (unread IsADirectory)
              | Some Special \<Rightarrow> Err (unread OtherError)
              | Some (Regular c) \<Rightarrow> Ok c))"

fun through_a_link :: "files \<Rightarrow> path \<Rightarrow> path \<Rightarrow> bool" where
  "through_a_link fs here [] = False"
| "through_a_link fs here (n # ns) =
     (case symlink_metadata fs (here @ [n]) of
        Err e \<Rightarrow> False
      | Ok m \<Rightarrow> is_link (Some m) \<or> through_a_link fs (here @ [n]) ns)"

definition linked_target :: "files \<Rightarrow> string \<Rightarrow> path \<Rightarrow> path \<Rightarrow> string option" where
  "linked_target fs rel home target =
     (if target = home @ path_names rel \<or> \<not> through_a_link fs home (path_names rel) then None
      else Some (if prefix home target then join ''/'' (drop (length home) target) else display target))"

section \<open>What a call runs in\<close>

record artifact_record =
  ar_id :: string
  ar_name :: string
  ar_version :: nat
  ar_storage_path :: string

record file_env = tool_env +
  fe_ctx :: folder_ctx
  fe_list_row :: "(path \<Rightarrow> path \<Rightarrow> string \<Rightarrow> (string, unit) res) option"
  fe_put_artifact :: "(string \<Rightarrow> string \<Rightarrow> (string, artifact_record) res) option"
  fe_names :: "files \<Rightarrow> path \<Rightarrow> string list"

definition MAX_FILE_READ_SIZE :: nat where
  "MAX_FILE_READ_SIZE = 10 * 1024 * 1024"

definition MAX_FILE_WRITE_SIZE :: nat where
  "MAX_FILE_WRITE_SIZE = 10 * 1024 * 1024"

definition FILE_LIST_MAX_ENTRIES :: nat where
  "FILE_LIST_MAX_ENTRIES = 500"

definition required_arg :: "json \<Rightarrow> string \<Rightarrow> (string, string) res" where
  "required_arg arguments key =
     (case Option.bind (json_get arguments key) as_str of
        Some s \<Rightarrow> Ok s
      | None \<Rightarrow> Err (''Missing required parameter: '' @ key))"

section \<open>file_write\<close>

datatype write_plan = WriteProject path path bool | WriteByProduct

definition WRITE_REFUSED_HINT :: string where
  "WRITE_REFUSED_HINT = ''Hint: check the file'' @ APOS @ ''s permissions, or write it under another path.''"

definition refused_write :: "string \<Rightarrow> os_error \<Rightarrow> string" where
  "refused_write failure e = (if e = Denied then failure @ [LF] @ WRITE_REFUSED_HINT else failure)"

definition write_arguments :: "json \<Rightarrow> (string, string \<times> string) res" where
  "write_arguments arguments =
     (case required_arg arguments ''path'' of
        Err e \<Rightarrow> Err e
      | Ok path \<Rightarrow>
          (case required_arg arguments ''content'' of Err e \<Rightarrow> Err e | Ok content \<Rightarrow> Ok (path, content)))"

definition last_segment :: "string \<Rightarrow> string" where
  "last_segment p = rev (takeWhile (\<lambda>c. c \<noteq> CHR ''/'' \<and> c \<noteq> CHR 0x5C) (rev p))"

definition not_a_file :: "string \<Rightarrow> string \<Rightarrow> files \<Rightarrow> path \<Rightarrow> string option" where
  "not_a_file path what fs target =
     (case metadata fs target of
        Ok (Regular c) \<Rightarrow> None
      | Ok Folder \<Rightarrow> Some (in_quotes path @ '' is a folder, not a file.'')
      | Ok _ \<Rightarrow> Some (in_quotes path @ '' is not a regular file, so '' @ what)
      | Err e \<Rightarrow> None)"

definition plan_write :: "file_env \<Rightarrow> string \<Rightarrow> string \<Rightarrow> project \<Rightarrow> (string, write_plan) res" where
  "plan_write en path content s =
     (let fs = dk_files s; tail_name = trim (last_segment path)
      in if MAX_FILE_WRITE_SIZE < length content
         then Err (''Content size '' @ show_nat (length content) @ '' bytes exceeds the '' @ show_nat MAX_FILE_WRITE_SIZE
                @ '' byte write limit'')
         else case validate_workspace_path path of
           Err e \<Rightarrow> Err e
         | Ok _ \<Rightarrow>
             if tail_name = [] \<or> tail_name = ''.''
             then Err (''Path '' @ in_quotes path @ '' names no file. Give a file name, e.g. '' @ in_quotes ''reports/summary.md'' @ ''.'')
             else case working_folder_of (fe_ctx en) of
               Ok (ProjectFolder home) \<Rightarrow>
                 (case resolve_workspace_path_for_write (te_word en) fs path home ProjectRules of
                    Err e \<Rightarrow> Err e
                  | Ok target \<Rightarrow>
                      (case not_a_file path ''file_write cannot replace it.'' fs target of
                         Some e \<Rightarrow> Err e
                       | None \<Rightarrow>
                           (case check_pre_edit path target fs (pj_log s \<noteq> None) (te_snapshot_max en) Overwrite of
                              Err e \<Rightarrow> Err e
                            | Ok replaces \<Rightarrow> Ok (WriteProject home target replaces))))
             | Ok (ScratchFolder dir c) \<Rightarrow> Ok WriteByProduct
             | Err NoConversation \<Rightarrow> Ok WriteByProduct
             | Err r \<Rightarrow> Err (folder_refusal_text r))"

definition list_row :: "file_env \<Rightarrow> path \<Rightarrow> path \<Rightarrow> string \<Rightarrow> (string, unit) res" where
  "list_row en home target content =
     (case fe_list_row en of
        Some put \<Rightarrow> put home target content
      | None \<Rightarrow> Err ''no database is wired to this tool'')"

definition project_write_result :: "string \<Rightarrow> nat \<Rightarrow> path \<Rightarrow> bool \<Rightarrow> (string, unit) res \<Rightarrow> string" where
  "project_write_result path bytes target replaced listed =
     (if replaced
      then ''Replaced '' @ path @ '' in the project ('' @ show_nat bytes @ '' bytes), at '' @ display target
        @ ''; its previous content is kept in this conversation'' @ APOS @ ''s log.''
      else ''Wrote '' @ path @ '' in the project ('' @ show_nat bytes @ '' bytes), at '' @ display target @ ''.'')
     @ '' ''
     @ (case listed of
          Ok _ \<Rightarrow> ''It is listed in the Library with the project'' @ APOS @ ''s results.''
        | Err e \<Rightarrow> ''The file is written, but the app could not list it ('' @ e @ '').'')
     @ '' Tell the user the file is at that path. To change it, call file_write with '' @ DQ @ path @ DQ @ '' again.''"

definition write_in_project ::
  "file_env \<Rightarrow> string \<Rightarrow> string \<Rightarrow> path \<Rightarrow> path \<Rightarrow> project \<Rightarrow> (string, string) res \<times> project" where
  "write_in_project en path content home target s =
     (case keep_pre_edit_copy en path target home Overwrite s of
        (Err e, s1) \<Rightarrow> (Err e, s1)
      | (Ok copied, s1) \<Rightarrow>
          (case make_parents_below path home target
                  (\<lambda>e. refused_write (''Failed to create directories: '' @ te_word en e) e) s1 of
             (Some e, s2) \<Rightarrow> (Err e, s2)
           | (None, s2) \<Rightarrow>
               (let write_failed = (\<lambda>e. refused_write (''Failed to write file '' @ in_quotes path @ '': '' @ te_word en e) e)
                in case open_truncated True target path write_failed s2 of
                     (Err e, s3) \<Rightarrow> (Err e, s3)
                   | (Ok q, s3) \<Rightarrow>
                       (case write_out q content s3 of
                          (Some e, s4) \<Rightarrow> (Err (write_failed e), s4)
                        | (None, s4) \<Rightarrow>
                            (Ok (project_write_result path (length content) target (copied = KeptCopy)
                                   (list_row en home target content)), s4)))))"

definition save_as_artifact :: "file_env \<Rightarrow> string \<Rightarrow> string \<Rightarrow> (string, string) res" where
  "save_as_artifact en path content =
     (case fe_put_artifact en of
        None \<Rightarrow> Err ''file_write requires database context to save an artifact''
      | Some put \<Rightarrow>
          (case put path content of
             Err e \<Rightarrow> Err e
           | Ok r \<Rightarrow>
               Ok (''Saved: '' @ path @ '' is the artifact '' @ DQ @ ar_name r @ DQ @ '', version '' @ show_nat (ar_version r)
                 @ '', at '' @ ar_storage_path r @ ''. This conversation has no project folder, so its files are kept in ''
                 @ ''OpenAlpaca'' @ APOS @ ''s artifact store. It is listed in the Library. This file is the deliverable: tell ''
                 @ ''the user it is saved at that absolute path, and do not write another copy with the shell or any other ''
                 @ ''tool. To read it back, call artifact_read with '' @ DQ @ ar_id r @ DQ @ ''. To change it, call file_write ''
                 @ ''with '' @ DQ @ path @ DQ @ '' again; that saves its next version.'')))"

definition file_write :: "file_env \<Rightarrow> json \<Rightarrow> project \<Rightarrow> (string, string) res \<times> project" where
  "file_write en arguments s =
     (case write_arguments arguments of
        Err e \<Rightarrow> (Err e, s)
      | Ok (path, content) \<Rightarrow>
          (case plan_write en path content s of
             Err e \<Rightarrow> (Err e, s)
           | Ok WriteByProduct \<Rightarrow> (save_as_artifact en path content, s)
           | Ok (WriteProject home target replaces) \<Rightarrow> write_in_project en path content home target s))"

section \<open>file_edit\<close>

record edit_args =
  ea_path :: string
  ea_old_string :: string
  ea_new_string :: string
  ea_replace_all :: bool

record edit_plan =
  ep_root :: path
  ep_target :: path
  ep_text :: string
  ep_replacements :: nat
  ep_first_line :: nat

definition EDIT_NEEDS_A_PROJECT :: string where
  "EDIT_NEEDS_A_PROJECT =
     ''file_edit changes a file in a project, and this conversation has no project. ''
     @ ''Use file_write to save a file instead.''"

definition edit_missing :: "string \<Rightarrow> string" where
  "edit_missing path =
     in_quotes path @ '' does not exist in the project. file_edit changes an existing file; use ''
     @ ''file_write to create it.''"

definition edit_args_of :: "json \<Rightarrow> (string, edit_args) res" where
  "edit_args_of arguments =
     (case required_arg arguments ''path'' of
        Err e \<Rightarrow> Err e
      | Ok path \<Rightarrow>
          (case required_arg arguments ''old_string'' of
             Err e \<Rightarrow> Err e
           | Ok old_string \<Rightarrow>
               (case required_arg arguments ''new_string'' of
                  Err e \<Rightarrow> Err e
                | Ok new_string \<Rightarrow>
                    Ok \<lparr>ea_path = path, ea_old_string = old_string, ea_new_string = new_string,
                        ea_replace_all = (json_get arguments ''replace_all'' = Some (JBool True))\<rparr>)))"

definition plan_edit :: "file_env \<Rightarrow> edit_args \<Rightarrow> project \<Rightarrow> (string, edit_plan) res" where
  "plan_edit en a s =
     (let fs = dk_files s; path = ea_path a; read_failed = (\<lambda>e. ''Failed to read file '' @ in_quotes path @ '': '' @ te_word en e)
      in case working_folder_of (fe_ctx en) of
           Ok (ScratchFolder dir c) \<Rightarrow> Err EDIT_NEEDS_A_PROJECT
         | Err NoConversation \<Rightarrow> Err EDIT_NEEDS_A_PROJECT
         | Err r \<Rightarrow> Err (folder_refusal_text r)
         | Ok (ProjectFolder home) \<Rightarrow>
             (case resolve_workspace_path_for_write (te_word en) fs path home ProjectRules of
                Err e \<Rightarrow> Err e
              | Ok target \<Rightarrow>
                  (case metadata fs target of
                     Err e \<Rightarrow> Err (if e = NotFound then edit_missing path
                                  else ''Cannot access '' @ in_quotes path @ '': '' @ te_word en e)
                   | Ok Folder \<Rightarrow> Err (in_quotes path @ '' is a folder, not a file.'')
                   | Ok (Link b t) \<Rightarrow> Err (in_quotes path @ '' is not a regular file, so file_edit cannot change it.'')
                   | Ok Special \<Rightarrow> Err (in_quotes path @ '' is not a regular file, so file_edit cannot change it.'')
                   | Ok (Regular old) \<Rightarrow>
                       (case check_pre_edit path target fs (pj_log s \<noteq> None) (te_snapshot_max en) EditVerb of
                          Err e \<Rightarrow> Err e
                        | Ok _ \<Rightarrow>
                            if MAX_FILE_READ_SIZE < length old
                            then Err (''File '' @ in_quotes path @ '' is '' @ show_nat (length old)
                                   @ '' bytes, exceeding the '' @ show_nat MAX_FILE_READ_SIZE @ '' byte limit'')
                            else case read_leaf target path read_failed read_failed fs of
                              Err e \<Rightarrow> Err e
                            | Ok bytes \<Rightarrow>
                                if \<not> utf8_ok bytes
                                then Err (in_quotes path @ '' is not UTF-8 text, so file_edit cannot change it.'')
                                else case apply_edit path bytes (ea_old_string a) (ea_new_string a) (ea_replace_all a) of
                                  Err e \<Rightarrow> Err e
                                | Ok ed \<Rightarrow>
                                    if MAX_FILE_READ_SIZE < length (ed_text ed)
                                    then Err (''The edited '' @ in_quotes path @ '' would be '' @ show_nat (length (ed_text ed))
                                           @ '' bytes, above the '' @ show_nat MAX_FILE_READ_SIZE @ '' byte limit file_read ''
                                           @ ''and file_write keep to. The file is unchanged.'')
                                    else Ok \<lparr>ep_root = home, ep_target = target, ep_text = ed_text ed,
                                             ep_replacements = ed_replacements ed, ep_first_line = ed_first_line ed\<rparr>))))"

definition edit_result :: "string \<Rightarrow> edit_plan \<Rightarrow> (string, unit) res \<Rightarrow> string" where
  "edit_result path pl listed =
     ''Edited '' @ path @ '' in the project: '' @ show_nat (ep_replacements pl) @ '' replacement''
     @ (if ep_replacements pl = 1 then [] else ''s'') @ '', the first at line '' @ show_nat (ep_first_line pl) @ ''; ''
     @ show_nat (length (ep_text pl)) @ '' bytes at '' @ display (ep_target pl)
     @ ''. Its previous content is kept in this conversation'' @ APOS @ ''s log.''
     @ (case listed of
          Ok _ \<Rightarrow> []
        | Err e \<Rightarrow> '' The file is written, but the app could not list it ('' @ e @ '').'')"

definition edit_failed :: "file_env \<Rightarrow> string \<Rightarrow> os_error \<Rightarrow> string" where
  "edit_failed en path e = ''Failed to write file '' @ in_quotes path @ '': '' @ te_word en e"

definition edit_open_failed :: "file_env \<Rightarrow> string \<Rightarrow> os_error \<Rightarrow> string" where
  "edit_open_failed en path e = (if e = NotFound then edit_missing path else edit_failed en path e)"

definition file_edit :: "file_env \<Rightarrow> json \<Rightarrow> project \<Rightarrow> (string, string) res \<times> project" where
  "file_edit en arguments s =
     (case edit_args_of arguments of
        Err e \<Rightarrow> (Err e, s)
      | Ok a \<Rightarrow>
          (case plan_edit en a s of
             Err e \<Rightarrow> (Err e, s)
           | Ok pl \<Rightarrow>
               (let path = ea_path a
                in case keep_pre_edit_copy en path (ep_target pl) (ep_root pl) EditVerb s of
                     (Err e, s1) \<Rightarrow> (Err e, s1)
                   | (Ok NewFile, s1) \<Rightarrow> (Err (edit_missing path), s1)
                   | (Ok KeptCopy, s1) \<Rightarrow>
                       (case open_truncated False (ep_target pl) path (edit_open_failed en path) s1 of
                          (Err e, s2) \<Rightarrow> (Err e, s2)
                        | (Ok q, s2) \<Rightarrow>
                            (case write_out q (ep_text pl) s2 of
                               (Some e, s3) \<Rightarrow> (Err (edit_failed en path e), s3)
                             | (None, s3) \<Rightarrow>
                                 (Ok (edit_result path pl (list_row en (ep_root pl) (ep_target pl) (ep_text pl))), s3))))))"

section \<open>file_read and file_list\<close>

definition acting_folder :: "file_env \<Rightarrow> project \<Rightarrow> (string, path \<times> folder_rules) res \<times> project" where
  "acting_folder en s =
     (case working_folder_of (fe_ctx en) of
        Err r \<Rightarrow> (Err (folder_refusal_text r), s)
      | Ok f \<Rightarrow>
          (case ensure (te_word en) f s of
             (Err r, s1) \<Rightarrow> (Err (folder_refusal_text r), s1)
           | (Ok p, s1) \<Rightarrow> (Ok (p, rules_of f), s1)))"

definition NOTHING_THERE_HINT :: string where
  "NOTHING_THERE_HINT = ''Hint: paths are relative to the working folder; file_list shows what a folder holds.''"

definition told_what_is_there :: "string \<Rightarrow> files \<Rightarrow> path \<Rightarrow> string" where
  "told_what_is_there given fs in_folder =
     (if symlink_metadata fs in_folder = Err NotFound then given @ [LF] @ NOTHING_THERE_HINT else given)"

definition read_opened :: "file_env \<Rightarrow> string \<Rightarrow> path \<Rightarrow> files \<Rightarrow> (string, string) res" where
  "read_opened en path full_path fs =
     (let cannot_access = (\<lambda>e. let given = ''Cannot access file '' @ in_quotes path @ '': '' @ te_word en e
                               in if e = NotFound then given @ [LF] @ NOTHING_THERE_HINT else given);
          failed = (\<lambda>e. Err (if e = TooManyLinks then outside_boundary path else cannot_access e))
      in case entry_place fs full_path of
           Err e \<Rightarrow> failed e
         | Ok q \<Rightarrow>
             (case fs q of
                None \<Rightarrow> failed NotFound
              | Some (Link a t) \<Rightarrow> failed TooManyLinks
              | Some Folder \<Rightarrow> Err (in_quotes path @ '' is a folder, not a file.'')
              | Some Special \<Rightarrow> Err (in_quotes path @ '' is not a regular file, so file_read cannot read it.'')
              | Some (Regular c) \<Rightarrow>
                  if MAX_FILE_READ_SIZE < length c
                  then Err (''File '' @ in_quotes path @ '' is '' @ show_nat (length c) @ '' bytes, exceeding the ''
                         @ show_nat MAX_FILE_READ_SIZE @ '' byte limit'')
                  else if \<not> utf8_ok c
                  then Err (''Failed to read file '' @ in_quotes path @ '': stream did not contain valid UTF-8'')
                  else Ok c))"

definition file_read :: "file_env \<Rightarrow> json \<Rightarrow> project \<Rightarrow> (string, string) res \<times> project" where
  "file_read en arguments s =
     (case required_arg arguments ''path'' of
        Err e \<Rightarrow> (Err e, s)
      | Ok path \<Rightarrow>
          (case acting_folder en s of
             (Err e, s1) \<Rightarrow> (Err e, s1)
           | (Ok (home, rules), s1) \<Rightarrow>
               (case validate_workspace_path path of
                  Err e \<Rightarrow> (Err e, s1)
                | Ok _ \<Rightarrow>
                    (case resolve_workspace_path (te_word en) (dk_files s1) path home rules of
                       Err e \<Rightarrow> (Err (told_what_is_there e (dk_files s1) (home @ path_names path)), s1)
                     | Ok full_path \<Rightarrow> (read_opened en path full_path (dk_files s1), s1)))))"

definition entries_word :: "nat \<Rightarrow> string" where
  "entries_word n = (if n = 1 then ''entry'' else ''entries'')"

definition shown_entries :: "(string \<Rightarrow> (os_error, node) res) \<Rightarrow> string list \<Rightarrow> string list" where
  "shown_entries stat names =
     map (\<lambda>n. case stat n of
                Ok (Link a t) \<Rightarrow> n @ ''@''
              | Ok Folder \<Rightarrow> n @ ''/''
              | Ok (Regular c) \<Rightarrow> n @ ''  '' @ show_nat (length c) @ '' bytes''
              | _ \<Rightarrow> n)
       (take FILE_LIST_MAX_ENTRIES (sort names))"

definition format_listing :: "string \<Rightarrow> path \<Rightarrow> nat \<Rightarrow> string list \<Rightarrow> string" where
  "format_listing path dir n shown =
     (let over = n - length shown
      in path @ '' ('' @ display dir @ ''): '' @ show_nat n @ '' '' @ entries_word n
         @ concat (map (\<lambda>l. LF # l) shown)
         @ (if 0 < over
            then LF # ''... and '' @ show_nat over @ '' more '' @ entries_word over @ '' not shown '' @ EM_DASH
              @ '' list a subfolder''
            else []))"

definition list_folder :: "file_env \<Rightarrow> string \<Rightarrow> path \<Rightarrow> files \<Rightarrow> string" where
  "list_folder en path dir fs =
     (let names = fe_names en fs dir
      in format_listing path dir (length names) (shown_entries (\<lambda>n. symlink_metadata fs (dir @ [n])) names))"

definition file_list :: "file_env \<Rightarrow> json \<Rightarrow> project \<Rightarrow> (string, string) res \<times> project" where
  "file_list en arguments s =
     (case required_arg arguments ''path'' of
        Err e \<Rightarrow> (Err e, s)
      | Ok path \<Rightarrow>
          (case acting_folder en s of
             (Err e, s1) \<Rightarrow> (Err e, s1)
           | (Ok (home, rules), s1) \<Rightarrow>
               (case resolve_workspace_path (te_word en) (dk_files s1) path home rules of
                  Err e \<Rightarrow> (Err e, s1)
                | Ok dir \<Rightarrow>
                    (case metadata (dk_files s1) dir of
                       Err e \<Rightarrow> (Err (''Cannot access '' @ in_quotes path @ '': '' @ te_word en e), s1)
                     | Ok n \<Rightarrow>
                         if n \<noteq> Folder
                         then (Err (in_quotes path @ '' is a file, not a folder; read it with file_read.''), s1)
                         else (Ok (list_folder en path dir (dk_files s1)), s1)))))"

section \<open>What a call changes\<close>

lemma walk_direct_id: "walk fs k cur (map Name p) = Ok q \<Longrightarrow> direct fs (cur @ p) \<Longrightarrow> q = cur @ p"
proof (induction p arbitrary: cur)
  case (Cons n p)
  have "direct fs (cur @ [n])" using direct_prefix [OF Cons.prems(2)] by simp
  then have "\<not> is_link (fs (cur @ [n]))" by (simp add: direct_snoc)
  then show ?case
    using Cons.prems Cons.IH [of "cur @ [n]"] by (auto simp: is_link_def split: if_splits option.splits node.splits)
qed simp

lemma canonicalize_direct_id: "canonicalize fs p = Ok q \<Longrightarrow> direct fs p \<Longrightarrow> q = p"
  using walk_direct_id [of fs MAX_LINKS "[]" p q] by (simp add: canonicalize_def)

lemma entry_of_direct_id: "entry_place fs p = Ok q \<Longrightarrow> direct fs p \<Longrightarrow> q = p"
  using canonicalize_direct_id [of fs "butlast p"] direct_butlast [of fs p]
  by (auto simp: entry_place_def split: if_splits sum.splits)

lemma metadata_direct: "direct fs p \<Longrightarrow> tree_ok fs \<Longrightarrow> fs p = Some n \<Longrightarrow> metadata fs p = Ok n"
  by (simp add: metadata_def canonicalize_direct)

lemma metadata_direct_Ok: "direct fs p \<Longrightarrow> metadata fs p = Ok n \<Longrightarrow> fs p = Some n"
  by (auto simp: metadata_def dest: canonicalize_direct_id split: sum.splits option.splits)

text \<open>A copy taken: what was there, and what the writer of the log answered.\<close>

definition copied_old :: "'e tool_env_scheme \<Rightarrow> string \<Rightarrow> string \<Rightarrow> project \<Rightarrow> project \<Rightarrow> bool" where
  "copied_old en rel old s s1 \<longleftrightarrow>
     (\<exists>w w1 closing img spec. pj_log s = Some (LogLive w) \<and> pj_log s1 = Some (LogLive w1)
        \<and> process (te_codec en) (te_limits en) (te_now en) (te_aside en) [MSnapshot spec] w = ([Some img], closing, w1)
        \<and> ss_source spec = Some old \<and> ss_path spec = rel)"

lemma snapshot_answer:
  assumes "log_snapshot en spec h = (Ok img, h1)"
  shows "\<exists>w w1 closing. h = LogLive w \<and> h1 = LogLive w1
    \<and> process (te_codec en) (te_limits en) (te_now en) (te_aside en) [MSnapshot spec] w = ([Some img], closing, w1)"
  using assms by (auto simp: log_snapshot_def split: log_handle.splits prod.splits list.splits option.splits)

lemma keep_copy:
  assumes "keep_pre_edit_copy en rel target home verb s = (ans, s1)" "tree_ok (dk_files s)" "direct (dk_files s) target"
  shows "dk_files s1 = dk_files s"
    and "ans = Ok NewFile \<Longrightarrow> s1 = s \<and> (\<forall>old. dk_files s target \<noteq> Some (Regular old))"
    and "ans = Ok KeptCopy \<Longrightarrow> \<exists>old. dk_files s target = Some (Regular old) \<and> copied_old en rel old s s1"
proof -
  let ?fs = "dk_files s" and ?check = "check_pre_edit rel target (dk_files s) (pj_log s \<noteq> None) (te_snapshot_max en) verb"
  show "dk_files s1 = ?fs"
    using assms(1) by (auto simp: keep_pre_edit_copy_def Let_def split: sum.splits bool.splits if_splits option.splits prod.splits)
  have new: "\<forall>old. ?fs target \<noteq> Some (Regular old)" if "?check = Ok False"
    using that metadata_direct [OF assms(3,2)] by (auto simp: check_pre_edit_def split: if_splits)
  show "s1 = s \<and> (\<forall>old. ?fs target \<noteq> Some (Regular old))" if "ans = Ok NewFile"
  proof -
    have "?check = Ok False \<and> s1 = s"
      using that assms(1) by (auto simp: keep_pre_edit_copy_def Let_def split: sum.splits bool.splits if_splits option.splits prod.splits)
    then show ?thesis using new by blast
  qed
  assume k: "ans = Ok KeptCopy"
  then have check: "?check = Ok True"
    using assms(1) by (auto simp: keep_pre_edit_copy_def Let_def split: sum.splits bool.splits if_splits)
  then obtain old where old: "metadata ?fs target = Ok (Regular old)"
    by (auto simp: check_pre_edit_def split: sum.splits node.splits if_splits)
  then have t: "?fs target = Some (Regular old)" "canonicalize ?fs target = Ok target"
    using metadata_direct_Ok [OF assms(3)] canonicalize_direct [OF assms(3) _ assms(2)] by auto
  let ?spec = "\<lparr>ss_path = rel, ss_source = Some old, ss_task = te_task_id en, ss_span = None, ss_agent = te_agent_name en\<rparr>"
  obtain h a h1 where h: "pj_log s = Some h" "log_snapshot en ?spec h = (a, h1)" "s1 = s\<lparr>pj_log := Some h1\<rparr>"
      and a: "(case a of Err e \<Rightarrow> Err (copy_failed verb rel e) | Ok _ \<Rightarrow> Ok KeptCopy) = ans"
    using assms(1) k check t by (auto simp: keep_pre_edit_copy_def Let_def split: if_splits option.splits prod.splits)
  obtain img where "a = Ok img" using a k by (auto split: sum.splits)
  then obtain w w1 closing where "h = LogLive w" "h1 = LogLive w1"
      "process (te_codec en) (te_limits en) (te_now en) (te_aside en) [MSnapshot ?spec] w = ([Some img], closing, w1)"
    using snapshot_answer h(2) by blast
  then show "\<exists>old. ?fs target = Some (Regular old) \<and> copied_old en rel old s s1"
    using t(1) h(1,3) unfolding copied_old_def by fastforce
qed

text \<open>The steps after the copy leave the log alone.\<close>

lemma sys_log: "sys s = (a, s1) \<Longrightarrow> pj_log s1 = pj_log (s :: project)"
  by (auto simp: sys_def split: list.splits)

lemma create_dir_log: "create_dir p s = (e, s1) \<Longrightarrow> pj_log s1 = pj_log (s :: project)"
  by (auto simp: create_dir_def dest: sys_log split: prod.splits option.splits sum.splits if_splits)

lemma create_levels_log: "create_levels d ns s = (e, s1) \<Longrightarrow> pj_log s1 = pj_log (s :: project)"
proof (induction d ns s arbitrary: e s1 rule: create_levels.induct)
  case (2 d n ns s)
  obtain a sa where a: "create_dir (d @ [n]) s = (a, sa)" by fastforce
  consider "s1 = sa" | "create_levels (d @ [n]) ns sa = (e, s1)" "a = None"
    | e2 where "create_levels (d @ [n]) ns sa = (e, s1)" "a = Some e2" "e2 = AlreadyExists" "real_directory (dk_files sa) (d @ [n]) = None"
    using "2.prems" a by (cases a) (auto split: if_splits option.splits)
  then have "s1 = sa \<or> pj_log s1 = pj_log sa"
  proof cases
    case 2
    then show ?thesis using "2.IH"(1) [OF a [symmetric] 2(2) 2(1)] by simp
  next
    case 3
    then show ?thesis using "2.IH"(2) [OF a [symmetric] 3(2,3,4,1)] by simp
  qed simp
  then show ?case using create_dir_log [OF a] by auto
qed simp

lemma make_parents:
  assumes "make_parents_below rel home target other s = (e, s1)" "tree_ok (dk_files s)"
  shows "only_new_folders (dk_files s) (dk_files s1) \<and> tree_ok (dk_files s1) \<and> pj_log s1 = pj_log (s :: project)"
proof (cases "target = [] \<or> \<not> prefix home (butlast target) \<or> real_directory (dk_files s) home \<noteq> None")
  case True
  then have "s1 = s"
    using assms(1) by (auto simp: make_parents_below_def create_below_def split: if_splits prod.splits option.splits)
  then show ?thesis using assms(2) by simp
next
  case False
  then obtain e2 where "create_levels home (drop (length home) (butlast target)) s = (e2, s1)"
    using assms(1) by (auto simp: make_parents_below_def create_below_def split: if_splits prod.splits option.splits)
  then show ?thesis using create_levels_made create_levels_log assms(2) by blast
qed

lemma open_truncated_effect:
  assumes "open_truncated create target rel other s = (ans, s1)" "direct (dk_files s) target"
  shows "pj_log s1 = pj_log (s :: project)"
    and "dk_files s1 = dk_files s
      \<or> (dk_files s1 = (dk_files s)(target \<mapsto> Regular '''') \<and> (dk_files s target = None \<or> (\<exists>old. dk_files s target = Some (Regular old))))"
    and "ans = Ok q \<Longrightarrow> q = target \<and> (dk_files s target = Some Special \<or> dk_files s1 = (dk_files s)(target \<mapsto> Regular ''''))"
proof -
  obtain a s0 where a: "sys s = (a, s0)" by fastforce
  then have s0: "dk_files s0 = dk_files s" "pj_log s0 = pj_log s" using sys_files sys_log by blast+
  show "pj_log s1 = pj_log s"
    using assms(1) a s0 by (auto simp: open_truncated_def Let_def split: option.splits sum.splits node.splits if_splits)
  consider (no) "dk_files s1 = dk_files s" "\<not> (\<exists>q. ans = Ok q)"
    | (special) "dk_files s1 = dk_files s" "ans = Ok target" "dk_files s target = Some Special"
    | (opened) "dk_files s1 = (dk_files s)(target \<mapsto> Regular '''')" "ans = Ok target"
        "dk_files s target = None \<or> (\<exists>old. dk_files s target = Some (Regular old))"
  proof (cases "\<exists>e k. a = Some (e, k)")
    case True
    then show ?thesis using that(1) assms(1) a s0 by (auto simp: open_truncated_def)
  next
    case False
    then have a: "sys s = (None, s0)" using a by (cases a) auto
    show ?thesis
    proof (cases "entry_place (dk_files s) target")
      case (Inl e)
      then show ?thesis using that(1) assms(1) a s0 by (auto simp: open_truncated_def)
    next
      case (Inr r)
      then have r: "entry_place (dk_files s) target = Ok target" using entry_of_direct_id [OF Inr assms(2)] by simp
      show ?thesis
      proof (cases "dk_files s target")
        case None
        then show ?thesis using that(1,3) assms(1) a s0 r by (cases create) (auto simp: open_truncated_def)
      next
        case (Some n)
        then show ?thesis using that assms(1) a s0 r by (cases n) (auto simp: open_truncated_def)
      qed
    qed
  qed
  note c = this
  from c show "dk_files s1 = dk_files s
      \<or> (dk_files s1 = (dk_files s)(target \<mapsto> Regular '''') \<and> (dk_files s target = None \<or> (\<exists>old. dk_files s target = Some (Regular old))))"
    by cases blast+
  from c show "ans = Ok q \<Longrightarrow> q = target \<and> (dk_files s target = Some Special \<or> dk_files s1 = (dk_files s)(target \<mapsto> Regular ''''))"
    by cases auto
qed

lemma write_out_effect:
  assumes "write_out q content s = (e, s1)"
  shows "pj_log s1 = pj_log (s :: project)"
    and "dk_files s1 = dk_files s \<or> (\<exists>old c. dk_files s q = Some (Regular old) \<and> dk_files s1 = (dk_files s)(q \<mapsto> Regular c))"
    and "e = None \<Longrightarrow> dk_files s q = Some (Regular old) \<Longrightarrow> dk_files s1 = (dk_files s)(q \<mapsto> Regular content)"
proof -
  obtain a s0 where a: "sys s = (a, s0)" by fastforce
  then have s0: "dk_files s0 = dk_files s" "pj_log s0 = pj_log s" using sys_files sys_log by blast+
  show "pj_log s1 = pj_log s"
    using assms a s0 by (auto simp: write_out_def Let_def split: option.splits node.splits)
  show "dk_files s1 = dk_files s \<or> (\<exists>old c. dk_files s q = Some (Regular old) \<and> dk_files s1 = (dk_files s)(q \<mapsto> Regular c))"
    using assms a s0 by (auto simp: write_out_def Let_def split: option.splits node.splits)
  show "dk_files s1 = (dk_files s)(q \<mapsto> Regular content)" if "e = None" "dk_files s q = Some (Regular old)"
    using that assms a s0 by (auto simp: write_out_def Let_def split: option.splits)
qed

definition touched :: "path \<Rightarrow> files \<Rightarrow> files \<Rightarrow> bool" where
  "touched target fs fs2 \<longleftrightarrow> (\<forall>p. p \<noteq> target \<longrightarrow> fs2 p = fs p \<or> (fs p = None \<and> fs2 p = Some Folder))"

lemma copied_old_log: "copied_old en rel old s s1 \<Longrightarrow> pj_log s2 = pj_log s1 \<Longrightarrow> copied_old en rel old s s2"
  by (simp add: copied_old_def)

text \<open>Opening and writing, from a state the copy and the folders have reached.\<close>

lemma open_and_write:
  assumes "open_truncated create target rel other s = (x, s1)" "direct (dk_files s) target"
    and "if x = Ok target then write_out target content s1 = (y, s2) else s2 = s1"
  shows "pj_log s2 = pj_log (s :: project)" and "\<forall>p. p \<noteq> target \<longrightarrow> dk_files s2 p = dk_files s p"
    and "dk_files s2 target \<noteq> dk_files s target \<Longrightarrow> dk_files s target = None \<or> (\<exists>old. dk_files s target = Some (Regular old))"
    and "x = Ok target \<Longrightarrow> y = None \<Longrightarrow> dk_files s target \<noteq> Some Special \<Longrightarrow> dk_files s2 target = Some (Regular content)"
proof -
  note o = open_truncated_effect [OF assms(1,2)]
  show "pj_log s2 = pj_log s" using o(1) write_out_effect(1) assms(3) by (cases "x = Ok target") auto
  have files: "dk_files s2 = dk_files s1 \<or> (\<exists>old c. dk_files s1 target = Some (Regular old) \<and> dk_files s2 = (dk_files s1)(target \<mapsto> Regular c))"
    using write_out_effect(2) [of target content s1 y s2] assms(3) by (cases "x = Ok target") simp_all
  show "\<forall>p. p \<noteq> target \<longrightarrow> dk_files s2 p = dk_files s p"
    using files o(2) by auto
  show "dk_files s2 target \<noteq> dk_files s target \<Longrightarrow> dk_files s target = None \<or> (\<exists>old. dk_files s target = Some (Regular old))"
    using files o(2) by auto
  show "dk_files s2 target = Some (Regular content)" if "x = Ok target" "y = None" "dk_files s target \<noteq> Some Special"
    using that o(3) [OF that(1)] write_out_effect(3) [of target content s1 y s2 "''''"] assms(3) by simp
qed

lemma write_in_project_effect:
  assumes run: "write_in_project en path content home target s = (ans, s1)"
    and ok: "tree_ok (dk_files s)" "direct (dk_files s) target"
  shows "touched target (dk_files s) (dk_files s1)"
    and "dk_files s target = Some n \<Longrightarrow> dk_files s1 target \<noteq> Some n \<Longrightarrow> \<exists>old. n = Regular old \<and> copied_old en path old s s1"
    and "ans = Ok t \<Longrightarrow> dk_files s target \<noteq> Some Special \<Longrightarrow> dk_files s1 target = Some (Regular content)"
proof -
  let ?dirs = "\<lambda>e. refused_write (''Failed to create directories: '' @ te_word en e) e"
  let ?fail = "\<lambda>e. refused_write (''Failed to write file '' @ in_quotes path @ '': '' @ te_word en e) e"
  obtain a sa where A: "keep_pre_edit_copy en path target home Overwrite s = (a, sa)" by fastforce
  obtain b sb where B: "make_parents_below path home target ?dirs sa = (b, sb)" by fastforce
  obtain x sc where C: "open_truncated True target path ?fail sb = (x, sc)" by fastforce
  obtain y sd where D: "write_out target content sc = (y, sd)" by fastforce
  note copy = keep_copy [OF A ok]
  have b: "only_new_folders (dk_files s) (dk_files sb)" "pj_log sb = pj_log sa"
    using make_parents [OF B] copy(1) ok(1) by simp_all
  have db: "direct (dk_files sb) target" using only_new_direct [OF b(1) ok(2)] .
  define se where "se = (if x = Ok target then sd else sc)"
  have "if x = Ok target then write_out target content sc = (y, se) else se = sc" using D by (simp add: se_def)
  note cd = open_and_write [OF C db this]
  have xs: "x = Ok q \<Longrightarrow> q = target" for q using open_truncated_effect(3) [OF C db] by blast
  have which: "((\<exists>e. a = Err e) \<and> s1 = sa \<and> (\<exists>e. ans = Err e)) \<or> ((\<exists>k. a = Ok k) \<and> s1 = sb \<and> (\<exists>e. ans = Err e))
      \<or> ((\<exists>k. a = Ok k) \<and> s1 = se \<and> (\<forall>t. ans = Ok t \<longrightarrow> x = Ok target \<and> y = None))"
  proof (cases a)
    case (Inl e)
    then show ?thesis using run A by (auto simp: write_in_project_def)
  next
    case (Inr k)
    show ?thesis
    proof (cases b)
      case (Some e)
      then show ?thesis using run A B Inr by (auto simp: write_in_project_def)
    next
      case None
      show ?thesis
      proof (cases x)
        case (Inl e)
        then show ?thesis using run A B C Inr None by (auto simp: write_in_project_def se_def)
      next
        case x: (Inr q)
        then show ?thesis using run A B C D Inr None xs [OF x] by (cases y) (auto simp: write_in_project_def se_def)
      qed
    qed
  qed
  have se: "dk_files se p = dk_files sb p" if "p \<noteq> target" for p using cd(2) that by blast
  show "touched target (dk_files s) (dk_files s1)"
    using which copy(1) b(1) se unfolding touched_def only_new_folders_def by metis
  show "\<exists>old. n = Regular old \<and> copied_old en path old s s1"
    if n: "dk_files s target = Some n" "dk_files s1 target \<noteq> Some n"
  proof -
    have sb: "dk_files sb target = Some n" using only_new_keeps [OF b(1) n(1)] .
    then have se: "s1 = se" "\<exists>k. a = Ok k" using which n copy(1) by auto
    then obtain old where old: "n = Regular old" using cd(3) n(2) sb by auto
    have "a = Ok KeptCopy" using se(2) copy(2) n(1) old by (metis pre_edit.exhaust)
    then show ?thesis using copy(3) n(1) old copied_old_log cd(1) b(2) se(1) by fastforce
  qed
  show "dk_files s1 target = Some (Regular content)" if t: "ans = Ok t" "dk_files s target \<noteq> Some Special"
  proof -
    have "dk_files sb target \<noteq> Some Special" using t(2) b(1) unfolding only_new_folders_def by (metis node.distinct(9) option.inject)
    then show ?thesis using which t(1) cd(4) by auto
  qed
qed

section \<open>What the tools promise\<close>

datatype file_call = WriteCall json | EditCall json | ReadCall json | ListCall json

fun run_file_call :: "file_env \<Rightarrow> file_call \<Rightarrow> project \<Rightarrow> (string, string) res \<times> project" where
  "run_file_call en (WriteCall a) s = file_write en a s"
| "run_file_call en (EditCall a) s = file_edit en a s"
| "run_file_call en (ReadCall a) s = file_read en a s"
| "run_file_call en (ListCall a) s = file_list en a s"

text \<open>A place a project's file tools may write: under the project's real folder, through no link, outside git's and an older OpenAlpaca's folders.\<close>

definition writable_place :: "files \<Rightarrow> path \<Rightarrow> path \<Rightarrow> bool" where
  "writable_place fs home target \<longleftrightarrow>
     (\<exists>real. canonicalize fs home = Ok real \<and> prefix real target \<and> direct fs target
        \<and> \<not> has_name ''.openalpaca'' (drop (length real) target) \<and> \<not> has_name ''.git'' (drop (length real) target))"

lemma resolved_writable:
  "tree_ok fs \<Longrightarrow> resolve_workspace_path_for_write word fs rel home ProjectRules = Ok target \<Longrightarrow> writable_place fs home target"
  using resolved_confined [of fs AccessWrite word rel home ProjectRules target] by (auto simp: writable_place_def)

lemma writable_direct: "writable_place fs home target \<Longrightarrow> direct fs target"
  by (auto simp: writable_place_def)

lemma plan_write_target:
  assumes "plan_write en path content s = Ok (WriteProject home target replaces)" "tree_ok (dk_files s)"
  shows "working_folder_of (fe_ctx en) = Ok (ProjectFolder home)"
    and "resolve_workspace_path_for_write (te_word en) (dk_files s) path home ProjectRules = Ok target"
    and "writable_place (dk_files s) home target" and "dk_files s target \<noteq> Some Special"
proof -
  have a: "working_folder_of (fe_ctx en) = Ok (ProjectFolder home)
      \<and> resolve_workspace_path_for_write (te_word en) (dk_files s) path home ProjectRules = Ok target
      \<and> not_a_file path ''file_write cannot replace it.'' (dk_files s) target = None"
    using assms(1) unfolding plan_write_def Let_def
    by (auto split: if_splits sum.splits working_folder.splits working_folder_refusal.splits option.splits)
  then show "working_folder_of (fe_ctx en) = Ok (ProjectFolder home)"
    and r: "resolve_workspace_path_for_write (te_word en) (dk_files s) path home ProjectRules = Ok target" by simp_all
  show w: "writable_place (dk_files s) home target" by (rule resolved_writable [OF assms(2) r])
  show "dk_files s target \<noteq> Some Special"
    using a metadata_direct [OF writable_direct [OF w] assms(2)] by (auto simp: not_a_file_def)
qed

lemma plan_edit_target:
  assumes "plan_edit en a s = Ok pl" "tree_ok (dk_files s)"
  shows "working_folder_of (fe_ctx en) = Ok (ProjectFolder (ep_root pl))"
    and "resolve_workspace_path_for_write (te_word en) (dk_files s) (ea_path a) (ep_root pl) ProjectRules = Ok (ep_target pl)"
    and "writable_place (dk_files s) (ep_root pl) (ep_target pl)"
    and "\<exists>old ed. dk_files s (ep_target pl) = Some (Regular old) \<and> utf8_ok old
      \<and> apply_edit (ea_path a) old (ea_old_string a) (ea_new_string a) (ea_replace_all a) = Ok ed \<and> ep_text pl = ed_text ed"
proof -
  let ?fail = "\<lambda>e. ''Failed to read file '' @ in_quotes (ea_path a) @ '': '' @ te_word en e"
  obtain bytes ed where b: "working_folder_of (fe_ctx en) = Ok (ProjectFolder (ep_root pl))
      \<and> resolve_workspace_path_for_write (te_word en) (dk_files s) (ea_path a) (ep_root pl) ProjectRules = Ok (ep_target pl)
      \<and> read_leaf (ep_target pl) (ea_path a) ?fail ?fail (dk_files s) = Ok bytes \<and> utf8_ok bytes
      \<and> apply_edit (ea_path a) bytes (ea_old_string a) (ea_new_string a) (ea_replace_all a) = Ok ed \<and> ep_text pl = ed_text ed"
    using assms(1) unfolding plan_edit_def Let_def
    by (auto split: if_splits sum.splits working_folder.splits working_folder_refusal.splits node.splits)
  then show "working_folder_of (fe_ctx en) = Ok (ProjectFolder (ep_root pl))"
    and r: "resolve_workspace_path_for_write (te_word en) (dk_files s) (ea_path a) (ep_root pl) ProjectRules = Ok (ep_target pl)" by simp_all
  show w: "writable_place (dk_files s) (ep_root pl) (ep_target pl)" by (rule resolved_writable [OF assms(2) r])
  have "dk_files s (ep_target pl) = Some (Regular bytes)"
    using b by (auto simp: read_leaf_def Let_def dest: entry_of_direct_id [OF _ writable_direct [OF w]]
        split: sum.splits option.splits node.splits if_splits)
  then show "\<exists>old ed. dk_files s (ep_target pl) = Some (Regular old) \<and> utf8_ok old
      \<and> apply_edit (ea_path a) old (ea_old_string a) (ea_new_string a) (ea_replace_all a) = Ok ed \<and> ep_text pl = ed_text ed"
    using b by blast
qed

text \<open>What an edit leaves: the target and nothing else, once its old content is in the log.\<close>

lemma file_edit_effect:
  assumes run: "file_edit en arguments s = (ans, s1)" and ok: "tree_ok (dk_files s)"
  obtains (same) "dk_files s1 = dk_files s" "\<exists>e. ans = Err e"
    | (edited) a pl old where "edit_args_of arguments = Ok a" "plan_edit en a s = Ok pl"
        "dk_files s (ep_target pl) = Some (Regular old)" "copied_old en (ea_path a) old s s1"
        "\<forall>p. p \<noteq> ep_target pl \<longrightarrow> dk_files s1 p = dk_files s p"
        "\<And>t. ans = Ok t \<Longrightarrow> dk_files s1 (ep_target pl) = Some (Regular (ep_text pl))"
proof (cases "\<exists>a pl. edit_args_of arguments = Ok a \<and> plan_edit en a s = Ok pl")
  case False
  then show ?thesis using that(1) run by (auto simp: file_edit_def split: sum.splits)
next
  case True
  then obtain a pl where pl: "edit_args_of arguments = Ok a" "plan_edit en a s = Ok pl" by blast
  note pt = plan_edit_target [OF pl(2) ok]
  note d = writable_direct [OF pt(3)]
  obtain k sa where A: "keep_pre_edit_copy en (ea_path a) (ep_target pl) (ep_root pl) EditVerb s = (k, sa)" by fastforce
  note copy = keep_copy [OF A ok d]
  obtain x sc where C: "open_truncated False (ep_target pl) (ea_path a) (edit_open_failed en (ea_path a)) sa = (x, sc)" by fastforce
  obtain y sd where D: "write_out (ep_target pl) (ep_text pl) sc = (y, sd)" by fastforce
  have da: "direct (dk_files sa) (ep_target pl)" using d copy(1) by simp
  define se where "se = (if x = Ok (ep_target pl) then sd else sc)"
  have "if x = Ok (ep_target pl) then write_out (ep_target pl) (ep_text pl) sc = (y, se) else se = sc" using D by (simp add: se_def)
  note cd = open_and_write [OF C da this]
  have xs: "x = Ok q \<Longrightarrow> q = ep_target pl" for q using open_truncated_effect(3) [OF C da] by blast
  show ?thesis
  proof (cases "k = Ok KeptCopy")
    case False
    then have "s1 = sa \<and> (\<exists>e. ans = Err e)"
      using run pl A by (auto simp: file_edit_def Let_def split: sum.splits pre_edit.splits)
    then show ?thesis using that(1) copy(1) by simp
  next
    case True
    have which: "s1 = se \<and> (\<forall>t. ans = Ok t \<longrightarrow> x = Ok (ep_target pl) \<and> y = None)"
    proof (cases x)
      case (Inl e)
      then show ?thesis using run pl A C True by (auto simp: file_edit_def Let_def se_def)
    next
      case x: (Inr q)
      then show ?thesis using run pl A C D True xs [OF x] by (cases y) (auto simp: file_edit_def Let_def se_def)
    qed
    obtain old where old: "dk_files s (ep_target pl) = Some (Regular old)" "copied_old en (ea_path a) old s sa"
      using copy(3) [OF True] by blast
    show ?thesis
      using that(2) [OF pl old(1)] copied_old_log [OF old(2)] cd(1,2,4) which copy(1) old(1) by simp
  qed
qed

lemma acting_folder_effect:
  assumes "acting_folder en s = (r, s1)" "tree_ok (dk_files s)"
  shows "only_new_folders (dk_files s) (dk_files s1)"
    and "working_folder_of (fe_ctx en) = Ok (ProjectFolder home) \<Longrightarrow> s1 = s \<and> (\<forall>p ru. r = Ok (p, ru) \<longrightarrow> p = home \<and> ru = ProjectRules)"
  using assms ensure_effect [OF assms(2)]
  by (auto simp: acting_folder_def rules_of_def split: sum.splits prod.splits if_splits)

lemma reading_keeps:
  assumes "file_read en arguments s = (ans, s1) \<or> file_list en arguments s = (ans, s1)" "tree_ok (dk_files s)"
  shows "only_new_folders (dk_files s) (dk_files s1)"
    and "working_folder_of (fe_ctx en) = Ok (ProjectFolder home) \<Longrightarrow> s1 = s"
proof -
  obtain r sa where a: "acting_folder en s = (r, sa)" by fastforce
  have "s1 = sa \<or> s1 = s"
    using assms(1) a by (auto simp: file_read_def file_list_def split: sum.splits prod.splits if_splits)
  then show "only_new_folders (dk_files s) (dk_files s1)" "working_folder_of (fe_ctx en) = Ok (ProjectFolder home) \<Longrightarrow> s1 = s"
    using acting_folder_effect [OF a assms(2)] by auto
qed


text \<open>C35: A file tool's answer is true. In a project, a write that answers done left exactly the given content at the path it resolved to and made at most new folders besides; an edit that answers done left there exactly what the edit makes of the text that was there, and touched nothing else; a read that answers gave the content of one regular file of the project, valid UTF-8 within the size bound, and changed nothing; a listing changed nothing.\<close>

theorem file_answer_true:
  assumes "tree_ok (dk_files s)" and "working_folder_of (fe_ctx en) = Ok (ProjectFolder home)"
    and "run_file_call en call s = (Ok answer, s1)"
  shows "case call of
      WriteCall arguments \<Rightarrow> \<exists>path content target. write_arguments arguments = Ok (path, content)
        \<and> resolve_workspace_path_for_write (te_word en) (dk_files s) path home ProjectRules = Ok target
        \<and> dk_files s1 target = Some (Regular content) \<and> touched target (dk_files s) (dk_files s1)
    | EditCall arguments \<Rightarrow> \<exists>a target old ed. edit_args_of arguments = Ok a
        \<and> resolve_workspace_path_for_write (te_word en) (dk_files s) (ea_path a) home ProjectRules = Ok target
        \<and> dk_files s target = Some (Regular old)
        \<and> apply_edit (ea_path a) old (ea_old_string a) (ea_new_string a) (ea_replace_all a) = Ok ed
        \<and> dk_files s1 = (dk_files s)(target \<mapsto> Regular (ed_text ed))
    | ReadCall arguments \<Rightarrow> s1 = s \<and> utf8_ok answer \<and> length answer \<le> MAX_FILE_READ_SIZE
        \<and> (\<exists>path target. resolve_workspace_path (te_word en) (dk_files s) path home ProjectRules = Ok target
             \<and> dk_files s target = Some (Regular answer))
    | ListCall arguments \<Rightarrow> s1 = s"
proof (cases call)
  case (WriteCall arguments)
  obtain path content where a: "write_arguments arguments = Ok (path, content)"
    using assms(3) WriteCall by (auto simp: file_write_def split: sum.splits)
  obtain h target replaces where pl: "plan_write en path content s = Ok (WriteProject h target replaces)"
  proof -
    have "plan_write en path content s \<noteq> Ok WriteByProduct"
      using assms(2) unfolding plan_write_def Let_def by (simp split: if_split sum.split option.split)
    then show ?thesis
      using that assms(3) WriteCall a by (auto simp: file_write_def split: sum.splits write_plan.splits)
  qed
  note pt = plan_write_target [OF pl assms(1)]
  have "write_in_project en path content h target s = (Ok answer, s1)" using assms(3) WriteCall a pl by (simp add: file_write_def)
  note e = write_in_project_effect [OF this assms(1) writable_direct [OF pt(3)]]
  have "h = home" using pt(1) assms(2) by simp
  then show ?thesis using WriteCall a pt(2) e(1) e(3) [OF refl pt(4)] by auto
next
  case (EditCall arguments)
  then have "file_edit en arguments s = (Ok answer, s1)" using assms(3) by simp
  then show ?thesis
  proof (cases rule: file_edit_effect [OF _ assms(1), consumes 1, case_names same edited])
    case (edited a pl old)
    note pt = plan_edit_target [OF edited(2) assms(1)]
    have "ep_root pl = home" using pt(1) assms(2) by simp
    moreover obtain ed where "apply_edit (ea_path a) old (ea_old_string a) (ea_new_string a) (ea_replace_all a) = Ok ed"
        "ep_text pl = ed_text ed" using pt(4) edited(3) by auto
    moreover have "dk_files s1 = (dk_files s)(ep_target pl \<mapsto> Regular (ep_text pl))"
      using edited(5) edited(6) [OF refl] by (auto simp: fun_eq_iff)
    ultimately show ?thesis using EditCall edited(1,3) pt(2) by auto
  qed simp
next
  case (ReadCall arguments)
  then have run: "file_read en arguments s = (Ok answer, s1)" using assms(3) by simp
  then have same: "s1 = s" using reading_keeps(2) [OF _ assms(1) assms(2)] by blast
  obtain r sa where f: "acting_folder en s = (r, sa)" by fastforce
  have sa: "sa = s" "\<And>p ru. r = Ok (p, ru) \<Longrightarrow> p = home \<and> ru = ProjectRules"
    using acting_folder_effect(2) [OF f assms(1) assms(2)] by blast+
  obtain path target where t: "resolve_workspace_path (te_word en) (dk_files s) path home ProjectRules = Ok target"
      "read_opened en path target (dk_files s) = Ok answer"
    using run f sa by (auto simp: file_read_def split: sum.splits prod.splits)
  have "direct (dk_files s) target"
    using resolved_confined [of "dk_files s" AccessRead "te_word en" path home ProjectRules target] t(1) assms(1) by auto
  then have "dk_files s target = Some (Regular answer) \<and> utf8_ok answer \<and> length answer \<le> MAX_FILE_READ_SIZE"
    using t(2) entry_of_direct_id by (fastforce simp: read_opened_def Let_def split: sum.splits option.splits node.splits if_splits)
  then show ?thesis using ReadCall same t(1) by auto
next
  case (ListCall arguments)
  then show ?thesis using reading_keeps(2) [OF _ assms(1) assms(2)] assms(3) by auto
qed

section \<open>A project\<close>

definition demo_log_writer :: writer where
  "demo_log_writer = (writer_new ''s'' demo_dir False [])
     \<lparr>wr_dir := demo_dir\<lparr>sd_files := [(LIVE_SEGMENT, [])]\<rparr>, wr_log := Some \<lparr>ol_bytes = 0, ol_first = None, ol_next = 1\<rparr>\<rparr>"

definition demo_file_env :: file_env where
  "demo_file_env =
     \<lparr>te_word = (\<lambda>e. ''e''), te_codec = demo_codec, te_limits = \<lparr>lm_rotate_bytes = 1000000, lm_max_session_bytes = 1000000\<rparr>,
      te_now = ''now'', te_aside = ''aside'', te_no_copy = ''no'', te_store = Some [''s''], te_snapshot_max = 1000,
      te_task_id = None, te_agent_name = None,
      fe_ctx = \<lparr>fc_workspace_root = Some ''/p'', fc_conversation_id = None,
                fc_lookup = (\<lambda>p. Ok (Some \<lparr>pe_root = [''p''], pe_missing = False\<rparr>)), fc_home_root = Ok [''s'']\<rparr>,
      fe_list_row = None, fe_put_artifact = None, fe_names = (\<lambda>fs p. [])\<rparr>"

definition demo_project :: project where
  "demo_project = \<lparr>dk_files = demo_files, dk_answers = [], pj_log = Some (LogLive demo_log_writer)\<rparr>"

definition demo_target :: path where
  "demo_target = [''p'', ''d'', ''a.md'']"

definition demo_spec :: snapshot_spec where
  "demo_spec = \<lparr>ss_path = ''d/a.md'', ss_source = Some ''old'', ss_task = None, ss_span = None, ss_agent = None\<rparr>"

definition demo_edit_call :: file_call where
  "demo_edit_call = EditCall (JObject [(''path'', JString ''d/a.md''), (''old_string'', JString ''ol''), (''new_string'', JString ''c'')])"

lemma demo_file: "dk_files demo_project demo_target = Some (Regular ''old'')"
  by (simp add: demo_project_def demo_files_def demo_target_def)

lemma demo_tree: "tree_ok (dk_files demo_project)"
  using demo_tree_ok by (simp add: demo_project_def)

lemma demo_copy:
  "\<exists>img w. process demo_codec (te_limits demo_file_env) ''now'' ''aside'' [MSnapshot demo_spec] demo_log_writer = ([Some img], False, w)
     \<and> wr_wrote w ! 0 = logged 1 (snapshot_record demo_codec ''now'' demo_spec 1 ''old'')"
proof -
  let ?r = "snapshot_record demo_codec ''now'' demo_spec 1 ''old''"
  let ?w1 = "demo_log_writer\<lparr>wr_dir := (wr_dir demo_log_writer)\<lparr>sd_snapshots := [(snapshot_file 1 ''d/a.md'', ''old'')]\<rparr>\<rparr>"
  have p: "prepared demo_codec ?r ?w1 = (?r, ?w1)"
    by (simp add: prepared_def spill_result_def snapshot_record_def cap_data_def demo_codec_def stamp_boundary_def
        ENVELOPE_DATA_CAP_BYTES_def)
  obtain w2 where l: "log_write demo_codec ?r ?w1 = (Some 1, w2)" "wr_wrote w2 = [logged 1 ?r]"
    by (simp add: log_write_def ask_def append_line_def demo_log_writer_def writer_new_def Let_def)
  obtain w3 where w3: "write_record demo_codec (te_limits demo_file_env) ''now'' ?r ?w1 = (Some 1, w3)" "prefix [logged 1 ?r] (wr_wrote w3)"
    using write_record_appends [OF p l(1)] l(2) by auto
  have e: "ensure_log demo_codec ''aside'' demo_log_writer = (True, demo_log_writer)"
    by (simp add: ensure_log_def demo_log_writer_def writer_new_def)
  have "write_snapshot_file (snapshot_file 1 ''d/a.md'') (Some ''old'') demo_log_writer = (Some ''old'', ?w1)"
    by (simp add: write_snapshot_file_def ask_def demo_log_writer_def writer_new_def demo_dir_def)
  then have "take_snapshot demo_codec (te_limits demo_file_env) ''now'' demo_spec demo_log_writer
      = (Some (SNAPSHOTS_DIR @ ''/'' @ snapshot_file 1 ''d/a.md'', 1, 3, cd_sha demo_codec ''old''), w3)"
    using w3(1) by (simp add: take_snapshot_def demo_log_writer_def writer_new_def demo_spec_def)
  then show ?thesis using e w3(2) by (cases "wr_wrote w3") auto
qed

lemma demo_edit:
  obtains t w s1 where "run_file_call demo_file_env demo_edit_call demo_project = (Ok t, s1)" "pj_log s1 = Some (LogLive w)"
    "wr_wrote w ! 0 = logged 1 (snapshot_record demo_codec ''now'' demo_spec 1 ''old'')"
    "dk_files s1 demo_target = Some (Regular ''cd'')"
proof -
  let ?a = "\<lparr>ea_path = ''d/a.md'', ea_old_string = ''ol'', ea_new_string = ''c'', ea_replace_all = False\<rparr>"
  let ?pl = "\<lparr>ep_root = [''p''], ep_target = demo_target, ep_text = ''cd'', ep_replacements = 1, ep_first_line = 1\<rparr>"
  have a: "edit_args_of (JObject [(''path'', JString ''d/a.md''), (''old_string'', JString ''ol''), (''new_string'', JString ''c'')]) = Ok ?a"
    by code_simp
  have fs: "dk_files demo_project = demo_files" by (simp add: demo_project_def)
  have env: "working_folder_of (fe_ctx demo_file_env) = Ok (ProjectFolder [''p''])" "te_word demo_file_env = (\<lambda>e. ''e'')" "te_snapshot_max demo_file_env = 1000"
    by (simp_all add: demo_file_env_def working_folder_of_def not_blank_def project_folder_def is_blank_def)
      (simp add: byte_of_def)
  have res: "resolve_workspace_path_for_write (\<lambda>e. ''e'') demo_files ''d/a.md'' [''p''] ProjectRules = Ok demo_target"
    unfolding demo_target_def by code_simp
  have md: "metadata demo_files demo_target = Ok (Regular ''old'')" unfolding demo_target_def by code_simp
  have chk: "check_pre_edit ''d/a.md'' demo_target demo_files True 1000 EditVerb = Ok True"
    by (simp add: check_pre_edit_def md)
  have rd: "read_leaf demo_target ''d/a.md'' f f demo_files = Ok ''old''" for f
    unfolding read_leaf_def demo_target_def Let_def by (simp add: entry_place_def, code_simp)
  have u: "utf8_ok ''old''" by code_simp
  have ed: "apply_edit ''d/a.md'' ''old'' ''ol'' ''c'' False = Ok \<lparr>ed_text = ''cd'', ed_replacements = 1, ed_first_line = 1\<rparr>" by code_simp
  have pl: "plan_edit demo_file_env ?a demo_project = Ok ?pl"
    by (simp add: plan_edit_def fs env res md chk rd u ed MAX_FILE_READ_SIZE_def) (simp add: demo_project_def chk MAX_FILE_READ_SIZE_def rd u ed)
  obtain img w where w: "process demo_codec (te_limits demo_file_env) ''now'' ''aside'' [MSnapshot demo_spec] demo_log_writer = ([Some img], False, w)"
      "wr_wrote w ! 0 = logged 1 (snapshot_record demo_codec ''now'' demo_spec 1 ''old'')"
    using demo_copy by blast
  have at_target: "demo_files demo_target = Some (Regular ''old'')" by (simp add: demo_files_def demo_target_def)
  have can: "canonicalize demo_files demo_target = Ok demo_target" unfolding demo_target_def by code_simp
  have snap: "is_snapshotable demo_files demo_target [''p''] (Some [''s''])" unfolding demo_target_def by code_simp
  have log: "log_snapshot demo_file_env demo_spec (LogLive demo_log_writer) = (Ok img, LogLive w)"
    using w(1) by (simp add: log_snapshot_def demo_file_env_def)
  have spec: "\<lparr>ss_path = ''d/a.md'', ss_source = Some ''old'', ss_task = te_task_id demo_file_env, ss_span = None,
      ss_agent = te_agent_name demo_file_env\<rparr> = demo_spec" "te_store demo_file_env = Some [''s'']"
    by (simp_all add: demo_spec_def demo_file_env_def)
  have pj: "pj_log demo_project = Some (LogLive demo_log_writer)" by (simp add: demo_project_def)
  have keep: "keep_pre_edit_copy demo_file_env ''d/a.md'' demo_target [''p''] EditVerb demo_project
      = (Ok KeptCopy, demo_project\<lparr>pj_log := Some (LogLive w)\<rparr>)"
    by (simp add: keep_pre_edit_copy_def fs env chk can snap log spec pj at_target)
  have entry: "entry_place demo_files demo_target = Ok demo_target" unfolding demo_target_def by code_simp
  let ?s2 = "demo_project\<lparr>pj_log := Some (LogLive w), dk_files := demo_files(demo_target \<mapsto> Regular '''')\<rparr>"
  have op: "open_truncated False demo_target ''d/a.md'' g (demo_project\<lparr>pj_log := Some (LogLive w)\<rparr>) = (Ok demo_target, ?s2)" for g
    by (simp add: open_truncated_def sys_def demo_project_def entry at_target)
  have wr: "write_out demo_target ''cd'' ?s2 = (None, ?s2\<lparr>dk_files := demo_files(demo_target \<mapsto> Regular ''cd'')\<rparr>)"
    by (simp add: write_out_def sys_def demo_project_def)
  have "run_file_call demo_file_env demo_edit_call demo_project
      = (Ok (edit_result ''d/a.md'' ?pl (list_row demo_file_env [''p''] demo_target ''cd'')),
         ?s2\<lparr>dk_files := demo_files(demo_target \<mapsto> Regular ''cd'')\<rparr>)"
    unfolding demo_edit_call_def run_file_call.simps file_edit_def a sum.case pl Let_def
    by (simp add: keep op wr)
  then show ?thesis using that w(2) by simp
qed

text \<open>The record of the copy is short.\<close>

lemma demo_line: "length (line_of demo_codec (logged 1 (snapshot_record demo_codec ''now'' demo_spec 1 ''old''))) \<le> 900000"
proof -
  have "length (to_line (\<lambda>s. s) (\<lambda>_. ''null'') \<lparr>lg_seq = 1, lg_ts = ''now'', lg_kind = ''file_snapshot'', lg_task = None, lg_span = None,
      lg_agent = None, lg_data = x\<rparr>) = 52" for x by code_simp
  then show ?thesis by (simp add: line_of_def demo_codec_def logged_def snapshot_record_def demo_spec_def)
qed


theorem file_answer_true_witness:
  "\<exists>t s1. run_file_call demo_file_env demo_edit_call demo_project = (Ok t, s1)
    \<and> dk_files s1 = (dk_files demo_project)(demo_target \<mapsto> Regular ''cd'')"
proof -
  obtain t w s1 where run: "run_file_call demo_file_env demo_edit_call demo_project = (Ok t, s1)" "dk_files s1 demo_target = Some (Regular ''cd'')"
    by (rule demo_edit)
  have env: "working_folder_of (fe_ctx demo_file_env) = Ok (ProjectFolder [''p''])"
    by (simp add: demo_file_env_def working_folder_of_def not_blank_def project_folder_def is_blank_def) (simp add: byte_of_def)
  obtain target and ed :: edited where s1: "dk_files s1 = (dk_files demo_project)(target \<mapsto> Regular (ed_text ed))"
    using file_answer_true [OF demo_tree env run(1)] unfolding demo_edit_call_def file_call.case
    by (elim exE conjE) (rule that, assumption)
  have "target = demo_target"
  proof (rule ccontr)
    assume "target \<noteq> demo_target"
    then have "dk_files s1 demo_target = dk_files demo_project demo_target" using s1 by simp
    then show False using run(2) demo_file by simp
  qed
  moreover from this have "ed_text ed = ''cd''" using s1 run(2) by simp
  ultimately have "dk_files s1 = (dk_files demo_project)(demo_target \<mapsto> Regular ''cd'')" using s1 by simp
  then show ?thesis using run(1) by (intro exI conjI)
qed

end
