(* ===== verification/Subagents.thy ===== *)
theory Subagents
  imports Session_Replay
begin

text \<open>
  The subagents of a lead agent's run (\<open>runner/lead_agent/tracker.rs\<close>): the status of each, what the lead has
  been told, the report of a wait and its size, the entries of a resumed run; and the two tools of the lead
  that read them (\<open>check_subagent_status\<close>, \<open>wait_for_subagents\<close> of \<open>runner/lead_agent/tools.rs\<close>). The order in
  which a hash map is walked is the order of a table; the counts of a wait and its report are read in one look.
\<close>

section \<open>State\<close>

datatype subagent_status =
    SubQueued
  | SubRunning
  | SubCompleted string bool
  | SubFailed string string

record tracker =
  tk_statuses :: "(string, subagent_status) table"
  tk_reported :: "string list"
  tk_inline_bytes :: nat
  tk_run_has_log :: bool

definition SUMMARY_HEADER_RESERVE_BYTES :: nat where
  "SUMMARY_HEADER_RESERVE_BYTES = 1024"

definition REPORTED_IDS_LIST_BYTES :: nat where
  "REPORTED_IDS_LIST_BYTES = 512"

definition SUMMARY_ENTRY_OVERHEAD_BYTES :: nat where
  "SUMMARY_ENTRY_OVERHEAD_BYTES = 768"

definition SUMMARY_ANSWER_CAP_BYTES :: nat where
  "SUMMARY_ANSWER_CAP_BYTES = 8 * 1024"

definition SUMMARY_ANSWER_FLOOR_BYTES :: nat where
  "SUMMARY_ANSWER_FLOOR_BYTES = 512"

definition SUMMARY_ERROR_MAX_BYTES :: nat where
  "SUMMARY_ERROR_MAX_BYTES = 512"

definition SUBAGENT_DAEMON_STOP_DETAIL :: string where
  "SUBAGENT_DAEMON_STOP_DETAIL = ''interrupted by the daemon'' @ [CHR 0x27] @ ''s stop''"

definition answer_budget :: "nat \<Rightarrow> nat \<Rightarrow> nat" where
  "answer_budget inline_bytes entries =
     (let per_entry = (inline_bytes - SUMMARY_HEADER_RESERVE_BYTES) div max entries 1
      in max SUMMARY_ANSWER_FLOOR_BYTES (min SUMMARY_ANSWER_CAP_BYTES (per_entry - SUMMARY_ENTRY_OVERHEAD_BYTES)))"

fun is_finished :: "subagent_status \<Rightarrow> bool" where
  "is_finished (SubCompleted c b) = True"
| "is_finished (SubFailed e out) = True"
| "is_finished _ = False"

section \<open>Operations\<close>

definition tracker_new :: "nat \<Rightarrow> bool \<Rightarrow> tracker" where
  "tracker_new inline_bytes has_log =
     \<lparr>tk_statuses = [], tk_reported = [], tk_inline_bytes = inline_bytes, tk_run_has_log = has_log\<rparr>"

definition set_status :: "string \<Rightarrow> subagent_status \<Rightarrow> tracker \<Rightarrow> tracker" where
  "set_status run_id st tk = tk\<lparr>tk_statuses := tput run_id st (tk_statuses tk)\<rparr>"

definition register_run :: "string \<Rightarrow> tracker \<Rightarrow> tracker" where
  "register_run run_id = set_status run_id SubQueued"

definition complete_subagent :: "string \<Rightarrow> string \<Rightarrow> bool \<Rightarrow> tracker \<Rightarrow> tracker" where
  "complete_subagent run_id content success = set_status run_id (SubCompleted content success)"

definition fail_with_output :: "string \<Rightarrow> string \<Rightarrow> string \<Rightarrow> tracker \<Rightarrow> tracker" where
  "fail_with_output run_id error output = set_status run_id (SubFailed error output)"

definition status_of :: "tracker \<Rightarrow> string \<Rightarrow> subagent_status option" where
  "status_of tk run_id = tget (tk_statuses tk) run_id"

definition finished_in :: "tracker \<Rightarrow> string \<Rightarrow> bool" where
  "finished_in tk run_id = (case status_of tk run_id of Some st \<Rightarrow> is_finished st | None \<Rightarrow> False)"

definition all_done :: "tracker \<Rightarrow> bool" where
  "all_done tk = list_all (\<lambda>(i, st). is_finished st) (tk_statuses tk)"

definition restored_status :: "replayed_subagent \<Rightarrow> subagent_status" where
  "restored_status sub =
     (case ry_close sub of
        None \<Rightarrow> SubFailed SUBAGENT_DAEMON_STOP_DETAIL []
      | Some close \<Rightarrow>
          if rx_state close = ''done''
          then SubCompleted (if rx_answer close = [] then ''The subagent finished but produced no text output.''
                             else rx_answer close) True
          else SubFailed (case rx_detail close of Some d \<Rightarrow> d | None \<Rightarrow> rx_state close) (rx_answer close))"

definition restore :: "replayed_subagent list \<Rightarrow> tracker \<Rightarrow> tracker" where
  "restore subs tk = fold (\<lambda>sub. set_status (ry_run_id sub) (restored_status sub)) subs tk"

definition unfinished :: "tracker \<Rightarrow> string list" where
  "unfinished tk = sort (map fst (filter (\<lambda>(i, st). \<not> is_finished st) (tk_statuses tk)))"

definition fail_unless_finished :: "string \<Rightarrow> string \<Rightarrow> tracker \<Rightarrow> tracker" where
  "fail_unless_finished run_id error tk =
     (if finished_in tk run_id then tk else fail_with_output run_id error [] tk)"

definition status_counts :: "tracker \<Rightarrow> nat \<times> nat \<times> nat \<times> nat" where
  "status_counts tk =
     (let n = (\<lambda>P. length (filter (\<lambda>(i, st). P st) (tk_statuses tk)))
      in (n (\<lambda>st. st = SubQueued), n (\<lambda>st. st = SubRunning),
          n (\<lambda>st. case st of SubCompleted c b \<Rightarrow> True | _ \<Rightarrow> False), n (\<lambda>st. case st of SubFailed e out \<Rightarrow> True | _ \<Rightarrow> False)))"

definition reaches_lead_whole :: "tracker \<Rightarrow> nat \<Rightarrow> bool" where
  "reaches_lead_whole tk len = (tk_run_has_log tk \<or> len \<le> tk_inline_bytes tk)"

definition mark_reported :: "string \<Rightarrow> tracker \<Rightarrow> tracker" where
  "mark_reported run_id tk =
     (if finished_in tk run_id then tk\<lparr>tk_reported := List.insert run_id (tk_reported tk)\<rparr> else tk)"

section \<open>What the lead reads\<close>

definition entry_line :: "nat \<Rightarrow> string \<times> subagent_status \<Rightarrow> string" where
  "entry_line budget entry =
     (case entry of (run_id, st) \<Rightarrow>
        ''- **'' @ run_id @ ''**: ''
        @ (case st of
             SubQueued \<Rightarrow> ''queued (waiting for execution slot)''
           | SubRunning \<Rightarrow> ''still running''
           | SubCompleted content success \<Rightarrow>
               (if success then ''completed'' else ''completed (partial)'') @ '' '' @ EM_DASH @ '' '' @ head_tail content budget
           | SubFailed error output \<Rightarrow>
               ''failed '' @ EM_DASH @ '' '' @ head_tail error SUMMARY_ERROR_MAX_BYTES
               @ (if output = [] then [] else '' Last output: '' @ head_tail output budget)))"

fun fitting_ids :: "nat \<Rightarrow> bool \<Rightarrow> string list \<Rightarrow> string list" where
  "fitting_ids used none_yet [] = []"
| "fitting_ids used none_yet (i # ids) =
     (let cost = length i + (if none_yet then 0 else 2)
      in if \<not> none_yet \<and> REPORTED_IDS_LIST_BYTES < used + cost then []
         else i # fitting_ids (used + cost) False ids)"

definition bounded_ids :: "string list \<Rightarrow> string" where
  "bounded_ids ids =
     (let shown = fitting_ids 0 True ids; over = length ids - length shown
      in join '', '' shown @ (if over = 0 then [] else '', and '' @ show_nat over @ '' more''))"

definition NONE_SPAWNED :: string where
  "NONE_SPAWNED = ''No subagents have been spawned yet.''"

definition summary :: "tracker \<Rightarrow> string" where
  "summary tk =
     (if tk_statuses tk = [] then NONE_SPAWNED
      else join NL (map (entry_line (answer_budget (tk_inline_bytes tk) (length (tk_statuses tk)))) (tk_statuses tk)))"

definition fresh_entries :: "tracker \<Rightarrow> (string \<times> subagent_status) list" where
  "fresh_entries tk = sort_key fst (filter (\<lambda>(i, st). i \<notin> set (tk_reported tk)) (tk_statuses tk))"

definition earlier_ids :: "tracker \<Rightarrow> string list" where
  "earlier_ids tk = sort (filter (\<lambda>i. i \<in> set (tk_reported tk)) (map fst (tk_statuses tk)))"

definition report_parts :: "tracker \<Rightarrow> string list" where
  "report_parts tk =
     (let fresh = fresh_entries tk;
          parts = map (entry_line (answer_budget (tk_inline_bytes tk) (length fresh))) fresh
      in (if parts = [] then [''No new results since the last report.''] else parts)
         @ (if earlier_ids tk = [] then []
            else [''Reported earlier, not repeated here: '' @ bounded_ids (earlier_ids tk)
                  @ ''. Read any of them again in full with check_subagent_status.'']))"

definition report :: "tracker \<Rightarrow> string \<times> tracker" where
  "report tk =
     (if tk_statuses tk = [] then (NONE_SPAWNED, tk)
      else (join NL (report_parts tk),
            tk\<lparr>tk_reported := fold List.insert (map fst (filter (\<lambda>(i, st). is_finished st) (fresh_entries tk)))
                               (tk_reported tk)\<rparr>))"

section \<open>The lead's tools\<close>

definition status_answer :: "tracker \<Rightarrow> string \<Rightarrow> (string, string) res" where
  "status_answer tk run_id =
     (let name = ''Subagent '' @ [CHR 0x27] @ run_id @ [CHR 0x27]; bq = [CHR 0x60]
      in case status_of tk run_id of
           Some SubQueued \<Rightarrow>
             Ok (name @ '' is queued, waiting for an execution slot. Check again later or use ''
               @ bq @ ''wait_for_subagents'' @ bq @ ''.'')
         | Some SubRunning \<Rightarrow>
             Ok (name @ '' is still running. Check again later or use '' @ bq @ ''wait_for_subagents'' @ bq @ ''.'')
         | Some (SubCompleted content success) \<Rightarrow>
             Ok (name @ '' '' @ (if success then ''completed successfully'' else ''completed with issues'') @ '': '' @ content)
         | Some (SubFailed error output) \<Rightarrow>
             Err (name @ '' failed: '' @ error
               @ (if output = [] then [] else NL @ ''Its last output follows:'' @ NL @ output))
         | None \<Rightarrow>
             Err (''Unknown subagent_run_id: '' @ [CHR 0x27] @ run_id @ [CHR 0x27]
               @ ''. Valid run IDs are shown when calling spawn_subagent.''))"

text \<open>The check reads the status, then marks: what the tracker is by then is a second argument.\<close>

definition check_subagent_status :: "string \<Rightarrow> tracker \<Rightarrow> tracker \<Rightarrow> (string, string) res \<times> tracker" where
  "check_subagent_status run_id tk later =
     (let ans = status_answer tk run_id
      in (ans, if (case ans of Ok t \<Rightarrow> reaches_lead_whole later (length t) | Err e \<Rightarrow> True)
               then mark_reported run_id later else later))"

definition counts_text :: "tracker \<Rightarrow> string" where
  "counts_text tk =
     (case status_counts tk of (queued, running, completed, failed) \<Rightarrow>
        show_nat completed @ '' completed, '' @ show_nat failed @ '' failed, '' @ show_nat queued @ '' queued, ''
        @ show_nat running @ '' running.'')"

definition finished_header :: "tracker \<Rightarrow> string" where
  "finished_header tk =
     (case status_counts tk of (queued, running, completed, failed) \<Rightarrow>
        ''All subagents finished. ''
        @ (if 0 < queued \<or> 0 < running then counts_text tk
           else show_nat completed @ '' completed, '' @ show_nat failed @ '' failed.'') @ NL @ NL)"

text \<open>
  One look of the wait: whether an interjection is pending, the tracker, whether the ten minutes are over.
  Between two looks the wait sleeps; when the looks end it has not returned.
\<close>

record wait_look =
  wl_pending :: bool
  wl_tracker :: tracker
  wl_expired :: bool

fun wait_for_subagents :: "wait_look list \<Rightarrow> (string \<times> tracker) option" where
  "wait_for_subagents [] = None"
| "wait_for_subagents (l # ls) =
     (let tk = wl_tracker l
      in if wl_pending l
         then Some (''Wait interrupted: a user interjection is pending and will be delivered next round ''
                @ EM_DASH @ '' address it before resuming the wait. Status: '' @ counts_text tk @ NL @ NL @ fst (report tk),
              snd (report tk))
         else if all_done tk then Some (finished_header tk @ fst (report tk), snd (report tk))
         else if wl_expired l
         then Some (''Timed out after 600s waiting for subagents. Status: '' @ counts_text tk @ NL @ NL @ fst (report tk),
              snd (report tk))
         else wait_for_subagents ls)"

section \<open>How long a report is\<close>

lemma show_nat_length: "n < 10 ^ k \<Longrightarrow> 0 < k \<Longrightarrow> length (show_nat n) \<le> k"
proof (induction k arbitrary: n)
  case (Suc k)
  show ?case
  proof (cases "n < 10")
    case True
    then show ?thesis by (subst show_nat.simps) simp
  next
    case False
    then have "0 < k" "n div 10 < 10 ^ k" using Suc.prems(1) by (cases k; simp add: div_less_iff_less_mult)+
    then have "length (show_nat (n div 10)) \<le> k" by (rule Suc.IH [rotated])
    then show ?thesis using False by (subst show_nat.simps) simp
  qed
qed simp

lemma show_nat_8: "n < 10 ^ 8 \<Longrightarrow> length (show_nat n) \<le> 8"
  using show_nat_length [of n 8] by simp

lemma head_tail_length:
  assumes "length s < 10 ^ 8"
  shows "length (head_tail s limit) \<le> limit + 65"
proof (cases "length s \<le> limit")
  case False
  let ?half = "limit div 2"
  let ?start = "ceil_char_boundary s (length s - ?half)"
  have "length (show_nat (length s)) \<le> 8" "length (show_nat (?start - length (byte_prefix s ?half))) \<le> 8"
    using assms ceil_le [of s "length s - ?half"] by (intro show_nat_8; simp)+
  moreover have "length (byte_prefix s ?half) \<le> ?half" using floor_le [of s ?half] by (simp add: byte_prefix_def)
  moreover have "length s - ?start \<le> ?half" using ceil_ge [of "length s - ?half" s] by simp
  moreover have "?half + ?half \<le> limit" by simp
  ultimately show ?thesis using False by (simp add: head_tail_def Let_def NL_def)
qed (simp add: head_tail_def)

definition well_sized :: "tracker \<Rightarrow> bool" where
  "well_sized tk =
     (length (tk_statuses tk) < 10 ^ 8
      \<and> list_all (\<lambda>(i, st). length i \<le> 92
          \<and> (case st of SubCompleted c b \<Rightarrow> length c < 10 ^ 8
             | SubFailed e out \<Rightarrow> length e < 10 ^ 8 \<and> length out < 10 ^ 8
             | _ \<Rightarrow> True)) (tk_statuses tk))"

lemma entry_line_length:
  assumes "length i \<le> 92" "512 \<le> b"
    and "case st of SubCompleted c s \<Rightarrow> length c < 10 ^ 8 | SubFailed e out \<Rightarrow> length e < 10 ^ 8 \<and> length out < 10 ^ 8 | _ \<Rightarrow> True"
  shows "length (entry_line b (i, st)) \<le> b + 767"
proof (cases st)
  case (SubCompleted c s)
  then show ?thesis using assms head_tail_length [of c b] by (simp add: entry_line_def EM_DASH_def)
next
  case (SubFailed e out)
  then show ?thesis
    using assms head_tail_length [of e SUMMARY_ERROR_MAX_BYTES] head_tail_length [of out b]
    by (simp add: entry_line_def EM_DASH_def SUMMARY_ERROR_MAX_BYTES_def)
qed (use assms in \<open>simp_all add: entry_line_def\<close>)

lemma fitting_rest: "used \<le> 512 \<Longrightarrow> sum_list (map (\<lambda>i. length i + 2) (fitting_ids used False ids)) + used \<le> 512"
proof (induction ids arbitrary: used)
  case (Cons i ids)
  show ?case
  proof (cases "used + (length i + 2) \<le> 512")
    case True
    then show ?thesis using Cons.IH [of "used + (length i + 2)"] by (simp add: Let_def REPORTED_IDS_LIST_BYTES_def)
  qed (use Cons.prems in \<open>simp add: Let_def REPORTED_IDS_LIST_BYTES_def\<close>)
qed simp

lemma sum_plus_2: "sum_list (map (\<lambda>i. length i + 2) xs) = sum_list (map length xs) + 2 * length xs"
  by (induction xs) auto

lemma bounded_ids_length:
  assumes "length ids < 10 ^ 8" "\<forall>i \<in> set ids. length i \<le> 92"
  shows "length (bounded_ids ids) \<le> 512 + 19"
proof -
  have shown: "length (join '', '' (fitting_ids 0 True ids)) \<le> 512"
  proof (cases ids)
    case (Cons i rest)
    have i: "length i \<le> 512" using Cons assms(2) by auto
    have "sum_list (map length (fitting_ids (length i) False rest)) + 2 * length (fitting_ids (length i) False rest) + length i \<le> 512"
      using fitting_rest [OF i, of rest] unfolding sum_plus_2 .
    then show ?thesis by (simp add: Cons Let_def length_join)
  qed simp
  have "length (show_nat (length ids - length (fitting_ids 0 True ids))) \<le> 8"
    using assms(1) by (intro show_nat_8) simp
  then show ?thesis using shown by (simp add: bounded_ids_def Let_def)
qed

lemma sum_list_le: "(\<And>x. x \<in> set xs \<Longrightarrow> f x \<le> (k :: nat)) \<Longrightarrow> sum_list (map f xs) \<le> length xs * k"
proof (induction xs)
  case (Cons x xs)
  then show ?case using Cons.prems [of x] by fastforce
qed simp

lemma report_length:
  assumes "well_sized tk" "SUMMARY_HEADER_RESERVE_BYTES + 1280 * length (fresh_entries tk) \<le> tk_inline_bytes tk"
  shows "length (fst (report tk)) + 300 \<le> tk_inline_bytes tk"
proof -
  let ?fresh = "fresh_entries tk" and ?b = "answer_budget (tk_inline_bytes tk) (length (fresh_entries tk))"
  let ?n = "length ?fresh"
  let ?lines = "map (entry_line ?b) ?fresh"
  let ?m = "''Reported earlier, not repeated here: '' @ bounded_ids (earlier_ids tk)
      @ ''. Read any of them again in full with check_subagent_status.''"
  have big: "1024 + 1280 * ?n \<le> tk_inline_bytes tk" using assms(2) by (simp add: SUMMARY_HEADER_RESERVE_BYTES_def)
  have sizes: "length i \<le> 92 \<and> (case st of SubCompleted c s \<Rightarrow> length c < 10 ^ 8
      | SubFailed e out \<Rightarrow> length e < 10 ^ 8 \<and> length out < 10 ^ 8 | _ \<Rightarrow> True)" if "(i, st) \<in> set (tk_statuses tk)" for i st
    using that assms(1) by (auto simp: well_sized_def list_all_iff)
  have "set (earlier_ids tk) \<subseteq> fst ` set (tk_statuses tk)" "length (earlier_ids tk) \<le> length (tk_statuses tk)"
    by (auto simp: earlier_ids_def intro: le_trans [OF length_filter_le])
  then have earlier: "length (bounded_ids (earlier_ids tk)) \<le> 531"
    using bounded_ids_length [of "earlier_ids tk"] assms(1) sizes by (fastforce simp: well_sized_def)
  have b: "512 \<le> ?b" by (simp add: answer_budget_def Let_def SUMMARY_ANSWER_FLOOR_BYTES_def)
  have line: "length (entry_line ?b x) \<le> ?b + 767" if "x \<in> set ?fresh" for x
  proof -
    obtain i st where x: "x = (i, st)" by (cases x)
    then have "(i, st) \<in> set (tk_statuses tk)" using that by (simp add: fresh_entries_def)
    then show ?thesis unfolding x using sizes by (intro entry_line_length [OF _ b]) blast+
  qed
  have lines: "length (join NL ?lines) \<le> tk_inline_bytes tk - 1024" if ne: "?fresh \<noteq> []"
  proof -
    have n: "1 \<le> ?n" using ne by (cases ?fresh) auto
    let ?per = "(tk_inline_bytes tk - 1024) div ?n"
    have "1280 * ?n div ?n \<le> ?per" using big by (intro div_le_mono) simp
    then have "1280 \<le> ?per" using ne by simp
    moreover have "max ?n 1 = ?n" using n by simp
    ultimately have "?b + 768 \<le> ?per"
      unfolding answer_budget_def Let_def SUMMARY_ANSWER_FLOOR_BYTES_def SUMMARY_ANSWER_CAP_BYTES_def
        SUMMARY_ENTRY_OVERHEAD_BYTES_def SUMMARY_HEADER_RESERVE_BYTES_def
      by (simp only:)
    then have "?n * (?b + 768) \<le> ?n * ?per" by (rule mult_le_mono2)
    also have "\<dots> \<le> tk_inline_bytes tk - 1024" by simp
    finally have all: "?n * (?b + 768) \<le> tk_inline_bytes tk - 1024" .
    have "sum_list (map length ?lines) \<le> ?n * (?b + 767)"
      using sum_list_le [of ?fresh "\<lambda>x. length (entry_line ?b x)" "?b + 767"] line by (simp add: comp_def)
    then have "length (join NL ?lines) \<le> ?n * (?b + 767) + (?n - 1)" by (simp add: length_join NL_def)
    also have "\<dots> \<le> ?n * (?b + 768)" by (simp add: algebra_simps)
    finally show ?thesis using all by simp
  qed
  have m: "length ?m \<le> 640" using earlier by simp
  show ?thesis
  proof (cases "tk_statuses tk = []")
    case True
    then show ?thesis using big by (simp add: report_def NONE_SPAWNED_def)
  next
    case False
    let ?first = "if ?fresh = [] then [''No new results since the last report.''] else ?lines"
    let ?rest = "if earlier_ids tk = [] then [] else [?m]"
    have parts: "report_parts tk = ?first @ ?rest" by (simp add: report_parts_def Let_def)
    have fst_len: "length (join NL ?first) \<le> max (tk_inline_bytes tk - 1024) 38" using lines by (cases "?fresh = []") auto
    have snoc: "length (join NL (xs @ [y])) \<le> length (join NL xs) + 1 + length y" for xs y
      by (simp add: length_join NL_def)
    have "length (join NL (?first @ ?rest)) \<le> length (join NL ?first) + 1 + 640"
      using snoc [of ?first ?m] m by auto
    moreover have "fst (report tk) = join NL (report_parts tk)" using False by (simp add: report_def)
    ultimately show ?thesis using fst_len big unfolding parts by (simp only:)
  qed
qed

text \<open>C39: What a wait hands the lead stays under the bound a tool result may have. For a run whose ids are at most 92 bytes and whose texts are below 10^8 bytes, when the inline bound holds the header's reserve and 1,280 bytes for every entry not reported yet - 24 entries of the default 32 KiB - the whole text, its header, its entries and the line of the ids reported earlier, is no longer than the bound.\<close>

theorem wait_fits_inline:
  assumes "wait_for_subagents looks = Some (answer, later)"
    and "\<forall>l \<in> set looks. well_sized (wl_tracker l) \<and> tk_inline_bytes (wl_tracker l) = inline_bytes
      \<and> SUMMARY_HEADER_RESERVE_BYTES + 1280 * length (fresh_entries (wl_tracker l)) \<le> inline_bytes"
  shows "length answer \<le> inline_bytes"
  using assms
proof (induction looks)
  case (Cons l ls)
  let ?tk = "wl_tracker l"
  have len: "length (fst (report ?tk)) + 300 \<le> inline_bytes"
    using report_length [of ?tk] Cons.prems(2) by simp
  have "length (tk_statuses ?tk) < 10 ^ 8" using Cons.prems(2) by (simp add: well_sized_def)
  then have small: "length (filter P (tk_statuses ?tk)) < 10 ^ 8" for P by (rule le_less_trans [OF length_filter_le])
  obtain q r c f where counts: "status_counts ?tk = (q, r, c, f)" by (cases "status_counts ?tk") auto
  have "q < 10 ^ 8 \<and> r < 10 ^ 8 \<and> c < 10 ^ 8 \<and> f < 10 ^ 8"
    using counts small by (auto simp: status_counts_def Let_def)
  then have n: "length (show_nat q) \<le> 8" "length (show_nat r) \<le> 8" "length (show_nat c) \<le> 8" "length (show_nat f) \<le> 8"
    using show_nat_8 by blast+
  then have ct: "length (counts_text ?tk) \<le> 80" by (simp add: counts_text_def counts)
  then have h: "length (finished_header ?tk) \<le> 120" using n by (simp add: finished_header_def counts NL_def)
  consider "wl_pending l" | "\<not> wl_pending l" "all_done ?tk" | "\<not> wl_pending l" "\<not> all_done ?tk" "wl_expired l"
    | "\<not> wl_pending l" "\<not> all_done ?tk" "\<not> wl_expired l" by blast
  then show ?case
  proof cases
    case 4
    then show ?thesis using Cons by (simp add: Let_def)
  qed (use Cons.prems(1) len ct h in \<open>auto simp: Let_def NL_def EM_DASH_def\<close>)
qed simp

section \<open>What the lead has been told\<close>

text \<open>
  What happens to a run's subagents, one thing after another; beside the tracker, what the lead was shown: a
  finished status, and whether by a report.
\<close>

datatype lead_event =
    Spawned string
  | Started string
  | Finished string string bool
  | Broke string string string
  | LaneClosed string string
  | Checked string
  | Waited

type_synonym shown = "bool \<times> string \<times> subagent_status"

definition checked_shows :: "string \<Rightarrow> tracker \<Rightarrow> shown list" where
  "checked_shows run_id tk =
     (case status_of tk run_id of
        None \<Rightarrow> []
      | Some st \<Rightarrow>
          if is_finished st
             \<and> (case status_answer tk run_id of Ok t \<Rightarrow> reaches_lead_whole tk (length t) | Err e \<Rightarrow> True)
          then [(False, run_id, st)] else [])"

fun lead_step :: "lead_event \<Rightarrow> tracker \<times> shown list \<Rightarrow> tracker \<times> shown list" where
  "lead_step (Spawned i) (tk, h) = (register_run i tk, h)"
| "lead_step (Started i) (tk, h) = (set_status i SubRunning tk, h)"
| "lead_step (Finished i c b) (tk, h) = (complete_subagent i c b tk, h)"
| "lead_step (Broke i e out) (tk, h) = (fail_with_output i e out tk, h)"
| "lead_step (LaneClosed i e) (tk, h) = (fail_unless_finished i e tk, h)"
| "lead_step (Checked i) (tk, h) = (snd (check_subagent_status i tk tk), h @ checked_shows i tk)"
| "lead_step Waited (tk, h) =
     (snd (report tk), h @ map (\<lambda>(i, st). (True, i, st)) (filter (\<lambda>(i, st). is_finished st) (fresh_entries tk)))"

text \<open>A run id is new when it is spawned, and a finished subagent does not start or finish again.\<close>

fun lead_lawful :: "lead_event list \<Rightarrow> tracker \<times> shown list \<Rightarrow> bool" where
  "lead_lawful [] s = True"
| "lead_lawful (e # es) s =
     ((case e of
         Spawned i \<Rightarrow> status_of (fst s) i = None
       | Started i \<Rightarrow> \<not> finished_in (fst s) i
       | Finished i c b \<Rightarrow> \<not> finished_in (fst s) i
       | Broke i x out \<Rightarrow> \<not> finished_in (fst s) i
       | _ \<Rightarrow> True)
      \<and> lead_lawful es (lead_step e s))"

definition lead_run :: "lead_event list \<Rightarrow> tracker \<times> shown list \<Rightarrow> tracker \<times> shown list" where
  "lead_run es s = fold lead_step es s"

definition told :: "tracker \<times> shown list \<Rightarrow> bool" where
  "told s = (table_ok (tk_statuses (fst s))
     \<and> (\<forall>i \<in> set (tk_reported (fst s)). \<exists>b st. status_of (fst s) i = Some st \<and> is_finished st \<and> (b, i, st) \<in> set (snd s))
     \<and> (\<forall>x \<in> set (snd s). fst (snd x) \<in> set (tk_reported (fst s)))
     \<and> distinct (map (fst \<circ> snd) (filter fst (snd s))))"

lemma status_set: "status_of (set_status i st tk) k = (if k = i then Some st else status_of tk k)"
  by (simp add: status_of_def set_status_def table_simps)

lemma reported_set [simp]: "tk_reported (set_status i st tk) = tk_reported tk"
  by (simp add: set_status_def)

lemma told_set_status:
  assumes "told (tk, h)" "\<not> finished_in tk i"
  shows "told (set_status i st tk, h)"
proof -
  have "status_of (set_status i st tk) k = status_of tk k" if "k \<in> set (tk_reported tk)" for k
    using that assms by (auto simp: told_def finished_in_def status_set)
  moreover have "table_ok (tk_statuses (set_status i st tk))"
    using assms(1) by (simp add: told_def set_status_def)
  ultimately show ?thesis using assms(1) by (simp add: told_def)
qed

lemma fresh_iff: "table_ok (tk_statuses tk) \<Longrightarrow> (i, st) \<in> set (fresh_entries tk) \<longleftrightarrow> status_of tk i = Some st \<and> i \<notin> set (tk_reported tk)"
  by (auto simp: fresh_entries_def status_of_def in_tget_iff)

lemma fresh_distinct: "table_ok (tk_statuses tk) \<Longrightarrow> distinct (map fst (fresh_entries tk))"
proof -
  assume "table_ok (tk_statuses tk)"
  then have "distinct (map fst (filter (\<lambda>(i, st). i \<notin> set (tk_reported tk)) (tk_statuses tk)))"
    by (simp add: table_ok_def distinct_map_filter)
  moreover have "mset (map fst (sort_key fst xs)) = mset (map fst xs)" for xs :: "(string \<times> subagent_status) list" by simp
  ultimately show ?thesis
    unfolding fresh_entries_def using mset_eq_imp_distinct_iff by blast
qed

lemma set_fold_insert: "set (fold List.insert xs ys) = set xs \<union> set ys"
  by (induction xs arbitrary: ys) auto

lemma told_report:
  assumes "told (tk, h)"
  shows "told (lead_step Waited (tk, h))"
proof (cases "tk_statuses tk = []")
  case True
  then show ?thesis using assms by (simp add: report_def fresh_entries_def)
next
  case False
  let ?new = "filter (\<lambda>(i, st). is_finished st) (fresh_entries tk)"
  have ok: "table_ok (tk_statuses tk)" using assms by (simp add: told_def)
  have r: "lead_step Waited (tk, h) = (tk\<lparr>tk_reported := fold List.insert (map fst ?new) (tk_reported tk)\<rparr>, h @ map (\<lambda>(i, st). (True, i, st)) ?new)"
    using False by (simp add: report_def)
  have st: "status_of (tk\<lparr>tk_reported := x\<rparr>) = status_of tk" for x by (simp add: status_of_def fun_eq_iff)
  have "distinct (map fst ?new)" using fresh_distinct [OF ok] by (simp add: distinct_map_filter)
  moreover have "set (map fst ?new) \<inter> set (map (fst \<circ> snd) (filter fst h)) = {}"
    using assms fresh_iff [OF ok] by (fastforce simp: told_def)
  moreover have all: "filter fst (map (\<lambda>(i, st). (True, i, st)) xs) = map (\<lambda>(i, st). (True, i, st)) xs"
      and ids: "map (fst \<circ> snd) (map (\<lambda>(i, st). (True, i, st)) xs) = map fst xs" for xs :: "(string \<times> subagent_status) list"
    by (induction xs) auto
  have "map (fst \<circ> snd) (filter fst (h @ map (\<lambda>(i, st). (True, i, st)) ?new)) = map (fst \<circ> snd) (filter fst h) @ map fst ?new"
    unfolding filter_append map_append all ids by (rule refl)
  ultimately have "distinct (map (fst \<circ> snd) (filter fst (h @ map (\<lambda>(i, st). (True, i, st)) ?new)))"
    using assms by (simp only: distinct_append told_def snd_conv) blast
  moreover have "\<exists>b s. status_of tk i = Some s \<and> is_finished s \<and> (b, i, s) \<in> set (h @ map (\<lambda>(i, st). (True, i, st)) ?new)"
    if "i \<in> set (map fst ?new) \<union> set (tk_reported tk)" for i
    using that assms fresh_iff [OF ok] by (fastforce simp: told_def)
  ultimately show ?thesis
    using assms ok unfolding r told_def by (auto simp: st set_fold_insert)
qed

lemma told_check:
  assumes "told (tk, h)"
  shows "told (lead_step (Checked i) (tk, h))"
proof (cases "checked_shows i tk = []")
  case True
  then have "snd (check_subagent_status i tk tk) = tk"
    by (auto simp: checked_shows_def check_subagent_status_def Let_def mark_reported_def finished_in_def split: option.splits if_splits)
  then show ?thesis using assms True by simp
next
  case False
  then obtain st where st: "status_of tk i = Some st" "is_finished st" "checked_shows i tk = [(False, i, st)]"
    by (auto simp: checked_shows_def split: option.splits if_splits)
  then have tk2: "snd (check_subagent_status i tk tk) = tk\<lparr>tk_reported := List.insert i (tk_reported tk)\<rparr>"
    by (auto simp: checked_shows_def check_subagent_status_def Let_def mark_reported_def finished_in_def split: if_splits)
  have same: "status_of (tk\<lparr>tk_reported := x\<rparr>) = status_of tk" for x by (simp add: status_of_def fun_eq_iff)
  have t: "table_ok (tk_statuses tk)" "\<forall>k \<in> set (tk_reported tk). \<exists>b s. status_of tk k = Some s \<and> is_finished s \<and> (b, k, s) \<in> set h"
      "\<forall>x \<in> set h. fst (snd x) \<in> set (tk_reported tk)" "distinct (map (fst \<circ> snd) (filter fst h))"
    using assms by (simp_all add: told_def)
  have step: "lead_step (Checked i) (tk, h) = (tk\<lparr>tk_reported := List.insert i (tk_reported tk)\<rparr>, h @ [(False, i, st)])"
    by (simp add: tk2 st(3))
  have "\<forall>k \<in> insert i (set (tk_reported tk)). \<exists>b s. status_of tk k = Some s \<and> is_finished s \<and> (b, k, s) \<in> set (h @ [(False, i, st)])"
  proof
    fix k
    assume "k \<in> insert i (set (tk_reported tk))"
    then show "\<exists>b s. status_of tk k = Some s \<and> is_finished s \<and> (b, k, s) \<in> set (h @ [(False, i, st)])"
    proof
      assume "k = i"
      then show ?thesis using st(1,2) by (intro exI [of _ False] exI [of _ st]) simp
    next
      assume "k \<in> set (tk_reported tk)"
      then obtain b s where "status_of tk k = Some s" "is_finished s" "(b, k, s) \<in> set h" using t(2) by blast
      then show ?thesis by (intro exI [of _ b] exI [of _ s]) simp
    qed
  qed
  moreover have "\<forall>x \<in> set (h @ [(False, i, st)]). fst (snd x) \<in> insert i (set (tk_reported tk))" using t(3) by auto
  moreover have "distinct (map (fst \<circ> snd) (filter fst (h @ [(False, i, st)])))" using t(4) by simp
  ultimately show ?thesis using t(1) unfolding step told_def fst_conv snd_conv same by simp
qed

lemma told_run: "told s \<Longrightarrow> lead_lawful es s \<Longrightarrow> told (lead_run es s)"
proof (induction es arbitrary: s)
  case (Cons e es)
  obtain tk h where s: "s = (tk, h)" by (cases s)
  have nf: "status_of tk i = None \<Longrightarrow> \<not> finished_in tk i" for i by (simp add: finished_in_def)
  have "told (lead_step e s)"
    using Cons.prems told_check told_report told_set_status nf unfolding s
    by (cases e) (simp_all add: register_run_def complete_subagent_def fail_with_output_def fail_unless_finished_def)
  then show ?case using Cons by (simp add: lead_run_def)
qed (simp add: lead_run_def)


text \<open>C40: A check that races with the end of the subagent hides its answer. In a run that keeps a log, when the subagent finishes between the check's read of its status and the mark it makes, the lead is told that it still runs while its answer counts as reported: the next report has no entry for it, only its id among those reported earlier.\<close>

theorem check_race_hides_answer:
  assumes "table_ok (tk_statuses tk)" and "status_of tk run_id = Some SubRunning"
    and "tk_run_has_log tk" and "run_id \<notin> set (tk_reported tk)"
    and "check_subagent_status run_id tk (complete_subagent run_id content success tk) = (ans, later)"
  shows "(\<exists>t. ans = Ok t \<and> sublist '' is still running. Check again later'' t)
    \<and> status_of later run_id = Some (SubCompleted content success)
    \<and> run_id \<in> set (tk_reported later) \<and> run_id \<notin> set (map fst (fresh_entries later)) \<and> run_id \<in> set (earlier_ids later)"
proof -
  let ?now = "complete_subagent run_id content success tk"
  obtain t where t: "ans = Ok t" "t = (''Subagent '' @ [CHR 0x27] @ run_id @ [CHR 0x27]) @ '' is still running. Check again later''
      @ ('' or use '' @ [CHR 0x60] @ ''wait_for_subagents'' @ [CHR 0x60] @ ''.'')"
    using assms(2,5) by (simp add: check_subagent_status_def status_answer_def Let_def)
  have fin: "finished_in ?now run_id" by (simp add: finished_in_def complete_subagent_def status_set)
  have later: "later = ?now\<lparr>tk_reported := List.insert run_id (tk_reported tk)\<rparr>"
    using assms(2,3,5) fin
    by (auto simp: check_subagent_status_def status_answer_def Let_def reaches_lead_whole_def mark_reported_def complete_subagent_def set_status_def)
  have st: "status_of later run_id = Some (SubCompleted content success)"
    by (simp add: later complete_subagent_def set_status_def status_of_def table_simps)
  have ok: "table_ok (tk_statuses later)" using assms(1) by (simp add: later complete_subagent_def set_status_def)
  have rep: "run_id \<in> set (tk_reported later)" by (simp add: later)
  have "run_id \<notin> set (map fst (fresh_entries later))" using rep by (auto simp: fresh_entries_def)
  moreover have "run_id \<in> set (earlier_ids later)"
    using st rep by (auto simp: earlier_ids_def status_of_def dest: tget_in intro: rev_image_eqI)
  moreover have "sublist '' is still running. Check again later'' t" unfolding t(2) by (rule sublist_appendI)
  ultimately show ?thesis using t(1) st rep by blast
qed

text \<open>A resumed run loses no subagent. The tracker rebuilt from the entries of a session's log has every one of them finished, as its last entry says, with none reported: a wait returns at once and its report has an entry for each run id, in order, once.\<close>

theorem restored_all_reported:
  assumes "tk = restore subs (tracker_new inline_bytes has_log)"
  shows "all_done tk \<and> tk_reported tk = []
    \<and> map fst (fresh_entries tk) = sorted_list_of_set (set (map ry_run_id subs))
    \<and> (\<forall>i. status_of tk i = map_option restored_status (find (\<lambda>sub. ry_run_id sub = i) (rev subs)))
    \<and> wait_for_subagents [\<lparr>wl_pending = False, wl_tracker = tk, wl_expired = False\<rparr>]
        = Some (finished_header tk @ fst (report tk), snd (report tk))"
proof -
  have fin: "is_finished (restored_status sub)" for sub
    by (auto simp: restored_status_def split: option.split)
  have inv: "table_ok (tk_statuses t) \<and> tk_reported t = [] \<and> (\<forall>i. status_of t i = map_option restored_status (find (\<lambda>sub. ry_run_id sub = i) (rev subs)))"
    if "t = restore subs (tracker_new inline_bytes has_log)" for t
    using that
  proof (induction subs arbitrary: t rule: rev_induct)
    case Nil
    then show ?case by (simp add: restore_def tracker_new_def status_of_def)
  next
    case (snoc sub subs)
    let ?t = "restore subs (tracker_new inline_bytes has_log)"
    have "t = set_status (ry_run_id sub) (restored_status sub) ?t" using snoc.prems by (simp add: restore_def)
    then show ?case using snoc.IH [OF refl] by (auto simp: status_set) (auto simp: set_status_def)
  qed
  have i: "table_ok (tk_statuses tk)" "tk_reported tk = []"
      "\<And>i. status_of tk i = map_option restored_status (find (\<lambda>sub. ry_run_id sub = i) (rev subs))"
    using inv [OF assms] by simp_all
  have finished: "all_done tk"
    using i(1,3) fin by (fastforce simp: all_done_def list_all_iff in_tget_iff status_of_def)
  have "set (map fst (fresh_entries tk)) = set (map ry_run_id subs)"
  proof (rule set_eqI)
    fix x
    have "x \<in> set (map fst (fresh_entries tk)) \<longleftrightarrow> status_of tk x \<noteq> None"
      using fresh_iff [OF i(1)] i(2) by force
    also have "\<dots> \<longleftrightarrow> x \<in> set (map ry_run_id subs)" by (auto simp: i(3) find_None_iff)
    finally show "x \<in> set (map fst (fresh_entries tk)) \<longleftrightarrow> x \<in> set (map ry_run_id subs)" .
  qed
  moreover have "sorted (map fst (fresh_entries tk))" by (simp add: fresh_entries_def)
  ultimately have "map fst (fresh_entries tk) = sorted_list_of_set (set (map ry_run_id subs))"
    using fresh_distinct [OF i(1)] by (metis sorted_list_of_set.idem_if_sorted_distinct)
  then show ?thesis using i(2,3) finished by simp
qed

section \<open>A run\<close>

definition demo_subagent :: tracker where
  "demo_subagent = set_status ''r1'' SubRunning (register_run ''r1'' (tracker_new 32768 True))"

theorem wait_fits_inline_witness:
  "\<exists>answer later. wait_for_subagents [\<lparr>wl_pending = False, wl_tracker = complete_subagent ''r1'' ''forty-two'' True demo_subagent, wl_expired = False\<rparr>]
      = Some (answer, later) \<and> length answer \<le> 32768"
proof -
  let ?tk = "complete_subagent ''r1'' ''forty-two'' True demo_subagent"
  have "all_done ?tk" by (simp add: all_done_def complete_subagent_def set_status_def demo_subagent_def register_run_def tracker_new_def)
  then obtain answer later where w: "wait_for_subagents [\<lparr>wl_pending = False, wl_tracker = ?tk, wl_expired = False\<rparr>] = Some (answer, later)"
    by (auto simp: Let_def)
  show ?thesis
    using w wait_fits_inline [OF w, of 32768]
    by (simp add: well_sized_def fresh_entries_def complete_subagent_def set_status_def demo_subagent_def register_run_def tracker_new_def
        SUMMARY_HEADER_RESERVE_BYTES_def)
qed


theorem check_race_hides_answer_witness:
  "\<exists>ans later. check_subagent_status ''r1'' demo_subagent (complete_subagent ''r1'' ''forty-two'' True demo_subagent) = (ans, later)
     \<and> ''r1'' \<in> set (tk_reported later) \<and> ''r1'' \<notin> set (map fst (fresh_entries later))"
proof -
  obtain ans later where c: "check_subagent_status ''r1'' demo_subagent (complete_subagent ''r1'' ''forty-two'' True demo_subagent) = (ans, later)"
    by fastforce
  have start: "table_ok (tk_statuses demo_subagent)" "status_of demo_subagent ''r1'' = Some SubRunning" "''r1'' \<notin> set (tk_reported demo_subagent)"
      "tk_run_has_log demo_subagent"
    by (simp_all add: demo_subagent_def register_run_def set_status_def tracker_new_def status_of_def table_ok_def)
  show ?thesis
    using c check_race_hides_answer [OF start(1) _ _ _ c] start by blast
qed

theorem restored_all_reported_witness:
  "\<exists>tk. tk = restore [\<lparr>ry_run_id = ''r1'', ry_close = None\<rparr>] (tracker_new 32768 True) \<and> all_done tk \<and> map fst (fresh_entries tk) = [''r1'']"
  using restored_all_reported [OF refl, of "[\<lparr>ry_run_id = ''r1'', ry_close = None\<rparr>]" 32768 True] by auto

end
