(* ===== verification/Spec2Isabelle.thy ===== *)
theory Spec2Isabelle
  imports Circuit_Breaker Router_Laws Lane Sanitizer Url_Validation Confirmation Sandbox Utf8 Loop_Properties Session_Recovery File_Tools Subagents
begin

text \<open>
  A verification library of OpenAlpaca's core: the loop that runs a conversation, the sandbox every tool
  call passes, the router that reaches the models, the log a conversation leaves and is rebuilt from, and
  the tools that change a project's files. Paths below are under \<open>crates/\<close>; \<open>core\<close> is \<open>openalpaca_core/src\<close>,
  \<open>llm\<close> is \<open>openalpaca_llm/src\<close>, \<open>storage\<close> is \<open>openalpaca_storage/src\<close>.

  How the parts meet. A turn of a lane (\<open>Lane\<close>) runs the agentic loop (\<open>Agentic_Loop\<close>). Each round the loop
  drains what the user sent meanwhile (\<open>Steering\<close>), compacts its context when the budget asks for it
  (\<open>Context_Budget\<close>, \<open>Compaction\<close>), asks the router for an answer (\<open>Router_Ladder\<close>, \<open>Router_Call\<close>), which takes
  a key from the pool (\<open>Key_Pool\<close>) under the limiter (\<open>Rate_Limiter\<close>), charges the call (\<open>Cost_Tracker\<close>), and
  hands every tool call of the answer to the sandbox (\<open>Sandbox\<close>): capabilities, sanitizer, approval, circuit
  breaker, execution. Every step is a record of the session's log (\<open>Session_Log\<close>, \<open>Session_Envelope\<close>,
  \<open>Session_Writer\<close>), from which a later process rebuilds the history (\<open>Session_Reader\<close>, \<open>Session_Replay\<close>) and the
  words nobody took (\<open>Session_Recovery\<close>). The file tools (\<open>File_Tools\<close>) resolve a path (\<open>Workspace\<close>) in the
  call's working folder (\<open>Working_Folder\<close>), have the log's writer keep a copy (\<open>Pre_Edit\<close>), then write.
\<close>

section \<open>Theories and sources\<close>

text \<open>
  Shared: \<open>Prelude\<close> (results as sums, strings as bytes, words, lists), \<open>Json\<close> (values and canonical form),
  \<open>White_Space\<close>, \<open>Text_Cut\<close> (cuts at character boundaries: \<open>core/utils/text.rs\<close>), \<open>Utf8\<close>
  (\<open>llm/providers/utf8.rs\<close>), \<open>Breaker_Interface\<close> (what the two circuit breakers promise, as a locale).

  Security: \<open>Capabilities\<close>, \<open>Sanitizer\<close>, \<open>Confirmation\<close>, \<open>Circuit_Breaker\<close>, \<open>Sandbox\<close>
  (\<open>core/security/capabilities\<close>, \<open>sanitizer\<close>, \<open>confirmation.rs\<close>, \<open>circuit_breaker\<close>, \<open>sandbox\<close>),
  \<open>Url_Validation\<close> (\<open>core/tools/url_validation.rs\<close>). The state is a record per component; \<open>execute_tool\<close>
  threads one record through the seven steps of the source, every early return an error value.

  Models: \<open>Llm_Types\<close>, \<open>Tool_Arguments\<close>, \<open>Key_Pool\<close>, \<open>Rate_Limiter\<close>, \<open>Model_Registry\<close>, \<open>Cost_Tracker\<close>,
  \<open>Router_Ladder\<close>, \<open>Router_Call\<close>, \<open>Router_Laws\<close> (\<open>llm/types.rs\<close>, \<open>tool_arguments.rs\<close>, \<open>keys/key_pool\<close>,
  \<open>routing/*\<close>).

  The loop: \<open>Loop_Config\<close>, \<open>Agentic_Loop\<close>, \<open>Loop_Laws\<close>, \<open>Loop_Properties\<close> (\<open>core/runner/agentic_loop/*\<close>),
  \<open>Steering\<close> (\<open>core/runner/steering.rs\<close>), \<open>Followup_Queue\<close> (\<open>storage/repository/followup\<close>), \<open>Context_Budget\<close>,
  \<open>Compaction\<close> (\<open>core/context_budget\<close>, \<open>core/prompt_ctx/compaction\<close>), \<open>Working_State\<close>
  (\<open>core/orchestrator/working_state.rs\<close>), \<open>Lane\<close> (\<open>core/lane\<close>), \<open>Subagents\<close> (the tracker of a lead's subagents
  and the two tools that read it, \<open>core/runner/lead_agent\<close>).

  The log: \<open>Session_Log\<close>, \<open>Session_Envelope\<close>, \<open>Session_Reader\<close>, \<open>Session_Replay\<close>, \<open>Session_Writer\<close>
  (\<open>core/session_log/mod.rs\<close>, \<open>record.rs\<close>, \<open>reader.rs\<close>, \<open>replay.rs\<close>, \<open>writer.rs\<close>), and what holds of them together:
  \<open>Session_Durability\<close> (writer against reader), \<open>Session_Resume\<close> (loop against replay), \<open>Session_Recovery\<close>
  (\<open>recovery.rs\<close> against the steering of the loop).

  The files: \<open>Workspace\<close> (\<open>core/tools/builtins/helpers\<close>), \<open>Working_Folder\<close> (\<open>core/tools/working_folder.rs\<close>,
  \<open>create_below\<close> of \<open>storage/store\<close>), \<open>Pre_Edit\<close> (\<open>pre_edit.rs\<close>), \<open>File_Edit\<close> (\<open>apply_edit\<close>), \<open>File_Tools\<close>
  (\<open>file_ops.rs\<close>).
\<close>

section \<open>What is shown\<close>

text \<open>
  Safety of a call: a tool runs only after every gate passed, an approval cannot be made up by a caller,
  every prompt is answered or withdrawn once, garbled arguments never reach a tool, a URL that leads inside
  is refused. The router: which error a call ends with and after which attempts; a local server is never
  asked for a key; what a call costs is what the ledger holds. The loop: it returns within its bound, every
  request it sends is well paired, no interjection is lost or doubled, no request goes out over the cost
  cap. The log: what the writer appended is what the reader reads, up to trimmed segments; reopening after a
  crash continues the numbers; a batch of tool calls is rebuilt as it was; what a recovery files is what
  nobody drained. The files: a path resolves inside its folder, an edit changes what it says, a tool's
  answer is true, and what a tool overwrites is in the log first. Subagents: an answer taken for reported was
  shown to the lead, and a wait's report fits the bound of a tool result.

  Laws the code breaks are theorems too, each with the concrete run that breaks it; the findings of the
  manifest name them.
\<close>

section \<open>Idealisations, bounds and fuel\<close>

text \<open>
  Machine integers are words where the code can reach their limits (counters of the limiters, of the
  breakers and of the cost in micro-units) and naturals where it cannot (lengths, the failure counters of
  the tool breaker, record numbers). Fractions of seconds and of money are rationals. A string is its bytes.
  Tables of the Unicode standard, hashing, parsing and printing of JSON by \<open>serde_json\<close>, the wording of an
  error by the system, the database's rows and the registry of projects are arguments; theorems hold for
  every value of them, and what a theorem needs of one is a hypothesis with a witness.

  Time, the answers of models and of tools, the order in which tasks of a batch end and what a disk refuses
  are lists or functions the definitions take as input, so that every interleaving the awaits of the code
  allow is a value of the argument. A mutex makes each operation one function of the state. The file system
  is a tree with links, walked with at most \<open>MAX_LINKS\<close> = 40 links as the system does; one file tool runs
  alone on it; what the system refuses, and after how many bytes, is a list.

  Recursion is structural or has a measure. The router's ladder takes at most three times the larger of the
  number of keys and of retries (\<open>attempt_limit\<close>); the loop runs at most twice its configured rounds, which
  the fuel of \<open>loop_run\<close> exceeds, and that it returns is a theorem. Compaction ends because each tier
  shortens its input or is left.
\<close>

section \<open>Not modelled\<close>

text \<open>
  Input and output proper: HTTP transports of providers and connectors, the daemon's routes, the command
  line, the desktop interface, processes of plugins, shells and MCP servers, SQL other than the follow-up
  queue, encryption of secrets, configuration files. Of the core: the assembly of prompts, memory and its
  retrieval, the dispatcher of turns and its skills, the spawning of subagents and their plan, the sweep of abandoned
  session directories, the approval cards, artifacts. Races between two file tools, and between a tool and
  another program on the same files, are outside the model of the files; so is a folder of a path replaced
  by a link between its resolution and its opening, which the source records as open.

  What a later extension would take first: the learning queue
  (\<open>core/memory/learning\<close>), the markdown partition of \<open>storage/memory_files\<close>, re-points of projects.
\<close>

end
